(* ===== verification/Prelude.thy ===== *)
theory Prelude
  imports Main "HOL-Library.Word"
begin

text \<open>
  Shared vocabulary of the development: bytes and machine words, the error values the Go
  code returns, big-endian fields (\<open>encoding/binary\<close>), sequential readers
  (\<open>bytes.Reader\<close> with \<open>io.ReadFull\<close>), Go's instants and durations, and the generic
  list lemmas that the component theories use.
\<close>

unbundle bit_operations_syntax

section \<open>Types\<close>

type_synonym byte = "8 word"
type_synonym bytes = "8 word list"
type_synonym u16 = "16 word"
type_synonym u32 = "32 word"
type_synonym u64 = "64 word"

text \<open>
  A \<open>time.Time\<close> is the number of nanoseconds since Go's zero time, so that \<open>IsZero\<close> is
  equality with 0 and \<open>Before\<close> / \<open>After\<close> are the order of the integers. A
  \<open>time.Duration\<close> is a signed 64-bit count of nanoseconds; arithmetic whose overflow matters
  wraps explicitly with \<open>int64\<close>.
\<close>

type_synonym time = int
type_synonym duration = int

abbreviation (input) IsZero :: "time \<Rightarrow> bool" where
  "IsZero t \<equiv> t = 0"

definition int64 :: "int \<Rightarrow> int" where
  "int64 k = signed_take_bit 63 k"

definition second :: duration where
  "second = 1000000000"

text \<open>
  Errors: the package-level sentinel values, sentinels extended with a message
  (\<open>E.Extend\<close>), fresh errors (\<open>E.New\<close>), errors handed up from below (the socket, the random
  source, the cipher implementations), and a run-time panic.
\<close>

datatype sentinel =
    ErrPacketTooShort | ErrPacketParse | ErrPacketSerialize
  | ErrMissingRemoteSessionID | ErrPacketIDExpired | ErrInvalidOpcode
  | ErrPacketTooLarge | ErrBadEncapsulatedPacketLength
  | ErrIPPoolExhausted | ErrCompressionNotSupported
  | ErrInvalidAllowCompression | ErrAllowCompressionConflict
  | ErrCipherNegotiationFailed | ErrMissingStaticKey | ErrMaterialSourceConflict
  | ErrPeerNotFound | ErrServerClosed | ErrServerResourceLimit | ErrPeerRestart
  | ErrPullFilterRejected | ErrCompressionPushRejected | ErrOptionNotSupported | ErrAuthenticationFailed
  | ErrServerRestart | ErrServerHalt | ErrServerExit | ErrDataChannelNotReady | ErrRenegotiationRequired
  | ErrUnsupportedProtocol | ErrUnsupportedMode | ErrMissingServer | ErrMissingListenAddress
  | ErrNoProgress | ErrShortWrite | ErrClosed | ErrDeadlineExceeded | ErrEOF

datatype error = Sentinel sentinel | Extend sentinel string | New string | Link nat | Panic

type_synonym 'a result = "error + 'a"

text \<open>The early return \<open>if err != nil { return err }\<close> after a fallible call.\<close>

definition bindE :: "'a result \<Rightarrow> ('a \<Rightarrow> 'b result) \<Rightarrow> 'b result" where
  "bindE m f = (case m of Inl e \<Rightarrow> Inl e | Inr x \<Rightarrow> f x)"

lemma bindE_simps [simp]: "bindE (Inl e) f = Inl e" "bindE (Inr x) f = f x"
  by (simp_all add: bindE_def)

lemma bindE_Inr_iff: "bindE m f = Inr y \<longleftrightarrow> (\<exists>x. m = Inr x \<and> f x = Inr y)"
  by (cases m) simp_all

lemma bindE_split: "P (bindE m f) \<longleftrightarrow> (\<forall>e. m = Inl e \<longrightarrow> P (Inl e)) \<and> (\<forall>x. m = Inr x \<longrightarrow> P (f x))"
  by (cases m) simp_all

text \<open>Go's \<open>copy(dst[i:], src)\<close>.\<close>

definition go_copy :: "bytes \<Rightarrow> nat \<Rightarrow> bytes \<Rightarrow> bytes" where
  "go_copy dst i src = take i dst @ take (length dst - i) src @ drop (i + length src) dst"

section \<open>Collections of facts\<close>

named_theorems wire \<open>lengths and round trips of wire encodings\<close>
named_theorems frame \<open>state components an operation leaves unchanged\<close>

section \<open>Big-endian fields\<close>

definition put_u16 :: "u16 \<Rightarrow> bytes" where
  "put_u16 v = [ucast (drop_bit 8 v), ucast v]"

definition put_u32 :: "u32 \<Rightarrow> bytes" where
  "put_u32 v = [ucast (drop_bit 24 v), ucast (drop_bit 16 v), ucast (drop_bit 8 v), ucast v]"

text \<open>
  \<open>binary.BigEndian.Uint16\<close> and \<open>Uint32\<close> read the front of a slice. Every caller has
  checked the length before; the last equation only makes the functions total.
\<close>

fun get_u16 :: "bytes \<Rightarrow> u16" where
  "get_u16 (a # b # _) = push_bit 8 (ucast a) OR ucast b"
| "get_u16 _ = 0"

fun get_u32 :: "bytes \<Rightarrow> u32" where
  "get_u32 (a # b # c # d # _) =
     push_bit 24 (ucast a) OR push_bit 16 (ucast b) OR push_bit 8 (ucast c) OR ucast d"
| "get_u32 _ = 0"

text \<open>
  A sequential read of \<open>n\<close> bytes: \<open>io.ReadFull\<close> and \<open>binary.Read\<close> on a
  \<open>bytes.Reader\<close> fail when fewer are left.
\<close>

definition read_n :: "nat \<Rightarrow> bytes \<Rightarrow> (bytes \<times> bytes) option" where
  "read_n n bs = (if length bs < n then None else Some (take n bs, drop n bs))"

text \<open>Reading \<open>n\<close> fields of width \<open>w\<close> in sequence, failing at the first short one.\<close>

fun read_many :: "nat \<Rightarrow> (bytes \<Rightarrow> 'v) \<Rightarrow> nat \<Rightarrow> bytes \<Rightarrow> ('v list \<times> bytes) option" where
  "read_many w dec 0 bs = Some ([], bs)"
| "read_many w dec (Suc n) bs =
     (case read_n w bs of
        None \<Rightarrow> None
      | Some (b, rest) \<Rightarrow>
          (case read_many w dec n rest of
             None \<Rightarrow> None
           | Some (vs, rest') \<Rightarrow> Some (dec b # vs, rest')))"

lemma length_put [simp, wire]: "length (put_u16 v) = 2" "length (put_u32 w) = 4"
  by (simp_all add: put_u16_def put_u32_def)

lemma get_u16_put [simp, wire]: "get_u16 (put_u16 v @ r) = v"
  by (rule bit_word_eqI) (auto simp: put_u16_def bit_simps)

lemma get_u32_put [simp, wire]: "get_u32 (put_u32 v @ r) = v"
proof (rule bit_word_eqI)
  fix n assume "n < LENGTH(32)"
  then consider "n < 8" | "8 \<le> n" "n < 16" | "16 \<le> n" "n < 24" | "24 \<le> n" "n < 32"
    by fastforce
  then show "bit (get_u32 (put_u32 v @ r)) n = bit v n"
    by cases (auto simp: put_u32_def bit_simps)
qed

lemma not_bit_byte: "8 \<le> n \<Longrightarrow> \<not> bit (b :: byte) n"
  using bit_imp_le_length [of b n] by auto

lemma unat_byte_le: "unat (b :: byte) \<le> 255"
  using unsigned_less [of b, where 'a = nat] by simp

lemma bit_less_2p:
  assumes "(w :: 'a::len word) < 2 ^ n" "bit w m"
  shows "m < n"
proof -
  have "w AND mask n = w" using assms(1) by (rule less_mask_eq)
  with assms(2) have "bit (w AND mask n) m" by simp
  then show ?thesis by (simp add: bit_simps)
qed

lemma less_2p_bits:
  assumes "n < LENGTH('a)" "\<And>m. bit w m \<Longrightarrow> m < n"
  shows "(w :: 'a::len word) < 2 ^ n"
proof -
  have "w AND mask n = w" using assms(2) by (auto simp: bit_simps intro!: bit_word_eqI)
  then show ?thesis using assms(1) and_mask_less' [of n w] by simp
qed

lemma put_u16_get: "put_u16 (push_bit 8 (ucast a) OR ucast b) = [a, b]"
  by (auto simp: put_u16_def bit_simps not_bit_byte intro!: bit_word_eqI)

lemma put_u32_get:
  "put_u32 (push_bit 24 (ucast a) OR push_bit 16 (ucast b) OR push_bit 8 (ucast c) OR ucast d) =
     [a, b, c, d]"
  by (auto simp: put_u32_def bit_simps not_bit_byte intro!: bit_word_eqI)

lemma length_eq_2: "length xs = 2 \<longleftrightarrow> (\<exists>a b. xs = [a, b])"
  by (auto simp: numeral_2_eq_2 length_Suc_conv)

lemma length_eq_4: "length xs = 4 \<longleftrightarrow> (\<exists>a b c d. xs = [a, b, c, d])"
  by (auto simp: numeral_eq_Suc length_Suc_conv)

section \<open>Sequential reads\<close>

lemma read_n_append [simp, wire]: "length b = n \<Longrightarrow> read_n n (b @ r) = Some (b, r)"
  by (simp add: read_n_def)

lemma read_n_SomeD:
  "read_n n bs = Some (b, r) \<Longrightarrow> bs = b @ r \<and> length b = n"
  by (auto simp: read_n_def split: if_splits)

lemma read_n_None_iff: "read_n n bs = None \<longleftrightarrow> length bs < n"
  by (simp add: read_n_def)

text \<open>
  The contract of a fixed-width field: its encoding has the width, decoding inverts
  encoding, and every run of \<open>width\<close> bytes is the encoding of what it decodes to.
\<close>

locale field_codec =
  fixes enc :: "'v \<Rightarrow> bytes"
    and dec :: "bytes \<Rightarrow> 'v"
    and width :: nat
  assumes length_enc: "length (enc v) = width"
    and dec_enc: "dec (enc v @ r) = v"
    and enc_dec: "length b = width \<Longrightarrow> enc (dec b) = b"
begin

lemma dec_enc_exact: "dec (enc v) = v"
  using dec_enc [of v "[]"] by simp

lemma enc_inj: "enc v = enc w \<longleftrightarrow> v = w"
  by (metis dec_enc_exact)

lemma length_concat_enc: "length (concat (map enc vs)) = width * length vs"
  by (induction vs) (simp_all add: length_enc)

lemma read_many_enc:
  "read_many width dec (length vs) (concat (map enc vs) @ r) = Some (vs, r)"
  by (induction vs) (simp_all add: length_enc dec_enc_exact)

lemma read_many_SomeD:
  "read_many width dec n bs = Some (vs, r) \<Longrightarrow>
     length vs = n \<and> bs = concat (map enc vs) @ r"
proof (induction n arbitrary: bs vs)
  case 0
  then show ?case by simp
next
  case (Suc n)
  then obtain b rest vs' where
      b: "read_n width bs = Some (b, rest)"
    and rest: "read_many width dec n rest = Some (vs', r)"
    and vs: "vs = dec b # vs'"
    by (auto split: option.splits)
  from read_n_SomeD [OF b] Suc.IH [OF rest] vs show ?case
    by (simp add: enc_dec)
qed

end

interpretation u16_field: field_codec put_u16 get_u16 2
  by unfold_locales (auto simp: length_eq_2 put_u16_get)

interpretation u32_field: field_codec put_u32 get_u32 4
  by unfold_locales (auto simp: length_eq_4 put_u32_get)

declare u16_field.dec_enc_exact [simp, wire] u32_field.dec_enc_exact [simp, wire]

section \<open>Lists\<close>

lemma take_append_exact [simp]: "length xs = n \<Longrightarrow> take n (xs @ ys) = xs"
  by simp

lemma drop_append_exact [simp]: "length xs = n \<Longrightarrow> drop n (xs @ ys) = ys"
  by simp

section \<open>Sums\<close>

lemma sum_update:
  fixes g :: "nat \<Rightarrow> int"
  assumes "k < n"
  shows "(\<Sum>i < n. if i = k then x else g i) = (\<Sum>i < n. g i) - g k + x"
proof -
  have "(\<Sum>i < n. if i = k then x else g i) = x + (\<Sum>i \<in> {..<n} - {k}. g i)"
    using assms by (subst sum.remove [of _ k]) auto
  moreover have "(\<Sum>i < n. g i) = g k + (\<Sum>i \<in> {..<n} - {k}. g i)"
    using assms by (subst sum.remove [of _ k]) auto
  ultimately show ?thesis by simp
qed

section \<open>Words as numbers\<close>

lemma unat_get_u16 [wire]: "unat (get_u16 (a # b # r)) = 256 * unat a + unat b"
proof -
  have "push_bit 8 (ucast a :: u16) OR ucast b = push_bit 8 (ucast a) + ucast b"
    by (rule disjunctive_add [symmetric]) (auto simp: bit_simps not_bit_byte)
  moreover have "push_bit 8 (ucast a :: u16) = of_nat (256 * unat a)"
    by (simp add: push_bit_eq_mult of_nat_unat)
  moreover have "(ucast b :: u16) = of_nat (unat b)" by (simp add: of_nat_unat)
  ultimately have "get_u16 (a # b # r) = of_nat (256 * unat a + unat b)"
    by (simp only: get_u16.simps of_nat_add)
  then have "unat (get_u16 (a # b # r)) = (256 * unat a + unat b) mod 65536"
    by (simp only: unat_of_nat) simp
  moreover have "256 * unat a + unat b < 65536"
    using unat_byte_le [of a] unat_byte_le [of b] by linarith
  ultimately show ?thesis by simp
qed

lemma unat_not: "unat (NOT x :: 'a::len word) = 2 ^ LENGTH('a) - 1 - unat x"
proof -
  have "NOT x = - 1 - x" by (simp add: not_eq_complement)
  moreover have "unat (- 1 - x) = unat (- 1 :: 'a word) - unat x"
    by (rule unat_sub) simp
  ultimately show ?thesis by (simp add: unsigned_minus_1_eq_mask mask_eq_exp_minus_1)
qed

end
