(* ===== verification/Packet.thy ===== *)
theory Packet
  imports Prelude
begin

text \<open>
  The packet codec of \<open>proto/packet.go\<close>: opcodes, the packet structure, the parser for raw
  datagrams (\<open>ParsePacket\<close>, its view variant and the control part) and the serializer
  (\<open>Packet.Bytes\<close>). The parser and the serializer are shown to be inverse to each other on
  every packet the parser can produce.
\<close>

section \<open>Opcodes\<close>

type_synonym opcode = byte
type_synonym packet_id = u32
type_synonym session_id = bytes

definition OpcodeControlHardResetClientV1 :: opcode where "OpcodeControlHardResetClientV1 = 1"
definition OpcodeControlHardResetServerV1 :: opcode where "OpcodeControlHardResetServerV1 = 2"
definition OpcodeControlSoftResetV1 :: opcode where "OpcodeControlSoftResetV1 = 3"
definition OpcodeControlV1 :: opcode where "OpcodeControlV1 = 4"
definition OpcodeAcknowledgmentV1 :: opcode where "OpcodeAcknowledgmentV1 = 5"
definition OpcodeDataV1 :: opcode where "OpcodeDataV1 = 6"
definition OpcodeControlHardResetClientV2 :: opcode where "OpcodeControlHardResetClientV2 = 7"
definition OpcodeControlHardResetServerV2 :: opcode where "OpcodeControlHardResetServerV2 = 8"
definition OpcodeDataV2 :: opcode where "OpcodeDataV2 = 9"
definition OpcodeControlHardResetClientV3 :: opcode where "OpcodeControlHardResetClientV3 = 10"
definition OpcodeControlWKCv1 :: opcode where "OpcodeControlWKCv1 = 11"

lemmas opcode_defs =
  OpcodeControlHardResetClientV1_def OpcodeControlHardResetServerV1_def
  OpcodeControlSoftResetV1_def OpcodeControlV1_def OpcodeAcknowledgmentV1_def
  OpcodeDataV1_def OpcodeControlHardResetClientV2_def OpcodeControlHardResetServerV2_def
  OpcodeDataV2_def OpcodeControlHardResetClientV3_def OpcodeControlWKCv1_def

definition opcode_String :: "opcode \<Rightarrow> string" where
  "opcode_String oc =
     (if oc = OpcodeControlHardResetClientV1 then ''P_CONTROL_HARD_RESET_CLIENT_V1''
      else if oc = OpcodeControlHardResetServerV1 then ''P_CONTROL_HARD_RESET_SERVER_V1''
      else if oc = OpcodeControlSoftResetV1 then ''P_CONTROL_SOFT_RESET_V1''
      else if oc = OpcodeControlV1 then ''P_CONTROL_V1''
      else if oc = OpcodeAcknowledgmentV1 then ''P_ACK_V1''
      else if oc = OpcodeDataV1 then ''P_DATA_V1''
      else if oc = OpcodeControlHardResetClientV2 then ''P_CONTROL_HARD_RESET_CLIENT_V2''
      else if oc = OpcodeControlHardResetServerV2 then ''P_CONTROL_HARD_RESET_SERVER_V2''
      else if oc = OpcodeDataV2 then ''P_DATA_V2''
      else if oc = OpcodeControlHardResetClientV3 then ''P_CONTROL_HARD_RESET_CLIENT_V3''
      else if oc = OpcodeControlWKCv1 then ''P_CONTROL_WKC_V1''
      else ''P_UNKNOWN'')"

definition IsControl :: "opcode \<Rightarrow> bool" where
  "IsControl oc \<longleftrightarrow> oc \<in> {OpcodeControlHardResetClientV1, OpcodeControlHardResetServerV1,
     OpcodeControlSoftResetV1, OpcodeControlV1, OpcodeControlHardResetClientV2,
     OpcodeControlHardResetServerV2, OpcodeControlHardResetClientV3, OpcodeControlWKCv1}"

definition IsData :: "opcode \<Rightarrow> bool" where
  "IsData oc \<longleftrightarrow> oc \<in> {OpcodeDataV1, OpcodeDataV2}"

section \<open>Packets\<close>

definition SessionIDLength :: nat where "SessionIDLength = 8"
definition PacketIDLength :: nat where "PacketIDLength = 4"

record packet =
  Opcode :: opcode
  KeyID :: byte
  PeerID :: bytes
  LocalSessionID :: session_id
  AcknowledgmentIDs :: "packet_id list"
  RemoteSessionID :: session_id
  ID :: packet_id
  Payload :: bytes

definition zero_session_id :: session_id where
  "zero_session_id = replicate SessionIDLength 0"

definition zero_packet :: packet where
  "zero_packet = \<lparr>Opcode = 0, KeyID = 0, PeerID = [0, 0, 0], LocalSessionID = zero_session_id,
     AcknowledgmentIDs = [], RemoteSessionID = zero_session_id, ID = 0, Payload = []\<rparr>"

definition NewPacket :: "opcode \<Rightarrow> byte \<Rightarrow> bytes \<Rightarrow> packet" where
  "NewPacket opcode keyID payload =
     zero_packet\<lparr>Opcode := opcode, KeyID := keyID, AcknowledgmentIDs := [], Payload := payload\<rparr>"

section \<open>Parsing\<close>

definition parseControlOrAcknowledgmentPacket :: "packet \<Rightarrow> bytes \<Rightarrow> packet result" where
  "parseControlOrAcknowledgmentPacket packet packetBody =
     (if length packetBody < SessionIDLength + 1 then Inl (Sentinel ErrPacketTooShort)
      else case read_n SessionIDLength packetBody of
        None \<Rightarrow> Inl (Extend ErrPacketParse ''read local session id: '')
      | Some (localID, r1) \<Rightarrow>
      (case r1 of
        [] \<Rightarrow> Inl (Extend ErrPacketParse ''read acknowledgment count: '')
      | count # r2 \<Rightarrow>
      (case read_many 4 get_u32 (unat count) r2 of
        None \<Rightarrow> Inl (Extend ErrPacketParse ''read acknowledgment id: '')
      | Some (acks, r3) \<Rightarrow>
      (case (if length acks > 0 then read_n SessionIDLength r3
             else Some (RemoteSessionID packet, r3)) of
        None \<Rightarrow> Inl (Extend ErrPacketParse ''read remote session id: '')
      | Some (remoteID, r4) \<Rightarrow>
      (case (if Opcode packet \<noteq> OpcodeAcknowledgmentV1
             then map_option (\<lambda>(b, r). (get_u32 b, r)) (read_n 4 r4)
             else Some (ID packet, r4)) of
        None \<Rightarrow> Inl (Extend ErrPacketParse ''read packet id: '')
      | Some (packetID, r5) \<Rightarrow>
          Inr (packet\<lparr>LocalSessionID := localID, AcknowledgmentIDs := acks,
            RemoteSessionID := remoteID, ID := packetID,
            Payload := (if length r5 > 0 then r5 else Payload packet)\<rparr>))))))"

definition ParsePacket :: "bytes \<Rightarrow> packet result" where
  "ParsePacket rawPacket =
     (case rawPacket of
        [] \<Rightarrow> Inl (Sentinel ErrPacketTooShort)
      | h # body \<Rightarrow>
          (let opcode = drop_bit 3 h; keyID = h AND 7;
               packet = zero_packet\<lparr>Opcode := opcode, KeyID := keyID\<rparr>
           in if opcode = OpcodeDataV2 \<and> length body < 3 then Inl (Sentinel ErrPacketTooShort)
              else let packet = (if opcode = OpcodeDataV2 then packet\<lparr>PeerID := take 3 body\<rparr>
                                 else packet);
                       body = (if opcode = OpcodeDataV2 then drop 3 body else body)
                   in if IsControl opcode \<or> opcode = OpcodeAcknowledgmentV1
                      then parseControlOrAcknowledgmentPacket packet body
                      else Inr (packet\<lparr>Payload := Payload packet @ body\<rparr>)))"

definition ParsePacketView :: "bytes \<Rightarrow> packet result" where
  "ParsePacketView rawPacket =
     (case rawPacket of
        [] \<Rightarrow> Inl (Sentinel ErrPacketTooShort)
      | h # body \<Rightarrow>
          (let opcode = drop_bit 3 h
           in if \<not> IsData opcode then ParsePacket rawPacket
              else let packet = zero_packet\<lparr>Opcode := opcode, KeyID := h AND 7\<rparr>
              in if opcode = OpcodeDataV2 \<and> length body < 3 then Inl (Sentinel ErrPacketTooShort)
                 else let packet = (if opcode = OpcodeDataV2 then packet\<lparr>PeerID := take 3 body\<rparr>
                                    else packet);
                          body = (if opcode = OpcodeDataV2 then drop 3 body else body)
                      in Inr (packet\<lparr>Payload := body\<rparr>)))"

section \<open>Serializing\<close>

definition packet_Bytes :: "packet \<Rightarrow> bytes result" where
  "packet_Bytes p =
     (let h = push_bit 3 (Opcode p) OR (KeyID p AND 7)
      in if Opcode p = OpcodeDataV2 then Inr (h # PeerID p @ Payload p)
         else if IsControl (Opcode p) \<or> Opcode p = OpcodeAcknowledgmentV1 then
           (if length (AcknowledgmentIDs p) > 255
            then Inl (Extend ErrPacketSerialize ''too many acknowledgments'')
            else Inr (h # LocalSessionID p
                   @ [of_nat (length (AcknowledgmentIDs p))]
                   @ concat (map put_u32 (AcknowledgmentIDs p))
                   @ (if length (AcknowledgmentIDs p) > 0 then RemoteSessionID p else [])
                   @ (if Opcode p \<noteq> OpcodeAcknowledgmentV1 then put_u32 (ID p) else [])
                   @ Payload p))
         else Inr (h # Payload p))"

text \<open>
  The packets the wire can carry: array fields have their length, the opcode and the key id
  fit the header byte, and fields that the opcode does not transmit have their zero value.
\<close>

definition wire_packet :: "packet \<Rightarrow> bool" where
  "wire_packet p \<longleftrightarrow>
     Opcode p < 32 \<and> KeyID p < 8 \<and> length (PeerID p) = 3 \<and>
     length (LocalSessionID p) = SessionIDLength \<and> length (RemoteSessionID p) = SessionIDLength \<and>
     length (AcknowledgmentIDs p) \<le> 255 \<and>
     (Opcode p \<noteq> OpcodeDataV2 \<longrightarrow> PeerID p = [0, 0, 0]) \<and>
     (AcknowledgmentIDs p = [] \<longrightarrow> RemoteSessionID p = zero_session_id) \<and>
     (\<not> IsControl (Opcode p) \<longrightarrow> ID p = 0) \<and>
     (\<not> IsControl (Opcode p) \<and> Opcode p \<noteq> OpcodeAcknowledgmentV1 \<longrightarrow>
        AcknowledgmentIDs p = [] \<and> LocalSessionID p = zero_session_id)"

section \<open>The parser and the serializer are inverse\<close>

lemma and_7: "(h :: byte) AND 7 = take_bit 3 h"
  by (simp add: take_bit_eq_mask mask_eq_exp_minus_1)

lemma header_fields:
  assumes "oc < (32 :: byte)" "k < (8 :: byte)"
  shows "drop_bit 3 (push_bit 3 oc OR (k AND 7)) = oc" "(push_bit 3 oc OR (k AND 7)) AND 7 = k"
  using bit_less_2p [of oc 5] bit_less_2p [of k 3] assms
  by (auto simp: and_7 bit_simps intro!: bit_word_eqI)

lemma header_join: "drop_bit 3 h = oc \<Longrightarrow> push_bit 3 oc OR (h AND 7) = (h :: byte)"
  by (auto simp: and_7 bit_simps intro!: bit_word_eqI)

lemma header_bounds: "drop_bit 3 h < (32 :: byte)" "h AND 7 < (8 :: byte)"
proof -
  have "m < 5" if "bit (drop_bit 3 h) m" for m
    using that not_bit_byte [of "3 + m" h] by (cases "m < 5") (auto simp: bit_simps)
  then show "drop_bit 3 h < 32" using less_2p_bits [of 5 "drop_bit 3 h"] by simp
  show "h AND 7 < 8" using less_2p_bits [of 3 "h AND 7"] by (simp add: and_7 bit_simps)
qed

lemma zero_lengths [simp]:
  "length zero_session_id = SessionIDLength" "length (PeerID zero_packet) = 3"
  "LocalSessionID zero_packet = zero_session_id" "RemoteSessionID zero_packet = zero_session_id"
  "AcknowledgmentIDs zero_packet = []" "ID zero_packet = 0" "Payload zero_packet = []"
  "PeerID zero_packet = [0, 0, 0]"
  by (simp_all add: zero_session_id_def zero_packet_def)

lemma data_not_control [simp]:
  "\<not> IsControl OpcodeDataV2" "\<not> IsControl OpcodeAcknowledgmentV1" "\<not> IsControl OpcodeDataV1"
  "OpcodeDataV2 \<noteq> OpcodeAcknowledgmentV1" "OpcodeAcknowledgmentV1 \<noteq> OpcodeDataV2"
  by (simp_all add: IsControl_def opcode_defs)

text \<open>The control body, as it is laid out on the wire.\<close>

definition control_body :: "opcode \<Rightarrow> packet \<Rightarrow> bytes" where
  "control_body oc p = LocalSessionID p @ [of_nat (length (AcknowledgmentIDs p))]
     @ concat (map put_u32 (AcknowledgmentIDs p))
     @ (if AcknowledgmentIDs p \<noteq> [] then RemoteSessionID p else [])
     @ (if oc \<noteq> OpcodeAcknowledgmentV1 then put_u32 (ID p) else [])
     @ Payload p"

lemma parse_control_body:
  assumes "length (LocalSessionID p) = SessionIDLength" "length (AcknowledgmentIDs p) \<le> 255"
    and "length (RemoteSessionID p) = SessionIDLength"
    and "AcknowledgmentIDs p = [] \<longrightarrow> RemoteSessionID p = RemoteSessionID q"
    and "Opcode q = OpcodeAcknowledgmentV1 \<longrightarrow> ID p = ID q" and "Payload q = []"
  shows "parseControlOrAcknowledgmentPacket q (control_body (Opcode q) p) =
    Inr (q\<lparr>LocalSessionID := LocalSessionID p, AcknowledgmentIDs := AcknowledgmentIDs p,
      RemoteSessionID := RemoteSessionID p, ID := ID p, Payload := Payload p\<rparr>)"
  using assms
  by (auto simp: parseControlOrAcknowledgmentPacket_def control_body_def unat_of_nat
      u32_field.read_many_enc)

lemma parse_control_SomeD:
  assumes "parseControlOrAcknowledgmentPacket q body = Inr p" "Payload q = []"
  shows "body = control_body (Opcode q) p \<and> length (LocalSessionID p) = SessionIDLength \<and>
    length (AcknowledgmentIDs p) \<le> 255 \<and>
    (if AcknowledgmentIDs p = [] then RemoteSessionID p = RemoteSessionID q
     else length (RemoteSessionID p) = SessionIDLength) \<and>
    (Opcode q = OpcodeAcknowledgmentV1 \<longrightarrow> ID p = ID q) \<and>
    Opcode p = Opcode q \<and> KeyID p = KeyID q \<and> PeerID p = PeerID q"
  using assms
  by (auto simp: parseControlOrAcknowledgmentPacket_def control_body_def
      u32_field.enc_dec unat_byte_le unat_0_iff split: if_splits option.splits list.splits
      dest!: read_n_SomeD u32_field.read_many_SomeD)

lemma ParsePacket_control:
  assumes "IsControl (Opcode p) \<or> Opcode p = OpcodeAcknowledgmentV1" "wire_packet p"
  shows "ParsePacket ((push_bit 3 (Opcode p) OR (KeyID p AND 7)) # control_body (Opcode p) p) = Inr p"
proof -
  let ?q = "zero_packet\<lparr>Opcode := Opcode p, KeyID := KeyID p\<rparr>"
  have nd: "Opcode p \<noteq> OpcodeDataV2" using assms(1) by auto
  have "parseControlOrAcknowledgmentPacket ?q (control_body (Opcode ?q) p) =
      Inr (?q\<lparr>LocalSessionID := LocalSessionID p, AcknowledgmentIDs := AcknowledgmentIDs p,
        RemoteSessionID := RemoteSessionID p, ID := ID p, Payload := Payload p\<rparr>)"
    using assms by (intro parse_control_body) (auto simp: wire_packet_def)
  also have "\<dots> = Inr p"
    using assms nd by (auto simp: wire_packet_def intro!: packet.equality)
  finally show ?thesis
    using assms nd header_fields [of "Opcode p" "KeyID p"]
    by (auto simp: ParsePacket_def Let_def wire_packet_def)
qed

lemma ParsePacket_data:
  assumes "\<not> (IsControl (Opcode p) \<or> Opcode p = OpcodeAcknowledgmentV1)" "wire_packet p"
  shows "ParsePacket ((push_bit 3 (Opcode p) OR (KeyID p AND 7)) #
     (if Opcode p = OpcodeDataV2 then PeerID p else []) @ Payload p) = Inr p"
  using assms header_fields [of "Opcode p" "KeyID p"]
  by (auto simp: ParsePacket_def Let_def wire_packet_def intro!: packet.equality)

text \<open>
  C2. Every packet the wire can carry is serialized, and parsing the bytes gives the packet
  back.
\<close>

theorem packet_roundtrip:
  assumes "wire_packet p"
  shows "\<exists>raw. packet_Bytes p = Inr raw \<and> ParsePacket raw = Inr p"
  using assms ParsePacket_control [of p] ParsePacket_data [of p]
  by (auto simp: packet_Bytes_def Let_def control_body_def wire_packet_def split: if_splits)

theorem packet_roundtrip_witness:
  "\<exists>raw. packet_Bytes (zero_packet\<lparr>Opcode := OpcodeControlV1, KeyID := 1,
        LocalSessionID := [1, 2, 3, 4, 5, 6, 7, 8], AcknowledgmentIDs := [5, 6],
        RemoteSessionID := [9, 8, 7, 6, 5, 4, 3, 2], ID := 300, Payload := [170, 187]\<rparr>) = Inr raw \<and>
     ParsePacket raw = Inr (zero_packet\<lparr>Opcode := OpcodeControlV1, KeyID := 1,
        LocalSessionID := [1, 2, 3, 4, 5, 6, 7, 8], AcknowledgmentIDs := [5, 6],
        RemoteSessionID := [9, 8, 7, 6, 5, 4, 3, 2], ID := 300, Payload := [170, 187]\<rparr>)"
  by (rule packet_roundtrip)
    (simp add: wire_packet_def opcode_defs IsControl_def SessionIDLength_def)

text \<open>
  C3. Conversely, whatever raw datagram the parser accepts, the packet it returns is
  well formed and serializes to exactly that datagram: no byte is lost, invented or reordered,
  for every opcode value, known or not.
\<close>

theorem parse_serialize:
  assumes "ParsePacket raw = Inr p"
  shows "wire_packet p \<and> packet_Bytes p = Inr raw"
proof -
  from assms obtain h body where raw: "raw = h # body"
    by (cases raw) (auto simp: ParsePacket_def)
  show ?thesis
  proof (cases "IsControl (drop_bit 3 h) \<or> drop_bit 3 h = OpcodeAcknowledgmentV1")
    case True
    let ?q = "zero_packet\<lparr>Opcode := drop_bit 3 h, KeyID := h AND 7\<rparr>"
    from True have "drop_bit 3 h \<noteq> OpcodeDataV2" by auto
    with True assms raw have "parseControlOrAcknowledgmentPacket ?q body = Inr p"
      by (simp add: ParsePacket_def Let_def)
    from parse_control_SomeD [OF this] True raw header_bounds [of h] show ?thesis
      by (auto simp: packet_Bytes_def Let_def control_body_def wire_packet_def header_join
          split: if_splits)
  next
    case False
    with assms raw header_bounds [of h] show ?thesis
      by (auto simp: ParsePacket_def packet_Bytes_def Let_def wire_packet_def header_join
          split: if_splits)
  qed
qed

theorem parse_serialize_witness:
  "wire_packet (zero_packet\<lparr>Opcode := OpcodeDataV2, KeyID := 2, PeerID := [0, 0, 7],
       Payload := [1, 2, 3]\<rparr>) \<and>
   packet_Bytes (zero_packet\<lparr>Opcode := OpcodeDataV2, KeyID := 2, PeerID := [0, 0, 7],
       Payload := [1, 2, 3]\<rparr>) = Inr [74, 0, 0, 7, 1, 2, 3]"
  by (rule parse_serialize) (simp add: ParsePacket_def Let_def opcode_defs IsControl_def)

text \<open>
  C4. The zero-copy variant used on the data path returns exactly what the copying parser
  returns, on every input.
\<close>

theorem ParsePacketView_eq: "ParsePacketView raw = ParsePacket raw"
  by (auto simp: ParsePacketView_def ParsePacket_def IsData_def IsControl_def opcode_defs
      zero_packet_def Let_def split: list.splits)

end
