(* ===== verification/Session.thy ===== *)
theory Session
  imports Packet
begin

text \<open>
  The session manager of \<open>proto/session.go\<close>: session ids, key ids, the control and data
  packet-id counters and the constructors of control, acknowledgment and reset packets. Each
  method takes the manager and returns its result with the updated manager; the mutex that
  every method holds for its whole body makes the methods atomic.
\<close>

section \<open>State\<close>

datatype NegotiationState =
    NegotiationStateInitial | NegotiationStatePreStart | NegotiationStateStart
  | NegotiationStateControlReady

record SessionManager =
  keyID :: byte
  localSessionID :: session_id
  remoteSessionID :: session_id
  hasRemoteSessionID :: bool
  localControlPacketID :: packet_id
  localDataPacketID :: packet_id
  negotiationState :: NegotiationState

definition NewSessionManagerWithLocalID :: "session_id \<Rightarrow> SessionManager" where
  "NewSessionManagerWithLocalID sid =
     \<lparr>keyID = 0, localSessionID = sid, remoteSessionID = zero_session_id,
      hasRemoteSessionID = False, localControlPacketID = 1, localDataPacketID = 1,
      negotiationState = NegotiationStateInitial\<rparr>"

text \<open>The random source of \<open>crypto/rand\<close> is a parameter: the bytes it delivers, or its error.\<close>

definition NewSessionManager :: "session_id result \<Rightarrow> SessionManager result" where
  "NewSessionManager randRead =
     (case randRead of Inl e \<Rightarrow> Inl e | Inr sid \<Rightarrow> Inr (NewSessionManagerWithLocalID sid))"

section \<open>Session ids\<close>

definition ValidateIncomingRemoteSessionID :: "SessionManager \<Rightarrow> packet \<Rightarrow> bool" where
  "ValidateIncomingRemoteSessionID m packet =
     (if AcknowledgmentIDs packet = [] then True
      else if RemoteSessionID packet = zero_session_id then False
      else RemoteSessionID packet = localSessionID m)"

definition ValidateIncomingLocalSessionID :: "SessionManager \<Rightarrow> packet \<Rightarrow> bool" where
  "ValidateIncomingLocalSessionID m packet \<longleftrightarrow>
     hasRemoteSessionID m \<and> LocalSessionID packet = remoteSessionID m"

definition SetRemoteSessionID :: "session_id \<Rightarrow> SessionManager \<Rightarrow> SessionManager" where
  "SetRemoteSessionID sid m = m\<lparr>remoteSessionID := sid, hasRemoteSessionID := True\<rparr>"

definition SetNegotiationState :: "NegotiationState \<Rightarrow> SessionManager \<Rightarrow> SessionManager" where
  "SetNegotiationState state m = m\<lparr>negotiationState := state\<rparr>"

section \<open>Key ids and renegotiation\<close>

definition KeyIDMaxValue :: byte where "KeyIDMaxValue = 7"

definition NextKeyID :: "byte \<Rightarrow> byte" where
  "NextKeyID k = (if k \<ge> KeyIDMaxValue then 1
                  else let k' = k + 1 in if k' = 0 then 1 else k')"

definition NewRenegotiationSessionManager :: "byte \<Rightarrow> SessionManager \<Rightarrow> SessionManager" where
  "NewRenegotiationSessionManager k m =
     (let renegotiated = \<lparr>keyID = k, localSessionID = localSessionID m,
            remoteSessionID = zero_session_id, hasRemoteSessionID = False,
            localControlPacketID = 1, localDataPacketID = 1,
            negotiationState = NegotiationStateStart\<rparr>
      in if hasRemoteSessionID m
         then renegotiated\<lparr>remoteSessionID := remoteSessionID m, hasRemoteSessionID := True\<rparr>
         else renegotiated)"

section \<open>Packet constructors\<close>

definition NewSoftResetPacket :: "SessionManager \<Rightarrow> packet result" where
  "NewSoftResetPacket m =
     (if \<not> hasRemoteSessionID m then Inl (Sentinel ErrMissingRemoteSessionID)
      else Inr (zero_packet\<lparr>Opcode := OpcodeControlSoftResetV1, KeyID := keyID m,
             LocalSessionID := localSessionID m, RemoteSessionID := remoteSessionID m, ID := 0\<rparr>))"

definition NewHardResetServerV2Packet :: "packet_id list \<Rightarrow> SessionManager \<Rightarrow> packet result" where
  "NewHardResetServerV2Packet acks m =
     (let packet = zero_packet\<lparr>Opcode := OpcodeControlHardResetServerV2, KeyID := keyID m,
            LocalSessionID := localSessionID m, AcknowledgmentIDs := acks, ID := 0\<rparr>
      in if length acks > 0 then
           (if \<not> hasRemoteSessionID m then Inl (Sentinel ErrMissingRemoteSessionID)
            else Inr (packet\<lparr>RemoteSessionID := remoteSessionID m\<rparr>))
         else Inr packet)"

definition NewAcknowledgmentPacket :: "packet_id list \<Rightarrow> SessionManager \<Rightarrow> packet result" where
  "NewAcknowledgmentPacket acks m =
     (if \<not> hasRemoteSessionID m then Inl (Sentinel ErrMissingRemoteSessionID)
      else Inr (zero_packet\<lparr>Opcode := OpcodeAcknowledgmentV1, KeyID := keyID m,
             LocalSessionID := localSessionID m, AcknowledgmentIDs := acks,
             RemoteSessionID := remoteSessionID m\<rparr>))"

definition NewControlPacket ::
    "opcode \<Rightarrow> bytes \<Rightarrow> SessionManager \<Rightarrow> packet result \<times> SessionManager" where
  "NewControlPacket opcode payload m =
     (if \<not> IsControl opcode then (Inl (Sentinel ErrInvalidOpcode), m)
      else if localControlPacketID m = 0xFFFFFFFF then (Inl (Sentinel ErrPacketIDExpired), m)
      else let packetID = localControlPacketID m;
               m = m\<lparr>localControlPacketID := localControlPacketID m + 1\<rparr>;
               packet = (NewPacket opcode (keyID m) payload)
                 \<lparr>LocalSessionID := localSessionID m, ID := packetID\<rparr>
           in (Inr (if hasRemoteSessionID m
                    then packet\<lparr>RemoteSessionID := remoteSessionID m\<rparr> else packet), m))"

text \<open>
  \<open>count\<close> is a Go \<open>int\<close>; the number of ids left is computed in 64 bits, where it cannot
  wrap.
\<close>

definition NewDataPacketIDs ::
    "opcode \<Rightarrow> int \<Rightarrow> SessionManager \<Rightarrow> packet_id list result \<times> SessionManager" where
  "NewDataPacketIDs opcode count m =
     (if \<not> IsData opcode then (Inl (Sentinel ErrInvalidOpcode), m)
      else if count = 0 then (Inr [], m)
      else let availablePacketIDs = 0xFFFFFFFF - uint (localDataPacketID m)
      in if count < 0 \<or> count > availablePacketIDs then (Inl (Sentinel ErrPacketIDExpired), m)
      else let firstPacketID = localDataPacketID m
      in (Inr (map (\<lambda>i. firstPacketID + of_nat i) [0..<nat count]),
          m\<lparr>localDataPacketID := firstPacketID + of_int count\<rparr>))"

section \<open>Sources of fresh identifiers\<close>

text \<open>
  The contract shared by every counter that hands out packet ids: a request yields a strictly
  increasing run of numbers between the level before and the level after it. A client that
  draws any sequence of requests then never sees an identifier twice.
\<close>

fun draw_run :: "('s \<Rightarrow> 'r \<Rightarrow> nat list \<times> 's) \<Rightarrow> 's \<Rightarrow> 'r list \<Rightarrow> nat list \<times> 's" where
  "draw_run draw s [] = ([], s)"
| "draw_run draw s (r # rs) =
     (let (ids, s') = draw s r; (ids', s'') = draw_run draw s' rs in (ids @ ids', s''))"

locale id_source =
  fixes draw :: "'s \<Rightarrow> 'r \<Rightarrow> nat list \<times> 's"
    and level :: "'s \<Rightarrow> nat"
  assumes draw_level: "draw s r = (ids, s') \<Longrightarrow> level s \<le> level s'"
    and draw_sorted: "draw s r = (ids, s') \<Longrightarrow> sorted_wrt (<) ids"
    and draw_range: "draw s r = (ids, s') \<Longrightarrow> set ids \<subseteq> {level s ..< level s'}"
begin

lemma draw_run_fresh:
  "draw_run draw s rs = (ids, s') \<Longrightarrow>
     level s \<le> level s' \<and> set ids \<subseteq> {level s ..< level s'} \<and> sorted_wrt (<) ids"
proof (induction rs arbitrary: s ids)
  case Nil
  then show ?case by simp
next
  case (Cons r rs)
  obtain ids1 s1 where d: "draw s r = (ids1, s1)" by fastforce
  obtain ids2 where run: "draw_run draw s1 rs = (ids2, s')" and ids: "ids = ids1 @ ids2"
    using Cons.prems d by (auto split: prod.splits)
  from Cons.IH [OF run] draw_level [OF d] draw_sorted [OF d] draw_range [OF d] ids
  show ?case by (fastforce simp: sorted_wrt_append)
qed

lemma draw_run_distinct: "draw_run draw s rs = (ids, s') \<Longrightarrow> distinct ids"
  using draw_run_fresh strict_sorted_iff by blast

end

definition draw_data :: "SessionManager \<Rightarrow> opcode \<times> int \<Rightarrow> nat list \<times> SessionManager" where
  "draw_data m r =
     (case NewDataPacketIDs (fst r) (snd r) m of
        (Inl e, m') \<Rightarrow> ([], m') | (Inr ids, m') \<Rightarrow> (map unat ids, m'))"

definition draw_control :: "SessionManager \<Rightarrow> opcode \<times> bytes \<Rightarrow> nat list \<times> SessionManager" where
  "draw_control m r =
     (case NewControlPacket (fst r) (snd r) m of
        (Inl e, m') \<Rightarrow> ([], m') | (Inr p, m') \<Rightarrow> ([unat (ID p)], m'))"

section \<open>Packet ids never repeat\<close>

lemma unat_add_small: "unat w + i < 2 ^ 32 \<Longrightarrow> unat ((w :: u32) + of_nat i) = unat w + i"
  by (simp add: unat_word_ariths unat_of_nat)

lemma unat_inc: "(w :: u32) \<noteq> 0xFFFFFFFF \<Longrightarrow> unat (w + 1) = unat w + 1"
proof -
  assume "w \<noteq> 0xFFFFFFFF"
  then have "unat w \<noteq> unat (0xFFFFFFFF :: u32)" using word_unat_eq_iff by blast
  moreover have "unat w < 2 ^ 32" using unsigned_less [of w, where 'a = nat] by simp
  ultimately show ?thesis using unat_add_small [of w 1] by simp
qed

lemma unat_inc_less: "(w :: u32) < v \<Longrightarrow> unat (w + 1) = Suc (unat w)"
  using unat_add_small [of w 1] unsigned_less [of v, where 'a = nat]
  by (simp add: word_less_nat_alt)

lemma draw_data_cases:
  assumes "draw_data m r = (ids, m')"
  shows "ids = [] \<and> m' = m \<or>
    (\<exists>n. ids = [unat (localDataPacketID m) ..< unat (localDataPacketID m) + n] \<and>
       unat (localDataPacketID m') = unat (localDataPacketID m) + n \<and>
       unat (localDataPacketID m) + n < 2 ^ 32)"
proof (cases "IsData (fst r) \<and> 0 < snd r \<and> snd r \<le> 0xFFFFFFFF - uint (localDataPacketID m)")
  case False
  then show ?thesis
    using assms by (auto simp: draw_data_def NewDataPacketIDs_def Let_def split: if_splits)
next
  case True
  define n where "n = nat (snd r)"
  have "int (unat (localDataPacketID m)) + int n < 2 ^ 32" using True by (simp add: n_def)
  then have le: "unat (localDataPacketID m) + n < 2 ^ 32"
    by (metis of_nat_add of_nat_less_iff of_nat_numeral of_nat_power)
  have "ids = map unat (map (\<lambda>i. localDataPacketID m + of_nat i) [0..<n]) \<and>
      localDataPacketID m' = localDataPacketID m + of_nat n"
    using True assms unfolding draw_data_def NewDataPacketIDs_def Let_def n_def by auto
  moreover have "map unat (map (\<lambda>i. localDataPacketID m + of_nat i) [0..<n]) =
      [unat (localDataPacketID m) ..< unat (localDataPacketID m) + n]"
    by (rule nth_equalityI) (use le in \<open>simp_all add: unat_add_small\<close>)
  ultimately show ?thesis using le unat_add_small [OF le] by metis
qed

interpretation data_ids: id_source draw_data "\<lambda>m. unat (localDataPacketID m)"
proof
  fix m r ids m'
  assume "draw_data m r = (ids, m')"
  note c = draw_data_cases [OF this]
  show "unat (localDataPacketID m) \<le> unat (localDataPacketID m')" using c by auto
  show "sorted_wrt (<) ids" using c by auto
  show "set ids \<subseteq> {unat (localDataPacketID m) ..< unat (localDataPacketID m')}" using c by auto
qed

lemma draw_control_cases:
  assumes "draw_control m r = (ids, m')"
  shows "ids = [] \<and> m' = m \<or>
    (ids = [unat (localControlPacketID m)] \<and>
     unat (localControlPacketID m') = unat (localControlPacketID m) + 1)"
  using assms
  by (auto simp: draw_control_def NewControlPacket_def NewPacket_def Let_def unat_inc
      split: if_splits)

interpretation control_ids: id_source draw_control "\<lambda>m. unat (localControlPacketID m)"
  by unfold_locales (drule draw_control_cases, auto)+

text \<open>
  C5. Whatever sequence of allocations a session makes from its start, single ids or batches,
  with failing requests in between, the data packet ids it hands out are strictly increasing
  and never the zero or the maximal 32-bit value: no AEAD nonce and no replay-window slot is
  ever used twice under one key.
\<close>

theorem data_packet_ids_fresh:
  "sorted_wrt (<) (fst (draw_run draw_data (NewSessionManagerWithLocalID sid) rs)) \<and>
   set (fst (draw_run draw_data (NewSessionManagerWithLocalID sid) rs)) \<subseteq> {1 ..< 2 ^ 32 - 1}"
proof -
  obtain ids m where run: "draw_run draw_data (NewSessionManagerWithLocalID sid) rs = (ids, m)"
    by fastforce
  have "unat (localDataPacketID m) \<le> 2 ^ 32 - 1"
    using unsigned_less [of "localDataPacketID m", where 'a = nat] by simp
  with data_ids.draw_run_fresh [OF run] run show ?thesis
    by (fastforce simp: NewSessionManagerWithLocalID_def)
qed

text \<open>
  The same for control packet ids, which the reliable layer and the acknowledgments of the
  peer identify packets by.
\<close>

theorem control_packet_ids_fresh:
  "sorted_wrt (<) (fst (draw_run draw_control (NewSessionManagerWithLocalID sid) rs)) \<and>
   set (fst (draw_run draw_control (NewSessionManagerWithLocalID sid) rs)) \<subseteq> {1 ..< 2 ^ 32 - 1}"
proof -
  obtain ids m where run: "draw_run draw_control (NewSessionManagerWithLocalID sid) rs = (ids, m)"
    by fastforce
  have "unat (localControlPacketID m) \<le> 2 ^ 32 - 1"
    using unsigned_less [of "localControlPacketID m", where 'a = nat] by simp
  with control_ids.draw_run_fresh [OF run] run show ?thesis
    by (fastforce simp: NewSessionManagerWithLocalID_def)
qed

text \<open>
  Key ids of renegotiated keys stay in the three-bit range without zero, which only the
  first key of a session has, and a renegotiation never reuses the key id it replaces.
\<close>

theorem NextKeyID_range: "1 \<le> NextKeyID k \<and> NextKeyID k \<le> KeyIDMaxValue \<and> NextKeyID k \<noteq> k"
proof (cases "k \<ge> 7")
  case True
  moreover from True have "k \<noteq> 1" by (auto simp: word_le_nat_alt)
  ultimately show ?thesis by (simp add: NextKeyID_def KeyIDMaxValue_def)
next
  case False
  then have "k < 7" by simp
  then show ?thesis by (auto simp: NextKeyID_def KeyIDMaxValue_def Let_def word_le_nat_alt
        word_less_nat_alt unat_word_ariths word_unat_eq_iff)
qed

end
