(* ===== verification/Reliable.thy ===== *)
theory Reliable
  imports Session "HOL-Library.Multiset"
begin

text \<open>
  The reliable layer of \<open>proto/reliable.go\<close>: the send buffer with its retransmission timers
  and pending acknowledgments, and the receive buffer that restores the order of control
  packets. A Go map used as a set of packet ids is a set here; the code never depends on the
  iteration order, because it sorts what it iterates over.
\<close>

section \<open>Constants and state\<close>

definition ReliableSendBufferSize :: nat where "ReliableSendBufferSize = 6"
definition ReliableReceiveBufferSize :: nat where "ReliableReceiveBufferSize = 12"
definition MaximumAcknowledgmentsPerPacket :: int where "MaximumAcknowledgmentsPerPacket = 4"
definition AcknowledgmentSetCapacity :: nat where "AcknowledgmentSetCapacity = 8"
definition InitialRetransmissionTimeout :: duration where
  "InitialRetransmissionTimeout = 2 * second"
definition MaximumRetransmissionTimeout :: duration where
  "MaximumRetransmissionTimeout = 60 * second"
definition FastRetransmissionACKThreshold :: int where "FastRetransmissionACKThreshold = 3"

lemmas reliable_consts =
  ReliableSendBufferSize_def ReliableReceiveBufferSize_def MaximumAcknowledgmentsPerPacket_def
  AcknowledgmentSetCapacity_def InitialRetransmissionTimeout_def
  MaximumRetransmissionTimeout_def FastRetransmissionACKThreshold_def second_def

record inFlightPacket =
  if_packet :: packet
  retransmissionDeadline :: time
  higherPacketAcknowledges :: int
  retransmissionCount :: int

abbreviation if_id :: "inFlightPacket \<Rightarrow> packet_id" where
  "if_id f \<equiv> ID (if_packet f)"

record OutgoingReliableState =
  inFlightPackets :: "inFlightPacket list"
  pendingAcknowledgmentID :: "packet_id set"

record IncomingReliableState =
  pendingPackets :: "packet list"
  bufferedID :: "packet_id set"
  lastConsumedID :: packet_id

definition NewOutgoingReliableState :: OutgoingReliableState where
  "NewOutgoingReliableState = \<lparr>inFlightPackets = [], pendingAcknowledgmentID = {}\<rparr>"

definition NewIncomingReliableState :: IncomingReliableState where
  "NewIncomingReliableState = \<lparr>pendingPackets = [], bufferedID = {}, lastConsumedID = 0\<rparr>"

section \<open>Sending\<close>

text \<open>
  The shift and the product are computed in a signed 64-bit \<open>time.Duration\<close>, where they wrap.
\<close>

definition scheduleForRetransmission :: "time \<Rightarrow> inFlightPacket \<Rightarrow> inFlightPacket" where
  "scheduleForRetransmission now p =
     (let count = retransmissionCount p + 1;
          interval = int64 (InitialRetransmissionTimeout * int64 (2 ^ nat (max 0 (count - 1))));
          interval = min interval MaximumRetransmissionTimeout
      in p\<lparr>retransmissionCount := count, retransmissionDeadline := now + interval\<rparr>)"

definition takeAcknowledgmentIDsLocked ::
    "int \<Rightarrow> OutgoingReliableState \<Rightarrow> packet_id list \<times> OutgoingReliableState" where
  "takeAcknowledgmentIDsLocked maximumCount s =
     (if maximumCount \<le> 0 \<or> pendingAcknowledgmentID s = {} then ([], s)
      else let ids = sorted_list_of_set (pendingAcknowledgmentID s);
               ids = (if int (length ids) > maximumCount then take (nat maximumCount) ids else ids)
           in (ids, s\<lparr>pendingAcknowledgmentID := pendingAcknowledgmentID s - set ids\<rparr>))"

fun return_ids :: "packet_id set \<Rightarrow> packet_id list \<Rightarrow> packet_id set" where
  "return_ids pending [] = pending"
| "return_ids pending (a # as) =
     (if a \<notin> pending \<and> card pending \<ge> AcknowledgmentSetCapacity then pending
      else return_ids (insert a pending) as)"

definition returnAcknowledgmentIDsLocked ::
    "packet_id list \<Rightarrow> OutgoingReliableState \<Rightarrow> OutgoingReliableState" where
  "returnAcknowledgmentIDsLocked ids s =
     s\<lparr>pendingAcknowledgmentID := return_ids (pendingAcknowledgmentID s) ids\<rparr>"

text \<open>
  The callback that builds the packet runs under the lock and may change its own state
  (\<open>'s\<close>: the session manager's packet-id counter).
\<close>

definition InsertOutgoingPacket ::
    "int \<Rightarrow> (packet_id list \<Rightarrow> 's \<Rightarrow> packet result \<times> 's) \<Rightarrow> OutgoingReliableState \<Rightarrow> 's \<Rightarrow>
       packet option result \<times> OutgoingReliableState \<times> 's" where
  "InsertOutgoingPacket maximumAcknowledgments newPacket s m =
     (if length (inFlightPackets s) \<ge> ReliableSendBufferSize then (Inr None, s, m)
      else let (ids, s) = takeAcknowledgmentIDsLocked maximumAcknowledgments s;
               (r, m) = newPacket ids m
           in case r of
                Inl e \<Rightarrow> (Inl e, returnAcknowledgmentIDsLocked ids s, m)
              | Inr packet \<Rightarrow>
                  (Inr (Some packet),
                   s\<lparr>inFlightPackets := sort_key if_id (inFlightPackets s @
                      [\<lparr>if_packet = packet, retransmissionDeadline = 0,
                        higherPacketAcknowledges = 0, retransmissionCount = 0\<rparr>])\<rparr>, m))"

text \<open>
  One acknowledged id against the send buffer: the matching packet is swapped with the last
  one and cut off, and the index stays, so the packet swapped in is examined next.
\<close>

definition bump :: "inFlightPacket \<Rightarrow> inFlightPacket" where
  "bump f = f\<lparr>higherPacketAcknowledges := higherPacketAcknowledges f + 1\<rparr>"

function ack_loop :: "packet_id \<Rightarrow> nat \<Rightarrow> inFlightPacket list \<Rightarrow> inFlightPacket list" where
  "ack_loop a i xs =
     (if i < length xs then
        (if a = if_id (xs ! i) then
           (let last = length xs - 1
            in ack_loop a i (take last (xs[i := xs ! last, last := xs ! i])))
         else ack_loop a (i + 1) (if a > if_id (xs ! i) then xs[i := bump (xs ! i)] else xs))
      else xs)"
  by pat_completeness auto
termination
  by (relation "measure (\<lambda>(a, i, xs). length xs - i)") auto

declare ack_loop.simps [simp del]

definition out_OnIncomingPacket :: "packet \<Rightarrow> OutgoingReliableState \<Rightarrow> OutgoingReliableState" where
  "out_OnIncomingPacket p s =
     (let s = (if Opcode p \<noteq> OpcodeAcknowledgmentV1 \<and>
                  card (pendingAcknowledgmentID s) < AcknowledgmentSetCapacity
               then s\<lparr>pendingAcknowledgmentID := insert (ID p) (pendingAcknowledgmentID s)\<rparr> else s)
      in s\<lparr>inFlightPackets :=
             sort_key if_id (fold (\<lambda>a. ack_loop a 0) (AcknowledgmentIDs p) (inFlightPackets s))\<rparr>)"

definition PendingAcknowledgmentCount :: "OutgoingReliableState \<Rightarrow> nat" where
  "PendingAcknowledgmentCount s = card (pendingAcknowledgmentID s)"

definition HasInFlightPackets :: "OutgoingReliableState \<Rightarrow> bool" where
  "HasInFlightPackets s \<longleftrightarrow> inFlightPackets s \<noteq> []"

definition is_ready :: "time \<Rightarrow> inFlightPacket \<Rightarrow> bool" where
  "is_ready now f \<longleftrightarrow> IsZero (retransmissionDeadline f) \<or> \<not> retransmissionDeadline f > now \<or>
     higherPacketAcknowledges f \<ge> FastRetransmissionACKThreshold"

fun ready_loop :: "time \<Rightarrow> inFlightPacket list \<Rightarrow> packet list \<times> inFlightPacket list" where
  "ready_loop now [] = ([], [])"
| "ready_loop now (f # fs) =
     (let (ready, fs') = ready_loop now fs
      in if is_ready now f then (if_packet f # ready, scheduleForRetransmission now f # fs')
         else (ready, f # fs'))"

definition PacketsReadyToSend ::
    "time \<Rightarrow> OutgoingReliableState \<Rightarrow> packet list \<times> OutgoingReliableState" where
  "PacketsReadyToSend now s =
     (let (ready, fs) = ready_loop now (inFlightPackets s) in (ready, s\<lparr>inFlightPackets := fs\<rparr>))"

section \<open>Receiving\<close>

definition TryInsertIncomingPacket ::
    "packet \<Rightarrow> IncomingReliableState \<Rightarrow> bool \<times> IncomingReliableState" where
  "TryInsertIncomingPacket p s =
     (if ID p \<le> lastConsumedID s then (False, s)
      else if ID p \<in> bufferedID s then (False, s)
      else let nextExpectedID = lastConsumedID s + 1
      in if unat (ID p - nextExpectedID) \<ge> ReliableReceiveBufferSize then (False, s)
      else if length (pendingPackets s) \<ge> ReliableReceiveBufferSize then (False, s)
      else (True, s\<lparr>pendingPackets := pendingPackets s @ [p], bufferedID := insert (ID p) (bufferedID s)\<rparr>))"

fun order_loop ::
    "packet_id \<Rightarrow> packet_id set \<Rightarrow> packet list \<Rightarrow> packet list \<times> packet list \<times> packet_id set \<times> packet_id" where
  "order_loop lastID buffered [] = ([], [], buffered, lastID)"
| "order_loop lastID buffered (p # ps) =
     (if ID p = lastID + 1 then
        (let (ready, retained, buffered', lastID') = order_loop (ID p) (buffered - {ID p}) ps
         in (p # ready, retained, buffered', lastID'))
      else if ID p > lastID + 1 then
        (let (ready, retained, buffered', lastID') = order_loop lastID buffered ps
         in (ready, p # retained, buffered', lastID'))
      else order_loop lastID buffered ps)"

definition NextOrderedSequence :: "IncomingReliableState \<Rightarrow> packet list \<times> IncomingReliableState" where
  "NextOrderedSequence s =
     (let (ready, retained, buffered, lastID) =
            order_loop (lastConsumedID s) (bufferedID s) (sort_key ID (pendingPackets s))
      in (ready, \<lparr>pendingPackets = retained, bufferedID = buffered, lastConsumedID = lastID\<rparr>))"

text \<open>
  How the control channel feeds the receive buffer: a packet that is not accepted delivers
  nothing, an accepted one delivers the run that is complete now.
\<close>

definition in_receive :: "packet \<Rightarrow> IncomingReliableState \<Rightarrow> packet list \<times> IncomingReliableState" where
  "in_receive p s =
     (let (inserted, s) = TryInsertIncomingPacket p s
      in if inserted then NextOrderedSequence s else ([], s))"

section \<open>Ordered delivery\<close>

fun recv_run :: "(packet \<Rightarrow> 's \<Rightarrow> packet list \<times> 's) \<Rightarrow> packet list \<Rightarrow> 's \<Rightarrow> packet list \<times> 's" where
  "recv_run recv [] s = ([], s)"
| "recv_run recv (p # ps) s =
     (let (out, s') = recv p s; (out', s'') = recv_run recv ps s' in (out @ out', s''))"

text \<open>
  The contract of a receiver that restores order: it delivers exactly the ids that follow its
  cursor, only packets that arrived, and the next expected packet at once.
\<close>

locale ordered_receiver =
  fixes recv :: "packet \<Rightarrow> 's \<Rightarrow> packet list \<times> 's"
    and invar :: "'s \<Rightarrow> bool"
    and cursor :: "'s \<Rightarrow> nat"
    and held :: "'s \<Rightarrow> packet set"
  assumes recv_invar: "invar s \<Longrightarrow> recv p s = (out, s') \<Longrightarrow> invar s'"
    and recv_ids: "invar s \<Longrightarrow> recv p s = (out, s') \<Longrightarrow>
      cursor s \<le> cursor s' \<and> map (\<lambda>q. unat (ID q)) out = [Suc (cursor s) ..< Suc (cursor s')]"
    and recv_held: "invar s \<Longrightarrow> recv p s = (out, s') \<Longrightarrow> set out \<union> held s' \<subseteq> insert p (held s)"
    and recv_next: "invar s \<Longrightarrow> unat (ID p) = Suc (cursor s) \<Longrightarrow> \<exists>out. fst (recv p s) = p # out"
begin

lemma recv_run_ids:
  "invar s \<Longrightarrow> recv_run recv ps s = (out, s') \<Longrightarrow>
     invar s' \<and> cursor s \<le> cursor s' \<and>
     map (\<lambda>q. unat (ID q)) out = [Suc (cursor s) ..< Suc (cursor s')] \<and>
     set out \<union> held s' \<subseteq> set ps \<union> held s"
proof (induction ps arbitrary: s out)
  case Nil
  then show ?case by simp
next
  case (Cons p ps)
  obtain out1 s1 where r: "recv p s = (out1, s1)" by fastforce
  obtain out2 where run: "recv_run recv ps s1 = (out2, s')" and out: "out = out1 @ out2"
    using Cons.prems(2) r by (auto split: prod.splits)
  note one = recv_invar [OF Cons.prems(1) r] recv_ids [OF Cons.prems(1) r]
    recv_held [OF Cons.prems(1) r]
  note rest = Cons.IH [OF one(1) run]
  have "[Suc (cursor s) ..< Suc (cursor s1)] @ [Suc (cursor s1) ..< Suc (cursor s')] =
      [Suc (cursor s) ..< Suc (cursor s')]"
    using one(2) rest upt_add_eq_append [of "Suc (cursor s)" "Suc (cursor s1)"
        "cursor s' - cursor s1"] by simp
  with one rest out show ?case by auto
qed

lemma recv_run_prefix:
  assumes "invar s" "cursor s = 0" "held s = {}"
    and run: "recv_run recv ps s = (out, s')"
    and sent: "\<And>p. p \<in> set ps \<Longrightarrow>
      unat (ID p) \<noteq> 0 \<Longrightarrow> unat (ID p) \<le> length sent \<and> p = sent ! (unat (ID p) - 1)"
  shows "out = take (cursor s') sent"
proof -
  note fact = recv_run_ids [OF assms(1) run]
  then have ids: "map (\<lambda>q. unat (ID q)) out = [1 ..< Suc (cursor s')]"
    and mem: "set out \<subseteq> set ps" using assms(2,3) by auto
  have len: "length out = cursor s'" using ids by (metis diff_Suc_1 length_map length_upt)
  have nth: "unat (ID (out ! i)) = Suc i \<and> i < length sent \<and> out ! i = sent ! i"
    if "i < length out" for i
  proof -
    have "unat (ID (out ! i)) = [1 ..< Suc (cursor s')] ! i"
      using that ids by (metis nth_map)
    then have "unat (ID (out ! i)) = Suc i" using that len by (simp del: upt_Suc)
    moreover have "out ! i \<in> set ps" using that mem by auto
    ultimately show ?thesis using sent [of "out ! i"] by simp
  qed
  have "cursor s' \<le> length sent"
    using nth [of "cursor s' - 1"] len by (cases "cursor s'") auto
  then show ?thesis
    by (intro nth_equalityI) (simp_all add: nth len)
qed

end

lemma order_loop_sorted:
  assumes "sorted_wrt (<) (map ID ps)" "\<forall>p \<in> set ps. lc < ID p"
    and "order_loop lc B ps = (ready, retained, B', lc')"
  shows "ps = ready @ retained \<and> map (\<lambda>q. unat (ID q)) ready = [Suc (unat lc) ..< Suc (unat lc')] \<and>
    unat lc \<le> unat lc' \<and> B' = B - ID ` set ready \<and>
    (\<forall>p \<in> set retained. Suc (unat lc') < unat (ID p))"
  using assms
proof (induction ps arbitrary: lc B ready retained B' lc')
  case Nil
  then show ?case by simp
next
  case (Cons p ps)
  have lt: "lc < ID p" using Cons.prems(2) by simp
  then have inc: "unat (lc + 1) = Suc (unat lc)"
    by (rule unat_inc_less)
  show ?case
  proof (cases "ID p = lc + 1")
    case True
    obtain ready1 where r: "order_loop (ID p) (B - {ID p}) ps = (ready1, retained, B', lc')"
      and ready: "ready = p # ready1"
      using Cons.prems(3) True by (auto split: prod.splits)
    have id: "unat (ID p) = Suc (unat lc)" using True inc by simp
    have ih: "ps = ready1 @ retained" "unat (ID p) \<le> unat lc'"
      "map (\<lambda>q. unat (ID q)) ready1 = [Suc (unat (ID p)) ..< Suc (unat lc')]"
      "B' = B - {ID p} - ID ` set ready1" "\<forall>p \<in> set retained. Suc (unat lc') < unat (ID p)"
      using Cons.IH [OF _ _ r] Cons.prems(1) by simp_all
    have "[Suc (unat lc) ..< Suc (unat lc')] = Suc (unat lc) # [Suc (Suc (unat lc)) ..< Suc (unat lc')]"
      using ih(2) id by (intro upt_conv_Cons) simp
    then have ids: "map (\<lambda>q. unat (ID q)) ready = [Suc (unat lc) ..< Suc (unat lc')]"
      by (simp only: ready list.map id ih(3))
    have B: "B' = B - ID ` set ready" unfolding ih(4) ready by auto
    have split: "p # ps = ready @ retained" unfolding ready ih(1) by simp
    have le: "unat lc \<le> unat lc'" using ih(2) id by linarith
    show ?thesis by (intro conjI) (fact split, fact ids, fact le, fact B, fact ih(5))
  next
    case False
    have "unat (ID p) \<noteq> unat (lc + 1)" using False word_unat_eq_iff by blast
    then have gt: "lc + 1 < ID p" using lt inc unfolding word_less_nat_alt by linarith
    obtain retained1 where r: "order_loop lc B ps = (ready, retained1, B', lc')"
      and ret: "retained = p # retained1"
      using Cons.prems(3) False gt by (auto split: prod.splits)
    have later: "\<forall>q \<in> set ps. ID p < ID q" using Cons.prems(1) by simp
    with lt have "\<forall>q \<in> set ps. lc < ID q" by auto
    with Cons.IH [OF _ this r] Cons.prems(1)
    have ih: "ps = ready @ retained1" "unat lc \<le> unat lc'"
      "map (\<lambda>q. unat (ID q)) ready = [Suc (unat lc) ..< Suc (unat lc')]"
      "B' = B - ID ` set ready" "\<forall>p \<in> set retained1. Suc (unat lc') < unat (ID p)"
      by simp_all
    have "Suc (unat lc) < unat (ID q)" if "q \<in> set ready" for q
    proof -
      have "unat (lc + 1) < unat (ID p)" using gt by (simp only: word_less_nat_alt)
      also have "\<dots> < unat (ID q)" using later that ih(1) by (simp flip: word_less_nat_alt)
      finally show ?thesis by (simp only: inc)
    qed
    then have "Suc (unat lc) \<notin> set (map (\<lambda>q. unat (ID q)) ready)" by fastforce
    then have eq: "unat lc' = unat lc" using ih(2,3) by (simp del: upt_Suc)
    then have "ready = []" using ih(3) by simp
    with ih ret gt inc eq show ?thesis by (auto simp: word_less_nat_alt)
  qed
qed

text \<open>
  What the receive buffer keeps between packets: distinct ids, recorded in \<open>bufferedID\<close>,
  inside the window that follows the last consumed id, and never the next expected one.
\<close>

definition in_inv :: "IncomingReliableState \<Rightarrow> bool" where
  "in_inv s \<longleftrightarrow> distinct (map ID (pendingPackets s)) \<and>
     bufferedID s = ID ` set (pendingPackets s) \<and>
     (\<forall>p \<in> set (pendingPackets s). unat (lastConsumedID s) < unat (ID p) \<and>
        unat (ID p) \<le> unat (lastConsumedID s) + ReliableReceiveBufferSize)"

definition in_drained :: "IncomingReliableState \<Rightarrow> bool" where
  "in_drained s \<longleftrightarrow> in_inv s \<and>
     (\<forall>p \<in> set (pendingPackets s). unat (ID p) \<noteq> Suc (unat (lastConsumedID s)))"

lemma in_inv_room:
  assumes "in_drained s"
  shows "length (pendingPackets s) < ReliableReceiveBufferSize"
proof -
  let ?l = "unat (lastConsumedID s)"
  let ?ids = "map (\<lambda>p. unat (ID p)) (pendingPackets s)"
  have "distinct ?ids"
    using assms
    by (auto simp: in_drained_def in_inv_def distinct_map inj_on_def simp flip: word_unat_eq_iff)
  then have "length (pendingPackets s) = card (set ?ids)"
    by (simp only: distinct_card length_map)
  also have "\<dots> \<le> card {?l + 2 .. ?l + ReliableReceiveBufferSize}"
    using assms by (intro card_mono) (fastforce simp: in_drained_def in_inv_def)+
  finally show ?thesis by (simp add: reliable_consts)
qed

lemma window_test:
  assumes "(l :: u32) < i"
  shows "unat (i - (l + 1)) = unat i - Suc (unat l)"
proof -
  have "l + 1 \<le> i" using assms unat_inc_less [OF assms] unfolding word_less_nat_alt word_le_nat_alt by linarith
  then show ?thesis using unat_inc_less [OF assms] by (simp add: unat_sub)
qed

lemma TryInsert_iff:
  assumes "in_drained s" "TryInsertIncomingPacket p s = (b, s')"
  shows "b \<longleftrightarrow> unat (lastConsumedID s) < unat (ID p) \<and>
    unat (ID p) \<le> unat (lastConsumedID s) + ReliableReceiveBufferSize \<and> ID p \<notin> bufferedID s"
proof (cases "lastConsumedID s < ID p")
  case True
  then have "unat (lastConsumedID s) < unat (ID p)" by (simp only: word_less_nat_alt)
  then show ?thesis
    using assms(2) True in_inv_room [OF assms(1)]
    by (auto simp: TryInsertIncomingPacket_def window_test [OF True] Let_def reliable_consts
        split: if_splits)
next
  case False
  then show ?thesis
    using assms(2)
    by (auto simp: TryInsertIncomingPacket_def word_le_nat_alt word_less_nat_alt split: if_splits)
qed

lemma TryInsert_state:
  "TryInsertIncomingPacket p s = (b, s') \<Longrightarrow>
     s' = (if b then s\<lparr>pendingPackets := pendingPackets s @ [p], bufferedID := insert (ID p) (bufferedID s)\<rparr>
           else s)"
  by (auto simp: TryInsertIncomingPacket_def Let_def split: if_splits)

lemma TryInsert_inv:
  assumes "in_drained s" "TryInsertIncomingPacket p s = (b, s')"
  shows "in_inv s'"
  using assms TryInsert_iff [OF assms] TryInsert_state [OF assms(2)]
  by (auto simp: in_drained_def in_inv_def split: if_splits)

lemma NextOrdered_spec:
  assumes "in_inv s" "NextOrderedSequence s = (out, s')"
  shows "mset (pendingPackets s) = mset out + mset (pendingPackets s') \<and>
    map (\<lambda>q. unat (ID q)) out = [Suc (unat (lastConsumedID s)) ..< Suc (unat (lastConsumedID s'))] \<and>
    unat (lastConsumedID s) \<le> unat (lastConsumedID s') \<and> in_drained s'"
proof -
  let ?ps = "sort_key ID (pendingPackets s)"
  obtain B lc where loop: "order_loop (lastConsumedID s) (bufferedID s) ?ps =
      (out, pendingPackets s', B, lc)" and s': "bufferedID s' = B" "lastConsumedID s' = lc"
    using assms(2) by (auto simp: NextOrderedSequence_def Let_def split: prod.splits)
  have "distinct (map ID ?ps)"
    using assms(1) by (simp add: in_inv_def distinct_map)
  then have "sorted_wrt (<) (map ID ?ps)"
    using sorted_sort_key [of ID "pendingPackets s"] strict_sorted_iff by blast
  moreover have "\<forall>p \<in> set ?ps. lastConsumedID s < ID p"
    using assms(1) by (simp add: in_inv_def word_less_nat_alt)
  ultimately have spec: "?ps = out @ pendingPackets s'" "unat (lastConsumedID s) \<le> unat lc"
    "map (\<lambda>q. unat (ID q)) out = [Suc (unat (lastConsumedID s)) ..< Suc (unat lc)]"
    "B = bufferedID s - ID ` set out" "\<forall>p \<in> set (pendingPackets s'). Suc (unat lc) < unat (ID p)"
    using order_loop_sorted [OF _ _ loop] by blast+
  have "mset (pendingPackets s) = mset (out @ pendingPackets s')"
    using spec(1) mset_sort [of ID "pendingPackets s"] by metis
  moreover have "in_drained s'"
  proof -
    have set: "set (pendingPackets s) = set out \<union> set (pendingPackets s')"
      using spec(1) by (metis set_append set_sort)
    have dist: "distinct (map ID out @ map ID (pendingPackets s'))"
      using \<open>distinct (map ID ?ps)\<close> spec(1) by (metis map_append)
    then have disj: "ID ` set out \<inter> ID ` set (pendingPackets s') = {}" by simp
    have "bufferedID s = ID ` set (pendingPackets s)" using assms(1) by (simp add: in_inv_def)
    then have un: "bufferedID s = ID ` set out \<union> ID ` set (pendingPackets s')"
      by (simp only: set image_Un)
    have B: "bufferedID s' = ID ` set (pendingPackets s')"
      unfolding s' spec(4) un using disj by blast
    have range: "Suc (unat lc) < unat (ID p) \<and> unat (ID p) \<le> unat lc + ReliableReceiveBufferSize"
      if "p \<in> set (pendingPackets s')" for p
    proof -
      have "p \<in> set (pendingPackets s)" using that set by blast
      then have "unat (ID p) \<le> unat (lastConsumedID s) + ReliableReceiveBufferSize"
        using assms(1) by (simp add: in_inv_def)
      with spec(2,5) that show ?thesis by simp
    qed
    have "distinct (map ID (pendingPackets s'))" using dist by simp
    then show ?thesis using range unfolding in_drained_def in_inv_def B s'(2) by fastforce
  qed
  ultimately show ?thesis using spec s' by simp
qed

lemma in_receive_cases:
  assumes "in_receive p s = (out, s')"
  obtains (rejected) "out = []" "s' = s" "\<not> fst (TryInsertIncomingPacket p s)"
  | (accepted) s1 where "TryInsertIncomingPacket p s = (True, s1)" "NextOrderedSequence s1 = (out, s')"
    "pendingPackets s1 = pendingPackets s @ [p]" "lastConsumedID s1 = lastConsumedID s"
proof (cases "TryInsertIncomingPacket p s")
  case (Pair b s1)
  then show thesis
    using assms TryInsert_state [OF Pair] rejected accepted [of s1]
    by (cases b) (auto simp: in_receive_def)
qed

lemma in_inv_next_fresh:
  assumes "in_drained s" "unat (ID p) = Suc (unat (lastConsumedID s))"
  shows "ID p \<notin> bufferedID s"
proof
  assume "ID p \<in> bufferedID s"
  then obtain q where "q \<in> set (pendingPackets s)" "ID q = ID p"
    using assms(1) by (auto simp: in_drained_def in_inv_def)
  then show False using assms unfolding in_drained_def by metis
qed

lemma NextOrdered_next:
  assumes inv: "in_inv s" and seq: "NextOrderedSequence s = (out, s')"
    and p: "p \<in> set (pendingPackets s)" "unat (ID p) = Suc (unat (lastConsumedID s))"
  shows "\<exists>out'. out = p # out'"
proof -
  note spec = NextOrdered_spec [OF inv seq]
  have "p \<in># mset (pendingPackets s)" using p(1) by simp
  then have "p \<in> set out \<or> p \<in> set (pendingPackets s')"
    using spec by (simp only: set_mset_mset Un_iff set_mset_union)
  moreover have "p \<notin> set (pendingPackets s')"
  proof
    assume "p \<in> set (pendingPackets s')"
    then have "unat (lastConsumedID s') < unat (ID p)" "unat (ID p) \<noteq> Suc (unat (lastConsumedID s'))"
      using spec by (auto simp: in_drained_def in_inv_def)
    moreover have "unat (lastConsumedID s) \<le> unat (lastConsumedID s')" using spec by simp
    ultimately show False using p(2) by linarith
  qed
  ultimately obtain q out' where out: "out = q # out'" by (cases out) auto
  then have "unat (ID q) = Suc (unat (lastConsumedID s))"
    using spec by (auto simp: upt_rec [of "Suc _"] simp del: upt_Suc split: if_splits)
  then have "ID q = ID p" using p(2) word_unat_eq_iff by metis
  moreover have "q \<in># mset out + mset (pendingPackets s')" using out by simp
  then have "q \<in># mset (pendingPackets s)" using spec by metis
  ultimately have "q = p" using inv p(1) by (auto simp: in_inv_def distinct_map inj_on_def)
  then show ?thesis using out by simp
qed

lemma in_receive_next:
  assumes "in_drained s" "unat (ID p) = Suc (unat (lastConsumedID s))"
  shows "\<exists>out. fst (in_receive p s) = p # out"
proof -
  obtain b s1 where ins: "TryInsertIncomingPacket p s = (b, s1)" by fastforce
  have b: "b"
    using TryInsert_iff [OF assms(1) ins] assms(2) in_inv_next_fresh [OF assms]
    by (simp add: reliable_consts)
  obtain out s' where seq: "NextOrderedSequence s1 = (out, s')" by fastforce
  have "\<exists>out'. out = p # out'"
    using TryInsert_inv [OF assms(1) ins] seq
    by (rule NextOrdered_next) (use TryInsert_state [OF ins] b assms(2) in simp_all)
  then show ?thesis using ins b seq by (auto simp: in_receive_def)
qed

interpretation incoming: ordered_receiver in_receive in_drained "\<lambda>s. unat (lastConsumedID s)"
  "\<lambda>s. set (pendingPackets s)"
proof
  fix s :: IncomingReliableState and p out s'
  assume inv: "in_drained s" and step: "in_receive p s = (out, s')"
  have "in_drained s' \<and> unat (lastConsumedID s) \<le> unat (lastConsumedID s') \<and>
      map (\<lambda>q. unat (ID q)) out = [Suc (unat (lastConsumedID s)) ..< Suc (unat (lastConsumedID s'))] \<and>
      set out \<union> set (pendingPackets s') \<subseteq> insert p (set (pendingPackets s))"
    using step
  proof (cases rule: in_receive_cases)
    case rejected
    then show ?thesis using inv by auto
  next
    case (accepted s1)
    note spec = NextOrdered_spec [OF TryInsert_inv [OF inv accepted(1)] accepted(2)]
    then have "mset (pendingPackets s1) = mset (out @ pendingPackets s')" by simp
    then have "set (pendingPackets s1) = set out \<union> set (pendingPackets s')"
      by (metis set_append set_mset_mset)
    then show ?thesis using spec accepted(3,4) by auto
  qed
  then show "in_drained s'"
    and "unat (lastConsumedID s) \<le> unat (lastConsumedID s') \<and>
      map (\<lambda>q. unat (ID q)) out = [Suc (unat (lastConsumedID s)) ..< Suc (unat (lastConsumedID s'))]"
    and "set out \<union> set (pendingPackets s') \<subseteq> insert p (set (pendingPackets s))"
    by blast+
next
  fix s :: IncomingReliableState and p :: packet
  assume "in_drained s" and "unat (ID p) = Suc (unat (lastConsumedID s))"
  then show "\<exists>out. fst (in_receive p s) = p # out" by (rule in_receive_next)
qed

lemma NewIncoming_drained: "in_drained NewIncomingReliableState"
  by (simp add: NewIncomingReliableState_def in_drained_def in_inv_def)

text \<open>
  C6. Exactly-once, in-order delivery: whatever packets arrive, in whatever order, lost,
  duplicated or out of the window, the packets handed to the TLS layer carry the ids 1, 2, 3,
  \<dots> up to the last consumed id, each exactly once, and each of them arrived.
\<close>

theorem delivery_in_order:
  "map (\<lambda>q. unat (ID q)) (fst (recv_run in_receive ps NewIncomingReliableState)) =
     [1 ..< Suc (unat (lastConsumedID (snd (recv_run in_receive ps NewIncomingReliableState))))] \<and>
   set (fst (recv_run in_receive ps NewIncomingReliableState)) \<subseteq> set ps"
proof -
  obtain out s' where run: "recv_run in_receive ps NewIncomingReliableState = (out, s')" by fastforce
  from incoming.recv_run_ids [OF NewIncoming_drained run] run show ?thesis
    by (simp add: NewIncomingReliableState_def del: upt_Suc)
qed

text \<open>
  C7. End to end: when every packet that arrives is one the peer sent under that id (the
  control channel authenticates them), what is delivered is a prefix of what was sent.
\<close>

theorem delivery_prefix:
  assumes "\<forall>p \<in> set ps. ID p \<noteq> 0 \<longrightarrow> unat (ID p) \<le> length sent \<and> p = sent ! (unat (ID p) - 1)"
  shows "fst (recv_run in_receive ps NewIncomingReliableState) =
    take (unat (lastConsumedID (snd (recv_run in_receive ps NewIncomingReliableState)))) sent"
proof -
  obtain out s' where run: "recv_run in_receive ps NewIncomingReliableState = (out, s')" by fastforce
  have "out = take (unat (lastConsumedID s')) sent"
    using NewIncoming_drained _ _ run
    by (rule incoming.recv_run_prefix)
      (use assms in \<open>auto simp: NewIncomingReliableState_def unat_0_iff\<close>)
  with run show ?thesis by simp
qed

definition sample_packet :: "packet_id \<Rightarrow> byte \<Rightarrow> packet" where
  "sample_packet i b = zero_packet\<lparr>Opcode := OpcodeControlV1, ID := i, Payload := [b]\<rparr>"

theorem delivery_prefix_witness:
  "fst (recv_run in_receive [sample_packet 2 20, sample_packet 1 10, sample_packet 2 20]
      NewIncomingReliableState) =
   take (unat (lastConsumedID (snd (recv_run in_receive
      [sample_packet 2 20, sample_packet 1 10, sample_packet 2 20] NewIncomingReliableState))))
     [sample_packet 1 10, sample_packet 2 20, sample_packet 3 30]"
  by (rule delivery_prefix) (simp add: sample_packet_def)

text \<open>
  C8. The receive window never blocks: at every point of every run, the packet with the next
  expected id is accepted and delivered the moment it arrives.
\<close>

theorem next_packet_delivered:
  assumes "unat (ID p) = Suc (unat (lastConsumedID (snd (recv_run in_receive ps NewIncomingReliableState))))"
  shows "\<exists>out. fst (in_receive p (snd (recv_run in_receive ps NewIncomingReliableState))) = p # out"
proof -
  obtain out s' where run: "recv_run in_receive ps NewIncomingReliableState = (out, s')" by fastforce
  then have "in_drained s'" using incoming.recv_run_ids [OF NewIncoming_drained run] by simp
  with assms run show ?thesis by (simp add: in_receive_next)
qed

theorem next_packet_delivered_witness:
  "\<exists>out. fst (in_receive (sample_packet 1 10)
     (snd (recv_run in_receive [sample_packet 2 20] NewIncomingReliableState))) = sample_packet 1 10 # out"
  by (rule next_packet_delivered) code_simp

section \<open>The send buffer\<close>

definition ack_effect :: "packet_id \<Rightarrow> inFlightPacket \<Rightarrow> inFlightPacket" where
  "ack_effect a f = (if a > if_id f then bump f else f)"

lemma swap_remove:
  "take (length (ys @ f # zs) - 1) ((ys @ f # zs)[length ys := (ys @ f # zs) ! (length (ys @ f # zs) - 1),
     length (ys @ f # zs) - 1 := f]) =
   ys @ (if zs = [] then [] else last zs # butlast zs)"
proof (cases zs rule: rev_cases)
  case Nil
  then show ?thesis by simp
next
  case (snoc zs' l)
  then show ?thesis
    by (simp add: list_update_append nth_append nth_Cons' butlast_conv_take take_Cons')
qed

lemma ack_loop_step:
  "ack_loop a (length ys) (ys @ f # zs) =
     (if a = if_id f then ack_loop a (length ys) (ys @ (if zs = [] then [] else last zs # butlast zs))
      else ack_loop a (length (ys @ [f])) ((ys @ [ack_effect a f]) @ zs))"
  by (subst ack_loop.simps) (simp add: ack_effect_def Let_def swap_remove [simplified])

lemma ack_loop_mset:
  "mset (ack_loop a (length ys) (ys @ zs)) =
     mset ys + mset (map (ack_effect a) (filter (\<lambda>f. if_id f \<noteq> a) zs))"
proof (induction zs arbitrary: ys rule: measure_induct_rule [where f = length])
  case (less zs)
  show ?case
  proof (cases zs)
    case Nil
    then show ?thesis by (subst ack_loop.simps) simp
  next
    case (Cons f zs')
    show ?thesis
    proof (cases "a = if_id f")
      case True
      let ?rest = "if zs' = [] then [] else last zs' # butlast zs'"
      have "mset ?rest = mset zs'"
        by (cases zs' rule: rev_cases) simp_all
      then have "mset (filter (\<lambda>f. if_id f \<noteq> a) ?rest) = mset (filter (\<lambda>f. if_id f \<noteq> a) zs')"
        by (metis mset_filter)
      then show ?thesis
        using less.IH [of ?rest ys] Cons True ack_loop_step [of a ys f zs'] by simp
    next
      case False
      then show ?thesis
        using less.IH [of zs' "ys @ [ack_effect a f]"] Cons ack_loop_step [of a ys f zs'] by simp
    qed
  qed
qed

definition acks_effect :: "packet_id list \<Rightarrow> inFlightPacket \<Rightarrow> inFlightPacket" where
  "acks_effect as f =
     f\<lparr>higherPacketAcknowledges :=
         higherPacketAcknowledges f + int (length (filter (\<lambda>a. a > if_id f) as))\<rparr>"

lemma if_id_effect [simp]: "if_id (ack_effect a f) = if_id f" "if_id (acks_effect as f) = if_id f"
  by (simp_all add: ack_effect_def acks_effect_def bump_def)

lemma acks_effect_simps [simp]:
  "acks_effect [] f = f" "acks_effect (a # as) f = acks_effect as (ack_effect a f)"
  by (simp_all add: acks_effect_def ack_effect_def bump_def)

lemma ack_fold_mset:
  "mset (fold (\<lambda>a. ack_loop a 0) as xs) =
     mset (map (acks_effect as) (filter (\<lambda>f. if_id f \<notin> set as) xs))"
proof (induction as arbitrary: xs)
  case Nil
  then show ?case by simp
next
  case (Cons a as)
  let ?ys = "map (ack_effect a) (filter (\<lambda>f. if_id f \<noteq> a) xs)"
  have "mset (ack_loop a 0 xs) = mset ?ys"
    using ack_loop_mset [of a "[]" xs] by simp
  then have "mset (map (acks_effect as) (filter (\<lambda>f. if_id f \<notin> set as) (ack_loop a 0 xs))) =
      mset (map (acks_effect as) (filter (\<lambda>f. if_id f \<notin> set as) ?ys))"
    by (simp only: mset_map mset_filter)
  also have "map (acks_effect as) (filter (\<lambda>f. if_id f \<notin> set as) ?ys) =
      map (acks_effect (a # as)) (filter (\<lambda>f. if_id f \<notin> set (a # as)) xs)"
    by (induction xs) auto
  finally show ?case by (simp only: fold.simps comp_apply Cons.IH)
qed

lemma sort_key_unique:
  fixes key :: "'a \<Rightarrow> 'k::linorder"
  assumes "sorted_wrt (<) (map key ys)" "mset xs = mset ys"
  shows "sort_key key xs = ys"
proof -
  have set: "set xs = set ys" using assms(2) by (metis set_mset_mset)
  have ys: "sorted (map key ys)" "distinct (map key ys)"
    using assms(1) strict_sorted_iff by blast+
  have "mset (map key (sort_key key xs)) = mset (map key ys)"
    using assms(2) by (metis mset_map mset_sort)
  then have "distinct (map key (sort_key key xs))"
    using ys(2) mset_eq_imp_distinct_iff by blast
  then show ?thesis
    using ys set by (intro map_sorted_distinct_set_unique [where f = key]) (auto simp: distinct_map)
qed

text \<open>
  The invariant of the send buffer: at most \<open>ReliableSendBufferSize\<close> packets, ordered by their
  distinct ids, and at most \<open>AcknowledgmentSetCapacity\<close> pending acknowledgments.
\<close>

definition out_inv :: "OutgoingReliableState \<Rightarrow> bool" where
  "out_inv s \<longleftrightarrow> length (inFlightPackets s) \<le> ReliableSendBufferSize \<and>
     sorted_wrt (<) (map if_id (inFlightPackets s)) \<and>
     finite (pendingAcknowledgmentID s) \<and>
     card (pendingAcknowledgmentID s) \<le> AcknowledgmentSetCapacity"

lemma OnIncoming_flight:
  assumes "out_inv s"
  shows "inFlightPackets (out_OnIncomingPacket p s) =
    map (acks_effect (AcknowledgmentIDs p))
      (filter (\<lambda>f. if_id f \<notin> set (AcknowledgmentIDs p)) (inFlightPackets s))"
proof -
  let ?fs = "filter (\<lambda>f. if_id f \<notin> set (AcknowledgmentIDs p)) (inFlightPackets s)"
  have "sorted_wrt (<) (map if_id (inFlightPackets s))" using assms by (simp add: out_inv_def)
  then have "sorted_wrt (<) (map if_id ?fs)" by (simp add: sorted_wrt_map sorted_wrt_filter)
  then have "sorted_wrt (<) (map if_id (map (acks_effect (AcknowledgmentIDs p)) ?fs))"
    by (simp add: sorted_wrt_map)
  from sort_key_unique [OF this ack_fold_mset] show ?thesis
    by (simp add: out_OnIncomingPacket_def Let_def)
qed

text \<open>
  The effect of an incoming packet on the send buffer, swap-removal loop and all: exactly
  the acknowledged packets leave, the others stay in order, and each counts the acknowledgments
  of higher ids.
\<close>

theorem OnIncoming_inFlight:
  assumes "out_inv s"
  shows "inFlightPackets (out_OnIncomingPacket p s) =
    map (acks_effect (AcknowledgmentIDs p))
      (filter (\<lambda>f. if_id f \<notin> set (AcknowledgmentIDs p)) (inFlightPackets s))"
  using assms by (rule OnIncoming_flight)

definition sample_flight :: "packet_id list \<Rightarrow> OutgoingReliableState" where
  "sample_flight ids = \<lparr>inFlightPackets = map (\<lambda>i. \<lparr>if_packet = sample_packet i 7,
     retransmissionDeadline = 0, higherPacketAcknowledges = 0, retransmissionCount = 0\<rparr>) ids,
     pendingAcknowledgmentID = {}\<rparr>"

lemma return_ids_card:
  "finite P \<Longrightarrow> card P \<le> AcknowledgmentSetCapacity \<Longrightarrow>
     finite (return_ids P ids) \<and> card (return_ids P ids) \<le> AcknowledgmentSetCapacity"
  by (induction P ids rule: return_ids.induct) (auto simp: card_insert_if)

lemma return_ids_all:
  assumes "finite P" "distinct ids" "set ids \<inter> P = {}"
    and "card P + length ids \<le> AcknowledgmentSetCapacity"
  shows "return_ids P ids = P \<union> set ids"
  using assms by (induction P ids rule: return_ids.induct) auto

lemma take_ids:
  assumes "takeAcknowledgmentIDsLocked n s = (ids, s')" "finite (pendingAcknowledgmentID s)"
  shows "sorted_wrt (<) ids \<and> set ids \<subseteq> pendingAcknowledgmentID s \<and> int (length ids) \<le> max 0 n \<and>
    s' = s\<lparr>pendingAcknowledgmentID := pendingAcknowledgmentID s - set ids\<rparr>"
proof -
  let ?all = "sorted_list_of_set (pendingAcknowledgmentID s)"
  have "sorted_wrt (<) ?all" by simp
  then have "sorted_wrt (<) (take k ?all)" for k by (rule sorted_wrt_take)
  then show ?thesis
    using assms by (auto simp: takeAcknowledgmentIDsLocked_def Let_def split: if_splits
        dest: in_set_takeD)
qed

lemma return_take_ids:
  assumes "takeAcknowledgmentIDsLocked n s = (ids, s')" "out_inv s"
  shows "returnAcknowledgmentIDsLocked ids s' = s"
proof -
  have fin: "finite (pendingAcknowledgmentID s)" using assms(2) by (simp add: out_inv_def)
  note t = take_ids [OF assms(1) fin]
  then have dist: "distinct ids" using strict_sorted_iff by blast
  have "card (pendingAcknowledgmentID s - set ids) + length ids = card (pendingAcknowledgmentID s)"
    using t fin dist by (metis card_Diff_subset card_mono distinct_card finite_set le_add_diff_inverse2)
  then have "return_ids (pendingAcknowledgmentID s - set ids) ids =
      (pendingAcknowledgmentID s - set ids) \<union> set ids"
    using assms(2) fin dist by (intro return_ids_all) (auto simp: out_inv_def)
  with t show ?thesis by (simp add: returnAcknowledgmentIDsLocked_def Un_absorb2)
qed

definition new_flight :: "packet \<Rightarrow> inFlightPacket" where
  "new_flight p = \<lparr>if_packet = p, retransmissionDeadline = 0, higherPacketAcknowledges = 0,
     retransmissionCount = 0\<rparr>"

lemma InsertOutgoing_effect:
  assumes "out_inv s" "InsertOutgoingPacket n newPacket s m = (r, s', m')"
  shows "case r of
      Inl e \<Rightarrow> s' = s
    | Inr None \<Rightarrow> s' = s \<and> m' = m \<and> length (inFlightPackets s) = ReliableSendBufferSize
    | Inr (Some p) \<Rightarrow> \<exists>ids. newPacket ids m = (Inr p, m') \<and> int (length ids) \<le> max 0 n \<and>
        sorted_wrt (<) ids \<and> set ids \<subseteq> pendingAcknowledgmentID s \<and>
        pendingAcknowledgmentID s' = pendingAcknowledgmentID s - set ids \<and>
        length (inFlightPackets s) < ReliableSendBufferSize \<and>
        inFlightPackets s' = sort_key if_id (inFlightPackets s @ [new_flight p])"
proof (cases "length (inFlightPackets s) \<ge> ReliableSendBufferSize")
  case True
  then show ?thesis using assms by (auto simp: InsertOutgoingPacket_def out_inv_def)
next
  case False
  obtain ids s1 where take: "takeAcknowledgmentIDsLocked n s = (ids, s1)" by fastforce
  obtain q m1 where new: "newPacket ids m = (q, m1)" by fastforce
  note t = take_ids [OF take] return_take_ids [OF take assms(1)]
  show ?thesis
    using False assms take new t
    by (cases q) (auto simp: InsertOutgoingPacket_def out_inv_def new_flight_def)
qed

text \<open>
  C9. A control packet either takes its slot in the send buffer together with the
  acknowledgments it carries, or nothing happens: a full buffer and a failing packet builder
  both leave the buffer and every pending acknowledgment exactly as they were.
\<close>

theorem InsertOutgoing_atomic:
  assumes "out_inv s" "InsertOutgoingPacket n newPacket s m = (r, s', m')"
  shows "case r of
      Inl e \<Rightarrow> s' = s
    | Inr None \<Rightarrow> s' = s \<and> m' = m \<and> length (inFlightPackets s) = ReliableSendBufferSize
    | Inr (Some p) \<Rightarrow> \<exists>ids. newPacket ids m = (Inr p, m') \<and> int (length ids) \<le> max 0 n \<and>
        sorted_wrt (<) ids \<and> set ids \<subseteq> pendingAcknowledgmentID s \<and>
        pendingAcknowledgmentID s' = pendingAcknowledgmentID s - set ids \<and>
        length (inFlightPackets s) < ReliableSendBufferSize \<and>
        mset (map if_packet (inFlightPackets s')) = add_mset p (mset (map if_packet (inFlightPackets s)))"
  using InsertOutgoing_effect [OF assms]
  by (fastforce simp: mset_map new_flight_def split: sum.splits option.splits)

definition sample_insert :: "packet option result \<times> OutgoingReliableState \<times> nat" where
  "sample_insert = InsertOutgoingPacket MaximumAcknowledgmentsPerPacket
     (\<lambda>ids m. (Inr (sample_packet 3 1), Suc m)) (sample_flight [1, 2]) 0"

theorem InsertOutgoing_atomic_witness:
  "mset (map if_packet (inFlightPackets (fst (snd sample_insert)))) =
     {#sample_packet 3 1, sample_packet 1 7, sample_packet 2 7#}"
proof -
  have inv: "out_inv (sample_flight [1, 2])"
    by (simp add: out_inv_def sample_flight_def sample_packet_def reliable_consts)
  have call: "InsertOutgoingPacket MaximumAcknowledgmentsPerPacket
      (\<lambda>ids m. (Inr (sample_packet 3 1), Suc m)) (sample_flight [1, 2]) 0 =
      (Inr (Some (sample_packet 3 1)), fst (snd sample_insert), snd (snd sample_insert))"
    by (simp add: sample_insert_def InsertOutgoingPacket_def takeAcknowledgmentIDsLocked_def
        sample_flight_def reliable_consts)
  from InsertOutgoing_atomic [OF inv call] show ?thesis
    by (simp add: sample_flight_def)
qed

text \<open>
  Every way the control channel uses the send buffer, as a step. A packet inserted into the
  buffer has a fresh id: the session manager hands them out (\<open>control_packet_ids_fresh\<close>).
\<close>

inductive out_reach :: "OutgoingReliableState \<Rightarrow> bool" where
  out_new: "out_reach NewOutgoingReliableState"
| out_insert: "out_reach s \<Longrightarrow>
    InsertOutgoingPacket n newPacket s (m :: SessionManager) = (r, s', m') \<Longrightarrow>
    (\<forall>p. r = Inr (Some p) \<longrightarrow> ID p \<notin> if_id ` set (inFlightPackets s)) \<Longrightarrow> out_reach s'"
| out_incoming: "out_reach s \<Longrightarrow> out_reach (out_OnIncomingPacket p s)"
| out_take: "out_reach s \<Longrightarrow> takeAcknowledgmentIDsLocked n s = (ids, s') \<Longrightarrow> out_reach s'"
| out_return: "out_reach s \<Longrightarrow> out_reach (returnAcknowledgmentIDsLocked ids s)"
| out_ready: "out_reach s \<Longrightarrow> PacketsReadyToSend now s = (ready, s') \<Longrightarrow> out_reach s'"

lemma sort_key_strict:
  assumes "distinct (map f xs)"
  shows "sorted_wrt (<) (map f (sort_key f xs :: 'a list) :: 'k::linorder list)"
proof -
  have "mset (map f (sort_key f xs)) = mset (map f xs)" by (simp add: mset_map)
  then have "distinct (map f (sort_key f xs))" using assms mset_eq_imp_distinct_iff by blast
  then show ?thesis using sorted_sort_key strict_sorted_iff by blast
qed

lemma InsertOutgoing_inv:
  assumes "out_inv s" "InsertOutgoingPacket n newPacket s m = (r, s', m')"
    and "\<forall>p. r = Inr (Some p) \<longrightarrow> ID p \<notin> if_id ` set (inFlightPackets s)"
  shows "out_inv s'"
proof (cases "\<exists>p. r = Inr (Some p)")
  case False
  then have "s' = s"
    using InsertOutgoing_effect [OF assms(1,2)] by (auto split: sum.splits option.splits)
  then show ?thesis using assms(1) by simp
next
  case True
  then obtain p where r: "r = Inr (Some p)" by blast
  from InsertOutgoing_effect [OF assms(1,2)] r obtain ids where
      len: "length (inFlightPackets s) < ReliableSendBufferSize"
    and pend: "pendingAcknowledgmentID s' = pendingAcknowledgmentID s - set ids"
    and fl: "inFlightPackets s' = sort_key if_id (inFlightPackets s @ [new_flight p])"
    by auto
  have "sorted_wrt (<) (map if_id (inFlightPackets s))" using assms(1) by (simp add: out_inv_def)
  then have "distinct (map if_id (inFlightPackets s @ [new_flight p]))"
    using assms(3) r strict_sorted_iff by (auto simp: new_flight_def)
  note strict = sort_key_strict [OF this]
  have "card (pendingAcknowledgmentID s') \<le> card (pendingAcknowledgmentID s)"
    using assms(1) pend by (intro card_mono) (auto simp: out_inv_def)
  then show ?thesis
    using strict assms(1) len pend fl by (auto simp: out_inv_def)
qed

lemma OnIncoming_inv:
  assumes "out_inv s"
  shows "out_inv (out_OnIncomingPacket p s)"
proof -
  let ?fs = "filter (\<lambda>f. if_id f \<notin> set (AcknowledgmentIDs p)) (inFlightPackets s)"
  have "sorted_wrt (<) (map if_id ?fs)"
    using assms by (simp add: out_inv_def sorted_wrt_map sorted_wrt_filter)
  moreover have "length ?fs \<le> ReliableSendBufferSize"
    using assms length_filter_le [of "\<lambda>f. if_id f \<notin> set (AcknowledgmentIDs p)" "inFlightPackets s"]
    unfolding out_inv_def by linarith
  ultimately show ?thesis
    using assms
    by (auto simp: out_inv_def OnIncoming_flight [OF assms] sorted_wrt_map)
      (auto simp: out_OnIncomingPacket_def Let_def card_insert_if)
qed

lemma ready_loop_spec:
  "ready_loop now fs =
     (map if_packet (filter (is_ready now) fs),
      map (\<lambda>f. if is_ready now f then scheduleForRetransmission now f else f) fs)"
  by (induction fs) auto

lemma if_packet_schedule [simp]: "if_packet (scheduleForRetransmission now f) = if_packet f"
  by (simp add: scheduleForRetransmission_def Let_def)

lemma PacketsReady_inv:
  assumes "out_inv s" "PacketsReadyToSend now s = (ready, s')"
  shows "out_inv s'"
proof -
  have "map if_id (inFlightPackets s') = map if_id (inFlightPackets s)"
    and "pendingAcknowledgmentID s' = pendingAcknowledgmentID s"
    using assms(2) by (auto simp: PacketsReadyToSend_def ready_loop_spec)
  then show ?thesis using assms(1) by (metis length_map out_inv_def)
qed

lemma take_inv:
  assumes "out_inv s" "takeAcknowledgmentIDsLocked n s = (ids, s')"
  shows "out_inv s'"
proof -
  have fin: "finite (pendingAcknowledgmentID s)" using assms(1) by (simp add: out_inv_def)
  note t = take_ids [OF assms(2) fin]
  have "card (pendingAcknowledgmentID s - set ids) \<le> card (pendingAcknowledgmentID s)"
    using fin by (intro card_mono) auto
  then show ?thesis using t assms(1) by (simp add: out_inv_def)
qed

lemma return_inv: "out_inv s \<Longrightarrow> out_inv (returnAcknowledgmentIDsLocked ids s)"
  using return_ids_card by (auto simp: returnAcknowledgmentIDsLocked_def out_inv_def)

text \<open>
  C10. However the control channel drives the send buffer, it never holds more than six packets
  or eight pending acknowledgments, and the packets stay ordered by distinct ids.
\<close>

theorem out_reach_inv: "out_reach s \<Longrightarrow> out_inv s"
proof (induction rule: out_reach.induct)
  case out_new
  show ?case by (simp add: NewOutgoingReliableState_def out_inv_def)
next
  case (out_insert s n newPacket m r s' m')
  then show ?case by (blast intro: InsertOutgoing_inv)
qed (auto intro: OnIncoming_inv take_inv return_inv PacketsReady_inv)

theorem out_reach_inv_witness:
  "out_inv (out_OnIncomingPacket (sample_packet 5 1) NewOutgoingReliableState)"
  by (rule out_reach_inv, rule out_incoming, rule out_new)

section \<open>Retransmission\<close>

text \<open>
  C11. The back-off: for the first 33 transmissions of a packet the next deadline lies exactly
  \<open>min (2 s * 2 ^ count) (60 s)\<close> after this one.
\<close>

theorem retransmission_backoff:
  assumes "retransmissionCount p = int c" "c \<le> 32"
  shows "retransmissionDeadline (scheduleForRetransmission now p) =
    now + min (InitialRetransmissionTimeout * 2 ^ c) MaximumRetransmissionTimeout"
proof -
  have le: "(2 :: int) ^ c \<le> 2 ^ 32" using assms(2) by (intro power_increasing) simp_all
  have pos: "(0 :: int) \<le> 2 ^ c" by simp
  then have "- 9223372036854775808 \<le> (2 :: int) ^ c" by linarith
  with le have "int64 (2 ^ c) = 2 ^ c"
    by (simp add: int64_def signed_take_bit_int_eq_self_iff)
  moreover have "int64 (InitialRetransmissionTimeout * 2 ^ c) = InitialRetransmissionTimeout * 2 ^ c"
  proof -
    have "- 9007199254740992 \<le> 1953125 * (2 :: int) ^ c" using pos by linarith
    with le show ?thesis
      by (simp add: int64_def signed_take_bit_int_eq_self_iff reliable_consts)
  qed
  ultimately show ?thesis
    using assms(1) by (simp add: scheduleForRetransmission_def Let_def)
qed

definition sample_counted :: "int \<Rightarrow> inFlightPacket" where
  "sample_counted c = \<lparr>if_packet = sample_packet 1 7, retransmissionDeadline = 0,
     higherPacketAcknowledges = 0, retransmissionCount = c\<rparr>"

theorem retransmission_backoff_witness:
  "retransmissionDeadline (scheduleForRetransmission 1000 (sample_counted (int 3))) =
     1000 + min (InitialRetransmissionTimeout * 2 ^ 3) MaximumRetransmissionTimeout"
  by (rule retransmission_backoff) (simp_all add: sample_counted_def)

text \<open>
  The 34th transmission overflows the signed 64-bit duration: the product wraps to a negative
  number, \<open>min\<close> keeps it, and the deadline lies before the transmission itself.
\<close>

lemma retransmission_overflow:
  "retransmissionDeadline (scheduleForRetransmission now (sample_counted 33)) < now"
proof -
  have "int64 (InitialRetransmissionTimeout * int64 (2 ^ 33)) < 0" by (simp add: int64_def reliable_consts signed_take_bit_eq_if_negative)
  then show ?thesis by (simp add: scheduleForRetransmission_def sample_counted_def Let_def)
qed

text \<open>
  Nothing resets \<open>higherPacketAcknowledges\<close> when a packet is sent again early: from the third
  higher acknowledgment on, the packet is due at every tick of the sender, whatever its
  deadline, and it stays so afterwards.
\<close>

lemma fast_retransmission_repeats:
  assumes "f \<in> set (inFlightPackets s)" "higherPacketAcknowledges f \<ge> FastRetransmissionACKThreshold"
    and "PacketsReadyToSend now s = (ready, s')"
  shows "if_packet f \<in> set ready \<and>
    (\<exists>f' \<in> set (inFlightPackets s'). if_packet f' = if_packet f \<and>
       higherPacketAcknowledges f' \<ge> FastRetransmissionACKThreshold)"
proof -
  have ready: "is_ready now f" using assms(2) by (simp add: is_ready_def)
  have "scheduleForRetransmission now f \<in> set (inFlightPackets s')"
    using assms(1,3) ready by (force simp: PacketsReadyToSend_def ready_loop_spec)
  moreover have "higherPacketAcknowledges (scheduleForRetransmission now f) = higherPacketAcknowledges f"
    by (simp add: scheduleForRetransmission_def Let_def)
  moreover have "if_packet f \<in> set ready"
    using assms(1,3) ready by (force simp: PacketsReadyToSend_def ready_loop_spec)
  ultimately show ?thesis using assms(2) if_packet_schedule by metis
qed

end
