(* ===== verification/Replay_Window.thy ===== *)
theory Replay_Window
  imports Prelude
begin

text \<open>
  The sliding replay window of replay\_window.go: a bitmap of the packet ids
  below the highest one seen, the arrival time of each, and the two entry
  points, the short form (id only) and the long form (id and timestamp).
  The clock is an argument: \<open>reap_now\<close> is the reading taken by reapLocked and
  \<open>now\<close> the one stored as arrival time. The last part of the theory is the
  interface of an anti-replay guard and its two interpretations on the window.
\<close>

section \<open>The window\<close>

definition defaultReplayWindowSize :: u32 where "defaultReplayWindowSize = 64"
definition maxReplayWindowSize :: u32 where "maxReplayWindowSize = 65536"
definition defaultReplayWindowTime :: duration where "defaultReplayWindowTime = 15 * second"
definition maxReplayWindowTime :: duration where "maxReplayWindowTime = 600 * second"

record replayWindow =
  windowSize :: u32
  initialized :: bool
  highestID :: u32
  highestTimestamp :: u32
  bitmap :: "u64 list"
  arrivalTimes :: "time list"
  minimumID :: u32
  timeWindow :: duration

definition newReplayWindow :: "u32 \<Rightarrow> duration \<Rightarrow> replayWindow" where
  "newReplayWindow wsize tw =
     \<lparr>windowSize = wsize, initialized = False, highestID = 0, highestTimestamp = 0,
      bitmap = replicate ((unat wsize + 63) div 64) 0,
      arrivalTimes = replicate (unat wsize) 0,
      minimumID = 0, timeWindow = tw\<rparr>"

text \<open>One target word of shiftReplayBitmap, read from the bitmap as it is.\<close>

definition shift_word :: "nat \<Rightarrow> nat \<Rightarrow> u64 list \<Rightarrow> nat \<Rightarrow> u64" where
  "shift_word wordShift bitShift bm target =
     (if wordShift \<le> target
      then let source = target - wordShift;
               result = push_bit bitShift (bm ! source)
           in if 0 < bitShift \<and> 1 \<le> source
              then result OR drop_bit (64 - bitShift) (bm ! (source - 1))
              else result
      else 0)"

text \<open>The loop of shiftReplayBitmap, from the last word down, in place.\<close>

fun shift_loop :: "nat \<Rightarrow> nat \<Rightarrow> nat \<Rightarrow> u64 list \<Rightarrow> u64 list" where
  "shift_loop wordShift bitShift 0 bm = bm"
| "shift_loop wordShift bitShift (Suc target) bm =
     shift_loop wordShift bitShift target
       (bm[target := shift_word wordShift bitShift bm target])"

definition shiftReplayBitmap :: "u64 list \<Rightarrow> u32 \<Rightarrow> u64 list" where
  "shiftReplayBitmap bm shift =
     shift_loop (unat (shift div 64)) (unat (shift mod 64)) (length bm) bm"

definition shiftReplayTimes :: "time list \<Rightarrow> u32 \<Rightarrow> time list" where
  "shiftReplayTimes ts shift =
     (if shift = 0 \<or> ts = [] then ts
      else if of_nat (length ts) \<le> shift then replicate (length ts) 0
      else replicate (unat shift) 0 @ take (length ts - unat shift) ts)"

definition initializeLocked :: "time \<Rightarrow> u32 \<Rightarrow> u32 \<Rightarrow> replayWindow \<Rightarrow> replayWindow" where
  "initializeLocked now packetID timestamp w =
     (let bm = replicate (length (bitmap w)) 0;
          ts = replicate (length (arrivalTimes w)) 0
      in w\<lparr>initialized := True, highestTimestamp := timestamp, highestID := packetID,
           minimumID := 0,
           bitmap := (if 0 < windowSize w then bm[0 := 1] else bm),
           arrivalTimes := (if 0 < windowSize w then ts[0 := now] else ts)\<rparr>)"

text \<open>The search of reapLocked: the first offset that arrived before the cutoff.\<close>

fun reap_offset :: "time \<Rightarrow> nat \<Rightarrow> time list \<Rightarrow> nat option" where
  "reap_offset cutoff offset [] = None"
| "reap_offset cutoff offset (t # ts) =
     (if t = 0 \<or> \<not> t < cutoff then reap_offset cutoff (Suc offset) ts else Some offset)"

definition reapLocked :: "time \<Rightarrow> replayWindow \<Rightarrow> replayWindow" where
  "reapLocked reap_now w =
     (if timeWindow w \<le> 0 then w
      else case reap_offset (reap_now - timeWindow w) 0 (arrivalTimes w) of
             None \<Rightarrow> w
           | Some offset \<Rightarrow>
               (let m = highestID w - of_nat offset + 1
                in if minimumID w < m then w\<lparr>minimumID := m\<rparr> else w))"

definition acceptLocked ::
  "time \<times> time \<Rightarrow> replayWindow \<Rightarrow> u32 \<Rightarrow> bool \<times> replayWindow" where
  "acceptLocked clock w packetID =
     (if \<not> initialized w then (True, initializeLocked (snd clock) packetID 0 w)
      else if windowSize w = 0 then
        (if packetID \<noteq> highestID w + 1 then (False, w)
         else (True, w\<lparr>highestID := packetID\<rparr>))
      else
        let w = reapLocked (fst clock) w in
        if highestID w < packetID then
          (let shift = packetID - highestID w;
               bm = (if windowSize w \<le> shift then replicate (length (bitmap w)) 0
                     else shiftReplayBitmap (bitmap w) shift);
               ts = (if windowSize w \<le> shift then replicate (length (arrivalTimes w)) 0
                     else shiftReplayTimes (arrivalTimes w) shift)
           in (True, w\<lparr>bitmap := bm[0 := bm ! 0 OR 1],
                       arrivalTimes := ts[0 := snd clock],
                       highestID := packetID\<rparr>))
        else if packetID < minimumID w then (False, w)
        else
          let offset = highestID w - packetID in
          if windowSize w \<le> offset then (False, w)
          else
            let wordIndex = unat (offset div 64);
                packetMask = push_bit (unat (offset mod 64)) (1 :: u64)
            in if bitmap w ! wordIndex AND packetMask \<noteq> 0 then (False, w)
               else (True, w\<lparr>bitmap := (bitmap w)[wordIndex := bitmap w ! wordIndex OR packetMask],
                             arrivalTimes := (arrivalTimes w)[unat offset := snd clock]\<rparr>))"

definition Accept :: "time \<times> time \<Rightarrow> replayWindow \<Rightarrow> u32 \<Rightarrow> bool \<times> replayWindow" where
  "Accept clock w packetID =
     (if packetID = 0 then (False, w) else acceptLocked clock w packetID)"

definition AcceptLongForm ::
  "time \<times> time \<Rightarrow> replayWindow \<Rightarrow> u32 \<times> u32 \<Rightarrow> bool \<times> replayWindow" where
  "AcceptLongForm clock w x =
     (case x of (timestamp, packetID) \<Rightarrow>
      if packetID = 0 then (False, w)
      else if \<not> initialized w then
        (if windowSize w = 0 \<and> 0 < timestamp \<and> packetID \<noteq> 1 then (False, w)
         else (True, initializeLocked (snd clock) packetID timestamp w))
      else if timestamp < highestTimestamp w then (False, w)
      else if highestTimestamp w < timestamp then
        (if windowSize w = 0 \<and> packetID \<noteq> 1 then (False, w)
         else (True, initializeLocked (snd clock) packetID timestamp w))
      else acceptLocked clock w packetID)"

section \<open>The bitmap as a set of offsets\<close>

definition bm_bit :: "u64 list \<Rightarrow> nat \<Rightarrow> bool" where
  "bm_bit bm i = (i div 64 < length bm \<and> bit (bm ! (i div 64)) (i mod 64))"

lemma bm_bit_replicate [simp]: "\<not> bm_bit (replicate n 0) i"
  by (simp add: bm_bit_def)

lemma length_shift_loop [simp]: "length (shift_loop ws bs n bm) = length bm"
  by (induction ws bs n bm rule: shift_loop.induct) simp_all

lemma length_shiftReplayBitmap [simp]: "length (shiftReplayBitmap bm s) = length bm"
  by (simp add: shiftReplayBitmap_def)

text \<open>Words at or above the loop's target are not read again below it.\<close>

lemma shift_word_update:
  "j < t \<Longrightarrow> shift_word ws bs (bm[t := x]) j = shift_word ws bs bm j"
  by (simp add: shift_word_def Let_def)

lemma shift_loop_nth:
  "n \<le> length bm \<Longrightarrow> j < length bm \<Longrightarrow>
   shift_loop ws bs n bm ! j = (if j < n then shift_word ws bs bm j else bm ! j)"
  by (induction ws bs n bm rule: shift_loop.induct)
     (auto simp: shift_word_update less_Suc_eq nth_list_update)

lemma shift_word_bit:
  assumes "t < length bm" "b < 64" "bs < 64"
  shows "bit (shift_word ws bs bm t) b =
         (64 * ws + bs \<le> 64 * t + b \<and> bm_bit bm (64 * t + b - (64 * ws + bs)))"
proof (cases "ws \<le> t")
  case False
  then have "64 * t + b < 64 * ws + bs" using assms by linarith
  with False show ?thesis by (simp add: shift_word_def)
next
  case True
  then obtain s where t: "t = ws + s" using le_Suc_ex by blast
  have sub: "64 * t + b - (64 * ws + bs) = 64 * s + b - bs" by (simp add: t)
  show ?thesis
  proof (cases "bs \<le> b")
    case True
    then have d: "64 * s + b - bs = 64 * s + (b - bs)" by simp
    have dm: "(64 * s + (b - bs)) div 64 = s" "(64 * s + (b - bs)) mod 64 = b - bs"
      using assms(2) by simp_all
    have hi: "\<not> bit (bm ! (s - 1)) (64 - bs + b)"
      using True assms by (auto dest!: bit_imp_le_length)
    show ?thesis
      using True assms hi unfolding sub d bm_bit_def dm shift_word_def Let_def
      by (simp add: t bit_push_bit_iff bit_or_iff bit_drop_bit_eq)
  next
    case False
    show ?thesis
    proof (cases s)
      case 0
      with False assms show ?thesis
        by (simp add: t shift_word_def Let_def bit_push_bit_iff)
    next
      case (Suc r)
      then have d: "64 * s + b - bs = 64 * r + (64 + b - bs)" using assms by simp
      have lt: "64 + b - bs < 64" using False by simp
      have dm: "(64 * r + (64 + b - bs)) div 64 = r" "(64 * r + (64 + b - bs)) mod 64 = 64 + b - bs"
        using lt by simp_all
      have e: "64 - bs + b = 64 + b - bs" using assms by simp
      show ?thesis
        using False assms Suc unfolding sub d bm_bit_def dm shift_word_def Let_def
        by (simp add: t bit_push_bit_iff bit_or_iff bit_drop_bit_eq e)
    qed
  qed
qed

lemma shiftReplayBitmap_bit:
  assumes "i < 64 * length bm"
  shows "bm_bit (shiftReplayBitmap bm s) i = (unat s \<le> i \<and> bm_bit bm (i - unat s))"
proof -
  have i: "i div 64 < length bm" using assms by (simp add: less_mult_imp_div_less mult.commute)
  have s: "64 * unat (s div 64) + unat (s mod 64) = unat s"
    by (simp add: unat_div unat_mod)
  have "unat (s mod 64) < 64" by (simp add: unat_mod)
  moreover have "64 * (i div 64) + i mod 64 = i" by simp
  ultimately show ?thesis
    using shift_word_bit [of "i div 64" bm "i mod 64" "unat (s mod 64)" "unat (s div 64)"] i
    by (simp add: bm_bit_def [of "shift_loop a b c d" for a b c d] shiftReplayBitmap_def shift_loop_nth s)
qed

text \<open>Setting one bit, the way acceptLocked does it.\<close>

lemma and_mask_bit:
  fixes x :: u64
  assumes "b < 64"
  shows "(x AND push_bit b 1 \<noteq> 0) = bit x b"
  using assms by (auto simp: bit_eq_iff [of "x AND y" for y] bit_and_iff bit_exp_iff)

lemma bm_bit_set:
  assumes "i < 64 * length bm"
  shows "bm_bit (bm[i div 64 := bm ! (i div 64) OR push_bit (i mod 64) 1]) j = (j = i \<or> bm_bit bm j)"
proof -
  have i: "i div 64 < length bm" using assms by (simp add: less_mult_imp_div_less mult.commute)
  have eq: "(j = i) = (j div 64 = i div 64 \<and> j mod 64 = i mod 64)"
    by (metis mult_div_mod_eq)
  show ?thesis
    unfolding bm_bit_def eq using i
    by (auto simp: nth_list_update bit_or_iff bit_exp_iff)
qed

corollary bm_bit_set_0:
  "0 < length bm \<Longrightarrow> bm_bit (bm[0 := bm ! 0 OR 1]) j = (j = 0 \<or> bm_bit bm j)"
  using bm_bit_set [of 0 bm j] by simp

corollary bm_bit_init:
  "0 < n \<Longrightarrow> bm_bit ((replicate n 0)[0 := 1]) j = (j = 0)"
  using bm_bit_set_0 [of "replicate n 0" j] by simp

section \<open>Well-formedness and the ids the window remembers\<close>

definition rw_wf :: "replayWindow \<Rightarrow> bool" where
  "rw_wf w = (length (bitmap w) = (unat (windowSize w) + 63) div 64 \<and>
              length (arrivalTimes w) = unat (windowSize w))"

definition seen :: "replayWindow \<Rightarrow> u32 set" where
  "seen w = {x. x \<le> highestID w \<and> unat (highestID w - x) < unat (windowSize w) \<and>
                bm_bit (bitmap w) (unat (highestID w - x))}"

lemma rw_wf_bits: "rw_wf w \<Longrightarrow> i < unat (windowSize w) \<Longrightarrow> i < 64 * length (bitmap w)"
  unfolding rw_wf_def by linarith

lemma length_shiftReplayTimes [simp]: "length (shiftReplayTimes ts s) = length ts"
  by (auto simp: shiftReplayTimes_def word_le_nat_alt min_def not_le unat_of_nat)

lemma unat_diff_le: "(x :: u32) \<le> h \<Longrightarrow> unat (h - x) = unat h - unat x"
  by (simp add: unat_sub)

lemma seen_iff:
  "x \<in> seen w \<longleftrightarrow> x \<le> highestID w \<and> unat (highestID w) - unat x < unat (windowSize w) \<and>
                  bm_bit (bitmap w) (unat (highestID w) - unat x)"
  by (auto simp: seen_def unat_diff_le)

lemma reapLocked_fields [simp]:
  "windowSize (reapLocked t w) = windowSize w" "initialized (reapLocked t w) = initialized w"
  "highestID (reapLocked t w) = highestID w" "highestTimestamp (reapLocked t w) = highestTimestamp w"
  "bitmap (reapLocked t w) = bitmap w" "arrivalTimes (reapLocked t w) = arrivalTimes w"
  "timeWindow (reapLocked t w) = timeWindow w"
  by (simp_all add: reapLocked_def Let_def split: option.split)

lemma reapLocked_mono: "minimumID w \<le> minimumID (reapLocked t w)"
  by (auto simp: reapLocked_def Let_def split: option.split)

lemma initializeLocked_fields [simp]:
  "windowSize (initializeLocked t x ts w) = windowSize w"
  "initialized (initializeLocked t x ts w)"
  "highestID (initializeLocked t x ts w) = x"
  "highestTimestamp (initializeLocked t x ts w) = ts"
  "minimumID (initializeLocked t x ts w) = 0"
  by (simp_all add: initializeLocked_def Let_def)

lemma initializeLocked_wf [simp]: "rw_wf (initializeLocked t x ts w) = rw_wf w"
  by (simp add: initializeLocked_def Let_def rw_wf_def)

lemma initializeLocked_seen:
  assumes "rw_wf w" "windowSize w \<noteq> 0"
  shows "seen (initializeLocked t x ts w) = {x}"
proof -
  have W: "0 < unat (windowSize w)" "0 < windowSize w"
    using assms(2) unat_gt_0 by (auto simp: word_neq_0_conv)
  then have len: "0 < length (bitmap w)" using assms(1) by (simp add: rw_wf_def)
  have "y \<in> seen (initializeLocked t x ts w) \<longleftrightarrow> y = x" for y
    unfolding seen_iff using W len
    by (auto simp: initializeLocked_def Let_def bm_bit_init word_le_nat_alt word_unat_eq_iff)
  then show ?thesis by blast
qed

subsection \<open>The three branches of acceptLocked\<close>

definition advance :: "time \<Rightarrow> replayWindow \<Rightarrow> u32 \<Rightarrow> replayWindow" where
  "advance now w packetID =
     (let shift = packetID - highestID w;
          bm = (if windowSize w \<le> shift then replicate (length (bitmap w)) 0
                else shiftReplayBitmap (bitmap w) shift);
          ts = (if windowSize w \<le> shift then replicate (length (arrivalTimes w)) 0
                else shiftReplayTimes (arrivalTimes w) shift)
      in w\<lparr>bitmap := bm[0 := bm ! 0 OR 1], arrivalTimes := ts[0 := now], highestID := packetID\<rparr>)"

definition mark :: "time \<Rightarrow> replayWindow \<Rightarrow> u32 \<Rightarrow> replayWindow" where
  "mark now w packetID =
     (let i = unat (highestID w - packetID)
      in w\<lparr>bitmap := (bitmap w)[i div 64 := bitmap w ! (i div 64) OR push_bit (i mod 64) 1],
           arrivalTimes := (arrivalTimes w)[i := now]\<rparr>)"

lemma advance_fields [simp]:
  "windowSize (advance t w x) = windowSize w" "initialized (advance t w x) = initialized w"
  "highestID (advance t w x) = x" "highestTimestamp (advance t w x) = highestTimestamp w"
  "minimumID (advance t w x) = minimumID w"
  "rw_wf (advance t w x) = rw_wf w"
  by (simp_all add: advance_def Let_def rw_wf_def)

lemma mark_fields [simp]:
  "windowSize (mark t w x) = windowSize w" "initialized (mark t w x) = initialized w"
  "highestID (mark t w x) = highestID w" "highestTimestamp (mark t w x) = highestTimestamp w"
  "minimumID (mark t w x) = minimumID w"
  "rw_wf (mark t w x) = rw_wf w"
  by (simp_all add: mark_def Let_def rw_wf_def)

lemma advance_seen:
  assumes wf: "rw_wf w" and W: "windowSize w \<noteq> 0" and hi: "highestID w < x"
  shows "seen (advance t w x) = {y \<in> insert x (seen w). unat x - unat y < unat (windowSize w)}"
proof -
  let ?W = "unat (windowSize w)" and ?h = "unat (highestID w)"
  have W0: "0 < ?W" using W by (simp add: unat_gt_0)
  then have len: "0 < length (bitmap w)" using wf by (simp add: rw_wf_def)
  have sh: "unat (x - highestID w) = unat x - ?h" using hi by (simp add: unat_diff_le)
  have hx: "?h < unat x" using hi by (simp add: word_less_nat_alt)
  have bits: "bm_bit (bitmap (advance t w x)) j =
      (j = 0 \<or> unat x - ?h < ?W \<and> unat x - ?h \<le> j \<and> bm_bit (bitmap w) (j - (unat x - ?h)))"
    if "j < ?W" for j
    using rw_wf_bits [OF wf that] len
    by (auto simp: advance_def Let_def bm_bit_set_0 bm_bit_init shiftReplayBitmap_bit sh word_le_nat_alt)
  have "y \<in> seen (advance t w x) \<longleftrightarrow> y \<in> insert x (seen w) \<and> unat x - unat y < ?W" for y
  proof (cases "unat x - unat y < ?W")
    case False
    then show ?thesis by (simp add: seen_iff)
  next
    case True
    have "unat x - unat y - (unat x - ?h) = ?h - unat y" if "unat x - ?h \<le> unat x - unat y"
      using that hx by linarith
    then show ?thesis
      using True hx W0 bits [OF True]
      by (auto simp: seen_iff word_le_nat_alt word_unat_eq_iff)
  qed
  then show ?thesis by blast
qed

lemma mark_seen:
  assumes wf: "rw_wf w" and le: "x \<le> highestID w"
      and win: "unat (highestID w - x) < unat (windowSize w)"
  shows "seen (mark t w x) = insert x (seen w)"
proof -
  let ?i = "unat (highestID w) - unat x"
  have i: "unat (highestID w - x) = ?i" using le by (rule unat_diff_le)
  have bits: "bm_bit (bitmap (mark t w x)) j = (j = ?i \<or> bm_bit (bitmap w) j)" for j
    using bm_bit_set [OF rw_wf_bits [OF wf win]] by (simp add: mark_def Let_def i)
  have "y \<in> seen (mark t w x) \<longleftrightarrow> y = x \<or> y \<in> seen w" for y
    using win le unfolding seen_iff bits mark_fields i
    by (auto simp: word_le_nat_alt word_unat_eq_iff)
  then show ?thesis by blast
qed

lemma acceptLocked_cases:
  assumes wf: "rw_wf w" and init: "initialized w" and W: "windowSize w \<noteq> 0"
  shows "acceptLocked clock w x =
     (let r = reapLocked (fst clock) w in
      if highestID w < x then (True, advance (snd clock) r x)
      else if minimumID r \<le> x \<and> highestID w - x < windowSize w \<and> x \<notin> seen w
      then (True, mark (snd clock) r x)
      else (False, r))"
proof (cases "highestID w < x \<or> x < minimumID (reapLocked (fst clock) w) \<or>
              windowSize w \<le> highestID w - x")
  case True
  then show ?thesis
    using init W by (auto simp: acceptLocked_def advance_def Let_def)
next
  case False
  let ?i = "unat (highestID w - x)"
  have le: "x \<le> highestID w" and win: "?i < unat (windowSize w)"
    using False by (simp_all add: not_less not_le word_less_nat_alt [symmetric])
  have div: "unat ((highestID w - x) div 64) = ?i div 64" "unat ((highestID w - x) mod 64) = ?i mod 64"
    by (simp_all add: unat_div unat_mod)
  have "?i div 64 < length (bitmap w)"
    using rw_wf_bits [OF wf win] by (simp add: less_mult_imp_div_less mult.commute)
  then have bit: "(bitmap w ! (?i div 64) AND push_bit (?i mod 64) 1 \<noteq> 0) = (x \<in> seen w)"
    using le win by (subst and_mask_bit) (simp_all add: seen_def bm_bit_def)
  show ?thesis
    using False init W bit
    by (auto simp: acceptLocked_def mark_def Let_def div)
qed

section \<open>An interface for anti-replay guards\<close>

text \<open>
  A guard answers whether a label (an id, or a timestamp and an id) may pass.
  \<open>dead g\<close> are the labels it will never pass again. \<open>guard_run\<close> offers a sequence
  of labels, each with the guard's other inputs, and collects those that passed.
\<close>

fun guard_run :: "('e \<Rightarrow> 'g \<Rightarrow> 'x \<Rightarrow> bool \<times> 'g) \<Rightarrow> 'g \<Rightarrow> ('e \<times> 'x) list \<Rightarrow> 'x list \<times> 'g" where
  "guard_run accept g [] = ([], g)"
| "guard_run accept g ((e, x) # rest) =
     (case accept e g x of (ok, g') \<Rightarrow>
      case guard_run accept g' rest of (xs, g'') \<Rightarrow> (if ok then x # xs else xs, g''))"

locale anti_replay =
  fixes accept :: "'e \<Rightarrow> 'g \<Rightarrow> 'x \<Rightarrow> bool \<times> 'g"
    and good :: "'g \<Rightarrow> bool"
    and dead :: "'g \<Rightarrow> 'x set"
  assumes good_accept: "good g \<Longrightarrow> accept e g x = (ok, g') \<Longrightarrow> good g'"
      and dead_grows: "good g \<Longrightarrow> accept e g x = (ok, g') \<Longrightarrow> dead g \<subseteq> dead g'"
      and passed_fresh: "good g \<Longrightarrow> accept e g x = (True, g') \<Longrightarrow> x \<notin> dead g"
      and passed_dead: "good g \<Longrightarrow> accept e g x = (True, g') \<Longrightarrow> x \<in> dead g'"
begin

lemma run_good: "good g \<Longrightarrow> good (snd (guard_run accept g es))"
  by (induction es arbitrary: g) (fastforce split: prod.splits dest: good_accept)+

lemma run_dead:
  "good g \<Longrightarrow> dead g \<subseteq> dead (snd (guard_run accept g es))"
proof (induction es arbitrary: g)
  case (Cons ex es)
  obtain e x where ex: "ex = (e, x)" by fastforce
  obtain ok g' where a: "accept e g x = (ok, g')" by fastforce
  show ?case
    using dead_grows [OF Cons.prems a] Cons.IH [OF good_accept [OF Cons.prems a]]
    by (auto simp: ex a split: prod.splits)
qed simp

text \<open>No label passes twice, and what passed is dead afterwards.\<close>

lemma run_never_twice:
  "good g \<Longrightarrow> distinct (fst (guard_run accept g es)) \<and>
     set (fst (guard_run accept g es)) \<inter> dead g = {} \<and>
     set (fst (guard_run accept g es)) \<subseteq> dead (snd (guard_run accept g es))"
proof (induction es arbitrary: g)
  case (Cons ex es)
  obtain e x where ex: "ex = (e, x)" by fastforce
  obtain ok g' where a: "accept e g x = (ok, g')" by fastforce
  have g': "good g'" by (rule good_accept [OF Cons.prems a])
  note ih = Cons.IH [OF g'] run_dead [OF g', of es] dead_grows [OF Cons.prems a]
  show ?case
  proof (cases ok)
    case False
    then show ?thesis using ih by (auto simp: ex a split: prod.splits)
  next
    case True
    have "accept e g x = (True, g')" using a True by simp
    then have "x \<notin> dead g" "x \<in> dead g'"
      using passed_fresh passed_dead Cons.prems by blast+
    then show ?thesis using True ih by (auto simp: ex a split: prod.splits)
  qed
qed simp

end

subsection \<open>Both forms of the window are anti-replay guards\<close>

definition dead_ids :: "replayWindow \<Rightarrow> u32 set" where
  "dead_ids w =
     (if \<not> initialized w then {}
      else if windowSize w = 0 then {x. x \<le> highestID w}
      else {x. x \<le> highestID w \<and>
               (unat (windowSize w) \<le> unat (highestID w) - unat x \<or> x \<in> seen w)})"

definition dead_pairs :: "replayWindow \<Rightarrow> (u32 \<times> u32) set" where
  "dead_pairs w =
     (if \<not> initialized w then {}
      else {(ts, x). ts < highestTimestamp w \<or> ts = highestTimestamp w \<and> x \<in> dead_ids w})"

lemma dead_init: "rw_wf w \<Longrightarrow> x \<in> dead_ids (initializeLocked t x ts w)"
  by (auto simp: dead_ids_def initializeLocked_seen)

lemma acceptLocked_zero_window:
  assumes "initialized w" "windowSize w = 0" "x \<noteq> 0" "acceptLocked clock w x = (ok, w')"
  shows "rw_wf w' = rw_wf w \<and> highestTimestamp w' = highestTimestamp w \<and> initialized w' \<and>
         dead_ids w \<subseteq> dead_ids w' \<and> (ok \<longrightarrow> x \<notin> dead_ids w \<and> x \<in> dead_ids w')"
proof (cases "x = highestID w + 1")
  case True
  then have "highestID w < x"
    using assms(3) unatSuc [of "highestID w"] by (simp add: word_less_nat_alt add.commute)
  then show ?thesis
    using assms True by (auto simp: acceptLocked_def dead_ids_def rw_wf_def)
qed (use assms in \<open>auto simp: acceptLocked_def\<close>)

lemma seen_reap [simp]: "seen (reapLocked t w) = seen w" "rw_wf (reapLocked t w) = rw_wf w"
  by (simp_all add: seen_def rw_wf_def)

lemma acceptLocked_window:
  assumes wf: "rw_wf w" and init: "initialized w" and W: "windowSize w \<noteq> 0"
      and acc: "acceptLocked clock w x = (ok, w')"
  shows "rw_wf w' \<and> highestTimestamp w' = highestTimestamp w \<and> initialized w' \<and>
         dead_ids w \<subseteq> dead_ids w' \<and> (ok \<longrightarrow> x \<notin> dead_ids w \<and> x \<in> dead_ids w')"
proof -
  let ?r = "reapLocked (fst clock) w"
  note acc = acc [unfolded acceptLocked_cases [OF wf init W] Let_def]
  have W0: "0 < unat (windowSize w)" using W by (simp add: unat_gt_0)
  consider (adv) "highestID w < x" "ok" "w' = advance (snd clock) ?r x"
    | (mrk) "x \<le> highestID w" "highestID w - x < windowSize w" "x \<notin> seen w" "ok"
            "w' = mark (snd clock) ?r x"
    | (rej) "\<not> ok" "w' = ?r"
    using acc by (auto split: if_splits simp: not_less)
  then show ?thesis
  proof cases
    case adv
    have s: "seen w' = {y \<in> insert x (seen w). unat x - unat y < unat (windowSize w)}"
      using advance_seen [of ?r x "snd clock"] wf W adv by simp
    show ?thesis
      using adv wf init W W0 unfolding dead_ids_def s
      by (auto simp: word_le_nat_alt word_less_nat_alt not_le)
  next
    case mrk
    have s: "seen w' = insert x (seen w)"
      using mark_seen [of ?r x "snd clock"] wf mrk by (simp add: word_less_nat_alt)
    show ?thesis
      using mrk wf init W unfolding dead_ids_def s
      by (auto simp: word_less_nat_alt unat_diff_le)
  next
    case rej
    then show ?thesis using wf init by (simp add: dead_ids_def)
  qed
qed

lemma acceptLocked_dead:
  assumes wf: "rw_wf w" and x: "x \<noteq> 0" and acc: "acceptLocked clock w x = (ok, w')"
  shows "rw_wf w' \<and> initialized w' \<and> dead_ids w \<subseteq> dead_ids w' \<and>
         (initialized w \<longrightarrow> highestTimestamp w' = highestTimestamp w) \<and>
         (ok \<longrightarrow> x \<notin> dead_ids w \<and> x \<in> dead_ids w')"
proof (cases "initialized w")
  case False
  then show ?thesis
    using acc wf dead_init [OF wf, of x "snd clock" 0]
    by (auto simp: acceptLocked_def dead_ids_def [of w])
next
  case True
  then show ?thesis
    using acceptLocked_zero_window [OF True _ x acc] acceptLocked_window [OF wf True _ acc] wf
    by blast
qed

lemma Accept_dead:
  assumes "rw_wf w" "Accept clock w x = (ok, w')"
  shows "rw_wf w' \<and> dead_ids w \<subseteq> dead_ids w' \<and> (ok \<longrightarrow> x \<notin> dead_ids w \<and> x \<in> dead_ids w')"
  using assms acceptLocked_dead [OF assms(1)] by (auto simp: Accept_def split: if_splits)

lemma AcceptLongForm_dead:
  assumes wf: "rw_wf w" and acc: "AcceptLongForm clock w x = (ok, w')"
  shows "rw_wf w' \<and> dead_pairs w \<subseteq> dead_pairs w' \<and> (ok \<longrightarrow> x \<notin> dead_pairs w \<and> x \<in> dead_pairs w')"
proof -
  obtain ts i where x: "x = (ts, i)" by fastforce
  consider (same) "ok = False" "w' = w"
    | (init) "ok" "w' = initializeLocked (snd clock) i ts w"
             "initialized w \<Longrightarrow> highestTimestamp w < ts"
    | (seq) "initialized w" "ts = highestTimestamp w" "i \<noteq> 0" "acceptLocked clock w i = (ok, w')"
    using acc unfolding AcceptLongForm_def x by (fastforce split: if_splits)
  then show ?thesis
  proof cases
    case init
    then show ?thesis using wf dead_init [OF wf] by (auto simp: x dead_pairs_def)
  next
    case seq
    then show ?thesis
      using acceptLocked_dead [OF wf seq(3,4)] by (auto simp: x dead_pairs_def)
  qed (use wf in simp)
qed

interpretation short_form: anti_replay Accept rw_wf dead_ids
  by unfold_locales (use Accept_dead in \<open>blast\<close>)+

interpretation long_form: anti_replay AcceptLongForm rw_wf dead_pairs
  by unfold_locales (use AcceptLongForm_dead in \<open>blast\<close>)+

lemma newReplayWindow_wf [simp]: "rw_wf (newReplayWindow n tw)"
  by (simp add: rw_wf_def newReplayWindow_def)

section \<open>Properties\<close>

text \<open>
  C12. A replay window of any size and any time limit, fed any sequence of packet
  ids at any clock readings, never accepts the same id twice.
\<close>

theorem replay_window_never_twice:
  "distinct (fst (guard_run Accept (newReplayWindow n tw) offers))"
  using short_form.run_never_twice by simp

text \<open>
  In the long form, no pair of timestamp and packet id is accepted twice,
  although every advance of the timestamp clears the window.
\<close>

theorem replay_window_long_form_never_twice:
  "distinct (fst (guard_run AcceptLongForm (newReplayWindow n tw) offers))"
  using long_form.run_never_twice by simp

text \<open>
  C13. The bitmap implements a set of remembered ids: an id is accepted exactly
  when it is above the highest id, or is not reaped, inside the window and not
  remembered; the remembered set then gains the id and loses what fell out of the
  window, and is unchanged by a rejection.
\<close>

theorem replay_window_refines_set:
  assumes "rw_wf w" "initialized w" "windowSize w \<noteq> 0" "x \<noteq> 0"
      and "Accept clock w x = (ok, w')"
  shows "ok = (highestID w < x \<or>
               minimumID (reapLocked (fst clock) w) \<le> x \<and> highestID w - x < windowSize w \<and> x \<notin> seen w) \<and>
         highestID w' = (if ok then max (highestID w) x else highestID w) \<and>
         seen w' = (if ok then {y \<in> insert x (seen w). unat (highestID w') - unat y < unat (windowSize w)}
                    else seen w)"
proof -
  let ?r = "reapLocked (fst clock) w"
  have eq: "(ok, w') =
      (if highestID w < x then (True, advance (snd clock) ?r x)
       else if minimumID ?r \<le> x \<and> highestID w - x < windowSize w \<and> x \<notin> seen w
       then (True, mark (snd clock) ?r x) else (False, ?r))"
    using assms acceptLocked_cases [of w clock x] by (simp add: Accept_def Let_def)
  show ?thesis
  proof (cases "highestID w < x")
    case True
    then show ?thesis
      using eq assms advance_seen [of ?r x "snd clock"] by (auto simp: max_def)
  next
    case False
    have in_window: "y \<in> seen w \<Longrightarrow> unat (highestID w) - unat y < unat (windowSize w)" for y
      by (simp add: seen_iff)
    show ?thesis
    proof (cases "minimumID ?r \<le> x \<and> highestID w - x < windowSize w \<and> x \<notin> seen w")
      case True
      have le: "x \<le> highestID w" using False by simp
      have win: "unat (highestID w - x) < unat (windowSize w)"
        using True by (simp add: word_less_nat_alt)
      have "seen w' = insert x (seen w)"
        using mark_seen [of ?r x "snd clock"] assms(1) le win eq True False by simp
      moreover have "unat (highestID w) - unat x < unat (windowSize w)"
        using win le by (simp add: unat_diff_le)
      ultimately show ?thesis using eq True False le in_window by (auto simp: max_absorb1)
    next
      case rej: False
      with False show ?thesis using eq by (simp add: rej)
    qed
  qed
qed

theorem replay_window_refines_set_witness:
  "seen (snd (Accept (0, 1) (initializeLocked 1 5 0 (newReplayWindow 64 0)) 3)) = {3, 5}"
proof -
  let ?w = "initializeLocked 1 5 0 (newReplayWindow 64 0)"
  have w: "rw_wf ?w" "initialized ?w" "windowSize ?w = 64" "seen ?w = {5}" "highestID ?w = 5"
    by (simp, simp, simp add: newReplayWindow_def,
        rule initializeLocked_seen, simp, simp add: newReplayWindow_def, simp)
  have m: "minimumID (reapLocked 0 ?w) = 0"
    by (simp add: reapLocked_def initializeLocked_def newReplayWindow_def Let_def)
  obtain ok w' where a: "Accept (0, 1) ?w 3 = (ok, w')" by fastforce
  show ?thesis
    using replay_window_refines_set [OF w(1,2) _ _ a] w m by (auto simp: a max_def)
qed

end
