(* ===== verification/Stream_Conn.thy ===== *)
theory Stream_Conn
  imports Prelude "HOL-Library.Sublist"
begin

text \<open>
  The packet connections of proto/connection.go. A stream connection cuts length-prefixed
  packets out of a byte stream that arrives in arbitrary pieces and writes batches of frames;
  a datagram connection passes packets through. The socket (\<open>net.Conn\<close>) and the batch writer
  are outside the program: a state \<open>'k\<close> and the functions that read, write and close are
  arguments. The size of a fresh read buffer, a constant of the buffer library, is the
  argument \<open>streamPacketReadBufferSize\<close>.
\<close>

section \<open>Reading from a stream\<close>

definition packetConnectionBatchSize :: nat where "packetConnectionBatchSize = 64"
definition streamPacketLengthSize :: nat where "streamPacketLengthSize = 2"
definition streamPacketMaxEmptyReads :: nat where "streamPacketMaxEmptyReads = 100"

lemmas stream_consts = packetConnectionBatchSize_def streamPacketLengthSize_def
  streamPacketMaxEmptyReads_def

text \<open>
  \<open>Read(p)\<close> on the socket gets the length of \<open>p\<close> and returns the bytes it stored at the
  front of \<open>p\<close> together with an error, possibly both.
\<close>

type_synonym 'k reader = "'k \<Rightarrow> nat \<Rightarrow> (bytes \<times> error option) \<times> 'k"

record streamPacketConnection =
  vectorisedWrites :: bool
  readBuffer :: bytes
  readStart :: nat
  readEnd :: nat
  readErr :: "error option"

definition NewStreamPacketConnection :: "bool \<Rightarrow> streamPacketConnection" where
  "NewStreamPacketConnection syscallConn =
     \<lparr>vectorisedWrites = syscallConn, readBuffer = [], readStart = 0, readEnd = 0, readErr = None\<rparr>"

definition bufferedPacketLocked ::
  "streamPacketConnection \<Rightarrow> bytes option result \<times> streamPacketConnection" where
  "bufferedPacketLocked c =
     (if readEnd c - readStart c < streamPacketLengthSize then (Inr None, c)
      else
        let packetLength = unat (get_u16 (drop (readStart c) (readBuffer c))) in
        if packetLength = 0 then (Inl (Sentinel ErrBadEncapsulatedPacketLength), c)
        else
          let packetEnd = readStart c + streamPacketLengthSize + packetLength in
          if readEnd c < packetEnd then (Inr None, c)
          else
            let bufferedPacket = take packetLength (drop (readStart c + streamPacketLengthSize) (readBuffer c))
            in (Inr (Some bufferedPacket),
                if packetEnd = readEnd c then c\<lparr>readStart := 0, readEnd := 0\<rparr>
                else c\<lparr>readStart := packetEnd\<rparr>))"

text \<open>The front of fillLocked: pending bytes move to the start of a buffer that can take the whole frame.\<close>

definition make_room :: "nat \<Rightarrow> streamPacketConnection \<Rightarrow> streamPacketConnection" where
  "make_room streamPacketReadBufferSize c =
     (let pendingLength = readEnd c - readStart c;
          requiredCapacity =
            (if streamPacketLengthSize \<le> pendingLength
             then max streamPacketReadBufferSize
                    (streamPacketLengthSize + unat (get_u16 (drop (readStart c) (readBuffer c))))
             else streamPacketReadBufferSize);
          pendingBytes = take pendingLength (drop (readStart c) (readBuffer c))
      in if length (readBuffer c) < requiredCapacity
         then c\<lparr>readBuffer := pendingBytes @ replicate (requiredCapacity - pendingLength) 0,
                readStart := 0, readEnd := pendingLength\<rparr>
         else if 0 < readStart c
         then c\<lparr>readBuffer := pendingBytes @ drop pendingLength (readBuffer c),
                readStart := 0, readEnd := pendingLength\<rparr>
         else c)"

definition fillLocked ::
  "'k reader \<Rightarrow> nat \<Rightarrow> streamPacketConnection \<Rightarrow> 'k \<Rightarrow> nat \<times> streamPacketConnection \<times> 'k" where
  "fillLocked conn_Read streamPacketReadBufferSize c k =
     (let c = make_room streamPacketReadBufferSize c
      in case conn_Read k (length (readBuffer c) - readEnd c) of
           ((readBytes, err), k') \<Rightarrow>
             (length readBytes,
              c\<lparr>readBuffer := take (readEnd c) (readBuffer c) @ readBytes @
                              drop (readEnd c + length readBytes) (readBuffer c),
                readEnd := readEnd c + length readBytes,
                readErr := err\<rparr>,
              k'))"

text \<open>The pointers after a fill, whatever the socket returned.\<close>

lemma make_room_pointers [simp]:
  "readStart (make_room cap c) = 0" "readEnd (make_room cap c) = readEnd c - readStart c"
  by (simp_all add: make_room_def Let_def)

lemma fillLocked_pointers:
  assumes "fillLocked rd cap c k = (n, c', k')"
  shows "readStart c' = 0 \<and> readEnd c' = readEnd c - readStart c + n"
  using assms by (auto simp: fillLocked_def Let_def split: prod.splits)

lemma bufferedPacketLocked_None:
  assumes "bufferedPacketLocked c = (Inr None, c')"
  shows "c' = c \<and> readEnd c - readStart c < 65537"
proof -
  have "c' = c" using assms by (auto simp: bufferedPacketLocked_def Let_def split: if_splits)
  have "unat (get_u16 (drop (readStart c) (readBuffer c))) < 65536"
    using unsigned_less [of "get_u16 (drop (readStart c) (readBuffer c))", where 'a = nat] by simp
  with \<open>c' = c\<close> show ?thesis
    using assms by (auto simp: bufferedPacketLocked_def Let_def stream_consts split: if_splits)
qed

function readPacketLocked ::
  "'k reader \<Rightarrow> nat \<Rightarrow> nat \<Rightarrow> streamPacketConnection \<Rightarrow> 'k \<Rightarrow> bytes result \<times> streamPacketConnection \<times> 'k" where
  "readPacketLocked conn_Read cap emptyReads c k =
     (case bufferedPacketLocked c of
        (Inl err, c) \<Rightarrow> (Inl err, c, k)
      | (Inr (Some bufferedPacket), c) \<Rightarrow> (Inr bufferedPacket, c, k)
      | (Inr None, c) \<Rightarrow>
          (case readErr c of
             Some err \<Rightarrow> (Inl err, c\<lparr>readErr := None\<rparr>, k)
           | None \<Rightarrow>
               (case fillLocked conn_Read cap c k of (readBytes, c, k) \<Rightarrow>
                  if 0 < readBytes \<or> readErr c \<noteq> None
                  then readPacketLocked conn_Read cap 0 c k
                  else if streamPacketMaxEmptyReads \<le> emptyReads + 1
                  then (Inl (Sentinel ErrNoProgress), c, k)
                  else readPacketLocked conn_Read cap (emptyReads + 1) c k)))"
  by pat_completeness auto

text \<open>
  The loop ends: a read that brings bytes shortens what is missing of the current
  frame, an error ends the next round, and empty reads are counted.
\<close>

termination
proof (relation "measures [\<lambda>(rd, cap, e, c, k). 65537 - (readEnd c - readStart c),
                           \<lambda>(rd, cap, e, c, k). if readErr c = None then 1 else 0,
                           \<lambda>(rd, cap, e, c, k). 100 - e]", goal_cases)
  case 2
  then show ?case
    by (auto dest!: bufferedPacketLocked_None [OF sym] fillLocked_pointers [OF sym] simp: stream_consts)
       linarith
next
  case 3
  then show ?case
    by (auto dest!: bufferedPacketLocked_None [OF sym] fillLocked_pointers [OF sym] simp: stream_consts)
qed simp

declare readPacketLocked.simps [simp del]

definition stream_ReadPacket ::
  "'k reader \<Rightarrow> nat \<Rightarrow> streamPacketConnection \<Rightarrow> 'k \<Rightarrow> bytes result \<times> streamPacketConnection \<times> 'k" where
  "stream_ReadPacket conn_Read cap c k = readPacketLocked conn_Read cap 0 c k"

text \<open>The rest of a batch, from the bytes already buffered.\<close>

fun batch_loop ::
  "nat \<Rightarrow> streamPacketConnection \<Rightarrow> bytes list \<times> error option \<times> streamPacketConnection" where
  "batch_loop 0 c = ([], None, c)"
| "batch_loop (Suc n) c =
     (case bufferedPacketLocked c of
        (Inl err, c) \<Rightarrow> ([], Some err, c)
      | (Inr None, c) \<Rightarrow> ([], None, c)
      | (Inr (Some bufferedPacket), c) \<Rightarrow>
          (case batch_loop n c of (packets, err, c) \<Rightarrow> (bufferedPacket # packets, err, c)))"

definition stream_ReadPackets ::
  "'k reader \<Rightarrow> nat \<Rightarrow> streamPacketConnection \<Rightarrow> 'k \<Rightarrow>
     (bytes list \<times> error option) \<times> streamPacketConnection \<times> 'k" where
  "stream_ReadPackets conn_Read cap c k =
     (case readPacketLocked conn_Read cap 0 c k of
        (Inl err, c, k) \<Rightarrow> (([], Some err), c, k)
      | (Inr bufferedPacket, c, k) \<Rightarrow>
          (case batch_loop (packetConnectionBatchSize - 1) c of
             (packets, err, c) \<Rightarrow> ((bufferedPacket # packets, err), c, k)))"

section \<open>What the buffer holds\<close>

definition stream_wf :: "streamPacketConnection \<Rightarrow> bool" where
  "stream_wf c = (readStart c \<le> readEnd c \<and> readEnd c \<le> length (readBuffer c))"

definition pending :: "streamPacketConnection \<Rightarrow> bytes" where
  "pending c = take (readEnd c - readStart c) (drop (readStart c) (readBuffer c))"

text \<open>The framing, as a function of the bytes received and not yet handed up.\<close>

definition next_frame :: "bytes \<Rightarrow> (bytes \<times> bytes) option result" where
  "next_frame bs =
     (if length bs < 2 then Inr None
      else if get_u16 bs = 0 then Inl (Sentinel ErrBadEncapsulatedPacketLength)
      else let n = unat (get_u16 bs)
           in Inr (if length bs < 2 + n then None else Some (take n (drop 2 bs), drop (2 + n) bs)))"

definition frame_packet :: "bytes \<Rightarrow> bytes" where
  "frame_packet p = put_u16 (of_nat (length p)) @ p"

definition framable :: "bytes \<Rightarrow> bool" where
  "framable p = (p \<noteq> [] \<and> length p \<le> 65535)"

lemma length_pending [simp]: "stream_wf c \<Longrightarrow> length (pending c) = readEnd c - readStart c"
  by (auto simp: stream_wf_def pending_def)

lemma get_u16_take: "2 \<le> n \<Longrightarrow> get_u16 (take n bs) = get_u16 bs"
  by (cases bs rule: get_u16.cases) (auto simp: take_Cons numeral_2_eq_2 split: nat.splits)

lemma u16_length [simp]: "length p \<le> 65535 \<Longrightarrow> unat (of_nat (length p) :: u16) = length p"
  by (simp add: unat_of_nat)

lemma next_frame_frame [simp]:
  assumes "framable p"
  shows "next_frame (frame_packet p @ r) = Inr (Some (p, r))"
proof -
  have "(of_nat (length p) :: u16) \<noteq> 0"
    using assms u16_length [of p] by (auto simp: framable_def simp flip: unat_0_iff)
  then show ?thesis
    using assms by (simp add: next_frame_def frame_packet_def framable_def)
qed

lemma next_frame_SomeD:
  assumes "next_frame bs = Inr (Some (p, r))"
  shows "bs = frame_packet p @ r \<and> framable p"
proof -
  let ?n = "unat (get_u16 bs)"
  have len: "2 + ?n \<le> length bs" and nz: "get_u16 bs \<noteq> 0"
      and p: "p = take ?n (drop 2 bs)" and r: "r = drop (2 + ?n) bs"
    using assms by (auto simp: next_frame_def Let_def split: if_splits)
  have lp: "length p = ?n" using len p by simp
  have "?n < 65536" using unsigned_less [of "get_u16 bs", where 'a = nat] by simp
  then have f: "framable p" using nz lp by (auto simp: framable_def unat_0_iff)
  have "get_u16 (take 2 bs) = get_u16 bs" by (simp add: get_u16_take)
  then have "put_u16 (of_nat (length p)) = take 2 bs"
    using u16_field.enc_dec [of "take 2 bs"] len by (simp add: lp)
  moreover have "bs = take 2 bs @ take ?n (drop 2 bs) @ drop ?n (drop 2 bs)"
    by (simp only: append_take_drop_id)
  ultimately show ?thesis
    using f by (simp add: frame_packet_def p r add.commute)
qed

text \<open>bufferedPacketLocked computes the framing on the pending bytes.\<close>

lemma bufferedPacketLocked_refines:
  assumes wf: "stream_wf c" and b: "bufferedPacketLocked c = (res, c')"
  shows "stream_wf c' \<and> readErr c' = readErr c \<and>
         (case res of
            Inl e \<Rightarrow> next_frame (pending c) = Inl e \<and> c' = c
          | Inr None \<Rightarrow> next_frame (pending c) = Inr None \<and> c' = c
          | Inr (Some p) \<Rightarrow> next_frame (pending c) = Inr (Some (p, pending c')))"
proof (cases "readEnd c - readStart c < 2")
  case True
  then show ?thesis
    using wf b by (auto simp: bufferedPacketLocked_def next_frame_def stream_consts)
next
  case False
  then have g: "get_u16 (pending c) = get_u16 (drop (readStart c) (readBuffer c))"
    by (simp add: pending_def get_u16_take)
  let ?n = "unat (get_u16 (pending c))"
  have len: "length (pending c) = readEnd c - readStart c" using wf by simp
  consider (zero) "?n = 0" | (short) "?n \<noteq> 0" "readEnd c - readStart c < 2 + ?n"
    | (full) "?n \<noteq> 0" "2 + ?n \<le> readEnd c - readStart c" by linarith
  then show ?thesis
  proof cases
    case zero
    then show ?thesis
      using False wf b len
      by (auto simp: bufferedPacketLocked_def next_frame_def stream_consts word_unat_eq_iff simp flip: g)
  next
    case short
    then have "readEnd c < readStart c + 2 + ?n" by linarith
    then show ?thesis
      using False wf b len short
      by (auto simp: bufferedPacketLocked_def next_frame_def stream_consts simp flip: g)
  next
    case full
    then have ge: "\<not> readEnd c < readStart c + 2 + ?n" using wf unfolding stream_wf_def by linarith
    have c': "c' = (if readStart c + 2 + ?n = readEnd c then c\<lparr>readStart := 0, readEnd := 0\<rparr>
                    else c\<lparr>readStart := readStart c + 2 + ?n\<rparr>)"
      and res: "res = Inr (Some (take ?n (drop (readStart c + 2) (readBuffer c))))"
      using b False full ge by (auto simp: bufferedPacketLocked_def stream_consts Let_def simp flip: g)
    have nf: "next_frame (pending c) = Inr (Some (take ?n (drop 2 (pending c)), drop (2 + ?n) (pending c)))"
      using full len by (auto simp: next_frame_def Let_def)
    have "take ?n (drop 2 (pending c)) = take ?n (drop (readStart c + 2) (readBuffer c))"
      using full by (simp add: pending_def drop_take add.commute)
    moreover have "drop (2 + ?n) (pending c) = pending c'"
      using ge by (simp add: c' pending_def drop_take add.commute add.left_commute diff_diff_eq)
    moreover have "stream_wf c'" "readErr c' = readErr c"
      using wf ge by (simp_all add: c' stream_wf_def)
    ultimately show ?thesis using nf by (simp add: res)
  qed
qed

section \<open>Reading keeps every byte\<close>

text \<open>
  The documented contract of \<open>Read\<close>: it stores at most as many bytes as the slice has.
  \<open>logged\<close> records what a socket delivered, so that theorems can speak about it.
\<close>

definition reader_ok :: "'k reader \<Rightarrow> bool" where
  "reader_ok rd = (\<forall>k n. length (fst (fst (rd k n))) \<le> n)"

definition logged :: "'k reader \<Rightarrow> ('k \<times> bytes) reader" where
  "logged rd kl n = (case kl of (k, log) \<Rightarrow> case rd k n of (res, k') \<Rightarrow> (res, (k', log @ fst res)))"

lemma make_room_pending:
  assumes "stream_wf c"
  shows "stream_wf (make_room cap c) \<and>
         take (readEnd c - readStart c) (readBuffer (make_room cap c)) = pending c"
proof -
  let ?pl = "readEnd c - readStart c"
  have "length (pending c) = ?pl" "?pl \<le> length (readBuffer c)" "readStart c = 0 \<Longrightarrow> pending c = take ?pl (readBuffer c)"
    using assms by (auto simp: stream_wf_def pending_def)
  then show ?thesis
    using assms unfolding make_room_def Let_def pending_def [symmetric] stream_wf_def by auto
qed

lemma fillLocked_pending:
  assumes wf: "stream_wf c" and rd: "reader_ok rd"
      and f: "fillLocked (logged rd) cap c (k, log) = (n, c', (k', log'))"
  shows "\<exists>d. log' = log @ d \<and> stream_wf c' \<and> pending c' = pending c @ d"
proof -
  let ?pl = "readEnd c - readStart c" and ?c1 = "make_room cap c"
  have pl: "length (pending c) = ?pl" using wf by simp
  have c1: "?pl \<le> length (readBuffer ?c1)" "take ?pl (readBuffer ?c1) = pending c"
    using make_room_pending [OF wf, of cap] by (auto simp: stream_wf_def)
  obtain d e k2 where r: "rd k (length (readBuffer ?c1) - ?pl) = ((d, e), k2)"
    by (metis surj_pair)
  have "length (fst (fst (rd k (length (readBuffer ?c1) - ?pl)))) \<le> length (readBuffer ?c1) - ?pl"
    using rd by (simp add: reader_ok_def)
  then have d: "?pl + length d \<le> length (readBuffer ?c1)" using r c1(1) by simp
  have c': "c' = ?c1\<lparr>readBuffer := take ?pl (readBuffer ?c1) @ d @ drop (?pl + length d) (readBuffer ?c1),
                readEnd := ?pl + length d, readErr := e\<rparr>" and log: "log' = log @ d"
    using f r by (auto simp: fillLocked_def Let_def logged_def)
  have "pending c' = pending c @ d"
    using c1 pl unfolding pending_def [of c'] by (simp add: c')
  moreover have "stream_wf c'" using c1 d pl by (simp add: c' stream_wf_def)
  ultimately show ?thesis using log by blast
qed

lemma readPacketLocked_pending:
  assumes "reader_ok rd"
  shows "readPacketLocked (logged rd) cap e c (k, log) = (res, c', (k', log')) \<Longrightarrow> stream_wf c \<Longrightarrow>
   \<exists>d. log' = log @ d \<and> stream_wf c' \<and>
       pending c @ d = (case res of Inl _ \<Rightarrow> [] | Inr p \<Rightarrow> frame_packet p) @ pending c' \<and>
       (\<forall>p. res = Inr p \<longrightarrow> framable p)"
proof (induction "logged rd" cap e c "(k, log)" arbitrary: k log rule: readPacketLocked.induct)
  case (1 cap e c k log)
  obtain b c1 where b: "bufferedPacketLocked c = (b, c1)" by fastforce
  note ref = bufferedPacketLocked_refines [OF "1.prems"(2) b]
  note run = "1.prems"(1) [unfolded readPacketLocked.simps [of _ _ _ c] b prod.case]
  consider (err) x where "b = Inl x" | (pkt) p where "b = Inr (Some p)"
    | (stop) x where "b = Inr None" "readErr c1 = Some x" | (fill) "b = Inr None" "readErr c1 = None"
    by (metis option.exhaust sum.exhaust)
  then show ?case
  proof cases
    case err
    then show ?thesis using run ref "1.prems"(2) by auto
  next
    case pkt
    then show ?thesis using run ref by (auto dest: next_frame_SomeD)
  next
    case stop
    then show ?thesis using run ref "1.prems"(2) by (auto simp: stream_wf_def pending_def)
  next
    case fill
    then have c1: "c1 = c" using ref by simp
    obtain n c2 k2 log2 where f: "fillLocked (logged rd) cap c (k, log) = (n, c2, (k2, log2))"
      by (metis surj_pair)
    obtain d where d: "log2 = log @ d" "stream_wf c2" "pending c2 = pending c @ d"
      using fillLocked_pending [OF "1.prems"(2) assms f] by blast
    have f1: "(n, c2, (k2, log2)) = fillLocked (logged rd) cap c1 (k, log)" using f c1 by simp
    note ih = "1.hyps" [OF b [symmetric] fill(1) refl fill(2) f1 refl]
    show ?thesis
    proof (cases "n = 0 \<and> readErr c2 = None \<and> streamPacketMaxEmptyReads \<le> e + 1")
      case True
      then show ?thesis using run fill c1 f d by auto
    next
      case False
      then have "readPacketLocked (logged rd) cap (if 0 < n \<or> readErr c2 \<noteq> None then 0 else e + 1) c2
                   (k2, log2) = (res, c', (k', log'))"
        using run fill c1 f by (auto split: if_splits)
      then obtain d' where "log' = log2 @ d' \<and> stream_wf c' \<and>
          pending c2 @ d' = (case res of Inl _ \<Rightarrow> [] | Inr p \<Rightarrow> frame_packet p) @ pending c' \<and>
          (\<forall>p. res = Inr p \<longrightarrow> framable p)"
        using ih False d(2) by (cases "0 < n \<or> readErr c2 \<noteq> None") auto
      then show ?thesis using d by auto
    qed
  qed
qed

lemma batch_loop_pending:
  "batch_loop n c = (ps, err, c') \<Longrightarrow> stream_wf c \<Longrightarrow>
   stream_wf c' \<and> pending c = concat (map frame_packet ps) @ pending c' \<and> (\<forall>p \<in> set ps. framable p)"
proof (induction n arbitrary: c ps)
  case (Suc n)
  obtain b c1 where b: "bufferedPacketLocked c = (b, c1)" by fastforce
  note ref = bufferedPacketLocked_refines [OF Suc.prems(2) b]
  show ?case
  proof (cases "\<exists>p. b = Inr (Some p)")
    case True
    then obtain p qs where p: "b = Inr (Some p)" and qs: "batch_loop n c1 = (qs, err, c')" "ps = p # qs"
      using Suc.prems(1) b by (auto split: prod.splits)
    then show ?thesis
      using Suc.IH [OF qs(1)] ref by (auto dest: next_frame_SomeD)
  next
    case False
    then show ?thesis
      using Suc.prems b ref by (auto split: sum.splits option.splits)
  qed
qed simp

text \<open>Any mixture of ReadPacket and ReadPackets calls; failed calls hand up nothing more.\<close>

datatype read_call = One | Batch

fun read_run ::
  "'k reader \<Rightarrow> nat \<Rightarrow> read_call list \<Rightarrow> streamPacketConnection \<Rightarrow> 'k \<Rightarrow>
     bytes list \<times> streamPacketConnection \<times> 'k" where
  "read_run rd cap [] c k = ([], c, k)"
| "read_run rd cap (One # calls) c k =
     (case stream_ReadPacket rd cap c k of (res, c, k) \<Rightarrow>
      case read_run rd cap calls c k of (ps, c, k) \<Rightarrow>
        ((case res of Inl _ \<Rightarrow> ps | Inr p \<Rightarrow> p # ps), c, k))"
| "read_run rd cap (Batch # calls) c k =
     (case stream_ReadPackets rd cap c k of ((batch, _), c, k) \<Rightarrow>
      case read_run rd cap calls c k of (ps, c, k) \<Rightarrow> (batch @ ps, c, k))"

lemma ReadPacket_pending:
  assumes "reader_ok rd" "stream_wf c"
      and "stream_ReadPacket (logged rd) cap c (k, log) = (res, c', (k', log'))"
  shows "\<exists>d. log' = log @ d \<and> stream_wf c' \<and>
       pending c @ d = (case res of Inl _ \<Rightarrow> [] | Inr p \<Rightarrow> frame_packet p) @ pending c' \<and>
       (\<forall>p. res = Inr p \<longrightarrow> framable p)"
  by (rule readPacketLocked_pending [OF assms(1) assms(3) [unfolded stream_ReadPacket_def] assms(2)])

lemma ReadPackets_pending:
  assumes "reader_ok rd" "stream_wf c"
      and r: "stream_ReadPackets (logged rd) cap c (k, log) = ((ps, err), c', (k', log'))"
  shows "\<exists>d. log' = log @ d \<and> stream_wf c' \<and>
       pending c @ d = concat (map frame_packet ps) @ pending c' \<and> (\<forall>p \<in> set ps. framable p)"
proof -
  obtain res c1 k1 log1 where p: "readPacketLocked (logged rd) cap 0 c (k, log) = (res, c1, (k1, log1))"
    by (metis surj_pair)
  obtain d where d: "log1 = log @ d" "stream_wf c1"
      "pending c @ d = (case res of Inl _ \<Rightarrow> [] | Inr p \<Rightarrow> frame_packet p) @ pending c1"
      "\<forall>p. res = Inr p \<longrightarrow> framable p"
    using readPacketLocked_pending [OF assms(1) p assms(2)] by blast
  obtain qs e c2 where q: "batch_loop (packetConnectionBatchSize - 1) c1 = (qs, e, c2)"
    by (metis surj_pair)
  show ?thesis
    using r p d q batch_loop_pending [OF q d(2)]
    by (auto simp: stream_ReadPackets_def split: sum.splits)
qed

lemma read_run_pending:
  assumes rd: "reader_ok rd"
  shows "stream_wf c \<Longrightarrow> read_run (logged rd) cap calls c (k, log) = (ps, c', (k', log')) \<Longrightarrow>
   \<exists>d. log' = log @ d \<and> stream_wf c' \<and>
       pending c @ d = concat (map frame_packet ps) @ pending c' \<and> (\<forall>p \<in> set ps. framable p)"
proof (induction calls arbitrary: c k log ps)
  case (Cons call calls)
  show ?case
  proof (cases call)
    case One
    obtain res c1 k1 log1 where r: "stream_ReadPacket (logged rd) cap c (k, log) = (res, c1, (k1, log1))"
      by (metis surj_pair)
    obtain qs where q: "read_run (logged rd) cap calls c1 (k1, log1) = (qs, c', (k', log'))"
        "ps = (case res of Inl _ \<Rightarrow> qs | Inr p \<Rightarrow> p # qs)"
      using Cons.prems(2) One r by (auto split: prod.splits)
    obtain d where d: "log1 = log @ d" "stream_wf c1" "\<forall>p. res = Inr p \<longrightarrow> framable p"
        "pending c @ d = (case res of Inl _ \<Rightarrow> [] | Inr p \<Rightarrow> frame_packet p) @ pending c1"
      using ReadPacket_pending [OF rd Cons.prems(1) r] by blast
    obtain d' where d': "log' = log1 @ d'" "stream_wf c'" "\<forall>p \<in> set qs. framable p"
        "pending c1 @ d' = concat (map frame_packet qs) @ pending c'"
      using Cons.IH [OF d(2) q(1)] by blast
    have "pending c @ d @ d' = (case res of Inl _ \<Rightarrow> [] | Inr p \<Rightarrow> frame_packet p) @ pending c1 @ d'"
      using d(4) by (simp only: append_assoc [symmetric])
    then show ?thesis using d(1,3) d' q(2) by (cases res) auto
  next
    case Batch
    obtain bs e c1 k1 log1 where r: "stream_ReadPackets (logged rd) cap c (k, log) = ((bs, e), c1, (k1, log1))"
      by (metis surj_pair)
    obtain qs where q: "read_run (logged rd) cap calls c1 (k1, log1) = (qs, c', (k', log'))" "ps = bs @ qs"
      using Cons.prems(2) Batch r by (auto split: prod.splits)
    obtain d where d: "log1 = log @ d" "stream_wf c1" "\<forall>p \<in> set bs. framable p"
        "pending c @ d = concat (map frame_packet bs) @ pending c1"
      using ReadPackets_pending [OF rd Cons.prems(1) r] by blast
    obtain d' where d': "log' = log1 @ d'" "stream_wf c'" "\<forall>p \<in> set qs. framable p"
        "pending c1 @ d' = concat (map frame_packet qs) @ pending c'"
      using Cons.IH [OF d(2) q(1)] by blast
    have "pending c @ d @ d' = concat (map frame_packet bs) @ pending c1 @ d'"
      using d(4) by (simp only: append_assoc [symmetric])
    then show ?thesis using d(1,3) d' q(2) by auto
  qed
qed simp

text \<open>The framing is uniquely decodable.\<close>

lemma frames_prefix:
  assumes "\<forall>p \<in> set ps. framable p" "\<forall>q \<in> set qs. framable q"
      and "prefix (concat (map frame_packet ps)) (concat (map frame_packet qs))"
  shows "prefix ps qs"
  using assms
proof (induction ps arbitrary: qs)
  case (Cons p ps)
  obtain z where z: "concat (map frame_packet qs) = frame_packet p @ concat (map frame_packet ps) @ z"
    using Cons.prems(3) by (auto simp: prefix_def)
  then obtain q qs' where q: "qs = q # qs'"
    by (cases qs) (auto simp: frame_packet_def put_u16_def)
  have "next_frame (frame_packet q @ concat (map frame_packet qs')) =
        next_frame (frame_packet p @ concat (map frame_packet ps) @ z)"
    using z q by simp
  then have "q = p \<and> concat (map frame_packet qs') = concat (map frame_packet ps) @ z"
    using Cons.prems q by simp
  then show ?case using Cons.IH [of qs'] Cons.prems q by simp
qed simp

lemma ReadPacket_buffered:
  assumes wf: "stream_wf c" and q: "framable q" "prefix (frame_packet q) (pending c)"
  shows "fst (stream_ReadPacket rd cap c k) = Inr q"
proof -
  obtain z where z: "pending c = frame_packet q @ z" using q(2) by (auto simp: prefix_def)
  obtain b c1 where b: "bufferedPacketLocked c = (b, c1)" by fastforce
  have "b = Inr (Some q)"
    using bufferedPacketLocked_refines [OF wf b] q(1)
    by (auto simp: z split: sum.splits option.splits)
  then show ?thesis
    by (simp add: stream_ReadPacket_def readPacketLocked.simps [of _ _ _ c] b)
qed

lemma NewStreamPacketConnection_wf [simp]:
  "stream_wf (NewStreamPacketConnection v)" "pending (NewStreamPacketConnection v) = []"
  by (simp_all add: stream_wf_def NewStreamPacketConnection_def pending_def)

text \<open>
  C14. Reading does not depend on how the stream is cut: whatever pieces the socket delivers,
  with whatever errors between them, the packets handed up by any mixture of single and batch
  reads are a prefix of the packets whose frames make up the stream, and a packet whose frame
  has been delivered completely is handed up by the next read, whatever the socket does.
\<close>

theorem stream_reads_prefix:
  assumes "reader_ok rd"
      and "read_run (logged rd) cap calls (NewStreamPacketConnection v) (k, []) = (got, c, (k', log))"
      and "\<forall>p \<in> set sent. framable p"
      and "prefix log (concat (map frame_packet sent))"
  shows "prefix got sent \<and>
         (\<forall>q rest rd' (k'' :: 'b). sent = got @ q # rest \<and> prefix (concat (map frame_packet (got @ [q]))) log \<longrightarrow>
            fst (stream_ReadPacket rd' cap c k'') = Inr q)"
proof -
  have run: "log = concat (map frame_packet got) @ pending c" "stream_wf c" "\<forall>p \<in> set got. framable p"
    using read_run_pending [OF assms(1) _ assms(2)] by auto
  then have "prefix (concat (map frame_packet got)) (concat (map frame_packet sent))"
    using assms(4) by (metis append_prefixD)
  then have "prefix got sent" using frames_prefix run(3) assms(3) by blast
  moreover have "fst (stream_ReadPacket rd' cap c k'') = Inr q"
    if "sent = got @ q # rest" "prefix (concat (map frame_packet (got @ [q]))) log"
    for q rest rd' and k'' :: 'b
    using that assms(3) run by (intro ReadPacket_buffered) (auto simp: prefix_def)
  ultimately show ?thesis by blast
qed

text \<open>A socket that delivers the given pieces and then the end of the stream.\<close>

fun piece_Read :: "bytes list reader" where
  "piece_Read [] n = (([], Some (Sentinel ErrEOF)), [])"
| "piece_Read (b # bs) n = ((take n b, None), if length b \<le> n then bs else drop n b # bs)"

lemma piece_Read_ok: "reader_ok piece_Read"
proof -
  have "length (fst (fst (piece_Read k n))) \<le> n" for k n by (cases k) auto
  then show ?thesis by (simp add: reader_ok_def)
qed

theorem stream_reads_prefix_witness:
  "prefix (fst (read_run (logged piece_Read) 16 [One, Batch] (NewStreamPacketConnection False)
                  ([[0, 2, 1], [2, 0], [1, 3]], []))) [[1, 2], [3]]"
proof -
  let ?run = "read_run (logged piece_Read) 16 [One, Batch] (NewStreamPacketConnection False)
                ([[0, 2, 1], [2, 0], [1, 3]], [])"
  have "snd (snd (snd ?run)) = [0, 2, 1, 2, 0, 1, 3]" by code_simp
  moreover obtain got c k' log where r: "?run = (got, c, (k', log))" by (metis surj_pair)
  ultimately have log: "log = [0, 2, 1, 2, 0, 1, 3]" by simp
  have sent: "\<forall>p \<in> set [[1, 2], [3]]. framable p"
    and stream: "prefix log (concat (map frame_packet [[1, 2], [3]]))"
    by (simp_all add: log framable_def frame_packet_def put_u16_def)
  have "prefix got [[1, 2], [3]]"
    using stream_reads_prefix [OF piece_Read_ok r sent stream] by blast
  then show ?thesis by (simp only: r fst_conv)
qed

section \<open>Writing to a stream\<close>

text \<open>
  \<open>net.Buffers.WriteTo\<close> hands a list of slices to the socket and returns how many of
  their bytes were written; \<open>Close\<close> may return an error. A returned error is a list, empty for
  nil, since \<open>E.Errors\<close> joins the errors of the write and of the close.
\<close>

type_synonym 'k vec_writer = "'k \<Rightarrow> bytes list \<Rightarrow> (nat \<times> error option) \<times> 'k"
type_synonym 'k closer = "'k \<Rightarrow> error option \<times> 'k"

definition maxUint16 :: nat where "maxUint16 = 65535"

text \<open>The first packet that is too large ends the batch.\<close>

fun validate_packets :: "nat \<Rightarrow> bytes list \<Rightarrow> nat \<times> error list" where
  "validate_packets i [] = (i, [])"
| "validate_packets i (packet # packets) =
     (if maxUint16 < length packet then (i, [Sentinel ErrPacketTooLarge])
      else validate_packets (Suc i) packets)"

text \<open>The framing loop: frames, their lengths, and the index of the packet of each.\<close>

fun frame_loop :: "nat \<Rightarrow> bytes list \<Rightarrow> bytes list \<times> nat list \<times> nat list" where
  "frame_loop i [] = ([], [], [])"
| "frame_loop i (packet # packets) =
     (if packet = [] then frame_loop (Suc i) packets
      else case frame_loop (Suc i) packets of (frames, frameLengths, framePacketIndexes) \<Rightarrow>
        ((put_u16 (of_nat (length packet)) @ packet) # frames,
         (streamPacketLengthSize + length packet) # frameLengths,
         i # framePacketIndexes))"

fun written_frames :: "nat \<Rightarrow> nat \<Rightarrow> nat \<Rightarrow> nat list \<Rightarrow> nat \<times> nat" where
  "written_frames writtenBytes writtenFrames framedBytes [] = (writtenFrames, framedBytes)"
| "written_frames writtenBytes writtenFrames framedBytes (frameLength # frameLengths) =
     (if writtenBytes < framedBytes + frameLength then (writtenFrames, framedBytes)
      else written_frames writtenBytes (Suc writtenFrames) (framedBytes + frameLength) frameLengths)"

definition writeFramesLocked ::
  "'k vec_writer \<Rightarrow> 'k closer \<Rightarrow> streamPacketConnection \<Rightarrow> bytes list \<Rightarrow> nat list \<Rightarrow> nat list \<Rightarrow> nat \<Rightarrow> 'k \<Rightarrow>
     (nat \<times> error list) \<times> 'k" where
  "writeFramesLocked WriteTo Close c frames frameLengths framePacketIndexes packetCount k =
     (let totalLength = sum_list frameLengths;
          frames = (if \<not> vectorisedWrites c \<and> 1 < length frames then [concat frames] else frames)
      in case WriteTo k frames of ((writtenBytes, err), k) \<Rightarrow>
         case (if err = None \<and> writtenBytes < totalLength then Some (Sentinel ErrShortWrite) else err) of
           None \<Rightarrow> ((packetCount, []), k)
         | Some writeErr \<Rightarrow>
             (case written_frames writtenBytes 0 0 frameLengths of (writtenFrames, framedBytes) \<Rightarrow>
              case (if framedBytes < writtenBytes
                    then (case Close k of (closeErr, k) \<Rightarrow>
                            (writeErr # (case closeErr of None \<Rightarrow> [] | Some e \<Rightarrow> [e]), k))
                    else ([writeErr], k)) of (errs, k) \<Rightarrow>
                ((if writtenFrames = length frameLengths then packetCount
                  else framePacketIndexes ! writtenFrames, errs), k)))"

definition stream_WritePackets ::
  "'k vec_writer \<Rightarrow> 'k closer \<Rightarrow> streamPacketConnection \<Rightarrow> bytes list \<Rightarrow> 'k \<Rightarrow> (nat \<times> error list) \<times> 'k" where
  "stream_WritePackets WriteTo Close c packets k =
     (case validate_packets 0 packets of (packetCount, validationErr) \<Rightarrow>
      if packetCount = 0 then ((0, validationErr), k)
      else case frame_loop 0 (take packetCount packets) of (frames, frameLengths, framePacketIndexes) \<Rightarrow>
        if frameLengths = [] then ((packetCount, validationErr), k)
        else case writeFramesLocked WriteTo Close c [concat frames] frameLengths framePacketIndexes packetCount k of
               ((writtenPackets, writeErr), k) \<Rightarrow>
                 if writeErr \<noteq> [] then ((writtenPackets, writeErr), k)
                 else ((writtenPackets, validationErr), k))"

text \<open>
  The same for pooled buffers: a buffer is its headroom and its content; when the headroom
  cannot hold the length, the content moves to a new buffer that can. Releasing buffers to the pool
  has no counterpart.
\<close>

definition extend_header :: "nat \<times> bytes \<Rightarrow> bytes" where
  "extend_header packetBuffer =
     (let packetBuffer = (if fst packetBuffer < streamPacketLengthSize
                          then (streamPacketLengthSize, snd packetBuffer) else packetBuffer)
      in put_u16 (of_nat (length (snd packetBuffer))) @ snd packetBuffer)"

fun buffer_loop :: "nat \<Rightarrow> (nat \<times> bytes) list \<Rightarrow> bytes list \<times> nat list \<times> nat list" where
  "buffer_loop i [] = ([], [], [])"
| "buffer_loop i (packetBuffer # packetBuffers) =
     (if snd packetBuffer = [] then buffer_loop (Suc i) packetBuffers
      else case buffer_loop (Suc i) packetBuffers of (frames, frameLengths, framePacketIndexes) \<Rightarrow>
        (extend_header packetBuffer # frames,
         (streamPacketLengthSize + length (snd packetBuffer)) # frameLengths,
         i # framePacketIndexes))"

definition stream_WritePacketBuffers ::
  "'k vec_writer \<Rightarrow> 'k closer \<Rightarrow> streamPacketConnection \<Rightarrow> (nat \<times> bytes) list \<Rightarrow> 'k \<Rightarrow> (nat \<times> error list) \<times> 'k" where
  "stream_WritePacketBuffers WriteTo Close c packetBuffers k =
     (case validate_packets 0 (map snd packetBuffers) of (packetCount, validationErr) \<Rightarrow>
      if packetCount = 0 then ((0, validationErr), k)
      else case buffer_loop 0 (take packetCount packetBuffers) of (frames, frameLengths, framePacketIndexes) \<Rightarrow>
        if frames = [] then ((packetCount, validationErr), k)
        else case writeFramesLocked WriteTo Close c frames frameLengths framePacketIndexes packetCount k of
               ((writtenPackets, writeErr), k) \<Rightarrow>
                 if writeErr \<noteq> [] then ((writtenPackets, writeErr), k)
                 else ((writtenPackets, validationErr), k))"

lemma buffer_loop_frames: "buffer_loop i bufs = frame_loop i (map snd bufs)"
  by (induction i bufs rule: buffer_loop.induct) (simp_all add: extend_header_def Let_def)

subsection \<open>What reaches the wire\<close>

text \<open>
  A socket writes at most the bytes it is given. \<open>wire_writer\<close> and \<open>wire_closer\<close>
  record the bytes that left and whether the link was closed.
\<close>

definition writer_ok :: "'k vec_writer \<Rightarrow> bool" where
  "writer_ok wr = (\<forall>k bufs. fst (fst (wr k bufs)) \<le> length (concat bufs))"

definition wire_writer :: "'k vec_writer \<Rightarrow> ('k \<times> bytes \<times> bool) vec_writer" where
  "wire_writer wr s bufs =
     (case s of (k, wire, closed) \<Rightarrow> case wr k bufs of ((n, err), k') \<Rightarrow>
        ((n, err), (k', wire @ take n (concat bufs), closed)))"

definition wire_closer :: "'k closer \<Rightarrow> ('k \<times> bytes \<times> bool) closer" where
  "wire_closer cl s =
     (case s of (k, wire, closed) \<Rightarrow> case cl k of (err, k') \<Rightarrow> (err, (k', wire, True)))"

definition frames_of :: "bytes list \<Rightarrow> bytes" where
  "frames_of ps = concat (map frame_packet (filter (\<lambda>p. p \<noteq> []) ps))"

definition fits :: "bytes list \<Rightarrow> bytes list" where
  "fits ps = takeWhile (\<lambda>p. length p \<le> maxUint16) ps"

lemma validate_packets_eq:
  "validate_packets i ps =
     (i + length (fits ps), if fits ps = ps then [] else [Sentinel ErrPacketTooLarge])"
  by (induction i ps rule: validate_packets.induct) (auto simp: fits_def)

lemma take_fits: "take (length (fits ps)) ps = fits ps"
  by (metis fits_def takeWhile_eq_take)

lemma fits_first_large: "fits ps \<noteq> ps \<Longrightarrow> maxUint16 < length (ps ! length (fits ps))"
  by (induction ps) (auto simp: fits_def split: if_splits)

lemma frame_loop_fields:
  "frame_loop i ps = (fs, ls, xs) \<Longrightarrow>
   fs = map frame_packet (filter (\<lambda>p. p \<noteq> []) ps) \<and> ls = map length fs \<and> length xs = length fs"
  by (induction i ps arbitrary: fs ls xs rule: frame_loop.induct)
     (auto simp: frame_packet_def stream_consts split: if_splits prod.splits)

lemma frame_loop_index:
  "frame_loop i ps = (fs, ls, xs) \<Longrightarrow> j < length xs \<Longrightarrow>
   \<exists>n < length ps. xs ! j = i + n \<and> frames_of (take n ps) = concat (take j fs) \<and>
     frames_of (take (Suc n) ps) = concat (take (Suc j) fs)"
proof (induction i ps arbitrary: fs ls xs j rule: frame_loop.induct)
  case (2 i p ps)
  show ?case
  proof (cases "p = []")
    case True
    then obtain n where "n < length ps" "xs ! j = Suc i + n" "frames_of (take n ps) = concat (take j fs)"
        "frames_of (take (Suc n) ps) = concat (take (Suc j) fs)"
      using "2.IH"(1) "2.prems" by force
    then show ?thesis using True by (intro exI [of _ "Suc n"]) (simp add: frames_of_def)
  next
    case False
    then obtain fs' ls' xs' where r: "frame_loop (Suc i) ps = (fs', ls', xs')"
      and f: "fs = frame_packet p # fs'" and x: "xs = i # xs'"
      using "2.prems"(1) by (auto simp: frame_packet_def split: prod.splits)
    show ?thesis
    proof (cases j)
      case 0
      then show ?thesis using False f x by (intro exI [of _ 0]) (simp add: frames_of_def)
    next
      case (Suc j')
      then obtain n where "n < length ps" "xs' ! j' = Suc i + n"
          "frames_of (take n ps) = concat (take j' fs')"
          "frames_of (take (Suc n) ps) = concat (take (Suc j') fs')"
        using "2.IH"(2) [OF False r] "2.prems"(2) x by auto
      then show ?thesis
        using False f x Suc by (intro exI [of _ "Suc n"]) (simp add: frames_of_def)
    qed
  qed
qed simp

lemma written_frames_spec:
  "written_frames w j0 b0 ls = (j, b) \<Longrightarrow> b0 \<le> w \<Longrightarrow>
   \<exists>m \<le> length ls. j = j0 + m \<and> b = b0 + sum_list (take m ls) \<and> b \<le> w \<and>
     (m < length ls \<longrightarrow> w < b + ls ! m)"
proof (induction w j0 b0 ls rule: written_frames.induct)
  case (2 w j0 b0 l ls)
  show ?case
  proof (cases "w < b0 + l")
    case True
    then show ?thesis using "2.prems" by (intro exI [of _ 0]) auto
  next
    case False
    then obtain m where "m \<le> length ls" "j = Suc j0 + m" "b = b0 + l + sum_list (take m ls)" "b \<le> w"
        "m < length ls \<longrightarrow> w < b + ls ! m"
      using "2.IH" "2.prems" by auto
    then show ?thesis by (intro exI [of _ "Suc m"]) auto
  qed
qed auto

lemma concat_take: "concat (take j fs) = take (sum_list (take j (map length fs))) (concat fs)"
  by (induction fs arbitrary: j) (simp_all add: take_Cons split: nat.split)

definition aligned :: "bytes list \<Rightarrow> nat \<Rightarrow> error list \<Rightarrow> bytes \<Rightarrow> bool \<Rightarrow> bool" where
  "aligned ps n errs w closed =
     (n \<le> length ps \<and> prefix (frames_of (take n ps)) w \<and>
      (n < length ps \<longrightarrow> length w < length (frames_of (take (Suc n) ps)) \<or> maxUint16 < length (ps ! n)) \<and>
      (errs = [] \<longrightarrow> n = length ps \<and> w = frames_of ps) \<and>
      (closed \<longleftrightarrow> w \<noteq> frames_of (take n ps)))"

lemma writeFrames_aligned:
  assumes wr: "writer_ok wr" and fl: "frame_loop 0 ps = (fs, ls, xs)" and fr: "concat fr = concat fs"
      and run: "writeFramesLocked (wire_writer wr) (wire_closer cl) c fr ls xs (length ps) (k, wire, False) =
                  ((n, errs), (k', wire', closed))"
  shows "\<exists>w. wire' = wire @ w \<and> aligned ps n errs w closed"
proof -
  let ?F = "concat fs"
  let ?bufs = "if \<not> vectorisedWrites c \<and> 1 < length fr then [concat fr] else fr"
  obtain m e k2 where w: "wr k ?bufs = ((m, e), k2)" by (metis surj_pair)
  have F: "concat ?bufs = ?F" using fr by simp
  have m: "m \<le> length ?F" using wr w F unfolding writer_ok_def by (metis fst_conv)
  have fs: "fs = map frame_packet (filter (\<lambda>p. p \<noteq> []) ps)" "ls = map length fs" "length xs = length ls"
    using frame_loop_fields [OF fl] by auto
  then have all: "frames_of ps = ?F" and tot: "sum_list ls = length ?F"
    by (simp_all add: frames_of_def length_concat)
  have W: "wire_writer wr (k, wire, False) ?bufs = ((m, e), (k2, wire @ take m ?F, False))"
    by (simp only: wire_writer_def prod.case w F)
  note run = run [unfolded writeFramesLocked_def Let_def W tot prod.case]
  show ?thesis
  proof (cases "e = None \<and> m = length ?F")
    case True
    then show ?thesis using run m all by (auto simp: aligned_def)
  next
    case False
    then obtain we where we: "(if e = None \<and> m < length ?F then Some (Sentinel ErrShortWrite) else e) = Some we"
      using m by (cases e) auto
    obtain j b where jb: "written_frames m 0 0 ls = (j, b)" by fastforce
    obtain je: "j \<le> length ls" "b = sum_list (take j ls)" "b \<le> m" "j < length ls \<longrightarrow> m < b + ls ! j"
      using written_frames_spec [OF jb] by auto
    have res: "n = (if j = length ls then length ps else xs ! j)" "errs \<noteq> []" "closed = (b < m)"
        "wire' = wire @ take m ?F"
      using run unfolding we jb by (auto simp: wire_closer_def split: prod.splits if_splits)
    show ?thesis
    proof (cases "j = length ls")
      case True
      then have "b = length ?F" using je(2) tot by simp
      then show ?thesis using res True je(3) m all by (auto simp: aligned_def)
    next
      case False
      then have j: "j < length xs" using je(1) fs(3) by simp
      then obtain q: "n < length ps" "frames_of (take n ps) = concat (take j fs)"
          "frames_of (take (Suc n) ps) = concat (take (Suc j) fs)"
        using frame_loop_index [OF fl j] res(1) False by auto
      have "frames_of (take n ps) = take b ?F" using q(2) concat_take je(2) fs(2) by metis
      moreover have "m < length (frames_of (take (Suc n) ps))"
        using je q j fs by (simp add: length_concat take_Suc_conv_app_nth take_map)
      moreover have "prefix (take b ?F) (take m ?F)" using je(3) by (metis min.absorb1 take_is_prefix take_take)
      moreover have "(take m ?F = take b ?F) = (m = b)" using m je(3) by (metis length_take min.absorb2 le_trans)
      ultimately show ?thesis
        using res q(1) m je(3) by (intro exI [of _ "take m ?F"]) (auto simp: aligned_def)
    qed
  qed
qed

lemma aligned_fits:
  assumes "aligned (fits ps) n errs w closed"
      and "errs' = (if errs \<noteq> [] then errs else if fits ps = ps then [] else [Sentinel ErrPacketTooLarge])"
  shows "aligned ps n errs' w closed"
proof -
  have n: "n \<le> length (fits ps)" using assms(1) by (simp add: aligned_def)
  have le: "length (fits ps) \<le> length ps" by (simp add: fits_def length_takeWhile_le)
  have t: "take j (fits ps) = take j ps" if "j \<le> length (fits ps)" for j
    using that take_fits [of ps] by (metis min.absorb1 take_take)
  consider "n < length (fits ps)" | "n = length (fits ps)" using n by linarith
  then show ?thesis
  proof cases
    case 1
    then have "fits ps ! n = ps ! n" using take_fits [of ps] by (metis nth_take)
    then show ?thesis
      using assms 1 le t [of n] t [of "Suc n"] by (auto simp: aligned_def split: if_splits)
  next
    case 2
    then have "n < length ps \<longrightarrow> maxUint16 < length (ps ! n)"
      using fits_first_large [of ps] by (metis less_irrefl)
    then show ?thesis
      using assms 2 le t [of n] by (auto simp: aligned_def split: if_splits)
  qed
qed

lemma frames_of_Nil: "frame_loop 0 ps = ([], ls, xs) \<Longrightarrow> aligned ps (length ps) [] [] False"
  using frame_loop_fields [of 0 ps] by (auto simp: aligned_def frames_of_def filter_empty_conv)

lemma write_batch_aligned:
  assumes wr: "writer_ok wr" and fl: "frame_loop 0 (fits ps) = (fs, ls, xs)" and fr: "concat fr = concat fs"
      and v: "verr = (if fits ps = ps then [] else [Sentinel ErrPacketTooLarge])"
      and run: "(if length (fits ps) = 0 then ((0, verr), (k, wire, False))
                 else if fs = [] then ((length (fits ps), verr), (k, wire, False))
                 else case writeFramesLocked (wire_writer wr) (wire_closer cl) c fr ls xs
                             (length (fits ps)) (k, wire, False) of
                        ((n, we), s) \<Rightarrow> if we \<noteq> [] then ((n, we), s) else ((n, verr), s)) =
                ((n, errs), (k', wire', closed))"
  shows "\<exists>w. wire' = wire @ w \<and> aligned ps n errs w closed"
proof (cases "fs = []")
  case True
  then have "aligned (fits ps) (length (fits ps)) [] [] False" using fl frames_of_Nil by blast
  then show ?thesis using aligned_fits [of ps _ _ _ _ errs] run True v
    by (auto split: if_splits)
next
  case False
  then have ne: "length (fits ps) \<noteq> 0" using fl by auto
  obtain m we k2 wire2 cl2 where w: "writeFramesLocked (wire_writer wr) (wire_closer cl) c fr ls xs
        (length (fits ps)) (k, wire, False) = ((m, we), (k2, wire2, cl2))"
    by (metis surj_pair)
  have eq: "n = m" "errs = (if we \<noteq> [] then we else verr)" "wire' = wire2" "closed = cl2"
    using run ne False unfolding w by (auto split: if_splits)
  obtain d where "wire2 = wire @ d" "aligned (fits ps) m we d cl2"
    using writeFrames_aligned [OF wr fl fr w] by blast
  then show ?thesis using aligned_fits [of ps m we d cl2 errs] eq v by auto
qed

text \<open>
  C15. Writing a batch keeps the peer aligned or ends the link. Whatever part of the batch the
  socket takes, the reported count \<open>n\<close> is the number of leading packets whose frames left
  completely: their frames are on the wire, the frame of packet \<open>n\<close> is not or the packet is too
  large, no error means that all of them are, and the link is closed exactly when the bytes
  stop inside a frame. Packets given as pooled buffers behave the same.
\<close>

theorem stream_write_aligned:
  assumes "writer_ok wr"
      and "stream_WritePackets (wire_writer wr) (wire_closer cl) c (map snd bufs) (k, wire, False) =
             ((n, errs), (k', wire', closed)) \<or>
           stream_WritePacketBuffers (wire_writer wr) (wire_closer cl) c bufs (k, wire, False) =
             ((n, errs), (k', wire', closed))"
  shows "\<exists>w. wire' = wire @ w \<and> aligned (map snd bufs) n errs w closed"
proof -
  let ?ps = "map snd bufs"
  obtain fs ls xs where fl: "frame_loop 0 (fits ?ps) = (fs, ls, xs)" by (metis surj_pair)
  have bl: "buffer_loop 0 (take (length (fits ?ps)) bufs) = (fs, ls, xs)"
    by (simp add: buffer_loop_frames take_map [symmetric] take_fits fl)
  have ls: "(ls = []) = (fs = [])" using frame_loop_fields [OF fl] by simp
  from assms(2) show ?thesis
  proof
    assume "stream_WritePackets (wire_writer wr) (wire_closer cl) c ?ps (k, wire, False) =
              ((n, errs), (k', wire', closed))"
    then show ?thesis
      using write_batch_aligned [OF assms(1) fl _ refl, of "[concat fs]" k wire cl c]
      unfolding stream_WritePackets_def validate_packets_eq prod.case add_0 take_fits fl ls by simp
  next
    assume "stream_WritePacketBuffers (wire_writer wr) (wire_closer cl) c bufs (k, wire, False) =
              ((n, errs), (k', wire', closed))"
    then show ?thesis
      using write_batch_aligned [OF assms(1) fl refl refl, of k wire cl c]
      unfolding stream_WritePacketBuffers_def validate_packets_eq prod.case add_0 bl by simp
  qed
qed

text \<open>A socket that takes three bytes of every write.\<close>

definition short_WriteTo :: "unit vec_writer" where
  "short_WriteTo k bufs = ((min 3 (length (concat bufs)), None), k)"

definition clean_Close :: "unit closer" where
  "clean_Close k = (None, k)"

theorem stream_write_aligned_witness:
  "\<exists>w. [0, 2, 1] = [] @ w \<and> aligned (map snd [(0 :: nat, [1, 2]), (0, [3])]) 0 [Sentinel ErrShortWrite] w True"
proof -
  have ok: "writer_ok short_WriteTo"
    unfolding writer_ok_def short_WriteTo_def fst_conv by (intro allI min.cobounded2)
  have run: "stream_WritePackets (wire_writer short_WriteTo) (wire_closer clean_Close)
          (NewStreamPacketConnection False) (map snd [(0 :: nat, [1, 2]), (0, [3])]) ((), [], False) =
          ((0, [Sentinel ErrShortWrite]), ((), [0, 2, 1], True))"
    by (simp add: stream_WritePackets_def writeFramesLocked_def wire_writer_def wire_closer_def
          short_WriteTo_def clean_Close_def NewStreamPacketConnection_def stream_consts
          maxUint16_def put_u16_def)
  show ?thesis by (rule stream_write_aligned [OF ok disjI1 [OF run]])
qed

section \<open>Datagrams\<close>

text \<open>
  A datagram connection has no state of its own; \<open>batchReader\<close> and \<open>batchWriter\<close>
  are optional helpers of the socket library.
\<close>

definition datagram_readPacket :: "'k reader \<Rightarrow> 'k \<Rightarrow> bytes result \<times> 'k" where
  "datagram_readPacket conn_Read k =
     (case conn_Read k maxUint16 of ((packet, err), k) \<Rightarrow>
        (case err of Some e \<Rightarrow> Inl e | None \<Rightarrow> Inr packet, k))"

definition datagram_ReadPackets ::
  "('k \<Rightarrow> (bytes list \<times> error option) \<times> 'k) option \<Rightarrow> 'k reader \<Rightarrow> 'k \<Rightarrow> (bytes list \<times> error option) \<times> 'k" where
  "datagram_ReadPackets batchReader conn_Read k =
     (case batchReader of
        Some waitRead \<Rightarrow> waitRead k
      | None \<Rightarrow>
          (case datagram_readPacket conn_Read k of
             (Inl err, k) \<Rightarrow> (([], Some err), k)
           | (Inr packet, k) \<Rightarrow> (([packet], None), k)))"

fun write_each ::
  "('k \<Rightarrow> bytes \<Rightarrow> error option \<times> 'k) \<Rightarrow> nat \<Rightarrow> bytes list \<Rightarrow> 'k \<Rightarrow> (nat \<times> error option) \<times> 'k" where
  "write_each conn_Write i [] k = ((i, None), k)"
| "write_each conn_Write i (packet # packets) k =
     (case conn_Write k packet of
        (Some err, k) \<Rightarrow> ((i, Some err), k)
      | (None, k) \<Rightarrow> write_each conn_Write (Suc i) packets k)"

definition datagram_WritePackets ::
  "('k \<Rightarrow> bytes list \<Rightarrow> error option \<times> 'k) option \<Rightarrow> ('k \<Rightarrow> bytes \<Rightarrow> error option \<times> 'k) \<Rightarrow>
     bytes list \<Rightarrow> 'k \<Rightarrow> (nat \<times> error list) \<times> 'k" where
  "datagram_WritePackets batchWriter conn_Write packets k =
     (case validate_packets 0 packets of (packetCount, validationErr) \<Rightarrow>
      if packetCount = 0 then ((0, validationErr), k)
      else case batchWriter of
        Some writeBatch \<Rightarrow>
          (case writeBatch k (take packetCount packets) of
             (Some err, k) \<Rightarrow> ((0, [err]), k)
           | (None, k) \<Rightarrow> ((packetCount, validationErr), k))
      | None \<Rightarrow>
          (case write_each conn_Write 0 (take packetCount packets) k of
             ((i, Some err), k) \<Rightarrow> ((i, [err]), k)
           | ((_, None), k) \<Rightarrow> ((packetCount, validationErr), k)))"

definition datagram_WritePacketBuffers ::
  "('k \<Rightarrow> bytes list \<Rightarrow> error option \<times> 'k) option \<Rightarrow> ('k \<Rightarrow> bytes \<Rightarrow> error option \<times> 'k) \<Rightarrow>
     (nat \<times> bytes) list \<Rightarrow> 'k \<Rightarrow> (nat \<times> error list) \<times> 'k" where
  "datagram_WritePacketBuffers batchWriter conn_Write packetBuffers k =
     (case validate_packets 0 (map snd packetBuffers) of (packetCount, validationErr) \<Rightarrow>
      if packetCount = 0 then ((0, validationErr), k)
      else case batchWriter of
        Some writeBatch \<Rightarrow>
          (case writeBatch k (map snd (take packetCount packetBuffers)) of
             (Some err, k) \<Rightarrow> ((0, [err]), k)
           | (None, k) \<Rightarrow> ((packetCount, validationErr), k))
      | None \<Rightarrow>
          (case write_each conn_Write 0 (map snd (take packetCount packetBuffers)) k of
             ((i, Some err), k) \<Rightarrow> ((i, [err]), k)
           | ((_, None), k) \<Rightarrow> ((packetCount, validationErr), k)))"

text \<open>Without a batch writer, the reported count is the number of datagrams the socket took.\<close>

definition log_Write ::
  "('k \<Rightarrow> bytes \<Rightarrow> error option \<times> 'k) \<Rightarrow> 'k \<times> bytes list \<Rightarrow> bytes \<Rightarrow> error option \<times> ('k \<times> bytes list)" where
  "log_Write wr s p = (case s of (k, sent) \<Rightarrow> case wr k p of
     (None, k') \<Rightarrow> (None, (k', sent @ [p])) | (Some e, k') \<Rightarrow> (Some e, (k', sent)))"

lemma write_each_log:
  "write_each (log_Write wr) i ps (k, sent) = ((n, err), (k', sent')) \<Longrightarrow>
   i \<le> n \<and> n \<le> i + length ps \<and> sent' = sent @ take (n - i) ps \<and> (err = None \<longrightarrow> n = i + length ps)"
proof (induction ps arbitrary: i k sent)
  case (Cons p ps)
  obtain e k1 where w: "wr k p = (e, k1)" by fastforce
  show ?case
  proof (cases e)
    case None
    then have ih: "Suc i \<le> n \<and> n \<le> Suc i + length ps \<and> sent' = (sent @ [p]) @ take (n - Suc i) ps \<and>
        (err = None \<longrightarrow> n = Suc i + length ps)"
      using Cons.IH [of "Suc i" k1 "sent @ [p]"] Cons.prems w by (simp add: log_Write_def)
    then obtain m where "n = Suc i + m" using le_Suc_ex by blast
    with ih show ?thesis by auto
  next
    case (Some x)
    then show ?thesis using Cons.prems w by (auto simp: log_Write_def)
  qed
qed auto

lemma datagram_WritePackets_count:
  assumes "datagram_WritePackets None (log_Write wr) ps (k, []) = ((n, errs), (k', sent))"
  shows "n \<le> length ps \<and> sent = take n ps \<and> (errs = [] \<longrightarrow> sent = ps)"
proof -
  obtain m err k1 s1 where w: "write_each (log_Write wr) 0 (fits ps) (k, []) = ((m, err), (k1, s1))"
    by (metis surj_pair)
  have le: "length (fits ps) \<le> length ps" by (simp add: fits_def length_takeWhile_le)
  have "take m (fits ps) = take m ps" if "m \<le> length (fits ps)"
    using that take_fits [of ps] by (metis min.absorb1 take_take)
  then show ?thesis
    using assms write_each_log [OF w] le take_fits [of ps]
    by (auto simp: datagram_WritePackets_def validate_packets_eq w split: if_splits option.splits)
qed

lemma datagram_buffers_eq:
  "datagram_WritePacketBuffers bw wr bufs k = datagram_WritePackets bw wr (map snd bufs) k"
  unfolding datagram_WritePacketBuffers_def datagram_WritePackets_def take_map ..

end
