(* ===== verification/Lzo.thy ===== *)
theory Lzo
  imports Prelude
begin

text \<open>
  The LZO1X-1 compressor of lzo\_compress.go: a dictionary of positions indexed by a hash of four
  bytes, literal runs and matches of three encodings. Positions and lengths are naturals; the
  dictionary holds position + 1 and 0 for an empty entry.
\<close>

definition lzoMaxOffsetM2 :: nat where "lzoMaxOffsetM2 = 0x0800"
definition lzoMaxOffsetM3 :: nat where "lzoMaxOffsetM3 = 0x4000"
definition lzoMaxOffsetM4 :: nat where "lzoMaxOffsetM4 = 0xbfff"
definition lzoMaxLengthM2 :: nat where "lzoMaxLengthM2 = 8"
definition lzoMaxLengthM4 :: nat where "lzoMaxLengthM4 = 9"
definition lzoMarkerM3 :: nat where "lzoMarkerM3 = 32"
definition lzoMarkerM4 :: nat where "lzoMarkerM4 = 16"
definition lzoDictBits :: nat where "lzoDictBits = 14"
definition lzoDictMask :: nat where "lzoDictMask = 2 ^ lzoDictBits - 1"
definition lzoDictHigh :: nat where "lzoDictHigh = drop_bit 1 lzoDictMask + 1"

lemmas lzo_consts = lzoMaxOffsetM2_def lzoMaxOffsetM3_def lzoMaxOffsetM4_def lzoMaxLengthM2_def
  lzoMaxLengthM4_def lzoMarkerM3_def lzoMarkerM4_def lzoDictBits_def lzoDictMask_def lzoDictHigh_def

text \<open>\<open>byte(v)\<close> of a non-negative integer.\<close>

abbreviation byte_of :: "nat \<Rightarrow> byte" where
  "byte_of v \<equiv> of_nat v"

function appendLZOMultiple :: "bytes \<Rightarrow> nat \<Rightarrow> bytes" where
  "appendLZOMultiple output n =
     (if 255 < n then appendLZOMultiple (output @ [0]) (n - 255) else output @ [byte_of n])"
  by pat_completeness auto
termination by (relation "measure snd") auto

declare appendLZOMultiple.simps [simp del]

definition appendLZOLiteral :: "bytes \<Rightarrow> bytes \<Rightarrow> bytes" where
  "appendLZOLiteral output literal =
     (let literalCount = length literal in
      if literalCount = 0 then output
      else
        (if output = [] \<and> literalCount \<le> 238 then output @ [byte_of (17 + literalCount)]
         else if literalCount \<le> 3
         then output[length output - 2 := output ! (length output - 2) OR byte_of literalCount]
         else if literalCount \<le> 18 then output @ [byte_of (literalCount - 3)]
         else appendLZOMultiple (output @ [0]) (literalCount - 18)) @ literal)"

definition findLZOCandidate :: "nat list \<Rightarrow> bytes \<Rightarrow> nat \<Rightarrow> nat \<Rightarrow> (nat \<times> nat) option" where
  "findLZOCandidate dictionary input inputPosition dictionaryIndex =
     (if dictionary ! dictionaryIndex = 0 then None
      else
        let matchPosition = dictionary ! dictionaryIndex - 1 in
        if inputPosition = matchPosition \<or> lzoMaxOffsetM4 < inputPosition - matchPosition then None
        else
          let matchOffset = inputPosition - matchPosition in
          if matchOffset \<le> lzoMaxOffsetM2 \<or> input ! (matchPosition + 3) = input ! (inputPosition + 3)
          then Some (matchPosition, matchOffset) else None)"

definition lzo_key :: "bytes \<Rightarrow> nat \<Rightarrow> nat" where
  "lzo_key input inputPosition =
     (let key = unat (input ! (inputPosition + 3));
          key = push_bit 6 key XOR unat (input ! (inputPosition + 2));
          key = push_bit 5 key XOR unat (input ! (inputPosition + 1));
          key = push_bit 5 key XOR unat (input ! inputPosition)
      in drop_bit 5 (0x21 * key) AND lzoDictMask)"

text \<open>The first six bytes after a three-byte match, with the position one past a mismatch.\<close>

function match_loop :: "bytes \<Rightarrow> nat \<Rightarrow> nat \<Rightarrow> nat \<Rightarrow> nat \<times> nat" where
  "match_loop input matchPosition matchLength inputPosition =
     (if 9 \<le> matchLength then (matchLength, inputPosition)
      else if input ! (matchPosition + matchLength) \<noteq> input ! inputPosition
      then (matchLength, inputPosition + 1)
      else match_loop input matchPosition (matchLength + 1) (inputPosition + 1))"
  by pat_completeness auto
termination by (relation "measure (\<lambda>(i, m, l, p). 9 - l)") auto

declare match_loop.simps [simp del]

function extend_match :: "bytes \<Rightarrow> nat \<Rightarrow> nat \<Rightarrow> nat" where
  "extend_match input matchPosition inputPosition =
     (if inputPosition < length input \<and> input ! matchPosition = input ! inputPosition
      then extend_match input (matchPosition + 1) (inputPosition + 1) else inputPosition)"
  by pat_completeness auto
termination by (relation "measure (\<lambda>(i, m, p). length i - p)") auto

declare extend_match.simps [simp del]

definition short_match :: "bytes \<Rightarrow> nat \<Rightarrow> nat \<Rightarrow> bytes" where
  "short_match output matchLength matchOffset =
     (if matchOffset \<le> lzoMaxOffsetM2 then
        let matchOffset = matchOffset - 1 in
        output @ [byte_of (push_bit 5 (matchLength - 1) OR push_bit 2 (matchOffset AND 7)),
                  byte_of (drop_bit 3 matchOffset)]
      else if matchOffset \<le> lzoMaxOffsetM3 then
        let matchOffset = matchOffset - 1 in
        output @ [byte_of (lzoMarkerM3 OR (matchLength - 2)),
                  byte_of (push_bit 2 (matchOffset AND 63)), byte_of (drop_bit 6 matchOffset)]
      else
        let matchOffset = matchOffset - 0x4000 in
        output @ [byte_of (lzoMarkerM4 OR drop_bit 11 (matchOffset AND 0x4000) OR (matchLength - 2)),
                  byte_of (push_bit 2 (matchOffset AND 63)), byte_of (drop_bit 6 matchOffset)])"

definition long_match :: "bytes \<Rightarrow> nat \<Rightarrow> nat \<Rightarrow> bytes" where
  "long_match output matchLength matchOffset =
     (case (if matchOffset \<le> lzoMaxOffsetM3 then
              let matchOffset = matchOffset - 1 in
              (if matchLength \<le> 33 then output @ [byte_of (lzoMarkerM3 OR (matchLength - 2))]
               else appendLZOMultiple (output @ [byte_of lzoMarkerM3]) (matchLength - 33), matchOffset)
            else
              let matchOffset = matchOffset - 0x4000 in
              (if matchLength \<le> lzoMaxLengthM4
               then output @ [byte_of (lzoMarkerM4 OR drop_bit 11 (matchOffset AND 0x4000) OR (matchLength - 2))]
               else appendLZOMultiple (output @ [byte_of (lzoMarkerM4 OR drop_bit 11 (matchOffset AND 0x4000))])
                      (matchLength - lzoMaxLengthM4), matchOffset)) of
        (output, matchOffset) \<Rightarrow>
          output @ [byte_of (push_bit 2 (matchOffset AND 63)), byte_of (drop_bit 6 matchOffset)])"

text \<open>
  One attempt at a dictionary slot: the new dictionary, output and position when it matches.
\<close>

definition try_match ::
  "bytes \<Rightarrow> nat list \<Rightarrow> bytes \<Rightarrow> nat \<Rightarrow> nat \<Rightarrow> nat \<Rightarrow> (nat list \<times> bytes \<times> nat) option" where
  "try_match input dictionary output literalStart inputPosition dictionaryIndex =
     (case findLZOCandidate dictionary input inputPosition dictionaryIndex of
        None \<Rightarrow> None
      | Some (matchPosition, matchOffset) \<Rightarrow>
          if (matchOffset \<le> lzoMaxOffsetM2 \<or> input ! (matchPosition + 3) = input ! (inputPosition + 3)) \<and>
             input ! matchPosition = input ! inputPosition \<and>
             input ! (matchPosition + 1) = input ! (inputPosition + 1) \<and>
             input ! (matchPosition + 2) = input ! (inputPosition + 2)
          then
            let dictionary = dictionary[dictionaryIndex := inputPosition + 1];
                output = (if inputPosition \<noteq> literalStart
                          then appendLZOLiteral output (take (inputPosition - literalStart) (drop literalStart input))
                          else output);
                literalStart = inputPosition
            in case match_loop input matchPosition 3 (inputPosition + 3) of (matchLength, inputPosition) \<Rightarrow>
               if matchLength < 9 then
                 let inputPosition = inputPosition - 1 in
                 Some (dictionary, short_match output (inputPosition - literalStart) matchOffset, inputPosition)
               else
                 let inputPosition = extend_match input (matchPosition + lzoMaxLengthM2 + 1) inputPosition in
                 Some (dictionary, long_match output (inputPosition - literalStart) matchOffset, inputPosition)
          else None)"

lemma match_loop_ge:
  "match_loop input m l p = (l', p') \<Longrightarrow> p \<le> p' \<and> (l' < 9 \<longrightarrow> p < p')"
proof (induction input m l p rule: match_loop.induct)
  case (1 input m l p)
  then show ?case
    by (cases "9 \<le> l"; cases "input ! (m + l) = input ! p")
       (simp_all add: match_loop.simps [of input m l p])
qed

lemma extend_match_ge: "p \<le> extend_match input m p"
proof (induction input m p rule: extend_match.induct)
  case (1 input m p)
  then show ?case by (auto simp: extend_match.simps [of input m p])
qed

lemma try_match_advances:
  assumes "try_match input dict out ls p i = Some (dict', out', p')"
  shows "p + 3 \<le> p'"
proof -
  obtain m off where f: "findLZOCandidate dict input p i = Some (m, off)"
    using assms by (auto simp: try_match_def split: option.splits)
  obtain l q where l: "match_loop input m 3 (p + 3) = (l, q)" by fastforce
  show ?thesis
    using assms match_loop_ge [OF l] extend_match_ge [of q input "m + lzoMaxLengthM2 + 1"]
    by (auto simp: try_match_def f l Let_def split: if_splits)
qed

text \<open>
  The main loop. Two slots are tried; when neither matches, the second one records the
  position, and the step grows with the length of the pending literal.
\<close>

function core_loop ::
  "bytes \<Rightarrow> nat \<Rightarrow> nat list \<Rightarrow> nat \<Rightarrow> nat \<Rightarrow> bytes \<Rightarrow> bytes \<times> nat" where
  "core_loop input inputLimit dictionary literalStart inputPosition output =
     (let index0 = lzo_key input inputPosition;
          index1 = (index0 AND (lzoDictMask AND 0x7ff)) XOR (lzoDictHigh OR 0x1f)
      in case (case try_match input dictionary output literalStart inputPosition index0 of
                 Some r \<Rightarrow> Some r
               | None \<Rightarrow> try_match input dictionary output literalStart inputPosition index1) of
           Some (dictionary, output, inputPosition) \<Rightarrow>
             if inputLimit \<le> inputPosition then (output, length input - inputPosition)
             else core_loop input inputLimit dictionary inputPosition inputPosition output
         | None \<Rightarrow>
             let dictionary = dictionary[index1 := inputPosition + 1];
                 inputPosition = inputPosition + (1 + drop_bit 5 (inputPosition - literalStart))
             in if inputLimit \<le> inputPosition then (output, length input - literalStart)
                else core_loop input inputLimit dictionary literalStart inputPosition output)"
  by pat_completeness auto
termination
  by (relation "measure (\<lambda>(i, lim, d, ls, p, out). lim - p)")
     (auto dest!: try_match_advances split: option.splits)

declare core_loop.simps [simp del]

definition compressLZOBlockCore :: "bytes \<Rightarrow> bytes \<times> nat" where
  "compressLZOBlockCore input =
     core_loop input (length input - lzoMaxLengthM2 - 5) (replicate (2 ^ lzoDictBits) 0) 0 4 []"

definition compressLZOBlock :: "bytes \<Rightarrow> bytes" where
  "compressLZOBlock input =
     (let inputLength = length input;
          (output, literalTailSize) =
            (if lzoMaxLengthM2 + 5 < inputLength then compressLZOBlockCore input else ([], inputLength));
          output = (if 0 < literalTailSize
                    then appendLZOLiteral output (drop (inputLength - literalTailSize) input)
                    else output)
      in output @ [byte_of (lzoMarkerM4 OR 1), 0, 0])"

end
