(* ===== verification/Go_Strings.thy ===== *)
theory Go_Strings
  imports Prelude
begin

text \<open>
  The functions of Go's \<open>strings\<close>, \<open>strconv\<close> and \<open>encoding/hex\<close> packages that the program uses, on
  byte strings. White space is ASCII white space, which is what option texts and key files contain.
\<close>

section \<open>strings\<close>

definition HasPrefix :: "string \<Rightarrow> string \<Rightarrow> bool" where
  "HasPrefix s pre \<longleftrightarrow> take (length pre) s = pre"

definition HasSuffix :: "string \<Rightarrow> string \<Rightarrow> bool" where
  "HasSuffix s suf \<longleftrightarrow> length suf \<le> length s \<and> drop (length s - length suf) s = suf"

definition TrimPrefix :: "string \<Rightarrow> string \<Rightarrow> string" where
  "TrimPrefix s pre = (if HasPrefix s pre then drop (length pre) s else s)"

definition TrimSuffix :: "string \<Rightarrow> string \<Rightarrow> string" where
  "TrimSuffix s suf = (if HasSuffix s suf then take (length s - length suf) s else s)"

text \<open>\<open>strings.Index\<close>: the offset of the first occurrence.\<close>

fun str_Index :: "string \<Rightarrow> string \<Rightarrow> nat option" where
  "str_Index [] pat = (if pat = [] then Some 0 else None)"
| "str_Index (c # s) pat = (if HasPrefix (c # s) pat then Some 0 else map_option Suc (str_Index s pat))"

definition is_space :: "char \<Rightarrow> bool" where
  "is_space c \<longleftrightarrow> (of_char c :: nat) \<in> {9, 10, 11, 12, 13, 32}"

text \<open>\<open>strings.Fields\<close>: the maximal runs of non-space characters.\<close>

fun fields_from :: "string \<Rightarrow> string \<Rightarrow> string list" where
  "fields_from cur [] = (if cur = [] then [] else [rev cur])"
| "fields_from cur (c # s) =
     (if is_space c then (if cur = [] then fields_from [] s else rev cur # fields_from [] s)
      else fields_from (c # cur) s)"

definition Fields :: "string \<Rightarrow> string list" where
  "Fields s = fields_from [] s"

definition TrimSpace :: "string \<Rightarrow> string" where
  "TrimSpace s = rev (dropWhile is_space (rev (dropWhile is_space s)))"

text \<open>\<open>strings.Split\<close> and \<open>strings.Cut\<close> at a one-character separator.\<close>

fun split_from :: "char \<Rightarrow> string \<Rightarrow> string \<Rightarrow> string list" where
  "split_from sep cur [] = [rev cur]"
| "split_from sep cur (c # s) =
     (if c = sep then rev cur # split_from sep [] s else split_from sep (c # cur) s)"

definition str_Split :: "string \<Rightarrow> char \<Rightarrow> string list" where
  "str_Split s sep = split_from sep [] s"

fun str_Join :: "string list \<Rightarrow> string \<Rightarrow> string" where
  "str_Join [] sep = []"
| "str_Join [x] sep = x"
| "str_Join (x # xs) sep = x @ sep @ str_Join xs sep"

definition lower_char :: "char \<Rightarrow> char" where
  "lower_char c = (if (65 :: nat) \<le> of_char c \<and> of_char c \<le> (90 :: nat) then char_of (of_char c + (32 :: nat)) else c)"

definition upper_char :: "char \<Rightarrow> char" where
  "upper_char c = (if (97 :: nat) \<le> of_char c \<and> of_char c \<le> (122 :: nat) then char_of (of_char c - (32 :: nat)) else c)"

definition ToLower :: "string \<Rightarrow> string" where "ToLower = map lower_char"
definition ToUpper :: "string \<Rightarrow> string" where "ToUpper = map upper_char"

text \<open>\<open>strings.EqualFold\<close> on ASCII text.\<close>

definition EqualFold :: "string \<Rightarrow> string \<Rightarrow> bool" where
  "EqualFold s t \<longleftrightarrow> ToLower s = ToLower t"

text \<open>\<open>strings.TrimRight\<close> with a set of characters.\<close>

definition TrimRight :: "string \<Rightarrow> string \<Rightarrow> string" where
  "TrimRight s cutset = rev (dropWhile (\<lambda>c. c \<in> set cutset) (rev s))"

section \<open>strconv\<close>

definition digit_char :: "nat \<Rightarrow> char" where
  "digit_char d = char_of (48 + d)"

function FormatUint :: "nat \<Rightarrow> string" where
  "FormatUint n = (if n < 10 then [digit_char n] else FormatUint (n div 10) @ [digit_char (n mod 10)])"
  by pat_completeness auto
termination by (relation "measure id") auto

declare FormatUint.simps [simp del]

definition Itoa :: "int \<Rightarrow> string" where
  "Itoa i = (if i < 0 then CHR ''-'' # FormatUint (nat (- i)) else FormatUint (nat i))"

fun parse_digits :: "nat \<Rightarrow> string \<Rightarrow> nat option" where
  "parse_digits acc [] = Some acc"
| "parse_digits acc (c # s) =
     (if (48 :: nat) \<le> of_char c \<and> of_char c \<le> (57 :: nat) then parse_digits (10 * acc + (of_char c - 48)) s else None)"

definition ParseUint :: "string \<Rightarrow> nat \<Rightarrow> nat result" where
  "ParseUint s bitSize =
     (if s = [] then Inl (New ''invalid syntax'')
      else case parse_digits 0 s of
        None \<Rightarrow> Inl (New ''invalid syntax'')
      | Some n \<Rightarrow> if n < 2 ^ bitSize then Inr n else Inl (New ''value out of range''))"

definition Atoi :: "string \<Rightarrow> int result" where
  "Atoi s =
     (let (neg, t) = (case s of [] \<Rightarrow> (False, s)
                      | c # r \<Rightarrow> if c = CHR ''-'' then (True, r) else if c = CHR ''+'' then (False, r) else (False, s))
      in if t = [] then Inl (New ''invalid syntax'')
         else case parse_digits 0 t of
           None \<Rightarrow> Inl (New ''invalid syntax'')
         | Some n \<Rightarrow>
             if (if neg then n \<le> 2 ^ 63 else n < 2 ^ 63) then Inr (if neg then - int n else int n)
             else Inl (New ''value out of range''))"

section \<open>Bytes and strings\<close>

definition str_bytes :: "string \<Rightarrow> bytes" where "str_bytes = map (\<lambda>c. of_nat (of_char c))"
definition bytes_str :: "bytes \<Rightarrow> string" where "bytes_str = map (\<lambda>b. char_of (unat b))"

lemma bytes_str_inverse [simp]: "bytes_str (str_bytes s) = s"
proof -
  have "char_of (unat (of_nat (of_char c) :: byte)) = c" for c
  proof -
    have "of_char c < (256 :: nat)" using of_char_mod_256 [of c, where ?'a = nat] by (metis mod_less_divisor zero_less_numeral)
    then show ?thesis by (simp add: unat_of_nat)
  qed
  then show ?thesis by (simp add: str_bytes_def bytes_str_def comp_def)
qed

lemma length_str_bytes [simp]: "length (str_bytes s) = length s" "length (bytes_str b) = length b"
  by (simp_all add: str_bytes_def bytes_str_def)

lemma str_bytes_append [simp]: "str_bytes (s @ t) = str_bytes s @ str_bytes t"
  by (simp add: str_bytes_def)

section \<open>encoding/hex\<close>

definition hex_digit :: "char \<Rightarrow> byte option" where
  "hex_digit c =
     (let v = (of_char c :: nat)
      in if 48 \<le> v \<and> v \<le> 57 then Some (of_nat (v - 48))
         else if 97 \<le> v \<and> v \<le> 102 then Some (of_nat (v - 87))
         else if 65 \<le> v \<and> v \<le> 70 then Some (of_nat (v - 55))
         else None)"

fun hex_DecodeString :: "string \<Rightarrow> bytes result" where
  "hex_DecodeString [] = Inr []"
| "hex_DecodeString [a] =
     (if hex_digit a = None then Inl (New ''encoding/hex: invalid byte'') else Inl (New ''encoding/hex: odd length hex string''))"
| "hex_DecodeString (a # b # s) =
     (case (hex_digit a, hex_digit b) of
        (Some x, Some y) \<Rightarrow> bindE (hex_DecodeString s) (\<lambda>bs. Inr ((push_bit 4 x OR y) # bs))
      | _ \<Rightarrow> Inl (New ''encoding/hex: invalid byte''))"

definition hex_char :: "byte \<Rightarrow> char" where
  "hex_char v = ''0123456789abcdef'' ! unat v"

fun hex_EncodeToString :: "bytes \<Rightarrow> string" where
  "hex_EncodeToString [] = []"
| "hex_EncodeToString (b # bs) = hex_char (drop_bit 4 b) # hex_char (b AND 0xf) # hex_EncodeToString bs"

lemma nat_less_16: "n < 16 \<Longrightarrow> n \<in> {0, 1, 2, 3, 4, 5, 6, 7, 8, 9, 10, 11, 12, 13, 14, 15 :: nat}"
  by (simp only: insert_iff empty_iff) presburger

lemma hex_digit_char: "n < 16 \<Longrightarrow> hex_digit (''0123456789abcdef'' ! n) = Some (of_nat n)"
  by (drule nat_less_16, elim insertE emptyE) (simp_all add: hex_digit_def)

lemma nibbles: "unat (drop_bit 4 b) < 16" "unat (b AND 0xf) < 16" "push_bit 4 (drop_bit 4 b) OR (b AND 0xf) = b"
  for b :: byte
proof -
  have "unat b < 256" using unsigned_less [of b, where ?'a = nat] by simp
  then show "unat (drop_bit 4 b) < 16" unfolding unat_drop_bit_eq by (simp add: drop_bit_eq_div)
  have m: "(0xf :: byte) = mask 4" by (simp add: mask_eq_exp_minus_1)
  have "unat (b AND mask 4) = unat b mod 16"
    by (simp add: take_bit_eq_mask [symmetric] unsigned_take_bit_eq) (simp add: take_bit_eq_mod)
  then show "unat (b AND 0xf) < 16" unfolding m by simp
  show "push_bit 4 (drop_bit 4 b) OR (b AND 0xf) = b"
    unfolding m by (auto intro!: bit_eqI simp: bit_simps)
qed

lemma hex_roundtrip [simp]: "hex_DecodeString (hex_EncodeToString bs) = Inr bs"
proof (induction bs)
  case (Cons b bs)
  have d: "hex_digit (hex_char v) = Some v" if "unat v < 16" for v
    using hex_digit_char [OF that] unfolding hex_char_def of_nat_unat ucast_id .
  show ?case
    unfolding hex_EncodeToString.simps hex_DecodeString.simps d [OF nibbles(1)] d [OF nibbles(2)] Cons.IH
    by (simp only: prod.case option.case bindE_simps nibbles(3))
qed simp

lemma length_hex [simp]: "length (hex_EncodeToString bs) = 2 * length bs"
  by (induction bs) simp_all

section \<open>Facts\<close>

lemma concat_fields: "concat (fields_from cur s) = rev cur @ filter (\<lambda>c. \<not> is_space c) s"
  by (induction cur s rule: fields_from.induct) auto

lemma str_Join_empty: "str_Join xs [] = concat xs"
  by (induction xs rule: induct_list012) simp_all

lemma Fields_Join: "str_Join (Fields s) [] = filter (\<lambda>c. \<not> is_space c) s"
  by (simp add: str_Join_empty Fields_def concat_fields)

lemma HasSuffix_append [simp]: "HasSuffix (s @ t) t"
  by (simp add: HasSuffix_def)

lemma TrimSuffix_append [simp]: "TrimSuffix (s @ t) t = s"
  by (simp add: TrimSuffix_def)

section \<open>Numbers\<close>

lemma digit_char [simp]: "d < 10 \<Longrightarrow> (of_char (digit_char d) :: nat) = 48 + d"
  by (simp add: digit_char_def)

lemma parse_digits_append:
  "parse_digits acc (s @ t) = (case parse_digits acc s of None \<Rightarrow> None | Some n \<Rightarrow> parse_digits n t)"
  by (induction acc s rule: parse_digits.induct) auto

lemma FormatUint_neq [simp]: "FormatUint n \<noteq> []"
  by (simp add: FormatUint.simps [of n])

lemma parse_FormatUint [simp]: "parse_digits 0 (FormatUint n) = Some n"
proof (induction n rule: less_induct)
  case (less n)
  show ?case
  proof (cases "n < 10")
    case False
    then have "parse_digits 0 (FormatUint (n div 10)) = Some (n div 10)" by (intro less) auto
    moreover have "FormatUint n = FormatUint (n div 10) @ [digit_char (n mod 10)]"
      using False by (simp add: FormatUint.simps [of n])
    ultimately show ?thesis by (simp add: parse_digits_append)
  qed (simp add: FormatUint.simps [of n])
qed

lemma FormatUint_digits: "c \<in> set (FormatUint n) \<Longrightarrow> (48 :: nat) \<le> of_char c \<and> of_char c \<le> (57 :: nat)"
proof (induction n rule: less_induct)
  case (less n)
  then show ?case
  proof (cases "n < 10")
    case False
    then have "c \<in> set (FormatUint (n div 10)) \<or> c = digit_char (n mod 10)"
      using less.prems by (auto simp: FormatUint.simps [of n])
    moreover have "n div 10 < n" using False by simp
    ultimately show ?thesis using less.IH [of "n div 10"] by auto
  qed (simp add: FormatUint.simps [of n])
qed

lemma ParseUint_FormatUint [simp]: "n < 2 ^ bits \<Longrightarrow> ParseUint (FormatUint n) bits = Inr n"
  by (simp add: ParseUint_def)

lemma Atoi_FormatUint [simp]: "n < 2 ^ 63 \<Longrightarrow> Atoi (FormatUint n) = Inr (int n)"
proof -
  assume n: "n < 2 ^ 63"
  obtain c r where cr: "FormatUint n = c # r" by (metis FormatUint_neq list.exhaust)
  have "(48 :: nat) \<le> of_char c" using FormatUint_digits [of c n] by (simp add: cr)
  then have "c \<noteq> CHR ''-''" "c \<noteq> CHR ''+''" by auto
  moreover have "parse_digits 0 (c # r) = Some n" using parse_FormatUint [of n] by (simp add: cr)
  ultimately show ?thesis using n by (simp add: Atoi_def cr del: parse_digits.simps)
qed

section \<open>Splitting\<close>

lemma split_from_none: "sep \<notin> set x \<Longrightarrow> split_from sep cur x = [rev cur @ x]"
  by (induction x arbitrary: cur) auto

lemma split_from_cons: "sep \<notin> set x \<Longrightarrow> split_from sep cur (x @ sep # y) = (rev cur @ x) # split_from sep [] y"
  by (induction x arbitrary: cur) auto

lemma Split_none: "sep \<notin> set x \<Longrightarrow> str_Split x sep = [x]"
  by (simp add: str_Split_def split_from_none)

lemma Split_cons: "sep \<notin> set x \<Longrightarrow> str_Split (x @ sep # y) sep = x # str_Split y sep"
  by (simp add: str_Split_def split_from_cons)

lemma Split_Join:
  "xs \<noteq> [] \<Longrightarrow> \<forall>x \<in> set xs. sep \<notin> set x \<Longrightarrow> str_Split (str_Join xs [sep]) sep = xs"
  by (induction xs rule: induct_list012) (simp_all add: Split_none Split_cons)

lemma TrimSpace_id: "\<forall>c \<in> set s. \<not> is_space c \<Longrightarrow> TrimSpace s = s"
proof -
  assume *: "\<forall>c \<in> set s. \<not> is_space c"
  have d: "dropWhile is_space t = t" if "\<forall>c \<in> set t. \<not> is_space c" for t
    using that by (cases t) auto
  show ?thesis using * d [of s] d [of "rev s"] by (simp add: TrimSpace_def)
qed

lemma HasPrefix_append [simp]: "HasPrefix (p @ s) p"
  by (simp add: HasPrefix_def)

lemma TrimPrefix_append [simp]: "TrimPrefix (p @ s) p = s"
  by (simp add: TrimPrefix_def)

end
