(* ===== verification/Compression.thy ===== *)
theory Compression
  imports Lzo Go_Strings
begin

text \<open>
  Compression options (compression\_options.go, allow\_compression.go) and the compression
  frames of the data channel (data\_channel\_compression.go). The decompressors of the LZO and LZ4
  libraries are arguments, functions from a block to the decompressed bytes or a failure.
\<close>

section \<open>Settings\<close>

datatype compressionAlgorithm =
    compressionAlgorithmNone | compressionAlgorithmStub | compressionAlgorithmLZO
  | compressionAlgorithmLZ4 | compressionAlgorithmStubV2 | compressionAlgorithmLZ4V2

record compressionSettings =
  algorithm :: compressionAlgorithm
  swap :: bool
  adaptive :: bool
  asymmetric :: bool

definition zero_compressionSettings :: compressionSettings where
  "zero_compressionSettings =
     \<lparr>algorithm = compressionAlgorithmNone, swap = False, adaptive = False, asymmetric = False\<rparr>"

record compressionDirective =
  directive_Name :: string
  directive_Value :: string

definition compressionDirectiveCompress :: string where "compressionDirectiveCompress = ''compress''"
definition compressionDirectiveLZO :: string where "compressionDirectiveLZO = ''comp-lzo''"

definition compression_apply ::
  "compressionDirective \<Rightarrow> compressionSettings \<Rightarrow> error option \<times> compressionSettings" where
  "compression_apply directive settings =
     (let name = directive_Name directive; v = directive_Value directive in
      if name = compressionDirectiveCompress then
        (if v \<in> {'''', ''stub''} then
           (None, settings\<lparr>algorithm := compressionAlgorithmStub, swap := True\<rparr>)
         else if v = ''stub-v2'' then (None, settings\<lparr>algorithm := compressionAlgorithmStubV2\<rparr>)
         else if v = ''lzo'' then
           (None, settings\<lparr>algorithm := compressionAlgorithmLZO, adaptive := False, swap := False\<rparr>)
         else if v = ''lz4'' then
           (None, settings\<lparr>algorithm := compressionAlgorithmLZ4, swap := True\<rparr>)
         else if v = ''lz4-v2'' then (None, settings\<lparr>algorithm := compressionAlgorithmLZ4V2\<rparr>)
         else if v \<in> {''migrate'', ''none'', ''no'', ''disabled'', ''off''} then
           (None, zero_compressionSettings)
         else (Some (Extend ErrCompressionNotSupported (name @ '' '' @ v)), settings))
      else if name = compressionDirectiveLZO then
        (let settings = settings\<lparr>swap := False\<rparr> in
         if v \<in> {'''', ''adaptive''} then
           (None, settings\<lparr>algorithm := compressionAlgorithmLZO, adaptive := True, asymmetric := False\<rparr>)
         else if v = ''yes'' then
           (None, settings\<lparr>algorithm := compressionAlgorithmLZO, adaptive := False, asymmetric := False\<rparr>)
         else if v = ''asym'' then
           (None, settings\<lparr>algorithm := compressionAlgorithmLZO, adaptive := False, asymmetric := True\<rparr>)
         else if v = ''no'' then
           (None, settings\<lparr>algorithm := compressionAlgorithmStub, adaptive := False\<rparr>)
         else if v \<in> {''none'', ''disabled'', ''off''} then (None, zero_compressionSettings)
         else (Some (Extend ErrCompressionNotSupported (name @ '' '' @ v)), settings))
      else (Some (Extend ErrCompressionNotSupported name), settings))"

definition framingEnabled :: "compressionSettings \<Rightarrow> bool" where
  "framingEnabled settings = (algorithm settings \<noteq> compressionAlgorithmNone)"

definition nonStubEnabled :: "compressionSettings \<Rightarrow> bool" where
  "nonStubEnabled settings =
     (algorithm settings \<in> {compressionAlgorithmLZO, compressionAlgorithmLZ4, compressionAlgorithmLZ4V2})"

definition framingOverhead :: "compressionSettings \<Rightarrow> nat" where
  "framingOverhead settings =
     (if algorithm settings \<in> {compressionAlgorithmStub, compressionAlgorithmLZO, compressionAlgorithmLZ4}
      then 1 else 0)"

datatype allowCompressionPolicy =
  allowCompressionStubOnly | allowCompressionAsymmetric | allowCompressionYes

definition compressesOutbound :: "compressionSettings \<Rightarrow> allowCompressionPolicy \<Rightarrow> bool" where
  "compressesOutbound settings allowCompression =
     (algorithm settings = compressionAlgorithmLZO \<and> \<not> asymmetric settings \<and>
      allowCompression = allowCompressionYes)"

definition resolveCompressionSettings :: "string \<Rightarrow> string \<Rightarrow> compressionSettings result" where
  "resolveCompressionSettings compression compressionLZO =
     (let compressValue = TrimSpace compression;
          compressionLZOValue = TrimSpace compressionLZO
      in case (if compressValue \<noteq> ''''
               then compression_apply
                      \<lparr>directive_Name = compressionDirectiveCompress, directive_Value = compressValue\<rparr>
                      zero_compressionSettings
               else (None, zero_compressionSettings)) of
           (Some err, _) \<Rightarrow> Inl err
         | (None, settings) \<Rightarrow>
             (case (if compressionLZOValue \<noteq> ''''
                    then compression_apply
                           \<lparr>directive_Name = compressionDirectiveLZO, directive_Value = compressionLZOValue\<rparr>
                           settings
                    else (None, settings)) of
                (Some err, _) \<Rightarrow> Inl err
              | (None, settings) \<Rightarrow> Inr settings))"

definition parseAllowCompressionPolicy :: "string \<Rightarrow> allowCompressionPolicy result" where
  "parseAllowCompressionPolicy v =
     (if v \<in> {'''', ''no''} then Inr allowCompressionStubOnly
      else if v = ''asym'' then Inr allowCompressionAsymmetric
      else if v = ''yes'' then Inr allowCompressionYes
      else Inl (Sentinel ErrInvalidAllowCompression))"

definition resolveEffectiveAllowCompressionPolicy ::
  "string \<Rightarrow> compressionSettings \<Rightarrow> allowCompressionPolicy result" where
  "resolveEffectiveAllowCompressionPolicy allowCompression settings =
     (if allowCompression = '''' then
        Inr (if nonStubEnabled settings then allowCompressionAsymmetric else allowCompressionStubOnly)
      else case parseAllowCompressionPolicy allowCompression of
        Inl err \<Rightarrow> Inl err
      | Inr policy \<Rightarrow>
          if policy = allowCompressionStubOnly \<and> nonStubEnabled settings
          then Inl (Sentinel ErrAllowCompressionConflict) else Inr policy)"

text \<open>
  Outbound compression needs both an explicit \<open>yes\<close> and a symmetric LZO setting; no other
  combination of options switches it on.
\<close>

lemma outbound_compression_explicit:
  assumes "resolveEffectiveAllowCompressionPolicy allow settings = Inr policy"
      and "compressesOutbound settings policy"
  shows "allow = ''yes'' \<and> algorithm settings = compressionAlgorithmLZO"
  using assms
  by (auto simp: resolveEffectiveAllowCompressionPolicy_def parseAllowCompressionPolicy_def
        compressesOutbound_def split: if_splits)

text \<open>
  A later directive decides: after any directive that is accepted, the algorithm depends only
  on that directive.
\<close>

lemma apply_algorithm_last:
  "fst (compression_apply d s) = None \<Longrightarrow>
   algorithm (snd (compression_apply d s)) = algorithm (snd (compression_apply d s'))"
  by (auto simp: compression_apply_def Let_def split: if_splits)

section \<open>Frames\<close>

definition openVPNLZOCompressByte :: byte where "openVPNLZOCompressByte = 0x66"
definition openVPNLZ4CompressByte :: byte where "openVPNLZ4CompressByte = 0x69"
definition openVPNNoCompressByte :: byte where "openVPNNoCompressByte = 0xfa"
definition openVPNNoCompressByteSwap :: byte where "openVPNNoCompressByteSwap = 0xfb"
definition openVPNCompressV2IndicatorByte :: byte where "openVPNCompressV2IndicatorByte = 0x50"
definition openVPNCompressV2SubTypeNone :: byte where "openVPNCompressV2SubTypeNone = 0x00"
definition openVPNCompressV2SubTypeLZ4 :: byte where "openVPNCompressV2SubTypeLZ4 = 0x01"
definition openVPNCompressionThreshold :: nat where "openVPNCompressionThreshold = 100"
definition openVPNLZOAdaptiveSampleDuration :: duration where
  "openVPNLZOAdaptiveSampleDuration = 2 * second"
definition openVPNLZOAdaptiveOffDuration :: duration where
  "openVPNLZOAdaptiveOffDuration = 60 * second"
definition openVPNLZOAdaptiveMinimumBytes :: int where "openVPNLZOAdaptiveMinimumBytes = 1000"
definition openVPNLZOAdaptiveSavePercent :: int where "openVPNLZOAdaptiveSavePercent = 5"

lemmas compress_bytes = openVPNLZOCompressByte_def openVPNLZ4CompressByte_def openVPNNoCompressByte_def
  openVPNNoCompressByteSwap_def openVPNCompressV2IndicatorByte_def openVPNCompressV2SubTypeNone_def
  openVPNCompressV2SubTypeLZ4_def

text \<open>
  \<open>lzo.Decompress\<close> and \<open>lz4.UncompressBlock\<close> write into a buffer of 65536 bytes; the argument
  returns the bytes written, or an error.
\<close>

type_synonym decompressor = "bytes \<Rightarrow> bytes result"

definition decompressLZOBlock :: "decompressor \<Rightarrow> bytes \<Rightarrow> bytes result" where
  "decompressLZOBlock lzo_Decompress compressedBlock =
     (if compressedBlock = [] then Inl (New ''empty lzo block'')
      else case lzo_Decompress compressedBlock of
        Inl err \<Rightarrow> Inl (New ''decompress lzo block'')
      | Inr decompressed \<Rightarrow>
          if decompressed = [] then Inl (New ''lzo block decompression produced empty output'')
          else Inr decompressed)"

definition decompressLZ4Block :: "decompressor \<Rightarrow> bytes \<Rightarrow> bytes result" where
  "decompressLZ4Block lz4_UncompressBlock compressedBlock =
     (if compressedBlock = [] then Inl (New ''empty lz4 block'')
      else case lz4_UncompressBlock compressedBlock of
        Inl err \<Rightarrow> Inl (New ''lz4 block decompression failed'')
      | Inr decompressed \<Rightarrow>
          if decompressed = [] then Inl (New ''lz4 block decompression produced empty output'')
          else Inr decompressed)"

definition unswapV1FrameHead :: "bytes \<Rightarrow> bytes" where
  "unswapV1FrameHead framedPayload =
     (if length framedPayload \<le> 1 then []
      else let payloadLength = length framedPayload - 1
           in framedPayload ! payloadLength # take (payloadLength - 1) (drop 1 framedPayload))"

definition decompressLZ4V1Frame :: "decompressor \<Rightarrow> bytes \<Rightarrow> bytes result" where
  "decompressLZ4V1Frame lz4_UncompressBlock framedPayload =
     (if length framedPayload < 2 then Inl (New ''truncated lz4 v1 payload'')
      else let blockLength = length framedPayload - 1
           in decompressLZ4Block lz4_UncompressBlock
                (framedPayload ! blockLength # take (blockLength - 1) (drop 1 framedPayload)))"

definition decodeLZOFrame :: "decompressor \<Rightarrow> bytes \<Rightarrow> bytes result" where
  "decodeLZOFrame lzo_Decompress framedPayload =
     (case framedPayload of
        [] \<Rightarrow> Inl (New ''missing compression marker'')
      | marker # rest \<Rightarrow>
          if marker = openVPNNoCompressByte then Inr rest
          else if marker = openVPNLZOCompressByte then decompressLZOBlock lzo_Decompress rest
          else Inl (New ''invalid lzo compression marker''))"

definition decodeLZ4V1Frame :: "decompressor \<Rightarrow> bytes \<Rightarrow> bytes result" where
  "decodeLZ4V1Frame lz4_UncompressBlock framedPayload =
     (case framedPayload of
        [] \<Rightarrow> Inl (New ''missing compression marker'')
      | marker # rest \<Rightarrow>
          if marker = openVPNNoCompressByteSwap then Inr (unswapV1FrameHead framedPayload)
          else if marker = openVPNLZ4CompressByte then decompressLZ4V1Frame lz4_UncompressBlock framedPayload
          else Inl (New ''invalid lz4 compression marker''))"

definition escapeV2StubCompression :: "bytes \<Rightarrow> bytes" where
  "escapeV2StubCompression payload =
     (if payload = [] \<or> hd payload \<noteq> openVPNCompressV2IndicatorByte then payload
      else openVPNCompressV2IndicatorByte # openVPNCompressV2SubTypeNone # payload)"

definition unwrapV2Compression :: "decompressor \<Rightarrow> compressionAlgorithm \<Rightarrow> bytes \<Rightarrow> bytes result" where
  "unwrapV2Compression lz4_UncompressBlock alg payload =
     (if payload = [] \<or> hd payload \<noteq> openVPNCompressV2IndicatorByte then Inr payload
      else if length payload < 2 then Inl (New ''truncated v2 compression header'')
      else if payload ! 1 = openVPNCompressV2SubTypeNone then Inr (drop 2 payload)
      else if payload ! 1 = openVPNCompressV2SubTypeLZ4 then
        (if alg \<noteq> compressionAlgorithmLZ4V2
         then Inl (New ''compressed lz4 v2 payload is not supported'')
         else decompressLZ4Block lz4_UncompressBlock (drop 2 payload))
      else Inl (New ''invalid v2 compression sub-type''))"

definition applyStubCompressionFrame :: "bytes \<Rightarrow> bool \<Rightarrow> bytes" where
  "applyStubCompressionFrame payload sw =
     (if \<not> sw then openVPNNoCompressByte # payload
      else case payload of
             [] \<Rightarrow> [openVPNNoCompressByteSwap]
           | head # rest \<Rightarrow> openVPNNoCompressByteSwap # rest @ [head])"

definition unframeStubCompression :: "bytes \<Rightarrow> bool \<Rightarrow> bytes result" where
  "unframeStubCompression framedPayload sw =
     (case framedPayload of
        [] \<Rightarrow> Inl (New ''missing compression marker'')
      | marker # rest \<Rightarrow>
          if \<not> sw then
            (if marker \<noteq> openVPNNoCompressByte then Inl (New ''invalid compression stub marker'')
             else Inr rest)
          else if marker \<noteq> openVPNNoCompressByteSwap then Inl (New ''invalid compression stub marker'')
          else Inr (unswapV1FrameHead framedPayload))"

lemma unswap_swap [simp]:
  "unswapV1FrameHead (applyStubCompressionFrame payload True) = payload"
  by (cases payload) (simp_all add: unswapV1FrameHead_def applyStubCompressionFrame_def Let_def nth_append)

lemma hd_applyStub_swap:
  "\<exists>rest. applyStubCompressionFrame payload True = openVPNNoCompressByteSwap # rest"
  by (cases payload) (simp_all add: applyStubCompressionFrame_def)

lemma unframe_applyStub [simp]: "unframeStubCompression (applyStubCompressionFrame payload sw) sw = Inr payload"
proof (cases sw)
  case True
  obtain rest where r: "applyStubCompressionFrame payload True = openVPNNoCompressByteSwap # rest"
    using hd_applyStub_swap by blast
  show ?thesis
    using True unswap_swap [of payload] by (simp add: unframeStubCompression_def r)
qed (simp add: unframeStubCompression_def applyStubCompressionFrame_def)

lemma decodeLZ4_applyStub [simp]:
  "decodeLZ4V1Frame lz4 (applyStubCompressionFrame payload True) = Inr payload"
proof -
  obtain rest where r: "applyStubCompressionFrame payload True = openVPNNoCompressByteSwap # rest"
    using hd_applyStub_swap by blast
  show ?thesis
    using unswap_swap [of payload] unfolding r by (simp add: decodeLZ4V1Frame_def)
qed

lemma unwrap_escape [simp]: "unwrapV2Compression lz4 alg (escapeV2StubCompression payload) = Inr payload"
  by (simp add: unwrapV2Compression_def escapeV2StubCompression_def)

end
