(* ===== verification/Lzo_Format.thy ===== *)
theory Lzo_Format
  imports Lzo
begin

text \<open>
  The LZO1X stream format, as its documentation describes it: a decoder, instruction by instruction.
  The compressor of \<open>lzo_compress.go\<close> is proved correct against it: every block it makes is a stream
  of the format that decodes to the input.
\<close>

section \<open>The stream format\<close>

text \<open>
  A length that does not fit its instruction continues in the following bytes: 255 for every zero
  byte, and the value of the first other byte.
\<close>

fun lzo_length :: "nat \<Rightarrow> bytes \<Rightarrow> (nat \<times> bytes) option" where
  "lzo_length acc [] = None"
| "lzo_length acc (b # s) = (if b = 0 then lzo_length (acc + 255) s else Some (acc + unat b, s))"

definition lzo_field :: "nat \<Rightarrow> nat \<Rightarrow> bytes \<Rightarrow> (nat \<times> bytes) option" where
  "lzo_field l limit s = (if l = 0 then lzo_length limit s else Some (l, s))"

text \<open>A match repeats decoded bytes one by one, so that it may overlap what it produces.\<close>

fun lzo_copy :: "nat \<Rightarrow> nat \<Rightarrow> bytes \<Rightarrow> bytes" where
  "lzo_copy dist 0 out = out"
| "lzo_copy dist (Suc n) out = lzo_copy dist n (out @ [out ! (length out - dist)])"

text \<open>
  The decoder is in one of five states: the number of literals that came with the last match, or 4
  after a run of literals.
\<close>

datatype lzo_progress = Lzo_End bytes | Lzo_More nat bytes bytes | Lzo_Bad

definition lzo_match :: "nat \<Rightarrow> nat \<Rightarrow> nat \<Rightarrow> bytes \<Rightarrow> bytes \<Rightarrow> lzo_progress" where
  "lzo_match len dist literals out s =
     (if 1 \<le> dist \<and> dist \<le> length out \<and> literals \<le> length s
      then Lzo_More literals (lzo_copy dist len out @ take literals s) (drop literals s) else Lzo_Bad)"

definition lzo_literals :: "nat \<Rightarrow> nat \<Rightarrow> bytes \<Rightarrow> bytes \<Rightarrow> lzo_progress" where
  "lzo_literals st n out s = (if n \<le> length s then Lzo_More st (out @ take n s) (drop n s) else Lzo_Bad)"

text \<open>The distance field of the longer matches: 14 bits of distance and 2 bits of literal count.\<close>

fun lzo_distance :: "bytes \<Rightarrow> (nat \<times> nat \<times> bytes) option" where
  "lzo_distance (a # b # s) = Some (unat a div 4 + 64 * unat b, unat a mod 4, s)"
| "lzo_distance _ = None"

definition lzo_step :: "nat \<Rightarrow> bytes \<Rightarrow> bytes \<Rightarrow> lzo_progress" where
  "lzo_step st out s =
     (case s of
        [] \<Rightarrow> Lzo_Bad
      | b # s \<Rightarrow>
          let v = unat b
          in if 64 \<le> v then
               (case s of [] \<Rightarrow> Lzo_Bad | h # s \<Rightarrow> lzo_match (v div 32 + 1) (8 * unat h + v div 4 mod 8 + 1) (v mod 4) out s)
             else if 32 \<le> v then
               (case lzo_field (v mod 32) 31 s of
                  None \<Rightarrow> Lzo_Bad
                | Some (l, s) \<Rightarrow>
                    (case lzo_distance s of
                       None \<Rightarrow> Lzo_Bad
                     | Some (d, literals, s) \<Rightarrow> lzo_match (l + 2) (d + 1) literals out s))
             else if 16 \<le> v then
               (case lzo_field (v mod 8) 7 s of
                  None \<Rightarrow> Lzo_Bad
                | Some (l, s) \<Rightarrow>
                    (case lzo_distance s of
                       None \<Rightarrow> Lzo_Bad
                     | Some (d, literals, s) \<Rightarrow>
                         let dist = 16384 * (1 + v div 8 mod 2) + d
                         in if dist = 16384 then (if s = [] then Lzo_End out else Lzo_Bad)
                            else lzo_match (l + 2) dist literals out s))
             else if st = 0 then
               (case lzo_field v 15 s of None \<Rightarrow> Lzo_Bad | Some (l, s) \<Rightarrow> lzo_literals 4 (l + 3) out s)
             else
               (case s of
                  [] \<Rightarrow> Lzo_Bad
                | h # s \<Rightarrow>
                    if st = 4 then lzo_match 3 (4 * unat h + v div 4 + 2049) (v mod 4) out s
                    else lzo_match 2 (4 * unat h + v div 4 + 1) (v mod 4) out s))"

lemma lzo_length_shrinks: "lzo_length acc s = Some (l, r) \<Longrightarrow> length r < length s"
  by (induction acc s rule: lzo_length.induct) (auto split: if_splits)

lemma lzo_field_shrinks: "lzo_field l limit s = Some (m, r) \<Longrightarrow> length r \<le> length s"
  by (auto simp: lzo_field_def dest!: lzo_length_shrinks split: if_splits)

lemma lzo_distance_shrinks: "lzo_distance s = Some (d, l, r) \<Longrightarrow> length r < length s"
  by (cases s rule: lzo_distance.cases) auto

lemma lzo_match_shrinks: "lzo_match len dist n out s = Lzo_More st' out' s' \<Longrightarrow> length s' \<le> length s"
  by (auto simp: lzo_match_def split: if_splits)

lemma lzo_literals_shrinks: "lzo_literals st n out s = Lzo_More st' out' s' \<Longrightarrow> length s' \<le> length s"
  by (auto simp: lzo_literals_def split: if_splits)

lemma lzo_step_shrinks:
  assumes "lzo_step st out s = Lzo_More st' out' s'"
  shows "length s' < length s"
  using assms
  by (auto simp: lzo_step_def Let_def split: list.splits if_splits option.splits
      dest!: lzo_field_shrinks lzo_distance_shrinks lzo_match_shrinks lzo_literals_shrinks)

function lzo_run :: "nat \<Rightarrow> bytes \<Rightarrow> bytes \<Rightarrow> bytes option" where
  "lzo_run st out s =
     (case lzo_step st out s of
        Lzo_End out \<Rightarrow> Some out
      | Lzo_Bad \<Rightarrow> None
      | Lzo_More st out s \<Rightarrow> lzo_run st out s)"
  by pat_completeness auto
termination by (relation "measure (length \<circ> snd \<circ> snd)") (auto dest: lzo_step_shrinks)

declare lzo_run.simps [simp del]

text \<open>
  The first byte of a stream may announce a run of literals. A first byte of 17 in a stream of five
  bytes or more announces another version of the format, which is not covered.
\<close>

definition lzo1x_decode :: "bytes \<Rightarrow> bytes option" where
  "lzo1x_decode s =
     (case s of
        [] \<Rightarrow> None
      | b # r \<Rightarrow>
          if 17 < unat b then
            (let n = unat b - 17
             in if n \<le> length r then lzo_run (if n < 4 then n else 4) (take n r) (drop n r) else None)
          else if b = 17 \<and> 5 \<le> length s then None
          else lzo_run 0 [] s)"

section \<open>Bytes of the compressor\<close>

lemma or_shift:
  fixes a b :: nat
  assumes "a < 2 ^ k"
  shows "push_bit k b OR a = b * 2 ^ k + a"
proof -
  have "push_bit k b + a = push_bit k b OR a"
  proof (rule disjunctive_add)
    fix n
    have "\<not> bit a n" if "k \<le> n"
      using that assms by (metis bit_take_bit_iff not_le take_bit_nat_eq_self)
    then show "\<not> bit (push_bit k b) n \<or> \<not> bit a n" by (auto simp: bit_simps)
  qed
  then show ?thesis by (simp add: push_bit_eq_mult)
qed

lemma and_low: "(a :: nat) AND (2 ^ k - 1) = a mod 2 ^ k"
  by (simp add: take_bit_eq_mod [symmetric] take_bit_eq_mask mask_eq_exp_minus_1)

lemma and_consts: "(a :: nat) AND 7 = a mod 8" "(a :: nat) AND 63 = a mod 64"
  using and_low [of a 3] and_low [of a 6] by simp_all

lemma and_exp: "(a :: nat) AND 2 ^ n = 2 ^ n * (a div 2 ^ n mod 2)"
proof -
  have "a AND 2 ^ n = push_bit n (drop_bit n a AND 1)" by (rule bit_eqI) (auto simp: bit_simps bit_iff_odd_drop_bit [of a n])
  then show ?thesis by (simp add: push_bit_eq_mult drop_bit_eq_div and_one_eq mult.commute)
qed

lemma and_bit14: "(a :: nat) < 32768 \<Longrightarrow> drop_bit 11 (a AND 0x4000) = 8 * (a div 16384)"
  using and_exp [of a 14] by (simp add: drop_bit_eq_div)

lemma unat_byte_of: "n < 256 \<Longrightarrow> unat (byte_of n) = n"
  by (simp add: unat_of_nat)

text \<open>The two bits of a match that count the literals after it.\<close>

lemma or_literals:
  assumes "unat b mod 4 = 0" "c \<le> 3"
  shows "unat (b OR byte_of c) = unat b + c"
proof -
  have "unat (b OR byte_of c) = unat b OR c" using assms(2) by (simp add: unsigned_or_eq unat_of_nat)
  also have "unat b = push_bit 2 (unat b div 4)" using assms(1) by (simp add: push_bit_eq_mult mod_eq_0_iff_dvd)
  also have "push_bit 2 (unat b div 4) OR c = unat b div 4 * 2 ^ 2 + c" using assms(2) by (intro or_shift) simp
  finally show ?thesis using assms(1) by (simp add: mod_eq_0_iff_dvd)
qed

lemma multiple_append: "appendLZOMultiple out n = out @ appendLZOMultiple [] n"
proof (induction n arbitrary: out rule: less_induct)
  case (less n)
  show ?case
  proof (cases "255 < n")
    case True
    then have "appendLZOMultiple x n = x @ [0] @ appendLZOMultiple [] (n - 255)" for x
      using less [of "n - 255" "x @ [0]"] by (simp add: appendLZOMultiple.simps [of x n])
    then show ?thesis by simp
  next
    case False
    then show ?thesis by (simp add: appendLZOMultiple.simps [of _ n])
  qed
qed

lemma length_of_multiple: "0 < n \<Longrightarrow> lzo_length acc (appendLZOMultiple [] n @ s) = Some (acc + n, s)"
proof (induction n arbitrary: acc rule: less_induct)
  case (less n)
  show ?case
  proof (cases "255 < n")
    case True
    then have "appendLZOMultiple [] n = 0 # appendLZOMultiple [] (n - 255)"
      using multiple_append [of "[0]" "n - 255"] by (simp add: appendLZOMultiple.simps [of "[]" n])
    then show ?thesis using less.IH [of "n - 255" "acc + 255"] True by simp
  next
    case False
    then have u: "unat (byte_of n) = n" by (intro unat_byte_of) simp
    then have "byte_of n \<noteq> 0" using less.prems by (metis unat_0 neq0_conv)
    then show ?thesis using False u by (simp add: appendLZOMultiple.simps [of "[]" n])
  qed
qed

section \<open>Instructions\<close>

text \<open>
  \<open>ready output d\<close>: the output so far decodes to \<open>d\<close>, and up to three literals can still be announced
  in its last instruction. \<open>after output d\<close>: it decodes to \<open>d\<close> and the next instruction may be a match.
\<close>

definition ready :: "bytes \<Rightarrow> bytes \<Rightarrow> bool" where
  "ready output d \<longleftrightarrow>
     output = [] \<and> d = [] \<or>
     (\<exists>pre a b. output = pre @ [a, b] \<and> unat a mod 4 = 0 \<and>
        (\<forall>c lit s. c \<le> 3 \<longrightarrow> length lit = c \<longrightarrow>
           lzo1x_decode (pre @ [a OR byte_of c, b] @ lit @ s) = lzo_run c (d @ lit) s))"

definition after :: "bytes \<Rightarrow> bytes \<Rightarrow> bool" where
  "after output d \<longleftrightarrow> (\<exists>st. \<forall>s. lzo1x_decode (output @ s) = lzo_run st d s)"

lemma ready_zero:
  assumes "ready output d" "output \<noteq> []"
  shows "lzo1x_decode (output @ s) = lzo_run 0 d s"
proof -
  obtain pre a b where r: "output = pre @ [a, b]"
    "\<forall>c lit s. c \<le> 3 \<longrightarrow> length lit = c \<longrightarrow> lzo1x_decode (pre @ [a OR byte_of c, b] @ lit @ s) = lzo_run c (d @ lit) s"
    using assms by (auto simp: ready_def)
  show ?thesis using r(2) [rule_format, of 0 "[]" s] r(1) by simp
qed

lemma ready_after: "ready output d \<Longrightarrow> output \<noteq> [] \<Longrightarrow> after output d"
  using ready_zero unfolding after_def by blast

lemma run_more: "lzo_step st out s = Lzo_More st' out' s' \<Longrightarrow> lzo_run st out s = lzo_run st' out' s'"
  by (simp add: lzo_run.simps [of st out s])

text \<open>A run of literals as an instruction of its own.\<close>

lemma literal_run_short:
  assumes "4 \<le> length lit" "length lit \<le> 18" "b = byte_of (length lit - 3)"
  shows "lzo_run 0 d (b # lit @ s) = lzo_run 4 (d @ lit) s"
proof (rule run_more)
  have u: "unat b = length lit - 3" "\<not> 16 \<le> length lit - 3" unfolding assms(3) using assms by (intro unat_byte_of, simp_all)
  then show "lzo_step 0 d (b # lit @ s) = Lzo_More 4 (d @ lit) s"
    using assms(1) by (simp add: lzo_step_def lzo_field_def lzo_literals_def Let_def)
qed

lemma literal_run_long:
  assumes "18 < length lit"
  shows "lzo_run 0 d (0 # appendLZOMultiple [] (length lit - 18) @ lit @ s) = lzo_run 4 (d @ lit) s"
proof (rule run_more)
  have "lzo_length 15 (appendLZOMultiple [] (length lit - 18) @ lit @ s) = Some (15 + (length lit - 18), lit @ s)"
    using assms by (intro length_of_multiple) simp
  then show "lzo_step 0 d (0 # appendLZOMultiple [] (length lit - 18) @ lit @ s) = Lzo_More 4 (d @ lit) s"
    using assms by (simp add: lzo_step_def lzo_field_def lzo_literals_def Let_def)
qed

lemma literal_appended:
  assumes "ready output d" "lit \<noteq> []"
  shows "after (appendLZOLiteral output lit) (d @ lit)"
proof (cases "output = []")
  case empty: True
  then have d: "d = []" using assms(1) by (auto simp: ready_def)
  show ?thesis
  proof (cases "length lit \<le> 238")
    case True
    have u: "unat (byte_of (17 + length lit)) = 17 + length lit" using True by (intro unat_byte_of) simp
    have pos: "17 < 17 + length lit" using assms(2) by simp
    have "lzo1x_decode (byte_of (17 + length lit) # lit @ s) = lzo_run (if length lit < 4 then length lit else 4) lit s" for s
      unfolding lzo1x_decode_def list.case u if_P [OF pos] Let_def by simp
    then show ?thesis using True assms(2) empty d by (auto simp: after_def appendLZOLiteral_def simp del: of_nat_add)
  next
    case False
    then have "18 < length lit" by simp
    from literal_run_long [OF this, of "[]"]
    have "lzo1x_decode (0 # appendLZOMultiple [] (length lit - 18) @ lit @ s) = lzo_run 4 lit s" for s
      by (simp add: lzo1x_decode_def)
    then show ?thesis using False assms(2) empty d multiple_append [of "[0]" "length lit - 18"]
      by (auto simp: after_def appendLZOLiteral_def)
  qed
next
  case False
  consider (bits) "length lit \<le> 3" | (short) "4 \<le> length lit" "length lit \<le> 18" | (long) "18 < length lit" by linarith
  then show ?thesis
  proof cases
    case bits
    obtain pre a b where r: "output = pre @ [a, b]"
      "\<forall>c lit s. c \<le> 3 \<longrightarrow> length lit = c \<longrightarrow> lzo1x_decode (pre @ [a OR byte_of c, b] @ lit @ s) = lzo_run c (d @ lit) s"
      using assms(1) False by (auto simp: ready_def)
    have "appendLZOLiteral output lit = pre @ [a OR byte_of (length lit), b] @ lit"
      using bits assms(2) False by (simp add: appendLZOLiteral_def r(1) list_update_append nth_append)
    then show ?thesis using r(2) bits by (auto simp: after_def)
  next
    case short
    then have "appendLZOLiteral output lit = output @ byte_of (length lit - 3) # lit"
      using False assms(2) unfolding appendLZOLiteral_def Let_def by (simp del: of_nat_diff)
    then show ?thesis
      using ready_zero [OF assms(1) False] literal_run_short [OF short refl, of d] by (auto simp: after_def)
  next
    case long
    then have "appendLZOLiteral output lit = output @ 0 # appendLZOMultiple [] (length lit - 18) @ lit"
      using False assms(2) multiple_append [of "output @ [0]" "length lit - 18"] unfolding appendLZOLiteral_def Let_def by simp
    then show ?thesis
      using ready_zero [OF assms(1) False] literal_run_long [OF long, of d] by (auto simp: after_def)
  qed
qed

text \<open>A match keeps the two bits free for the literals after it.\<close>

lemma match_appended:
  assumes "after output d" "unat a mod 4 = 0"
    and "\<And>st c lit s. c \<le> 3 \<Longrightarrow> length lit = c \<Longrightarrow> lzo_step st d (x @ [a OR byte_of c, b] @ lit @ s) = Lzo_More c (d' @ lit) s"
  shows "ready (output @ x @ [a, b]) d'"
proof -
  obtain st where st: "lzo1x_decode (output @ s) = lzo_run st d s" for s using assms(1) by (auto simp: after_def)
  have "lzo1x_decode ((output @ x) @ [a OR byte_of c, b] @ lit @ s) = lzo_run c (d' @ lit) s" if "c \<le> 3" "length lit = c" for c lit s
    using st [of "x @ [a OR byte_of c, b] @ lit @ s"] run_more [OF assms(3) [OF that]] by simp
  then show ?thesis unfolding ready_def using assms(2) by (intro disjI2 exI [of _ "output @ x"] exI [of _ a] exI [of _ b]) simp
qed

lemma lzo_match_literals:
  "1 \<le> dist \<Longrightarrow> dist \<le> length d \<Longrightarrow> length lit = c \<Longrightarrow> lzo_match len dist c d (lit @ s) = Lzo_More c (lzo_copy dist len d @ lit) s"
  by (auto simp: lzo_match_def)

lemma distance_bytes:
  assumes "x < 32768" "a = byte_of (push_bit 2 (x AND 63))" "b = byte_of (drop_bit 6 x)"
  shows "unat a mod 4 = 0" "c \<le> 3 \<Longrightarrow> lzo_distance ((a OR byte_of c) # b # s) = Some (x mod 16384, c, s)"
proof -
  have "push_bit 2 (x AND 63) = 4 * (x mod 64)" by (simp add: and_consts push_bit_eq_mult)
  then have a: "unat a = 4 * (x mod 64)" unfolding assms(2) by (simp only:) (rule unat_byte_of, simp)
  then show "unat a mod 4 = 0" by simp
  have b: "unat b = x div 64 mod 256" unfolding assms(3) by (simp add: drop_bit_eq_div unat_of_nat)
  have "x mod 64 + 64 * (x div 64 mod 256) = x mod 16384"
    using mod_mult2_eq [of x 64 256] by (simp add: add.commute)
  then show "lzo_distance ((a OR byte_of c) # b # s) = Some (x mod 16384, c, s)" if "c \<le> 3"
    using or_literals [of a c] that a b by simp
qed

lemma m2_fields:
  assumes "r < 8" "c \<le> (3 :: nat)"
  shows "(k * 32 + r * 4 + c) div 32 = k" "(k * 32 + r * 4 + c) div 4 mod 8 = r" "(k * 32 + r * 4 + c) mod 4 = c"
proof -
  have e: "k * 32 + r * 4 + c = c + 4 * (r + 8 * k)" by simp
  show "(k * 32 + r * 4 + c) mod 4 = c" unfolding e mod_mult_self2 using assms(2) by simp
  have "(k * 32 + r * 4 + c) div 4 = r + 8 * k" unfolding e using assms(2) by simp
  then show "(k * 32 + r * 4 + c) div 4 mod 8 = r" using assms(1) by simp
  show "(k * 32 + r * 4 + c) div 32 = k" using assms by simp
qed

lemma match_m2:
  assumes "3 \<le> len" "len \<le> 8" "1 \<le> off" "off \<le> 2048" "off \<le> length d" "after output d"
  shows "ready (output @ [byte_of (push_bit 5 (len - 1) OR push_bit 2 ((off - 1) AND 7)), byte_of (drop_bit 3 (off - 1))])
    (lzo_copy off len d)"
proof -
  define a b where "a = byte_of (push_bit 5 (len - 1) OR push_bit 2 ((off - 1) AND 7))" and "b = byte_of (drop_bit 3 (off - 1))"
  have "push_bit 2 ((off - 1) AND 7) < 2 ^ 5" by (simp add: and_consts push_bit_eq_mult)
  from or_shift [OF this, of "len - 1"]
  have v: "push_bit 5 (len - 1) OR push_bit 2 ((off - 1) AND 7) = (len - 1) * 32 + (off - 1) mod 8 * 4"
    by (simp add: and_consts push_bit_eq_mult)
  have m8: "(off - 1) mod 8 < 8" by simp
  have ua: "unat a = (len - 1) * 32 + (off - 1) mod 8 * 4" unfolding a_def v using assms(2) m8 by (intro unat_byte_of) linarith
  have ub: "unat b = (off - 1) div 8" unfolding b_def using assms(4) by (simp add: drop_bit_eq_div unat_of_nat)
  have a4: "unat a mod 4 = 0" unfolding ua by presburger
  have "lzo_step st d ([] @ [a OR byte_of c, b] @ lit @ s) = Lzo_More c (lzo_copy off len d @ lit) s"
    if c: "c \<le> 3" "length lit = c" for st c lit s
  proof -
    have u: "unat (a OR byte_of c) = (len - 1) * 32 + (off - 1) mod 8 * 4 + c" using or_literals [OF a4 c(1)] ua by simp
    note f = m2_fields [OF m8 c(1), of "len - 1"]
    have "len - 1 + 1 = len" "64 \<le> (len - 1) * 32 + (off - 1) mod 8 * 4 + c" using assms(1) by simp_all
    moreover have "8 * ((off - 1) div 8) + (off - 1) mod 8 + 1 = off" using assms(3) by simp
    ultimately show ?thesis
      using lzo_match_literals [OF assms(3,5) c(2), of len s] unfolding lzo_step_def Let_def append.simps list.case u ub f by simp
  qed
  from match_appended [OF assms(6) a4 this] show ?thesis by (simp add: a_def b_def)
qed

text \<open>The bytes of a longer match before its distance.\<close>

definition m3_bytes :: "nat \<Rightarrow> bytes" where
  "m3_bytes len = (if len \<le> 33 then [byte_of (32 OR (len - 2))] else byte_of 32 # appendLZOMultiple [] (len - 33))"

definition m4_bytes :: "nat \<Rightarrow> nat \<Rightarrow> bytes" where
  "m4_bytes x len =
     (if len \<le> 9 then [byte_of (16 OR drop_bit 11 (x AND 0x4000) OR (len - 2))]
      else byte_of (16 OR drop_bit 11 (x AND 0x4000)) # appendLZOMultiple [] (len - 9))"

lemma step_m3:
  assumes "3 \<le> len" "lzo_distance s = Some (dd, c, r)"
  shows "lzo_step st d (m3_bytes len @ s) = lzo_match len (dd + 1) c d r"
proof (cases "len \<le> 33")
  case True
  obtain k where k: "len = k + 2" "0 < k" "k < 32" using True assms(1) by (intro that [of "len - 2"]) auto
  define b where "b = byte_of (32 OR (len - 2))"
  have "32 OR (len - 2) = 32 + k" using or_shift [of k 5 1] k by simp
  then have u: "unat b = 32 + k" unfolding b_def using unat_byte_of [of "32 + k"] k(3) by (simp only:)
  have "m3_bytes len @ s = b # s" using True by (simp add: m3_bytes_def b_def)
  then show ?thesis unfolding lzo_step_def lzo_field_def Let_def using k assms(2) by (simp add: u)
next
  case False
  then have "lzo_length 31 (appendLZOMultiple [] (len - 33) @ s) = Some (31 + (len - 33), s)" by (intro length_of_multiple) simp
  moreover have "31 + (len - 33) + 2 = len" using False by simp
  ultimately show ?thesis using False assms(2) by (simp add: m3_bytes_def lzo_step_def lzo_field_def Let_def)
qed

lemma step_m4:
  assumes "3 \<le> len" "1 \<le> x" "x < 32768" "lzo_distance s = Some (x mod 16384, c, r)"
  shows "lzo_step st d (m4_bytes x len @ s) = lzo_match len (16384 + x) c d r"
proof -
  define h where "h = x div 16384"
  have h: "h < 2" "x = 16384 * h + x mod 16384" using assms(3) by (auto simp: h_def less_mult_imp_div_less)
  have hx: "drop_bit 11 (x AND 0x4000) = 8 * h" using and_bit14 [OF assms(3)] by (simp add: h_def)
  have or8: "16 OR (8 * h OR k) = 16 + 8 * h + k" if "k < 8" for k
  proof -
    have "8 * h OR k = 8 * h + k" using or_shift [of k 3 h] that by (simp add: push_bit_eq_mult mult.commute)
    moreover have "16 OR (8 * h + k) = 16 + (8 * h + k)" using or_shift [of "8 * h + k" 4 1] that h(1) by simp
    ultimately show ?thesis by simp
  qed
  have far: "16384 * (1 + h) + x mod 16384 = 16384 + x" "16384 + x \<noteq> 16384" using h(2) assms(2) by simp_all
  have field: "(16 + 8 * h + k) div 8 mod 2 = h" "(16 + 8 * h + k) mod 8 = k" if "k < 8" for k
  proof -
    have "16 + 8 * h + k = k + 8 * (2 + h)" by simp
    then show "(16 + 8 * h + k) div 8 mod 2 = h" "(16 + 8 * h + k) mod 8 = k" using that h(1) by (simp_all only: div_mult_self2 mod_mult_self2) simp_all
  qed
  show ?thesis
  proof (cases "len \<le> 9")
    case True
    obtain k where k: "len = k + 2" "0 < k" "k < 8" using True assms(1) by (intro that [of "len - 2"]) auto
    define b where "b = byte_of (16 OR drop_bit 11 (x AND 0x4000) OR (len - 2))"
    have "16 OR drop_bit 11 (x AND 0x4000) OR (len - 2) = 16 + 8 * h + k" unfolding hx k(1) using or8 [OF k(3)] by simp
    then have u: "unat b = 16 + 8 * h + k" unfolding b_def using unat_byte_of [of "16 + 8 * h + k"] k(3) h(1) by (simp only:)
    have range: "\<not> 64 \<le> 16 + 8 * h + k" "\<not> 32 \<le> 16 + 8 * h + k" "16 \<le> 16 + 8 * h + k" using k(3) h(1) by simp_all
    have "m4_bytes x len @ s = b # s" using True by (simp add: m4_bytes_def b_def)
    moreover have "(k = 0) = False" using k(2) by simp
    ultimately show ?thesis
      unfolding lzo_step_def lzo_field_def Let_def k(1)
      by (simp only: list.case u range field [OF k(3)] assms(4) option.case prod.case far if_True if_False)
  next
    case False
    define b where "b = byte_of (16 OR drop_bit 11 (x AND 0x4000))"
    have "16 OR drop_bit 11 (x AND 0x4000) = 16 + 8 * h + 0" unfolding hx using or8 [of 0] by simp
    then have u: "unat b = 16 + 8 * h + 0" unfolding b_def using unat_byte_of [of "16 + 8 * h + 0"] h(1) by (simp only:)
    have range: "\<not> 64 \<le> 16 + 8 * h + 0" "\<not> 32 \<le> 16 + 8 * h + 0" "16 \<le> 16 + 8 * h + 0" using h(1) by simp_all
    have l: "lzo_length 7 (appendLZOMultiple [] (len - 9) @ s) = Some (7 + (len - 9), s)" using False by (intro length_of_multiple) simp
    have l2: "7 + (len - 9) + 2 = len" using False by simp
    have "m4_bytes x len @ s = b # appendLZOMultiple [] (len - 9) @ s" using False by (simp add: m4_bytes_def b_def)
    then show ?thesis
      unfolding lzo_step_def lzo_field_def Let_def
      by (simp only: list.case u range field [of 0] l l2 assms(4) option.case prod.case far if_True if_False zero_less_numeral refl)
  qed
qed

lemma match_m3:
  assumes "3 \<le> len" "1 \<le> off" "off \<le> 16384" "off \<le> length d" "after output d"
  shows "ready (output @ m3_bytes len @ [byte_of (push_bit 2 ((off - 1) AND 63)), byte_of (drop_bit 6 (off - 1))]) (lzo_copy off len d)"
proof -
  have x: "off - 1 < 32768" "(off - 1) mod 16384 + 1 = off" using assms(2,3) by simp_all
  note bytes = distance_bytes [OF x(1) refl refl]
  show ?thesis
    by (rule match_appended [OF assms(5) bytes(1)])
       (use step_m3 [OF assms(1) bytes(2)] lzo_match_literals [OF assms(2,4)] x(2) in \<open>simp\<close>)
qed

lemma match_m4:
  assumes "3 \<le> len" "16384 < off" "off \<le> 49151" "off \<le> length d" "after output d"
  shows "ready (output @ m4_bytes (off - 0x4000) len @
    [byte_of (push_bit 2 ((off - 0x4000) AND 63)), byte_of (drop_bit 6 (off - 0x4000))]) (lzo_copy off len d)"
proof -
  have x: "off - 0x4000 < 32768" "1 \<le> off - 0x4000" "16384 + (off - 0x4000) = off" "1 \<le> off" using assms(2,3) by simp_all
  note bytes = distance_bytes [OF x(1) refl refl]
  show ?thesis
    by (rule match_appended [OF assms(5) bytes(1)])
       (use step_m4 [OF assms(1) x(2,1) bytes(2)] lzo_match_literals [OF x(4) assms(4)] x(3) in \<open>simp\<close>)
qed

section \<open>Matches in the input\<close>

lemma short_match_bytes:
  "off \<le> 0x0800 \<Longrightarrow> short_match out len off =
     out @ [byte_of (push_bit 5 (len - 1) OR push_bit 2 ((off - 1) AND 7)), byte_of (drop_bit 3 (off - 1))]"
  "0x0800 < off \<Longrightarrow> off \<le> 0x4000 \<Longrightarrow> len \<le> 8 \<Longrightarrow> short_match out len off =
     out @ m3_bytes len @ [byte_of (push_bit 2 ((off - 1) AND 63)), byte_of (drop_bit 6 (off - 1))]"
  "0x4000 < off \<Longrightarrow> len \<le> 8 \<Longrightarrow> short_match out len off =
     out @ m4_bytes (off - 0x4000) len @ [byte_of (push_bit 2 ((off - 0x4000) AND 63)), byte_of (drop_bit 6 (off - 0x4000))]"
  by (simp_all add: short_match_def m3_bytes_def m4_bytes_def lzo_consts Let_def)

lemma long_match_bytes:
  "off \<le> 0x4000 \<Longrightarrow> long_match out len off =
     out @ m3_bytes len @ [byte_of (push_bit 2 ((off - 1) AND 63)), byte_of (drop_bit 6 (off - 1))]"
  "0x4000 < off \<Longrightarrow> long_match out len off =
     out @ m4_bytes (off - 0x4000) len @ [byte_of (push_bit 2 ((off - 0x4000) AND 63)), byte_of (drop_bit 6 (off - 0x4000))]"
  by (simp_all add: long_match_def m3_bytes_def m4_bytes_def lzo_consts Let_def multiple_append [of "out @ x" for x])

lemma short_match_ready:
  assumes "3 \<le> len" "len \<le> 8" "1 \<le> off" "off \<le> lzoMaxOffsetM4" "off \<le> length d" "after out d"
  shows "ready (short_match out len off) (lzo_copy off len d)"
proof -
  have "off \<le> 49151" using assms(4) by (simp add: lzo_consts)
  then consider "off \<le> 0x0800" | "0x0800 < off" "off \<le> 0x4000" | "0x4000 < off" by linarith
  then show ?thesis
    by cases (use assms match_m2 match_m3 match_m4 \<open>off \<le> 49151\<close> in \<open>simp_all only: short_match_bytes\<close>)
qed

lemma long_match_ready:
  assumes "9 \<le> len" "1 \<le> off" "off \<le> lzoMaxOffsetM4" "off \<le> length d" "after out d"
  shows "ready (long_match out len off) (lzo_copy off len d)"
proof (cases "off \<le> 0x4000")
  case True
  have "3 \<le> len" using assms(1) by simp
  from match_m3 [OF this assms(2) True assms(4,5)] show ?thesis unfolding long_match_bytes(1) [OF True] .
next
  case False
  have f: "3 \<le> len" "0x4000 < off" "off \<le> 49151" using assms(1,3) False by (simp_all add: lzo_consts)
  from match_m4 [OF f assms(4,5)] show ?thesis unfolding long_match_bytes(2) [OF f(2)] .
qed

lemma copy_of_match:
  assumes "m < p" "\<forall>j < len. input ! (m + j) = input ! (p + j)" "p + len \<le> length input"
  shows "lzo_copy (p - m) len (take p input) = take (p + len) input"
  using assms
proof (induction len arbitrary: m p)
  case (Suc len)
  have "take p input ! (length (take p input) - (p - m)) = input ! m" using Suc.prems(1,3) by simp
  also have "\<dots> = input ! p" using Suc.prems(2) by force
  finally have "take p input @ [take p input ! (length (take p input) - (p - m))] = take (Suc p) input"
    using Suc.prems(3) by (simp add: take_Suc_conv_app_nth)
  moreover have "lzo_copy (Suc p - Suc m) len (take (Suc p) input) = take (Suc p + len) input"
  proof (rule Suc.IH)
    show "\<forall>j < len. input ! (Suc m + j) = input ! (Suc p + j)" using Suc.prems(2) by (metis Suc_less_eq add_Suc add_Suc_right)
  qed (use Suc.prems in simp_all)
  ultimately show ?case by simp
qed simp

lemma match_loop_spec:
  assumes "match_loop input m l p = (l', q)" "l \<le> 9"
  shows "l \<le> l'" "l' \<le> 9" "\<forall>j. l \<le> j \<and> j < l' \<longrightarrow> input ! (m + j) = input ! (p + (j - l))"
    "q = p + (l' - l) + (if l' < 9 then 1 else 0)"
  using assms
proof (induction input m l p rule: match_loop.induct)
  case (1 input m l p)
  {
    case 1
    then show ?case using "1.IH"(1) by (auto simp: match_loop.simps [of input m l p] split: if_splits)
  next
    case 2
    then show ?case using "1.IH"(2) by (auto simp: match_loop.simps [of input m l p] split: if_splits)
  next
    case 3
    show ?case
    proof (intro allI impI)
      fix j assume j: "l \<le> j \<and> j < l'"
      then have c: "\<not> 9 \<le> l" "\<not> input ! (m + l) \<noteq> input ! p" and r: "match_loop input m (l + 1) (p + 1) = (l', q)"
        using 3 by (auto simp: match_loop.simps [of input m l p] split: if_splits)
      show "input ! (m + j) = input ! (p + (j - l))"
      proof (cases "j = l")
        case False
        then have "input ! (m + j) = input ! (p + 1 + (j - (l + 1)))" using "1.IH"(3) [OF c r] c j by simp
        moreover have "p + 1 + (j - (l + 1)) = p + (j - l)" using False j by linarith
        ultimately show ?thesis by (simp only:)
      qed (use c in simp)
    qed
  next
    case 4
    show ?case
    proof (cases "9 \<le> l \<or> input ! (m + l) \<noteq> input ! p")
      case True
      then show ?thesis using 4 by (auto simp: match_loop.simps [of input m l p] split: if_splits)
    next
      case False
      then have c: "\<not> 9 \<le> l" "\<not> input ! (m + l) \<noteq> input ! p" and r: "match_loop input m (l + 1) (p + 1) = (l', q)"
        using 4 by (auto simp: match_loop.simps [of input m l p])
      have "l + 1 \<le> l'" using "1.IH"(1) [OF c r] c by simp
      then show ?thesis using "1.IH"(4) [OF c r] c by auto
    qed
  }
qed

lemma extend_match_le: "p \<le> length input \<Longrightarrow> extend_match input m p \<le> length input"
proof (induction input m p rule: extend_match.induct)
  case (1 input m p)
  then show ?case by (auto simp: extend_match.simps [of input m p])
qed

lemma extend_match_eq: "j < extend_match input m p - p \<Longrightarrow> input ! (m + j) = input ! (p + j)"
proof (induction input m p arbitrary: j rule: extend_match.induct)
  case (1 input m p)
  show ?case
  proof (cases "p < length input \<and> input ! m = input ! p")
    case True
    then have e: "extend_match input m p = extend_match input (m + 1) (p + 1)" by (simp add: extend_match.simps [of input m p])
    show ?thesis
    proof (cases j)
      case (Suc i)
      then show ?thesis using "1.IH" [OF True, of i] "1.prems" e by simp
    qed (use True in simp)
  next
    case False
    then have "extend_match input m p = p" by (auto simp: extend_match.simps [of input m p])
    then show ?thesis using "1.prems" by simp
  qed
qed

section \<open>The compressor\<close>

text \<open>
  One attempt: when it matches, the output decodes to the input up to the new position, and the
  dictionary still holds earlier positions only.
\<close>

definition earlier :: "nat list \<Rightarrow> nat \<Rightarrow> bool" where
  "earlier dictionary p \<longleftrightarrow> length dictionary = 2 ^ 14 \<and> (\<forall>x \<in> set dictionary. x \<le> p)"

lemma earlier_update: "earlier dict p \<Longrightarrow> p < q \<Longrightarrow> earlier (dict[i := p + 1]) q"
  by (force simp: earlier_def dest!: set_update_subset_insert [THEN subsetD])

lemma candidate_spec:
  assumes "findLZOCandidate dict input p i = Some (m, off)" "earlier dict p" "i < 2 ^ 14"
  shows "m < p" "off = p - m" "1 \<le> off" "off \<le> lzoMaxOffsetM4"
proof -
  have "dict ! i \<in> set dict" using assms(2,3) by (simp add: earlier_def)
  then have d: "dict ! i \<le> p" using assms(2) by (simp add: earlier_def)
  then show "m < p" "off = p - m" "off \<le> lzoMaxOffsetM4"
    using assms(1) by (auto simp: findLZOCandidate_def Let_def split: if_splits)
  then show "1 \<le> off" by simp
qed

lemma literal_before_match:
  assumes "ready out (take ls input)" "ls \<le> p" "p \<le> length input" "4 \<le> p"
  shows "after (if p \<noteq> ls then appendLZOLiteral out (take (p - ls) (drop ls input)) else out) (take p input)"
proof (cases "p = ls")
  case True
  then have "out \<noteq> []" using assms by (auto simp: ready_def)
  then show ?thesis using True assms(1) ready_after by simp
next
  case False
  then have l: "take (p - ls) (drop ls input) \<noteq> []" using assms(2,3) by simp
  have "take ls input @ take (p - ls) (drop ls input) = take p input" using assms(2) by (metis le_add_diff_inverse take_add)
  then show ?thesis using literal_appended [OF assms(1) l] False by simp
qed

lemma try_match_ready:
  assumes "try_match input dict out ls p i = Some (dict', out', p')"
    and "ready out (take ls input)" "ls \<le> p" "p + 9 \<le> length input" "4 \<le> p" "earlier dict p" "i < 2 ^ 14"
  shows "p' \<le> length input" "p < p'" "ready out' (take p' input)" "earlier dict' p'"
proof -
  obtain m off where f: "findLZOCandidate dict input p i = Some (m, off)"
    using assms(1) by (auto simp: try_match_def split: option.splits)
  note c = candidate_spec [OF f assms(6,7)]
  obtain l q where l: "match_loop input m 3 (p + 3) = (l, q)" by fastforce
  have l': "(3 :: nat) \<le> 9" by simp
  note loop = match_loop_spec [OF l l']
  define o1 where "o1 = (if p \<noteq> ls then appendLZOLiteral out (take (p - ls) (drop ls input)) else out)"
  have o1: "after o1 (take p input)" unfolding o1_def using assms(2-5) by (intro literal_before_match) simp_all
  have eq: "input ! m = input ! p" "input ! (m + 1) = input ! (p + 1)" "input ! (m + 2) = input ! (p + 2)"
    and r: "(dict', out', p') = (if l < 9 then (dict[i := p + 1], short_match o1 (q - 1 - p) off, q - 1)
       else let e = extend_match input (m + lzoMaxLengthM2 + 1) q in (dict[i := p + 1], long_match o1 (e - p) off, e))"
    using assms(1) by (auto simp: try_match_def f l o1_def Let_def split: if_splits)
  have three: "input ! (m + j) = input ! (p + j)" if "j < l" for j
  proof -
    consider "j = 0" | "j = 1" | "j = 2" | "3 \<le> j" by linarith
    then show ?thesis
    proof cases
      case 4
      then have "p + 3 + (j - 3) = p + j" by simp
      then show ?thesis using loop(3) that 4 by metis
    qed (use eq in simp_all)
  qed
  have off: "off \<le> length (take p input)" using c assms(4) by simp
  have "p' \<le> length input \<and> p < p' \<and> ready out' (take p' input) \<and> earlier dict' p'"
  proof (cases "l < 9")
    case True
    then have q: "q = p + l + 1" using loop(1,4) by simp
    have "lzo_copy off l (take p input) = take (p + l) input"
      unfolding c(2) using three c(1) assms(4) True by (intro copy_of_match) simp_all
    then have "ready (short_match o1 l off) (take (p + l) input)"
      using short_match_ready [of l off "take p input" o1] loop(1) True c(3,4) off o1 by simp
    then show ?thesis
      using r True q loop(1) assms(4) earlier_update [OF assms(6), of "p + l" i] by simp
  next
    case False
    then have q: "l = 9" "q = p + 9" using loop(2,4) by simp_all
    define e where "e = extend_match input (m + 9) (p + 9)"
    have e: "p + 9 \<le> e" "e \<le> length input" using extend_match_ge extend_match_le [OF assms(4)] by (simp_all add: e_def)
    have "input ! (m + j) = input ! (p + j)" if "j < e - p" for j
    proof (cases "j < 9")
      case False
      then have "j - 9 < e - (p + 9)" using that by simp
      from extend_match_eq [OF this [unfolded e_def]] show ?thesis using False by simp
    qed (use three q(1) in simp)
    then have "lzo_copy off (e - p) (take p input) = take (p + (e - p)) input"
      unfolding c(2) using c(1) e by (intro copy_of_match) simp_all
    then have "ready (long_match o1 (e - p) off) (take e input)"
      using long_match_ready [of "e - p" off "take p input" o1] c(3,4) off o1 e by simp
    moreover have "(dict', out', p') = (dict[i := p + 1], long_match o1 (e - p) off, e)"
      using r False q by (simp add: e_def lzo_consts Let_def add.commute)
    ultimately show ?thesis using e earlier_update [OF assms(6), of e i] by simp
  qed
  then show "p' \<le> length input" "p < p'" "ready out' (take p' input)" "earlier dict' p'" by blast+
qed

lemma index_bounds: "lzo_key input p < 2 ^ 14" "(i AND (lzoDictMask AND 0x7ff)) XOR (lzoDictHigh OR 0x1f) < 2 ^ 14"
proof -
  have "x AND 16383 < 16384" for x :: nat using and_low [of x 14] by simp
  then show "lzo_key input p < 2 ^ 14" by (simp add: lzo_key_def Let_def lzo_consts)
  have "x AND 2047 < 16384" for x :: nat using and_low [of x 11] by (simp add: less_trans [of _ 2048])
  then have "take_bit 14 (i AND (lzoDictMask AND 0x7ff)) = i AND (lzoDictMask AND 0x7ff)"
    by (simp add: lzo_consts take_bit_nat_eq_self_iff del: take_bit_and)
  moreover have "take_bit 14 (lzoDictHigh OR 0x1f) = lzoDictHigh OR 0x1f" by (simp add: lzo_consts)
  ultimately have "take_bit 14 ((i AND (lzoDictMask AND 0x7ff)) XOR (lzoDictHigh OR 0x1f)) =
      (i AND (lzoDictMask AND 0x7ff)) XOR (lzoDictHigh OR 0x1f)" by (simp only: take_bit_xor)
  then show "(i AND (lzoDictMask AND 0x7ff)) XOR (lzoDictHigh OR 0x1f) < 2 ^ 14"
    by (simp only: take_bit_nat_eq_self_iff)
qed

text \<open>
  The loop: what it has written decodes to the input up to the literal still pending, whose
  length it returns.
\<close>

lemma core_loop_ready:
  assumes "core_loop input (length input - 13) dict ls p out = (out', tail)"
    and "ready out (take ls input)" "ls \<le> p" "p + 9 < length input" "4 \<le> p" "earlier dict p"
  shows "\<exists>ls' \<le> length input. tail = length input - ls' \<and> ready out' (take ls' input)"
  using assms
proof (induction input "length input - 13" dict ls p out rule: core_loop.induct)
  case (1 input dict ls p out)
  define i0 i1 where "i0 = lzo_key input p" and "i1 = (i0 AND (lzoDictMask AND 0x7ff)) XOR (lzoDictHigh OR 0x1f)"
  have i: "i0 < 2 ^ 14" "i1 < 2 ^ 14" using index_bounds by (simp_all add: i0_def i1_def)
  note unfold = core_loop.simps [of input "length input - 13" dict ls p out, unfolded Let_def, folded i0_def, folded i1_def]
  show ?case
  proof (cases "case try_match input dict out ls p i0 of Some r \<Rightarrow> Some r | None \<Rightarrow> try_match input dict out ls p i1")
    case None
    define p2 where "p2 = p + (1 + drop_bit 5 (p - ls))"
    have e: "earlier (dict[i1 := p + 1]) p2" using "1.prems"(6) by (intro earlier_update) (simp_all add: p2_def)
    show ?thesis
    proof (cases "length input - 13 \<le> p2")
      case True
      then have "out' = out" "tail = length input - ls" using "1.prems"(1) None unfold by (simp_all add: p2_def)
      then show ?thesis using "1.prems"(2-4) by (intro exI [of _ ls]) simp
    next
      case False
      then have "core_loop input (length input - 13) (dict[i1 := p + 1]) ls p2 out = (out', tail)"
        using "1.prems"(1) None unfold by (simp add: p2_def)
      then show ?thesis
        using "1.hyps"(1) [OF i0_def i1_def None refl refl, folded p2_def] False "1.prems" e
        by (simp add: p2_def)
    qed
  next
    case (Some r)
    obtain dict2 out2 p2 where r: "r = (dict2, out2, p2)" by (cases r)
    then obtain j where j: "try_match input dict out ls p j = Some (dict2, out2, p2)" "j < 2 ^ 14"
      using Some i by (auto split: option.splits)
    have "p + 9 \<le> length input" using "1.prems"(4) by simp
    note m = try_match_ready [OF j(1) "1.prems"(2,3) this "1.prems"(5,6) j(2)]
    show ?thesis
    proof (cases "length input - 13 \<le> p2")
      case True
      then have "out' = out2" "tail = length input - p2" using "1.prems"(1) Some r unfold by simp_all
      then show ?thesis using m by blast
    next
      case False
      then have "core_loop input (length input - 13) dict2 p2 p2 out2 = (out', tail)"
        using "1.prems"(1) Some r unfold by simp
      then show ?thesis
        using "1.hyps"(2) [OF i0_def i1_def Some r [symmetric] refl] False "1.prems"(5) m by simp
    qed
  qed
qed

text \<open>The end marker stops the decoder.\<close>

lemma end_marker: "lzo_run st d [17, 0, 0] = Some d"
proof -
  have "lzo_step st d [17, 0, 0] = Lzo_End d" by (simp add: lzo_step_def lzo_field_def)
  then show ?thesis by (simp add: lzo_run.simps [of st d])
qed

text \<open>
  Every block the compressor writes is a block of the LZO1X format that stands for its input.
\<close>

lemma compressLZOBlock_correct: "lzo1x_decode (compressLZOBlock input) = Some input"
proof -
  define r where "r = (if lzoMaxLengthM2 + 5 < length input then compressLZOBlockCore input else ([], length input))"
  obtain out tail where r': "r = (out, tail)" by fastforce
  have "\<exists>ls \<le> length input. tail = length input - ls \<and> ready out (take ls input)"
  proof (cases "lzoMaxLengthM2 + 5 < length input")
    case True
    have "earlier (replicate (2 ^ lzoDictBits) 0) 4" by (simp add: earlier_def lzo_consts)
    moreover have "core_loop input (length input - 13) (replicate (2 ^ lzoDictBits) 0) 0 4 [] = (out, tail)"
      using True r' by (simp add: r_def compressLZOBlockCore_def lzo_consts)
    moreover have "4 + 9 < length input" using True by (simp add: lzo_consts)
    ultimately show ?thesis using core_loop_ready [of input _ 0 4 "[]" out tail] by (simp add: ready_def)
  next
    case False
    then show ?thesis using r' by (intro exI [of _ 0]) (simp add: r_def ready_def)
  qed
  then obtain ls where ls: "ls \<le> length input" "tail = length input - ls" "ready out (take ls input)" by blast
  define out2 where "out2 = (if 0 < tail then appendLZOLiteral out (drop (length input - tail) input) else out)"
  have c: "compressLZOBlock input = out2 @ [17, 0, 0]"
    unfolding compressLZOBlock_def Let_def r_def [symmetric] r' out2_def by (simp add: lzo_consts)
  show ?thesis
  proof (cases "ls < length input \<or> out \<noteq> []")
    case True
    have "after out2 input"
    proof (cases "ls < length input")
      case True
      then have "drop ls input \<noteq> []" by simp
      from literal_appended [OF ls(3) this] show ?thesis using True ls(2) by (simp add: out2_def)
    next
      case False
      then show ?thesis using True ready_after [OF ls(3)] ls(1,2) by (simp add: out2_def)
    qed
    then show ?thesis unfolding c after_def by (auto simp: end_marker)
  next
    case False
    then have "input = []" using ls by (auto simp: ready_def)
    moreover have "out2 = []" using False ls(2) by (simp add: out2_def)
    ultimately show ?thesis using end_marker [of 0 "[]"] c by (simp add: lzo1x_decode_def)
  qed
qed

text \<open>A run of one byte: the second position finds the first and the match reaches the end.\<close>

lemma extend_replicate: "m \<le> p \<Longrightarrow> p \<le> n \<Longrightarrow> extend_match (replicate n b) m p = n"
proof (induction "n - p" arbitrary: m p)
  case 0
  then show ?case by (simp add: extend_match.simps [of _ m p])
next
  case (Suc k)
  then show ?case by (simp add: extend_match.simps [of _ m p])
qed

lemma compress_sample: "compressLZOBlock (replicate 120 7) = [22, 7, 7, 7, 7, 7, 0x20, 82, 0, 0, 17, 0, 0]"
proof -
  let ?p = "replicate 120 7 :: bytes" and ?d = "replicate 16384 (0 :: nat)"
  have k: "lzo_key ?p 4 = 5582" "lzo_key ?p 5 = 5582" by (simp_all add: lzo_key_def lzo_consts)
  have n: "findLZOCandidate ?d ?p 4 i = None" if "i < 16384" for i using that by (simp add: findLZOCandidate_def)
  have f: "findLZOCandidate (?d[9681 := 5]) ?p 5 5582 = None" "findLZOCandidate (?d[9681 := 5]) ?p 5 9681 = Some (4, 1)"
    by (simp_all add: findLZOCandidate_def lzo_consts)
  have m: "match_loop ?p 4 3 8 = (9, 14)"
    by (simp add: match_loop.simps [of _ _ "numeral k" for k] match_loop.simps [of _ _ "Suc k" for k])
  have five: "replicate 5 (7 :: byte) = [7, 7, 7, 7, 7]" by (simp add: numeral_eq_Suc)
  have "try_match ?p (?d[9681 := 5]) [] 0 5 9681 = Some (?d[9681 := 6], [22, 7, 7, 7, 7, 7, 0x20, 82, 0, 0], 120)"
    using m by (simp add: try_match_def f five extend_replicate lzo_consts long_match_def appendLZOLiteral_def appendLZOMultiple.simps)
  moreover have "try_match ?p (?d[9681 := 5]) [] 0 5 5582 = None" by (simp add: try_match_def f)
  ultimately have "core_loop ?p 107 (?d[9681 := 5]) 0 5 [] = ([22, 7, 7, 7, 7, 7, 0x20, 82, 0, 0], 0)"
    by (simp add: core_loop.simps [of _ _ _ _ 5] k lzo_consts)
  then have "core_loop ?p 107 ?d 0 4 [] = ([22, 7, 7, 7, 7, 7, 0x20, 82, 0, 0], 0)"
    by (simp add: core_loop.simps [of _ _ _ _ 4] k lzo_consts try_match_def n)
  then show ?thesis by (simp add: compressLZOBlock_def compressLZOBlockCore_def lzo_consts)
qed

end
