(* ===== verification/Framing.thy ===== *)
theory Framing
  imports Compression Lzo_Format "HOL-Library.Multiset"
begin

text \<open>
  The framing of the data channel: fragmentation with its reassembly buffers
  (data\_channel\_fragmentation.go), adaptive LZO (data\_channel\_compression.go) and the
  composition of both (data\_channel\_framing.go). Go iterates over a map in an unspecified order;
  the argument \<open>order\<close> rearranges the sorted list of keys into the order of one iteration.
\<close>

section \<open>State\<close>

record incomingFragmentBuffer =
  maxSize :: int
  lastID :: int
  parts :: "nat \<rightharpoonup> bytes"
  buffered_bytes :: int
  updated :: time

record dataChannelFraming =
  compression :: compressionSettings
  compressOutbound :: bool
  fragmentSize :: int
  lzoAdaptiveDisabled :: bool
  lzoAdaptiveNext :: time
  lzoAdaptiveTotalBytes :: int
  lzoAdaptiveCompressedBytes :: int
  outgoingSequence :: nat
  incomingBySequence :: "nat \<rightharpoonup> incomingFragmentBuffer"
  incomingBytes :: int
  incomingSequence :: nat
  incomingSequenceSet :: bool
  reassemblyTimeout :: duration
  reassemblyMaxBytes :: int
  reassemblyMaxPacketBytes :: int

definition openVPNFragmentTypeWhole :: nat where "openVPNFragmentTypeWhole = 0"
definition openVPNFragmentTypePartial :: nat where "openVPNFragmentTypePartial = 1"
definition openVPNFragmentTypeLast :: nat where "openVPNFragmentTypeLast = 2"
definition openVPNFragmentMaxParts :: nat where "openVPNFragmentMaxParts = 32"
definition openVPNFragmentReceiveWindow :: int where "openVPNFragmentReceiveWindow = 25"
definition openVPNFragmentReassemblyTimeout :: duration where
  "openVPNFragmentReassemblyTimeout = 30 * second"
definition openVPNFragmentReassemblyMaxBytes :: int where
  "openVPNFragmentReassemblyMaxBytes = 4194304"
definition openVPNFragmentReassemblyMaxPacketBytes :: int where
  "openVPNFragmentReassemblyMaxPacketBytes = 65535"

lemmas fragment_consts = openVPNFragmentTypeWhole_def openVPNFragmentTypePartial_def
  openVPNFragmentTypeLast_def openVPNFragmentMaxParts_def openVPNFragmentReceiveWindow_def
  openVPNFragmentReassemblyTimeout_def openVPNFragmentReassemblyMaxBytes_def
  openVPNFragmentReassemblyMaxPacketBytes_def second_def

text \<open>The random number that seeds the outgoing sequence is the first argument.\<close>

definition newDataChannelFraming ::
  "u32 \<Rightarrow> compressionSettings \<Rightarrow> u32 \<Rightarrow> allowCompressionPolicy \<Rightarrow> dataChannelFraming option" where
  "newDataChannelFraming random settings fragment allowCompression =
     (let fsize = int (unat fragment) in
      if \<not> framingEnabled settings \<and> fsize \<le> 0 then None
      else Some
        \<lparr>compression = settings, compressOutbound = compressesOutbound settings allowCompression,
         fragmentSize = fsize, lzoAdaptiveDisabled = False, lzoAdaptiveNext = 0,
         lzoAdaptiveTotalBytes = 0, lzoAdaptiveCompressedBytes = 0,
         outgoingSequence = unat (random AND 0xff), incomingBySequence = Map.empty,
         incomingBytes = 0, incomingSequence = 0, incomingSequenceSet = False,
         reassemblyTimeout = openVPNFragmentReassemblyTimeout,
         reassemblyMaxBytes = openVPNFragmentReassemblyMaxBytes,
         reassemblyMaxPacketBytes = openVPNFragmentReassemblyMaxPacketBytes\<rparr>)"

definition payloadOverhead :: "dataChannelFraming option \<Rightarrow> nat" where
  "payloadOverhead fo =
     (case fo of None \<Rightarrow> 0
      | Some f \<Rightarrow> framingOverhead (compression f) + (if 0 < fragmentSize f then 4 else 0))"

section \<open>Fragment headers\<close>

definition prependFragmentHeader :: "bytes \<Rightarrow> nat \<Rightarrow> nat \<Rightarrow> nat \<Rightarrow> nat \<Rightarrow> bytes" where
  "prependFragmentHeader payload fragmentType sequenceID fragmentID maxFragmentSize =
     (let flags = push_bit 0 (of_nat (fragmentType AND 0x3)) :: u32;
          flags = flags OR push_bit 2 (of_nat (sequenceID AND 0xff));
          flags = flags OR push_bit 10 (of_nat (fragmentID AND 0x1f));
          flags = (if fragmentType = openVPNFragmentTypeLast
                   then flags OR push_bit 15 (of_nat (maxFragmentSize AND 0x3fff)) else flags)
      in put_u32 flags @ payload)"

function fragment_loop :: "bytes \<Rightarrow> nat \<Rightarrow> nat \<Rightarrow> nat \<Rightarrow> nat \<Rightarrow> bytes list result" where
  "fragment_loop payload fsize sequenceID offset fragmentID =
     (if length payload \<le> offset then Inr []
      else if openVPNFragmentMaxParts \<le> fragmentID then Inl (New ''too many fragments'')
      else
        let chunkSize = min fsize (length payload - offset);
            isLast = (length payload \<le> offset + chunkSize);
            fragment = prependFragmentHeader (take chunkSize (drop offset payload))
                         (if isLast then openVPNFragmentTypeLast else openVPNFragmentTypePartial)
                         sequenceID fragmentID (if isLast then drop_bit 2 fsize else 0)
        in case fragment_loop payload fsize sequenceID (offset + chunkSize) (fragmentID + 1) of
             Inl err \<Rightarrow> Inl err
           | Inr fragments \<Rightarrow> Inr (fragment # fragments))"
  by pat_completeness auto
termination
  by (relation "measure (\<lambda>(payload, fsize, sequenceID, offset, fragmentID).
                          openVPNFragmentMaxParts - fragmentID)") auto

declare fragment_loop.simps [simp del]

definition encodeFragments ::
  "bytes \<Rightarrow> int \<Rightarrow> dataChannelFraming \<Rightarrow> bytes list result \<times> dataChannelFraming" where
  "encodeFragments payload fsize f =
     (let fsize = fsize AND NOT 3 in
      if fsize \<le> 0 then (Inl (New ''fragment packet size is too small for data channel overhead''), f)
      else if int (length payload) \<le> fsize
      then (Inr [prependFragmentHeader payload openVPNFragmentTypeWhole 0 0 0], f)
      else (fragment_loop payload (nat fsize) (outgoingSequence f) 0 0,
            f\<lparr>outgoingSequence := (outgoingSequence f + 1) AND 0xff\<rparr>))"

section \<open>Reassembly buffers\<close>

definition deleteIncomingFragmentBuffer :: "nat \<Rightarrow> dataChannelFraming \<Rightarrow> dataChannelFraming" where
  "deleteIncomingFragmentBuffer sequenceID f =
     (case incomingBySequence f sequenceID of
        None \<Rightarrow> f
      | Some fragmentBuffer \<Rightarrow>
          f\<lparr>incomingBySequence := (incomingBySequence f)(sequenceID := None),
            incomingBytes := max (incomingBytes f - buffered_bytes fragmentBuffer) 0\<rparr>)"

text \<open>Sequence ids are one byte, so the keys present are found below 256.\<close>

definition buffered_keys :: "dataChannelFraming \<Rightarrow> nat list" where
  "buffered_keys f = filter (\<lambda>k. incomingBySequence f k \<noteq> None) [0..<256]"

type_synonym iteration_order = "nat list \<Rightarrow> nat list"

definition delete_where ::
  "iteration_order \<Rightarrow> (nat \<Rightarrow> incomingFragmentBuffer \<Rightarrow> bool) \<Rightarrow> dataChannelFraming \<Rightarrow> dataChannelFraming" where
  "delete_where order cond f =
     fold (\<lambda>k g. case incomingBySequence f k of
                   Some b \<Rightarrow> if cond k b then deleteIncomingFragmentBuffer k g else g
                 | None \<Rightarrow> g)
          (order (buffered_keys f)) f"

definition clearIncomingFragments :: "iteration_order \<Rightarrow> dataChannelFraming \<Rightarrow> dataChannelFraming" where
  "clearIncomingFragments order f = delete_where order (\<lambda>_ _. True) f"

definition expireIncomingFragments ::
  "iteration_order \<Rightarrow> time \<Rightarrow> dataChannelFraming \<Rightarrow> dataChannelFraming" where
  "expireIncomingFragments order now f =
     (let timeout = (if reassemblyTimeout f \<le> 0 then openVPNFragmentReassemblyTimeout else reassemblyTimeout f)
      in delete_where order (\<lambda>_ b. IsZero (updated b) \<or> timeout \<le> now - updated b) f)"

definition fragmentSequenceDifference :: "int \<Rightarrow> int \<Rightarrow> int" where
  "fragmentSequenceDifference sequenceID referenceSequence =
     (let directDifference = sequenceID - referenceSequence in
      if directDifference = 0 then 0
      else
        let wrappedDifference = (if referenceSequence < sequenceID then directDifference - 256
                                 else directDifference + 256)
        in if directDifference < 0 then
             (if - directDifference \<le> wrappedDifference then directDifference else wrappedDifference)
           else if directDifference \<le> - wrappedDifference then directDifference
           else wrappedDifference)"

definition advanceIncomingFragmentWindow ::
  "iteration_order \<Rightarrow> nat \<Rightarrow> dataChannelFraming \<Rightarrow> dataChannelFraming" where
  "advanceIncomingFragmentWindow order sequenceID f =
     (if \<not> incomingSequenceSet f
      then f\<lparr>incomingSequence := sequenceID, incomingSequenceSet := True\<rparr>
      else
        let difference = fragmentSequenceDifference (int sequenceID) (int (incomingSequence f)) in
        if openVPNFragmentReceiveWindow \<le> difference \<or> difference \<le> - openVPNFragmentReceiveWindow
        then (clearIncomingFragments order f)\<lparr>incomingSequence := sequenceID\<rparr>
        else if difference \<le> 0 then f
        else delete_where order
               (\<lambda>k _. let bufferedDifference = fragmentSequenceDifference (int k) (int sequenceID)
                      in bufferedDifference \<le> - openVPNFragmentReceiveWindow \<or> 0 < bufferedDifference)
               (f\<lparr>incomingSequence := sequenceID\<rparr>))"

text \<open>The oldest other buffer; among equally old ones the first of the iteration.\<close>

fun oldest_loop :: "(nat \<times> time) option \<Rightarrow> (nat \<times> time) list \<Rightarrow> (nat \<times> time) option" where
  "oldest_loop best [] = best"
| "oldest_loop best ((k, t) # rest) =
     (case best of
        None \<Rightarrow> oldest_loop (Some (k, t)) rest
      | Some (k0, t0) \<Rightarrow> oldest_loop (if t < t0 then Some (k, t) else best) rest)"

definition oldestIncomingFragmentSequence ::
  "iteration_order \<Rightarrow> nat \<Rightarrow> dataChannelFraming \<Rightarrow> nat option" where
  "oldestIncomingFragmentSequence order excludeSequence f =
     map_option fst
       (oldest_loop None
         (map (\<lambda>k. (k, updated (the (incomingBySequence f k))))
           (filter (\<lambda>k. k \<noteq> excludeSequence \<and> k \<in> set (buffered_keys f))
             (order (buffered_keys f)))))"

lemma buffered_keys_set: "k \<in> set (buffered_keys f) \<longleftrightarrow> k < 256 \<and> incomingBySequence f k \<noteq> None"
  by (auto simp: buffered_keys_def)

lemma oldest_loop_mem:
  "oldest_loop best xs = Some x \<Longrightarrow> x \<in> set xs \<or> best = Some x"
proof (induction xs arbitrary: best)
  case (Cons kt xs)
  obtain k t where kt: "kt = (k, t)" by fastforce
  show ?case
    using Cons.IH [of "Some (k, t)"] Cons.IH [of best] Cons.prems
    by (cases best) (auto simp: kt split: if_splits)
qed simp

lemma oldest_Some:
  "oldestIncomingFragmentSequence order ex f = Some k \<Longrightarrow> k \<in> set (buffered_keys f) \<and> k \<noteq> ex"
  by (auto simp: oldestIncomingFragmentSequence_def dest!: oldest_loop_mem)

lemma delete_keys:
  assumes "k \<in> set (buffered_keys f)"
  shows "length (buffered_keys (deleteIncomingFragmentBuffer k f)) < length (buffered_keys f)"
proof -
  let ?g = "deleteIncomingFragmentBuffer k f"
  have "set (buffered_keys ?g) \<subset> set (buffered_keys f)"
    using assms by (auto simp: buffered_keys_set deleteIncomingFragmentBuffer_def split: option.splits if_splits)
  then have "card (set (buffered_keys ?g)) < card (set (buffered_keys f))"
    by (intro psubset_card_mono) auto
  then show ?thesis by (simp add: buffered_keys_def distinct_card [symmetric])
qed

text \<open>Evicting the oldest buffers until the new bytes fit.\<close>

function evict_loop ::
  "iteration_order \<Rightarrow> nat \<Rightarrow> int \<Rightarrow> int \<Rightarrow> dataChannelFraming \<Rightarrow> bool \<times> dataChannelFraming" where
  "evict_loop order sequenceID additionalBytes maxReassemblyBytes f =
     (if maxReassemblyBytes < incomingBytes f + additionalBytes then
        (case oldestIncomingFragmentSequence order sequenceID f of
           None \<Rightarrow> (False, deleteIncomingFragmentBuffer sequenceID f)
         | Some oldestSequence \<Rightarrow>
             evict_loop order sequenceID additionalBytes maxReassemblyBytes
               (deleteIncomingFragmentBuffer oldestSequence f))
      else (True, f))"
  by pat_completeness auto
termination
  by (relation "measure (\<lambda>(ord, s, a, m, f). length (buffered_keys f))")
     (auto dest: oldest_Some delete_keys)

declare evict_loop.simps [simp del]

text \<open>The buffer of a sequence, opened anew when there is none or when the fragment size differs.\<close>

definition open_fragment_buffer ::
  "iteration_order \<Rightarrow> time \<Rightarrow> nat \<Rightarrow> int \<Rightarrow> dataChannelFraming \<Rightarrow> incomingFragmentBuffer \<times> dataChannelFraming" where
  "open_fragment_buffer order now sequenceID fsize f =
     (let f = advanceIncomingFragmentWindow order sequenceID f;
          f = (case incomingBySequence f sequenceID of
                 Some b \<Rightarrow> if maxSize b \<noteq> fsize then deleteIncomingFragmentBuffer sequenceID f else f
               | None \<Rightarrow> f);
          b = (case incomingBySequence f sequenceID of
                 Some b \<Rightarrow> b
               | None \<Rightarrow> \<lparr>maxSize = fsize, lastID = -1, parts = Map.empty, buffered_bytes = 0, updated = now\<rparr>)
      in (b, f\<lparr>incomingBySequence := (incomingBySequence f)(sequenceID \<mapsto> b)\<rparr>))"

text \<open>The packet, once the last fragment is known and all of them are there.\<close>

definition reassemble :: "incomingFragmentBuffer \<Rightarrow> bytes option" where
  "reassemble b =
     (if lastID b < 0 then None
      else if list_ex (\<lambda>k. parts b k = None) [0..<nat (lastID b + 1)] then None
      else Some (concat (map (\<lambda>k. the (parts b k)) [0..<nat (lastID b + 1)])))"

definition put_part :: "time \<Rightarrow> nat \<Rightarrow> int \<Rightarrow> bool \<Rightarrow> bytes \<Rightarrow> int \<Rightarrow> incomingFragmentBuffer \<Rightarrow> incomingFragmentBuffer" where
  "put_part now fragmentID maxFragmentSize isLast payload additionalBytes b =
     b\<lparr>maxSize := (if 0 < maxFragmentSize then maxFragmentSize
                   else if maxSize b = 0 then int (length payload) else maxSize b),
       parts := (parts b)(fragmentID \<mapsto> payload),
       buffered_bytes := buffered_bytes b + additionalBytes,
       updated := now,
       lastID := (if isLast then int fragmentID else lastID b)\<rparr>"

definition storeIncomingFragment ::
  "iteration_order \<Rightarrow> time \<Rightarrow> nat \<Rightarrow> nat \<Rightarrow> int \<Rightarrow> bool \<Rightarrow> bytes \<Rightarrow> dataChannelFraming \<Rightarrow>
     bytes option result \<times> dataChannelFraming" where
  "storeIncomingFragment order now sequenceID fragmentID maxFragmentSize isLast payload f =
     (let f = expireIncomingFragments order now f;
          maxPacketBytes = (if reassemblyMaxPacketBytes f \<le> 0 then openVPNFragmentReassemblyMaxPacketBytes
                            else reassemblyMaxPacketBytes f);
          maxReassemblyBytes = (if reassemblyMaxBytes f \<le> 0 then openVPNFragmentReassemblyMaxBytes
                                else reassemblyMaxBytes f)
      in if maxPacketBytes < int (length payload)
         then (Inl (New ''fragment exceeds maximum reassembled packet size''), f)
         else
      case open_fragment_buffer order now sequenceID
             (if 0 < maxFragmentSize then maxFragmentSize else int (length payload)) f of (b, f) \<Rightarrow>
      let additionalBytes = int (length payload) -
            (case parts b fragmentID of None \<Rightarrow> 0 | Some previousPart \<Rightarrow> int (length previousPart))
      in if maxPacketBytes < buffered_bytes b + additionalBytes
         then (Inl (New ''fragmented packet exceeds maximum IP packet size''),
               deleteIncomingFragmentBuffer sequenceID f)
         else
      case evict_loop order sequenceID additionalBytes maxReassemblyBytes f of
        (False, f) \<Rightarrow> (Inl (New ''fragment reassembly memory limit exceeded''), f)
      | (True, f) \<Rightarrow>
      let b = put_part now fragmentID maxFragmentSize isLast payload additionalBytes b;
          f = f\<lparr>incomingBySequence := (incomingBySequence f)(sequenceID \<mapsto> b),
                incomingBytes := incomingBytes f + additionalBytes\<rparr>
      in case reassemble b of
           None \<Rightarrow> (Inr None, f)
         | Some reassembledPayload \<Rightarrow>
             (Inr (Some reassembledPayload), deleteIncomingFragmentBuffer sequenceID f))"

definition decodeFragment ::
  "iteration_order \<Rightarrow> time \<Rightarrow> bytes \<Rightarrow> dataChannelFraming \<Rightarrow> bytes option result \<times> dataChannelFraming" where
  "decodeFragment order now payload f =
     (if length payload < 4 then (Inl (New ''fragment header not found''), f)
      else
        let flags = get_u32 payload;
            fragmentType = unat (drop_bit 0 flags AND 0x3);
            fragmentPayload = drop 4 payload
        in if fragmentType = openVPNFragmentTypeWhole then
             (if drop_bit 2 flags AND 0xff \<noteq> 0 \<or> drop_bit 10 flags AND 0x1f \<noteq> 0
              then (Inl (New ''spurious fragment header flags''), f)
              else (Inr (Some fragmentPayload), f))
           else if fragmentType = openVPNFragmentTypePartial \<or> fragmentType = openVPNFragmentTypeLast then
             storeIncomingFragment order now
               (unat (drop_bit 2 flags AND 0xff)) (unat (drop_bit 10 flags AND 0x1f))
               (int (push_bit 2 (unat (drop_bit 15 flags AND 0x3fff))))
               (fragmentType = openVPNFragmentTypeLast) fragmentPayload f
           else (Inl (New ''unknown fragment type''), f))"

section \<open>Adaptive LZO, encoding and decoding\<close>

definition lzoCompressionEnabled :: "time \<Rightarrow> dataChannelFraming \<Rightarrow> bool \<times> dataChannelFraming" where
  "lzoCompressionEnabled now f =
     (if \<not> adaptive (compression f) then (True, f)
      else
        let f = (if IsZero (lzoAdaptiveNext f) \<or> \<not> now < lzoAdaptiveNext f then
                   (if lzoAdaptiveDisabled f
                    then f\<lparr>lzoAdaptiveDisabled := False,
                           lzoAdaptiveNext := now + openVPNLZOAdaptiveSampleDuration\<rparr>
                    else if openVPNLZOAdaptiveMinimumBytes < lzoAdaptiveTotalBytes f \<and>
                            lzoAdaptiveTotalBytes f - lzoAdaptiveCompressedBytes f
                              < lzoAdaptiveTotalBytes f div (100 div openVPNLZOAdaptiveSavePercent)
                    then f\<lparr>lzoAdaptiveDisabled := True,
                           lzoAdaptiveNext := now + openVPNLZOAdaptiveOffDuration\<rparr>
                    else f\<lparr>lzoAdaptiveNext := now + openVPNLZOAdaptiveSampleDuration\<rparr>)
                   \<lparr>lzoAdaptiveTotalBytes := 0, lzoAdaptiveCompressedBytes := 0\<rparr>
                 else f)
        in (\<not> lzoAdaptiveDisabled f, f))"

definition recordLZOCompression :: "int \<Rightarrow> int \<Rightarrow> dataChannelFraming \<Rightarrow> dataChannelFraming" where
  "recordLZOCompression totalBytes compressedBytes f =
     f\<lparr>lzoAdaptiveTotalBytes := lzoAdaptiveTotalBytes f + totalBytes,
       lzoAdaptiveCompressedBytes := lzoAdaptiveCompressedBytes f + compressedBytes\<rparr>"

definition encodeLZOFrame :: "time \<Rightarrow> bytes \<Rightarrow> dataChannelFraming \<Rightarrow> bytes \<times> dataChannelFraming" where
  "encodeLZOFrame now payload f =
     (if \<not> compressOutbound f \<or> length payload < openVPNCompressionThreshold
      then (openVPNNoCompressByte # payload, f)
      else case lzoCompressionEnabled now f of (enabled, f) \<Rightarrow>
        if \<not> enabled then (openVPNNoCompressByte # payload, f)
        else
          let compressedPayload = compressLZOBlock payload;
              f = (if adaptive (compression f)
                   then recordLZOCompression (int (length payload)) (int (length compressedPayload)) f else f)
          in if length payload \<le> length compressedPayload then (openVPNNoCompressByte # payload, f)
             else (openVPNLZOCompressByte # compressedPayload, f))"

definition framing_Encode ::
  "time \<Rightarrow> bytes \<Rightarrow> int \<Rightarrow> dataChannelFraming option \<Rightarrow> bytes list result \<times> dataChannelFraming option" where
  "framing_Encode now payload fsize fo =
     (case fo of
        None \<Rightarrow> (Inr [payload], None)
      | Some f \<Rightarrow>
          (case (case algorithm (compression f) of
                   compressionAlgorithmStub \<Rightarrow> (applyStubCompressionFrame payload (swap (compression f)), f)
                 | compressionAlgorithmLZ4 \<Rightarrow> (applyStubCompressionFrame payload True, f)
                 | compressionAlgorithmLZO \<Rightarrow> encodeLZOFrame now payload f
                 | compressionAlgorithmStubV2 \<Rightarrow> (escapeV2StubCompression payload, f)
                 | compressionAlgorithmLZ4V2 \<Rightarrow> (escapeV2StubCompression payload, f)
                 | compressionAlgorithmNone \<Rightarrow> (payload, f)) of (framedPayload, f) \<Rightarrow>
           if fragmentSize f \<le> 0 then (Inr [framedPayload], Some f)
           else case encodeFragments framedPayload fsize f of (r, f) \<Rightarrow> (r, Some f)))"

definition unframe_payload :: "decompressor \<Rightarrow> decompressor \<Rightarrow> compressionSettings \<Rightarrow> bytes \<Rightarrow> bytes result" where
  "unframe_payload lzo_Decompress lz4_UncompressBlock settings framedPayload =
     (case algorithm settings of
        compressionAlgorithmStub \<Rightarrow> unframeStubCompression framedPayload (swap settings)
      | compressionAlgorithmLZO \<Rightarrow> decodeLZOFrame lzo_Decompress framedPayload
      | compressionAlgorithmLZ4 \<Rightarrow> decodeLZ4V1Frame lz4_UncompressBlock framedPayload
      | compressionAlgorithmStubV2 \<Rightarrow> unwrapV2Compression lz4_UncompressBlock (algorithm settings) framedPayload
      | compressionAlgorithmLZ4V2 \<Rightarrow> unwrapV2Compression lz4_UncompressBlock (algorithm settings) framedPayload
      | compressionAlgorithmNone \<Rightarrow> Inr framedPayload)"

definition framing_Decode ::
  "decompressor \<Rightarrow> decompressor \<Rightarrow> iteration_order \<Rightarrow> time \<Rightarrow> bytes \<Rightarrow> dataChannelFraming option \<Rightarrow>
     bytes option result \<times> dataChannelFraming option" where
  "framing_Decode lzo_Decompress lz4_UncompressBlock order now payload fo =
     (case fo of
        None \<Rightarrow> (Inr (Some payload), None)
      | Some f \<Rightarrow>
          (case (if 0 < fragmentSize f then decodeFragment order now payload f else (Inr (Some payload), f)) of
             (Inl err, f) \<Rightarrow> (Inl err, Some f)
           | (Inr None, f) \<Rightarrow> (Inr None, Some f)
           | (Inr (Some framedPayload), f) \<Rightarrow>
               (case unframe_payload lzo_Decompress lz4_UncompressBlock (compression f) framedPayload of
                  Inl err \<Rightarrow> (Inl err, Some f)
                | Inr unframedPayload \<Rightarrow> (Inr (Some unframedPayload), Some f))))"

section \<open>The header round trip\<close>

lemma nat_and_mask: "(x :: nat) < 2 ^ n \<Longrightarrow> x AND mask n = x"
  by (simp add: take_bit_nat_eq_self flip: take_bit_eq_mask)

lemma masks:
  "(0x3 :: u32) = mask 2" "(0xff :: u32) = mask 8" "(0x1f :: u32) = mask 5" "(0x3fff :: u32) = mask 14"
  "(0x3 :: nat) = mask 2" "(0xff :: nat) = mask 8" "(0x1f :: nat) = mask 5" "(0x3fff :: nat) = mask 14"
  by (simp_all add: mask_eq_exp_minus_1)

lemma of_nat_u32_less: "(x :: nat) < 2 ^ n \<Longrightarrow> n < 32 \<Longrightarrow> (of_nat x :: u32) < 2 ^ n"
proof -
  assume x: "x < 2 ^ n" and n: "n < 32"
  have p: "(2 :: nat) ^ n < 2 ^ 32" using n by (intro power_strict_increasing) auto
  then have "x < 2 ^ 32" using x by linarith
  then have "unat (of_nat x :: u32) = x" by (simp add: unat_of_nat)
  moreover have "unat (of_nat (2 ^ n) :: u32) = 2 ^ n" using p by (simp only: unat_of_nat) simp
  then have "unat (2 ^ n :: u32) = 2 ^ n" by simp
  ultimately show "(of_nat x :: u32) < 2 ^ n" using x by (simp add: word_less_nat_alt)
qed

lemma flag_fields:
  fixes a b c d :: u32
  assumes "a < 2 ^ 2" "b < 2 ^ 8" "c < 2 ^ 5" "d < 2 ^ 14"
  defines "flags \<equiv> push_bit 0 a OR push_bit 2 b OR push_bit 10 c OR push_bit 15 d"
  shows "drop_bit 0 flags AND mask 2 = a" "drop_bit 2 flags AND mask 8 = b"
        "drop_bit 10 flags AND mask 5 = c" "drop_bit 15 flags AND mask 14 = d"
proof -
  note bits = bit_less_2p [OF assms(1)] bit_less_2p [OF assms(2)] bit_less_2p [OF assms(3)]
    bit_less_2p [OF assms(4)]
  show "drop_bit 0 flags AND mask 2 = a" "drop_bit 2 flags AND mask 8 = b"
       "drop_bit 10 flags AND mask 5 = c" "drop_bit 15 flags AND mask 14 = d"
    unfolding flags_def
    by (rule bit_word_eqI, use bits in \<open>auto simp: bit_simps dest: bits\<close>)+
qed

text \<open>A header that encodeFragments writes, read back by decodeFragment.\<close>

lemma decode_prepend:
  assumes "ft < 4" "sq < 256" "fid < 32" "mx < 16384" "ft = openVPNFragmentTypeLast \<or> mx = 0"
  shows "decodeFragment order now (prependFragmentHeader payload ft sq fid mx) f =
     (if ft = openVPNFragmentTypeWhole then
        (if sq \<noteq> 0 \<or> fid \<noteq> 0 then (Inl (New ''spurious fragment header flags''), f)
         else (Inr (Some payload), f))
      else if ft = openVPNFragmentTypePartial \<or> ft = openVPNFragmentTypeLast then
        storeIncomingFragment order now sq fid (int (4 * mx)) (ft = openVPNFragmentTypeLast) payload f
      else (Inl (New ''unknown fragment type''), f))"
proof -
  define flags :: u32 where "flags = push_bit 0 (of_nat ft) OR push_bit 2 (of_nat sq) OR
    push_bit 10 (of_nat fid) OR push_bit 15 (of_nat mx)"
  have h: "prependFragmentHeader payload ft sq fid mx = put_u32 flags @ payload"
    using assms unfolding prependFragmentHeader_def masks flags_def
    by (auto simp: nat_and_mask Let_def or.assoc)
  have "(of_nat ft :: u32) < 2 ^ 2" "(of_nat sq :: u32) < 2 ^ 8" "(of_nat fid :: u32) < 2 ^ 5"
      "(of_nat mx :: u32) < 2 ^ 14"
    using assms by (intro of_nat_u32_less; simp)+
  note fl = flag_fields [OF this, folded flags_def]
  have u: "unat (of_nat ft :: u32) = ft" "unat (of_nat sq :: u32) = sq" "unat (of_nat fid :: u32) = fid"
      "unat (of_nat mx :: u32) = mx"
    using assms by (simp_all add: unat_of_nat)
  have z: "((of_nat sq :: u32) \<noteq> 0) = (sq \<noteq> 0)" "((of_nat fid :: u32) \<noteq> 0) = (fid \<noteq> 0)"
    unfolding word_unat_eq_iff u by simp_all
  have p: "push_bit 2 mx = 4 * mx" by (simp add: push_bit_eq_mult)
  show ?thesis
    unfolding decodeFragment_def h Let_def get_u32_put masks fl u z p by simp
qed

section \<open>Accounting of the reassembly buffers\<close>

definition maxPacketBytes :: "dataChannelFraming \<Rightarrow> int" where
  "maxPacketBytes f = (if reassemblyMaxPacketBytes f \<le> 0 then openVPNFragmentReassemblyMaxPacketBytes
                       else reassemblyMaxPacketBytes f)"

definition maxReassemblyBytes :: "dataChannelFraming \<Rightarrow> int" where
  "maxReassemblyBytes f = (if reassemblyMaxBytes f \<le> 0 then openVPNFragmentReassemblyMaxBytes
                           else reassemblyMaxBytes f)"

definition part_bytes :: "incomingFragmentBuffer \<Rightarrow> nat \<Rightarrow> int" where
  "part_bytes b i = (case parts b i of None \<Rightarrow> 0 | Some p \<Rightarrow> int (length p))"

definition buffer_ok :: "incomingFragmentBuffer \<Rightarrow> bool" where
  "buffer_ok b = ((\<forall>i. parts b i \<noteq> None \<longrightarrow> i < openVPNFragmentMaxParts) \<and>
                  buffered_bytes b = (\<Sum>i < openVPNFragmentMaxParts. part_bytes b i))"

definition bytes_at :: "dataChannelFraming \<Rightarrow> nat \<Rightarrow> int" where
  "bytes_at f k = (case incomingBySequence f k of None \<Rightarrow> 0 | Some b \<Rightarrow> buffered_bytes b)"

text \<open>
  The counters agree with the parts actually held, and the limits of the configuration hold.
\<close>

definition reassembly_inv :: "dataChannelFraming \<Rightarrow> bool" where
  "reassembly_inv f =
     ((\<forall>k b. incomingBySequence f k = Some b \<longrightarrow>
              k < 256 \<and> buffer_ok b \<and> buffered_bytes b \<le> maxPacketBytes f) \<and>
      incomingBytes f = (\<Sum>k < 256. bytes_at f k) \<and> incomingBytes f \<le> maxReassemblyBytes f)"

lemma buffer_ok_nonneg: "buffer_ok b \<Longrightarrow> 0 \<le> buffered_bytes b"
  unfolding buffer_ok_def by (auto intro!: sum_nonneg simp: part_bytes_def split: option.split)

lemma bytes_at_nonneg: "reassembly_inv f \<Longrightarrow> 0 \<le> bytes_at f k"
  by (auto simp: reassembly_inv_def bytes_at_def buffer_ok_nonneg split: option.split)

lemma bytes_at_le:
  assumes "reassembly_inv f"
  shows "bytes_at f k \<le> incomingBytes f"
proof (cases "k < 256")
  case True
  then have "bytes_at f k \<le> (\<Sum>k < 256. bytes_at f k)"
    using bytes_at_nonneg [OF assms] by (intro member_le_sum) auto
  then show ?thesis using assms by (simp add: reassembly_inv_def)
next
  case False
  then have "bytes_at f k = 0"
    using assms by (auto simp: reassembly_inv_def bytes_at_def split: option.split)
  moreover have "0 \<le> incomingBytes f"
    using assms bytes_at_nonneg [OF assms] by (simp add: reassembly_inv_def sum_nonneg)
  ultimately show ?thesis by simp
qed

lemma delete_fields [simp]:
  "incomingBySequence (deleteIncomingFragmentBuffer k f) = (incomingBySequence f)(k := None)"
  "maxPacketBytes (deleteIncomingFragmentBuffer k f) = maxPacketBytes f"
  "maxReassemblyBytes (deleteIncomingFragmentBuffer k f) = maxReassemblyBytes f"
  "reassemblyTimeout (deleteIncomingFragmentBuffer k f) = reassemblyTimeout f"
  "incomingSequence (deleteIncomingFragmentBuffer k f) = incomingSequence f"
  "incomingSequenceSet (deleteIncomingFragmentBuffer k f) = incomingSequenceSet f"
  "compression (deleteIncomingFragmentBuffer k f) = compression f"
  "fragmentSize (deleteIncomingFragmentBuffer k f) = fragmentSize f"
  by (auto simp: deleteIncomingFragmentBuffer_def maxPacketBytes_def maxReassemblyBytes_def fun_eq_iff
           split: option.split)

lemma delete_bytes:
  "reassembly_inv f \<Longrightarrow> incomingBytes (deleteIncomingFragmentBuffer k f) = incomingBytes f - bytes_at f k"
  using bytes_at_le [of f k]
  by (auto simp: deleteIncomingFragmentBuffer_def bytes_at_def split: option.split)

lemma delete_inv:
  assumes "reassembly_inv f"
  shows "reassembly_inv (deleteIncomingFragmentBuffer k f)"
proof -
  let ?g = "deleteIncomingFragmentBuffer k f"
  have at: "bytes_at ?g = (\<lambda>j. if j = k then 0 else bytes_at f j)"
    by (auto simp: bytes_at_def fun_eq_iff)
  have "(\<Sum>j < 256. bytes_at ?g j) = (\<Sum>j < 256. bytes_at f j) - bytes_at f k"
  proof (cases "k < 256")
    case True
    then show ?thesis unfolding at by (simp add: sum_update)
  next
    case False
    then have "bytes_at f k = 0"
      using assms by (auto simp: reassembly_inv_def bytes_at_def split: option.split)
    moreover have "(\<Sum>j < 256. bytes_at ?g j) = (\<Sum>j < 256. bytes_at f j)"
      unfolding at using False by (intro sum.cong) auto
    ultimately show ?thesis by simp
  qed
  then show ?thesis
    using assms delete_bytes [OF assms, of k] bytes_at_nonneg [OF assms, of k]
    by (auto simp: reassembly_inv_def split: if_splits)
qed

definition order_ok :: "iteration_order \<Rightarrow> bool" where
  "order_ok order = (\<forall>ks. set (order ks) = set ks)"

text \<open>Whatever a run of deletions keeps, iterating over a map keeps.\<close>

lemma delete_where_keeps:
  assumes "P f" "\<And>g k. P g \<Longrightarrow> P (deleteIncomingFragmentBuffer k g)"
  shows "P (delete_where order cond f)"
proof -
  have "P (fold (\<lambda>k g. case incomingBySequence f k of
                  Some b \<Rightarrow> if cond k b then deleteIncomingFragmentBuffer k g else g | None \<Rightarrow> g) ks g)"
    if "P g" for ks g
    using that by (induction ks arbitrary: g) (auto simp: assms(2) split: option.split)
  then show ?thesis using assms(1) by (simp add: delete_where_def)
qed

lemma delete_where_fields [simp]:
  "maxPacketBytes (delete_where order cond f) = maxPacketBytes f"
  "maxReassemblyBytes (delete_where order cond f) = maxReassemblyBytes f"
  "reassemblyTimeout (delete_where order cond f) = reassemblyTimeout f"
  "incomingSequence (delete_where order cond f) = incomingSequence f"
  "incomingSequenceSet (delete_where order cond f) = incomingSequenceSet f"
  "compression (delete_where order cond f) = compression f"
  "fragmentSize (delete_where order cond f) = fragmentSize f"
  by (rule delete_where_keeps [of "\<lambda>g. sel g = sel f" for sel], simp_all)+

lemma delete_where_inc:
  assumes "order_ok order" "reassembly_inv f"
  shows "incomingBySequence (delete_where order cond f) k =
         (case incomingBySequence f k of Some b \<Rightarrow> if cond k b then None else Some b | None \<Rightarrow> None)"
proof -
  let ?step = "\<lambda>k g. case incomingBySequence f k of
                  Some b \<Rightarrow> if cond k b then deleteIncomingFragmentBuffer k g else g | None \<Rightarrow> g"
  have "incomingBySequence (fold ?step ks g) k =
        (if k \<in> set ks \<and> (\<exists>b. incomingBySequence f k = Some b \<and> cond k b) then None
         else incomingBySequence g k)" for ks g
    by (induction ks arbitrary: g) (auto split: option.splits)
  moreover have "k \<in> set (order (buffered_keys f)) \<longleftrightarrow> incomingBySequence f k \<noteq> None"
    using assms unfolding order_ok_def reassembly_inv_def by (auto simp: buffered_keys_set)
  ultimately show ?thesis by (auto simp: delete_where_def split: option.split)
qed

lemma delete_where_inv: "reassembly_inv f \<Longrightarrow> reassembly_inv (delete_where order cond f)"
  by (rule delete_where_keeps) (auto intro: delete_inv)

lemma delete_where_bytes:
  assumes "reassembly_inv f"
  shows "incomingBytes (delete_where order cond f) \<le> incomingBytes f"
proof -
  have "reassembly_inv (delete_where order cond f) \<and>
        incomingBytes (delete_where order cond f) \<le> incomingBytes f"
  proof (rule delete_where_keeps)
    show "reassembly_inv f \<and> incomingBytes f \<le> incomingBytes f" using assms by simp
  next
    fix g k assume "reassembly_inv g \<and> incomingBytes g \<le> incomingBytes f"
    then show "reassembly_inv (deleteIncomingFragmentBuffer k g) \<and>
               incomingBytes (deleteIncomingFragmentBuffer k g) \<le> incomingBytes f"
      using delete_bytes [of g k] bytes_at_nonneg [of g k] delete_inv by auto
  qed
  then show ?thesis by simp
qed

lemma expire_inv: "reassembly_inv f \<Longrightarrow> reassembly_inv (expireIncomingFragments order now f)"
  by (simp add: expireIncomingFragments_def Let_def delete_where_inv)

lemma expire_fields [simp]:
  "maxPacketBytes (expireIncomingFragments order now f) = maxPacketBytes f"
  "maxReassemblyBytes (expireIncomingFragments order now f) = maxReassemblyBytes f"
  "reassemblyTimeout (expireIncomingFragments order now f) = reassemblyTimeout f"
  "incomingSequence (expireIncomingFragments order now f) = incomingSequence f"
  "incomingSequenceSet (expireIncomingFragments order now f) = incomingSequenceSet f"
  "compression (expireIncomingFragments order now f) = compression f"
  "fragmentSize (expireIncomingFragments order now f) = fragmentSize f"
  by (simp_all add: expireIncomingFragments_def Let_def)

lemma sequence_irrelevant [simp]:
  "reassembly_inv (f\<lparr>incomingSequence := q\<rparr>) = reassembly_inv f"
  "reassembly_inv (f\<lparr>incomingSequence := q, incomingSequenceSet := v\<rparr>) = reassembly_inv f"
  "maxPacketBytes (f\<lparr>incomingSequence := q\<rparr>) = maxPacketBytes f"
  "maxPacketBytes (f\<lparr>incomingSequence := q, incomingSequenceSet := v\<rparr>) = maxPacketBytes f"
  "maxReassemblyBytes (f\<lparr>incomingSequence := q\<rparr>) = maxReassemblyBytes f"
  "maxReassemblyBytes (f\<lparr>incomingSequence := q, incomingSequenceSet := v\<rparr>) = maxReassemblyBytes f"
  by (simp_all add: reassembly_inv_def bytes_at_def maxPacketBytes_def maxReassemblyBytes_def)

lemma advance_window_inv: "reassembly_inv f \<Longrightarrow> reassembly_inv (advanceIncomingFragmentWindow order q f)"
  by (simp add: advanceIncomingFragmentWindow_def clearIncomingFragments_def Let_def delete_where_inv)

lemma advance_window_fields [simp]:
  "maxPacketBytes (advanceIncomingFragmentWindow order q f) = maxPacketBytes f"
  "maxReassemblyBytes (advanceIncomingFragmentWindow order q f) = maxReassemblyBytes f"
  "reassemblyTimeout (advanceIncomingFragmentWindow order q f) = reassemblyTimeout f"
  "compression (advanceIncomingFragmentWindow order q f) = compression f"
  "fragmentSize (advanceIncomingFragmentWindow order q f) = fragmentSize f"
  by (simp_all add: advanceIncomingFragmentWindow_def clearIncomingFragments_def Let_def)

lemma evict_loop_inv:
  "evict_loop order q add lim f = (ok, g) \<Longrightarrow> reassembly_inv f \<Longrightarrow>
   reassembly_inv g \<and> maxPacketBytes g = maxPacketBytes f \<and> maxReassemblyBytes g = maxReassemblyBytes f \<and>
   compression g = compression f \<and> fragmentSize g = fragmentSize f \<and>
   reassemblyTimeout g = reassemblyTimeout f \<and>
   (ok \<longrightarrow> incomingBytes g + add \<le> lim \<and> incomingBySequence g q = incomingBySequence f q)"
proof (induction order q add lim f rule: evict_loop.induct)
  case (1 order q add lim f)
  show ?case
  proof (cases "lim < incomingBytes f + add")
    case True
    show ?thesis
    proof (cases "oldestIncomingFragmentSequence order q f")
      case None
      then show ?thesis
        using "1.prems" True by (auto simp: evict_loop.simps [of order q add lim f] delete_inv)
    next
      case (Some k)
      have "k \<noteq> q" using oldest_Some [OF Some] by simp
      then show ?thesis
        using "1.IH" [OF True Some] "1.prems" True Some
        by (simp add: evict_loop.simps [of order q add lim f] delete_inv)
    qed
  next
    case False
    then show ?thesis using "1.prems" by (auto simp: evict_loop.simps [of order q add lim f])
  qed
qed

text \<open>Replacing the buffer of one sequence, with the matching change of the total.\<close>

lemma put_buffer_inv:
  assumes inv: "reassembly_inv f" and q: "q < 256" and b: "buffer_ok b" "buffered_bytes b \<le> maxPacketBytes f"
      and tot: "tot = incomingBytes f - bytes_at f q + buffered_bytes b" "tot \<le> maxReassemblyBytes f"
  shows "reassembly_inv (f\<lparr>incomingBySequence := (incomingBySequence f)(q \<mapsto> b), incomingBytes := tot\<rparr>)"
proof -
  let ?g = "f\<lparr>incomingBySequence := (incomingBySequence f)(q \<mapsto> b), incomingBytes := tot\<rparr>"
  have at: "bytes_at ?g = (\<lambda>j. if j = q then buffered_bytes b else bytes_at f j)"
    by (auto simp: bytes_at_def fun_eq_iff)
  have "(\<Sum>j < 256. bytes_at ?g j) = tot"
    unfolding at using inv q tot(1) by (simp add: sum_update reassembly_inv_def)
  moreover have "maxPacketBytes ?g = maxPacketBytes f" "maxReassemblyBytes ?g = maxReassemblyBytes f"
    by (simp_all add: maxPacketBytes_def maxReassemblyBytes_def)
  ultimately show ?thesis
    using inv q b tot(2) by (auto simp: reassembly_inv_def split: if_splits)
qed

lemma empty_buffer_ok: "buffer_ok \<lparr>maxSize = m, lastID = l, parts = Map.empty, buffered_bytes = 0, updated = t\<rparr>"
  by (simp add: buffer_ok_def part_bytes_def)

lemma put_part_ok:
  assumes "buffer_ok b" "i < openVPNFragmentMaxParts"
  shows "buffer_ok (put_part now i mf l p (int (length p) - part_bytes b i) b)"
proof -
  let ?c = "put_part now i mf l p (int (length p) - part_bytes b i) b"
  have "part_bytes ?c = (\<lambda>j. if j = i then int (length p) else part_bytes b j)"
    by (auto simp: part_bytes_def fun_eq_iff put_part_def)
  then show ?thesis
    using assms by (auto simp: buffer_ok_def sum_update) (auto simp: put_part_def split: if_splits)
qed

lemma open_buffer_inv:
  assumes inv: "reassembly_inv f" and q: "q < 256" and o: "open_fragment_buffer order now q fs f = (b, g)"
  shows "reassembly_inv g \<and> incomingBySequence g q = Some b \<and> maxPacketBytes g = maxPacketBytes f \<and>
         maxReassemblyBytes g = maxReassemblyBytes f \<and> compression g = compression f \<and> fragmentSize g = fragmentSize f \<and>
         reassemblyTimeout g = reassemblyTimeout f"
proof -
  define f1 where "f1 = advanceIncomingFragmentWindow order q f"
  define f2 where "f2 = (case incomingBySequence f1 q of
      Some b \<Rightarrow> if maxSize b \<noteq> fs then deleteIncomingFragmentBuffer q f1 else f1 | None \<Rightarrow> f1)"
  have f2: "reassembly_inv f2" "maxPacketBytes f2 = maxPacketBytes f" "maxReassemblyBytes f2 = maxReassemblyBytes f"
      "compression f2 = compression f" "fragmentSize f2 = fragmentSize f"
      "reassemblyTimeout f2 = reassemblyTimeout f"
    using inv by (auto simp: f2_def f1_def advance_window_inv delete_inv split: option.split)
  have b: "b = (case incomingBySequence f2 q of Some b \<Rightarrow> b
      | None \<Rightarrow> \<lparr>maxSize = fs, lastID = -1, parts = Map.empty, buffered_bytes = 0, updated = now\<rparr>)"
    and g: "g = f2\<lparr>incomingBySequence := (incomingBySequence f2)(q \<mapsto> b)\<rparr>"
    using o by (auto simp: open_fragment_buffer_def Let_def f1_def [symmetric] f2_def [symmetric])
  have at: "bytes_at f2 q = buffered_bytes b" by (simp add: bytes_at_def b split: option.split)
  have ok: "buffer_ok b" "buffered_bytes b \<le> maxPacketBytes f2"
    using f2(1) empty_buffer_ok
    by (auto simp: b reassembly_inv_def maxPacketBytes_def fragment_consts split: option.split)
  have "reassembly_inv (f2\<lparr>incomingBySequence := (incomingBySequence f2)(q \<mapsto> b), incomingBytes := incomingBytes f2\<rparr>)"
    using f2(1) by (intro put_buffer_inv [OF f2(1) q ok]) (auto simp: at reassembly_inv_def)
  then have "reassembly_inv g" by (simp add: g)
  then show ?thesis using f2 by (auto simp: g maxPacketBytes_def maxReassemblyBytes_def)
qed

lemma store_inv:
  assumes inv: "reassembly_inv f" and q: "q < 256" and i: "i < openVPNFragmentMaxParts"
      and s: "storeIncomingFragment order now q i mf l p f = (r, g)"
  shows "reassembly_inv g \<and> maxPacketBytes g = maxPacketBytes f \<and> maxReassemblyBytes g = maxReassemblyBytes f \<and>
         compression g = compression f \<and> fragmentSize g = fragmentSize f \<and>
         reassemblyTimeout g = reassemblyTimeout f"
proof -
  let ?e = "expireIncomingFragments order now f"
  obtain b f1 where o: "open_fragment_buffer order now q (if 0 < mf then mf else int (length p)) ?e = (b, f1)"
    by fastforce
  note f1 = open_buffer_inv [OF expire_inv [OF inv] q o]
  let ?add = "int (length p) - part_bytes b i"
  obtain ok f2 where ev: "evict_loop order q ?add (maxReassemblyBytes ?e) f1 = (ok, f2)" by fastforce
  have f2: "reassembly_inv f2" "maxPacketBytes f2 = maxPacketBytes f" "maxReassemblyBytes f2 = maxReassemblyBytes f"
      "compression f2 = compression f" "fragmentSize f2 = fragmentSize f"
      "reassemblyTimeout f2 = reassemblyTimeout f"
      "ok \<Longrightarrow> incomingBytes f2 + ?add \<le> maxReassemblyBytes f \<and> incomingBySequence f2 q = Some b"
    using evict_loop_inv [OF ev] f1 by auto
  let ?c = "put_part now i mf l p ?add b"
  let ?f3 = "f2\<lparr>incomingBySequence := (incomingBySequence f2)(q \<mapsto> ?c), incomingBytes := incomingBytes f2 + ?add\<rparr>"
  have b: "buffer_ok b" using f1 by (auto simp: reassembly_inv_def)
  have f3: "reassembly_inv ?f3" if "ok" "buffered_bytes b + ?add \<le> maxPacketBytes f"
    using that f2 put_part_ok [OF b i]
    by (intro put_buffer_inv [OF f2(1) q]) (auto simp: bytes_at_def put_part_def)
  have c3: "maxPacketBytes ?f3 = maxPacketBytes f2" "maxReassemblyBytes ?f3 = maxReassemblyBytes f2"
    by (simp_all add: maxPacketBytes_def maxReassemblyBytes_def)
  show ?thesis
    using s f1 f2 f3 c3 expire_inv [OF inv] ev
    unfolding storeIncomingFragment_def Let_def maxPacketBytes_def [symmetric] maxReassemblyBytes_def [symmetric]
      part_bytes_def [symmetric] o prod.case
    by (cases ok) (auto simp: delete_inv split: if_splits option.splits)
qed

section \<open>What the fragments of a packet are\<close>

definition fragment_count :: "bytes \<Rightarrow> nat \<Rightarrow> nat" where
  "fragment_count payload fs = (length payload + fs - 1) div fs"

definition chunk :: "bytes \<Rightarrow> nat \<Rightarrow> nat \<Rightarrow> bytes" where
  "chunk payload fs k = take fs (drop (k * fs) payload)"

definition fragment_of :: "bytes \<Rightarrow> nat \<Rightarrow> nat \<Rightarrow> nat \<Rightarrow> bytes" where
  "fragment_of payload fs q k =
     (let isLast = (Suc k = fragment_count payload fs)
      in prependFragmentHeader (chunk payload fs k)
           (if isLast then openVPNFragmentTypeLast else openVPNFragmentTypePartial) q k
           (if isLast then drop_bit 2 fs else 0))"

lemma less_fragment_count: "0 < fs \<Longrightarrow> k < fragment_count payload fs \<longleftrightarrow> k * fs < length payload"
proof -
  assume "0 < fs"
  then have "Suc k \<le> (length payload + fs - 1) div fs \<longleftrightarrow> Suc k * fs \<le> length payload + fs - 1"
    by (rule less_eq_div_iff_mult_less_eq)
  then show ?thesis using \<open>0 < fs\<close> unfolding fragment_count_def Suc_le_eq by auto
qed

lemma length_chunk:
  assumes "0 < fs"
  shows "length (chunk payload fs k) = (if Suc k < fragment_count payload fs then fs else length payload - k * fs)"
proof (cases "Suc k < fragment_count payload fs")
  case True
  then have "Suc k * fs < length payload" using less_fragment_count assms by blast
  then show ?thesis using True by (simp add: chunk_def)
next
  case False
  then have "length payload \<le> Suc k * fs" using less_fragment_count [of fs "Suc k" payload] assms by simp
  then show ?thesis using False by (simp add: chunk_def)
qed

lemma chunks_prefix:
  "concat (map (chunk payload fs) [0..<n]) = take (n * fs) payload"
proof (induction n)
  case (Suc n)
  have "take (Suc n * fs) payload = take (n * fs) payload @ take fs (drop (n * fs) payload)"
    using take_add [of "n * fs" fs payload] by (simp add: add.commute)
  then show ?case using Suc by (simp add: chunk_def)
qed simp

lemma concat_chunks:
  assumes "0 < fs"
  shows "concat (map (chunk payload fs) [0..<fragment_count payload fs]) = payload"
  using less_fragment_count [OF assms, of "fragment_count payload fs" payload]
  by (simp add: chunks_prefix)

lemma fragment_loop_spec:
  assumes fs: "0 < fs"
  shows "fragment_loop payload fs q (k * fs) k = Inr frs \<Longrightarrow> k < fragment_count payload fs \<Longrightarrow>
    frs = map (fragment_of payload fs q) [k..<fragment_count payload fs] \<and>
    fragment_count payload fs \<le> openVPNFragmentMaxParts"
proof (induction "fragment_count payload fs - k" arbitrary: k frs)
  case (Suc m)
  let ?n = "fragment_count payload fs"
  have lt: "k * fs < length payload" using less_fragment_count [OF fs] Suc.prems(2) by simp
  note unf = Suc.prems(1) [unfolded fragment_loop.simps [of payload fs q "k * fs" k]]
  have k: "k < openVPNFragmentMaxParts" using unf lt by (auto split: if_splits)
  have c: "take (min fs (length payload - k * fs)) (drop (k * fs) payload) = chunk payload fs k"
    by (simp add: chunk_def min_def)
  show ?case
  proof (cases "Suc k < ?n")
    case True
    then have "Suc k * fs < length payload" using less_fragment_count [OF fs] by blast
    then have "\<not> length payload \<le> fs + k * fs" by simp
    then have e: "\<not> length payload \<le> fs + k * fs" "\<not> length payload \<le> k * fs + min fs (length payload - k * fs)"
        "k * fs + min fs (length payload - k * fs) = Suc k * fs" by auto
    obtain rest where r: "fragment_loop payload fs q (Suc k * fs) (Suc k) = Inr rest"
        "frs = fragment_of payload fs q k # rest"
      using unf lt k True by (auto simp: Let_def e c fragment_of_def split: sum.splits)
    have "rest = map (fragment_of payload fs q) [Suc k..<?n] \<and> ?n \<le> openVPNFragmentMaxParts"
      using Suc.hyps Suc.prems True r(1) by (intro Suc.hyps(1)) auto
    then show ?thesis using r(2) Suc.prems(2) by (simp add: upt_conv_Cons)
  next
    case False
    then have n: "?n = Suc k" using Suc.prems(2) by simp
    have "length payload \<le> Suc k * fs" using less_fragment_count [OF fs, of "Suc k" payload] n by simp
    then have e: "k * fs + min fs (length payload - k * fs) = length payload" using lt by auto
    have "frs = [fragment_of payload fs q k]"
      using unf lt k n fragment_loop.simps [of payload fs q "length payload" "Suc k"]
      by (auto simp: Let_def e c fragment_of_def)
    then show ?thesis using k n by simp
  qed
qed simp

lemma round_down_4: "(sz :: int) AND NOT 3 = 4 * (sz div 4)"
proof -
  have "sz AND NOT (mask 2) = push_bit 2 (drop_bit 2 sz)"
    by (rule bit_eqI) (auto simp: bit_simps not_less dest!: le_Suc_ex)
  then show ?thesis by (simp add: push_bit_eq_mult drop_bit_eq_div mask_eq_exp_minus_1 mult.commute)
qed

lemma encodeFragments_spec:
  assumes enc: "encodeFragments payload sz f = (Inr frs, f')"
  defines "fs \<equiv> nat (sz AND NOT 3)"
  shows "0 < fs \<and> 4 dvd fs \<and>
     (length payload \<le> fs \<and> frs = [prependFragmentHeader payload openVPNFragmentTypeWhole 0 0 0] \<or>
      fs < length payload \<and> 1 < fragment_count payload fs \<and> fragment_count payload fs \<le> openVPNFragmentMaxParts \<and>
      frs = map (fragment_of payload fs (outgoingSequence f)) [0..<fragment_count payload fs])"
proof -
  have pos: "0 < sz AND NOT 3" using enc by (auto simp: encodeFragments_def Let_def split: if_splits)
  then have fs: "0 < fs" "int fs = sz AND NOT 3" unfolding fs_def by linarith+
  have "4 dvd int fs" unfolding fs(2) round_down_4 by simp
  then have d: "4 dvd fs" by presburger
  show ?thesis
  proof (cases "length payload \<le> fs")
    case True
    then have "int (length payload) \<le> sz AND NOT 3" unfolding fs(2) [symmetric] by simp
    then show ?thesis using True enc pos fs(1) d by (auto simp: encodeFragments_def Let_def)
  next
    case False
    then have "\<not> int (length payload) \<le> sz AND NOT 3" unfolding fs(2) [symmetric] by simp
    then have l: "fragment_loop payload fs (outgoingSequence f) (0 * fs) 0 = Inr frs"
      using enc pos unfolding fs_def by (auto simp: encodeFragments_def Let_def)
    have n: "1 < fragment_count payload fs" using False less_fragment_count [OF fs(1), of 1 payload] by simp
    then show ?thesis using fragment_loop_spec [OF fs(1) l] False fs(1) d by simp
  qed
qed

section \<open>Reassembly in any order\<close>

definition reassembly_timeout :: "dataChannelFraming \<Rightarrow> duration" where
  "reassembly_timeout f = (if reassemblyTimeout f \<le> 0 then openVPNFragmentReassemblyTimeout else reassemblyTimeout f)"

definition in_window :: "nat \<Rightarrow> dataChannelFraming \<Rightarrow> bool" where
  "in_window q f =
     (incomingSequenceSet f \<and>
      fragmentSequenceDifference (int q) (int (incomingSequence f)) \<le> 0 \<and>
      - openVPNFragmentReceiveWindow < fragmentSequenceDifference (int q) (int (incomingSequence f)))"

lemma in_window_idle: "in_window q f \<Longrightarrow> advanceIncomingFragmentWindow order q f = f"
  by (auto simp: in_window_def advanceIncomingFragmentWindow_def Let_def fragment_consts)

lemma advance_in_window: "in_window q (advanceIncomingFragmentWindow order q f)"
  by (auto simp: in_window_def advanceIncomingFragmentWindow_def clearIncomingFragments_def Let_def
        fragmentSequenceDifference_def fragment_consts)

text \<open>
  The buffer of a packet of which the fragments in \<open>S\<close> have arrived, and the state of a receiver
  that holds it; \<open>base\<close> bounds the bytes of the other packets.
\<close>

definition holds :: "bytes \<Rightarrow> nat \<Rightarrow> nat set \<Rightarrow> incomingFragmentBuffer \<Rightarrow> bool" where
  "holds payload fs S b =
     (maxSize b = int fs \<and> parts b = (\<lambda>k. if k \<in> S then Some (chunk payload fs k) else None) \<and>
      lastID b = (if fragment_count payload fs - 1 \<in> S then int (fragment_count payload fs - 1) else -1))"

definition receiving :: "bytes \<Rightarrow> nat \<Rightarrow> nat \<Rightarrow> int \<Rightarrow> nat set \<Rightarrow> time \<Rightarrow> dataChannelFraming \<Rightarrow> bool" where
  "receiving payload fs q base S t f =
     (reassembly_inv f \<and>
      incomingBytes f \<le> base + (\<Sum>k \<in> S. int (length (chunk payload fs k))) \<and>
      (if S = {} then incomingBySequence f q = None
       else in_window q f \<and> (\<exists>b. incomingBySequence f q = Some b \<and> holds payload fs S b \<and> updated b = t)))"

lemma holds_bytes:
  assumes "buffer_ok b" "holds payload fs S b" "S \<subseteq> {..<openVPNFragmentMaxParts}"
  shows "buffered_bytes b = (\<Sum>k \<in> S. int (length (chunk payload fs k)))"
proof -
  have "part_bytes b k = (if k \<in> S then int (length (chunk payload fs k)) else 0)" for k
    using assms(2) by (simp add: holds_def part_bytes_def)
  then have "buffered_bytes b = (\<Sum>k < openVPNFragmentMaxParts. if k \<in> S then int (length (chunk payload fs k)) else 0)"
    using assms(1) by (simp add: buffer_ok_def)
  also have "\<dots> = (\<Sum>k \<in> {..<openVPNFragmentMaxParts} \<inter> S. int (length (chunk payload fs k)))"
    by (simp add: sum.inter_restrict)
  finally show ?thesis using assms(3) by (simp add: Int_absorb1)
qed

lemma chunk_bytes_le:
  assumes "0 < fs" "S \<subseteq> {..<fragment_count payload fs}"
  shows "(\<Sum>k \<in> S. int (length (chunk payload fs k))) \<le> int (length payload)"
proof -
  have "(\<Sum>k \<in> S. length (chunk payload fs k)) \<le> (\<Sum>k < fragment_count payload fs. length (chunk payload fs k))"
    using assms(2) by (intro sum_mono2) auto
  also have "\<dots> = length (concat (map (chunk payload fs) [0..<fragment_count payload fs]))"
    by (simp add: length_concat interv_sum_list_conv_sum_set_nat atLeast0LessThan o_def)
  finally show ?thesis using concat_chunks [OF assms(1), of payload] by (simp flip: of_nat_sum)
qed

lemma reassemble_holds:
  assumes fs: "0 < fs" and n: "0 < fragment_count payload fs" and h: "holds payload fs S b"
      and S: "S \<subseteq> {..<fragment_count payload fs}"
  shows "reassemble b = (if S = {..<fragment_count payload fs} then Some payload else None)"
proof (cases "fragment_count payload fs - 1 \<in> S")
  case False
  then have "S \<noteq> {..<fragment_count payload fs}" using n by auto
  then show ?thesis using False h by (simp add: reassemble_def holds_def)
next
  case True
  let ?n = "fragment_count payload fs"
  have l: "nat (lastID b + 1) = ?n" using True h n by (simp add: holds_def)
  have ex: "list_ex (\<lambda>k. parts b k = None) [0..<?n] = (S \<noteq> {..<?n})"
    using h S by (auto simp: list_ex_iff holds_def)
  have c: "concat (map (\<lambda>k. the (parts b k)) [0..<?n]) = payload" if "S = {..<?n}"
  proof -
    have "map (\<lambda>k. the (parts b k)) [0..<?n] = map (chunk payload fs) [0..<?n]"
      using h that by (simp add: holds_def)
    then show ?thesis by (simp only: concat_chunks [OF fs])
  qed
  have "\<not> lastID b < 0" using True h by (simp add: holds_def)
  then show ?thesis unfolding reassemble_def l ex using c by simp
qed

lemma expire_keeps:
  assumes "order_ok order" "reassembly_inv f" "incomingBySequence f q = Some b"
      and "updated b \<noteq> 0" "now - updated b < reassembly_timeout f"
  shows "incomingBySequence (expireIncomingFragments order now f) q = Some b"
  using assms by (simp add: expireIncomingFragments_def delete_where_inc reassembly_timeout_def Let_def)

lemma expire_None:
  assumes "order_ok order" "reassembly_inv f" "incomingBySequence f q = None"
  shows "incomingBySequence (expireIncomingFragments order now f) q = None"
  using assms by (simp add: expireIncomingFragments_def delete_where_inc Let_def)

lemma advance_window_None:
  assumes "order_ok order" "reassembly_inv f" "incomingBySequence f q = None"
  shows "incomingBySequence (advanceIncomingFragmentWindow order q f) q = None"
proof -
  have "incomingBySequence (delete_where order c (f\<lparr>incomingSequence := q\<rparr>)) q = None" for c
    using assms by (subst delete_where_inc) simp_all
  then show ?thesis
    using assms by (simp add: advanceIncomingFragmentWindow_def clearIncomingFragments_def Let_def delete_where_inc)
qed

lemma expire_bytes:
  "reassembly_inv f \<Longrightarrow> incomingBytes (expireIncomingFragments order now f) \<le> incomingBytes f"
  by (simp add: expireIncomingFragments_def Let_def delete_where_bytes)

lemma advance_window_bytes:
  assumes "reassembly_inv f"
  shows "incomingBytes (advanceIncomingFragmentWindow order q f) \<le> incomingBytes f"
proof -
  have "incomingBytes (delete_where order c (f\<lparr>incomingSequence := q\<rparr>)) \<le> incomingBytes f" for c
    using delete_where_bytes [of "f\<lparr>incomingSequence := q\<rparr>"] assms by simp
  then show ?thesis
    using assms delete_where_bytes [of f]
    by (simp add: advanceIncomingFragmentWindow_def clearIncomingFragments_def Let_def)
qed

text \<open>The buffer that the next fragment meets, whether it is the first one or not.\<close>

lemma open_receiving:
  assumes ord: "order_ok order" and r: "receiving payload fs q base S t f"
      and now: "S \<noteq> {} \<Longrightarrow> t \<noteq> 0 \<and> now - t < reassembly_timeout f"
      and o: "open_fragment_buffer order now q (int fs) (expireIncomingFragments order now f) = (b, g)"
  shows "holds payload fs S b \<and> in_window q g \<and>
         incomingBytes g \<le> base + (\<Sum>k \<in> S. int (length (chunk payload fs k)))"
proof (cases "S = {}")
  case True
  let ?e = "expireIncomingFragments order now f"
  let ?a = "advanceIncomingFragmentWindow order q ?e"
  have inv: "reassembly_inv f" "incomingBySequence f q = None" using r True by (auto simp: receiving_def)
  have "incomingBySequence ?a q = None"
    by (intro advance_window_None ord expire_inv expire_None inv)
  then have b: "b = \<lparr>maxSize = int fs, lastID = -1, parts = Map.empty, buffered_bytes = 0, updated = now\<rparr>"
    and g: "g = ?a\<lparr>incomingBySequence := (incomingBySequence ?a)(q \<mapsto> b)\<rparr>"
    using o by (auto simp: open_fragment_buffer_def Let_def)
  have "incomingBytes ?a \<le> incomingBytes f"
    using advance_window_bytes [OF expire_inv [OF inv(1)]] expire_bytes [OF inv(1)] order_trans by blast
  then show ?thesis
    using True r advance_in_window [of q order ?e] by (auto simp: b g holds_def receiving_def in_window_def)
next
  case False
  let ?e = "expireIncomingFragments order now f"
  obtain c where c: "incomingBySequence f q = Some c" "holds payload fs S c" "updated c = t"
    and inv: "reassembly_inv f" "in_window q f"
    using r False by (auto simp: receiving_def)
  have e: "incomingBySequence ?e q = Some c"
    using c now [OF False] by (intro expire_keeps ord inv) auto
  have w: "in_window q ?e" using inv(2) by (simp add: in_window_def)
  have "b = c" "g = ?e\<lparr>incomingBySequence := (incomingBySequence ?e)(q \<mapsto> c)\<rparr>"
    using o e c(2) by (auto simp: open_fragment_buffer_def Let_def in_window_idle [OF w] holds_def)
  moreover have "incomingBytes ?e \<le> incomingBytes f"
    by (rule expire_bytes [OF inv(1)])
  ultimately show ?thesis using c(2) w r by (auto simp: receiving_def in_window_def)
qed

lemma holds_put_part:
  assumes h: "holds payload fs S b" and fs: "0 < fs" and k: "k < fragment_count payload fs"
  shows "holds payload fs (insert k S)
           (put_part now k (if Suc k = fragment_count payload fs then int fs else 0)
              (Suc k = fragment_count payload fs) (chunk payload fs k) add b)"
  using h fs k by (auto simp: holds_def put_part_def fun_eq_iff)

lemma store_receiving:
  fixes payload fs k
  defines "n \<equiv> fragment_count payload fs"
  assumes ord: "order_ok order" and r: "receiving payload fs q base S t f"
      and now: "S \<noteq> {} \<Longrightarrow> t \<noteq> 0 \<and> now - t < reassembly_timeout f"
      and fs: "0 < fs" and q: "q < 256" and n: "n \<le> openVPNFragmentMaxParts"
      and S: "S \<subseteq> {..<n}" "k < n" "k \<notin> S"
      and room: "base + int (length payload) \<le> maxReassemblyBytes f" "int (length payload) \<le> maxPacketBytes f"
      and st: "storeIncomingFragment order now q k (if Suc k = n then int fs else 0) (Suc k = n) (chunk payload fs k) f
                 = (res, g)"
  shows "res = Inr (if insert k S = {..<n} then Some payload else None) \<and>
         (insert k S \<noteq> {..<n} \<longrightarrow> receiving payload fs q base (insert k S) now g)"
proof -
  let ?mf = "if Suc k = n then int fs else 0"
  let ?e = "expireIncomingFragments order now f"
  let ?len = "\<lambda>S. \<Sum>k \<in> S. int (length (chunk payload fs k))"
  have inv: "reassembly_inv f" using r by (simp add: receiving_def)
  have size: "(if 0 < ?mf then ?mf else int (length (chunk payload fs k))) = int fs"
    using fs S(2) by (simp add: length_chunk [OF fs] n_def)
  obtain b f1 where o: "open_fragment_buffer order now q (int fs) ?e = (b, f1)" by fastforce
  note h = open_receiving [OF ord r now o]
  note f1 = open_buffer_inv [OF expire_inv [OF inv] q o]
  have fin: "finite S" using S(1) finite_subset by blast
  have ins: "?len (insert k S) = ?len S + int (length (chunk payload fs k))" using fin S(3) by simp
  have le: "?len (insert k S) \<le> int (length payload)"
    using S unfolding n_def by (intro chunk_bytes_le [OF fs]) auto
  have ge: "0 \<le> ?len S" by (simp add: sum_nonneg)
  have part: "parts b k = None" using h S(3) by (simp add: holds_def)
  have bb: "buffered_bytes b = ?len S"
    using f1 h S(1) n by (intro holds_bytes) (auto simp: reassembly_inv_def)
  let ?add = "int (length (chunk payload fs k))"
  have ev: "evict_loop order q ?add (maxReassemblyBytes ?e) f1 = (True, f1)"
    using h room(1) le ins by (subst evict_loop.simps) auto
  let ?c = "put_part now k ?mf (Suc k = n) (chunk payload fs k) ?add b"
  let ?f2 = "f1\<lparr>incomingBySequence := (incomingBySequence f1)(q \<mapsto> ?c), incomingBytes := incomingBytes f1 + ?add\<rparr>"
  have hc: "holds payload fs (insert k S) ?c" using holds_put_part h fs S(2) unfolding n_def by blast
  have re: "reassemble ?c = (if insert k S = {..<n} then Some payload else None)"
    unfolding n_def using S hc by (intro reassemble_holds [OF fs]) (auto simp: n_def)
  have small: "\<not> maxPacketBytes ?e < ?add" "\<not> maxPacketBytes ?e < buffered_bytes b + ?add"
    using room(2) le ins ge bb by auto
  have out: "(res, g) = (case reassemble ?c of None \<Rightarrow> (Inr None, ?f2)
                 | Some p \<Rightarrow> (Inr (Some p), deleteIncomingFragmentBuffer q ?f2))"
    using st small
    unfolding storeIncomingFragment_def Let_def maxPacketBytes_def [symmetric] maxReassemblyBytes_def [symmetric]
      size o prod.case part option.case diff_0_right ev
    by (simp add: ev)
  show ?thesis
  proof (cases "insert k S = {..<n}")
    case True
    then show ?thesis using out by (simp add: re)
  next
    case False
    then have res: "res = Inr None" and g: "g = ?f2" using out by (simp_all add: re)
    have "reassembly_inv g" using store_inv [OF inv q _ st] S(2) n by simp
    moreover have "in_window q g" using h by (simp add: g in_window_def)
    moreover have "incomingBytes g \<le> base + ?len (insert k S)" using h ins by (simp add: g)
    moreover have "incomingBySequence g q = Some ?c" by (simp add: g)
    moreover have "updated ?c = now" by (simp add: put_part_def)
    ultimately have "receiving payload fs q base (insert k S) now g"
      using hc unfolding receiving_def if_not_P [OF insert_not_empty] by blast
    then show ?thesis using res False by simp
  qed
qed

fun decode_run ::
  "iteration_order \<Rightarrow> dataChannelFraming \<Rightarrow> (time \<times> bytes) list \<Rightarrow> bytes option result list \<times> dataChannelFraming" where
  "decode_run order f [] = ([], f)"
| "decode_run order f ((now, frag) # rest) =
     (case decodeFragment order now frag f of (r, f) \<Rightarrow>
      case decode_run order f rest of (rs, f) \<Rightarrow> (r # rs, f))"

lemma decode_fragment_of:
  fixes payload fs
  defines "n \<equiv> fragment_count payload fs"
  assumes "k < n" "n \<le> openVPNFragmentMaxParts" "q < 256" "4 dvd fs" "fs < 65536"
  shows "decodeFragment order now (fragment_of payload fs q k) f =
         storeIncomingFragment order now q k (if Suc k = n then int fs else 0) (Suc k = n) (chunk payload fs k) f"
proof -
  have "drop_bit 2 fs = fs div 4" by (simp add: drop_bit_eq_div)
  moreover have "4 * (fs div 4) = fs" using assms(5) by simp
  moreover have "fs div 4 < 16384" using assms(6) by linarith
  ultimately show ?thesis
    using assms decode_prepend [of openVPNFragmentTypeLast q k "fs div 4" order now "chunk payload fs k" f]
      decode_prepend [of openVPNFragmentTypePartial q k 0 order now "chunk payload fs k" f]
    by (auto simp: fragment_of_def Let_def fragment_consts)
qed

lemma decode_run_receiving:
  fixes payload fs
  defines "n \<equiv> fragment_count payload fs"
  assumes ord: "order_ok order" and fs: "0 < fs" "4 dvd fs" "fs < 65536" and q: "q < 256"
      and n: "n \<le> openVPNFragmentMaxParts" and t0: "0 < t0"
  shows "receiving payload fs q base S t f \<Longrightarrow> (S \<noteq> {} \<Longrightarrow> t0 \<le> t \<and> t < t0 + reassembly_timeout f) \<Longrightarrow>
     base + int (length payload) \<le> maxReassemblyBytes f \<Longrightarrow> int (length payload) \<le> maxPacketBytes f \<Longrightarrow>
     S \<subseteq> {..<n} \<Longrightarrow> xs \<noteq> [] \<Longrightarrow> distinct (map snd xs) \<Longrightarrow> set (map snd xs) = {..<n} - S \<Longrightarrow>
     \<forall>x \<in> set xs. t0 \<le> fst x \<and> fst x < t0 + reassembly_timeout f \<Longrightarrow>
     fst (decode_run order f (map (\<lambda>(t, k). (t, fragment_of payload fs q k)) xs)) =
       replicate (length xs - 1) (Inr None) @ [Inr (Some payload)]"
proof (induction xs arbitrary: S t f)
  case (Cons x xs)
  obtain now k where x: "x = (now, k)" by fastforce
  have k: "k < n" "k \<notin> S" using Cons.prems(8) x by auto
  obtain r g where st: "storeIncomingFragment order now q k (if Suc k = n then int fs else 0) (Suc k = n)
      (chunk payload fs k) f = (r, g)" by fastforce
  have d: "decodeFragment order now (fragment_of payload fs q k) f = (r, g)"
    using decode_fragment_of [of k payload fs q order now f] k n q fs st unfolding n_def by simp
  have inv: "reassembly_inv f" using Cons.prems(1) by (simp add: receiving_def)
  have fresh: "S \<noteq> {} \<Longrightarrow> t \<noteq> 0 \<and> now - t < reassembly_timeout f"
    using Cons.prems(2,9) t0 x by auto
  have step: "r = Inr (if insert k S = {..<n} then Some payload else None)"
      "insert k S \<noteq> {..<n} \<Longrightarrow> receiving payload fs q base (insert k S) now g"
    using store_receiving [OF ord Cons.prems(1) fresh fs(1) q] n Cons.prems(3-5) k st unfolding n_def by blast+
  have keep: "maxPacketBytes g = maxPacketBytes f" "maxReassemblyBytes g = maxReassemblyBytes f"
      "reassembly_timeout g = reassembly_timeout f"
    using store_inv [OF inv q _ st] k n by (auto simp: reassembly_timeout_def)
  have rest: "set (map snd xs) = {..<n} - insert k S" "distinct (map snd xs)"
    using Cons.prems(7,8) x by auto
  show ?case
  proof (cases "xs = []")
    case True
    then have "insert k S = {..<n}" using rest Cons.prems(5) k by auto
    then show ?thesis using True step d x by simp
  next
    case False
    then have ne: "insert k S \<noteq> {..<n}" using rest(1) by auto
    have "fst (decode_run order g (map (\<lambda>(t, k). (t, fragment_of payload fs q k)) xs)) =
          replicate (length xs - 1) (Inr None) @ [Inr (Some payload)]"
      using step(2) [OF ne] Cons.prems(3-5,9) keep rest False k x
      by (intro Cons.IH [of "insert k S" now g]) auto
    moreover have "replicate (length xs) z = z # replicate (length xs - 1) z" for z :: "bytes option result"
      using False by (cases xs) auto
    ultimately show ?thesis using ne step(1) d x by (auto split: prod.splits)
  qed
qed simp

section \<open>Round trip of the whole framing\<close>

text \<open>What Encode hands to the fragmenter, and that decoding takes it off again.\<close>

lemma framing_Encode_cases:
  assumes "framing_Encode now payload sz (Some f) = (Inr frs, fo)"
      and lzo: "lzo (compressLZOBlock payload) = Inr payload"
  shows "\<exists>framed f1. unframe_payload lzo lz4 (compression f) framed = Inr payload \<and>
           length framed \<le> length payload + 2 \<and>
           outgoingSequence f1 = outgoingSequence f \<and>
           (if fragmentSize f \<le> 0 then frs = [framed]
            else \<exists>f2. encodeFragments framed sz f1 = (Inr frs, f2))"
proof -
  define r where "r = (case algorithm (compression f) of
                   compressionAlgorithmStub \<Rightarrow> (applyStubCompressionFrame payload (swap (compression f)), f)
                 | compressionAlgorithmLZ4 \<Rightarrow> (applyStubCompressionFrame payload True, f)
                 | compressionAlgorithmLZO \<Rightarrow> encodeLZOFrame now payload f
                 | compressionAlgorithmStubV2 \<Rightarrow> (escapeV2StubCompression payload, f)
                 | compressionAlgorithmLZ4V2 \<Rightarrow> (escapeV2StubCompression payload, f)
                 | compressionAlgorithmNone \<Rightarrow> (payload, f))"
  have lzo_frame: "decodeLZOFrame lzo (fst (encodeLZOFrame now payload f)) = Inr payload \<and>
      length (fst (encodeLZOFrame now payload f)) \<le> length payload + 1 \<and>
      outgoingSequence (snd (encodeLZOFrame now payload f)) = outgoingSequence f \<and>
      fragmentSize (snd (encodeLZOFrame now payload f)) = fragmentSize f"
  proof -
    have "compressLZOBlock payload \<noteq> []" by (simp add: compressLZOBlock_def Let_def split: prod.split)
    then show ?thesis
      using lzo
      by (auto simp: encodeLZOFrame_def decodeLZOFrame_def decompressLZOBlock_def Let_def compress_bytes
            openVPNCompressionThreshold_def lzoCompressionEnabled_def recordLZOCompression_def split: prod.splits)
  qed
  have len: "length (applyStubCompressionFrame payload b) = length payload + 1"
      "length (escapeV2StubCompression payload) \<le> length payload + 2" for b
    by (auto simp: applyStubCompressionFrame_def escapeV2StubCompression_def split: list.split)
  have "unframe_payload lzo lz4 (compression f) (fst r) = Inr payload \<and> length (fst r) \<le> length payload + 2 \<and>
      outgoingSequence (snd r) = outgoingSequence f \<and> fragmentSize (snd r) = fragmentSize f"
    using lzo_frame len by (cases "algorithm (compression f)") (auto simp: r_def unframe_payload_def)
  moreover have "if fragmentSize (snd r) \<le> 0 then frs = [fst r]
      else \<exists>f2. encodeFragments (fst r) sz (snd r) = (Inr frs, f2)"
    using assms(1) unfolding framing_Encode_def option.case r_def [symmetric]
    by (auto split: prod.splits)
  ultimately show ?thesis by (intro exI [of _ "fst r"] exI [of _ "snd r"]) auto
qed

lemma decodeFragment_inv:
  assumes "reassembly_inv f" "decodeFragment order now p f = (r, g)"
  shows "reassembly_inv g \<and> maxPacketBytes g = maxPacketBytes f \<and> maxReassemblyBytes g = maxReassemblyBytes f \<and>
         compression g = compression f \<and> fragmentSize g = fragmentSize f"
proof -
  let ?w = "get_u32 p"
  have "unat (drop_bit 2 ?w AND 0xff) < 256" "unat (drop_bit 10 ?w AND 0x1f) < openVPNFragmentMaxParts"
    using word_and_le1 [of "drop_bit 2 ?w" "0xff"] word_and_le1 [of "drop_bit 10 ?w" "0x1f"]
    by (simp_all add: word_le_nat_alt fragment_consts)
  note st = store_inv [OF assms(1) this]
  show ?thesis
    using assms st unfolding decodeFragment_def Let_def by (auto split: if_splits)
qed

fun Decode_run ::
  "decompressor \<Rightarrow> decompressor \<Rightarrow> iteration_order \<Rightarrow> dataChannelFraming option \<Rightarrow> (time \<times> bytes) list \<Rightarrow>
     bytes option result list" where
  "Decode_run lzo lz4 order fo [] = []"
| "Decode_run lzo lz4 order fo ((now, p) # rest) =
     (case framing_Decode lzo lz4 order now p fo of (r, fo) \<Rightarrow> r # Decode_run lzo lz4 order fo rest)"

lemma Decode_run_fragments:
  assumes "0 < fragmentSize g" "reassembly_inv g"
  shows "Decode_run lzo lz4 order (Some g) feed =
     map (\<lambda>r. case r of Inl e \<Rightarrow> Inl e | Inr None \<Rightarrow> Inr None
               | Inr (Some framed) \<Rightarrow> (case unframe_payload lzo lz4 (compression g) framed of
                     Inl e \<Rightarrow> Inl e | Inr p \<Rightarrow> Inr (Some p)))
       (fst (decode_run order g feed))"
  using assms
proof (induction feed arbitrary: g)
  case (Cons x feed)
  obtain now p where x: "x = (now, p)" by fastforce
  obtain r g1 where d: "decodeFragment order now p g = (r, g1)" by fastforce
  note keep = decodeFragment_inv [OF Cons.prems(2) d]
  have D: "framing_Decode lzo lz4 order now p (Some g) =
      ((case r of Inl e \<Rightarrow> Inl e | Inr None \<Rightarrow> Inr None
        | Inr (Some framed) \<Rightarrow> (case unframe_payload lzo lz4 (compression g) framed of
             Inl e \<Rightarrow> Inl e | Inr p \<Rightarrow> Inr (Some p))), Some g1)"
    using Cons.prems(1) keep by (auto simp: framing_Decode_def d split: sum.splits option.splits)
  show ?case
    using Cons.IH [of g1] Cons.prems keep by (simp add: x d D split: prod.splits)
qed simp

lemma mset_map_split:
  "mset xs = image_mset h M \<Longrightarrow> \<exists>ys. xs = map h ys \<and> mset ys = M"
proof (induction xs arbitrary: M)
  case (Cons x xs)
  then have "x \<in># image_mset h M" by (metis list.set_intros(1) set_mset_mset)
  then obtain y where y: "y \<in># M" "x = h y" by auto
  then have M: "M = add_mset y (M - {#y#})" by simp
  have "mset xs = image_mset h (M - {#y#})"
    using Cons.prems y(2) M by (metis add_mset_add_mset_same_iff image_mset_add_mset mset.simps(2))
  then obtain ys where "xs = map h ys" "mset ys = M - {#y#}" using Cons.IH by blast
  then show ?case using y M by (intro exI [of _ "y # ys"]) auto
qed simp

lemma fragments_any_order:
  assumes enc: "encodeFragments payload sz f = (Inr frs, f')"
      and ord: "order_ok order" and inv: "reassembly_inv g" and q: "outgoingSequence f < 256"
      and none: "incomingBySequence g (outgoingSequence f) = None"
      and room: "incomingBytes g + int (length payload) \<le> maxReassemblyBytes g" "int (length payload) \<le> maxPacketBytes g"
      and small: "length payload \<le> 65535"
      and perm: "mset (map snd feed) = mset frs"
      and t0: "0 < t0" and times: "\<forall>x \<in> set feed. t0 \<le> fst x \<and> fst x < t0 + reassembly_timeout g"
  shows "fst (decode_run order g feed) = replicate (length frs - 1) (Inr None) @ [Inr (Some payload)]"
proof -
  let ?q = "outgoingSequence f"
  obtain fs where fs: "0 < fs" "4 dvd fs" and
    cases: "length payload \<le> fs \<and> frs = [prependFragmentHeader payload openVPNFragmentTypeWhole 0 0 0] \<or>
      fs < length payload \<and> 1 < fragment_count payload fs \<and> fragment_count payload fs \<le> openVPNFragmentMaxParts \<and>
      frs = map (fragment_of payload fs ?q) [0..<fragment_count payload fs]"
    using encodeFragments_spec [OF enc] by blast
  from cases show ?thesis
  proof
    assume a: "length payload \<le> fs \<and> frs = [prependFragmentHeader payload openVPNFragmentTypeWhole 0 0 0]"
    then have "mset (map snd feed) = {#prependFragmentHeader payload openVPNFragmentTypeWhole 0 0 0#}"
      using perm by simp
    then obtain t where "feed = [(t, prependFragmentHeader payload openVPNFragmentTypeWhole 0 0 0)]"
      by (cases feed; cases "tl feed") auto
    then show ?thesis using a by (simp add: decode_prepend fragment_consts)
  next
    let ?n = "fragment_count payload fs"
    assume a: "fs < length payload \<and> 1 < ?n \<and> ?n \<le> openVPNFragmentMaxParts \<and>
               frs = map (fragment_of payload fs ?q) [0..<?n]"
    then have "mset (map snd feed) = image_mset (fragment_of payload fs ?q) (mset [0..<?n])" using perm by simp
    then obtain ys where ys: "map snd feed = map (fragment_of payload fs ?q) ys" "mset ys = mset [0..<?n]"
      using mset_map_split by blast
    define xs where "xs = zip (map fst feed) ys"
    have len: "length ys = length feed" using ys(1) by (metis length_map)
    have feed: "feed = map (\<lambda>(t, k). (t, fragment_of payload fs ?q k)) xs"
      unfolding xs_def
    proof (rule nth_equalityI)
      fix i assume "i < length feed"
      then show "feed ! i = map (\<lambda>(t, k). (t, fragment_of payload fs ?q k)) (zip (map fst feed) ys) ! i"
        using arg_cong [OF ys(1), of "\<lambda>l. l ! i"] len by (cases "feed ! i") simp
    qed (use len in simp)
    have snd: "map snd xs = ys" using len by (simp add: xs_def)
    have set: "set ys = {..<?n}" by (simp add: mset_eq_setD [OF ys(2)] atLeast0LessThan)
    have dist: "distinct ys" using mset_eq_imp_distinct_iff [OF ys(2)] by simp
    have "length ys = ?n" using mset_eq_length [OF ys(2)] by simp
    then have "length xs = ?n" using len by (simp add: xs_def)
    moreover have "fst (decode_run order g (map (\<lambda>(t, k). (t, fragment_of payload fs ?q k)) xs)) =
          replicate (length xs - 1) (Inr None) @ [Inr (Some payload)]"
    proof (rule decode_run_receiving [OF ord fs(1) fs(2) _ q _ t0])
      show "receiving payload fs ?q (incomingBytes g) {} 0 g" using inv none by (simp add: receiving_def)
      show "fs < 65536" "?n \<le> openVPNFragmentMaxParts" using a small by simp_all
      show "xs \<noteq> []" using a \<open>length xs = ?n\<close> by auto
      show "\<forall>x \<in> set xs. t0 \<le> fst x \<and> fst x < t0 + reassembly_timeout g"
        using times unfolding xs_def by (auto dest!: set_zip_leftD)
    qed (use room snd set dist in auto)
    ultimately show ?thesis using a feed by simp
  qed
qed

section \<open>Properties\<close>

text \<open>
  The library that decompresses is known by the format it reads: whatever the format says a block
  stands for is what it returns, as long as that fits into the buffer of 65536 bytes.
\<close>

definition lzo_ok :: "decompressor \<Rightarrow> bool" where
  "lzo_ok lzo_Decompress \<longleftrightarrow>
     (\<forall>block out. lzo1x_decode block = Some out \<and> length out \<le> 65536 \<longrightarrow> lzo_Decompress block = Inr out)"

lemma lzo_ok_inverts: "lzo_ok lzo \<Longrightarrow> length payload \<le> 65536 \<Longrightarrow> lzo (compressLZOBlock payload) = Inr payload"
  using compressLZOBlock_correct by (simp add: lzo_ok_def)

text \<open>
  C16. A packet survives the data channel framing: whatever compression setting both ends share
  and however the packet is fragmented, feeding its frames to the receiver in any order yields
  nothing before the last frame and exactly the packet at the last one. This needs the packet to
  fit the limits on one packet and on all buffered fragments, the frames to arrive within the
  reassembly timeout, and the receiver to have no unfinished packet under the same sequence number.
  The decompressor is only assumed to follow the LZO1X format; that the compressor writes blocks of
  that format is proved.
\<close>

theorem framing_roundtrip:
  assumes "framing_Encode now payload sz (Some f) = (Inr frs, fo)"
      and "lzo_ok lzo"
      and "compression g = compression f" "(0 < fragmentSize g) = (0 < fragmentSize f)"
      and "order_ok order" "reassembly_inv g" "outgoingSequence f < 256"
      and "incomingBySequence g (outgoingSequence f) = None"
      and "incomingBytes g + int (length payload) + 2 \<le> maxReassemblyBytes g"
      and "int (length payload) + 2 \<le> maxPacketBytes g" "length payload + 2 \<le> 65535"
      and "mset (map snd feed) = mset frs"
      and "0 < t0" "\<forall>x \<in> set feed. t0 \<le> fst x \<and> fst x < t0 + reassembly_timeout g"
  shows "Decode_run lzo lz4 order (Some g) feed = replicate (length frs - 1) (Inr None) @ [Inr (Some payload)]"
proof -
  obtain framed f1 where u: "unframe_payload lzo lz4 (compression f) framed = Inr payload"
    and len: "length framed \<le> length payload + 2" and seq: "outgoingSequence f1 = outgoingSequence f"
    and frs: "if fragmentSize f \<le> 0 then frs = [framed] else \<exists>f2. encodeFragments framed sz f1 = (Inr frs, f2)"
    using framing_Encode_cases [where lzo = lzo and ?lz4.0 = lz4, OF assms(1) lzo_ok_inverts [OF assms(2)]] assms(11) by auto
  show ?thesis
  proof (cases "fragmentSize f \<le> 0")
    case True
    then have "mset (map snd feed) = {#framed#}" using frs assms(12) by simp
    then obtain t where "feed = [(t, framed)]" by (cases feed; cases "tl feed") auto
    then show ?thesis using True frs u assms(3,4) by (simp add: framing_Decode_def)
  next
    case False
    then obtain f2 where e: "encodeFragments framed sz f1 = (Inr frs, f2)" using frs by auto
    have "fst (decode_run order g feed) = replicate (length frs - 1) (Inr None) @ [Inr (Some framed)]"
      using assms len seq by (intro fragments_any_order [OF e]) auto
    then show ?thesis
      using False assms(3,4,6) u by (subst Decode_run_fragments) auto
  qed
qed

definition sample_framing :: dataChannelFraming where
  "sample_framing =
     the (newDataChannelFraming 7 (zero_compressionSettings\<lparr>algorithm := compressionAlgorithmLZO\<rparr>) 1400
            allowCompressionYes)"

definition format_Decompress :: decompressor where
  "format_Decompress block = (case lzo1x_decode block of None \<Rightarrow> Inl (New ''invalid block'') | Some out \<Rightarrow> Inr out)"

lemma newDataChannelFraming_inv:
  "newDataChannelFraming random settings fragment policy = Some f \<Longrightarrow>
   reassembly_inv f \<and> outgoingSequence f < 256 \<and> incomingBySequence f = Map.empty \<and> incomingBytes f = 0 \<and>
   maxPacketBytes f = 65535 \<and> maxReassemblyBytes f = 4194304 \<and> reassembly_timeout f = 30 * second"
  using word_and_le1 [of random 255]
  by (auto simp: newDataChannelFraming_def reassembly_inv_def bytes_at_def maxPacketBytes_def
        maxReassemblyBytes_def reassembly_timeout_def fragment_consts Let_def word_le_nat_alt split: if_splits)

lemma sample_fragments:
  "fragment_loop [0x66, 22, 7, 7, 7, 7, 7, 0x20, 82, 0, 0, 17, 0, 0] 8 7 0 0 =
   Inr [[0, 0, 0, 29, 0x66, 22, 7, 7, 7, 7, 7, 0x20], [0, 1, 4, 0x1e, 82, 0, 0, 17, 0, 0]]"
proof -
  let ?p = "[0x66, 22, 7, 7, 7, 7, 7, 0x20, 82, 0, 0, 17, 0, 0] :: bytes"
  have "fragment_loop ?p 8 7 14 (Suc (Suc 0)) = Inr []"
    by (simp add: fragment_loop.simps [of _ _ _ 14])
  then have "fragment_loop ?p 8 7 8 (Suc 0) = Inr [[0, 1, 4, 0x1e, 82, 0, 0, 17, 0, 0]]"
    by (simp add: fragment_loop.simps [of _ _ _ 8] prependFragmentHeader_def put_u32_def fragment_consts)
  moreover have eight: "Suc (Suc (Suc (Suc (Suc (Suc (Suc (Suc 0))))))) = 8" by simp
  ultimately show ?thesis
    by (simp add: eight fragment_loop.simps [of _ _ _ 0] prependFragmentHeader_def put_u32_def fragment_consts)
qed

text \<open>
  120 equal bytes are compressed into 13, framed and cut into two fragments, which arrive in the
  wrong order at a receiver whose decompressor is the format itself.
\<close>

theorem framing_roundtrip_witness:
  "fst (framing_Encode 1 (replicate 120 7) 8 (Some sample_framing)) =
     Inr [[0, 0, 0, 29, 0x66, 22, 7, 7, 7, 7, 7, 0x20], [0, 1, 4, 0x1e, 82, 0, 0, 17, 0, 0]] \<and>
   Decode_run format_Decompress (\<lambda>_. Inl (New [])) id (Some sample_framing)
     [(2, [0, 1, 4, 0x1e, 82, 0, 0, 17, 0, 0]), (1, [0, 0, 0, 29, 0x66, 22, 7, 7, 7, 7, 7, 0x20])] =
   [Inr None, Inr (Some (replicate 120 7))]"
proof -
  let ?p = "replicate 120 7 :: bytes"
  let ?a = "[0, 0, 0, 29, 0x66, 22, 7, 7, 7, 7, 7, 0x20] :: bytes" and ?b = "[0, 1, 4, 0x1e, 82, 0, 0, 17, 0, 0] :: bytes"
  have new: "newDataChannelFraming 7 (zero_compressionSettings\<lparr>algorithm := compressionAlgorithmLZO\<rparr>) 1400
            allowCompressionYes = Some sample_framing"
    by (simp add: sample_framing_def newDataChannelFraming_def framingEnabled_def zero_compressionSettings_def)
  note inv = newDataChannelFraming_inv [OF new]
  have s: "algorithm (compression sample_framing) = compressionAlgorithmLZO" "\<not> adaptive (compression sample_framing)"
      "compressOutbound sample_framing" "0 < fragmentSize sample_framing" "outgoingSequence sample_framing = 7"
    by (simp_all add: sample_framing_def newDataChannelFraming_def framingEnabled_def compressesOutbound_def zero_compressionSettings_def)
  have e: "fst (framing_Encode 1 ?p 8 (Some sample_framing)) = Inr [?a, ?b]"
    using s by (simp add: framing_Encode_def encodeLZOFrame_def compress_sample lzoCompressionEnabled_def
          openVPNCompressionThreshold_def encodeFragments_def sample_fragments compress_bytes Let_def)
  obtain fo where enc: "framing_Encode 1 ?p 8 (Some sample_framing) = (Inr [?a, ?b], fo)"
    using e by (metis prod.collapse)
  have ok: "lzo_ok format_Decompress" by (simp add: lzo_ok_def format_Decompress_def)
  have "Decode_run format_Decompress (\<lambda>_. Inl (New [])) id (Some sample_framing) [(2, ?b), (1, ?a)] =
      [Inr None, Inr (Some ?p)]"
    using framing_roundtrip [OF enc ok, of sample_framing id "[(2, ?b), (1, ?a)]" 1 "\<lambda>_. Inl (New [])"] inv s
    by (simp add: order_ok_def second_def)
  then show ?thesis using e by blast
qed

text \<open>
  C17. Reassembly memory stays bounded whatever arrives: after any sequence of fragments at any
  clock readings and under any map iteration order, the counter equals the bytes actually held,
  which are at most 4 MiB in total and at most 65535 for each of the packets in progress.
\<close>

theorem reassembly_bounded:
  assumes "newDataChannelFraming random settings fragment policy = Some f"
  shows "let g = snd (decode_run order f feed) in
         incomingBytes g = (\<Sum>k < 256. bytes_at g k) \<and> incomingBytes g \<le> 4194304 \<and>
         (\<forall>k b. incomingBySequence g k = Some b \<longrightarrow>
            k < 256 \<and> buffered_bytes b = (\<Sum>i < 32. part_bytes b i) \<and> buffered_bytes b \<le> 65535)"
proof -
  have run: "reassembly_inv h \<Longrightarrow> reassembly_inv (snd (decode_run order h feed)) \<and>
      maxPacketBytes (snd (decode_run order h feed)) = maxPacketBytes h \<and>
      maxReassemblyBytes (snd (decode_run order h feed)) = maxReassemblyBytes h" for h
  proof (induction feed arbitrary: h)
    case (Cons x feed)
    obtain t p where x: "x = (t, p)" by fastforce
    obtain r h1 where d: "decodeFragment order t p h = (r, h1)" by fastforce
    show ?case
      using decodeFragment_inv [OF Cons.prems d] Cons.IH [of h1] by (auto simp: x d split: prod.splits)
  qed simp
  have "reassembly_inv f" "maxPacketBytes f = 65535" "maxReassemblyBytes f = 4194304"
    using newDataChannelFraming_inv [OF assms] by simp_all
  then have g: "reassembly_inv (snd (decode_run order f feed))"
      "maxPacketBytes (snd (decode_run order f feed)) = 65535"
      "maxReassemblyBytes (snd (decode_run order f feed)) = 4194304"
    using run [of f] by simp_all
  show ?thesis
    using g(1) unfolding Let_def reassembly_inv_def buffer_ok_def openVPNFragmentMaxParts_def g(2,3) by blast
qed

theorem reassembly_bounded_witness:
  "incomingBytes (snd (decode_run id sample_framing [(2, [0, 0, 0x84, 0x1e, 4, 5, 6])])) \<le> 4194304"
proof -
  have "newDataChannelFraming 7 (zero_compressionSettings\<lparr>algorithm := compressionAlgorithmLZO\<rparr>) 1400
            allowCompressionYes = Some sample_framing"
    by (simp add: sample_framing_def newDataChannelFraming_def framingEnabled_def zero_compressionSettings_def)
  from reassembly_bounded [OF this, of id "[(2, [0, 0, 0x84, 0x1e, 4, 5, 6])]"] show ?thesis
    unfolding Let_def by blast
qed

end
