(* ===== verification/Crypto.thy ===== *)
theory Crypto
  imports Prelude
begin

text \<open>
  The cryptographic interfaces the data and control channels are built on. Block ciphers, AEAD
  ciphers and keyed hashes are values of records, so that no algorithm is fixed; the modes of
  \<open>crypto/cipher\<close> (CBC, CFB, OFB, CTR) and the PKCS#7 padding of \<open>data_codec_static.go\<close> are defined on
  top of them. What is relied on is stated by \<open>block_ok\<close> and \<open>aead_ok\<close>.
\<close>

section \<open>Primitives\<close>

text \<open>\<open>cipher.Block\<close>, \<open>cipher.AEAD\<close>, and \<open>hmac.New(factory, key)\<close> followed by \<open>Write\<close> and \<open>Sum\<close>.\<close>

record block =
  BlockSize :: nat
  blk_Encrypt :: "bytes \<Rightarrow> bytes"
  blk_Decrypt :: "bytes \<Rightarrow> bytes"

record aead =
  NonceSize :: nat
  Seal :: "bytes \<Rightarrow> bytes \<Rightarrow> bytes \<Rightarrow> bytes"
  Open :: "bytes \<Rightarrow> bytes \<Rightarrow> bytes \<Rightarrow> bytes result"

text \<open>The hash constructors of the standard library and of \<open>x/crypto\<close>, and their \<open>Size\<close> constants.\<close>

datatype hashFactory = sha1_New | sha256_New224 | sha256_New | sha512_New384 | sha512_New | ripemd160_New | md5_New

fun hash_Size :: "hashFactory \<Rightarrow> nat" where
  "hash_Size sha1_New = 20"
| "hash_Size sha256_New224 = 28"
| "hash_Size sha256_New = 32"
| "hash_Size sha512_New384 = 48"
| "hash_Size sha512_New = 64"
| "hash_Size ripemd160_New = 20"
| "hash_Size md5_New = 16"

lemma hash_Size_pos [simp]: "0 < hash_Size h"
  by (cases h) simp_all

lemma hash_Size_le: "hash_Size h \<le> 64"
  by (cases h) simp_all

type_synonym hmac = "hashFactory \<Rightarrow> bytes \<Rightarrow> bytes \<Rightarrow> bytes"

text \<open>The block ciphers by constructor, named as in \<open>newStaticCipherBlock\<close>, and the AEAD constructors.\<close>

datatype cipherPackage = blowfish_NewCipher | des_NewCipher | des_NewTripleDESCipher | cast5_NewCipher
  | aes_NewCipher | aria_NewCipher | camellia_New | seed_NewCipher | sm4_NewCipher

record crypto =
  newBlock :: "cipherPackage \<Rightarrow> bytes \<Rightarrow> block result"
  newGCM :: "block \<Rightarrow> aead result"
  newChaCha20Poly1305 :: "bytes \<Rightarrow> aead result"
  hmacSum :: hmac

definition block_ok :: "block \<Rightarrow> bool" where
  "block_ok b \<longleftrightarrow> 8 \<le> BlockSize b \<and> BlockSize b \<le> 16 \<and>
     (\<forall>x. length x = BlockSize b \<longrightarrow>
        length (blk_Encrypt b x) = BlockSize b \<and> length (blk_Decrypt b x) = BlockSize b \<and>
        blk_Decrypt b (blk_Encrypt b x) = x)"

definition aead_ok :: "aead \<Rightarrow> bool" where
  "aead_ok a \<longleftrightarrow> NonceSize a = 12 \<and>
     (\<forall>nonce p ad. length (Seal a nonce p ad) = length p + 16 \<and> Open a nonce (Seal a nonce p ad) ad = Inr p)"

text \<open>
  What is assumed of the implementations: the constructors give ciphers that invert, and a keyed
  hash has the size of its hash.
\<close>

definition crypto_ok :: "crypto \<Rightarrow> bool" where
  "crypto_ok C \<longleftrightarrow>
     (\<forall>pkg key b. newBlock C pkg key = Inr b \<longrightarrow> block_ok b) \<and>
     (\<forall>b a. newGCM C b = Inr a \<longrightarrow> aead_ok a) \<and>
     (\<forall>key a. newChaCha20Poly1305 C key = Inr a \<longrightarrow> aead_ok a) \<and>
     (\<forall>h key m. length (hmacSum C h key m) = hash_Size h)"

section \<open>Modes of operation\<close>

definition xor_bytes :: "bytes \<Rightarrow> bytes \<Rightarrow> bytes" where
  "xor_bytes xs ys = map2 (XOR) xs ys"

text \<open>
  \<open>CryptBlocks\<close> works on whole blocks (it panics otherwise; every caller has padded or checked), the
  stream modes on any length.
\<close>

function cbc_encrypt :: "block \<Rightarrow> bytes \<Rightarrow> bytes \<Rightarrow> bytes" where
  "cbc_encrypt b iv p =
     (if BlockSize b = 0 \<or> length p < BlockSize b then []
      else let c = blk_Encrypt b (xor_bytes (take (BlockSize b) p) iv)
           in c @ cbc_encrypt b c (drop (BlockSize b) p))"
  by pat_completeness auto
termination by (relation "measure (\<lambda>(b, iv, p). length p)") auto

function cbc_decrypt :: "block \<Rightarrow> bytes \<Rightarrow> bytes \<Rightarrow> bytes" where
  "cbc_decrypt b iv c =
     (if BlockSize b = 0 \<or> length c < BlockSize b then []
      else xor_bytes (blk_Decrypt b (take (BlockSize b) c)) iv @
           cbc_decrypt b (take (BlockSize b) c) (drop (BlockSize b) c))"
  by pat_completeness auto
termination by (relation "measure (\<lambda>(b, iv, p). length p)") auto

function cfb_encrypt :: "block \<Rightarrow> bytes \<Rightarrow> bytes \<Rightarrow> bytes" where
  "cfb_encrypt b iv p =
     (if BlockSize b = 0 \<or> p = [] then []
      else let c = xor_bytes (take (BlockSize b) p) (blk_Encrypt b iv)
           in c @ cfb_encrypt b c (drop (BlockSize b) p))"
  by pat_completeness auto
termination by (relation "measure (\<lambda>(b, iv, p). length p)") auto

function cfb_decrypt :: "block \<Rightarrow> bytes \<Rightarrow> bytes \<Rightarrow> bytes" where
  "cfb_decrypt b iv c =
     (if BlockSize b = 0 \<or> c = [] then []
      else xor_bytes (take (BlockSize b) c) (blk_Encrypt b iv) @
           cfb_decrypt b (take (BlockSize b) c) (drop (BlockSize b) c))"
  by pat_completeness auto
termination by (relation "measure (\<lambda>(b, iv, p). length p)") auto

function ofb_crypt :: "block \<Rightarrow> bytes \<Rightarrow> bytes \<Rightarrow> bytes" where
  "ofb_crypt b iv p =
     (if BlockSize b = 0 \<or> p = [] then []
      else let ks = blk_Encrypt b iv
           in xor_bytes (take (BlockSize b) p) ks @ ofb_crypt b ks (drop (BlockSize b) p))"
  by pat_completeness auto
termination by (relation "measure (\<lambda>(b, iv, p). length p)") auto

text \<open>CTR: the IV is a big-endian counter.\<close>

fun inc_le :: "bytes \<Rightarrow> bytes" where
  "inc_le [] = []"
| "inc_le (b # bs) = (if b + 1 = 0 then 0 # inc_le bs else (b + 1) # bs)"

definition inc_counter :: "bytes \<Rightarrow> bytes" where
  "inc_counter bs = rev (inc_le (rev bs))"

function ctr_crypt :: "block \<Rightarrow> bytes \<Rightarrow> bytes \<Rightarrow> bytes" where
  "ctr_crypt b iv p =
     (if BlockSize b = 0 \<or> p = [] then []
      else xor_bytes (take (BlockSize b) p) (blk_Encrypt b iv) @ ctr_crypt b (inc_counter iv) (drop (BlockSize b) p))"
  by pat_completeness auto
termination by (relation "measure (\<lambda>(b, iv, p). length p)") auto

declare ctr_crypt.simps [simp del] cbc_encrypt.simps [simp del] cbc_decrypt.simps [simp del] cfb_encrypt.simps [simp del]
  cfb_decrypt.simps [simp del] ofb_crypt.simps [simp del]

lemma length_xor_bytes [simp]: "length (xor_bytes xs ys) = min (length xs) (length ys)"
  by (simp add: xor_bytes_def)

lemma xor_bytes_cancel [simp]: "length xs \<le> length ys \<Longrightarrow> xor_bytes (xor_bytes xs ys) ys = xs"
  by (rule nth_equalityI) (simp_all add: xor_bytes_def xor.assoc)

lemma block_okD:
  assumes "block_ok b"
  shows "0 < BlockSize b" "length x = BlockSize b \<Longrightarrow> length (blk_Encrypt b x) = BlockSize b"
    "length x = BlockSize b \<Longrightarrow> blk_Decrypt b (blk_Encrypt b x) = x"
  using assms by (auto simp: block_ok_def)

text \<open>The contract of a mode: encryption keeps the length and decryption with the same IV inverts it.\<close>

locale cipher_mode =
  fixes enc dec :: "block \<Rightarrow> bytes \<Rightarrow> bytes \<Rightarrow> bytes"
    and whole :: "nat \<Rightarrow> nat \<Rightarrow> bool"
  assumes length_enc: "block_ok b \<Longrightarrow> length iv = BlockSize b \<Longrightarrow> whole (BlockSize b) (length p) \<Longrightarrow>
      length (enc b iv p) = length p"
    and dec_enc: "block_ok b \<Longrightarrow> length iv = BlockSize b \<Longrightarrow> whole (BlockSize b) (length p) \<Longrightarrow>
      dec b iv (enc b iv p) = p"
begin

text \<open>A message under a prepended IV, the layout of every packet format here.\<close>

lemma prefixed_roundtrip:
  assumes "block_ok b" "length iv = BlockSize b" "whole (BlockSize b) (length p)"
  shows "let m = iv @ enc b iv p
         in length m = BlockSize b + length p \<and> dec b (take (BlockSize b) m) (drop (BlockSize b) m) = p"
  using assms by (simp add: Let_def length_enc dec_enc)

end

lemma cbc_law:
  assumes "block_ok b" "length iv = BlockSize b" "length p mod BlockSize b = 0"
  shows "length (cbc_encrypt b iv p) = length p \<and> cbc_decrypt b iv (cbc_encrypt b iv p) = p"
  using assms(2,3)
proof (induction "length p" arbitrary: p iv rule: less_induct)
  case less
  let ?n = "BlockSize b"
  show ?case
  proof (cases "length p < ?n")
    case True
    then have "p = []" using less.prems(2) by simp
    then show ?thesis using block_okD(1) [OF assms(1)] by (simp add: cbc_encrypt.simps cbc_decrypt.simps)
  next
    case False
    define c where "c = blk_Encrypt b (xor_bytes (take ?n p) iv)"
    have x: "length (xor_bytes (take ?n p) iv) = ?n" using False less.prems by simp
    have c: "length c = ?n" "blk_Decrypt b c = xor_bytes (take ?n p) iv"
      unfolding c_def using block_okD [OF assms(1)] x by blast+
    have "length (drop ?n p) mod ?n = 0" using less.prems False by (simp add: le_mod_geq)
    then have IH: "length (cbc_encrypt b c (drop ?n p)) = length (drop ?n p) \<and>
        cbc_decrypt b c (cbc_encrypt b c (drop ?n p)) = drop ?n p"
      using less.hyps [of "drop ?n p" c] c False block_okD(1) [OF assms(1)] by simp
    have e: "cbc_encrypt b iv p = c @ cbc_encrypt b c (drop ?n p)"
      using False block_okD(1) [OF assms(1)] by (simp add: cbc_encrypt.simps [of b iv p] c_def Let_def)
    have "cbc_decrypt b iv (c @ cbc_encrypt b c (drop ?n p)) =
        xor_bytes (blk_Decrypt b c) iv @ cbc_decrypt b c (cbc_encrypt b c (drop ?n p))"
      using c(1) block_okD(1) [OF assms(1)] by (subst cbc_decrypt.simps) simp
    then show ?thesis using IH e c False less.prems by simp
  qed
qed

lemma cfb_law:
  assumes "block_ok b" "length iv = BlockSize b"
  shows "length (cfb_encrypt b iv p) = length p \<and> cfb_decrypt b iv (cfb_encrypt b iv p) = p"
  using assms(2)
proof (induction "length p" arbitrary: p iv rule: less_induct)
  case less
  let ?n = "BlockSize b"
  have n: "0 < ?n" by (rule block_okD(1) [OF assms(1)])
  have k: "length (blk_Encrypt b iv) = ?n" by (rule block_okD(2) [OF assms(1) less.prems])
  show ?case
  proof (cases "p = []")
    case False
    define c where "c = xor_bytes (take ?n p) (blk_Encrypt b iv)"
    have c: "length c = min ?n (length p)" by (simp add: c_def k)
    have e: "cfb_encrypt b iv p = c @ cfb_encrypt b c (drop ?n p)"
      using False n by (simp add: cfb_encrypt.simps [of b iv p] c_def Let_def)
    have x: "xor_bytes c (blk_Encrypt b iv) = take ?n p" by (simp add: c_def k)
    show ?thesis
    proof (cases "length p \<le> ?n")
      case True
      then have "cfb_encrypt b c (drop ?n p) = []" by (simp add: cfb_encrypt.simps)
      then have "cfb_encrypt b iv p = c" by (simp add: e)
      then show ?thesis using True c x False n by (auto simp: cfb_decrypt.simps [of b iv c] cfb_decrypt.simps)
    next
      case long: False
      then have "length c = ?n" using c by simp
      then have IH: "length (cfb_encrypt b c (drop ?n p)) = length (drop ?n p) \<and>
          cfb_decrypt b c (cfb_encrypt b c (drop ?n p)) = drop ?n p"
        using less.hyps [of "drop ?n p" c] False n by simp
      have "cfb_decrypt b iv (c @ cfb_encrypt b c (drop ?n p)) =
          xor_bytes c (blk_Encrypt b iv) @ cfb_decrypt b c (cfb_encrypt b c (drop ?n p))"
        using \<open>length c = ?n\<close> n by (subst cfb_decrypt.simps) auto
      then show ?thesis using IH e x long \<open>length c = ?n\<close> by simp
    qed
  qed (simp add: cfb_encrypt.simps cfb_decrypt.simps)
qed

lemma ofb_law:
  assumes "block_ok b" "length iv = BlockSize b"
  shows "length (ofb_crypt b iv p) = length p \<and> ofb_crypt b iv (ofb_crypt b iv p) = p"
  using assms(2)
proof (induction "length p" arbitrary: p iv rule: less_induct)
  case less
  let ?n = "BlockSize b"
  have n: "0 < ?n" by (rule block_okD(1) [OF assms(1)])
  define ks where "ks = blk_Encrypt b iv"
  have k: "length ks = ?n" unfolding ks_def by (rule block_okD(2) [OF assms(1) less.prems])
  show ?case
  proof (cases "p = []")
    case False
    let ?c = "xor_bytes (take ?n p) ks"
    have e: "ofb_crypt b iv q = xor_bytes (take ?n q) ks @ ofb_crypt b ks (drop ?n q)" if "q \<noteq> []" for q
      using that n by (simp add: ofb_crypt.simps [of b iv q] ks_def Let_def)
    have IH: "length (ofb_crypt b ks (drop ?n p)) = length (drop ?n p) \<and>
        ofb_crypt b ks (ofb_crypt b ks (drop ?n p)) = drop ?n p"
      using less.hyps [of "drop ?n p" ks] False n k by simp
    let ?e = "?c @ ofb_crypt b ks (drop ?n p)"
    have "length ?e = length p" using IH k by simp
    then have "?e \<noteq> []" using False by (metis length_0_conv)
    moreover have "take ?n ?e = ?c \<and> drop ?n ?e = ofb_crypt b ks (drop ?n p)"
    proof (cases "length p \<le> ?n")
      case True
      then have "ofb_crypt b ks (drop ?n p) = []" by (simp add: ofb_crypt.simps)
      then show ?thesis by simp
    next
      case False
      then have "length ?c = ?n" using k by simp
      then show ?thesis by (metis append_eq_conv_conj)
    qed
    moreover have "xor_bytes ?c ks = take ?n p" by (simp add: k)
    ultimately have "ofb_crypt b iv ?e = take ?n p @ drop ?n p" using e [of ?e] IH by metis
    then show ?thesis using e [OF False] \<open>length ?e = length p\<close> by simp
  qed (simp add: ofb_crypt.simps)
qed

lemma length_inc_counter [simp]: "length (inc_counter bs) = length bs"
proof -
  have "length (inc_le xs) = length xs" for xs by (induction xs rule: inc_le.induct) simp_all
  then show ?thesis by (simp add: inc_counter_def)
qed

lemma ctr_law:
  assumes "block_ok b" "length iv = BlockSize b"
  shows "length (ctr_crypt b iv p) = length p \<and> ctr_crypt b iv (ctr_crypt b iv p) = p"
  using assms(2)
proof (induction "length p" arbitrary: p iv rule: less_induct)
  case less
  let ?n = "BlockSize b" and ?ks = "blk_Encrypt b iv" and ?next = "inc_counter iv"
  have n: "0 < ?n" by (rule block_okD(1) [OF assms(1)])
  have k: "length ?ks = ?n" by (rule block_okD(2) [OF assms(1) less.prems])
  show ?case
  proof (cases "p = []")
    case False
    let ?c = "xor_bytes (take ?n p) ?ks"
    have e: "ctr_crypt b iv q = xor_bytes (take ?n q) ?ks @ ctr_crypt b ?next (drop ?n q)" if "q \<noteq> []" for q
      using that n by (simp add: ctr_crypt.simps [of b iv q])
    have IH: "length (ctr_crypt b ?next (drop ?n p)) = length (drop ?n p) \<and>
        ctr_crypt b ?next (ctr_crypt b ?next (drop ?n p)) = drop ?n p"
      using less.hyps [of "drop ?n p" ?next] less.prems False n by simp
    let ?e = "?c @ ctr_crypt b ?next (drop ?n p)"
    have l: "length ?e = length p" using IH k by simp
    then have "?e \<noteq> []" using False by (metis length_0_conv)
    moreover have "take ?n ?e = ?c \<and> drop ?n ?e = ctr_crypt b ?next (drop ?n p)"
    proof (cases "length p \<le> ?n")
      case True
      then have "ctr_crypt b ?next (drop ?n p) = []" by (simp add: ctr_crypt.simps)
      then show ?thesis by simp
    next
      case False
      then have "length ?c = ?n" using k by simp
      then show ?thesis by (metis append_eq_conv_conj)
    qed
    moreover have "xor_bytes ?c ?ks = take ?n p" by (simp add: k)
    ultimately have "ctr_crypt b iv ?e = take ?n p @ drop ?n p" using e [of ?e] IH by metis
    then show ?thesis using e [OF False] l by simp
  qed (simp add: ctr_crypt.simps)
qed

interpretation cbc: cipher_mode cbc_encrypt cbc_decrypt "\<lambda>n l. l mod n = 0"
  by unfold_locales (simp_all add: cbc_law)

interpretation cfb: cipher_mode cfb_encrypt cfb_decrypt "\<lambda>_ _. True"
  by unfold_locales (simp_all add: cfb_law)

interpretation ofb: cipher_mode ofb_crypt ofb_crypt "\<lambda>_ _. True"
  by unfold_locales (simp_all add: ofb_law)

interpretation ctr: cipher_mode ctr_crypt ctr_crypt "\<lambda>_ _. True"
  by unfold_locales (simp_all add: ctr_law)

section \<open>Padding\<close>

definition pkcs7Pad :: "bytes \<Rightarrow> nat \<Rightarrow> bytes result" where
  "pkcs7Pad payload blockSize =
     (if blockSize = 0 then Inl (New ''invalid block size'')
      else
        let paddingSize = blockSize - length payload mod blockSize;
            paddingSize = (if paddingSize = 0 then blockSize else paddingSize)
        in Inr (payload @ replicate paddingSize (of_nat paddingSize)))"

definition pkcs7Unpad :: "bytes \<Rightarrow> nat \<Rightarrow> bytes result" where
  "pkcs7Unpad payload blockSize =
     (if blockSize = 0 \<or> payload = [] \<or> length payload mod blockSize \<noteq> 0
      then Inl (New ''invalid static key payload padding'')
      else
        let paddingSize = unat (last payload)
        in if paddingSize = 0 \<or> blockSize < paddingSize \<or> length payload < paddingSize
           then Inl (New ''invalid static key payload padding'')
           else
             let paddingStart = length payload - paddingSize
             in if \<exists>i \<in> {paddingStart ..< length payload}. payload ! i \<noteq> of_nat paddingSize
                then Inl (New ''invalid static key payload padding'')
                else Inr (take paddingStart payload))"

lemma pkcs7Pad_ok:
  assumes "0 < n"
  shows "\<exists>k. pkcs7Pad p n = Inr (p @ replicate k (of_nat k)) \<and> 0 < k \<and> k \<le> n \<and> length p + k = (length p div n + 1) * n"
proof -
  have "length p mod n < n" using assms by simp
  moreover have "length p + (n - length p mod n) = (length p div n + 1) * n"
  proof -
    have "length p div n * n + length p mod n = length p" by simp
    then show ?thesis using \<open>length p mod n < n\<close> unfolding add_mult_distrib by linarith
  qed
  moreover have "pkcs7Pad p n = Inr (p @ replicate (n - length p mod n) (of_nat (n - length p mod n)))"
    using assms \<open>length p mod n < n\<close> by (simp add: pkcs7Pad_def Let_def)
  ultimately show ?thesis by (intro exI [of _ "n - length p mod n"]) simp
qed

lemma pkcs7_roundtrip:
  assumes "0 < n" "n < 256" "pkcs7Pad p n = Inr q"
  shows "pkcs7Unpad q n = Inr p" "length q = (length p div n + 1) * n"
proof -
  obtain k where k': "pkcs7Pad p n = Inr (p @ replicate k (of_nat k))"
    and k: "0 < k" "k \<le> n" "length p + k = (length p div n + 1) * n"
    using pkcs7Pad_ok [OF assms(1)] by blast
  have q: "q = p @ replicate k (of_nat k)" using k' assms(3) by simp
  have u: "unat (of_nat k :: byte) = k" using k(2) assms(2) by (simp add: unat_of_nat)
  have l: "length q = length p + k" by (simp add: q)
  then have "length q mod n = 0" unfolding k(3) by simp
  moreover have "q \<noteq> []" "last q = of_nat k" using k(1) by (simp_all add: q)
  moreover have "q ! i = of_nat k" if "i \<in> {length p ..< length q}" for i
  proof -
    have "i - length p < k" using that by (auto simp: q)
    then show ?thesis using that by (simp add: q nth_append)
  qed
  moreover have "length q - k = length p" "take (length p) q = p" using l by (simp_all add: q)
  moreover have "\<not> (\<exists>i \<in> {length p ..< length q}. q ! i \<noteq> of_nat k)" using calculation(4) by blast
  ultimately show "pkcs7Unpad q n = Inr p"
    using k(1,2) u l assms(1) unfolding pkcs7Unpad_def Let_def by simp
  show "length q = (length p div n + 1) * n" unfolding l by (rule k(3))
qed

end
