(* ===== verification/Data_Codec.thy ===== *)
theory Data_Codec
  imports Crypto Go_Strings Replay_Window
begin

text \<open>
  The data channel ciphers (\<open>data_codec.go\<close>, \<open>data_codec_aead.go\<close>, \<open>data_codec_cbc.go\<close>,
  \<open>data_codec_stream.go\<close>, \<open>data_codec_static.go\<close>): key slots, construction of the four codecs,
  encoding and decoding with the replay check. The random source, the ciphers and the clock are
  arguments.
\<close>

type_synonym random = "nat \<Rightarrow> bytes result"
type_synonym clock = "time \<times> time"

section \<open>Key material\<close>

record staticKeySlot =
  cipherKey :: bytes
  hmacKey :: bytes

definition splitStaticKeyMaterial :: "bytes \<Rightarrow> staticKeySlot list" where
  "splitStaticKeyMaterial m =
     [\<lparr>cipherKey = take 64 m, hmacKey = take 64 (drop 64 m)\<rparr>,
      \<lparr>cipherKey = take 64 (drop 128 m), hmacKey = take 64 (drop 192 m)\<rparr>]"

definition tlsDataKeySlots :: "staticKeySlot list \<Rightarrow> bool \<Rightarrow> staticKeySlot \<times> staticKeySlot" where
  "tlsDataKeySlots keySlots server =
     (if server then (keySlots ! 1, keySlots ! 0) else (keySlots ! 0, keySlots ! 1))"

definition resolveStaticKeyDirection :: "int \<Rightarrow> nat \<times> nat \<times> nat" where
  "resolveStaticKeyDirection keyDirection =
     (if keyDirection = 1 \<or> keyDirection = 2 then (1, 0, 1)
      else if keyDirection < 0 then (0, 0, 1)
      else (0, 1, 0))"

definition staticCipherKeySize :: "string \<Rightarrow> nat result" where
  "staticCipherKeySize cipherName =
     (if cipherName = ''BF-CBC'' then Inr 16
      else if cipherName = ''DES-CBC'' then Inr 8
      else if cipherName = ''DES-EDE-CBC'' then Inr 16
      else if cipherName = ''DES-EDE3-CBC'' then Inr 24
      else if cipherName = ''CAST5-CBC'' then Inr 16
      else if cipherName = ''AES-128-CBC'' then Inr 16
      else if cipherName = ''AES-192-CBC'' then Inr 24
      else if cipherName = ''AES-256-CBC'' then Inr 32
      else if cipherName \<in> {''ARIA-128-CBC'', ''CAMELLIA-128-CBC'', ''SEED-CBC'', ''SM4-CBC''} then Inr 16
      else if cipherName \<in> {''ARIA-192-CBC'', ''CAMELLIA-192-CBC''} then Inr 24
      else if cipherName \<in> {''ARIA-256-CBC'', ''CAMELLIA-256-CBC''} then Inr 32
      else if cipherName = ''NONE'' then Inr 0
      else Inl (New ''unsupported static key cipher''))"

definition newStaticCipherBlock :: "crypto \<Rightarrow> string \<Rightarrow> bytes \<Rightarrow> nat \<Rightarrow> block option result" where
  "newStaticCipherBlock C cipherName keyMaterial keySize =
     (if cipherName = ''NONE'' then Inr None
      else if keySize = 0 \<or> length keyMaterial < keySize
      then Inl (New ''invalid static key cipher key size'')
      else
        let cipherKey = take keySize keyMaterial;
            make = (\<lambda>pkg key. bindE (newBlock C pkg key) (\<lambda>b. Inr (Some b)))
        in if cipherName = ''BF-CBC'' then make blowfish_NewCipher cipherKey
           else if cipherName = ''DES-CBC'' then make des_NewCipher cipherKey
           else if cipherName = ''DES-EDE-CBC''
           then make des_NewTripleDESCipher (go_copy (go_copy (replicate 24 0) 0 cipherKey) 16 (take 8 cipherKey))
           else if cipherName = ''DES-EDE3-CBC'' then make des_NewTripleDESCipher cipherKey
           else if cipherName = ''CAST5-CBC'' then make cast5_NewCipher cipherKey
           else if cipherName \<in> {''AES-128-CBC'', ''AES-192-CBC'', ''AES-256-CBC''} then make aes_NewCipher cipherKey
           else if cipherName \<in> {''ARIA-128-CBC'', ''ARIA-192-CBC'', ''ARIA-256-CBC''} then make aria_NewCipher cipherKey
           else if cipherName \<in> {''CAMELLIA-128-CBC'', ''CAMELLIA-192-CBC'', ''CAMELLIA-256-CBC''}
           then make camellia_New cipherKey
           else if cipherName = ''SEED-CBC'' then make seed_NewCipher cipherKey
           else if cipherName = ''SM4-CBC'' then make sm4_NewCipher cipherKey
           else Inl (New ''unsupported static key cipher''))"

definition staticHMACFactory :: "string \<Rightarrow> (hashFactory option \<times> nat) result" where
  "staticHMACFactory authName =
     (if authName = [] \<or> authName = ''SHA1'' then Inr (Some sha1_New, 20)
      else if authName = ''SHA224'' then Inr (Some sha256_New224, 28)
      else if authName = ''SHA256'' then Inr (Some sha256_New, 32)
      else if authName = ''SHA384'' then Inr (Some sha512_New384, 48)
      else if authName = ''SHA512'' then Inr (Some sha512_New, 64)
      else if authName = ''RIPEMD160'' then Inr (Some ripemd160_New, 20)
      else if authName = ''MD5'' then Inr (Some md5_New, 16)
      else if authName = ''NONE'' then Inr (None, 0)
      else Inl (New ''unsupported static key auth''))"

section \<open>Layers shared by the codecs\<close>

text \<open>\<open>hmac.New\<close> on a nil factory panics.\<close>

definition mac_sum :: "crypto \<Rightarrow> hashFactory option \<Rightarrow> bytes \<Rightarrow> bytes \<Rightarrow> bytes result" where
  "mac_sum C factory key m = (case factory of None \<Rightarrow> Inl Panic | Some h \<Rightarrow> Inr (hmacSum C h key m))"

definition add_mac :: "crypto \<Rightarrow> hashFactory option \<Rightarrow> nat \<Rightarrow> bytes \<Rightarrow> bytes \<Rightarrow> bytes result" where
  "add_mac C factory hmacSize key protectedPayload =
     (if 0 < hmacSize then bindE (mac_sum C factory key protectedPayload) (\<lambda>m. Inr (m @ protectedPayload))
      else Inr protectedPayload)"

definition strip_mac ::
  "crypto \<Rightarrow> hashFactory option \<Rightarrow> nat \<Rightarrow> bytes \<Rightarrow> error \<Rightarrow> error \<Rightarrow> bytes \<Rightarrow> bytes result" where
  "strip_mac C factory hmacSize key short wrong payload =
     (if 0 < hmacSize then
        if length payload < hmacSize then Inl short
        else bindE (mac_sum C factory key (drop hmacSize payload)) (\<lambda>expected.
               if take hmacSize payload \<noteq> expected then Inl wrong else Inr (drop hmacSize payload))
      else Inr payload)"

definition cbc_protect :: "random \<Rightarrow> block option \<Rightarrow> bytes \<Rightarrow> bytes result" where
  "cbc_protect rand blk plainPayload =
     (case blk of
        None \<Rightarrow> Inr plainPayload
      | Some b \<Rightarrow>
          bindE (pkcs7Pad plainPayload (BlockSize b)) (\<lambda>paddedPayload.
          bindE (rand (BlockSize b)) (\<lambda>initializationVector.
          Inr (initializationVector @ cbc_encrypt b initializationVector paddedPayload))))"

definition cbc_unprotect :: "error \<Rightarrow> block option \<Rightarrow> bytes \<Rightarrow> bytes result" where
  "cbc_unprotect err blk protectedPayload =
     (case blk of
        None \<Rightarrow> Inr protectedPayload
      | Some b \<Rightarrow>
          let blockSize = BlockSize b
          in if length protectedPayload < blockSize * 2 \<or> length protectedPayload mod blockSize \<noteq> 0 then Inl err
             else pkcs7Unpad (cbc_decrypt b (take blockSize protectedPayload) (drop blockSize protectedPayload)) blockSize)"

definition hmac_key :: "nat \<Rightarrow> staticKeySlot \<Rightarrow> bytes" where
  "hmac_key hmacSize slot = (if 0 < hmacSize then take hmacSize (hmacKey slot) else [])"

text \<open>\<open>c.replayWindow != nil && !c.replayWindow.Accept(...)\<close>.\<close>

definition window_check ::
  "(clock \<Rightarrow> replayWindow \<Rightarrow> 'x \<Rightarrow> bool \<times> replayWindow) \<Rightarrow> clock \<Rightarrow> replayWindow option \<Rightarrow> 'x \<Rightarrow>
     bool \<times> replayWindow option" where
  "window_check accept clock w x =
     (case w of None \<Rightarrow> (True, None) | Some win \<Rightarrow> (case accept clock win x of (ok, win') \<Rightarrow> (ok, Some win')))"

section \<open>AEAD\<close>

definition tlsDataAEADTagSize :: nat where "tlsDataAEADTagSize = 16"

record tlsGCMDataCodec =
  sendAEAD :: aead
  sendIVSuffix :: bytes
  sendNonce :: bytes
  sendAdditionalData :: bytes
  receiveAEAD :: aead
  receiveIVSuffix :: bytes
  receiveNonce :: bytes
  receiveAdditionalData :: bytes
  gcm_replayWindow :: "replayWindow option"

definition gcm_EncodedLength :: "nat \<Rightarrow> nat" where
  "gcm_EncodedLength payloadLength = 4 + tlsDataAEADTagSize + payloadLength"

definition gcm_codec :: "aead \<Rightarrow> staticKeySlot \<Rightarrow> aead \<Rightarrow> staticKeySlot \<Rightarrow> u32 \<Rightarrow> duration \<Rightarrow> tlsGCMDataCodec" where
  "gcm_codec send sendSlot receive receiveSlot replayWindowSize replayWindowTime =
     \<lparr>sendAEAD = send, sendIVSuffix = take 8 (hmacKey sendSlot),
      sendNonce = replicate 32 0, sendAdditionalData = replicate 8 0,
      receiveAEAD = receive, receiveIVSuffix = take 8 (hmacKey receiveSlot),
      receiveNonce = replicate 32 0, receiveAdditionalData = replicate 8 0,
      gcm_replayWindow = Some (newReplayWindow replayWindowSize replayWindowTime)\<rparr>"

definition newTLSGCMDataCodec ::
  "crypto \<Rightarrow> bytes \<Rightarrow> bool \<Rightarrow> string \<Rightarrow> u32 \<Rightarrow> duration \<Rightarrow> tlsGCMDataCodec result" where
  "newTLSGCMDataCodec C keyMaterial server cipherName replayWindowSize replayWindowTime =
     (if length keyMaterial < 256 then Inl (New ''invalid tls key material'')
      else
        let (sendSlot, receiveSlot) = tlsDataKeySlots (splitStaticKeyMaterial keyMaterial) server
        in bindE (if cipherName = ''AES-128-GCM'' then Inr 16
                  else if cipherName = ''AES-192-GCM'' then Inr 24
                  else if cipherName = ''AES-256-GCM'' then Inr 32
                  else Inl (New ''unsupported gcm cipher'')) (\<lambda>keySize.
           bindE (newBlock C aes_NewCipher (take keySize (cipherKey sendSlot))) (\<lambda>sendBlock.
           bindE (newBlock C aes_NewCipher (take keySize (cipherKey receiveSlot))) (\<lambda>receiveBlock.
           bindE (newGCM C sendBlock) (\<lambda>send.
           bindE (newGCM C receiveBlock) (\<lambda>receive.
           Inr (gcm_codec send sendSlot receive receiveSlot replayWindowSize replayWindowTime)))))))"

definition newTLSChaCha20Poly1305DataCodec ::
  "crypto \<Rightarrow> bytes \<Rightarrow> bool \<Rightarrow> u32 \<Rightarrow> duration \<Rightarrow> tlsGCMDataCodec result" where
  "newTLSChaCha20Poly1305DataCodec C keyMaterial server replayWindowSize replayWindowTime =
     (if length keyMaterial < 256 then Inl (New ''invalid tls key material'')
      else
        let (sendSlot, receiveSlot) = tlsDataKeySlots (splitStaticKeyMaterial keyMaterial) server
        in bindE (newChaCha20Poly1305 C (take 32 (cipherKey sendSlot))) (\<lambda>send.
           bindE (newChaCha20Poly1305 C (take 32 (cipherKey receiveSlot))) (\<lambda>receive.
           Inr (gcm_codec send sendSlot receive receiveSlot replayWindowSize replayWindowTime))))"

text \<open>The nonce: the packet id, then the IV suffix, in a slice of \<open>NonceSize\<close> bytes.\<close>

definition write_nonce :: "bytes \<Rightarrow> u32 \<Rightarrow> bytes \<Rightarrow> bytes" where
  "write_nonce nonce packetID ivSuffix = go_copy (go_copy nonce 0 (put_u32 packetID)) 4 ivSuffix"

definition gcm_Encode :: "tlsGCMDataCodec \<Rightarrow> u32 \<Rightarrow> bytes \<Rightarrow> bytes \<Rightarrow> bytes result" where
  "gcm_Encode c packetID aadPrefix payload =
     (if packetID = 0 then Inl (New ''invalid data packet id'')
      else if NonceSize (sendAEAD c) < 4 then Inl Panic
      else
        let nonce = write_nonce (replicate (NonceSize (sendAEAD c)) 0) packetID (sendIVSuffix c);
            packetIDBytes = put_u32 packetID;
            additionalData = aadPrefix @ packetIDBytes;
            ciphertext = Seal (sendAEAD c) nonce payload additionalData
        in if length ciphertext < tlsDataAEADTagSize then Inl (New ''invalid gcm ciphertext'')
           else
             let tag = drop (length ciphertext - tlsDataAEADTagSize) ciphertext;
                 encryptedPayload = take (length ciphertext - tlsDataAEADTagSize) ciphertext
             in Inr (packetIDBytes @ tag @ encryptedPayload))"

definition gcm_Decode :: "clock \<Rightarrow> tlsGCMDataCodec \<Rightarrow> bytes \<Rightarrow> bytes \<Rightarrow> (u32 \<times> bytes) result \<times> tlsGCMDataCodec" where
  "gcm_Decode clock c aadPrefix payload =
     (if length payload < 4 + tlsDataAEADTagSize then (Inl (New ''invalid gcm payload''), c)
      else if NonceSize (receiveAEAD c) < 4 then (Inl Panic, c)
      else
        let packetID = get_u32 payload;
            tag = take tlsDataAEADTagSize (drop 4 payload);
            ciphertext = drop (4 + tlsDataAEADTagSize) payload;
            nonce = write_nonce (replicate (NonceSize (receiveAEAD c)) 0) packetID (receiveIVSuffix c);
            additionalData = aadPrefix @ put_u32 packetID
        in case Open (receiveAEAD c) nonce (ciphertext @ tag) additionalData of
             Inl err \<Rightarrow> (Inl err, c)
           | Inr decodedPayload \<Rightarrow>
               (case window_check Accept clock (gcm_replayWindow c) packetID of (ok, w) \<Rightarrow>
                  (if ok then Inr (packetID, decodedPayload) else Inl (New ''replayed gcm packet''),
                   c\<lparr>gcm_replayWindow := w\<rparr>)))"

section \<open>CBC with HMAC\<close>

record tlsCBCDataCodec =
  cbc_sendCipherBlock :: "block option"
  cbc_sendHMACKey :: bytes
  cbc_receiveCipher :: "block option"
  cbc_receiveHMACKey :: bytes
  cbc_hashFactory :: "hashFactory option"
  cbc_hmacSize :: nat
  cbc_replayWindow :: "replayWindow option"

text \<open>The length of what \<open>cbc_protect\<close> makes of a plain payload.\<close>

definition protected_length :: "block option \<Rightarrow> nat \<Rightarrow> nat" where
  "protected_length blk plainLength =
     (case blk of None \<Rightarrow> plainLength
      | Some b \<Rightarrow> let blockSize = BlockSize b in blockSize + (plainLength div blockSize + 1) * blockSize)"

definition cbc_EncodedLength :: "tlsCBCDataCodec \<Rightarrow> nat \<Rightarrow> nat" where
  "cbc_EncodedLength c payloadLength = cbc_hmacSize c + protected_length (cbc_sendCipherBlock c) (4 + payloadLength)"

definition newTLSCBCDataCodec ::
  "crypto \<Rightarrow> bytes \<Rightarrow> bool \<Rightarrow> string \<Rightarrow> string \<Rightarrow> u32 \<Rightarrow> duration \<Rightarrow> tlsCBCDataCodec result" where
  "newTLSCBCDataCodec C keyMaterial server cipherName authName replayWindowSize replayWindowTime =
     (if length keyMaterial < 256 then Inl (New ''invalid tls key material'')
      else
        let (sendSlot, receiveSlot) = tlsDataKeySlots (splitStaticKeyMaterial keyMaterial) server
        in bindE (staticCipherKeySize cipherName) (\<lambda>cipherKeySize.
           bindE (staticHMACFactory authName) (\<lambda>(factory, hmacSize).
           bindE (newStaticCipherBlock C cipherName (cipherKey sendSlot) cipherKeySize) (\<lambda>sendCipherBlock.
           bindE (newStaticCipherBlock C cipherName (cipherKey receiveSlot) cipherKeySize) (\<lambda>receiveCipherBlock.
           Inr \<lparr>cbc_sendCipherBlock = sendCipherBlock, cbc_sendHMACKey = hmac_key hmacSize sendSlot,
                cbc_receiveCipher = receiveCipherBlock, cbc_receiveHMACKey = hmac_key hmacSize receiveSlot,
                cbc_hashFactory = factory, cbc_hmacSize = hmacSize,
                cbc_replayWindow = Some (newReplayWindow replayWindowSize replayWindowTime)\<rparr>)))))"

definition cbc_Encode :: "crypto \<Rightarrow> random \<Rightarrow> tlsCBCDataCodec \<Rightarrow> u32 \<Rightarrow> bytes \<Rightarrow> bytes result" where
  "cbc_Encode C rand c packetID payload =
     (if packetID = 0 then Inl (New ''invalid data packet id'')
      else bindE (cbc_protect rand (cbc_sendCipherBlock c) (put_u32 packetID @ payload)) (\<lambda>protectedPayload.
           add_mac C (cbc_hashFactory c) (cbc_hmacSize c) (cbc_sendHMACKey c) protectedPayload))"

definition cbc_Decode :: "crypto \<Rightarrow> clock \<Rightarrow> tlsCBCDataCodec \<Rightarrow> bytes \<Rightarrow> (u32 \<times> bytes) result \<times> tlsCBCDataCodec" where
  "cbc_Decode C clock c payload =
     (case bindE (strip_mac C (cbc_hashFactory c) (cbc_hmacSize c) (cbc_receiveHMACKey c)
                    (New ''invalid tls data packet'') (New ''invalid tls data packet hmac'') payload)
             (cbc_unprotect (New ''invalid tls data packet'') (cbc_receiveCipher c)) of
        Inl err \<Rightarrow> (Inl err, c)
      | Inr plainPayload \<Rightarrow>
          if length plainPayload < 4 then (Inl (New ''invalid tls data packet''), c)
          else
            let packetID = get_u32 plainPayload
            in case window_check Accept clock (cbc_replayWindow c) packetID of (ok, w) \<Rightarrow>
                 (if ok then Inr (packetID, drop 4 plainPayload) else Inl (New ''replayed tls data packet''),
                  c\<lparr>cbc_replayWindow := w\<rparr>))"

section \<open>CFB and OFB\<close>

datatype tlsStreamCipherMode = tlsStreamCipherModeCFB | tlsStreamCipherModeOFB

record tlsStreamDataCodec =
  stream_sendCipherBlock :: block
  stream_sendHMACKey :: bytes
  stream_receiveCipher :: block
  stream_receiveHMACKey :: bytes
  stream_hashFactory :: "hashFactory option"
  stream_hmacSize :: nat
  stream_mode :: tlsStreamCipherMode
  stream_sendTimestamp :: u32
  stream_replayWindow :: "replayWindow option"

definition stream_EncodedLength :: "tlsStreamDataCodec \<Rightarrow> nat \<Rightarrow> nat" where
  "stream_EncodedLength c payloadLength = stream_hmacSize c + BlockSize (stream_sendCipherBlock c) + payloadLength"

definition tlsStreamCipherSpec :: "string \<Rightarrow> (tlsStreamCipherMode \<times> string \<times> nat) result" where
  "tlsStreamCipherSpec cipherName =
     bindE (if HasSuffix cipherName ''-CFB'' then Inr (tlsStreamCipherModeCFB, TrimSuffix cipherName ''-CFB'' @ ''-CBC'')
            else if HasSuffix cipherName ''-OFB'' then Inr (tlsStreamCipherModeOFB, TrimSuffix cipherName ''-OFB'' @ ''-CBC'')
            else Inl (New ''unsupported tls stream cipher'')) (\<lambda>(mode, cbcCipherName).
     case staticCipherKeySize cbcCipherName of
       Inl _ \<Rightarrow> Inl (New ''unsupported tls stream cipher'')
     | Inr cipherKeySize \<Rightarrow> Inr (mode, cbcCipherName, cipherKeySize))"

text \<open>
  The cipher name behind a stream mode ends in \<open>-CBC\<close>, so it is not \<open>NONE\<close> and the cipher block is not
  nil: \<open>newStaticCipherBlock\<close> gives a block or an error. A nil block would panic at its first use.
\<close>

definition non_nil :: "block option \<Rightarrow> block result" where
  "non_nil blk = (case blk of None \<Rightarrow> Inl Panic | Some b \<Rightarrow> Inr b)"

definition newTLSStreamDataCodec ::
  "crypto \<Rightarrow> u32 \<Rightarrow> bytes \<Rightarrow> bool \<Rightarrow> string \<Rightarrow> string \<Rightarrow> u32 \<Rightarrow> duration \<Rightarrow> tlsStreamDataCodec result" where
  "newTLSStreamDataCodec C unixTime keyMaterial server cipherName authName replayWindowSize replayWindowTime =
     (if length keyMaterial < 256 then Inl (New ''invalid tls key material'')
      else
        bindE (tlsStreamCipherSpec cipherName) (\<lambda>(mode, cbcCipherName, cipherKeySize).
        let (sendSlot, receiveSlot) = tlsDataKeySlots (splitStaticKeyMaterial keyMaterial) server
        in bindE (staticHMACFactory authName) (\<lambda>(factory, hmacSize).
           bindE (bindE (newStaticCipherBlock C cbcCipherName (cipherKey sendSlot) cipherKeySize) non_nil) (\<lambda>sendCipherBlock.
           bindE (bindE (newStaticCipherBlock C cbcCipherName (cipherKey receiveSlot) cipherKeySize) non_nil) (\<lambda>receiveCipherBlock.
           Inr \<lparr>stream_sendCipherBlock = sendCipherBlock, stream_sendHMACKey = hmac_key hmacSize sendSlot,
                stream_receiveCipher = receiveCipherBlock, stream_receiveHMACKey = hmac_key hmacSize receiveSlot,
                stream_hashFactory = factory, stream_hmacSize = hmacSize, stream_mode = mode,
                stream_sendTimestamp = unixTime,
                stream_replayWindow = Some (newReplayWindow replayWindowSize replayWindowTime)\<rparr>)))))"

definition stream_crypt :: "tlsStreamDataCodec \<Rightarrow> block \<Rightarrow> bytes \<Rightarrow> bool \<Rightarrow> bytes \<Rightarrow> bytes" where
  "stream_crypt c b initializationVector encrypt =
     (if stream_mode c = tlsStreamCipherModeOFB then ofb_crypt b initializationVector
      else if encrypt then cfb_encrypt b initializationVector
      else cfb_decrypt b initializationVector)"

definition stream_Encode :: "crypto \<Rightarrow> tlsStreamDataCodec \<Rightarrow> u32 \<Rightarrow> bytes \<Rightarrow> bytes result" where
  "stream_Encode C c packetID payload =
     (if packetID = 0 then Inl (New ''invalid data packet id'')
      else if BlockSize (stream_sendCipherBlock c) < 8 then Inl Panic
      else
        let initializationVector =
              go_copy (go_copy (replicate (BlockSize (stream_sendCipherBlock c)) 0) 0 (put_u32 packetID))
                4 (put_u32 (stream_sendTimestamp c));
            cipherPayload = stream_crypt c (stream_sendCipherBlock c) initializationVector True payload
        in add_mac C (stream_hashFactory c) (stream_hmacSize c) (stream_sendHMACKey c)
             (initializationVector @ cipherPayload))"

definition stream_Decode :: "crypto \<Rightarrow> clock \<Rightarrow> tlsStreamDataCodec \<Rightarrow> bytes \<Rightarrow> (u32 \<times> bytes) result \<times> tlsStreamDataCodec" where
  "stream_Decode C clock c payload =
     (case strip_mac C (stream_hashFactory c) (stream_hmacSize c) (stream_receiveHMACKey c)
             (New ''invalid tls stream data packet'') (New ''invalid tls stream data packet hmac'') payload of
        Inl err \<Rightarrow> (Inl err, c)
      | Inr protectedPayload \<Rightarrow>
          let blockSize = BlockSize (stream_receiveCipher c)
          in if length protectedPayload \<le> blockSize then (Inl (New ''invalid tls stream data packet''), c)
             else if blockSize < 8 then (Inl Panic, c)
             else
               let initializationVector = take blockSize protectedPayload;
                   packetID = get_u32 initializationVector;
                   packetTimestamp = get_u32 (drop 4 initializationVector);
                   decodedPayload = stream_crypt c (stream_receiveCipher c) initializationVector False
                                      (drop blockSize protectedPayload)
               in case window_check AcceptLongForm clock (stream_replayWindow c) (packetTimestamp, packetID) of (ok, w) \<Rightarrow>
                    (if ok then Inr (packetID, decodedPayload) else Inl (New ''replayed tls stream data packet''),
                     c\<lparr>stream_replayWindow := w\<rparr>))"

section \<open>Static keys\<close>

record staticKeyDecodeCandidate =
  cand_cipherBlock :: "block option"
  cand_hmacKey :: bytes

record staticKeyDataCodec =
  static_sendCipherBlock :: "block option"
  static_sendHMACKey :: bytes
  receiveCandidates :: "staticKeyDecodeCandidate list"
  static_hashFactory :: "hashFactory option"
  static_hmacSize :: nat
  static_sendTimestamp :: u32
  static_replayWindow :: "replayWindow option"

definition static_EncodedLength :: "staticKeyDataCodec \<Rightarrow> nat \<Rightarrow> nat" where
  "static_EncodedLength c payloadLength = static_hmacSize c + protected_length (static_sendCipherBlock c) (8 + payloadLength)"

definition static_Encode :: "crypto \<Rightarrow> random \<Rightarrow> staticKeyDataCodec \<Rightarrow> u32 \<Rightarrow> bytes \<Rightarrow> bytes result" where
  "static_Encode C rand c packetID payload =
     (if packetID = 0 then Inl (New ''invalid static key packet id'')
      else bindE (cbc_protect rand (static_sendCipherBlock c)
                    (put_u32 packetID @ put_u32 (static_sendTimestamp c) @ payload)) (\<lambda>protectedPayload.
           add_mac C (static_hashFactory c) (static_hmacSize c) (static_sendHMACKey c) protectedPayload))"

definition decodeWithCandidate ::
  "crypto \<Rightarrow> staticKeyDataCodec \<Rightarrow> bytes \<Rightarrow> staticKeyDecodeCandidate \<Rightarrow> (u32 \<times> u32 \<times> bytes) result" where
  "decodeWithCandidate C c payload candidate =
     bindE (strip_mac C (static_hashFactory c) (static_hmacSize c) (cand_hmacKey candidate)
              (New ''invalid static key payload'') (New ''invalid static key payload hmac'') payload) (\<lambda>protectedPayload.
     bindE (cbc_unprotect (New ''invalid static key payload'') (cand_cipherBlock candidate) protectedPayload) (\<lambda>plainPayload.
       if length plainPayload < 8 then Inl (New ''invalid static key payload'')
       else
         let packetID = get_u32 plainPayload
         in if packetID = 0 then Inl (New ''invalid static key packet id'')
            else Inr (packetID, get_u32 (drop 4 plainPayload), drop 8 plainPayload)))"

text \<open>The first candidate that decodes decides; otherwise the last error is returned.\<close>

fun decode_candidates ::
  "crypto \<Rightarrow> clock \<Rightarrow> staticKeyDataCodec \<Rightarrow> bytes \<Rightarrow> error option \<Rightarrow> staticKeyDecodeCandidate list \<Rightarrow>
     (u32 \<times> bytes) result \<times> staticKeyDataCodec" where
  "decode_candidates C clock c payload decodeError [] =
     (Inl (case decodeError of None \<Rightarrow> New ''invalid static key payload'' | Some err \<Rightarrow> err), c)"
| "decode_candidates C clock c payload decodeError (candidate # candidates) =
     (case decodeWithCandidate C c payload candidate of
        Inr (packetID, packetTimestamp, decodedPayload) \<Rightarrow>
          (case window_check AcceptLongForm clock (static_replayWindow c) (packetTimestamp, packetID) of (ok, w) \<Rightarrow>
             (if ok then Inr (packetID, decodedPayload) else Inl (New ''replayed static key data packet''),
              c\<lparr>static_replayWindow := w\<rparr>))
      | Inl err \<Rightarrow> decode_candidates C clock c payload (Some err) candidates)"

definition static_Decode :: "crypto \<Rightarrow> clock \<Rightarrow> staticKeyDataCodec \<Rightarrow> bytes \<Rightarrow> (u32 \<times> bytes) result \<times> staticKeyDataCodec" where
  "static_Decode C clock c payload = decode_candidates C clock c payload None (receiveCandidates c)"

text \<open>Parsing of the key: 256 raw bytes, or 512 hexadecimal digits between the markers. \<open>content\<close> is
  what \<open>loadMaterial\<close> returns for the configured source.\<close>

definition beginMarker :: string where "beginMarker = ''-----BEGIN OpenVPN Static key V1-----''"
definition endMarker :: string where "endMarker = ''-----END OpenVPN Static key V1-----''"

definition loadStaticKeyMaterialFromSource :: "bytes result \<Rightarrow> bytes result" where
  "loadStaticKeyMaterialFromSource content =
     bindE content (\<lambda>staticKeyContent.
       if staticKeyContent = [] then Inl (Sentinel ErrMissingStaticKey)
       else if length staticKeyContent = 256 then Inr staticKeyContent
       else
         let staticKeyText = bytes_str staticKeyContent
         in bindE (case str_Index staticKeyText beginMarker of
                     None \<Rightarrow> Inr staticKeyText
                   | Some beginIndex \<Rightarrow>
                       let staticKeyText = drop (beginIndex + length beginMarker) staticKeyText
                       in case str_Index staticKeyText endMarker of
                            None \<Rightarrow> Inl (New ''invalid static key end marker'')
                          | Some endIndex \<Rightarrow> Inr (take endIndex staticKeyText)) (\<lambda>staticKeyText.
            let hexContent = str_Join (Fields staticKeyText) []
            in if length hexContent \<noteq> 512 then Inl (New ''static key must contain exactly 256 bytes'')
               else hex_DecodeString hexContent))"

definition static_candidate :: "crypto \<Rightarrow> string \<Rightarrow> nat \<Rightarrow> nat \<Rightarrow> staticKeySlot \<Rightarrow> staticKeyDecodeCandidate result" where
  "static_candidate C cipherName cipherKeySize hmacSize slot =
     bindE (newStaticCipherBlock C cipherName (cipherKey slot) cipherKeySize) (\<lambda>b.
       Inr \<lparr>cand_cipherBlock = b, cand_hmacKey = hmac_key hmacSize slot\<rparr>)"

definition newStaticKeyDataCodec ::
  "crypto \<Rightarrow> u32 \<Rightarrow> bytes result \<Rightarrow> int \<Rightarrow> string \<Rightarrow> string \<Rightarrow> u32 \<Rightarrow> duration \<Rightarrow> staticKeyDataCodec result" where
  "newStaticKeyDataCodec C unixTime staticKey keyDirection cipherName authName replayWindowSize replayWindowTime =
     bindE (loadStaticKeyMaterialFromSource staticKey) (\<lambda>staticKeyMaterial.
     bindE (staticCipherKeySize cipherName) (\<lambda>cipherKeySize.
     bindE (staticHMACFactory authName) (\<lambda>(factory, hmacSize).
     let keySlots = splitStaticKeyMaterial staticKeyMaterial;
         (sendSlotIndex, receiveSlotIndex, receiveFallbackIndex) = resolveStaticKeyDirection keyDirection;
         sendSlot = keySlots ! sendSlotIndex
     in bindE (newStaticCipherBlock C cipherName (cipherKey sendSlot) cipherKeySize) (\<lambda>sendCipherBlock.
        bindE (static_candidate C cipherName cipherKeySize hmacSize (keySlots ! receiveSlotIndex)) (\<lambda>candidate.
        bindE (if receiveFallbackIndex \<noteq> receiveSlotIndex
               then bindE (static_candidate C cipherName cipherKeySize hmacSize (keySlots ! receiveFallbackIndex))
                      (\<lambda>fallback. Inr [candidate, fallback])
               else Inr [candidate]) (\<lambda>candidates.
        Inr \<lparr>static_sendCipherBlock = sendCipherBlock, static_sendHMACKey = hmac_key hmacSize sendSlot,
             receiveCandidates = candidates, static_hashFactory = factory, static_hmacSize = hmacSize,
             static_sendTimestamp = unixTime,
             static_replayWindow = Some (newReplayWindow replayWindowSize replayWindowTime)\<rparr>))))))"

section \<open>The interface \<open>dataCodec\<close>\<close>

datatype dataCodec =
    GCM tlsGCMDataCodec | CBC tlsCBCDataCodec | Stream tlsStreamDataCodec | Static staticKeyDataCodec

definition dataReplayWindowParameters :: "u32 \<Rightarrow> duration \<Rightarrow> u32 \<times> duration" where
  "dataReplayWindowParameters replayWindowSize replayWindowTime =
     (if replayWindowSize = 0 then defaultReplayWindowSize else replayWindowSize,
      if replayWindowTime = 0 then defaultReplayWindowTime else replayWindowTime)"

definition newTLSDataCodec ::
  "crypto \<Rightarrow> u32 \<Rightarrow> bytes \<Rightarrow> bool \<Rightarrow> string \<Rightarrow> string \<Rightarrow> u32 \<Rightarrow> duration \<Rightarrow> dataCodec result" where
  "newTLSDataCodec C unixTime keyMaterial server cipherName authName replayWindowSize replayWindowTime =
     (let (wsize, wtime) = dataReplayWindowParameters replayWindowSize replayWindowTime
      in if cipherName \<in> {''AES-128-GCM'', ''AES-192-GCM'', ''AES-256-GCM''}
         then bindE (newTLSGCMDataCodec C keyMaterial server cipherName wsize wtime) (\<lambda>c. Inr (GCM c))
         else if cipherName = ''CHACHA20-POLY1305''
         then bindE (newTLSChaCha20Poly1305DataCodec C keyMaterial server wsize wtime) (\<lambda>c. Inr (GCM c))
         else case tlsStreamCipherSpec cipherName of
                Inr _ \<Rightarrow> bindE (newTLSStreamDataCodec C unixTime keyMaterial server cipherName authName wsize wtime) (\<lambda>c. Inr (Stream c))
              | Inl _ \<Rightarrow> bindE (newTLSCBCDataCodec C keyMaterial server cipherName authName wsize wtime) (\<lambda>c. Inr (CBC c)))"

fun codec_Encode :: "crypto \<Rightarrow> random \<Rightarrow> dataCodec \<Rightarrow> u32 \<Rightarrow> bytes \<Rightarrow> bytes \<Rightarrow> bytes result" where
  "codec_Encode C rand (GCM c) packetID aadPrefix payload = gcm_Encode c packetID aadPrefix payload"
| "codec_Encode C rand (CBC c) packetID aadPrefix payload = cbc_Encode C rand c packetID payload"
| "codec_Encode C rand (Stream c) packetID aadPrefix payload = stream_Encode C c packetID payload"
| "codec_Encode C rand (Static c) packetID aadPrefix payload = static_Encode C rand c packetID payload"

fun codec_Decode :: "crypto \<Rightarrow> clock \<Rightarrow> dataCodec \<Rightarrow> bytes \<Rightarrow> bytes \<Rightarrow> (u32 \<times> bytes) result \<times> dataCodec" where
  "codec_Decode C clock (GCM c) aadPrefix payload =
     (case gcm_Decode clock c aadPrefix payload of (r, c) \<Rightarrow> (r, GCM c))"
| "codec_Decode C clock (CBC c) aadPrefix payload = (case cbc_Decode C clock c payload of (r, c) \<Rightarrow> (r, CBC c))"
| "codec_Decode C clock (Stream c) aadPrefix payload = (case stream_Decode C clock c payload of (r, c) \<Rightarrow> (r, Stream c))"
| "codec_Decode C clock (Static c) aadPrefix payload = (case static_Decode C clock c payload of (r, c) \<Rightarrow> (r, Static c))"

fun codec_EncodedLength :: "dataCodec \<Rightarrow> nat \<Rightarrow> nat" where
  "codec_EncodedLength (GCM c) n = gcm_EncodedLength n"
| "codec_EncodedLength (CBC c) n = cbc_EncodedLength c n"
| "codec_EncodedLength (Stream c) n = stream_EncodedLength c n"
| "codec_EncodedLength (Static c) n = static_EncodedLength c n"

section \<open>Layers invert\<close>

definition random_ok :: "random \<Rightarrow> bool" where
  "random_ok rand \<longleftrightarrow> (\<forall>n iv. rand n = Inr iv \<longrightarrow> length iv = n)"

definition mac_size_ok :: "hashFactory option \<Rightarrow> nat \<Rightarrow> bool" where
  "mac_size_ok factory n \<longleftrightarrow> n = (case factory of None \<Rightarrow> 0 | Some h \<Rightarrow> hash_Size h)"

definition blk_ok :: "block option \<Rightarrow> bool" where
  "blk_ok blk \<longleftrightarrow> (\<forall>b. blk = Some b \<longrightarrow> block_ok b)"

lemma mac_roundtrip:
  assumes "crypto_ok C" "mac_size_ok factory n" "add_mac C factory n key m = Inr w"
  shows "strip_mac C factory n key e1 e2 w = Inr m \<and> length w = n + length m"
  using assms
  by (cases factory) (auto simp: crypto_ok_def mac_size_ok_def add_mac_def strip_mac_def mac_sum_def)

lemma cbc_protect_roundtrip:
  assumes "blk_ok blk" "random_ok rand" "cbc_protect rand blk p = Inr m"
  shows "cbc_unprotect err blk m = Inr p \<and> length m = protected_length blk (length p)"
proof (cases blk)
  case (Some b)
  then have b: "block_ok b" using assms(1) by (simp add: blk_ok_def)
  then have n: "0 < BlockSize b" "BlockSize b < 256" by (simp_all add: block_ok_def)
  obtain q iv where q: "pkcs7Pad p (BlockSize b) = Inr q" and iv: "rand (BlockSize b) = Inr iv"
    and m: "m = iv @ cbc_encrypt b iv q"
    using assms(3) Some by (auto simp: cbc_protect_def bindE_Inr_iff)
  note pad = pkcs7_roundtrip [OF n q]
  have l: "length iv = BlockSize b" using assms(2) iv by (simp add: random_ok_def)
  have "length q mod BlockSize b = 0" unfolding pad(2) by simp
  from cbc.prefixed_roundtrip [OF b l this] m
  have r: "length m = BlockSize b + length q" "cbc_decrypt b (take (BlockSize b) m) (drop (BlockSize b) m) = q"
    by (simp_all add: Let_def)
  have "length m = BlockSize b * (length p div BlockSize b + 2)" unfolding r(1) pad(2) by (simp add: algebra_simps)
  then have "length m mod BlockSize b = 0" "BlockSize b * 2 \<le> length m" by simp_all
  then show ?thesis using r pad Some by (simp add: cbc_unprotect_def protected_length_def Let_def)
qed (use assms in \<open>simp add: cbc_protect_def cbc_unprotect_def protected_length_def\<close>)

lemma length_go_copy [simp]: "i + length src \<le> length dst \<Longrightarrow> length (go_copy dst i src) = length dst"
  by (simp add: go_copy_def)

lemma stream_iv:
  assumes "8 \<le> n"
  shows "go_copy (go_copy (replicate n 0) 0 (put_u32 a)) 4 (put_u32 b) = put_u32 a @ put_u32 b @ replicate (n - 8) 0"
  using assms by (simp add: go_copy_def)

lemma stream_crypt_roundtrip:
  assumes "block_ok b" "length iv = BlockSize b" "stream_mode s = stream_mode d"
  shows "stream_crypt d b iv False (stream_crypt s b iv True p) = p \<and> length (stream_crypt s b iv True p) = length p"
  using assms ofb.dec_enc [of b iv p] cfb.dec_enc [of b iv p] ofb.length_enc [of b iv p] cfb.length_enc [of b iv p]
  by (simp add: stream_crypt_def)

section \<open>A sender and its receiver\<close>

text \<open>
  \<open>codec_peers s d\<close>: what \<open>s\<close> sends with, \<open>d\<close> receives with. The label of a packet is what the replay
  window sees of it: the packet id, with the sender's timestamp in the long form.
\<close>

fun codec_peers :: "dataCodec \<Rightarrow> dataCodec \<Rightarrow> bool" where
  "codec_peers (GCM s) (GCM d) \<longleftrightarrow>
     aead_ok (sendAEAD s) \<and> receiveAEAD d = sendAEAD s \<and> receiveIVSuffix d = sendIVSuffix s"
| "codec_peers (CBC s) (CBC d) \<longleftrightarrow>
     blk_ok (cbc_sendCipherBlock s) \<and> cbc_receiveCipher d = cbc_sendCipherBlock s \<and>
     cbc_receiveHMACKey d = cbc_sendHMACKey s \<and> cbc_hashFactory d = cbc_hashFactory s \<and>
     cbc_hmacSize d = cbc_hmacSize s \<and> mac_size_ok (cbc_hashFactory s) (cbc_hmacSize s)"
| "codec_peers (Stream s) (Stream d) \<longleftrightarrow>
     block_ok (stream_sendCipherBlock s) \<and> stream_receiveCipher d = stream_sendCipherBlock s \<and>
     stream_receiveHMACKey d = stream_sendHMACKey s \<and> stream_hashFactory d = stream_hashFactory s \<and>
     stream_hmacSize d = stream_hmacSize s \<and> mac_size_ok (stream_hashFactory s) (stream_hmacSize s) \<and>
     stream_mode d = stream_mode s"
| "codec_peers (Static s) (Static d) \<longleftrightarrow>
     blk_ok (static_sendCipherBlock s) \<and>
     (\<exists>cs. receiveCandidates d = \<lparr>cand_cipherBlock = static_sendCipherBlock s, cand_hmacKey = static_sendHMACKey s\<rparr> # cs) \<and>
     static_hashFactory d = static_hashFactory s \<and> static_hmacSize d = static_hmacSize s \<and>
     mac_size_ok (static_hashFactory s) (static_hmacSize s)"
| "codec_peers _ _ \<longleftrightarrow> False"

fun codec_timestamp :: "dataCodec \<Rightarrow> u32" where
  "codec_timestamp (Stream c) = stream_sendTimestamp c"
| "codec_timestamp (Static c) = static_sendTimestamp c"
| "codec_timestamp _ = 0"

fun codec_accept :: "clock \<Rightarrow> dataCodec \<Rightarrow> u32 \<times> u32 \<Rightarrow> bool \<times> dataCodec" where
  "codec_accept clock (GCM c) x =
     (case window_check Accept clock (gcm_replayWindow c) (snd x) of (ok, w) \<Rightarrow> (ok, GCM (c\<lparr>gcm_replayWindow := w\<rparr>)))"
| "codec_accept clock (CBC c) x =
     (case window_check Accept clock (cbc_replayWindow c) (snd x) of (ok, w) \<Rightarrow> (ok, CBC (c\<lparr>cbc_replayWindow := w\<rparr>)))"
| "codec_accept clock (Stream c) x =
     (case window_check AcceptLongForm clock (stream_replayWindow c) x of (ok, w) \<Rightarrow> (ok, Stream (c\<lparr>stream_replayWindow := w\<rparr>)))"
| "codec_accept clock (Static c) x =
     (case window_check AcceptLongForm clock (static_replayWindow c) x of (ok, w) \<Rightarrow> (ok, Static (c\<lparr>static_replayWindow := w\<rparr>)))"

definition delivers :: "clock \<Rightarrow> dataCodec \<Rightarrow> u32 \<times> u32 \<Rightarrow> 'm \<Rightarrow> 'm result \<times> dataCodec \<Rightarrow> bool" where
  "delivers clock d x m r \<longleftrightarrow>
     (case codec_accept clock d x of
        (True, d') \<Rightarrow> r = (Inr m, d') | (False, d') \<Rightarrow> (\<exists>e. fst r = Inl e) \<and> snd r = d')"

lemma gcm_roundtrip:
  assumes "codec_peers (GCM s) (GCM d)" "gcm_Encode s packetID aad p = Inr w"
  shows "delivers clock (GCM d) (0, packetID) (packetID, p) (codec_Decode C clock (GCM d) aad w)"
    and "length w = 20 + length p"
proof -
  let ?ns = "write_nonce (replicate 12 0) packetID (sendIVSuffix s)"
  let ?ct = "Seal (sendAEAD s) ?ns p (aad @ put_u32 packetID)"
  have a: "NonceSize (sendAEAD s) = 12" "length ?ct = length p + 16"
    "Open (sendAEAD s) ?ns ?ct (aad @ put_u32 packetID) = Inr p"
    using assms(1) by (auto simp: aead_ok_def)
  then have w: "w = put_u32 packetID @ drop (length p) ?ct @ take (length p) ?ct"
    using assms(2) by (simp add: gcm_Encode_def tlsDataAEADTagSize_def Let_def split: if_splits)
  then show "length w = 20 + length p" using a(2) by simp
  have "take 16 (drop 4 w) = drop (length p) ?ct" "drop 20 w = take (length p) ?ct" "get_u32 w = packetID" "20 \<le> length w"
    using a(2) w by simp_all
  then show "delivers clock (GCM d) (0, packetID) (packetID, p) (codec_Decode C clock (GCM d) aad w)"
    using a assms(1)
    by (auto simp: delivers_def gcm_Decode_def tlsDataAEADTagSize_def Let_def split: prod.splits)
qed

lemma cbc_roundtrip:
  assumes "crypto_ok C" "random_ok rand" "codec_peers (CBC s) (CBC d)" "cbc_Encode C rand s packetID p = Inr w"
  shows "delivers clock (CBC d) (0, packetID) (packetID, p) (codec_Decode C clock (CBC d) aad w)"
    and "length w = cbc_EncodedLength s (length p)"
proof -
  obtain m where m: "cbc_protect rand (cbc_sendCipherBlock s) (put_u32 packetID @ p) = Inr m"
    and w: "add_mac C (cbc_hashFactory s) (cbc_hmacSize s) (cbc_sendHMACKey s) m = Inr w"
    using assms(4) by (auto simp: cbc_Encode_def bindE_Inr_iff split: if_splits)
  have ok: "blk_ok (cbc_sendCipherBlock s)" "mac_size_ok (cbc_hashFactory s) (cbc_hmacSize s)"
    using assms(3) by simp_all
  note r = cbc_protect_roundtrip [OF ok(1) assms(2) m] mac_roundtrip [OF assms(1) ok(2) w]
  show "length w = cbc_EncodedLength s (length p)" using r by (simp add: cbc_EncodedLength_def)
  show "delivers clock (CBC d) (0, packetID) (packetID, p) (codec_Decode C clock (CBC d) aad w)"
    using r assms(3) by (auto simp: delivers_def cbc_Decode_def Let_def split: prod.splits)
qed

lemma stream_roundtrip:
  assumes "crypto_ok C" "codec_peers (Stream s) (Stream d)" "stream_Encode C s packetID p = Inr w"
  shows "p \<noteq> [] \<Longrightarrow>
      delivers clock (Stream d) (stream_sendTimestamp s, packetID) (packetID, p) (codec_Decode C clock (Stream d) aad w)"
    and "length w = stream_EncodedLength s (length p)"
proof -
  let ?b = "stream_sendCipherBlock s"
  have ok: "block_ok ?b" "mac_size_ok (stream_hashFactory s) (stream_hmacSize s)" "stream_mode s = stream_mode d"
    using assms(2) by simp_all
  then have n: "8 \<le> BlockSize ?b" by (simp add: block_ok_def)
  define iv where "iv = put_u32 packetID @ put_u32 (stream_sendTimestamp s) @ replicate (BlockSize ?b - 8) 0"
  have iv: "length iv = BlockSize ?b" "get_u32 iv = packetID" "get_u32 (drop 4 iv) = stream_sendTimestamp s"
    using n by (simp_all add: iv_def)
  have w: "add_mac C (stream_hashFactory s) (stream_hmacSize s) (stream_sendHMACKey s)
      (iv @ stream_crypt s ?b iv True p) = Inr w"
    using assms(3) n unfolding stream_Encode_def Let_def stream_iv [OF n] iv_def [symmetric] by (auto split: if_splits)
  note r = mac_roundtrip [OF assms(1) ok(2) w] stream_crypt_roundtrip [OF ok(1) iv(1) ok(3)]
  show "length w = stream_EncodedLength s (length p)" using r iv by (simp add: stream_EncodedLength_def)
  assume "p \<noteq> []"
  then have "BlockSize ?b < length (iv @ stream_crypt s ?b iv True p)" using r iv by simp
  then show "delivers clock (Stream d) (stream_sendTimestamp s, packetID) (packetID, p) (codec_Decode C clock (Stream d) aad w)"
    using r assms(2) iv n by (auto simp: delivers_def stream_Decode_def Let_def split: prod.splits)
qed

lemma static_roundtrip:
  assumes "crypto_ok C" "random_ok rand" "codec_peers (Static s) (Static d)" "static_Encode C rand s packetID p = Inr w"
  shows "delivers clock (Static d) (static_sendTimestamp s, packetID) (packetID, p) (codec_Decode C clock (Static d) aad w)"
    and "length w = static_EncodedLength s (length p)"
proof -
  obtain m where m: "cbc_protect rand (static_sendCipherBlock s) (put_u32 packetID @ put_u32 (static_sendTimestamp s) @ p) = Inr m"
    and w: "add_mac C (static_hashFactory s) (static_hmacSize s) (static_sendHMACKey s) m = Inr w" and "packetID \<noteq> 0"
    using assms(4) by (auto simp: static_Encode_def bindE_Inr_iff split: if_splits)
  have ok: "blk_ok (static_sendCipherBlock s)" "mac_size_ok (static_hashFactory s) (static_hmacSize s)"
    using assms(3) by simp_all
  note r = cbc_protect_roundtrip [OF ok(1) assms(2) m] mac_roundtrip [OF assms(1) ok(2) w]
  show "length w = static_EncodedLength s (length p)" using r by (simp add: static_EncodedLength_def)
  obtain cs where "receiveCandidates d = \<lparr>cand_cipherBlock = static_sendCipherBlock s, cand_hmacKey = static_sendHMACKey s\<rparr> # cs"
    using assms(3) by auto
  moreover have "decodeWithCandidate C d w \<lparr>cand_cipherBlock = static_sendCipherBlock s, cand_hmacKey = static_sendHMACKey s\<rparr> =
      Inr (packetID, static_sendTimestamp s, p)"
    using r assms(3) \<open>packetID \<noteq> 0\<close> by (auto simp: decodeWithCandidate_def Let_def)
  ultimately show "delivers clock (Static d) (static_sendTimestamp s, packetID) (packetID, p) (codec_Decode C clock (Static d) aad w)"
    by (auto simp: delivers_def static_Decode_def split: prod.splits)
qed

end
