(* ===== verification/Data_Channel.thy ===== *)
theory Data_Channel
  imports Data_Codec
begin

text \<open>
  What the data codecs guarantee between a sender and its receiver: codecs built from the same key
  material for opposite roles understand each other, and a decoder delivers no datagram twice whatever
  it is fed.
\<close>

section \<open>Every codec inverts\<close>

definition is_stream :: "dataCodec \<Rightarrow> bool" where
  "is_stream c \<longleftrightarrow> (\<exists>s. c = Stream s)"

lemma codec_roundtrip:
  assumes C: "crypto_ok C" and R: "random_ok rand" and P: "codec_peers s d"
    and E: "codec_Encode C rand s packetID aad p = Inr w"
  shows "p \<noteq> [] \<or> \<not> is_stream s \<Longrightarrow> delivers clock d (codec_timestamp s, packetID) (packetID, p) (codec_Decode C clock d aad w)"
    and "length w = codec_EncodedLength s (length p)"
proof -
  have "(p \<noteq> [] \<or> \<not> is_stream s \<longrightarrow> delivers clock d (codec_timestamp s, packetID) (packetID, p) (codec_Decode C clock d aad w)) \<and>
      length w = codec_EncodedLength s (length p)"
  proof (cases "(s, d)" rule: codec_peers.cases)
    case (1 c c')
    then have "gcm_Encode c packetID aad p = Inr w" "codec_peers (GCM c) (GCM c')" using E P by simp_all
    then show ?thesis
      using 1 gcm_roundtrip(1) [of c c' packetID aad p w clock C] gcm_roundtrip(2) [of c c' packetID aad p w]
      by (simp add: gcm_EncodedLength_def tlsDataAEADTagSize_def del: codec_Decode.simps codec_peers.simps)
  next
    case (2 c c')
    then have "cbc_Encode C rand c packetID p = Inr w" "codec_peers (CBC c) (CBC c')" using E P by simp_all
    then show ?thesis
      using 2 cbc_roundtrip(1) [OF C R, of c c' packetID p w clock aad] cbc_roundtrip(2) [OF C R, of c c' packetID p w] by (simp del: codec_Decode.simps codec_peers.simps)
  next
    case (3 c c')
    then have "stream_Encode C c packetID p = Inr w" "codec_peers (Stream c) (Stream c')" using E P by simp_all
    then show ?thesis
      using 3 stream_roundtrip(1) [OF C, of c c' packetID p w clock aad] stream_roundtrip(2) [OF C, of c c' packetID p w]
      by (simp add: is_stream_def del: codec_Decode.simps codec_peers.simps)
  next
    case (4 c c')
    then have "static_Encode C rand c packetID p = Inr w" "codec_peers (Static c) (Static c')" using E P by simp_all
    then show ?thesis
      using 4 static_roundtrip(1) [OF C R, of c c' packetID p w clock aad] static_roundtrip(2) [OF C R, of c c' packetID p w] by (simp del: codec_Decode.simps codec_peers.simps)
  qed (use P in simp_all)
  then show "p \<noteq> [] \<or> \<not> is_stream s \<Longrightarrow> delivers clock d (codec_timestamp s, packetID) (packetID, p) (codec_Decode C clock d aad w)"
    and "length w = codec_EncodedLength s (length p)" by blast+
qed

definition random_works :: "random \<Rightarrow> bool" where
  "random_works rand \<longleftrightarrow> (\<forall>n. \<exists>iv. rand n = Inr iv \<and> length iv = n)"

lemma random_works_ok: "random_works rand \<Longrightarrow> random_ok rand"
  by (auto simp: random_works_def random_ok_def) (metis Inr_inject)

lemma cbc_protect_works:
  assumes "blk_ok blk" "random_works rand"
  shows "\<exists>m. cbc_protect rand blk p = Inr m"
proof (cases blk)
  case (Some b)
  then have "0 < BlockSize b" using assms(1) by (simp add: blk_ok_def block_ok_def)
  from pkcs7Pad_ok [OF this] obtain q where "pkcs7Pad p (BlockSize b) = Inr q" by blast
  moreover obtain iv where "rand (BlockSize b) = Inr iv" using assms(2) by (auto simp: random_works_def)
  ultimately show ?thesis using Some by (simp add: cbc_protect_def)
qed (simp add: cbc_protect_def)

lemma add_mac_works: "mac_size_ok factory n \<Longrightarrow> \<exists>w. add_mac C factory n key m = Inr w"
  by (cases factory) (auto simp: add_mac_def mac_sum_def mac_size_ok_def)

lemma codec_Encode_works:
  assumes "codec_peers s d" "random_works rand" "packetID \<noteq> 0"
  shows "\<exists>w. codec_Encode C rand s packetID aad p = Inr w"
proof (cases "(s, d)" rule: codec_peers.cases)
  case (1 c c')
  then show ?thesis using assms by (auto simp: gcm_Encode_def aead_ok_def tlsDataAEADTagSize_def Let_def)
next
  case (2 c c')
  then obtain m where "cbc_protect rand (cbc_sendCipherBlock c) (put_u32 packetID @ p) = Inr m"
    using assms cbc_protect_works by fastforce
  then show ?thesis using 2 assms add_mac_works by (simp add: cbc_Encode_def)
next
  case (3 c c')
  then show ?thesis using assms add_mac_works by (auto simp: stream_Encode_def block_ok_def Let_def)
next
  case (4 c c')
  then obtain m where "cbc_protect rand (static_sendCipherBlock c) (put_u32 packetID @ put_u32 (static_sendTimestamp c) @ p) = Inr m"
    using assms cbc_protect_works by fastforce
  then show ?thesis using 4 assms add_mac_works by (simp add: static_Encode_def)
qed (use assms in auto)

section \<open>Construction from shared keys\<close>

lemma newStaticCipherBlock_ok:
  assumes "crypto_ok C" "newStaticCipherBlock C name key n = Inr blk"
  shows "blk_ok blk"
proof -
  define good where "good r \<longleftrightarrow> (\<forall>blk. r = Inr blk \<longrightarrow> blk_ok blk)" for r :: "block option result"
  have g_if: "good x \<Longrightarrow> good y \<Longrightarrow> good (if c then x else y)" for x y c by simp
  have g_blk: "good (bindE (newBlock C pkg k) (\<lambda>b. Inr (Some b)))" for pkg k
    using assms(1) by (auto simp: good_def bindE_Inr_iff crypto_ok_def blk_ok_def)
  have g_end: "good (Inl e)" "good (Inr None)" for e by (simp_all add: good_def blk_ok_def)
  have "good (newStaticCipherBlock C name key n)"
    unfolding newStaticCipherBlock_def Let_def by (intro g_if g_blk g_end)
  then show ?thesis using assms(2) by (simp add: good_def)
qed

lemma staticHMACFactory_ok: "staticHMACFactory name = Inr (factory, n) \<Longrightarrow> mac_size_ok factory n"
  by (auto simp: staticHMACFactory_def mac_size_ok_def split: if_splits)

lemma key_slots_cross:
  obtains x y where "tlsDataKeySlots ks server = (x, y)" "tlsDataKeySlots ks (\<not> server) = (y, x)"
  by (cases server) (auto simp: tlsDataKeySlots_def)

lemma gcm_peers:
  assumes "crypto_ok C"
    and "newTLSGCMDataCodec C km server name n tw = Inr s" "newTLSGCMDataCodec C km (\<not> server) name n' tw' = Inr d"
  shows "codec_peers (GCM s) (GCM d)"
proof -
  obtain x y where sl: "tlsDataKeySlots (splitStaticKeyMaterial km) server = (x, y)"
    "tlsDataKeySlots (splitStaticKeyMaterial km) (\<not> server) = (y, x)" by (rule key_slots_cross)
  then show ?thesis
    using assms unfolding newTLSGCMDataCodec_def sl Let_def prod.case
    by (clarsimp simp: gcm_codec_def bindE_Inr_iff crypto_ok_def split: if_splits)
qed

lemma chacha_peers:
  assumes "crypto_ok C"
    and "newTLSChaCha20Poly1305DataCodec C km server n tw = Inr s"
    and "newTLSChaCha20Poly1305DataCodec C km (\<not> server) n' tw' = Inr d"
  shows "codec_peers (GCM s) (GCM d)"
proof -
  obtain x y where sl: "tlsDataKeySlots (splitStaticKeyMaterial km) server = (x, y)"
    "tlsDataKeySlots (splitStaticKeyMaterial km) (\<not> server) = (y, x)" by (rule key_slots_cross)
  then show ?thesis
    using assms unfolding newTLSChaCha20Poly1305DataCodec_def sl Let_def prod.case
    by (clarsimp simp: gcm_codec_def bindE_Inr_iff crypto_ok_def split: if_splits)
qed

lemma cbc_peers:
  assumes "crypto_ok C"
    and "newTLSCBCDataCodec C km server name auth n tw = Inr s" "newTLSCBCDataCodec C km (\<not> server) name auth n' tw' = Inr d"
  shows "codec_peers (CBC s) (CBC d)"
proof -
  obtain x y where sl: "tlsDataKeySlots (splitStaticKeyMaterial km) server = (x, y)"
    "tlsDataKeySlots (splitStaticKeyMaterial km) (\<not> server) = (y, x)" by (rule key_slots_cross)
  then show ?thesis
    using assms(2,3) unfolding newTLSCBCDataCodec_def sl Let_def prod.case
    by (clarsimp simp: bindE_Inr_iff split: if_splits)
      (blast intro: newStaticCipherBlock_ok [OF assms(1)] staticHMACFactory_ok)
qed

lemma stream_peers:
  assumes "crypto_ok C"
    and "newTLSStreamDataCodec C t km server name auth n tw = Inr s"
    and "newTLSStreamDataCodec C t' km (\<not> server) name auth n' tw' = Inr d"
  shows "codec_peers (Stream s) (Stream d)"
proof -
  have b: "block_ok b" if "newStaticCipherBlock C nm k m = Inr blk" "non_nil blk = Inr b" for nm k m blk b
    using newStaticCipherBlock_ok [OF assms(1) that(1)] that(2) by (auto simp: blk_ok_def non_nil_def split: option.splits)
  obtain x y where sl: "tlsDataKeySlots (splitStaticKeyMaterial km) server = (x, y)"
    "tlsDataKeySlots (splitStaticKeyMaterial km) (\<not> server) = (y, x)" by (rule key_slots_cross)
  then show ?thesis
    using assms(2,3) unfolding newTLSStreamDataCodec_def sl Let_def prod.case
    by (clarsimp simp: bindE_Inr_iff split: if_splits) (blast intro: b staticHMACFactory_ok)
qed

lemma tls_codec_peers:
  assumes C: "crypto_ok C"
    and s: "newTLSDataCodec C t km server name auth n tw = Inr s"
    and d: "newTLSDataCodec C t' km (\<not> server) name auth n' tw' = Inr d"
  shows "codec_peers s d"
proof -
  obtain ws wt ws' wt' where w: "dataReplayWindowParameters n tw = (ws, wt)" "dataReplayWindowParameters n' tw' = (ws', wt')"
    by fastforce
  note defs = newTLSDataCodec_def w Let_def prod.case bindE_Inr_iff
  consider (gcm) "name \<in> {''AES-128-GCM'', ''AES-192-GCM'', ''AES-256-GCM''}"
    | (chacha) "name \<notin> {''AES-128-GCM'', ''AES-192-GCM'', ''AES-256-GCM''}" "name = ''CHACHA20-POLY1305''"
    | (stream) x where "name \<notin> {''AES-128-GCM'', ''AES-192-GCM'', ''AES-256-GCM''}" "name \<noteq> ''CHACHA20-POLY1305''"
        "tlsStreamCipherSpec name = Inr x"
    | (cbc) e where "name \<notin> {''AES-128-GCM'', ''AES-192-GCM'', ''AES-256-GCM''}" "name \<noteq> ''CHACHA20-POLY1305''"
        "tlsStreamCipherSpec name = Inl e"
    by (cases "tlsStreamCipherSpec name") blast+
  then show ?thesis
  proof cases
    case gcm
    show ?thesis
      using s d unfolding defs if_P [OF gcm] using gcm_peers [OF C] by (auto simp: bindE_Inr_iff simp del: codec_peers.simps)
  next
    case chacha
    show ?thesis
      using s d unfolding defs if_not_P [OF chacha(1)] if_P [OF chacha(2)]
      using chacha_peers [OF C] by (auto simp: bindE_Inr_iff simp del: codec_peers.simps)
  next
    case stream
    show ?thesis
      using s d unfolding defs if_not_P [OF stream(1)] if_not_P [OF stream(2)] stream(3) sum.case
      using stream_peers [OF C] by (auto simp: bindE_Inr_iff simp del: codec_peers.simps)
  next
    case cbc
    show ?thesis
      using s d unfolding defs if_not_P [OF cbc(1)] if_not_P [OF cbc(2)] cbc(3) sum.case
      using cbc_peers [OF C] by (auto simp: bindE_Inr_iff simp del: codec_peers.simps)
  qed
qed

text \<open>Static keys: the two ends use opposite directions, or none.\<close>

definition opposite_directions :: "int \<Rightarrow> int \<Rightarrow> bool" where
  "opposite_directions a b \<longleftrightarrow>
     fst (resolveStaticKeyDirection a) = fst (snd (resolveStaticKeyDirection b)) \<and>
     fst (snd (resolveStaticKeyDirection a)) = fst (resolveStaticKeyDirection b)"

lemma newStaticKeyDataCodec_fields:
  assumes "newStaticKeyDataCodec C t key a name auth n tw = Inr c" "resolveStaticKeyDirection a = (x, y, z)"
  shows "\<exists>km ks cand cs. loadStaticKeyMaterialFromSource key = Inr km \<and> staticCipherKeySize name = Inr ks \<and>
     staticHMACFactory auth = Inr (static_hashFactory c, static_hmacSize c) \<and>
     newStaticCipherBlock C name (cipherKey (splitStaticKeyMaterial km ! x)) ks = Inr (static_sendCipherBlock c) \<and>
     static_sendHMACKey c = hmac_key (static_hmacSize c) (splitStaticKeyMaterial km ! x) \<and>
     static_candidate C name ks (static_hmacSize c) (splitStaticKeyMaterial km ! y) = Inr cand \<and>
     receiveCandidates c = cand # cs \<and> static_replayWindow c = Some (newReplayWindow n tw)"
proof -
  obtain km ks f hs where k: "loadStaticKeyMaterialFromSource key = Inr km" "staticCipherKeySize name = Inr ks"
    "staticHMACFactory auth = Inr (f, hs)"
    using assms(1) by (auto simp: newStaticKeyDataCodec_def bindE_Inr_iff)
  then show ?thesis
    using assms(1) unfolding newStaticKeyDataCodec_def k bindE_simps assms(2) Let_def prod.case
    by (cases "z = y") (auto simp: bindE_Inr_iff)
qed

lemma static_codec_peers:
  assumes C: "crypto_ok C" and dir: "opposite_directions a b"
    and s: "newStaticKeyDataCodec C t key a name auth n tw = Inr s"
    and d: "newStaticKeyDataCodec C t' key b name auth n' tw' = Inr d"
  shows "codec_peers (Static s) (Static d)"
proof -
  obtain x y z x' y' z' where r: "resolveStaticKeyDirection a = (x, y, z)" "resolveStaticKeyDirection b = (x', y', z')"
    by (metis prod_cases3)
  then have xy: "y' = x" using dir by (simp add: opposite_directions_def)
  from newStaticKeyDataCodec_fields [OF s r(1)] newStaticKeyDataCodec_fields [OF d r(2)]
  obtain km ks cand cs where
      "loadStaticKeyMaterialFromSource key = Inr km" "staticCipherKeySize name = Inr ks"
    and h: "staticHMACFactory auth = Inr (static_hashFactory s, static_hmacSize s)"
      "staticHMACFactory auth = Inr (static_hashFactory d, static_hmacSize d)"
    and blk: "newStaticCipherBlock C name (cipherKey (splitStaticKeyMaterial km ! x)) ks = Inr (static_sendCipherBlock s)"
    and hk: "static_sendHMACKey s = hmac_key (static_hmacSize s) (splitStaticKeyMaterial km ! x)"
    and cand: "static_candidate C name ks (static_hmacSize d) (splitStaticKeyMaterial km ! x) = Inr cand"
      "receiveCandidates d = cand # cs"
    unfolding xy by auto
  have hh: "static_hashFactory d = static_hashFactory s" "static_hmacSize d = static_hmacSize s" using h by simp_all
  have "cand = \<lparr>cand_cipherBlock = static_sendCipherBlock s, cand_hmacKey = static_sendHMACKey s\<rparr>"
    using cand(1) blk hk hh by (simp add: static_candidate_def)
  then show ?thesis
    using hh cand(2) newStaticCipherBlock_ok [OF C blk] staticHMACFactory_ok [OF h(1)] by simp
qed

section \<open>Packets in order always pass\<close>

fun codec_window :: "dataCodec \<Rightarrow> replayWindow option" where
  "codec_window (GCM c) = gcm_replayWindow c"
| "codec_window (CBC c) = cbc_replayWindow c"
| "codec_window (Stream c) = stream_replayWindow c"
| "codec_window (Static c) = static_replayWindow c"

fun is_long :: "dataCodec \<Rightarrow> bool" where
  "is_long (Stream _) = True"
| "is_long (Static _) = True"
| "is_long _ = False"

text \<open>The receiver has seen nothing, or only packets of this sender below the given id.\<close>

definition below :: "u32 \<Rightarrow> u32 \<Rightarrow> dataCodec \<Rightarrow> bool" where
  "below ts x d \<longleftrightarrow> (\<exists>w. codec_window d = Some w \<and> windowSize w \<noteq> 0 \<and>
     (initialized w \<longrightarrow> highestID w < x \<and> (is_long d \<longrightarrow> highestTimestamp w = ts)))"

lemma acceptLocked_above:
  assumes "windowSize w \<noteq> 0" "initialized w" "highestID w < x"
  shows "\<exists>w'. acceptLocked clock w x = (True, w') \<and> windowSize w' = windowSize w \<and> initialized w' \<and>
     highestID w' = x \<and> highestTimestamp w' = highestTimestamp w"
  using assms by (simp add: acceptLocked_def Let_def)

lemma Accept_above:
  assumes "windowSize w \<noteq> 0" "initialized w \<longrightarrow> highestID w < x" "x \<noteq> 0"
  shows "\<exists>w'. Accept clock w x = (True, w') \<and> windowSize w' = windowSize w \<and> initialized w' \<and> highestID w' = x"
proof (cases "initialized w")
  case True
  then show ?thesis using acceptLocked_above [of w x clock] assms by (auto simp: Accept_def)
qed (use assms in \<open>simp add: Accept_def acceptLocked_def\<close>)

lemma AcceptLongForm_above:
  assumes "windowSize w \<noteq> 0" "initialized w \<longrightarrow> highestID w < x \<and> highestTimestamp w = ts" "x \<noteq> 0"
  shows "\<exists>w'. AcceptLongForm clock w (ts, x) = (True, w') \<and> windowSize w' = windowSize w \<and> initialized w' \<and>
     highestID w' = x \<and> highestTimestamp w' = ts"
proof (cases "initialized w")
  case True
  then show ?thesis using acceptLocked_above [of w x clock] assms by (auto simp: AcceptLongForm_def)
qed (use assms in \<open>simp add: AcceptLongForm_def\<close>)

lemma codec_accept_above:
  assumes "below ts x d" "x \<noteq> 0"
  shows "\<exists>d'. codec_accept clock d (ts, x) = (True, d') \<and> (\<forall>y. x < y \<longrightarrow> below ts y d')"
proof -
  obtain w where w: "codec_window d = Some w" "windowSize w \<noteq> 0"
    "initialized w \<longrightarrow> highestID w < x \<and> (is_long d \<longrightarrow> highestTimestamp w = ts)"
    using assms(1) by (auto simp: below_def)
  show ?thesis
  proof (cases "is_long d")
    case True
    then obtain w' where "AcceptLongForm clock w (ts, x) = (True, w')" "windowSize w' \<noteq> 0" "highestID w' = x"
      "highestTimestamp w' = ts"
      using AcceptLongForm_above [of w x ts clock] w assms(2) by auto
    then show ?thesis using True w by (cases d) (auto simp: window_check_def below_def)
  next
    case False
    then obtain w' where "Accept clock w x = (True, w')" "windowSize w' \<noteq> 0" "highestID w' = x"
      using Accept_above [of w x clock] w assms(2) by auto
    then show ?thesis using False w by (cases d) (auto simp: window_check_def below_def)
  qed
qed

lemma codec_accept_peers: "codec_accept clock d x = (ok, d') \<Longrightarrow> codec_peers s d' = codec_peers s d"
  by (cases "(s, d)" rule: codec_peers.cases) (auto split: prod.splits)

text \<open>The receiver at work: each input comes with the clock readings and the additional data.\<close>

fun decode_all :: "crypto \<Rightarrow> dataCodec \<Rightarrow> (clock \<times> bytes \<times> bytes) list \<Rightarrow> (u32 \<times> bytes) result list \<times> dataCodec" where
  "decode_all C d [] = ([], d)"
| "decode_all C d ((clock, aad, w) # ws) =
     (case codec_Decode C clock d aad w of (r, d) \<Rightarrow> case decode_all C d ws of (rs, d) \<Rightarrow> (r # rs, d))"

text \<open>A message to send: its id, additional data and payload, with the random source at the time.\<close>

record message =
  msg_id :: u32
  msg_aad :: bytes
  msg_payload :: bytes
  msg_random :: random
  msg_clock :: clock

definition sends :: "crypto \<Rightarrow> dataCodec \<Rightarrow> message \<Rightarrow> bytes \<Rightarrow> bool" where
  "sends C s m w \<longleftrightarrow> codec_Encode C (msg_random m) s (msg_id m) (msg_aad m) (msg_payload m) = Inr w \<and>
     length w = codec_EncodedLength s (length (msg_payload m))"

definition increasing_from :: "u32 \<Rightarrow> message list \<Rightarrow> bool" where
  "increasing_from x ms \<longleftrightarrow> sorted_wrt (<) (x # map msg_id ms) \<and>
     (\<forall>m \<in> set ms. msg_payload m \<noteq> [] \<and> random_works (msg_random m))"

lemma session_delivers:
  assumes "crypto_ok C" "codec_peers s d" "increasing_from x ms" "\<forall>y. x < y \<longrightarrow> below (codec_timestamp s) y d"
  shows "\<exists>ws. list_all2 (sends C s) ms ws \<and>
     fst (decode_all C d (map2 (\<lambda>m w. (msg_clock m, msg_aad m, w)) ms ws)) = map (\<lambda>m. Inr (msg_id m, msg_payload m)) ms"
  using assms(2-4)
proof (induction ms arbitrary: d x)
  case (Cons m ms)
  have m: "x < msg_id m" "msg_payload m \<noteq> []" "random_works (msg_random m)" and ms: "increasing_from (msg_id m) ms"
    using Cons.prems(2) by (auto simp: increasing_from_def)
  have nz: "msg_id m \<noteq> 0" using m(1) by auto
  obtain w where w: "codec_Encode C (msg_random m) s (msg_id m) (msg_aad m) (msg_payload m) = Inr w"
    using codec_Encode_works [OF Cons.prems(1) m(3) nz] by blast
  note rt = codec_roundtrip [OF assms(1) random_works_ok [OF m(3)] Cons.prems(1) w]
  have "below (codec_timestamp s) (msg_id m) d" using Cons.prems(3) m(1) by blast
  from codec_accept_above [OF this nz] obtain d' where
    a: "codec_accept (msg_clock m) d (codec_timestamp s, msg_id m) = (True, d')"
    and later: "\<forall>y. msg_id m < y \<longrightarrow> below (codec_timestamp s) y d'" by blast
  have dec: "codec_Decode C (msg_clock m) d (msg_aad m) w = (Inr (msg_id m, msg_payload m), d')"
    using rt(1) [of "msg_clock m"] m(2) a by (simp add: delivers_def)
  have "codec_peers s d'" using codec_accept_peers [OF a] Cons.prems(1) by simp
  from Cons.IH [OF this ms later] obtain ws where
    "list_all2 (sends C s) ms ws"
    "fst (decode_all C d' (map2 (\<lambda>m w. (msg_clock m, msg_aad m, w)) ms ws)) = map (\<lambda>m. Inr (msg_id m, msg_payload m)) ms"
    by blast
  moreover have "sends C s m w" using w rt(2) by (simp add: sends_def)
  ultimately show ?case using dec by (intro exI [of _ "w # ws"]) (auto split: prod.splits)
qed simp

section \<open>Nothing is delivered twice\<close>

text \<open>
  A decoder behind an anti-replay guard: what it delivers has passed the guard under a label that
  depends on the datagram and the keys only; what it refuses leaves the guard alone or was refused by it.
\<close>

fun decode_run :: "('e \<Rightarrow> 'c \<Rightarrow> 'w \<Rightarrow> 'm result \<times> 'c) \<Rightarrow> 'c \<Rightarrow> ('e \<times> 'w) list \<Rightarrow> 'm result list" where
  "decode_run decode c [] = []"
| "decode_run decode c ((e, w) # ws) = (case decode e c w of (r, c') \<Rightarrow> r # decode_run decode c' ws)"

lemma length_decode_run [simp]: "length (decode_run decode c ws) = length ws"
  by (induction decode c ws rule: decode_run.induct) (auto split: prod.splits)

locale guarded_decoder = anti_replay accept good dead
  for accept :: "'e \<Rightarrow> 'c \<Rightarrow> 'x \<Rightarrow> bool \<times> 'c" and good dead +
  fixes decode :: "'e \<Rightarrow> 'c \<Rightarrow> 'w \<Rightarrow> 'm result \<times> 'c"
    and label :: "'c \<Rightarrow> 'w \<Rightarrow> 'x"
  assumes delivered: "good c \<Longrightarrow> decode e c w = (Inr m, c') \<Longrightarrow> accept e c (label c w) = (True, c')"
    and refused: "good c \<Longrightarrow> decode e c w = (Inl err, c') \<Longrightarrow> c' = c \<or> accept e c (label c w) = (False, c')"
    and label_kept: "good c \<Longrightarrow> accept e c x = (ok, c') \<Longrightarrow> label c' = label c"
begin

lemma decode_step:
  assumes "good c" "decode e c w = (r, c')"
  shows "good c' \<and> dead c \<subseteq> dead c' \<and> label c' = label c"
proof (cases r)
  case (Inl err)
  then show ?thesis using refused [of c e w err c'] assms good_accept dead_grows label_kept by blast
next
  case (Inr m)
  then show ?thesis using delivered [of c e w m c'] assms good_accept dead_grows label_kept by blast
qed

lemma delivered_fresh:
  "good c \<Longrightarrow> j < length ws \<Longrightarrow> decode_run decode c ws ! j = Inr m \<Longrightarrow> label c (snd (ws ! j)) \<notin> dead c"
proof (induction ws arbitrary: c j)
  case (Cons x ws)
  obtain e w where x: "x = (e, w)" by fastforce
  obtain r c' where d: "decode e c w = (r, c')" by fastforce
  show ?case
  proof (cases j)
    case 0
    then show ?thesis
      using Cons.prems d x delivered [of c e w m c'] passed_fresh [of c e "label c w" c'] by auto
  next
    case (Suc k)
    note step = decode_step [OF Cons.prems(1) d]
    have "label c' (snd (ws ! k)) \<notin> dead c'" using Cons.IH [of c' k] step Cons.prems Suc d x by simp
    then show ?thesis using step Suc by auto
  qed
qed simp

lemma delivered_distinct:
  "good c \<Longrightarrow> i < j \<Longrightarrow> j < length ws \<Longrightarrow> decode_run decode c ws ! i = Inr m \<Longrightarrow>
     decode_run decode c ws ! j = Inr m' \<Longrightarrow> label c (snd (ws ! i)) \<noteq> label c (snd (ws ! j))"
proof (induction ws arbitrary: c i j)
  case (Cons x ws)
  obtain e w where x: "x = (e, w)" by fastforce
  obtain r c' where d: "decode e c w = (r, c')" by fastforce
  obtain k where j: "j = Suc k" using Cons.prems(2) by (cases j) auto
  note step = decode_step [OF Cons.prems(1) d]
  show ?case
  proof (cases i)
    case 0
    then have "r = Inr m" using Cons.prems(4) d x by simp
    then have "label c w \<in> dead c'" using delivered [OF Cons.prems(1)] d passed_dead [OF Cons.prems(1)] by blast
    moreover have "label c' (snd (ws ! k)) \<notin> dead c'"
      using delivered_fresh [of c' k ws m'] step Cons.prems d x j by simp
    ultimately show ?thesis using 0 j x step by auto
  next
    case (Suc i')
    then show ?thesis using Cons.IH [of c' i' k] step Cons.prems d x j by simp
  qed
qed simp

end

fun static_label :: "crypto \<Rightarrow> staticKeyDataCodec \<Rightarrow> bytes \<Rightarrow> staticKeyDecodeCandidate list \<Rightarrow> u32 \<times> u32" where
  "static_label C c payload [] = (0, 0)"
| "static_label C c payload (candidate # candidates) =
     (case decodeWithCandidate C c payload candidate of
        Inr (packetID, packetTimestamp, _) \<Rightarrow> (packetTimestamp, packetID)
      | Inl _ \<Rightarrow> static_label C c payload candidates)"

fun codec_label :: "crypto \<Rightarrow> dataCodec \<Rightarrow> bytes \<Rightarrow> u32 \<times> u32" where
  "codec_label C (GCM c) payload = (0, get_u32 payload)"
| "codec_label C (CBC c) payload =
     (case bindE (strip_mac C (cbc_hashFactory c) (cbc_hmacSize c) (cbc_receiveHMACKey c)
                    (New ''invalid tls data packet'') (New ''invalid tls data packet hmac'') payload)
             (cbc_unprotect (New ''invalid tls data packet'') (cbc_receiveCipher c)) of
        Inr plainPayload \<Rightarrow> (0, get_u32 plainPayload) | Inl _ \<Rightarrow> (0, 0))"
| "codec_label C (Stream c) payload =
     (case strip_mac C (stream_hashFactory c) (stream_hmacSize c) (stream_receiveHMACKey c)
             (New ''invalid tls stream data packet'') (New ''invalid tls stream data packet hmac'') payload of
        Inr p \<Rightarrow> (let iv = take (BlockSize (stream_receiveCipher c)) p in (get_u32 (drop 4 iv), get_u32 iv)) | Inl _ \<Rightarrow> (0, 0))"
| "codec_label C (Static c) payload = static_label C c payload (receiveCandidates c)"

lemma decode_candidates_guarded:
  assumes "decode_candidates C clock c w err0 cands = (r, c')"
  shows "case r of
           Inr m \<Rightarrow> codec_accept clock (Static c) (static_label C c w cands) = (True, Static c')
         | Inl err \<Rightarrow> c' = c \<or> codec_accept clock (Static c) (static_label C c w cands) = (False, Static c')"
  using assms
  by (induction C clock c w err0 cands rule: decode_candidates.induct) (auto split: sum.splits prod.splits if_splits)

lemma codec_Decode_guarded:
  assumes "codec_Decode C clock c aad w = (r, c')"
  shows "case r of
           Inr m \<Rightarrow> codec_accept clock c (codec_label C c w) = (True, c')
         | Inl err \<Rightarrow> c' = c \<or> codec_accept clock c (codec_label C c w) = (False, c')"
proof (cases c)
  case (Static s)
  then show ?thesis
    using assms decode_candidates_guarded [of C clock s w None "receiveCandidates s"]
    by (auto simp: static_Decode_def split: prod.splits sum.splits simp del: codec_accept.simps)
next
  case (GCM s)
  then show ?thesis
    using assms by (auto simp: gcm_Decode_def Let_def split: prod.splits sum.splits if_splits)
next
  case (CBC s)
  then show ?thesis
    using assms by (auto simp: cbc_Decode_def Let_def split: prod.splits sum.splits if_splits)
next
  case (Stream s)
  then show ?thesis
    using assms by (auto simp: stream_Decode_def Let_def split: prod.splits sum.splits if_splits)
qed

definition window_good :: "dataCodec \<Rightarrow> bool" where
  "window_good c \<longleftrightarrow> (\<exists>w. codec_window c = Some w \<and> rw_wf w)"

definition dead_labels :: "dataCodec \<Rightarrow> (u32 \<times> u32) set" where
  "dead_labels c = (case codec_window c of None \<Rightarrow> {}
     | Some w \<Rightarrow> if is_long c then dead_pairs w else {x. snd x \<in> dead_ids w})"

lemma static_label_window: "static_label C (s\<lparr>static_replayWindow := v\<rparr>) p cs = static_label C s p cs"
proof (induction cs)
  case (Cons k cs)
  have "decodeWithCandidate C (s\<lparr>static_replayWindow := v\<rparr>) p k = decodeWithCandidate C s p k"
    by (simp add: decodeWithCandidate_def)
  with Cons show ?case by (simp split: sum.split)
qed simp

lemma codec_accept_label:
  assumes "codec_accept clock c x = (ok, c')"
  shows "codec_label C c' = codec_label C c" "is_long c' = is_long c"
proof -
  show "is_long c' = is_long c" using assms by (cases c) (auto split: prod.splits)
  show "codec_label C c' = codec_label C c"
    by (rule ext) (use assms in \<open>cases c; auto simp: static_label_window split: prod.splits sum.split\<close>)
qed

lemma codec_accept_window:
  assumes "codec_accept clock c x = (ok, c')" "codec_window c = Some w"
  shows "\<exists>w'. codec_window c' = Some w' \<and>
     (if is_long c then AcceptLongForm clock w x = (ok, w') else Accept clock w (snd x) = (ok, w'))"
  using assms by (cases c) (auto simp: window_check_def split: prod.splits)

lemma codec_accept_laws:
  assumes "window_good c" "codec_accept clock c x = (ok, c')"
  shows "window_good c' \<and> dead_labels c \<subseteq> dead_labels c' \<and> (ok \<longrightarrow> x \<notin> dead_labels c \<and> x \<in> dead_labels c')"
proof -
  obtain w where w: "codec_window c = Some w" "rw_wf w" using assms(1) by (auto simp: window_good_def)
  obtain w' where w': "codec_window c' = Some w'"
    "if is_long c then AcceptLongForm clock w x = (ok, w') else Accept clock w (snd x) = (ok, w')"
    using codec_accept_window [OF assms(2) w(1)] by blast
  note l = codec_accept_label(2) [OF assms(2)]
  show ?thesis
  proof (cases "is_long c")
    case True
    then have a: "AcceptLongForm clock w x = (ok, w')" using w'(2) by simp
    have "rw_wf w'" "dead_pairs w \<subseteq> dead_pairs w'"
      using long_form.good_accept [OF w(2) a] long_form.dead_grows [OF w(2) a] by blast+
    moreover have "x \<notin> dead_pairs w \<and> x \<in> dead_pairs w'" if ok
    proof -
      have "AcceptLongForm clock w x = (True, w')" using a that by simp
      then show ?thesis using long_form.passed_fresh [OF w(2)] long_form.passed_dead [OF w(2)] by blast
    qed
    ultimately show ?thesis using True l w w'(1) by (simp add: window_good_def dead_labels_def)
  next
    case False
    then have a: "Accept clock w (snd x) = (ok, w')" using w'(2) by simp
    have "rw_wf w'" "dead_ids w \<subseteq> dead_ids w'"
      using short_form.good_accept [OF w(2) a] short_form.dead_grows [OF w(2) a] by blast+
    moreover have "snd x \<notin> dead_ids w \<and> snd x \<in> dead_ids w'" if ok
    proof -
      have "Accept clock w (snd x) = (True, w')" using a that by simp
      then show ?thesis using short_form.passed_fresh [OF w(2)] short_form.passed_dead [OF w(2)] by blast
    qed
    ultimately show ?thesis using False l w w'(1) by (auto simp: window_good_def dead_labels_def)
  qed
qed

interpretation data: guarded_decoder "\<lambda>e. codec_accept (fst e)" window_good dead_labels
  "\<lambda>e c. codec_Decode C (fst e) c (snd e)" "codec_label C" for C
proof (unfold_locales, goal_cases)
  case (5 c e w m c')
  then show ?case using codec_Decode_guarded [of C "fst e" c "snd e" w "Inr m" c'] by simp
next
  case (6 c e w err c')
  then show ?case using codec_Decode_guarded [of C "fst e" c "snd e" w "Inl err" c'] by simp
next
  case (7 c e x ok c')
  then show ?case by (blast intro: codec_accept_label(1))
qed (use codec_accept_laws in blast)+

section \<open>Properties\<close>

definition zero_random :: random where
  "zero_random n = Inr (replicate n 0)"

lemma new_codec_window:
  assumes "newTLSDataCodec C t km server cipherName authName n tw = Inr d"
  shows "window_good d \<and> (0 < y \<longrightarrow> below ts y d)"
  using assms
  by (auto simp: newTLSDataCodec_def newTLSGCMDataCodec_def newTLSChaCha20Poly1305DataCodec_def newTLSCBCDataCodec_def
      newTLSStreamDataCodec_def gcm_codec_def below_def window_good_def bindE_Inr_iff Let_def newReplayWindow_def rw_wf_def
      dataReplayWindowParameters_def defaultReplayWindowSize_def split: if_splits sum.splits prod.splits)

lemma new_static_window:
  assumes "newStaticKeyDataCodec C t key a name auth n tw = Inr c"
  shows "static_replayWindow c = Some (newReplayWindow n tw)"
  using newStaticKeyDataCodec_fields [OF assms] prod_cases3 [of "resolveStaticKeyDirection a"] by metis

text \<open>
  C23. Client and server understand each other: for every cipher and digest the code supports, two data codecs built
  from the same key material for opposite roles encode every non-empty payload with a non-zero
  packet id, to exactly the length that \<open>EncodedLength\<close> announces, and the receiver gives back every
  packet id and payload of a sequence with increasing packet ids, whatever packets are lost in between.
\<close>

theorem tls_session_roundtrip:
  assumes "crypto_ok C"
    and "newTLSDataCodec C t keyMaterial server cipherName authName n tw = Inr s"
    and "newTLSDataCodec C t' keyMaterial (\<not> server) cipherName authName n' tw' = Inr d"
    and "increasing_from 0 ms"
  shows "\<exists>ws. list_all2 (sends C s) ms ws \<and>
     fst (decode_all C d (map2 (\<lambda>m w. (msg_clock m, msg_aad m, w)) ms ws)) = map (\<lambda>m. Inr (msg_id m, msg_payload m)) ms"
  using new_codec_window [OF assms(3)]
  by (intro session_delivers [OF assms(1) tls_codec_peers [OF assms(1-3)] assms(4)]) blast

text \<open>Stand-in ciphers, to show that the assumptions on the implementations can hold.\<close>

definition sample_crypto :: crypto where
  "sample_crypto =
     \<lparr>newBlock = (\<lambda>_ _. Inr \<lparr>BlockSize = 16, blk_Encrypt = rev, blk_Decrypt = rev\<rparr>),
      newGCM = (\<lambda>_. Inr \<lparr>NonceSize = 12, Seal = (\<lambda>_ p _. p @ replicate 16 0),
                         Open = (\<lambda>_ c _. if length c < 16 then Inl (Link 0) else Inr (take (length c - 16) c))\<rparr>),
      newChaCha20Poly1305 = (\<lambda>_. Inl (Link 0)),
      hmacSum = (\<lambda>h _ _. replicate (hash_Size h) 0)\<rparr>"

lemma sample_crypto_ok: "crypto_ok sample_crypto"
  by (auto simp: crypto_ok_def sample_crypto_def block_ok_def aead_ok_def)

definition sample_message :: message where
  "sample_message = \<lparr>msg_id = 1, msg_aad = [], msg_payload = [0x45], msg_random = zero_random, msg_clock = (0, 1)\<rparr>"

lemma sample_message_ok: "increasing_from 0 [sample_message]"
  by (simp add: increasing_from_def sample_message_def random_works_def zero_random_def)

lemma sample_codecs:
  "\<exists>c. newTLSDataCodec sample_crypto 0 (replicate 256 0) server ''AES-128-CBC'' ''SHA256'' 0 0 = Inr c"
  by (simp add: newTLSDataCodec_def newTLSCBCDataCodec_def sample_crypto_def tlsStreamCipherSpec_def HasSuffix_def
        staticCipherKeySize_def staticHMACFactory_def newStaticCipherBlock_def splitStaticKeyMaterial_def
        tlsDataKeySlots_def Let_def dataReplayWindowParameters_def split: prod.splits)

theorem tls_session_roundtrip_witness:
  "\<exists>s d w. sends sample_crypto s sample_message w \<and>
     fst (decode_all sample_crypto d [((0, 1), [], w)]) = [Inr (1, [0x45])]"
proof -
  obtain s d where c:
    "newTLSDataCodec sample_crypto 0 (replicate 256 0) False ''AES-128-CBC'' ''SHA256'' 0 0 = Inr s"
    "newTLSDataCodec sample_crypto 0 (replicate 256 0) (\<not> False) ''AES-128-CBC'' ''SHA256'' 0 0 = Inr d"
    using sample_codecs [of False] sample_codecs [of True] by auto
  from tls_session_roundtrip [OF sample_crypto_ok c sample_message_ok] obtain ws where
    "list_all2 (sends sample_crypto s) [sample_message] ws"
    "fst (decode_all sample_crypto d (map2 (\<lambda>m w. (msg_clock m, msg_aad m, w)) [sample_message] ws)) =
       [Inr (msg_id sample_message, msg_payload sample_message)]" by auto
  then show ?thesis by (auto simp: list_all2_Cons1 sample_message_def) (metis prod.collapse)
qed

text \<open>
  C24. The two ends of a static-key tunnel with opposite key directions understand each other in the
  same sense, when the replay window is in use.
\<close>

theorem static_session_roundtrip:
  assumes "crypto_ok C" "opposite_directions a b" "n' \<noteq> 0"
    and "newStaticKeyDataCodec C t key a cipherName authName n tw = Inr s"
    and "newStaticKeyDataCodec C t' key b cipherName authName n' tw' = Inr d"
    and "increasing_from 0 ms"
  shows "\<exists>ws. list_all2 (sends C (Static s)) ms ws \<and>
     fst (decode_all C (Static d) (map2 (\<lambda>m w. (msg_clock m, msg_aad m, w)) ms ws)) =
       map (\<lambda>m. Inr (msg_id m, msg_payload m)) ms"
  using new_static_window [OF assms(5)] assms(3)
  by (intro session_delivers [OF assms(1) static_codec_peers [OF assms(1,2,4,5)] assms(6)])
    (simp add: below_def newReplayWindow_def)

lemma sample_static:
  "\<exists>c. newStaticKeyDataCodec sample_crypto 5 (Inr (replicate 256 0)) a ''AES-128-CBC'' ''SHA256'' 64 0 = Inr c"
proof -
  have "length (replicate 256 (0 :: byte)) = 256" by simp
  then have "loadStaticKeyMaterialFromSource (Inr (replicate 256 0)) = Inr (replicate 256 0)"
    unfolding loadStaticKeyMaterialFromSource_def bindE_simps by (metis length_0_conv zero_neq_numeral)
  then show ?thesis
    by (simp add: newStaticKeyDataCodec_def sample_crypto_def static_candidate_def resolveStaticKeyDirection_def
        staticCipherKeySize_def staticHMACFactory_def newStaticCipherBlock_def splitStaticKeyMaterial_def Let_def)
qed

theorem static_session_roundtrip_witness:
  "\<exists>s d w. sends sample_crypto (Static s) sample_message w \<and>
     fst (decode_all sample_crypto (Static d) [((0, 1), [], w)]) = [Inr (1, [0x45])]"
proof -
  obtain s d where c:
    "newStaticKeyDataCodec sample_crypto 5 (Inr (replicate 256 0)) 0 ''AES-128-CBC'' ''SHA256'' 64 0 = Inr s"
    "newStaticKeyDataCodec sample_crypto 5 (Inr (replicate 256 0)) 1 ''AES-128-CBC'' ''SHA256'' 64 0 = Inr d"
    using sample_static [of 0] sample_static [of 1] by auto
  have "opposite_directions 0 1" by (simp add: opposite_directions_def resolveStaticKeyDirection_def)
  from static_session_roundtrip [OF sample_crypto_ok this _ c sample_message_ok] obtain ws where
    "list_all2 (sends sample_crypto (Static s)) [sample_message] ws"
    "fst (decode_all sample_crypto (Static d) (map2 (\<lambda>m w. (msg_clock m, msg_aad m, w)) [sample_message] ws)) =
       [Inr (msg_id sample_message, msg_payload sample_message)]" by auto
  then show ?thesis by (auto simp: list_all2_Cons1 sample_message_def) (metis prod.collapse)
qed

text \<open>
  C25. A data codec delivers no datagram twice: whatever sequence of byte strings an attacker feeds to
  the decoder of a TLS or static-key codec, two positions at which it delivers hold different
  datagrams, and different packet ids or sender timestamps.
\<close>

theorem datagram_delivered_once:
  assumes "newTLSDataCodec C t keyMaterial server cipherName authName n tw = Inr d \<or>
           (\<exists>c. newStaticKeyDataCodec C t key a cipherName authName n tw = Inr c \<and> d = Static c)"
    and "i < j" "j < length inputs"
    and "decode_run (\<lambda>e c. codec_Decode C (fst e) c (snd e)) d inputs ! i = Inr m"
    and "decode_run (\<lambda>e c. codec_Decode C (fst e) c (snd e)) d inputs ! j = Inr m'"
  shows "snd (inputs ! i) \<noteq> snd (inputs ! j) \<and> codec_label C d (snd (inputs ! i)) \<noteq> codec_label C d (snd (inputs ! j))"
proof -
  have "window_good d"
    using assms(1) new_codec_window new_static_window by (auto simp: window_good_def)
  from data.delivered_distinct [OF this assms(2-5)] show ?thesis by metis
qed

theorem datagram_delivered_once_witness:
  "\<exists>d w w'. decode_run (\<lambda>e c. codec_Decode sample_crypto (fst e) c (snd e)) d
       [(((0, 1), []), w), (((0, 1), []), w')] = [Inr (1, [0x45]), Inr (2, [0x45])] \<and> w \<noteq> w'"
proof -
  obtain s d where c:
    "newTLSDataCodec sample_crypto 0 (replicate 256 0) False ''AES-128-CBC'' ''SHA256'' 0 0 = Inr s"
    "newTLSDataCodec sample_crypto 0 (replicate 256 0) (\<not> False) ''AES-128-CBC'' ''SHA256'' 0 0 = Inr d"
    using sample_codecs [of False] sample_codecs [of True] by auto
  let ?ms = "[sample_message, sample_message\<lparr>msg_id := 2\<rparr>]"
  have "increasing_from 0 ?ms"
    by (simp add: increasing_from_def sample_message_def random_works_def zero_random_def)
  moreover have "\<forall>y. 0 < y \<longrightarrow> below (codec_timestamp s) y d" using new_codec_window [OF c(2)] by blast
  ultimately obtain ws where ws: "list_all2 (sends sample_crypto s) ?ms ws"
    "fst (decode_all sample_crypto d (map2 (\<lambda>m w. (msg_clock m, msg_aad m, w)) ?ms ws)) =
       [Inr (1, [0x45]), Inr (2, [0x45])]"
    using session_delivers [OF sample_crypto_ok tls_codec_peers [OF sample_crypto_ok c], of 0 ?ms]
    by (auto simp: sample_message_def)
  then obtain w w' where w: "ws = [w, w']" by (auto simp: list_all2_Cons1)
  let ?in = "[(((0, 1), []), w), (((0, 1), []), w')] :: ((clock \<times> bytes) \<times> bytes) list"
  have "decode_run (\<lambda>e c. codec_Decode sample_crypto (fst e) c (snd e)) d ?in = [Inr (1, [0x45]), Inr (2, [0x45])]"
    using ws(2) by (auto simp: w sample_message_def split: prod.splits)
  with datagram_delivered_once [of sample_crypto 0 "replicate 256 0" True "''AES-128-CBC''" "''SHA256''" 0 0 d _ _ 0 1 ?in] c(2)
  show ?thesis by (intro exI [of _ d] exI [of _ w] exI [of _ w']) simp
qed

end
