(* ===== verification/Data_Buffer.thy ===== *)
theory Data_Buffer
  imports Data_Channel Packet
begin

text \<open>
  Data packets in buffers: \<open>EncodeBuffer\<close> of the four codecs and \<open>DecodeBuffer\<close> of the AEAD codec, which
  work in the memory of a packet buffer and in scratch arrays of the codec, and the part of
  \<open>peer_data.go\<close> that makes a data packet from a payload buffer. They are compared with the plain
  operations.

  The buffers come from a library. A buffer is a window, from start to end, into an array of which
  \<open>buf_capacity\<close> bytes may be used; the operations on it that the code calls are arguments, and what
  they are documented to do within the capacity is \<open>buf_api_ok\<close>. Releasing a buffer to its pool has no
  counterpart.
\<close>

section \<open>Buffers\<close>

record Buffer =
  buf_data :: bytes
  buf_start :: nat
  buf_end :: nat
  buf_capacity :: nat

definition buf_Len :: "Buffer \<Rightarrow> nat" where "buf_Len b = buf_end b - buf_start b"

definition buf_FreeLen :: "Buffer \<Rightarrow> nat" where "buf_FreeLen b = buf_capacity b - buf_end b"

definition buf_Bytes :: "Buffer \<Rightarrow> bytes" where
  "buf_Bytes b = take (buf_Len b) (drop (buf_start b) (buf_data b))"

definition buf_ok :: "Buffer \<Rightarrow> bool" where
  "buf_ok b \<longleftrightarrow> buf_start b \<le> buf_end b \<and> buf_end b \<le> buf_capacity b \<and> buf_capacity b \<le> length (buf_data b)"

text \<open>\<open>ExtendHeader\<close> panics when there is no room; that is None.\<close>

record buf_api =
  NewSize :: "nat \<Rightarrow> Buffer"
  Resize :: "nat \<Rightarrow> nat \<Rightarrow> Buffer \<Rightarrow> Buffer"
  Write :: "bytes \<Rightarrow> Buffer \<Rightarrow> Buffer"
  Truncate :: "nat \<Rightarrow> Buffer \<Rightarrow> Buffer"
  ExtendHeader :: "nat \<Rightarrow> Buffer \<Rightarrow> Buffer option"

definition buf_api_ok :: "buf_api \<Rightarrow> bool" where
  "buf_api_ok B \<longleftrightarrow>
     (\<forall>n. buf_ok (NewSize B n) \<and> buf_start (NewSize B n) = 0 \<and> buf_end (NewSize B n) = 0 \<and> buf_capacity (NewSize B n) = n) \<and>
     (\<forall>b s n. buf_ok b \<and> s + n \<le> buf_capacity b \<longrightarrow> Resize B s n b = b\<lparr>buf_start := s, buf_end := s + n\<rparr>) \<and>
     (\<forall>b p. buf_ok b \<and> length p \<le> buf_FreeLen b \<longrightarrow>
        Write B p b = b\<lparr>buf_data := go_copy (buf_data b) (buf_end b) p, buf_end := buf_end b + length p\<rparr>) \<and>
     (\<forall>b n. buf_ok b \<and> buf_start b + n \<le> buf_capacity b \<longrightarrow> Truncate B n b = b\<lparr>buf_end := buf_start b + n\<rparr>) \<and>
     (\<forall>b n. buf_ok b \<longrightarrow> ExtendHeader B n b = (if n \<le> buf_start b then Some (b\<lparr>buf_start := buf_start b - n\<rparr>) else None))"

text \<open>
  Go's append of \<open>out\<close> to the empty slice at index \<open>i\<close> of an array: in place when the array is long
  enough, otherwise into a new array, and this one stays as it is.
\<close>

definition append_at :: "bytes \<Rightarrow> nat \<Rightarrow> bytes \<Rightarrow> bytes" where
  "append_at a i out = (if i + length out \<le> length a then go_copy a i out else a)"

text \<open>The bytes move to a new buffer with the given headroom and room for a tag behind them.\<close>

definition moved :: "buf_api \<Rightarrow> nat \<Rightarrow> Buffer \<Rightarrow> Buffer" where
  "moved B headroom payload =
     Write B (buf_Bytes payload) (Resize B headroom 0 (NewSize B (headroom + buf_Len payload + tlsDataAEADTagSize)))"

definition write_header :: "buf_api \<Rightarrow> bytes \<Rightarrow> Buffer \<Rightarrow> Buffer result" where
  "write_header B header payload =
     (case ExtendHeader B (length header) payload of
        None \<Rightarrow> Inl Panic
      | Some b \<Rightarrow> Inr (b\<lparr>buf_data := go_copy (buf_data b) (buf_start b) header\<rparr>))"

section \<open>The AEAD codec\<close>

text \<open>
  Sealing works in the buffer itself: the ciphertext replaces the payload when the tag fits behind it,
  which the first test provides for. The tag then moves in front. Writing the packet id behind an
  additional-data prefix of more than 4 bytes leaves the 8-byte scratch array and panics.
\<close>

definition gcm_EncodeBuffer ::
  "buf_api \<Rightarrow> tlsGCMDataCodec \<Rightarrow> u32 \<Rightarrow> bytes \<Rightarrow> Buffer \<Rightarrow> Buffer result \<times> tlsGCMDataCodec" where
  "gcm_EncodeBuffer B c packetID aadPrefix payload =
     (if packetID = 0 then (Inl (New ''invalid data packet id''), c)
      else
        let encodedHeaderSize = 4 + tlsDataAEADTagSize;
            payload = (if buf_start payload < encodedHeaderSize \<or> buf_FreeLen payload < tlsDataAEADTagSize
                       then moved B (max (buf_start payload) encodedHeaderSize) payload else payload);
            n = NonceSize (sendAEAD c)
        in if n < 4 \<or> 32 < n \<or> 4 < length aadPrefix then (Inl Panic, c)
           else
             let nonce = write_nonce (take n (sendNonce c)) packetID (sendIVSuffix c);
                 scratch = go_copy (go_copy (sendAdditionalData c) 0 aadPrefix) (length aadPrefix) (put_u32 packetID);
                 c = c\<lparr>sendNonce := nonce @ drop n (sendNonce c), sendAdditionalData := scratch\<rparr>;
                 plainPayloadLength = buf_Len payload;
                 sealedPayload = Seal (sendAEAD c) nonce (buf_Bytes payload) (take (length aadPrefix + 4) scratch);
                 payload = payload\<lparr>buf_data := append_at (buf_data payload) (buf_start payload) sealedPayload\<rparr>
             in if length sealedPayload \<noteq> plainPayloadLength + tlsDataAEADTagSize
                then (Inl (New ''invalid gcm ciphertext''), c)
                else
                  let payload = Truncate B (length sealedPayload) payload;
                      tag = drop plainPayloadLength sealedPayload
                  in (bindE (write_header B (put_u32 packetID @ tag) payload) (\<lambda>payload.
                        Inr (Truncate B (encodedHeaderSize + plainPayloadLength) payload)), c))"

definition gcm_DecodeBuffer ::
  "buf_api \<Rightarrow> clock \<Rightarrow> tlsGCMDataCodec \<Rightarrow> bytes \<Rightarrow> bytes \<Rightarrow> int \<Rightarrow> (u32 \<times> Buffer) result \<times> tlsGCMDataCodec" where
  "gcm_DecodeBuffer B clock c aadPrefix payload headroom =
     (if length payload < 4 + tlsDataAEADTagSize then (Inl (New ''invalid gcm payload''), c)
      else if NonceSize (receiveAEAD c) < 4 \<or> 32 < NonceSize (receiveAEAD c) \<or> 4 < length aadPrefix then (Inl Panic, c)
      else
        let packetID = get_u32 payload;
            tag = take tlsDataAEADTagSize (drop 4 payload);
            ciphertextLength = length payload - 4 - tlsDataAEADTagSize;
            payload = go_copy payload 4 (drop (4 + tlsDataAEADTagSize) payload);
            payload = go_copy payload (4 + ciphertextLength) tag;
            sealedPayload = take (ciphertextLength + tlsDataAEADTagSize) (drop 4 payload);
            n = NonceSize (receiveAEAD c);
            nonce = write_nonce (take n (receiveNonce c)) packetID (receiveIVSuffix c);
            scratch = go_copy (go_copy (receiveAdditionalData c) 0 aadPrefix) (length aadPrefix) (put_u32 packetID);
            c = c\<lparr>receiveNonce := nonce @ drop n (receiveNonce c), receiveAdditionalData := scratch\<rparr>;
            headroom = nat (max 0 headroom);
            decodedBuffer = Resize B headroom 0 (NewSize B (headroom + ciphertextLength))
        in case Open (receiveAEAD c) nonce sealedPayload (take (length aadPrefix + 4) scratch) of
             Inl err \<Rightarrow> (Inl err, c)
           | Inr decodedPayload \<Rightarrow>
               let decodedBuffer = Truncate B (length decodedPayload)
                     (decodedBuffer\<lparr>buf_data := append_at (buf_data decodedBuffer) (buf_end decodedBuffer) decodedPayload\<rparr>)
               in case window_check Accept clock (gcm_replayWindow c) packetID of (ok, w) \<Rightarrow>
                  (if ok then Inr (packetID, decodedBuffer) else Inl (New ''replayed gcm packet''),
                   c\<lparr>gcm_replayWindow := w\<rparr>))"

section \<open>The other codecs\<close>

text \<open>They encode into a new array and copy the result into a new buffer with the headroom of the old one.\<close>

definition copied_EncodeBuffer :: "buf_api \<Rightarrow> bytes result \<Rightarrow> Buffer \<Rightarrow> Buffer result" where
  "copied_EncodeBuffer B encoded payload =
     bindE encoded (\<lambda>encodedPayload.
       Inr (Write B encodedPayload
         (Resize B (buf_start payload) 0 (NewSize B (buf_start payload + length encodedPayload)))))"

definition cbc_EncodeBuffer ::
  "buf_api \<Rightarrow> crypto \<Rightarrow> random \<Rightarrow> tlsCBCDataCodec \<Rightarrow> u32 \<Rightarrow> Buffer \<Rightarrow> Buffer result" where
  "cbc_EncodeBuffer B C rand c packetID payload =
     copied_EncodeBuffer B (cbc_Encode C rand c packetID (buf_Bytes payload)) payload"

definition stream_EncodeBuffer :: "buf_api \<Rightarrow> crypto \<Rightarrow> tlsStreamDataCodec \<Rightarrow> u32 \<Rightarrow> Buffer \<Rightarrow> Buffer result" where
  "stream_EncodeBuffer B C c packetID payload =
     copied_EncodeBuffer B (stream_Encode C c packetID (buf_Bytes payload)) payload"

definition static_EncodeBuffer ::
  "buf_api \<Rightarrow> crypto \<Rightarrow> random \<Rightarrow> staticKeyDataCodec \<Rightarrow> u32 \<Rightarrow> Buffer \<Rightarrow> Buffer result" where
  "static_EncodeBuffer B C rand c packetID payload =
     copied_EncodeBuffer B (static_Encode C rand c packetID (buf_Bytes payload)) payload"

fun codec_EncodeBuffer ::
  "buf_api \<Rightarrow> crypto \<Rightarrow> random \<Rightarrow> dataCodec \<Rightarrow> u32 \<Rightarrow> bytes \<Rightarrow> Buffer \<Rightarrow> Buffer result \<times> dataCodec" where
  "codec_EncodeBuffer B C rand (GCM c) packetID aadPrefix payload =
     (case gcm_EncodeBuffer B c packetID aadPrefix payload of (r, c) \<Rightarrow> (r, GCM c))"
| "codec_EncodeBuffer B C rand (CBC c) packetID aadPrefix payload = (cbc_EncodeBuffer B C rand c packetID payload, CBC c)"
| "codec_EncodeBuffer B C rand (Stream c) packetID aadPrefix payload = (stream_EncodeBuffer B C c packetID payload, Stream c)"
| "codec_EncodeBuffer B C rand (Static c) packetID aadPrefix payload = (static_EncodeBuffer B C rand c packetID payload, Static c)"

section \<open>Data packets\<close>

text \<open>
  The header of outgoing data packets: with a peer id it is also the additional data of the cipher.
  \<open>incoming_aad\<close> is the receiver's reconstruction from a parsed packet.
\<close>

definition outgoing_opcode :: "u32 option \<Rightarrow> opcode" where
  "outgoing_opcode peerID = (if peerID \<noteq> None then OpcodeDataV2 else OpcodeDataV1)"

definition outgoing_aad :: "byte \<Rightarrow> u32 option \<Rightarrow> bytes" where
  "outgoing_aad currentKeyID peerID =
     (case peerID of
        None \<Rightarrow> []
      | Some peerID \<Rightarrow>
          let header = push_bit 3 OpcodeDataV2 OR (currentKeyID AND 7); encodedPeerID = peerID AND 0x00ffffff
          in [header, ucast (drop_bit 16 encodedPeerID), ucast (drop_bit 8 encodedPeerID), ucast encodedPeerID])"

definition incoming_aad :: "packet \<Rightarrow> bytes" where
  "incoming_aad packet =
     (if Opcode packet = OpcodeDataV2
      then [push_bit 3 (Opcode packet) OR (KeyID packet AND 7), PeerID packet ! 0, PeerID packet ! 1, PeerID packet ! 2]
      else [])"

definition dataPacketHeaderSize :: "nat \<Rightarrow> opcode \<Rightarrow> nat" where
  "dataPacketHeaderSize dataTransportHeaderSize opcode =
     (if opcode = OpcodeDataV2 then dataTransportHeaderSize + 4 else dataTransportHeaderSize + 1)"

definition encodeDataPacket ::
  "buf_api \<Rightarrow> crypto \<Rightarrow> random \<Rightarrow> dataCodec \<Rightarrow> nat \<Rightarrow> byte \<Rightarrow> u32 option \<Rightarrow> u32 \<Rightarrow> Buffer \<Rightarrow> Buffer result \<times> dataCodec" where
  "encodeDataPacket B C rand sendCodec dataTransportHeaderSize currentKeyID peerID packetID outgoingPayload =
     (let outgoingOpcode = outgoing_opcode peerID;
          aadPrefix = outgoing_aad currentKeyID peerID;
          requiredHeadroom = dataPacketHeaderSize dataTransportHeaderSize outgoingOpcode + 4 + tlsDataAEADTagSize;
          outgoingPayload = (if buf_start outgoingPayload < requiredHeadroom \<or> buf_FreeLen outgoingPayload < tlsDataAEADTagSize
                             then moved B requiredHeadroom outgoingPayload else outgoingPayload)
      in case codec_EncodeBuffer B C rand sendCodec packetID aadPrefix outgoingPayload of (encoded, sendCodec) \<Rightarrow>
           (bindE encoded (\<lambda>encodedPayload.
              if outgoingOpcode = OpcodeDataV2 then write_header B aadPrefix encodedPayload
              else write_header B [push_bit 3 outgoingOpcode OR (currentKeyID AND 7)] encodedPayload), sendCodec))"

section \<open>What the buffers hold\<close>

lemma buf_api_laws:
  assumes "buf_api_ok B"
  shows "buf_ok (NewSize B n)" "buf_start (NewSize B n) = 0" "buf_end (NewSize B n) = 0" "buf_capacity (NewSize B n) = n"
    "buf_ok b \<Longrightarrow> s + m \<le> buf_capacity b \<Longrightarrow> Resize B s m b = b\<lparr>buf_start := s, buf_end := s + m\<rparr>"
    "buf_ok b \<Longrightarrow> length p \<le> buf_FreeLen b \<Longrightarrow>
       Write B p b = b\<lparr>buf_data := go_copy (buf_data b) (buf_end b) p, buf_end := buf_end b + length p\<rparr>"
    "buf_ok b \<Longrightarrow> buf_start b + m \<le> buf_capacity b \<Longrightarrow> Truncate B m b = b\<lparr>buf_end := buf_start b + m\<rparr>"
    "buf_ok b \<Longrightarrow> m \<le> buf_start b \<Longrightarrow> ExtendHeader B m b = Some (b\<lparr>buf_start := buf_start b - m\<rparr>)"
  using assms unfolding buf_api_ok_def by simp_all

lemma length_Bytes: "buf_ok b \<Longrightarrow> length (buf_Bytes b) = buf_Len b"
  by (auto simp: buf_ok_def buf_Bytes_def buf_Len_def)

text \<open>New buffers that are filled from a given headroom on.\<close>

lemma filled_buffer:
  assumes "buf_api_ok B" "headroom + length p \<le> n"
  defines "b \<equiv> Write B p (Resize B headroom 0 (NewSize B n))"
  shows "buf_ok b" "buf_Bytes b = p" "buf_start b = headroom" "buf_FreeLen b = n - (headroom + length p)"
proof -
  let ?e = "NewSize B n"
  note l = buf_api_laws [OF assms(1)]
  have e: "Resize B headroom 0 ?e = ?e\<lparr>buf_start := headroom, buf_end := headroom\<rparr>"
    using l(5) [OF l(1), of headroom 0 n] l(4) [of n] assms(2) by simp
  have ok: "buf_ok (?e\<lparr>buf_start := headroom, buf_end := headroom\<rparr>)" and len: "n \<le> length (buf_data ?e)"
    using l(1) [of n] l(4) [of n] assms(2) by (simp_all add: buf_ok_def)
  have b: "b = ?e\<lparr>buf_start := headroom, buf_data := go_copy (buf_data ?e) headroom p, buf_end := headroom + length p\<rparr>"
    unfolding b_def e using l(6) [OF ok, of p] l(4) [of n] assms(2) by (simp add: buf_FreeLen_def)
  show "buf_start b = headroom" "buf_FreeLen b = n - (headroom + length p)" using l(4) [of n] by (simp_all add: b buf_FreeLen_def)
  show "buf_ok b" using assms(2) len l(4) [of n] by (simp add: b buf_ok_def)
  show "buf_Bytes b = p" using assms(2) len by (simp add: b buf_Bytes_def buf_Len_def go_copy_def)
qed

lemma moved_buffer:
  assumes "buf_api_ok B" "buf_ok b"
  shows "buf_ok (moved B h b)" "buf_Bytes (moved B h b) = buf_Bytes b" "buf_start (moved B h b) = h"
    "buf_FreeLen (moved B h b) = 16"
  using filled_buffer [OF assms(1), of h "buf_Bytes b" "h + buf_Len b + 16"] length_Bytes [OF assms(2)]
  by (simp_all add: moved_def tlsDataAEADTagSize_def)

lemma header_written:
  assumes "buf_api_ok B" "buf_ok b" "length h \<le> buf_start b"
  shows "\<exists>b'. write_header B h b = Inr b' \<and> buf_ok b' \<and> buf_Bytes b' = h @ buf_Bytes b \<and> buf_start b' = buf_start b - length h \<and>
    buf_end b' = buf_end b \<and> buf_capacity b' = buf_capacity b"
proof -
  have ok: "buf_start b \<le> buf_end b" "buf_end b \<le> buf_capacity b" "buf_capacity b \<le> length (buf_data b)"
    using assms(2) by (simp_all add: buf_ok_def)
  have "go_copy (buf_data b) (buf_start b - length h) h = take (buf_start b - length h) (buf_data b) @ h @ drop (buf_start b) (buf_data b)"
    using assms(3) ok by (simp add: go_copy_def)
  moreover have "buf_end b - (buf_start b - length h) = length h + (buf_end b - buf_start b)" using assms(3) ok by simp
  ultimately show ?thesis
    using buf_api_laws(8) [OF assms] ok assms(3) by (simp add: write_header_def buf_ok_def buf_Bytes_def buf_Len_def)
qed

text \<open>Sealing in place, the tag to the front.\<close>

lemma sealed_in_place:
  assumes "buf_api_ok B" "buf_ok b" "20 \<le> buf_start b" "16 \<le> buf_FreeLen b" "length s = buf_Len b + 16" "length x = 4"
  shows "\<exists>b'. bindE (write_header B (x @ drop (buf_Len b) s)
        (Truncate B (length s) (b\<lparr>buf_data := append_at (buf_data b) (buf_start b) s\<rparr>)))
      (\<lambda>c. Inr (Truncate B (20 + buf_Len b) c)) = Inr b' \<and>
    buf_ok b' \<and> buf_Bytes b' = x @ drop (buf_Len b) s @ take (buf_Len b) s \<and> buf_start b' = buf_start b - 20"
proof -
  have ok: "buf_start b \<le> buf_end b" "buf_end b + 16 \<le> buf_capacity b" "buf_capacity b \<le> length (buf_data b)"
    using assms(2,4) by (auto simp: buf_ok_def buf_FreeLen_def)
  have fits: "buf_start b + length s \<le> buf_capacity b" using assms(5) ok by (simp add: buf_Len_def)
  let ?b = "b\<lparr>buf_data := append_at (buf_data b) (buf_start b) s\<rparr>"
  have d: "buf_data ?b = take (buf_start b) (buf_data b) @ s @ drop (buf_start b + length s) (buf_data b)"
    using fits ok by (simp add: append_at_def go_copy_def)
  have okb: "buf_ok ?b" using assms(2) fits ok d by (simp add: buf_ok_def)
  let ?t = "?b\<lparr>buf_end := buf_start b + length s\<rparr>"
  have t: "Truncate B (length s) ?b = ?t" using buf_api_laws(7) [OF assms(1) okb, of "length s"] fits by simp
  have okt: "buf_ok ?t" using okb fits by (simp add: buf_ok_def)
  have bt: "buf_Bytes ?t = s" using d fits ok by (simp add: buf_Bytes_def buf_Len_def)
  let ?h = "x @ drop (buf_Len b) s"
  have h: "length ?h = 20" using assms(5,6) by simp
  obtain c where c: "write_header B ?h ?t = Inr c" "buf_ok c" "buf_Bytes c = ?h @ s" "buf_start c = buf_start b - 20"
      "buf_end c = buf_start b + length s" "buf_capacity c = buf_capacity b"
    using header_written [OF assms(1) okt, of ?h] h assms(3) bt by auto
  have "Truncate B (20 + buf_Len b) c = c\<lparr>buf_end := buf_start b + buf_Len b\<rparr>"
    using buf_api_laws(7) [OF assms(1) c(2), of "20 + buf_Len b"] c(4,6) assms(3,5) fits by simp
  moreover have "buf_Bytes (c\<lparr>buf_end := buf_start b + buf_Len b\<rparr>) = take (20 + buf_Len b) (buf_Bytes c)"
    using c(4,5) assms(3,5) by (simp add: buf_Bytes_def buf_Len_def min_def add.commute)
  moreover have "buf_ok (c\<lparr>buf_end := buf_start b + buf_Len b\<rparr>)"
    using c(2,4,5) fits assms(3,5) by (simp add: buf_ok_def)
  ultimately show ?thesis using c(1,3,4) h by (simp add: t)
qed

section \<open>The buffer variants refine the plain ones\<close>

text \<open>
  What holds of a codec in use: the sizes of its scratch arrays and what is documented of the cipher,
  among it that opening removes a tag of 16 bytes.
\<close>

fun scratch_ok :: "dataCodec \<Rightarrow> bool" where
  "scratch_ok (GCM c) \<longleftrightarrow>
     aead_ok (sendAEAD c) \<and> aead_ok (receiveAEAD c) \<and> length (sendIVSuffix c) = 8 \<and> length (receiveIVSuffix c) = 8 \<and>
     length (sendNonce c) = 32 \<and> length (receiveNonce c) = 32 \<and>
     length (sendAdditionalData c) = 8 \<and> length (receiveAdditionalData c) = 8 \<and>
     (\<forall>nonce s ad p. Open (receiveAEAD c) nonce s ad = Inr p \<longrightarrow> length s = length p + 16)"
| "scratch_ok _ \<longleftrightarrow> True"

fun forget_scratch :: "dataCodec \<Rightarrow> dataCodec" where
  "forget_scratch (GCM c) =
     GCM (c\<lparr>sendNonce := [], receiveNonce := [], sendAdditionalData := [], receiveAdditionalData := []\<rparr>)"
| "forget_scratch c = c"

lemma write_nonce_exact:
  "length nonce = 12 \<Longrightarrow> length ivSuffix = 8 \<Longrightarrow> write_nonce nonce x ivSuffix = put_u32 x @ ivSuffix"
  by (simp add: write_nonce_def go_copy_def)

lemma scratch_data:
  assumes "length scratch = 8" "length aad \<le> 4"
  shows "take (length aad + 4) (go_copy (go_copy scratch 0 aad) (length aad) (put_u32 x)) = aad @ put_u32 x"
    "length (go_copy (go_copy scratch 0 aad) (length aad) (put_u32 x)) = 8"
  using assms by (simp_all add: go_copy_def)

lemma rearranged:
  assumes "20 \<le> length w"
  shows "take (length w - 4 - 16 + 16)
           (drop 4 (go_copy (go_copy w 4 (drop 20 w)) (4 + (length w - 4 - 16)) (take 16 (drop 4 w)))) =
         drop 20 w @ take 16 (drop 4 w)"
proof -
  define ids tag ct where "ids = take 4 w" and "tag = take 16 (drop 4 w)" and "ct = drop 20 w"
  have w: "w = ids @ tag @ ct" "length ids = 4" "length tag = 16"
    using assms append_take_drop_id [of 16 "drop 4 w"] append_take_drop_id [of 4 w]
    by (simp_all add: ids_def tag_def ct_def)
  have "go_copy w 4 ct = ids @ ct @ drop (length ct) (tag @ ct)" by (simp add: w go_copy_def)
  moreover have "length (drop (length ct) (tag @ ct)) = 16" using w by simp
  ultimately have "go_copy (go_copy w 4 ct) (4 + length ct) tag = ids @ ct @ tag" by (simp add: go_copy_def w)
  then show ?thesis using w assms by (simp flip: tag_def ct_def add: ct_def [symmetric])
qed

lemma gcm_EncodeBuffer_refines:
  assumes "buf_api_ok B" "buf_ok b" "scratch_ok (GCM c)" "length aad \<le> 4" "gcm_EncodeBuffer B c x aad b = (r, c')"
  shows "(case gcm_Encode c x aad (buf_Bytes b) of
      Inl err \<Rightarrow> r = Inl err
    | Inr w \<Rightarrow> \<exists>b'. r = Inr b' \<and> buf_ok b' \<and> buf_Bytes b' = w \<and> buf_start b' = max (buf_start b) 20 - 20) \<and>
    forget_scratch (GCM c') = forget_scratch (GCM c) \<and> scratch_ok (GCM c')"
proof -
  define e where "e = (if buf_start b < 20 \<or> buf_FreeLen b < 16 then moved B (max (buf_start b) 20) b else b)"
  have e: "buf_ok e" "buf_Bytes e = buf_Bytes b" "buf_start e = max (buf_start b) 20" "16 \<le> buf_FreeLen e"
    using moved_buffer [OF assms(1,2)] assms(2) by (auto simp: e_def)
  have a: "NonceSize (sendAEAD c) = 12" "length (Seal (sendAEAD c) n p ad) = length p + 16" for n p ad
    using assms(3) by (auto simp: aead_ok_def)
  define s where "s = Seal (sendAEAD c) (put_u32 x @ sendIVSuffix c) (buf_Bytes b) (aad @ put_u32 x)"
  have s: "length s = buf_Len e + 16" using a(2) length_Bytes [OF e(1)] e(2) by (simp add: s_def)
  have "20 \<le> buf_start e" using e(3) by simp
  note sealed = sealed_in_place [OF assms(1) e(1) this e(4) s, of "put_u32 x"]
  have len: "length (buf_Bytes b) = buf_Len e" using length_Bytes [OF e(1)] e(2) by simp
  have iv: "length (take 12 (sendNonce c)) = 12" "length (sendIVSuffix c) = 8" "length (sendAdditionalData c) = 8"
    using assms(3) by simp_all
  show ?thesis
  proof (cases "x = 0")
    case True
    then show ?thesis using assms(3,5) by (simp add: gcm_EncodeBuffer_def gcm_Encode_def)
  next
    case False
    have plain: "gcm_Encode c x aad (buf_Bytes b) = Inr (put_u32 x @ drop (buf_Len e) s @ take (buf_Len e) s)"
      using False s len by (simp add: gcm_Encode_def a write_nonce_exact iv s_def [symmetric] tlsDataAEADTagSize_def Let_def)
    define scratch where "scratch = go_copy (go_copy (sendAdditionalData c) 0 aad) (length aad) (put_u32 x)"
    have scr: "take (length aad + 4) scratch = aad @ put_u32 x" "length scratch = 8"
      using scratch_data [OF iv(3) assms(4)] by (simp_all add: scratch_def)
    define d where "d = c\<lparr>sendNonce := (put_u32 x @ sendIVSuffix c) @ drop 12 (sendNonce c), sendAdditionalData := scratch\<rparr>"
    have "gcm_EncodeBuffer B c x aad b =
        (bindE (write_header B (put_u32 x @ drop (buf_Len e) s)
          (Truncate B (length s) (e\<lparr>buf_data := append_at (buf_data e) (buf_start e) s\<rparr>)))
        (\<lambda>c. Inr (Truncate B (20 + buf_Len e) c)), d)"
      using False assms(4) s len
      by (simp add: gcm_EncodeBuffer_def a write_nonce_exact [OF iv(1,2)] tlsDataAEADTagSize_def Let_def e_def [symmetric] e(2)
          scratch_def [symmetric] scr(1) s_def [symmetric] d_def)
    then show ?thesis using assms(3,5) sealed e(3) plain iv scr(2) by (auto simp: d_def)
  qed
qed

lemma copied_refines:
  assumes "buf_api_ok B"
  shows "case encoded of
      Inl err \<Rightarrow> copied_EncodeBuffer B encoded b = Inl err
    | Inr w \<Rightarrow> \<exists>b'. copied_EncodeBuffer B encoded b = Inr b' \<and> buf_ok b' \<and> buf_Bytes b' = w \<and> buf_start b' = buf_start b"
proof (cases encoded)
  case (Inr w)
  then show ?thesis
    using filled_buffer [OF assms, of "buf_start b" w "buf_start b + length w"] by (simp add: copied_EncodeBuffer_def)
qed (simp add: copied_EncodeBuffer_def)

lemma EncodeBuffer_refines:
  assumes "buf_api_ok B" "buf_ok b" "scratch_ok c" "length aad \<le> 4" "20 \<le> buf_start b"
    and "codec_EncodeBuffer B C rand c x aad b = (r, c')"
  shows "(case codec_Encode C rand c x aad (buf_Bytes b) of
      Inl err \<Rightarrow> r = Inl err
    | Inr w \<Rightarrow> \<exists>b'. r = Inr b' \<and> buf_ok b' \<and> buf_Bytes b' = w \<and> buf_start b - 20 \<le> buf_start b') \<and>
    forget_scratch c' = forget_scratch c \<and> scratch_ok c'"
proof (cases c)
  case (GCM g)
  obtain g' where g': "gcm_EncodeBuffer B g x aad b = (r, g')" "c' = GCM g'"
    using assms(6) by (auto simp: GCM split: prod.splits)
  have g: "scratch_ok (GCM g)" "max (buf_start b) 20 = buf_start b" using assms(3,5) by (simp_all only: GCM max_absorb1)
  note ref = gcm_EncodeBuffer_refines [OF assms(1,2) g(1) assms(4) g'(1), unfolded g(2)]
  show ?thesis
  proof (cases "gcm_Encode g x aad (buf_Bytes b)")
    case (Inl err)
    then show ?thesis using ref unfolding GCM g'(2) codec_Encode.simps by simp
  next
    case (Inr w)
    then show ?thesis using ref unfolding GCM g'(2) codec_Encode.simps by (auto simp del: scratch_ok.simps forget_scratch.simps)
  qed
next
  case (CBC g)
  then show ?thesis using copied_refines [OF assms(1), of "cbc_Encode C rand g x (buf_Bytes b)" b] assms(6)
    by (auto simp: cbc_EncodeBuffer_def split: sum.splits)
next
  case (Stream g)
  then show ?thesis using copied_refines [OF assms(1), of "stream_Encode C g x (buf_Bytes b)" b] assms(6)
    by (auto simp: stream_EncodeBuffer_def split: sum.splits)
next
  case (Static g)
  then show ?thesis using copied_refines [OF assms(1), of "static_Encode C rand g x (buf_Bytes b)" b] assms(6)
    by (auto simp: static_EncodeBuffer_def split: sum.splits)
qed

lemma opened_buffer:
  fixes headroom :: nat and p :: bytes
  assumes "buf_api_ok B"
  defines "b \<equiv> Resize B headroom 0 (NewSize B (headroom + length p))"
  defines "c \<equiv> Truncate B (length p) (b\<lparr>buf_data := append_at (buf_data b) (buf_end b) p\<rparr>)"
  shows "buf_ok c" "buf_Bytes c = p" "buf_start c = headroom"
proof -
  let ?n = "headroom + length p"
  note l = buf_api_laws [OF assms(1)]
  have b: "b = (NewSize B ?n)\<lparr>buf_start := headroom, buf_end := headroom\<rparr>"
    using l(5) [OF l(1), of headroom 0 ?n] l(4) [of ?n] by (simp add: b_def)
  have len: "?n \<le> length (buf_data (NewSize B ?n))" using l(1) [of ?n] l(4) [of ?n] by (simp add: buf_ok_def)
  let ?e = "b\<lparr>buf_data := append_at (buf_data b) (buf_end b) p\<rparr>"
  have d: "buf_data ?e = take headroom (buf_data b) @ p @ drop ?n (buf_data b)" using len by (simp add: b append_at_def go_copy_def)
  have "buf_ok ?e" using len l(4) [of ?n] by (simp add: buf_ok_def b append_at_def)
  then have c: "c = ?e\<lparr>buf_end := ?n\<rparr>" using l(7) [of ?e "length p"] l(4) [of ?n] by (simp add: c_def b)
  show "buf_start c = headroom" by (simp add: c b)
  show "buf_ok c" using len l(4) [of ?n] by (simp add: c b buf_ok_def append_at_def)
  show "buf_Bytes c = p" using d len by (simp add: c b buf_Bytes_def buf_Len_def)
qed

lemma gcm_DecodeBuffer_refines:
  assumes "buf_api_ok B" "scratch_ok (GCM c)" "length aad \<le> 4" "gcm_DecodeBuffer B clock c aad w headroom = (r, c')"
  shows "(case fst (gcm_Decode clock c aad w) of
      Inl err \<Rightarrow> r = Inl err
    | Inr (x, p) \<Rightarrow> \<exists>b. r = Inr (x, b) \<and> buf_ok b \<and> buf_Bytes b = p \<and> buf_start b = nat (max 0 headroom)) \<and>
    forget_scratch (GCM c') = forget_scratch (GCM (snd (gcm_Decode clock c aad w))) \<and> scratch_ok (GCM c')"
proof (cases "length w < 20")
  case True
  then show ?thesis using assms(2,4) by (auto simp: gcm_DecodeBuffer_def gcm_Decode_def tlsDataAEADTagSize_def)
next
  case False
  have a: "NonceSize (receiveAEAD c) = 12" using assms(2) by (auto simp: aead_ok_def)
  have iv: "length (take 12 (receiveNonce c)) = 12" "length (receiveIVSuffix c) = 8" "length (receiveAdditionalData c) = 8"
    using assms(2) by simp_all
  define x s where "x = get_u32 w" and "s = drop 20 w @ take 16 (drop 4 w)"
  define scratch where "scratch = go_copy (go_copy (receiveAdditionalData c) 0 aad) (length aad) (put_u32 x)"
  have scr: "take (length aad + 4) scratch = aad @ put_u32 x" "length scratch = 8"
    using scratch_data [OF iv(3) assms(3)] by (simp_all add: scratch_def)
  define d where "d = c\<lparr>receiveNonce := (put_u32 x @ receiveIVSuffix c) @ drop 12 (receiveNonce c), receiveAdditionalData := scratch\<rparr>"
  define h where "h = nat (max 0 headroom)"
  let ?open = "Open (receiveAEAD c) (put_u32 x @ receiveIVSuffix c) s (aad @ put_u32 x)"
  have plain: "gcm_Decode clock c aad w = (case ?open of Inl err \<Rightarrow> (Inl err, c)
      | Inr p \<Rightarrow> (case window_check Accept clock (gcm_replayWindow c) x of (ok, v) \<Rightarrow>
          (if ok then Inr (x, p) else Inl (New ''replayed gcm packet''), c\<lparr>gcm_replayWindow := v\<rparr>)))"
    using False by (simp add: gcm_Decode_def a write_nonce_exact iv tlsDataAEADTagSize_def x_def [symmetric] s_def [symmetric] Let_def)
  have all: "take (length w - 4) s = s" using False by (simp add: s_def)
  have buffered: "gcm_DecodeBuffer B clock c aad w headroom = (case ?open of Inl err \<Rightarrow> (Inl err, d)
      | Inr p \<Rightarrow> (case window_check Accept clock (gcm_replayWindow c) x of (ok, v) \<Rightarrow>
          (if ok then Inr (x, let b = Resize B h 0 (NewSize B (h + (length w - 20)))
             in Truncate B (length p) (b\<lparr>buf_data := append_at (buf_data b) (buf_end b) p\<rparr>))
           else Inl (New ''replayed gcm packet''), d\<lparr>gcm_replayWindow := v\<rparr>)))"
    using False assms(3) rearranged [of w]
    by (simp add: gcm_DecodeBuffer_def a write_nonce_exact [OF iv(1,2)] tlsDataAEADTagSize_def x_def [symmetric] s_def [symmetric]
        scratch_def [symmetric] scr(1) all d_def h_def Let_def split: sum.split prod.split)
  show ?thesis
  proof (cases ?open)
    case (Inl err)
    then show ?thesis using assms(2,4) buffered plain iv scr(2) by (auto simp: d_def)
  next
    case (Inr p)
    have "length s = length p + 16" using assms(2) Inr by simp
    then have p: "length w - 20 = length p" using False by (simp add: s_def)
    obtain ok v where v: "window_check Accept clock (gcm_replayWindow c) x = (ok, v)" by fastforce
    let ?b = "Resize B h 0 (NewSize B (h + length p))"
    let ?c = "Truncate B (length p) (?b\<lparr>buf_data := append_at (buf_data ?b) (buf_end ?b) p\<rparr>)"
    have r: "r = (if ok then Inr (x, ?c) else Inl (New ''replayed gcm packet''))" "c' = d\<lparr>gcm_replayWindow := v\<rparr>"
      using assms(4) unfolding buffered Inr v p Let_def by simp_all
    have q: "gcm_Decode clock c aad w = (if ok then Inr (x, p) else Inl (New ''replayed gcm packet''), c\<lparr>gcm_replayWindow := v\<rparr>)"
      unfolding plain Inr v by simp
    have "scratch_ok (GCM c')" "forget_scratch (GCM c') = forget_scratch (GCM (c\<lparr>gcm_replayWindow := v\<rparr>))"
      using assms(2) iv scr(2) unfolding r(2) by (simp_all add: d_def)
    then show ?thesis
      unfolding q r(1) fst_conv snd_conv h_def [symmetric] using opened_buffer [OF assms(1), where headroom = h and p = p] by (cases ok) simp_all
  qed
qed

section \<open>Data packets refine the plain operations\<close>

lemma data_header_parsed:
  assumes "keyID < 8"
  shows "\<exists>packet. ParsePacketView (outgoing_aad keyID (Some peerID) @ w) = Inr packet \<and> Opcode packet = OpcodeDataV2 \<and> KeyID packet = keyID \<and>
      incoming_aad packet = outgoing_aad keyID (Some peerID) \<and> Payload packet = w"
    "\<exists>packet. ParsePacketView ((push_bit 3 OpcodeDataV1 OR (keyID AND 7)) # w) = Inr packet \<and> Opcode packet = OpcodeDataV1 \<and>
      KeyID packet = keyID \<and> incoming_aad packet = [] \<and> Payload packet = w"
proof -
  define h2 h1 where "h2 = push_bit 3 OpcodeDataV2 OR (keyID AND 7)" and "h1 = push_bit 3 OpcodeDataV1 OR (keyID AND 7)"
  have h: "drop_bit 3 h2 = OpcodeDataV2" "h2 AND 7 = keyID" "drop_bit 3 h1 = OpcodeDataV1" "h1 AND 7 = keyID"
    unfolding h2_def h1_def using header_fields [of OpcodeDataV2 keyID] header_fields [of OpcodeDataV1 keyID] assms
    by (simp_all only: opcode_defs) simp_all
  have ne: "OpcodeDataV1 \<noteq> OpcodeDataV2" by (simp add: opcode_defs)
  show "\<exists>packet. ParsePacketView (outgoing_aad keyID (Some peerID) @ w) = Inr packet \<and> Opcode packet = OpcodeDataV2 \<and> KeyID packet = keyID \<and>
      incoming_aad packet = outgoing_aad keyID (Some peerID) \<and> Payload packet = w"
    unfolding outgoing_aad_def Let_def option.case h2_def [symmetric]
    by (simp add: ParsePacketView_def incoming_aad_def Let_def h IsData_def h2_def [symmetric])
  show "\<exists>packet. ParsePacketView ((push_bit 3 OpcodeDataV1 OR (keyID AND 7)) # w) = Inr packet \<and> Opcode packet = OpcodeDataV1 \<and>
      KeyID packet = keyID \<and> incoming_aad packet = [] \<and> Payload packet = w"
    unfolding h1_def [symmetric] using ne by (simp add: ParsePacketView_def incoming_aad_def Let_def h IsData_def)
qed

lemma aad_length: "length (outgoing_aad keyID peerID) \<le> 4" "length (outgoing_aad keyID (Some p)) = 4"
  by (auto simp: outgoing_aad_def Let_def split: option.splits)

lemma data_packet_refines:
  assumes B: "buf_api_ok B" "buf_ok payload" and c: "scratch_ok c" and k: "keyID < 8"
    and run: "encodeDataPacket B C rand c transport keyID peerID x payload = (r, c')"
  shows "(case codec_Encode C rand c x (outgoing_aad keyID peerID) (buf_Bytes payload) of
      Inl err \<Rightarrow> r = Inl err
    | Inr w \<Rightarrow> \<exists>b packet. r = Inr b \<and> buf_ok b \<and> transport \<le> buf_start b \<and> ParsePacketView (buf_Bytes b) = Inr packet \<and>
        Opcode packet = outgoing_opcode peerID \<and> KeyID packet = keyID \<and>
        incoming_aad packet = outgoing_aad keyID peerID \<and> Payload packet = w) \<and>
    forget_scratch c' = forget_scratch c \<and> scratch_ok c'"
proof -
  define header where "header = (case peerID of None \<Rightarrow> [push_bit 3 OpcodeDataV1 OR (keyID AND 7)] | Some p \<Rightarrow> outgoing_aad keyID (Some p))"
  define room where "room = transport + length header + 20"
  have size: "dataPacketHeaderSize transport (outgoing_opcode peerID) + 4 + 16 = room"
    by (simp add: dataPacketHeaderSize_def outgoing_opcode_def room_def header_def aad_length(2) opcode_defs split: option.split)
  define e where "e = (if buf_start payload < room \<or> buf_FreeLen payload < 16 then moved B room payload else payload)"
  have e: "buf_ok e" "buf_Bytes e = buf_Bytes payload" "room \<le> buf_start e" using moved_buffer [OF B] B(2) by (auto simp: e_def)
  obtain q d where q: "codec_EncodeBuffer B C rand c x (outgoing_aad keyID peerID) e = (q, d)" by fastforce
  have "20 \<le> buf_start e" using e(3) by (simp add: room_def)
  note ref = EncodeBuffer_refines [OF B(1) e(1) c aad_length(1) this q, unfolded e(2)]
  have r: "r = bindE q (write_header B header)" "c' = d"
    using run unfolding encodeDataPacket_def Let_def tlsDataAEADTagSize_def size e_def [symmetric] q
    by (cases peerID; simp add: outgoing_opcode_def header_def opcode_defs; fail)+
  show ?thesis
  proof (cases "codec_Encode C rand c x (outgoing_aad keyID peerID) (buf_Bytes payload)")
    case (Inl err)
    then show ?thesis using ref r by simp
  next
    case (Inr w)
    then obtain b where b: "q = Inr b" "buf_ok b" "buf_Bytes b = w" "buf_start e - 20 \<le> buf_start b" using ref by auto
    then have "length header \<le> buf_start b" "transport \<le> buf_start b - length header" using e(3) by (simp_all add: room_def)
    then obtain b' where "r = Inr b'" "buf_ok b'" "buf_Bytes b' = header @ w" "transport \<le> buf_start b'"
      using header_written [OF B(1) b(2), of header] b(1,3) r(1) by auto
    then show ?thesis
      using Inr ref r(2) data_header_parsed(1) [OF k, of _ w] data_header_parsed(2) [OF k, of w]
      by (cases peerID) (auto simp: header_def outgoing_opcode_def outgoing_aad_def)
  qed
qed

text \<open>Every codec starts this way.\<close>

definition open_ok :: "crypto \<Rightarrow> bool" where
  "open_ok C \<longleftrightarrow> (\<forall>a. (\<exists>b. newGCM C b = Inr a) \<or> (\<exists>key. newChaCha20Poly1305 C key = Inr a) \<longrightarrow>
     (\<forall>nonce s ad p. Open a nonce s ad = Inr p \<longrightarrow> length s = length p + 16))"

lemma new_gcm_scratch:
  assumes "aead_ok send" "aead_ok receive" "\<forall>nonce s ad p. Open receive nonce s ad = Inr p \<longrightarrow> length s = length p + 16"
    and "256 \<le> length km" "i < 2" "j < 2"
  shows "scratch_ok (GCM (gcm_codec send (splitStaticKeyMaterial km ! i) receive (splitStaticKeyMaterial km ! j) n tw))"
proof -
  have "length (take 8 (hmacKey (splitStaticKeyMaterial km ! k))) = 8" if "k < 2" for k
    using that assms(4) by (auto simp: splitStaticKeyMaterial_def less_2_cases_iff)
  then show ?thesis using assms by (simp add: gcm_codec_def)
qed

lemma new_gcm_shape:
  assumes "newTLSGCMDataCodec C km server cipherName n tw = Inr g \<or> newTLSChaCha20Poly1305DataCodec C km server n tw = Inr g"
  shows "\<exists>send receive i j. g = gcm_codec send (splitStaticKeyMaterial km ! i) receive (splitStaticKeyMaterial km ! j) n tw \<and>
    i < 2 \<and> j < 2 \<and> 256 \<le> length km \<and>
    ((\<exists>b. newGCM C b = Inr send) \<or> (\<exists>key. newChaCha20Poly1305 C key = Inr send)) \<and>
    ((\<exists>b. newGCM C b = Inr receive) \<or> (\<exists>key. newChaCha20Poly1305 C key = Inr receive))"
proof -
  obtain i j :: nat where ij: "i < 2" "j < 2"
    "tlsDataKeySlots (splitStaticKeyMaterial km) server = (splitStaticKeyMaterial km ! i, splitStaticKeyMaterial km ! j)"
    by (rule that [of "if server then 1 else 0" "if server then 0 else 1"]) (simp_all add: tlsDataKeySlots_def)
  from assms obtain send receive where "256 \<le> length km"
    "g = gcm_codec send (splitStaticKeyMaterial km ! i) receive (splitStaticKeyMaterial km ! j) n tw"
    "(\<exists>b. newGCM C b = Inr send) \<or> (\<exists>key. newChaCha20Poly1305 C key = Inr send)"
    "(\<exists>b. newGCM C b = Inr receive) \<or> (\<exists>key. newChaCha20Poly1305 C key = Inr receive)"
    by (elim disjE; simp add: newTLSGCMDataCodec_def newTLSChaCha20Poly1305DataCodec_def ij(3) bindE_Inr_iff split: if_splits; blast)
  then show ?thesis using ij(1,2) by blast
qed

lemma new_codec_scratch:
  assumes "crypto_ok C" "open_ok C" "newTLSDataCodec C t km server cipherName authName n tw = Inr c"
  shows "scratch_ok c"
proof (cases c)
  case (GCM g)
  obtain m v where "newTLSGCMDataCodec C km server cipherName m v = Inr g \<or> newTLSChaCha20Poly1305DataCodec C km server m v = Inr g"
    using assms(3) unfolding GCM by (auto simp: newTLSDataCodec_def bindE_Inr_iff split: if_splits sum.splits prod.splits)
  from new_gcm_shape [OF this] obtain send receive i j
    where g: "g = gcm_codec send (splitStaticKeyMaterial km ! i) receive (splitStaticKeyMaterial km ! j) m v" "i < 2" "j < 2" "256 \<le> length km"
    and made: "(\<exists>b. newGCM C b = Inr send) \<or> (\<exists>key. newChaCha20Poly1305 C key = Inr send)"
      "(\<exists>b. newGCM C b = Inr receive) \<or> (\<exists>key. newChaCha20Poly1305 C key = Inr receive)" by blast
  have "aead_ok send" "aead_ok receive" using assms(1) made unfolding crypto_ok_def by blast+
  moreover have "\<forall>nonce s ad p. Open receive nonce s ad = Inr p \<longrightarrow> length s = length p + 16"
    using assms(2) made(2) unfolding open_ok_def by blast
  ultimately show ?thesis unfolding GCM g(1) using g(2-4) by (intro new_gcm_scratch)
qed simp_all

section \<open>Properties\<close>

text \<open>
  C26. Working in packet buffers changes nothing: whatever headroom and free space a payload buffer has,
  making a data packet from it fails exactly when the plain encoder fails, with the same error and
  without ever running out of the buffer; otherwise it gives a buffer that still has room for the
  transport's own header in front, and whose bytes parse to a packet with the right opcode, key id,
  additional data and, as payload, what the plain encoder returns. Decoding into a buffer with any
  headroom returns what the plain AEAD decoder returns. The codec is left as the plain operation
  leaves it, except for its scratch arrays. The codec is any with arrays of the declared sizes, as
  the constructors make them.
\<close>

theorem buffer_variants_refine:
  assumes "buf_api_ok B" "buf_ok payload" "scratch_ok c" "keyID < 8"
  shows "(case encodeDataPacket B C rand c transport keyID peerID packetID payload of (r, c') \<Rightarrow>
      (case codec_Encode C rand c packetID (outgoing_aad keyID peerID) (buf_Bytes payload) of
         Inl err \<Rightarrow> r = Inl err
       | Inr w \<Rightarrow> \<exists>b packet. r = Inr b \<and> buf_ok b \<and> transport \<le> buf_start b \<and> ParsePacketView (buf_Bytes b) = Inr packet \<and>
           Opcode packet = (if peerID = None then OpcodeDataV1 else OpcodeDataV2) \<and> KeyID packet = keyID \<and>
           incoming_aad packet = outgoing_aad keyID peerID \<and> Payload packet = w) \<and>
      forget_scratch c' = forget_scratch c \<and> scratch_ok c') \<and>
    (\<forall>g aad w headroom. c = GCM g \<and> length aad \<le> 4 \<longrightarrow>
      (case gcm_DecodeBuffer B clock g aad w headroom of (r, g') \<Rightarrow>
        (case fst (gcm_Decode clock g aad w) of
           Inl err \<Rightarrow> r = Inl err
         | Inr (x, p) \<Rightarrow> \<exists>b. r = Inr (x, b) \<and> buf_ok b \<and> buf_Bytes b = p \<and> buf_start b = nat (max 0 headroom)) \<and>
        forget_scratch (GCM g') = forget_scratch (GCM (snd (gcm_Decode clock g aad w))) \<and> scratch_ok (GCM g')))"
proof (intro conjI allI impI)
  have op: "outgoing_opcode peerID = (if peerID = None then OpcodeDataV1 else OpcodeDataV2)" by (simp add: outgoing_opcode_def)
  obtain r c' where run: "encodeDataPacket B C rand c transport keyID peerID packetID payload = (r, c')" by fastforce
  show "case encodeDataPacket B C rand c transport keyID peerID packetID payload of (r, c') \<Rightarrow>
      (case codec_Encode C rand c packetID (outgoing_aad keyID peerID) (buf_Bytes payload) of
         Inl err \<Rightarrow> r = Inl err
       | Inr w \<Rightarrow> \<exists>b packet. r = Inr b \<and> buf_ok b \<and> transport \<le> buf_start b \<and> ParsePacketView (buf_Bytes b) = Inr packet \<and>
           Opcode packet = (if peerID = None then OpcodeDataV1 else OpcodeDataV2) \<and> KeyID packet = keyID \<and>
           incoming_aad packet = outgoing_aad keyID peerID \<and> Payload packet = w) \<and>
      forget_scratch c' = forget_scratch c \<and> scratch_ok c'"
    unfolding run prod.case op [symmetric] by (rule data_packet_refines [OF assms run])
next
  fix g and aad w :: bytes and headroom
  assume a: "c = GCM g \<and> length aad \<le> 4"
  obtain r g' where run: "gcm_DecodeBuffer B clock g aad w headroom = (r, g')" by fastforce
  have "scratch_ok (GCM g)" "length aad \<le> 4" using a assms(3) by (simp_all only:)
  from gcm_DecodeBuffer_refines [OF assms(1) this run]
  show "case gcm_DecodeBuffer B clock g aad w headroom of (r, g') \<Rightarrow>
        (case fst (gcm_Decode clock g aad w) of
           Inl err \<Rightarrow> r = Inl err
         | Inr (x, p) \<Rightarrow> \<exists>b. r = Inr (x, b) \<and> buf_ok b \<and> buf_Bytes b = p \<and> buf_start b = nat (max 0 headroom)) \<and>
        forget_scratch (GCM g') = forget_scratch (GCM (snd (gcm_Decode clock g aad w))) \<and> scratch_ok (GCM g')"
    unfolding run prod.case .
qed

text \<open>Buffers that meet the documented behaviour, and a payload buffer without any room.\<close>

definition sample_buf :: buf_api where
  "sample_buf =
     \<lparr>NewSize = (\<lambda>n. \<lparr>buf_data = replicate n 0, buf_start = 0, buf_end = 0, buf_capacity = n\<rparr>),
      Resize = (\<lambda>s n b. b\<lparr>buf_start := s, buf_end := s + n\<rparr>),
      Write = (\<lambda>p b. b\<lparr>buf_data := go_copy (buf_data b) (buf_end b) p, buf_end := buf_end b + length p\<rparr>),
      Truncate = (\<lambda>n b. b\<lparr>buf_end := buf_start b + n\<rparr>),
      ExtendHeader = (\<lambda>n b. if n \<le> buf_start b then Some (b\<lparr>buf_start := buf_start b - n\<rparr>) else None)\<rparr>"

definition full_buffer :: Buffer where
  "full_buffer = \<lparr>buf_data = [0x45], buf_start = 0, buf_end = 1, buf_capacity = 1\<rparr>"

lemma sample_buf_ok: "buf_api_ok sample_buf" "buf_ok full_buffer" "buf_Bytes full_buffer = [0x45]"
  by (simp_all add: buf_api_ok_def sample_buf_def buf_ok_def full_buffer_def buf_Bytes_def buf_Len_def)

lemma sample_open_ok: "open_ok sample_crypto"
  by (auto simp: open_ok_def sample_crypto_def split: if_splits)

theorem buffer_variants_refine_witness:
  "\<exists>c b packet. newTLSDataCodec sample_crypto 0 (replicate 256 0) False ''AES-128-GCM'' [] 0 0 = Inr c \<and>
     fst (encodeDataPacket sample_buf sample_crypto zero_random c 2 3 (Some 7) 1 full_buffer) = Inr b \<and> 2 \<le> buf_start b \<and>
     ParsePacketView (buf_Bytes b) = Inr packet \<and> KeyID packet = 3 \<and>
     codec_Encode sample_crypto zero_random c 1 (outgoing_aad 3 (Some 7)) [0x45] = Inr (Payload packet)"
proof -
  obtain g where c: "newTLSDataCodec sample_crypto 0 (replicate 256 0) False ''AES-128-GCM'' [] 0 0 = Inr (GCM g)"
    "NonceSize (sendAEAD g) = 12" "Seal (sendAEAD g) = (\<lambda>_ p _. p @ replicate 16 0)"
    by (simp add: newTLSDataCodec_def newTLSGCMDataCodec_def sample_crypto_def gcm_codec_def splitStaticKeyMaterial_def
        tlsDataKeySlots_def dataReplayWindowParameters_def Let_def split: prod.splits)
  have s: "scratch_ok (GCM g)" by (rule new_codec_scratch [OF sample_crypto_ok sample_open_ok c(1)])
  obtain w where w: "codec_Encode sample_crypto zero_random (GCM g) 1 (outgoing_aad 3 (Some 7)) [0x45] = Inr w"
    by (simp add: gcm_Encode_def c tlsDataAEADTagSize_def Let_def)
  obtain r c' where run: "encodeDataPacket sample_buf sample_crypto zero_random (GCM g) 2 3 (Some 7) 1 full_buffer = (r, c')" by fastforce
  have "\<exists>b packet. r = Inr b \<and> buf_ok b \<and> 2 \<le> buf_start b \<and> ParsePacketView (buf_Bytes b) = Inr packet \<and>
      Opcode packet = OpcodeDataV2 \<and> KeyID packet = 3 \<and>
      incoming_aad packet = outgoing_aad 3 (Some 7) \<and> Payload packet = w"
    using buffer_variants_refine [OF sample_buf_ok(1,2) s, where keyID = 3 and C = sample_crypto and rand = zero_random and transport = 2 and
        peerID = "Some 7" and packetID = 1] w run sample_buf_ok(3)
    by (simp del: scratch_ok.simps forget_scratch.simps codec_Encode.simps)
  then show ?thesis using c(1) w run by auto
qed

end
