(* ===== verification/Mss_Clamp.thy ===== *)
theory Mss_Clamp
  imports Prelude
begin

text \<open>
  Clamping of the TCP maximum segment size in tunnelled packets (mss\_clamp.go): locating a SYN
  segment in an IPv4 or IPv6 packet, walking its options, rewriting MSS values above the limit
  and updating the checksum incrementally. A slice of the packet that is written in place is a list
  that is returned updated.
\<close>

section \<open>Definitions\<close>

definition ipHeaderVersionIPv4 :: byte where "ipHeaderVersionIPv4 = 4"
definition ipHeaderVersionIPv6 :: byte where "ipHeaderVersionIPv6 = 6"
definition ipv4HeaderMinLength :: nat where "ipv4HeaderMinLength = 20"
definition ipv6HeaderLength :: nat where "ipv6HeaderLength = 40"
definition ipProtocolTCP :: byte where "ipProtocolTCP = 6"
definition udpHeaderLength :: nat where "udpHeaderLength = 8"
definition tcpHeaderMinLength :: nat where "tcpHeaderMinLength = 20"
definition tcpChecksumOffset :: nat where "tcpChecksumOffset = 16"
definition tcpFlagSYN :: byte where "tcpFlagSYN = 0x02"
definition tcpOptionKindEnd :: byte where "tcpOptionKindEnd = 0"
definition tcpOptionKindNOP :: byte where "tcpOptionKindNOP = 1"
definition tcpOptionKindMSS :: byte where "tcpOptionKindMSS = 2"
definition tcpMSSOptionLength :: nat where "tcpMSSOptionLength = 4"

lemmas mss_consts = ipv4HeaderMinLength_def ipv6HeaderLength_def tcpHeaderMinLength_def
  tcpChecksumOffset_def tcpMSSOptionLength_def

record mssClamp =
  enabled :: bool
  maximumSegmentSize :: u16

text \<open>\<open>binary.BigEndian.PutUint16\<close> into two bytes of a slice.\<close>

definition store_u16 :: "bytes \<Rightarrow> nat \<Rightarrow> u16 \<Rightarrow> bytes" where
  "store_u16 bs i v = bs[i := ucast (drop_bit 8 v), Suc i := ucast v]"

lemma unat_low_high:
  "unat (s AND 0xffff :: u32) = unat s mod 65536" "unat (drop_bit 16 (s :: u32)) = unat s div 65536"
proof -
  have "s AND 0xffff = take_bit 16 s" by (simp add: take_bit_eq_mask mask_eq_exp_minus_1)
  then show "unat (s AND 0xffff) = unat s mod 65536" by (simp add: take_bit_eq_mod unat_mod)
  show "unat (drop_bit 16 s) = unat s div 65536" by (simp add: drop_bit_eq_div unat_div)
qed

lemma unat_fold_step:
  "unat ((s AND 0xffff) + drop_bit 16 s :: u32) = unat s mod 65536 + unat s div 65536"
proof -
  have "unat s div 65536 < 65536" using unsigned_less [of s, where 'a = nat] by simp
  then have "unat (s AND 0xffff) + unat (drop_bit 16 s) < 2 ^ LENGTH(32)"
    unfolding unat_low_high by simp
  then show ?thesis by (simp add: unat_word_ariths unat_low_high)
qed

function fold_carry :: "u32 \<Rightarrow> u32" where
  "fold_carry s = (if drop_bit 16 s \<noteq> 0 then fold_carry ((s AND 0xffff) + drop_bit 16 s) else s)"
  by pat_completeness auto
termination
proof (relation "measure unat")
  fix s :: u32 assume "drop_bit 16 s \<noteq> 0"
  then have "unat s div 65536 \<noteq> 0" by (metis unat_low_high(2) unat_0_iff)
  moreover have "unat s = 65536 * (unat s div 65536) + unat s mod 65536" by simp
  ultimately show "((s AND 0xffff) + drop_bit 16 s, s) \<in> measure unat"
    unfolding in_measure unat_fold_step by linarith
qed simp

declare fold_carry.simps [simp del]

definition incrementallyUpdateChecksum16 :: "u16 \<Rightarrow> u16 \<Rightarrow> u16 \<Rightarrow> u16" where
  "incrementallyUpdateChecksum16 currentChecksum oldWord newWord =
     (let s = ucast (NOT currentChecksum) + ucast (NOT oldWord) + ucast newWord :: u32
      in NOT (ucast (fold_carry s)))"

definition ReverseBytes16 :: "u16 \<Rightarrow> u16" where
  "ReverseBytes16 v = push_bit 8 v OR drop_bit 8 v"

definition updateTCPChecksumForFieldRewrite :: "bytes \<Rightarrow> nat \<Rightarrow> u16 \<Rightarrow> u16 \<Rightarrow> bytes" where
  "updateTCPChecksumForFieldRewrite tcpSegment fieldOffset previousValue updatedValue =
     (let (previousValue, updatedValue) =
            (if fieldOffset mod 2 \<noteq> 0 then (ReverseBytes16 previousValue, ReverseBytes16 updatedValue)
             else (previousValue, updatedValue));
          currentChecksum = get_u16 (drop tcpChecksumOffset tcpSegment);
          updatedChecksum = incrementallyUpdateChecksum16 currentChecksum previousValue updatedValue
      in store_u16 tcpSegment tcpChecksumOffset updatedChecksum)"

function clamp_loop :: "nat \<Rightarrow> u16 \<Rightarrow> bytes \<Rightarrow> bool \<Rightarrow> nat \<Rightarrow> bool \<times> bytes" where
  "clamp_loop dataOffset maxSegmentSize tcpSegment clamped optionOffset =
     (if dataOffset \<le> optionOffset then (clamped, tcpSegment)
      else
        let kind = tcpSegment ! optionOffset in
        if kind = tcpOptionKindEnd then (clamped, tcpSegment)
        else if kind = tcpOptionKindNOP
        then clamp_loop dataOffset maxSegmentSize tcpSegment clamped (optionOffset + 1)
        else if dataOffset \<le> optionOffset + 1 then (clamped, tcpSegment)
        else
          let optionLength = unat (tcpSegment ! (optionOffset + 1)) in
          if optionLength < 2 \<or> dataOffset < optionOffset + optionLength then (clamped, tcpSegment)
          else if kind \<noteq> tcpOptionKindMSS \<or> optionLength \<noteq> tcpMSSOptionLength
          then clamp_loop dataOffset maxSegmentSize tcpSegment clamped (optionOffset + optionLength)
          else
            let valueOffset = optionOffset + 2;
                advertisedMSS = get_u16 (drop valueOffset tcpSegment)
            in if maxSegmentSize < advertisedMSS
               then clamp_loop dataOffset maxSegmentSize
                      (updateTCPChecksumForFieldRewrite (store_u16 tcpSegment valueOffset maxSegmentSize)
                         valueOffset advertisedMSS maxSegmentSize)
                      True (optionOffset + optionLength)
               else clamp_loop dataOffset maxSegmentSize tcpSegment clamped (optionOffset + optionLength))"
  by pat_completeness auto
termination
  by (relation "measure (\<lambda>(d, m, s, c, i). d - i)") auto

declare clamp_loop.simps [simp del]

definition clampTCPSYNSegmentMSS :: "bytes \<Rightarrow> u16 \<Rightarrow> bool \<times> bytes" where
  "clampTCPSYNSegmentMSS tcpSegment maxSegmentSize =
     (let dataOffset = unat (drop_bit 4 (tcpSegment ! 12)) * 4 in
      if dataOffset < tcpHeaderMinLength \<or> length tcpSegment < dataOffset then (False, tcpSegment)
      else clamp_loop dataOffset maxSegmentSize tcpSegment False tcpHeaderMinLength)"

text \<open>The length of the IP header in front of the SYN segment, when there is one.\<close>

definition locateTCPSYNSegment :: "bytes \<Rightarrow> nat option" where
  "locateTCPSYNSegment packet =
     (if length packet < 1 then None
      else
        case (if drop_bit 4 (packet ! 0) = ipHeaderVersionIPv4 then
                (if length packet < ipv4HeaderMinLength then None
                 else if unat (get_u16 (drop 2 packet)) \<noteq> length packet \<or>
                         get_u16 (drop 6 packet) AND 0x3fff \<noteq> 0 then None
                 else
                   let ihl = unat (packet ! 0 AND 0x0f) * 4 in
                   if ihl < ipv4HeaderMinLength \<or> length packet < ihl then None
                   else if packet ! 9 \<noteq> ipProtocolTCP then None
                   else Some ihl)
              else if drop_bit 4 (packet ! 0) = ipHeaderVersionIPv6 then
                (if length packet < ipv6HeaderLength then None
                 else if unat (get_u16 (drop 4 packet)) + ipv6HeaderLength \<noteq> length packet then None
                 else if packet ! 6 \<noteq> ipProtocolTCP then None
                 else Some ipv6HeaderLength)
              else None) of
          None \<Rightarrow> None
        | Some ipHeaderLength \<Rightarrow>
            let tcpSegment = drop ipHeaderLength packet in
            if length tcpSegment < tcpHeaderMinLength then None
            else if tcpSegment ! 13 AND tcpFlagSYN = 0 then None
            else Some ipHeaderLength)"

definition ApplyInPlace :: "mssClamp \<Rightarrow> bytes \<Rightarrow> bool \<times> bytes" where
  "ApplyInPlace c packet =
     (if \<not> enabled c then (False, packet)
      else
        let effectiveMaxSegmentSize =
              (if 1 \<le> length packet \<and> drop_bit 4 (packet ! 0) = ipHeaderVersionIPv6
               then maximumSegmentSize c - of_nat (ipv6HeaderLength - ipv4HeaderMinLength)
               else maximumSegmentSize c)
        in case locateTCPSYNSegment packet of
             None \<Rightarrow> (False, packet)
           | Some h \<Rightarrow>
               (case clampTCPSYNSegmentMSS (drop h packet) effectiveMaxSegmentSize of
                  (clamped, tcpSegment) \<Rightarrow> (clamped, take h packet @ tcpSegment)))"

definition mss_Apply :: "mssClamp \<Rightarrow> bytes \<Rightarrow> bytes" where
  "mss_Apply c packet =
     (if \<not> enabled c then packet
      else case ApplyInPlace c packet of
             (clamped, clonedPacket) \<Rightarrow> if \<not> clamped then packet else clonedPacket)"

section \<open>One's complement arithmetic\<close>

text \<open>
  A segment's checksum is right when the sum of its 16-bit words and of the pseudo header is 0
  modulo 65535. \<open>wsum\<close> is that sum over the segment, byte by byte.
\<close>

definition weight :: "nat \<Rightarrow> int" where
  "weight i = (if even i then 256 else 1)"

definition wsum :: "bytes \<Rightarrow> int" where
  "wsum bs = (\<Sum>i < length bs. int (unat (bs ! i)) * weight i)"

lemma wsum_update:
  assumes "i < length bs"
  shows "wsum (bs[i := b]) = wsum bs + (int (unat b) - int (unat (bs ! i))) * weight i"
proof -
  have "wsum (bs[i := b]) =
        (\<Sum>j < length bs. if j = i then int (unat b) * weight i else int (unat (bs ! j)) * weight j)"
    unfolding wsum_def length_list_update by (rule sum.cong) (auto simp: nth_list_update)
  also have "\<dots> = wsum bs - int (unat (bs ! i)) * weight i + int (unat b) * weight i"
    using assms unfolding wsum_def by (rule sum_update)
  finally show ?thesis by (simp add: algebra_simps)
qed

lemma fold_carry_mod: "unat (fold_carry s) mod 65535 = unat s mod 65535 \<and> unat (fold_carry s) < 65536"
proof (induction s rule: fold_carry.induct)
  case (1 s)
  show ?case
  proof (cases "drop_bit 16 s = 0")
    case True
    then have "unat s div 65536 = 0" by (metis unat_low_high(2) unat_0)
    then show ?thesis using True by (simp add: fold_carry.simps [of s] div_eq_0_iff)
  next
    case False
    have "unat s = (unat s mod 65536 + unat s div 65536) + (unat s div 65536) * 65535"
      using mult_div_mod_eq [of 65536 "unat s"] by linarith
    then have "(unat s mod 65536 + unat s div 65536) mod 65535 = unat s mod 65535"
      by (metis mod_mult_self1)
    then show ?thesis using 1 False by (simp add: fold_carry.simps [of s] unat_fold_step)
  qed
qed

lemma incremental_checksum:
  "int (unat (incrementallyUpdateChecksum16 hc old new)) mod 65535 =
   (int (unat hc) + int (unat old) - int (unat new)) mod 65535"
proof -
  let ?s = "ucast (NOT hc) + ucast (NOT old) + ucast new :: u32"
  have b: "unat hc < 65536" "unat old < 65536" "unat new < 65536"
    using unsigned_less [of hc, where 'a = nat] unsigned_less [of old, where 'a = nat]
      unsigned_less [of new, where 'a = nat] by simp_all
  have up: "unat (ucast x :: u32) = unat x" for x :: u16
  proof -
    have "unat x < 2 ^ 32" using unsigned_less [of x, where 'a = nat] by simp
    then show ?thesis by (simp add: unsigned_ucast_eq take_bit_nat_eq_self)
  qed
  have n: "unat (NOT x) = 65535 - unat x" for x :: u16 by (simp add: unat_not)
  have s: "unat ?s = (65535 - unat hc) + (65535 - unat old) + unat new"
    using b unfolding unat_word_ariths up n by simp
  have f: "unat (fold_carry ?s) mod 65535 = unat ?s mod 65535" "unat (fold_carry ?s) < 65536"
    using fold_carry_mod [of ?s] by simp_all
  have down: "unat (ucast (fold_carry ?s) :: u16) = unat (fold_carry ?s)"
    using f(2) by (simp add: unsigned_ucast_eq take_bit_nat_eq_self)
  have r: "int (unat (incrementallyUpdateChecksum16 hc old new)) = 65535 - int (unat (fold_carry ?s))"
    using f(2) unfolding incrementallyUpdateChecksum16_def Let_def n down by simp
  have "int (unat (fold_carry ?s)) mod 65535 = int (unat ?s) mod 65535"
    using arg_cong [OF f(1), of int] unfolding of_nat_mod of_nat_numeral .
  then obtain k where "int (unat (fold_carry ?s)) - int (unat ?s) = 65535 * k"
    by (metis dvdE mod_eq_dvd_iff)
  moreover have "int (unat ?s) = 131070 - int (unat hc) - int (unat old) + int (unat new)"
    unfolding s using b by simp
  ultimately have "(65535 - int (unat (fold_carry ?s))) - (int (unat hc) + int (unat old) - int (unat new)) =
      65535 * (- 1 - k)"
    by (simp add: algebra_simps)
  then show ?thesis unfolding r by (metis dvd_triv_left mod_eq_dvd_iff)
qed

text \<open>Rewriting a field and the checksum together keeps the sum.\<close>

lemma bytes_of_u16: "256 * unat (ucast (drop_bit 8 v) :: byte) + unat (ucast v :: byte) = unat (v :: u16)"
  using unat_get_u16 [of "ucast (drop_bit 8 v)" "ucast v" "[]"] u16_field.dec_enc_exact [of v]
  by (simp add: put_u16_def)

lemma get_u16_drop: "Suc i < length bs \<Longrightarrow> unat (get_u16 (drop i bs)) = 256 * unat (bs ! i) + unat (bs ! Suc i)"
  using unat_get_u16 [of "bs ! i" "bs ! Suc i" "drop (Suc (Suc i)) bs"]
  by (simp add: Cons_nth_drop_Suc Suc_lessD)

lemma unat_reverse: "unat (ReverseBytes16 v) = unat (ucast (drop_bit 8 v) :: byte) + 256 * unat (ucast v :: byte)"
proof -
  have "ReverseBytes16 v = get_u16 [ucast v, ucast (drop_bit 8 v)]"
    by (rule bit_word_eqI) (auto simp: ReverseBytes16_def bit_simps dest: bit_imp_le_length)
  then show ?thesis using unat_get_u16 [of "ucast v" "ucast (drop_bit 8 v)" "[]"] by simp
qed

definition field_value :: "nat \<Rightarrow> u16 \<Rightarrow> int" where
  "field_value i v = int (unat (if i mod 2 \<noteq> 0 then ReverseBytes16 v else v))"

lemma wsum_store:
  assumes "Suc i < length bs"
  shows "wsum (store_u16 bs i v) = wsum bs + field_value i v - field_value i (get_u16 (drop i bs))"
proof -
  let ?w = "get_u16 (drop i bs)"
  have hi: "ucast (drop_bit 8 ?w) = bs ! i" "ucast ?w = bs ! Suc i"
    using assms put_u16_get [of "bs ! i" "bs ! Suc i"]
    by (simp_all add: Cons_nth_drop_Suc [symmetric] Suc_lessD put_u16_def)
  have "wsum (store_u16 bs i v) = wsum bs
      + (int (unat (ucast (drop_bit 8 v) :: byte)) - int (unat (bs ! i))) * weight i
      + (int (unat (ucast v :: byte)) - int (unat (bs ! Suc i))) * weight (Suc i)"
    using assms by (simp add: store_u16_def wsum_update nth_list_update)
  moreover have "field_value i x = int (unat (ucast (drop_bit 8 x) :: byte)) * weight i +
      int (unat (ucast x :: byte)) * weight (Suc i)" for x
  proof (cases "even i")
    case True
    then have "field_value i x = int (unat x)" by (simp add: field_value_def even_iff_mod_2_eq_zero)
    also have "\<dots> = 256 * int (unat (ucast (drop_bit 8 x) :: byte)) + int (unat (ucast x :: byte))"
      using arg_cong [OF bytes_of_u16 [of x], of int] by linarith
    finally show ?thesis using True by (simp add: weight_def)
  next
    case False
    then have "field_value i x = int (unat (ReverseBytes16 x))"
      by (simp add: field_value_def odd_iff_mod_2_eq_one)
    also have "\<dots> = int (unat (ucast (drop_bit 8 x) :: byte)) + 256 * int (unat (ucast x :: byte))"
      using arg_cong [OF unat_reverse [of x], of int] by linarith
    finally show ?thesis using False by (simp add: weight_def)
  qed
  ultimately show ?thesis by (simp only: left_diff_distrib hi)
qed

lemma length_store [simp]: "length (store_u16 bs i v) = length bs"
  by (simp add: store_u16_def)

lemma nth_store: "j \<noteq> i \<Longrightarrow> j \<noteq> Suc i \<Longrightarrow> store_u16 bs i v ! j = bs ! j"
  by (simp add: store_u16_def)

lemma get_store:
  assumes "Suc i < length bs"
  shows "get_u16 (drop i (store_u16 bs i v)) = v"
proof -
  have "drop i (store_u16 bs i v) = put_u16 v @ drop (Suc (Suc i)) bs"
    using assms by (intro nth_equalityI) (auto simp: store_u16_def put_u16_def nth_list_update nth_Cons split: nat.split)
  then show ?thesis by simp
qed

text \<open>One rewrite of clampTCPSYNSegmentMSS: the value and then the checksum.\<close>

definition rewrite_mss :: "bytes \<Rightarrow> nat \<Rightarrow> u16 \<Rightarrow> bytes" where
  "rewrite_mss seg i m =
     updateTCPChecksumForFieldRewrite (store_u16 seg i m) i (get_u16 (drop i seg)) m"

lemma rewrite_mss_eq:
  "\<exists>hc. rewrite_mss seg i m = store_u16 (store_u16 seg i m) 16 hc"
  by (auto simp: rewrite_mss_def updateTCPChecksumForFieldRewrite_def Let_def mss_consts)

lemma length_rewrite [simp]: "length (rewrite_mss seg i m) = length seg"
  using rewrite_mss_eq [of seg i m] by auto

lemma nth_rewrite: "j \<notin> {16, 17, i, Suc i} \<Longrightarrow> rewrite_mss seg i m ! j = seg ! j"
  using rewrite_mss_eq [of seg i m] by (auto simp: nth_store)

lemma get_rewrite:
  assumes "Suc i < length seg" "18 \<le> i"
  shows "get_u16 (drop i (rewrite_mss seg i m)) = m"
proof -
  obtain hc where hc: "rewrite_mss seg i m = store_u16 (store_u16 seg i m) 16 hc" using rewrite_mss_eq by blast
  have "drop i (store_u16 (store_u16 seg i m) 16 hc) = drop i (store_u16 seg i m)"
    using assms(2) by (simp add: store_u16_def [of _ 16] drop_update_cancel)
  then show ?thesis using assms(1) by (simp add: hc get_store)
qed

lemma wsum_rewrite:
  assumes "Suc i < length seg" "18 \<le> i"
  shows "wsum (rewrite_mss seg i m) mod 65535 = wsum seg mod 65535"
proof -
  let ?s1 = "store_u16 seg i m" and ?adv = "get_u16 (drop i seg)"
  let ?hc = "get_u16 (drop 16 ?s1)"
  let ?prev = "if i mod 2 \<noteq> 0 then ReverseBytes16 ?adv else ?adv"
  let ?upd = "if i mod 2 \<noteq> 0 then ReverseBytes16 m else m"
  let ?hc' = "incrementallyUpdateChecksum16 ?hc ?prev ?upd"
  have rw: "rewrite_mss seg i m = store_u16 ?s1 16 ?hc'"
    by (simp add: rewrite_mss_def updateTCPChecksumForFieldRewrite_def Let_def mss_consts)
  have len: "Suc 16 < length ?s1" using assms by simp
  have even: "field_value 16 x = int (unat x)" for x by (simp add: field_value_def)
  have "wsum (store_u16 ?s1 16 ?hc') = wsum ?s1 + int (unat ?hc') - int (unat ?hc)"
    using wsum_store [OF len, of ?hc'] by (simp only: even)
  also have "wsum ?s1 = wsum seg + int (unat ?upd) - int (unat ?prev)"
    using wsum_store [OF assms(1), of m] by (simp only: field_value_def)
  finally have "wsum (rewrite_mss seg i m) =
      wsum seg + (int (unat ?hc') - (int (unat ?hc) + int (unat ?prev) - int (unat ?upd)))"
    unfolding rw by linarith
  moreover have "65535 dvd int (unat ?hc') - (int (unat ?hc) + int (unat ?prev) - int (unat ?upd))"
    using incremental_checksum [of ?hc ?prev ?upd] by (simp only: mod_eq_dvd_iff)
  ultimately show ?thesis by (simp add: mod_eq_dvd_iff)
qed

section \<open>The option walk\<close>

text \<open>The offsets of the MSS values that the walk reaches.\<close>

function mss_offsets :: "nat \<Rightarrow> bytes \<Rightarrow> nat \<Rightarrow> nat list" where
  "mss_offsets d seg i =
     (if d \<le> i \<or> seg ! i = tcpOptionKindEnd then []
      else if seg ! i = tcpOptionKindNOP then mss_offsets d seg (i + 1)
      else if d \<le> i + 1 \<or> unat (seg ! (i + 1)) < 2 \<or> d < i + unat (seg ! (i + 1)) then []
      else (if seg ! i = tcpOptionKindMSS \<and> unat (seg ! (i + 1)) = tcpMSSOptionLength then [i + 2] else []) @
           mss_offsets d seg (i + unat (seg ! (i + 1))))"
  by pat_completeness auto
termination by (relation "measure (\<lambda>(d, s, i). d - i)") auto

declare mss_offsets.simps [simp del]

definition mss_values :: "nat \<Rightarrow> bytes \<Rightarrow> nat \<Rightarrow> u16 list" where
  "mss_values d seg i = map (\<lambda>o'. get_u16 (drop o' seg)) (mss_offsets d seg i)"

definition walk_stops :: "nat \<Rightarrow> bytes \<Rightarrow> nat \<Rightarrow> bool" where
  "walk_stops d seg i =
     (d \<le> i \<or> seg ! i = tcpOptionKindEnd \<or>
      seg ! i \<noteq> tcpOptionKindNOP \<and>
      (d \<le> i + 1 \<or> unat (seg ! (i + 1)) < 2 \<or> d < i + unat (seg ! (i + 1))))"

definition walk_step :: "bytes \<Rightarrow> nat \<Rightarrow> nat" where
  "walk_step seg i = (if seg ! i = tcpOptionKindNOP then 1 else unat (seg ! (i + 1)))"

definition at_mss :: "bytes \<Rightarrow> nat \<Rightarrow> bool" where
  "at_mss seg i = (seg ! i = tcpOptionKindMSS \<and> unat (seg ! (i + 1)) = tcpMSSOptionLength)"

lemmas option_kinds = tcpOptionKindEnd_def tcpOptionKindNOP_def tcpOptionKindMSS_def

lemma mss_offsets_eq:
  "mss_offsets d seg i =
     (if walk_stops d seg i then []
      else (if at_mss seg i then [i + 2] else []) @ mss_offsets d seg (i + walk_step seg i))"
  by (subst mss_offsets.simps) (auto simp: walk_stops_def walk_step_def at_mss_def option_kinds)

lemma walk_step_pos: "\<not> walk_stops d seg i \<Longrightarrow> 0 < walk_step seg i \<and> i + walk_step seg i \<le> d"
  by (auto simp: walk_stops_def walk_step_def)

lemma at_mss_step: "\<not> walk_stops d seg i \<Longrightarrow> at_mss seg i \<Longrightarrow> walk_step seg i = 4"
  by (auto simp: walk_step_def at_mss_def option_kinds mss_consts)

lemma walk_induct [case_names walk]:
  assumes "\<And>i. (\<not> walk_stops d seg i \<Longrightarrow> P (i + walk_step seg i)) \<Longrightarrow> P i"
  shows "P i"
proof (induction "d - i" arbitrary: i rule: less_induct)
  case less
  show ?case
  proof (rule assms)
    assume "\<not> walk_stops d seg i"
    then show "P (i + walk_step seg i)"
      using walk_step_pos [of d seg i] by (intro less.hyps) (auto simp: walk_stops_def)
  qed
qed

lemma mss_offsets_range: "o' \<in> set (mss_offsets d seg i) \<Longrightarrow> i + 2 \<le> o' \<and> o' + 2 \<le> d"
proof (induction i rule: walk_induct [where d = d and seg = seg])
  case (walk i)
  then show ?case
    using mss_offsets_eq [of d seg i] walk_step_pos [of d seg i] at_mss_step [of d seg i]
    by (fastforce split: if_splits)
qed

text \<open>The walk from an offset on depends only on the bytes from there on.\<close>

lemma walk_cong:
  assumes "i < d \<Longrightarrow> seg' ! i = seg ! i" "i + 1 < d \<Longrightarrow> seg' ! (i + 1) = seg ! (i + 1)"
  shows "walk_stops d seg' i = walk_stops d seg i"
    and "\<not> walk_stops d seg i \<Longrightarrow> walk_step seg' i = walk_step seg i"
    and "\<not> walk_stops d seg i \<Longrightarrow> at_mss seg' i = at_mss seg i"
  using assms by (auto simp: walk_stops_def walk_step_def at_mss_def option_kinds not_le)

lemma mss_offsets_cong:
  "(\<And>j. i \<le> j \<Longrightarrow> j < d \<Longrightarrow> seg' ! j = seg ! j) \<Longrightarrow> mss_offsets d seg' i = mss_offsets d seg i"
proof (induction i rule: walk_induct [where d = d and seg = seg])
  case (walk i)
  have cong: "walk_stops d seg' i = walk_stops d seg i" "\<not> walk_stops d seg i \<Longrightarrow> walk_step seg' i = walk_step seg i"
      "\<not> walk_stops d seg i \<Longrightarrow> at_mss seg' i = at_mss seg i"
    using walk_cong [of i d seg' seg] walk.prems by auto
  show ?case
  proof (cases "walk_stops d seg i")
    case True
    then show ?thesis using cong(1) by (simp add: mss_offsets_eq [of d _ i])
  next
    case False
    then have "mss_offsets d seg' (i + walk_step seg i) = mss_offsets d seg (i + walk_step seg i)"
      using walk by simp
    then show ?thesis using False cong by (simp add: mss_offsets_eq [of d _ i])
  qed
qed

text \<open>The loop in the same terms.\<close>

lemma clamp_loop_eq:
  "clamp_loop d m seg c i =
     (if walk_stops d seg i then (c, seg)
      else if at_mss seg i \<and> m < get_u16 (drop (i + 2) seg)
      then clamp_loop d m (rewrite_mss seg (i + 2) m) True (i + walk_step seg i)
      else clamp_loop d m seg c (i + walk_step seg i))"
  by (subst clamp_loop.simps)
     (auto simp: walk_stops_def walk_step_def at_mss_def rewrite_mss_def option_kinds Let_def)

definition clamp_spec :: "nat \<Rightarrow> u16 \<Rightarrow> nat \<Rightarrow> bytes \<Rightarrow> bytes \<Rightarrow> bool" where
  "clamp_spec d m i seg seg' =
     (length seg' = length seg \<and>
      mss_offsets d seg' i = mss_offsets d seg i \<and>
      (\<forall>o' \<in> set (mss_offsets d seg i). get_u16 (drop o' seg') = min m (get_u16 (drop o' seg))) \<and>
      (\<forall>j. j \<notin> {16, 17} \<and> (\<forall>o' \<in> set (mss_offsets d seg i). j \<noteq> o' \<and> j \<noteq> Suc o') \<longrightarrow> seg' ! j = seg ! j) \<and>
      wsum seg' mod 65535 = wsum seg mod 65535)"

lemma get_u16_cong:
  assumes "length s' = length s" "Suc i < length s" "s' ! i = s ! i" "s' ! Suc i = s ! Suc i"
  shows "get_u16 (drop i s') = get_u16 (drop i s)"
  using get_u16_drop [of i s] get_u16_drop [of i s'] assms by (simp add: word_unat_eq_iff)

text \<open>The step at one option, given what the rest of the walk does.\<close>

lemma clamp_spec_step:
  assumes i: "20 \<le> i" "d \<le> length seg" "\<not> walk_stops d seg i"
      and seg1: "seg1 = (if at_mss seg i \<and> m < get_u16 (drop (i + 2) seg) then rewrite_mss seg (i + 2) m else seg)"
      and rest: "clamp_spec d m (i + walk_step seg i) seg1 seg'"
  shows "clamp_spec d m i seg seg'"
proof -
  let ?k = "i + walk_step seg i" and ?v = "i + 2"
  let ?O = "mss_offsets d seg ?k"
  have k: "i < ?k" "?k \<le> d" using walk_step_pos [OF i(3)] by auto
  have v: "at_mss seg i \<Longrightarrow> ?k = i + 4" using at_mss_step [OF i(3)] by simp
  have len: "length seg1 = length seg" by (simp add: seg1)
  have s1: "seg1 ! j = seg ! j" if "j \<notin> {16, 17}" "at_mss seg i \<Longrightarrow> j \<noteq> ?v \<and> j \<noteq> Suc ?v" for j
    using that nth_rewrite [of j ?v seg m] by (auto simp: seg1)
  have O: "mss_offsets d seg1 ?k = ?O" using i(1) k v by (intro mss_offsets_cong s1) auto
  have rng: "?k + 2 \<le> o'" "Suc o' < length seg" if "o' \<in> set ?O" for o'
    using mss_offsets_range [OF that] i(2) by auto
  note r = rest [unfolded clamp_spec_def O len]
  have s1': "seg' ! j = seg1 ! j" if "j \<notin> {16, 17}" "\<forall>o' \<in> set ?O. j \<noteq> o' \<and> j \<noteq> Suc o'" for j
    using r that by blast
  have before: "\<forall>o' \<in> set ?O. j \<noteq> o' \<and> j \<noteq> Suc o'" if "j \<le> ?k" for j
    using rng(1) that by fastforce
  have s': "seg' ! j = seg1 ! j" if "i \<le> j" "j \<le> ?k" for j
    using that i(1) by (intro s1' before) auto
  have two: "i < d \<Longrightarrow> seg' ! i = seg ! i" "i + 1 < d \<Longrightarrow> seg' ! (i + 1) = seg ! (i + 1)"
  proof -
    show "seg' ! i = seg ! i" using s' [of i] s1 [of i] i(1) k by auto
    show "seg' ! (i + 1) = seg ! (i + 1)" using s' [of "i + 1"] s1 [of "i + 1"] i(1) k by auto
  qed
  note c = walk_cong [of i d seg' seg, OF two]
  have off: "mss_offsets d seg i = (if at_mss seg i then [?v] else []) @ ?O"
    "mss_offsets d seg' i = mss_offsets d seg i"
    using i(3) c r by (simp_all add: mss_offsets_eq [of d _ i])
  have val: "get_u16 (drop ?v seg') = min m (get_u16 (drop ?v seg))" if "at_mss seg i"
  proof -
    have "get_u16 (drop ?v seg') = get_u16 (drop ?v seg1)"
      using s' [of ?v] s' [of "Suc ?v"] v that r len k i(2) by (intro get_u16_cong) auto
    also have "\<dots> = min m (get_u16 (drop ?v seg))"
      using get_rewrite [of ?v seg m] v that k i(1,2) by (auto simp: seg1 min_def)
    finally show ?thesis .
  qed
  have vals: "get_u16 (drop o' seg') = min m (get_u16 (drop o' seg))" if "o' \<in> set ?O" for o'
  proof -
    have "get_u16 (drop o' seg1) = get_u16 (drop o' seg)"
      using rng [OF that] v k i(1) len by (intro get_u16_cong s1) auto
    then show ?thesis using r that by simp
  qed
  have same: "seg' ! j = seg ! j" if "j \<notin> {16, 17}" "\<forall>o' \<in> set (mss_offsets d seg i). j \<noteq> o' \<and> j \<noteq> Suc o'" for j
    using that r s1 [of j] unfolding off(1) by auto
  have "wsum seg1 mod 65535 = wsum seg mod 65535"
    using wsum_rewrite [of ?v seg m] v k i(1,2) by (auto simp: seg1)
  then show ?thesis
    unfolding clamp_spec_def using r len off val vals same by (auto split: if_splits)
qed

lemma clamp_loop_spec:
  assumes "20 \<le> i" "d \<le> length seg" "clamp_loop d m seg c i = (c', seg')"
  shows "clamp_spec d m i seg seg' \<and> (seg' = seg \<and> c' = c \<or> c')"
  using assms
proof (induction "d - i" arbitrary: i seg c rule: less_induct)
  case less
  show ?case
  proof (cases "walk_stops d seg i")
    case True
    then have "mss_offsets d seg i = []" by (simp add: mss_offsets_eq [of d seg i])
    then show ?thesis
      using less.prems(3) True by (auto simp: clamp_loop_eq [of d m seg c i] clamp_spec_def)
  next
    case False
    let ?w = "at_mss seg i \<and> m < get_u16 (drop (i + 2) seg)"
    let ?seg1 = "if ?w then rewrite_mss seg (i + 2) m else seg"
    let ?k = "i + walk_step seg i"
    have "clamp_loop d m ?seg1 (c \<or> ?w) ?k = (c', seg')"
      using less.prems(3) False by (auto simp: clamp_loop_eq [of d m seg c i] split: if_splits)
    then have "clamp_spec d m ?k ?seg1 seg' \<and> (seg' = ?seg1 \<and> c' = (c \<or> ?w) \<or> c')"
      using walk_step_pos [OF False] less.prems(1,2) False
      by (intro less.hyps [of ?k ?seg1 "c \<or> ?w"]) (auto simp: walk_stops_def)
    then show ?thesis
      using clamp_spec_step [OF less.prems(1,2) False refl] by auto
  qed
qed

section \<open>Properties\<close>

definition effective_mss :: "mssClamp \<Rightarrow> bytes \<Rightarrow> u16" where
  "effective_mss c packet =
     (if drop_bit 4 (packet ! 0) = ipHeaderVersionIPv6 then maximumSegmentSize c - 20 else maximumSegmentSize c)"

definition tcp_data_offset :: "bytes \<Rightarrow> nat" where
  "tcp_data_offset seg = unat (drop_bit 4 (seg ! 12)) * 4"

lemma locate_bounds:
  assumes "locateTCPSYNSegment packet = Some h"
  shows "packet \<noteq> [] \<and> h + 20 \<le> length packet"
  using assms by (auto simp: locateTCPSYNSegment_def Let_def mss_consts split: if_splits option.splits)

lemma clamp_segment:
  assumes "clampTCPSYNSegmentMSS seg m = (cl, seg')"
  shows "if 20 \<le> tcp_data_offset seg \<and> tcp_data_offset seg \<le> length seg
         then clamp_spec (tcp_data_offset seg) m 20 seg seg' \<and> (cl \<or> seg' = seg) else seg' = seg"
proof (cases "20 \<le> tcp_data_offset seg \<and> tcp_data_offset seg \<le> length seg")
  case True
  then have "clamp_loop (tcp_data_offset seg) m seg False 20 = (cl, seg')"
    using assms by (simp add: clampTCPSYNSegmentMSS_def tcp_data_offset_def Let_def mss_consts)
  then show ?thesis using clamp_loop_spec [of 20 "tcp_data_offset seg" seg m False cl seg'] True by auto
next
  case False
  then show ?thesis
    using assms by (auto simp: clampTCPSYNSegmentMSS_def tcp_data_offset_def Let_def mss_consts)
qed

lemma mss_Apply_segment:
  assumes "enabled c" "locateTCPSYNSegment packet = Some h"
  shows "mss_Apply c packet = take h packet @ snd (clampTCPSYNSegmentMSS (drop h packet) (effective_mss c packet))"
proof -
  let ?m = "effective_mss c packet"
  obtain cl seg' where cl: "clampTCPSYNSegmentMSS (drop h packet) ?m = (cl, seg')" by fastforce
  have "seg' = drop h packet" if "\<not> cl"
    using clamp_segment [OF cl] that by (auto split: if_splits)
  moreover have "(if 1 \<le> length packet \<and> drop_bit 4 (packet ! 0) = ipHeaderVersionIPv6
      then maximumSegmentSize c - of_nat (ipv6HeaderLength - ipv4HeaderMinLength) else maximumSegmentSize c) = ?m"
    using locate_bounds [OF assms(2)] by (auto simp: effective_mss_def mss_consts Suc_le_eq)
  ultimately show ?thesis
    using assms cl by (auto simp: mss_Apply_def ApplyInPlace_def Let_def)
qed

text \<open>
  C18. Clamping a SYN packet does exactly what it should: the IP header and the length stay, every
  MSS value that the option walk reaches becomes the minimum of itself and the limit, no byte other
  than those values and the TCP checksum changes, and the one's complement sum of the segment
  stays the same, so that a correct checksum stays correct, at even and at odd option offsets.
\<close>

theorem mss_clamp_correct:
  assumes "enabled c" "locateTCPSYNSegment packet = Some h"
  shows "let p' = mss_Apply c packet; seg = drop h packet; seg' = drop h p';
             m = effective_mss c packet; d = tcp_data_offset seg;
             os = (if 20 \<le> d \<and> d \<le> length seg then mss_offsets d seg 20 else [])
         in length p' = length packet \<and> take h p' = take h packet \<and>
            (\<forall>i \<in> set os. get_u16 (drop i seg') = min m (get_u16 (drop i seg))) \<and>
            (\<forall>j. j \<notin> {16, 17} \<and> (\<forall>i \<in> set os. j \<noteq> i \<and> j \<noteq> Suc i) \<longrightarrow> seg' ! j = seg ! j) \<and>
            wsum seg' mod 65535 = wsum seg mod 65535"
proof -
  let ?seg = "drop h packet" and ?m = "effective_mss c packet"
  let ?d = "tcp_data_offset ?seg"
  obtain cl seg' where cl: "clampTCPSYNSegmentMSS ?seg ?m = (cl, seg')" by fastforce
  have h: "h \<le> length packet" using locate_bounds [OF assms(2)] by simp
  have p': "mss_Apply c packet = take h packet @ seg'" using mss_Apply_segment [OF assms] cl by simp
  then have d: "drop h (mss_Apply c packet) = seg'" "take h (mss_Apply c packet) = take h packet"
    using h by simp_all
  show ?thesis
  proof (cases "20 \<le> ?d \<and> ?d \<le> length ?seg")
    case True
    then have "clamp_spec ?d ?m 20 ?seg seg'" using clamp_segment [OF cl] by simp
    then show ?thesis unfolding Let_def d clamp_spec_def using True p' h by auto
  next
    case False
    then have "seg' = ?seg" using clamp_segment [OF cl] by (simp only: if_False)
    then show ?thesis unfolding Let_def d if_not_P [OF False] using p' by simp
  qed
qed

text \<open>A minimal IPv4 SYN packet that advertises an MSS of 1460 after a NOP.\<close>

definition sample_syn :: bytes where
  "sample_syn =
     [0x45, 0, 0, 48, 0, 0, 0, 0, 64, 6, 0, 0, 10, 0, 0, 1, 10, 0, 0, 2,
      4, 0, 0, 80, 0, 0, 0, 1, 0, 0, 0, 0, 0x70, 2, 0x20, 0, 0x12, 0x34, 0, 0,
      1, 2, 4, 5, 0xb4, 0, 0, 0]"

theorem mss_clamp_correct_witness:
  "get_u16 (drop 23 (drop 20 (mss_Apply \<lparr>enabled = True, maximumSegmentSize = 1000\<rparr> sample_syn))) = 1000"
proof -
  let ?c = "\<lparr>enabled = True, maximumSegmentSize = 1000\<rparr>"
  let ?seg = "drop 20 sample_syn"
  have loc: "locateTCPSYNSegment sample_syn = Some 20"
    by (simp add: locateTCPSYNSegment_def sample_syn_def mss_consts ipHeaderVersionIPv4_def ipHeaderVersionIPv6_def
          ipProtocolTCP_def tcpFlagSYN_def)
  have d: "tcp_data_offset ?seg = 28" by (simp add: tcp_data_offset_def sample_syn_def)
  have "mss_offsets 28 ?seg 25 = []"
    by (simp add: mss_offsets.simps sample_syn_def option_kinds)
  then have o: "mss_offsets 28 ?seg 20 = [23]"
    by (simp add: mss_offsets.simps [of 28 _ 20] mss_offsets.simps [of 28 _ 21] sample_syn_def option_kinds mss_consts)
  have "effective_mss ?c sample_syn = 1000"
    by (simp add: effective_mss_def sample_syn_def ipHeaderVersionIPv6_def)
  moreover have "get_u16 (drop 23 ?seg) = 1460" by (simp add: sample_syn_def)
  moreover have "length ?seg = 28" by (simp add: sample_syn_def)
  ultimately show ?thesis
    using mss_clamp_correct [of ?c, OF _ loc] by (simp add: Let_def d o min_def)
qed

end
