(* ===== verification/Netip.thy ===== *)
theory Netip
  imports Prelude
begin

text \<open>
  The part of Go's \<open>net/netip\<close> that the address pool, the route registry and the route options use:
  addresses with their family and zone, prefixes, order, successor and predecessor, containment.
  The zero \<open>Addr\<close> and an invalid \<open>Prefix\<close> are values of their own.
\<close>

section \<open>Addresses\<close>

type_synonym u128 = "128 word"

datatype addr = NoAddr | V4 u32 | V6 u128 string

fun IsValid :: "addr \<Rightarrow> bool" where
  "IsValid NoAddr = False"
| "IsValid _ = True"

fun Is4 :: "addr \<Rightarrow> bool" where
  "Is4 (V4 _) = True"
| "Is4 _ = False"

fun Is6 :: "addr \<Rightarrow> bool" where
  "Is6 (V6 _ _) = True"
| "Is6 _ = False"

fun BitLen :: "addr \<Rightarrow> nat" where
  "BitLen NoAddr = 0"
| "BitLen (V4 _) = 32"
| "BitLen (V6 _ _) = 128"

definition is_4in6 :: "u128 \<Rightarrow> bool" where
  "is_4in6 v \<longleftrightarrow> drop_bit 32 v = 0xffff"

fun Unmap :: "addr \<Rightarrow> addr" where
  "Unmap (V6 v z) = (if is_4in6 v then V4 (ucast v) else V6 v z)"
| "Unmap a = a"

fun As4 :: "addr \<Rightarrow> u32" where
  "As4 (V4 v) = v"
| "As4 (V6 v _) = ucast v"
| "As4 NoAddr = 0"

fun addr_Next :: "addr \<Rightarrow> addr" where
  "addr_Next NoAddr = NoAddr"
| "addr_Next (V4 v) = (if v + 1 = 0 then NoAddr else V4 (v + 1))"
| "addr_Next (V6 v z) = (if v + 1 = 0 then NoAddr else V6 (v + 1) z)"

fun addr_Prev :: "addr \<Rightarrow> addr" where
  "addr_Prev NoAddr = NoAddr"
| "addr_Prev (V4 v) = (if v = 0 then NoAddr else V4 (v - 1))"
| "addr_Prev (V6 v z) = (if v = 0 then NoAddr else V6 (v - 1) z)"

text \<open>\<open>a.Compare(b) <= 0\<close>: by family, then by value, then by zone.\<close>

fun zone_le :: "string \<Rightarrow> string \<Rightarrow> bool" where
  "zone_le [] _ = True"
| "zone_le (_ # _) [] = False"
| "zone_le (a # as) (b # bs) = (of_char a < (of_char b :: nat) \<or> a = b \<and> zone_le as bs)"

fun addr_le :: "addr \<Rightarrow> addr \<Rightarrow> bool" where
  "addr_le (V4 v) (V4 w) = (v \<le> w)"
| "addr_le (V6 v z) (V6 w y) = (v < w \<or> v = w \<and> zone_le z y)"
| "addr_le a b = (BitLen a \<le> BitLen b)"

fun IsLinkLocalUnicast :: "addr \<Rightarrow> bool" where
  "IsLinkLocalUnicast NoAddr = False"
| "IsLinkLocalUnicast (V4 v) = (drop_bit 16 v = 0xa9fe)"
| "IsLinkLocalUnicast (V6 v _) =
     (if is_4in6 v then drop_bit 16 (ucast v :: u32) = 0xa9fe else drop_bit 118 v = 0x3fa)"

text \<open>How many successors an address has at most: the measure of the loops over \<open>Next\<close>.\<close>

fun addr_left :: "addr \<Rightarrow> nat" where
  "addr_left NoAddr = 0"
| "addr_left (V4 v) = 2 ^ 32 - unat v"
| "addr_left (V6 v _) = 2 ^ 128 - unat v"

lemma unat_Suc_word:
  fixes v :: "'a::len word"
  assumes "v + 1 \<noteq> 0"
  shows "unat (v + 1) = Suc (unat v)"
  using assms by (simp add: unatSuc add.commute)

lemma addr_left_Next [termination_simp]:
  assumes "IsValid a"
  shows "addr_left (addr_Next a) < addr_left a"
proof (cases a)
  case (V4 v)
  have "unat v < 2 ^ 32" using unsigned_less [of v, where ?'a = nat] by simp
  then show ?thesis using V4 unat_Suc_word [of v] by auto
next
  case (V6 v z)
  have "unat v < 2 ^ 128" using unsigned_less [of v, where ?'a = nat] by simp
  then show ?thesis using V6 unat_Suc_word [of v] by auto
qed (use assms in simp)

section \<open>Prefixes\<close>

text \<open>A valid prefix has an address without zone and at most \<open>BitLen\<close> bits (\<open>PrefixFrom\<close>).\<close>

datatype prefix = NoPrefix | Prefix addr nat

fun without_zone :: "addr \<Rightarrow> addr" where
  "without_zone (V6 v _) = V6 v []"
| "without_zone a = a"

definition PrefixFrom :: "addr \<Rightarrow> int \<Rightarrow> prefix" where
  "PrefixFrom a bits =
     (if \<not> IsValid a \<or> bits < 0 \<or> int (BitLen a) < bits then NoPrefix else Prefix (without_zone a) (nat bits))"

fun prefix_IsValid :: "prefix \<Rightarrow> bool" where
  "prefix_IsValid NoPrefix = False"
| "prefix_IsValid (Prefix _ _) = True"

fun prefix_Addr :: "prefix \<Rightarrow> addr" where
  "prefix_Addr NoPrefix = NoAddr"
| "prefix_Addr (Prefix a _) = a"

fun prefix_Bits :: "prefix \<Rightarrow> int" where
  "prefix_Bits NoPrefix = -1"
| "prefix_Bits (Prefix _ b) = int b"

fun Masked :: "prefix \<Rightarrow> prefix" where
  "Masked (Prefix (V4 v) b) = Prefix (V4 (push_bit (32 - b) (drop_bit (32 - b) v))) b"
| "Masked (Prefix (V6 v z) b) = Prefix (V6 (push_bit (128 - b) (drop_bit (128 - b) v)) []) b"
| "Masked _ = NoPrefix"

fun Contains :: "prefix \<Rightarrow> addr \<Rightarrow> bool" where
  "Contains (Prefix (V4 v) b) (V4 w) = (drop_bit (32 - b) (w XOR v) = 0)"
| "Contains (Prefix (V6 v _) b) (V6 w z) = (z = [] \<and> drop_bit (128 - b) (w XOR v) = 0)"
| "Contains _ _ = False"

lemma IsValid_cases [simp]: "Is4 a \<Longrightarrow> IsValid a" "Is6 a \<Longrightarrow> IsValid a"
  by (cases a; simp)+

lemma Contains_valid: "Contains p a \<Longrightarrow> IsValid a"
  by (cases "(p, a)" rule: Contains.cases) auto

lemma Masked_idem [simp]: "Masked (Masked p) = Masked p"
  by (cases p rule: Masked.cases) (auto intro!: bit_eqI simp: bit_simps)

lemma Masked_Addr4: "prefix_Addr (Masked p) = V4 v \<Longrightarrow> \<exists>w b. p = Prefix (V4 w) b"
  by (cases p rule: Masked.cases) auto

end
