(* ===== verification/Mss_Budget.thy ===== *)
theory Mss_Budget
  imports Data_Channel Framing Mss_Clamp Netip
begin

text \<open>
  How large a TCP segment may be so that its tunnel packet fits (\<open>mss_budget.go\<close>,
  \<open>calculateDataPayloadBudget\<close> of \<open>client_data.go\<close>): a binary search over the exact encoded length of
  the codec in use.
\<close>

definition MSSFixModeFixed :: string where "MSSFixModeFixed = ''fixed''"
definition MSSFixModeMTU :: string where "MSSFixModeMTU = ''mtu''"

section \<open>The search\<close>

function budget_loop :: "(nat \<Rightarrow> nat) \<Rightarrow> int \<Rightarrow> int \<Rightarrow> int \<Rightarrow> int \<Rightarrow> int \<Rightarrow> int" where
  "budget_loop encodedLength packetSize packetHeaderSize fixedPayloadSize minimumPayloadSize maximumPayloadSize =
     (if minimumPayloadSize < maximumPayloadSize then
        let candidatePayloadSize = minimumPayloadSize + (maximumPayloadSize - minimumPayloadSize + 1) div 2;
            encodedPacketLength = packetHeaderSize + int (encodedLength (nat (fixedPayloadSize + candidatePayloadSize)))
        in if encodedPacketLength \<le> packetSize
           then budget_loop encodedLength packetSize packetHeaderSize fixedPayloadSize candidatePayloadSize maximumPayloadSize
           else budget_loop encodedLength packetSize packetHeaderSize fixedPayloadSize minimumPayloadSize (candidatePayloadSize - 1)
      else minimumPayloadSize)"
  by pat_completeness auto
termination
  by (relation "measure (\<lambda>(e, s, h, f, lo, hi). nat (hi - lo))") auto

declare budget_loop.simps [simp del]

definition calculateDataPayloadBudget :: "int \<Rightarrow> dataCodec \<Rightarrow> int \<Rightarrow> int \<Rightarrow> int" where
  "calculateDataPayloadBudget packetSize codec packetHeaderSize fixedPayloadSize =
     (let minimumPacketLength = packetHeaderSize + int (codec_EncodedLength codec (nat fixedPayloadSize))
      in if packetSize \<le> minimumPacketLength then packetSize - minimumPacketLength
         else budget_loop (codec_EncodedLength codec) packetSize packetHeaderSize fixedPayloadSize 1 packetSize)"

definition calculateMSSClamp :: "u32 \<Rightarrow> string \<Rightarrow> dataChannelFraming option \<Rightarrow> dataCodec \<Rightarrow> int \<Rightarrow> int \<Rightarrow> mssClamp" where
  "calculateMSSClamp mssFix mssFixMode dataFraming codec packetHeaderSize outerTransportOverhead =
     (if mssFix = 0 then \<lparr>enabled = False, maximumSegmentSize = 0\<rparr>
      else if mssFixMode = MSSFixModeFixed
      then \<lparr>enabled = True, maximumSegmentSize = ucast (mssFix - of_nat ipv4HeaderMinLength - of_nat tcpHeaderMinLength)\<rparr>
      else
        let packetHeaderSize = (if mssFixMode = MSSFixModeMTU then packetHeaderSize + outerTransportOverhead else packetHeaderSize);
            payloadBudget = calculateDataPayloadBudget (uint mssFix) codec packetHeaderSize
              (int (ipv4HeaderMinLength + tcpHeaderMinLength + payloadOverhead dataFraming))
        in \<lparr>enabled = True, maximumSegmentSize = word_of_int payloadBudget\<rparr>)"

text \<open>\<open>remoteIP\<close> is the address part of \<open>M.SocksaddrFromNet(remoteAddress)\<close>.\<close>

definition openVPNOuterTransportOverhead :: "string \<Rightarrow> addr \<Rightarrow> int" where
  "openVPNOuterTransportOverhead protocol remoteIP =
     (let remoteIP = Unmap remoteIP;
          ipHeaderSize = (if Is6 remoteIP \<or> \<not> IsValid remoteIP \<and> HasSuffix protocol ''6''
                          then ipv6HeaderLength else ipv4HeaderMinLength)
      in if HasPrefix protocol ''tcp'' then int (ipHeaderSize + tcpHeaderMinLength)
         else int (ipHeaderSize + udpHeaderLength))"

section \<open>The search finds the maximum\<close>


lemma protected_length_mono: "a \<le> b \<Longrightarrow> protected_length blk a \<le> protected_length blk b"
  by (auto simp: protected_length_def Let_def div_le_mono split: option.splits)


lemma codec_EncodedLength_mono: "a \<le> b \<Longrightarrow> codec_EncodedLength c a \<le> codec_EncodedLength c b"
  by (cases c) (simp_all add: gcm_EncodedLength_def cbc_EncodedLength_def stream_EncodedLength_def
      static_EncodedLength_def protected_length_mono)


definition packet_length :: "dataCodec \<Rightarrow> int \<Rightarrow> int \<Rightarrow> int \<Rightarrow> int" where
  "packet_length c h f k = h + int (codec_EncodedLength c (nat (f + k)))"

lemma packet_length_mono: "j \<le> k \<Longrightarrow> packet_length c h f j \<le> packet_length c h f k"
  by (simp add: packet_length_def codec_EncodedLength_mono nat_mono)

lemma budget_loop_spec:
  assumes "lo \<le> hi" "lo = 1 \<or> packet_length c h f lo \<le> s" "\<forall>k > hi. s < packet_length c h f k"
  shows "let r = budget_loop (codec_EncodedLength c) s h f lo hi
         in lo \<le> r \<and> (r = 1 \<or> packet_length c h f r \<le> s) \<and> (\<forall>k > r. s < packet_length c h f k)"
  using assms
proof (induction "nat (hi - lo)" arbitrary: lo hi rule: less_induct)
  case less
  show ?case
  proof (cases "lo < hi")
    case True
    define m where "m = lo + (hi - lo + 1) div 2"
    have m: "lo < m" "m \<le> hi" using True by (simp_all add: m_def)
    have eq: "budget_loop (codec_EncodedLength c) s h f lo hi =
        (if packet_length c h f m \<le> s then budget_loop (codec_EncodedLength c) s h f m hi
         else budget_loop (codec_EncodedLength c) s h f lo (m - 1))"
      using True by (subst budget_loop.simps) (simp add: m_def packet_length_def Let_def)
    show ?thesis
    proof (cases "packet_length c h f m \<le> s")
      case fits: True
      then show ?thesis using less.hyps [of hi m] less.prems m eq by (force simp: Let_def)
    next
      case False
      have "s < packet_length c h f k" if "m - 1 < k" for k
        using that False packet_length_mono [of m k c h f] by simp
      then show ?thesis using less.hyps [of "m - 1" lo] less.prems m eq False by (force simp: Let_def)
    qed
  next
    case False
    then show ?thesis using less.prems by (subst budget_loop.simps) (auto simp: Let_def)
  qed
qed

section \<open>Properties\<close>


text \<open>
  The lower bound is not always a payload that fits: with a 16-byte block and a 20-byte HMAC, a
  packet of 90 bytes holds the 43 fixed bytes but none besides, and the budget is 1.
\<close>

lemma budget_below_minimum:
  assumes "cbc_hmacSize c = 20" "cbc_sendCipherBlock c = Some b" "BlockSize b = 16"
  shows "calculateDataPayloadBudget 90 (CBC c) 4 43 = 1" "90 < packet_length (CBC c) 4 43 1"
proof -
  have len: "packet_length (CBC c) 4 43 0 = 88" "packet_length (CBC c) 4 43 1 = 104"
    using assms(1-3) by (simp_all add: packet_length_def cbc_EncodedLength_def protected_length_def)
  then show "90 < packet_length (CBC c) 4 43 1" by simp
  then have "\<not> (\<exists>k \<ge> 1. packet_length (CBC c) 4 43 k \<le> 90)"
    using packet_length_mono [of 1 _ "CBC c" 4 43] by (meson not_less order_trans)
  moreover have "calculateDataPayloadBudget 90 (CBC c) 4 43 = budget_loop (codec_EncodedLength (CBC c)) 90 4 43 1 90"
    using len(1) by (simp add: calculateDataPayloadBudget_def packet_length_def Let_def)
  moreover have "90 < packet_length (CBC c) 4 43 k" if "90 < k" for k
    using len(2) packet_length_mono [of 1 k "CBC c" 4 43] that by simp
  ultimately show "calculateDataPayloadBudget 90 (CBC c) 4 43 = 1"
    using budget_loop_spec [of 1 90 "CBC c" 4 43 90] by (auto simp: Let_def)
qed


end
