(* ===== verification/Ip_Pool.thy ===== *)
theory Ip_Pool
  imports Netip
begin

text \<open>
  The server's address pool (\<open>ip_pool.go\<close>): the range that a prefix and a topology give to the
  clients, allocation with affinity to an identity, release, for both address families. Times of
  release come in as arguments; the pool's mutex makes each operation atomic.
\<close>

section \<open>State\<close>

definition ipv4TopologySubnet :: string where "ipv4TopologySubnet = ''subnet''"
definition ipv4TopologyP2P :: string where "ipv4TopologyP2P = ''p2p''"
definition ipv4TopologyNet30 :: string where "ipv4TopologyNet30 = ''net30''"
definition ipPoolMaximumSize :: nat where "ipPoolMaximumSize = 65536"

lemmas topologies = ipv4TopologySubnet_def ipv4TopologyP2P_def ipv4TopologyNet30_def

record ipv4PoolLease =
  Client :: addr
  Peer :: addr

abbreviation no_lease :: ipv4PoolLease where
  "no_lease \<equiv> \<lparr>Client = NoAddr, Peer = NoAddr\<rparr>"

record ipPool =
  ipv4Prefix :: prefix
  ipv4Topology :: string
  ipv4Server :: addr
  ipv4Start :: addr
  ipv4End :: addr
  ipv4UsedSet :: "addr set"
  ipv4Identity :: "addr \<rightharpoonup> string"
  ipv4Address :: "string \<rightharpoonup> addr"
  ipv4Released :: "addr \<rightharpoonup> time"
  ipv6Prefix :: prefix
  ipv6Server :: addr
  ipv6UsedSet :: "addr set"
  ipv6Identity :: "addr \<rightharpoonup> string"
  ipv6Address :: "string \<rightharpoonup> addr"
  ipv6Released :: "addr \<rightharpoonup> time"

text \<open>Reading an absent key of a Go map gives the zero value of the element type.\<close>

definition read_or :: "'v \<Rightarrow> ('k \<rightharpoonup> 'v) \<Rightarrow> 'k \<Rightarrow> 'v" where
  "read_or z m k = (case m k of None \<Rightarrow> z | Some v \<Rightarrow> v)"

lemma read_or_simps [simp]:
  "m k = None \<Longrightarrow> read_or z m k = z"
  "m k = Some v \<Longrightarrow> read_or z m k = v"
  "read_or z (m(k \<mapsto> v)) k = v"
  by (simp_all add: read_or_def)

section \<open>Construction\<close>

definition resolveIPv4PoolTopology :: "string \<Rightarrow> string result" where
  "resolveIPv4PoolTopology topology =
     (if topology = [] then Inr ipv4TopologyNet30
      else if topology \<in> {ipv4TopologySubnet, ipv4TopologyP2P, ipv4TopologyNet30} then Inr topology
      else Inl (New ''unsupported IPv4 topology''))"

definition lastIPv4InPrefix :: "prefix \<Rightarrow> addr" where
  "lastIPv4InPrefix p =
     (let hostBits = 32 - prefix_Bits p
      in if hostBits \<le> 0 then prefix_Addr p
         else V4 (As4 (prefix_Addr (Masked p)) OR (push_bit (nat hostBits) 1 - 1)))"

definition addIPv4 :: "addr \<Rightarrow> int \<Rightarrow> addr" where
  "addIPv4 a offset =
     (if \<not> Is4 a then NoAddr
      else let value = int64 (uint (As4 a) + offset)
           in if value < 0 \<or> 2 ^ 32 - 1 < value then NoAddr else V4 (word_of_int value))"

definition configureIPv4 :: "prefix \<Rightarrow> ipPool \<Rightarrow> ipPool result" where
  "configureIPv4 prefix p =
     (if prefix_Bits prefix < 16 \<or> 29 < prefix_Bits prefix
      then Inl (New ''IPv4 address pool must be between /16 and /29'')
      else
        let network = prefix_Addr (Masked prefix);
            broadcast = lastIPv4InPrefix prefix;
            p = p\<lparr>ipv4Prefix := prefix, ipv4Server := addr_Next (prefix_Addr (Masked prefix))\<rparr>;
            p = (if ipv4Topology p = ipv4TopologySubnet
                 then p\<lparr>ipv4Start := addIPv4 network 2, ipv4End := addIPv4 broadcast (-1)\<rparr>
                 else if ipv4Topology p \<in> {ipv4TopologyP2P, ipv4TopologyNet30}
                 then p\<lparr>ipv4Start := addIPv4 network 4,
                        ipv4End := addIPv4 broadcast (- (if prefix_Bits prefix = 29 then 0 else 4))\<rparr>
                 else p)
        in if \<not> IsValid (ipv4Start p) \<or> \<not> IsValid (ipv4End p) \<or> \<not> addr_le (ipv4Start p) (ipv4End p)
           then Inl (New ''IPv4 address pool has no allocatable addresses'')
           else Inr p)"

fun configure_v4_loop :: "prefix list \<Rightarrow> ipPool \<Rightarrow> ipPool result" where
  "configure_v4_loop [] pool = Inr pool"
| "configure_v4_loop (p # ps) pool =
     (if \<not> prefix_IsValid p then configure_v4_loop ps pool
      else if \<not> Is4 (prefix_Addr (Masked p)) \<or> prefix_IsValid (ipv4Prefix pool) then configure_v4_loop ps pool
      else case configureIPv4 (Masked p) pool of
             Inl err \<Rightarrow> Inl err
           | Inr pool' \<Rightarrow> configure_v4_loop ps pool')"

fun configure_v6_loop :: "prefix list \<Rightarrow> ipPool \<Rightarrow> ipPool" where
  "configure_v6_loop [] pool = pool"
| "configure_v6_loop (p # ps) pool =
     (if \<not> prefix_IsValid p then configure_v6_loop ps pool
      else if \<not> Is6 (prefix_Addr (Masked p)) \<or> prefix_IsValid (ipv6Prefix pool) then configure_v6_loop ps pool
      else let server = addr_Next (prefix_Addr (Masked (Masked p)))
           in configure_v6_loop ps
                (pool\<lparr>ipv6Prefix := Masked p, ipv6Server := server, ipv6UsedSet := insert server (ipv6UsedSet pool)\<rparr>))"

definition newIPPool :: "prefix list \<Rightarrow> string \<Rightarrow> ipPool result" where
  "newIPPool addressPools topology =
     (case resolveIPv4PoolTopology topology of
        Inl err \<Rightarrow> Inl err
      | Inr resolved \<Rightarrow>
          (case configure_v4_loop addressPools
                  \<lparr>ipv4Prefix = NoPrefix, ipv4Topology = resolved, ipv4Server = NoAddr,
                   ipv4Start = NoAddr, ipv4End = NoAddr, ipv4UsedSet = {}, ipv4Identity = Map.empty,
                   ipv4Address = Map.empty, ipv4Released = Map.empty,
                   ipv6Prefix = NoPrefix, ipv6Server = NoAddr, ipv6UsedSet = {}, ipv6Identity = Map.empty,
                   ipv6Address = Map.empty, ipv6Released = Map.empty\<rparr> of
             Inl err \<Rightarrow> Inl err
           | Inr pool \<Rightarrow> Inr (configure_v6_loop addressPools pool)))"

section \<open>Accessors and the server's address\<close>

definition HasIPv4 :: "ipPool \<Rightarrow> bool" where "HasIPv4 p = prefix_IsValid (ipv4Prefix p)"
definition HasIPv6 :: "ipPool \<Rightarrow> bool" where "HasIPv6 p = prefix_IsValid (ipv6Prefix p)"

definition SetServerIPv4 :: "addr \<Rightarrow> ipPool \<Rightarrow> ipPool result" where
  "SetServerIPv4 address p =
     (if \<not> IsValid address then Inr p
      else if \<not> Is4 address \<or> \<not> Contains (ipv4Prefix p) address
      then Inl (New ''server IPv4 address is outside pool'')
      else if address = prefix_Addr (Masked (ipv4Prefix p)) \<or> address = lastIPv4InPrefix (ipv4Prefix p)
      then Inl (New ''server IPv4 address is not a usable host in pool'')
      else if ipv4UsedSet p \<noteq> {}
      then Inl (New ''cannot change server IPv4 address after allocating client addresses'')
      else Inr (p\<lparr>ipv4Server := address\<rparr>))"

definition SetServerIPv6 :: "addr \<Rightarrow> ipPool \<Rightarrow> ipPool result" where
  "SetServerIPv6 address p =
     (if \<not> IsValid address then Inr p
      else if \<not> Is6 address \<or> \<not> Contains (ipv6Prefix p) address
      then Inl (New ''server IPv6 address is outside pool'')
      else Inr (p\<lparr>ipv6Server := address, ipv6UsedSet := insert address (ipv6UsedSet p - {ipv6Server p})\<rparr>))"

section \<open>IPv4 leases\<close>

text \<open>The visitor of \<open>visitIPv4Leases\<close> is a closure over variables: a function on their state.\<close>

function visit_addresses ::
  "ipPool \<Rightarrow> (ipv4PoolLease \<Rightarrow> 's \<Rightarrow> bool \<times> 's) \<Rightarrow> addr \<Rightarrow> 's \<Rightarrow> 's" where
  "visit_addresses p visitor client s =
     (if IsValid client \<and> addr_le client (ipv4End p) then
        if client = ipv4Server p then visit_addresses p visitor (addr_Next client) s
        else
          let lease = \<lparr>Client = client,
                       Peer = (if ipv4Topology p = ipv4TopologyP2P then ipv4Server p else NoAddr)\<rparr>;
              (go, s') = visitor lease s
          in if go then visit_addresses p visitor (addr_Next client) s' else s'
      else s)"
  by pat_completeness auto
termination
  by (relation "measure (\<lambda>(p, v, client, s). addr_left client)") (auto simp: addr_left_Next)

lemma int64_small: "0 \<le> k \<Longrightarrow> k < 2 ^ 62 \<Longrightarrow> int64 k = k"
  by (simp add: int64_def signed_take_bit_int_eq_self)

lemma addIPv4_V4:
  assumes "- (2 ^ 32) < k" "k < 2 ^ 32"
  shows "addIPv4 (V4 v) k =
     (if 0 \<le> uint v + k \<and> uint v + k < 2 ^ 32 then V4 (word_of_int (uint v + k)) else NoAddr)"
proof -
  have "uint v < 4294967296" "0 \<le> uint v" using unsigned_less [of v, where ?'a = int] by simp_all
  moreover have "- 4294967296 < k" "k < 4294967296" using assms by simp_all
  ultimately have "- 4294967296 < uint v + k" "uint v + k < 8589934592" by linarith+
  then have "- (2 ^ 63) \<le> uint v + k \<and> uint v + k < 2 ^ 63" using assms by simp
  then have "int64 (uint v + k) = uint v + k"
    unfolding int64_def by (intro signed_take_bit_int_eq_self) simp_all
  then show ?thesis by (simp add: addIPv4_def Let_def)
qed

lemma addIPv4_valid: "IsValid (addIPv4 a k) \<Longrightarrow> Is4 a"
  by (auto simp: addIPv4_def split: if_splits)

lemma addIPv4_plus:
  assumes "k < 2 ^ 32"
  shows "addIPv4 (V4 v) (int k) = (if unat v + k < 2 ^ 32 then V4 (v + of_nat k) else NoAddr)"
proof -
  have "uint v + int k = int (unat v + k)" by simp
  moreover have "- (2 ^ 32) < int k" "int k < 2 ^ 32" using assms by simp_all
  ultimately have "addIPv4 (V4 v) (int k) =
      (if int (unat v + k) < 2 ^ 32 then V4 (word_of_int (int (unat v + k))) else NoAddr)"
    using addIPv4_V4 [of "int k" v] by simp
  moreover have "word_of_int (int (unat v + k)) = v + of_nat k" by (simp add: of_nat_unat)
  moreover have "int (unat v + k) < 2 ^ 32 \<longleftrightarrow> unat v + k < 2 ^ 32"
    by (metis of_nat_less_iff of_nat_numeral of_nat_power)
  ultimately show ?thesis by (simp only:)
qed

lemma addr_left_addIPv4:
  assumes "IsValid a"
  shows "addr_left (addIPv4 a 4) < addr_left a"
proof (cases a)
  case (V4 v)
  have u: "unat v < 2 ^ 32" using unsigned_less [of v, where ?'a = nat] by simp
  have "unat (v + 4) = unat v + 4" if "unat v + 4 < 2 ^ 32"
    using that by (simp add: unat_word_ariths)
  then show ?thesis using u addIPv4_plus [of 4 v] by (cases "unat v + 4 < 2 ^ 32") (simp_all add: V4)
next
  case (V6 v z)
  have "unat v < 2 ^ 128" using unsigned_less [of v, where ?'a = nat] by simp
  then show ?thesis by (simp add: V6 addIPv4_def)
qed (use assms in simp)

function visit_blocks ::
  "ipPool \<Rightarrow> (ipv4PoolLease \<Rightarrow> 's \<Rightarrow> bool \<times> 's) \<Rightarrow> addr \<Rightarrow> 's \<Rightarrow> 's" where
  "visit_blocks p visitor block s =
     (if IsValid block \<and> addr_le block (ipv4End p) then
        let peer = addIPv4 block 1; client = addIPv4 block 2
        in if \<not> IsValid peer \<or> \<not> IsValid client \<or> \<not> addr_le client (ipv4End p) then s
           else if peer = ipv4Server p \<or> client = ipv4Server p then visit_blocks p visitor (addIPv4 block 4) s
           else
             let (go, s') = visitor \<lparr>Client = client, Peer = peer\<rparr> s
             in if go then visit_blocks p visitor (addIPv4 block 4) s' else s'
      else s)"
  by pat_completeness auto
termination
  by (relation "measure (\<lambda>(p, v, block, s). addr_left block)") (auto simp: addr_left_addIPv4)

declare visit_addresses.simps [simp del] visit_blocks.simps [simp del]

definition visitIPv4Leases :: "(ipv4PoolLease \<Rightarrow> 's \<Rightarrow> bool \<times> 's) \<Rightarrow> ipPool \<Rightarrow> 's \<Rightarrow> 's" where
  "visitIPv4Leases visitor p s =
     (if ipv4Topology p \<in> {ipv4TopologySubnet, ipv4TopologyP2P} then visit_addresses p visitor (ipv4Start p) s
      else if ipv4Topology p = ipv4TopologyNet30 then visit_blocks p visitor (ipv4Start p) s
      else s)"

definition ipv4Lease :: "addr \<Rightarrow> ipPool \<Rightarrow> ipv4PoolLease" where
  "ipv4Lease address p =
     \<lparr>Client = address,
      Peer = (if ipv4Topology p = ipv4TopologyP2P then ipv4Server p
              else if ipv4Topology p = ipv4TopologyNet30 then addr_Prev address else NoAddr)\<rparr>"

definition visit_available ::
  "string \<Rightarrow> ipPool \<Rightarrow> ipv4PoolLease \<Rightarrow> ipv4PoolLease \<times> time \<Rightarrow> bool \<times> ipv4PoolLease \<times> time" where
  "visit_available identity p candidate = (\<lambda>(selected, selectedRelease).
     if Client candidate \<in> ipv4UsedSet p then (True, selected, selectedRelease)
     else if identity = [] then (False, candidate, selectedRelease)
     else
       let released = read_or 0 (ipv4Released p) (Client candidate);
           (selected, selectedRelease) =
             (if \<not> IsValid (Client selected) \<or> released < selectedRelease then (candidate, released)
              else (selected, selectedRelease))
       in (\<not> IsZero released, selected, selectedRelease))"

definition findAvailableIPv4Lease :: "string \<Rightarrow> bool \<Rightarrow> ipPool \<Rightarrow> ipv4PoolLease \<times> bool" where
  "findAvailableIPv4Lease identity requireIdentity p =
     (if requireIdentity then
        let previous = read_or NoAddr (ipv4Address p) identity
        in if \<not> IsValid previous then (no_lease, False)
           else if previous \<in> ipv4UsedSet p then (no_lease, False)
           else (ipv4Lease previous p, True)
      else
        let (selected, _) = visitIPv4Leases (visit_available identity p) p (no_lease, 0)
        in (selected, IsValid (Client selected)))"

definition forget_owner4 :: "addr \<Rightarrow> string \<Rightarrow> ipPool \<Rightarrow> ipPool" where
  "forget_owner4 client identity p =
     (let previousIdentity = read_or [] (ipv4Identity p) client
      in if previousIdentity \<noteq> [] \<and> previousIdentity \<noteq> identity \<and>
            read_or NoAddr (ipv4Address p) previousIdentity = client
         then p\<lparr>ipv4Address := (ipv4Address p)(previousIdentity := None)\<rparr> else p)"

definition adopt_identity4 :: "addr \<Rightarrow> string \<Rightarrow> ipPool \<Rightarrow> ipPool" where
  "adopt_identity4 client identity p =
     (if identity \<noteq> [] then
        let previousAddress = read_or NoAddr (ipv4Address p) identity;
            p = (if IsValid previousAddress \<and> previousAddress \<noteq> client
                 then p\<lparr>ipv4Identity := (ipv4Identity p)(previousAddress := None),
                        ipv4Released := (ipv4Released p)(previousAddress := None)\<rparr> else p)
        in p\<lparr>ipv4Identity := (ipv4Identity p)(client \<mapsto> identity),
             ipv4Address := (ipv4Address p)(identity \<mapsto> client)\<rparr>
      else p\<lparr>ipv4Identity := (ipv4Identity p)(client := None)\<rparr>)"

definition commitIPv4Lease :: "ipv4PoolLease \<Rightarrow> string \<Rightarrow> ipPool \<Rightarrow> ipPool" where
  "commitIPv4Lease lease identity p =
     (let client = Client lease; p = p\<lparr>ipv4UsedSet := insert client (ipv4UsedSet p), ipv4Released := (ipv4Released p)(client := None)\<rparr>
      in adopt_identity4 client identity (forget_owner4 client identity p))"

definition AllocateIPv4ForIdentity :: "string \<Rightarrow> ipPool \<Rightarrow> ipv4PoolLease result \<times> ipPool" where
  "AllocateIPv4ForIdentity identity p =
     (if \<not> HasIPv4 p then (Inl (New ''ipv4 pool not configured''), p)
      else
        let (previous, found) = (if identity \<noteq> [] then findAvailableIPv4Lease identity True p else (no_lease, False))
        in if found then (Inr previous, commitIPv4Lease previous identity p)
           else
             let (lease, found) = findAvailableIPv4Lease identity False p
             in if found then (Inr lease, commitIPv4Lease lease identity p)
                else (Inl (Sentinel ErrIPPoolExhausted), p))"

definition AllocateIPv4 :: "ipPool \<Rightarrow> ipv4PoolLease result \<times> ipPool" where
  "AllocateIPv4 = AllocateIPv4ForIdentity []"

section \<open>IPv6 addresses\<close>

function find_v6_loop ::
  "ipPool \<Rightarrow> string \<Rightarrow> addr \<Rightarrow> nat \<Rightarrow> addr \<Rightarrow> time \<Rightarrow> addr" where
  "find_v6_loop p identity current visited selected selectedRelease =
     (if IsValid current \<and> Contains (ipv6Prefix p) current \<and> visited < ipPoolMaximumSize then
        if current = ipv6Server p
        then find_v6_loop p identity (addr_Next current) visited selected selectedRelease
        else if current \<in> ipv6UsedSet p
        then find_v6_loop p identity (addr_Next current) (Suc visited) selected selectedRelease
        else if identity = [] then current
        else if read_or [] (ipv6Identity p) current = [] \<and> ipPoolMaximumSize \<le> card (dom (ipv6Address p))
        then find_v6_loop p identity (addr_Next current) (Suc visited) selected selectedRelease
        else
          let released = read_or 0 (ipv6Released p) current;
              (selected, selectedRelease) =
                (if \<not> IsValid selected \<or> released < selectedRelease then (current, released)
                 else (selected, selectedRelease))
          in if IsZero released then selected
             else find_v6_loop p identity (addr_Next current) (Suc visited) selected selectedRelease
      else selected)"
  by pat_completeness auto
termination
  by (relation "measure (\<lambda>(p, i, current, v, s, r). addr_left current)") (auto simp: addr_left_Next)

declare find_v6_loop.simps [simp del]

definition findAvailableIPv6Address :: "string \<Rightarrow> bool \<Rightarrow> ipPool \<Rightarrow> addr \<times> bool" where
  "findAvailableIPv6Address identity requireIdentity p =
     (if requireIdentity then
        let previous = read_or NoAddr (ipv6Address p) identity
        in if \<not> IsValid previous \<or> \<not> Contains (ipv6Prefix p) previous \<or> previous = ipv6Server p
           then (NoAddr, False)
           else (previous, previous \<notin> ipv6UsedSet p)
      else
        let selected = find_v6_loop p identity (addr_Next (prefix_Addr (ipv6Prefix p))) 0 NoAddr 0
        in (selected, IsValid selected))"

definition forget_owner6 :: "addr \<Rightarrow> string \<Rightarrow> ipPool \<Rightarrow> ipPool" where
  "forget_owner6 address identity p =
     (let previousIdentity = read_or [] (ipv6Identity p) address
      in if previousIdentity \<noteq> [] \<and> previousIdentity \<noteq> identity \<and>
            read_or NoAddr (ipv6Address p) previousIdentity = address
         then p\<lparr>ipv6Address := (ipv6Address p)(previousIdentity := None)\<rparr> else p)"

definition adopt_identity6 :: "addr \<Rightarrow> string \<Rightarrow> ipPool \<Rightarrow> ipPool" where
  "adopt_identity6 address identity p =
     (if identity \<noteq> [] then
        let previousAddress = read_or NoAddr (ipv6Address p) identity;
            p = (if IsValid previousAddress \<and> previousAddress \<noteq> address
                 then p\<lparr>ipv6Identity := (ipv6Identity p)(previousAddress := None),
                        ipv6Released := (ipv6Released p)(previousAddress := None)\<rparr> else p)
        in p\<lparr>ipv6Identity := (ipv6Identity p)(address \<mapsto> identity),
             ipv6Address := (ipv6Address p)(identity \<mapsto> address)\<rparr>
      else p\<lparr>ipv6Identity := (ipv6Identity p)(address := None)\<rparr>)"

definition commitIPv6Address :: "addr \<Rightarrow> string \<Rightarrow> ipPool \<Rightarrow> ipPool" where
  "commitIPv6Address address identity p =
     (let p = p\<lparr>ipv6UsedSet := insert address (ipv6UsedSet p), ipv6Released := (ipv6Released p)(address := None)\<rparr>
      in adopt_identity6 address identity (forget_owner6 address identity p))"

definition AllocateIPv6ForIdentity :: "string \<Rightarrow> ipPool \<Rightarrow> addr result \<times> ipPool" where
  "AllocateIPv6ForIdentity identity p =
     (if \<not> HasIPv6 p then (Inl (New ''ipv6 pool not configured''), p)
      else
        let (previous, found) = (if identity \<noteq> [] then findAvailableIPv6Address identity True p else (NoAddr, False))
        in if found then (Inr previous, commitIPv6Address previous identity p)
           else
             let (address, found) = findAvailableIPv6Address identity False p
             in if found then (Inr address, commitIPv6Address address identity p)
                else (Inl (Sentinel ErrIPPoolExhausted), p))"

definition AllocateIPv6 :: "ipPool \<Rightarrow> addr result \<times> ipPool" where
  "AllocateIPv6 = AllocateIPv6ForIdentity []"

section \<open>Release\<close>

definition pool_Release :: "time \<Rightarrow> addr \<Rightarrow> ipPool \<Rightarrow> ipPool" where
  "pool_Release now address p =
     (if \<not> IsValid address then p
      else if Is4 address then
        p\<lparr>ipv4UsedSet := ipv4UsedSet p - {address},
          ipv4Released := (ipv4Released p)(address :=
            (if read_or [] (ipv4Identity p) address \<noteq> [] then Some now else None))\<rparr>
      else
        p\<lparr>ipv6UsedSet := ipv6UsedSet p - {address},
          ipv6Released := (ipv6Released p)(address :=
            (if read_or [] (ipv6Identity p) address \<noteq> [] then Some now else None))\<rparr>)"

section \<open>The lease list of a pool\<close>

text \<open>
  The leases in the order of the visit. Every visit is an early-terminating fold over this list, so
  the closures of the code are reasoned about by induction on lists.
\<close>

abbreviation collect :: "'l \<Rightarrow> 'l list \<Rightarrow> bool \<times> 'l list" where
  "collect l ls \<equiv> (True, ls @ [l])"

definition ipv4_leases :: "ipPool \<Rightarrow> ipv4PoolLease list" where
  "ipv4_leases p = visitIPv4Leases collect p []"

fun visit_list :: "('l \<Rightarrow> 's \<Rightarrow> bool \<times> 's) \<Rightarrow> 'l list \<Rightarrow> 's \<Rightarrow> 's" where
  "visit_list v [] s = s"
| "visit_list v (l # ls) s = (let (go, s') = v l s in if go then visit_list v ls s' else s')"

lemma visit_addresses_collect:
  "visit_addresses p collect c acc = acc @ visit_addresses p collect c []"
proof (induction "addr_left c" arbitrary: c acc rule: less_induct)
  case less
  let ?l = "\<lparr>Client = c, Peer = (if ipv4Topology p = ipv4TopologyP2P then ipv4Server p else NoAddr)\<rparr>"
  show ?case
  proof (cases "IsValid c \<and> addr_le c (ipv4End p)")
    case True
    then have IH: "visit_addresses p collect (addr_Next c) xs = xs @ visit_addresses p collect (addr_Next c) []" for xs
      using less addr_left_Next by blast
    show ?thesis
      using True IH [of acc] IH [of "acc @ [?l]"] IH [of "[?l]"] by (auto simp: visit_addresses.simps [of p collect c])
  qed (auto simp: visit_addresses.simps [of p collect c])
qed

lemma visit_addresses_list:
  "visit_addresses p v c s = visit_list v (visit_addresses p collect c []) s"
proof (induction "addr_left c" arbitrary: c s rule: less_induct)
  case less
  let ?l = "\<lparr>Client = c, Peer = (if ipv4Topology p = ipv4TopologyP2P then ipv4Server p else NoAddr)\<rparr>"
  have IH: "visit_addresses p v (addr_Next c) t = visit_list v (visit_addresses p collect (addr_Next c) []) t"
    if "IsValid c" for t using less addr_left_Next that by blast
  have "visit_addresses p collect c [] =
      (if IsValid c \<and> addr_le c (ipv4End p) then
         if c = ipv4Server p then visit_addresses p collect (addr_Next c) []
         else ?l # visit_addresses p collect (addr_Next c) []
       else [])"
    by (subst visit_addresses.simps) (simp add: visit_addresses_collect [of p "addr_Next c" "[?l]"])
  then show ?case
    using IH by (subst visit_addresses.simps) (auto simp: Let_def split: prod.splits)
qed

lemma visit_blocks_collect:
  "visit_blocks p collect c acc = acc @ visit_blocks p collect c []"
proof (induction "addr_left c" arbitrary: c acc rule: less_induct)
  case less
  let ?l = "\<lparr>Client = addIPv4 c 2, Peer = addIPv4 c 1\<rparr>"
  show ?case
  proof (cases "IsValid c \<and> addr_le c (ipv4End p)")
    case True
    then have IH: "visit_blocks p collect (addIPv4 c 4) xs = xs @ visit_blocks p collect (addIPv4 c 4) []" for xs
      using less addr_left_addIPv4 by blast
    show ?thesis
      using True IH [of acc] IH [of "acc @ [?l]"] IH [of "[?l]"]
      by (auto simp: visit_blocks.simps [of p collect c] Let_def)
  qed (auto simp: visit_blocks.simps [of p collect c])
qed

lemma visit_blocks_list:
  "visit_blocks p v c s = visit_list v (visit_blocks p collect c []) s"
proof (induction "addr_left c" arbitrary: c s rule: less_induct)
  case less
  let ?l = "\<lparr>Client = addIPv4 c 2, Peer = addIPv4 c 1\<rparr>"
  have IH: "visit_blocks p v (addIPv4 c 4) t = visit_list v (visit_blocks p collect (addIPv4 c 4) []) t"
    if "IsValid c" for t using less addr_left_addIPv4 that by blast
  have "visit_blocks p collect c [] =
      (if IsValid c \<and> addr_le c (ipv4End p) then
         if \<not> IsValid (addIPv4 c 1) \<or> \<not> IsValid (addIPv4 c 2) \<or> \<not> addr_le (addIPv4 c 2) (ipv4End p) then []
         else if addIPv4 c 1 = ipv4Server p \<or> addIPv4 c 2 = ipv4Server p
         then visit_blocks p collect (addIPv4 c 4) []
         else ?l # visit_blocks p collect (addIPv4 c 4) []
       else [])"
    by (subst visit_blocks.simps) (simp add: visit_blocks_collect [of p "addIPv4 c 4" "[?l]"] Let_def)
  then show ?case
    using IH by (subst visit_blocks.simps) (auto simp: Let_def split: prod.splits)
qed

lemma visitIPv4Leases_list: "visitIPv4Leases v p s = visit_list v (ipv4_leases p) s"
  unfolding visitIPv4Leases_def ipv4_leases_def
  by (simp add: visit_addresses_list [of p v] visit_blocks_list [of p v])

text \<open>The list depends on the configuration of the pool only.\<close>

definition same_range :: "ipPool \<Rightarrow> ipPool \<Rightarrow> bool" where
  "same_range p q \<longleftrightarrow>
     ipv4Prefix p = ipv4Prefix q \<and> ipv4Topology p = ipv4Topology q \<and> ipv4Server p = ipv4Server q \<and>
     ipv4Start p = ipv4Start q \<and> ipv4End p = ipv4End q"

lemma visit_addresses_cong: "same_range p q \<Longrightarrow> visit_addresses p v c s = visit_addresses q v c s"
proof (induction "addr_left c" arbitrary: c s rule: less_induct)
  case less
  then have "IsValid c \<Longrightarrow> visit_addresses p v (addr_Next c) t = visit_addresses q v (addr_Next c) t" for t
    using addr_left_Next by blast
  then show ?case
    using less.prems by (subst (1 2) visit_addresses.simps) (auto simp: Let_def same_range_def split: prod.splits)
qed

lemma visit_blocks_cong: "same_range p q \<Longrightarrow> visit_blocks p v c s = visit_blocks q v c s"
proof (induction "addr_left c" arbitrary: c s rule: less_induct)
  case less
  then have "IsValid c \<Longrightarrow> visit_blocks p v (addIPv4 c 4) t = visit_blocks q v (addIPv4 c 4) t" for t
    using addr_left_addIPv4 by blast
  then show ?case
    using less.prems by (subst (1 2) visit_blocks.simps) (auto simp: Let_def same_range_def split: prod.splits)
qed

lemma ipv4_leases_cong: "same_range p q \<Longrightarrow> ipv4_leases p = ipv4_leases q"
  unfolding ipv4_leases_def visitIPv4Leases_def
  using visit_addresses_cong [of p q collect] visit_blocks_cong [of p q collect]
  by (simp add: same_range_def)

section \<open>What the visit reaches\<close>

lemma addresses_sound:
  assumes "l \<in> set (visit_addresses p collect (V4 c) [])" "ipv4End p = V4 e"
  shows "\<exists>w. Client l = V4 w \<and> c \<le> w \<and> w \<le> e \<and> V4 w \<noteq> ipv4Server p \<and>
         Peer l = (if ipv4Topology p = ipv4TopologyP2P then ipv4Server p else NoAddr)"
  using assms
proof (induction "addr_left (V4 c)" arbitrary: c rule: less_induct)
  case less
  let ?l = "\<lparr>Client = V4 c, Peer = (if ipv4Topology p = ipv4TopologyP2P then ipv4Server p else NoAddr)\<rparr>"
  have "c \<le> e" using less.prems by (auto simp: visit_addresses.simps [of p collect "V4 c"] split: if_splits)
  define n where "n = addr_Next (V4 c)"
  have "l = ?l \<and> V4 c \<noteq> ipv4Server p \<or> l \<in> set (visit_addresses p collect n [])"
    using less.prems visit_addresses_collect [of p n "[?l]"]
    by (auto simp: visit_addresses.simps [of p collect "V4 c", folded n_def] split: if_splits)
  then show ?case
  proof
    assume l: "l \<in> set (visit_addresses p collect n [])"
    then have n: "c + 1 \<noteq> 0" by (auto simp: n_def visit_addresses.simps [of p collect NoAddr])
    then have "c \<le> c + 1" by (simp add: word_le_nat_alt unat_Suc_word)
    then show ?thesis using less.hyps [of "c + 1"] l n less.prems(2) addr_left_Next [of "V4 c"]
      by (fastforce simp: n_def)
  qed (use \<open>c \<le> e\<close> in auto)
qed

lemma blocks_sound:
  assumes "l \<in> set (visit_blocks p collect (V4 c) [])" "ipv4End p = V4 e"
  shows "\<exists>w. Client l = V4 w \<and> unat c + 2 \<le> unat w \<and> w \<le> e \<and> V4 w \<noteq> ipv4Server p \<and> Peer l = addr_Prev (V4 w)"
  using assms
proof (induction "addr_left (V4 c)" arbitrary: c rule: less_induct)
  case less
  let ?l = "\<lparr>Client = addIPv4 (V4 c) 2, Peer = addIPv4 (V4 c) 1\<rparr>"
  have a: "addIPv4 (V4 c) 1 = (if unat c + 1 < 2 ^ 32 then V4 (c + 1) else NoAddr)"
    "addIPv4 (V4 c) 2 = (if unat c + 2 < 2 ^ 32 then V4 (c + 2) else NoAddr)"
    "addIPv4 (V4 c) 4 = (if unat c + 4 < 2 ^ 32 then V4 (c + 4) else NoAddr)"
    using addIPv4_plus [of 1 c] addIPv4_plus [of 2 c] addIPv4_plus [of 4 c] by simp_all
  have "l = ?l \<and> unat c + 2 < 2 ^ 32 \<and> c + 2 \<le> e \<and> V4 (c + 2) \<noteq> ipv4Server p \<or>
        l \<in> set (visit_blocks p collect (addIPv4 (V4 c) 4) [])"
    using less.prems visit_blocks_collect [of p "addIPv4 (V4 c) 4" "[?l]"]
    by (auto simp: visit_blocks.simps [of p collect "V4 c"] a(1,2) Let_def split: if_splits)
  then show ?case
  proof
    assume l: "l = ?l \<and> unat c + 2 < 2 ^ 32 \<and> c + 2 \<le> e \<and> V4 (c + 2) \<noteq> ipv4Server p"
    then have "unat (c + 2) = unat c + 2" by (simp add: unat_word_ariths)
    moreover from this have "addr_Prev (V4 (c + 2)) = V4 (c + 1)" by auto
    ultimately show ?thesis using l a by auto
  next
    assume l: "l \<in> set (visit_blocks p collect (addIPv4 (V4 c) 4) [])"
    then have n: "unat c + 4 < 2 ^ 32" using a by (auto simp: visit_blocks.simps [of p collect NoAddr] split: if_splits)
    then have "unat (c + 4) = unat c + 4" by (simp add: unat_word_ariths)
    then show ?thesis using less.hyps [of "c + 4"] l n a less.prems(2) addr_left_addIPv4 [of "V4 c"] by fastforce
  qed
qed

lemma leases_sound:
  assumes "l \<in> set (ipv4_leases p)" "ipv4Start p = V4 c" "ipv4End p = V4 e"
  shows "\<exists>w. Client l = V4 w \<and> c \<le> w \<and> w \<le> e \<and> Client l \<noteq> ipv4Server p \<and> l = ipv4Lease (V4 w) p"
proof (cases "ipv4Topology p = ipv4TopologyNet30")
  case True
  then have "l \<in> set (visit_blocks p collect (V4 c) [])"
    using assms by (simp add: ipv4_leases_def visitIPv4Leases_def topologies)
  from blocks_sound [OF this assms(3)] obtain w where
    w: "Client l = V4 w" "unat c + 2 \<le> unat w" "w \<le> e" "V4 w \<noteq> ipv4Server p" "Peer l = addr_Prev (V4 w)" by blast
  moreover have "c \<le> w" using w(2) by (simp add: word_le_nat_alt)
  ultimately show ?thesis using True by (cases l) (simp add: ipv4Lease_def topologies)
next
  case False
  then have "l \<in> set (visit_addresses p collect (V4 c) [])"
    using assms by (simp add: ipv4_leases_def visitIPv4Leases_def split: if_splits)
  from addresses_sound [OF this assms(3)] obtain w where
    w: "Client l = V4 w" "c \<le> w" "w \<le> e" "V4 w \<noteq> ipv4Server p"
      "Peer l = (if ipv4Topology p = ipv4TopologyP2P then ipv4Server p else NoAddr)" by blast
  then show ?thesis using False by (cases l) (simp add: ipv4Lease_def)
qed

section \<open>Selection\<close>

lemma arg_min_list_step:
  fixes k :: "'a \<Rightarrow> 'b::linorder"
  shows "arg_min_list k (a # b # xs) = (if k b < k a then arg_min_list k (b # xs) else arg_min_list k (a # xs))"
proof (cases xs)
  case (Cons y ys)
  then show ?thesis by (auto simp: Let_def)
qed auto

lemma arg_min_list_least: "\<forall>x \<in> set xs. k b \<le> k x \<Longrightarrow> arg_min_list k (b # xs) = b"
  for k :: "'a \<Rightarrow> 'b::linorder"
proof (cases xs)
  case (Cons y ys)
  assume "\<forall>x \<in> set xs. k b \<le> k x"
  then have "k b \<le> k (arg_min_list k xs)" using arg_min_list_in [of xs k] Cons by blast
  then show ?thesis using Cons by simp
qed simp

definition available :: "ipPool \<Rightarrow> ipv4PoolLease list" where
  "available p = filter (\<lambda>l. Client l \<notin> ipv4UsedSet p) (ipv4_leases p)"

definition release_time :: "ipPool \<Rightarrow> ipv4PoolLease \<Rightarrow> time" where
  "release_time p l = read_or 0 (ipv4Released p) (Client l)"

lemma select_from:
  assumes "ident \<noteq> []" "\<And>l. 0 \<le> release_time p l" "0 < release_time p s" "IsValid (Client s)"
    and "\<forall>l \<in> set ls. IsValid (Client l)"
  shows "fst (visit_list (visit_available ident p) ls (s, release_time p s)) =
         arg_min_list (release_time p) (s # filter (\<lambda>l. Client l \<notin> ipv4UsedSet p) ls)"
  using assms(3-)
proof (induction ls arbitrary: s)
  case (Cons l ls)
  let ?r = "release_time p" and ?f = "filter (\<lambda>l. Client l \<notin> ipv4UsedSet p)"
  show ?case
  proof (cases "Client l \<in> ipv4UsedSet p")
    case False
    have r: "read_or 0 (ipv4Released p) (Client l) = ?r l" by (simp add: release_time_def)
    have "visit_available ident p l (s, ?r s) = (?r l \<noteq> 0, if ?r l < ?r s then (l, ?r l) else (s, ?r s))"
      using False assms(1) Cons.prems by (simp add: visit_available_def r Let_def)
    moreover have "arg_min_list ?r (l # ?f ls) = l" if "?r l = 0"
      using that assms(2) by (intro arg_min_list_least) simp
    ultimately show ?thesis
      using Cons.IH [of l] Cons.IH [of s] Cons.prems False assms(2) [of l]
      by (auto simp: arg_min_list_step order_less_le simp del: arg_min_list.simps(2))
  qed (use Cons in \<open>simp add: visit_available_def\<close>)
qed simp

lemma select_available:
  assumes "\<And>l. 0 \<le> release_time p l" "\<forall>l \<in> set (ipv4_leases p). IsValid (Client l)"
  shows "findAvailableIPv4Lease ident False p =
         (case available p of [] \<Rightarrow> (no_lease, False)
          | l # ls \<Rightarrow> (arg_min_list (if ident = [] then (\<lambda>_. 0) else release_time p) (l # ls), True))"
proof -
  let ?f = "filter (\<lambda>l. Client l \<notin> ipv4UsedSet p)"
  have "fst (visit_list (visit_available ident p) ls (no_lease, 0)) =
        (case ?f ls of [] \<Rightarrow> no_lease
         | l # ls \<Rightarrow> arg_min_list (if ident = [] then (\<lambda>_. 0) else release_time p) (l # ls))"
    if "\<forall>l \<in> set ls. IsValid (Client l)" for ls
    using that
  proof (induction ls)
    case (Cons l ls)
    let ?r = "release_time p"
    show ?case
    proof (cases "Client l \<in> ipv4UsedSet p")
      case False
      have r: "read_or 0 (ipv4Released p) (Client l) = ?r l" by (simp add: release_time_def)
      have s: "visit_available ident p l (no_lease, 0) = (if ident = [] then (False, l, 0) else (?r l \<noteq> 0, l, ?r l))"
        using False by (simp add: visit_available_def r Let_def)
      have "arg_min_list (if ident = [] then (\<lambda>_. 0) else ?r) (l # ?f ls) = l" if "ident = [] \<or> ?r l = 0"
        using that assms(1) by (intro arg_min_list_least) auto
      then show ?thesis
        using False s select_from [of ident p l ls] assms(1) [of l] assms(1) Cons.prems
        by (auto simp: order_less_le)
    qed (use Cons in \<open>simp add: visit_available_def\<close>)
  qed simp
  from this [of "ipv4_leases p"] assms(2)
  have "fst (visitIPv4Leases (visit_available ident p) p (no_lease, 0)) =
      (case available p of [] \<Rightarrow> no_lease
       | l # ls \<Rightarrow> arg_min_list (if ident = [] then (\<lambda>_. 0) else release_time p) (l # ls))"
    by (simp add: visitIPv4Leases_list available_def)
  moreover have "arg_min_list k (l # ls) \<in> set (ipv4_leases p)" if "available p = l # ls"
    for l ls and k :: "ipv4PoolLease \<Rightarrow> time"
    using that arg_min_list_in [of "l # ls" k] by (auto simp: available_def filter_eq_Cons_iff)
  ultimately show ?thesis
    using assms(2) by (auto simp: findAvailableIPv4Lease_def split: list.splits prod.splits)
qed

section \<open>Nobody holds an address twice\<close>

text \<open>
  The contract of an allocator, for either address family: what an operation hands out was free and
  is taken afterwards, and only an operation that frees an address makes it free again.
\<close>

locale lease_ledger =
  fixes used :: "'s \<Rightarrow> addr set"
    and step :: "'c \<Rightarrow> 's \<Rightarrow> 's"
    and gives :: "'c \<Rightarrow> 's \<Rightarrow> addr option"
    and frees :: "'c \<Rightarrow> addr option"
  assumes gives_fresh: "gives c s = Some a \<Longrightarrow> a \<notin> used s \<and> a \<in> used (step c s)"
    and keeps: "a \<in> used s \<Longrightarrow> frees c \<noteq> Some a \<Longrightarrow> a \<in> used (step c s)"
begin

lemma held:
  "a \<in> used s \<Longrightarrow> \<forall>c \<in> set cs. frees c \<noteq> Some a \<Longrightarrow> a \<in> used (fold step cs s)"
  by (induction cs arbitrary: s) (simp_all add: keeps)

lemma not_given_twice:
  assumes "i < j" "j < length cs"
    and "gives (cs ! i) (fold step (take i cs) s) = Some a"
    and "gives (cs ! j) (fold step (take j cs) s) = Some a"
  shows "\<exists>k. i < k \<and> k < j \<and> frees (cs ! k) = Some a"
proof (rule ccontr)
  assume no: "\<not> ?thesis"
  let ?between = "take (j - Suc i) (drop (Suc i) cs)"
  have "take j cs = take i cs @ [cs ! i] @ ?between"
    using assms(1,2) take_add [of "Suc i" "j - Suc i" cs] take_Suc_conv_app_nth [of i cs] by simp
  then have "fold step (take j cs) s = fold step ?between (step (cs ! i) (fold step (take i cs) s))"
    by simp
  moreover have "frees c \<noteq> Some a" if "c \<in> set ?between" for c
    using that no assms(1,2) by (auto simp: in_set_conv_nth)
  ultimately have "a \<in> used (fold step (take j cs) s)"
    using held gives_fresh [OF assms(3)] by simp
  then show False using gives_fresh [OF assms(4)] by blast
qed

end

lemma visit_available_fresh:
  "fst (visit_list (visit_available i p) ls (s, r)) = s \<or>
   fst (visit_list (visit_available i p) ls (s, r)) \<in> {l \<in> set ls. Client l \<notin> ipv4UsedSet p}"
proof (induction ls arbitrary: s r)
  case (Cons l ls)
  obtain go s' r' where v: "visit_available i p l (s, r) = (go, s', r')" by (cases "visit_available i p l (s, r)")
  then have "s' = s \<or> s' = l \<and> Client l \<notin> ipv4UsedSet p"
    by (auto simp: visit_available_def Let_def split: if_splits)
  then show ?case using Cons.IH [of s' r'] v by auto
qed simp

lemma findAvailableIPv4Lease_fresh:
  assumes "findAvailableIPv4Lease i b p = (l, True)"
  shows "Client l \<notin> ipv4UsedSet p \<and> IsValid (Client l)"
proof (cases b)
  case False
  let ?l = "fst (visitIPv4Leases (visit_available i p) p (no_lease, 0))"
  have "l = ?l" "IsValid (Client l)"
    using assms False by (auto simp: findAvailableIPv4Lease_def split: prod.splits)
  moreover have "?l = no_lease \<or> ?l \<in> {l \<in> set (ipv4_leases p). Client l \<notin> ipv4UsedSet p}"
    unfolding visitIPv4Leases_list by (rule visit_available_fresh)
  ultimately show ?thesis by auto
qed (use assms in \<open>auto simp: findAvailableIPv4Lease_def ipv4Lease_def Let_def split: if_splits\<close>)

definition fresh6 :: "ipPool \<Rightarrow> addr \<Rightarrow> bool" where
  "fresh6 p a \<longleftrightarrow> a \<notin> ipv6UsedSet p \<and> Contains (ipv6Prefix p) a \<and> a \<noteq> ipv6Server p"

lemma find_v6_loop_fresh: "find_v6_loop p i c n s r = s \<or> fresh6 p (find_v6_loop p i c n s r)"
proof (induction "addr_left c" arbitrary: c n s r rule: less_induct)
  case less
  define d where "d = addr_Next c"
  have IH: "find_v6_loop p i d n s r = s \<or> fresh6 p (find_v6_loop p i d n s r)" if "IsValid c" for n s r
    using less addr_left_Next that unfolding d_def by blast
  let ?r = "read_or 0 (ipv6Released p) c"
  define t where "t = (if \<not> IsValid s \<or> ?r < r then (c, ?r) else (s, r))"
  note eq = find_v6_loop.simps [of p i c n s r, unfolded Let_def case_prod_beta, folded d_def t_def]
  show ?case
  proof (cases "IsValid c \<and> Contains (ipv6Prefix p) c \<and> n < ipPoolMaximumSize")
    case True
    then have "fst t = s \<or> c \<in> ipv6UsedSet p \<or> c = ipv6Server p \<or> fresh6 p (fst t)"
      by (auto simp: t_def fresh6_def)
    moreover have "c \<notin> ipv6UsedSet p \<Longrightarrow> c \<noteq> ipv6Server p \<Longrightarrow> fresh6 p c"
      using True by (simp add: fresh6_def)
    ultimately show ?thesis
      unfolding eq if_P [OF True] using True IH [of n s r] IH [of "Suc n" s r] IH [of "Suc n" "fst t" "snd t"]
      by (simp split: if_split) metis
  next
    case False
    show ?thesis unfolding eq if_not_P [OF False] by simp
  qed
qed

lemma findAvailableIPv6Address_fresh:
  assumes "findAvailableIPv6Address i b p = (a, True)"
  shows "a \<notin> ipv6UsedSet p \<and> Contains (ipv6Prefix p) a \<and> a \<noteq> ipv6Server p"
proof (cases b)
  case False
  then show ?thesis
    using assms find_v6_loop_fresh [of p i "addr_Next (prefix_Addr (ipv6Prefix p))" 0 NoAddr 0]
    by (auto simp: findAvailableIPv6Address_def Let_def fresh6_def)
qed (use assms in \<open>auto simp: findAvailableIPv6Address_def Let_def split: if_splits\<close>)

text \<open>What a commit does to the tables, in closed form and the same for both families.\<close>

definition drops_owner :: "(addr \<rightharpoonup> string) \<Rightarrow> (string \<rightharpoonup> addr) \<Rightarrow> addr \<Rightarrow> string \<Rightarrow> bool" where
  "drops_owner I A c i \<longleftrightarrow> read_or [] I c \<noteq> [] \<and> read_or [] I c \<noteq> i \<and> read_or NoAddr A (read_or [] I c) = c"

definition without_owner :: "(addr \<rightharpoonup> string) \<Rightarrow> (string \<rightharpoonup> addr) \<Rightarrow> addr \<Rightarrow> string \<Rightarrow> (string \<rightharpoonup> addr)" where
  "without_owner I A c i = (if drops_owner I A c i then A(read_or [] I c := None) else A)"

definition moves :: "(string \<rightharpoonup> addr) \<Rightarrow> addr \<Rightarrow> string \<Rightarrow> bool" where
  "moves A c i \<longleftrightarrow> i \<noteq> [] \<and> IsValid (read_or NoAddr A i) \<and> read_or NoAddr A i \<noteq> c"

definition commit_address :: "(addr \<rightharpoonup> string) \<Rightarrow> (string \<rightharpoonup> addr) \<Rightarrow> addr \<Rightarrow> string \<Rightarrow> (string \<rightharpoonup> addr)" where
  "commit_address I A c i = (if i \<noteq> [] then (without_owner I A c i)(i \<mapsto> c) else without_owner I A c i)"

definition vacate :: "(string \<rightharpoonup> addr) \<Rightarrow> addr \<Rightarrow> string \<Rightarrow> (addr \<rightharpoonup> 'v) \<Rightarrow> (addr \<rightharpoonup> 'v)" where
  "vacate A c i m = (if moves A c i then m(read_or NoAddr A i := None) else m)"

definition commit_identity :: "(addr \<rightharpoonup> string) \<Rightarrow> (string \<rightharpoonup> addr) \<Rightarrow> addr \<Rightarrow> string \<Rightarrow> (addr \<rightharpoonup> string)" where
  "commit_identity I A c i = (vacate (without_owner I A c i) c i I)(c := (if i \<noteq> [] then Some i else None))"

lemma forget_owner4_fields:
  "forget_owner4 c i p = p\<lparr>ipv4Address := without_owner (ipv4Identity p) (ipv4Address p) c i\<rparr>"
  by (simp add: forget_owner4_def without_owner_def drops_owner_def Let_def)

lemma adopt_identity4_fields:
  "adopt_identity4 c i p =
     p\<lparr>ipv4Identity := (vacate (ipv4Address p) c i (ipv4Identity p))(c := (if i \<noteq> [] then Some i else None)),
       ipv4Address := (if i \<noteq> [] then (ipv4Address p)(i \<mapsto> c) else ipv4Address p),
       ipv4Released := vacate (ipv4Address p) c i (ipv4Released p)\<rparr>"
  by (simp add: adopt_identity4_def vacate_def moves_def Let_def)

lemma commitIPv4Lease_fields:
  "commitIPv4Lease l i p =
     p\<lparr>ipv4UsedSet := insert (Client l) (ipv4UsedSet p),
       ipv4Identity := commit_identity (ipv4Identity p) (ipv4Address p) (Client l) i,
       ipv4Address := commit_address (ipv4Identity p) (ipv4Address p) (Client l) i,
       ipv4Released := vacate (without_owner (ipv4Identity p) (ipv4Address p) (Client l) i) (Client l) i
                         ((ipv4Released p)(Client l := None))\<rparr>"
  by (simp add: commitIPv4Lease_def commit_identity_def commit_address_def
        forget_owner4_fields adopt_identity4_fields Let_def)

lemma forget_owner6_fields:
  "forget_owner6 c i p = p\<lparr>ipv6Address := without_owner (ipv6Identity p) (ipv6Address p) c i\<rparr>"
  by (simp add: forget_owner6_def without_owner_def drops_owner_def Let_def)

lemma adopt_identity6_fields:
  "adopt_identity6 c i p =
     p\<lparr>ipv6Identity := (vacate (ipv6Address p) c i (ipv6Identity p))(c := (if i \<noteq> [] then Some i else None)),
       ipv6Address := (if i \<noteq> [] then (ipv6Address p)(i \<mapsto> c) else ipv6Address p),
       ipv6Released := vacate (ipv6Address p) c i (ipv6Released p)\<rparr>"
  by (simp add: adopt_identity6_def vacate_def moves_def Let_def)

lemma commitIPv6Address_fields:
  "commitIPv6Address a i p =
     p\<lparr>ipv6UsedSet := insert a (ipv6UsedSet p),
       ipv6Identity := commit_identity (ipv6Identity p) (ipv6Address p) a i,
       ipv6Address := commit_address (ipv6Identity p) (ipv6Address p) a i,
       ipv6Released := vacate (without_owner (ipv6Identity p) (ipv6Address p) a i) a i
                         ((ipv6Released p)(a := None))\<rparr>"
  by (simp add: commitIPv6Address_def commit_identity_def commit_address_def
        forget_owner6_fields adopt_identity6_fields Let_def)

lemma commit_used [simp]:
  "ipv4UsedSet (commitIPv4Lease l i p) = insert (Client l) (ipv4UsedSet p)"
  "ipv6UsedSet (commitIPv4Lease l i p) = ipv6UsedSet p"
  "ipv6UsedSet (commitIPv6Address a i p) = insert a (ipv6UsedSet p)"
  "ipv4UsedSet (commitIPv6Address a i p) = ipv4UsedSet p"
  by (simp_all add: commitIPv4Lease_fields commitIPv6Address_fields)

lemma AllocateIPv4_cases:
  assumes "AllocateIPv4ForIdentity i p = (r, p')"
  shows "case r of
           Inl _ \<Rightarrow> p' = p
         | Inr l \<Rightarrow> p' = commitIPv4Lease l i p \<and> Client l \<notin> ipv4UsedSet p \<and> IsValid (Client l)"
  using assms findAvailableIPv4Lease_fresh [of i True p] findAvailableIPv4Lease_fresh [of i False p]
  by (auto simp: AllocateIPv4ForIdentity_def Let_def split: if_splits prod.splits)

lemma AllocateIPv6_cases:
  assumes "AllocateIPv6ForIdentity i p = (r, p')"
  shows "case r of
           Inl _ \<Rightarrow> p' = p
         | Inr a \<Rightarrow> p' = commitIPv6Address a i p \<and> a \<notin> ipv6UsedSet p \<and> Contains (ipv6Prefix p) a \<and> a \<noteq> ipv6Server p"
  using assms findAvailableIPv6Address_fresh [of i True p] findAvailableIPv6Address_fresh [of i False p]
  by (auto simp: AllocateIPv6ForIdentity_def Let_def split: if_splits prod.splits)

datatype pool_op = Alloc4 string | Alloc6 string | Free time addr

fun pool_step :: "pool_op \<Rightarrow> ipPool \<Rightarrow> ipPool" where
  "pool_step (Alloc4 i) p = snd (AllocateIPv4ForIdentity i p)"
| "pool_step (Alloc6 i) p = snd (AllocateIPv6ForIdentity i p)"
| "pool_step (Free now a) p = pool_Release now a p"

fun gives4 :: "pool_op \<Rightarrow> ipPool \<Rightarrow> addr option" where
  "gives4 (Alloc4 i) p = (case fst (AllocateIPv4ForIdentity i p) of Inr l \<Rightarrow> Some (Client l) | Inl _ \<Rightarrow> None)"
| "gives4 _ _ = None"

fun gives6 :: "pool_op \<Rightarrow> ipPool \<Rightarrow> addr option" where
  "gives6 (Alloc6 i) p = (case fst (AllocateIPv6ForIdentity i p) of Inr a \<Rightarrow> Some a | Inl _ \<Rightarrow> None)"
| "gives6 _ _ = None"

fun frees :: "pool_op \<Rightarrow> addr option" where
  "frees (Free _ a) = Some a"
| "frees _ = None"

lemma pool_step_used:
  "ipv4UsedSet (pool_step c p) \<union> set_option (frees c) \<supseteq> ipv4UsedSet p"
  "ipv6UsedSet (pool_step c p) \<union> set_option (frees c) \<supseteq> ipv6UsedSet p"
proof -
  have "ipv4UsedSet (pool_step c p) \<union> set_option (frees c) \<supseteq> ipv4UsedSet p \<and>
        ipv6UsedSet (pool_step c p) \<union> set_option (frees c) \<supseteq> ipv6UsedSet p"
  proof (cases c)
    case (Alloc4 i)
    obtain r p' where a: "AllocateIPv4ForIdentity i p = (r, p')" by fastforce
    show ?thesis using AllocateIPv4_cases [OF a] Alloc4 a by (cases r) auto
  next
    case (Alloc6 i)
    obtain r p' where a: "AllocateIPv6ForIdentity i p = (r, p')" by fastforce
    show ?thesis using AllocateIPv6_cases [OF a] Alloc6 a by (cases r) auto
  qed (auto simp: pool_Release_def)
  then show "ipv4UsedSet (pool_step c p) \<union> set_option (frees c) \<supseteq> ipv4UsedSet p"
    "ipv6UsedSet (pool_step c p) \<union> set_option (frees c) \<supseteq> ipv6UsedSet p" by blast+
qed

interpretation ledger4: lease_ledger ipv4UsedSet pool_step gives4 frees
proof
  fix c a and p :: ipPool assume g: "gives4 c p = Some a"
  then obtain i where c: "c = Alloc4 i" by (cases c) auto
  obtain r p' where al: "AllocateIPv4ForIdentity i p = (r, p')" by fastforce
  show "a \<notin> ipv4UsedSet p \<and> a \<in> ipv4UsedSet (pool_step c p)"
    using AllocateIPv4_cases [OF al] g al by (auto simp: c split: sum.splits)
next
  fix c a and p :: ipPool assume "a \<in> ipv4UsedSet p" "frees c \<noteq> Some a"
  then show "a \<in> ipv4UsedSet (pool_step c p)" using pool_step_used(1) [of p c] by auto
qed

interpretation ledger6: lease_ledger ipv6UsedSet pool_step gives6 frees
proof
  fix c a and p :: ipPool assume g: "gives6 c p = Some a"
  then obtain i where c: "c = Alloc6 i" by (cases c) auto
  obtain r p' where al: "AllocateIPv6ForIdentity i p = (r, p')" by fastforce
  show "a \<notin> ipv6UsedSet p \<and> a \<in> ipv6UsedSet (pool_step c p)"
    using AllocateIPv6_cases [OF al] g al by (auto simp: c split: sum.splits)
next
  fix c a and p :: ipPool assume "a \<in> ipv6UsedSet p" "frees c \<noteq> Some a"
  then show "a \<in> ipv6UsedSet (pool_step c p)" using pool_step_used(2) [of p c] by auto
qed

section \<open>Invariant\<close>

text \<open>The two affinity tables are inverse to each other.\<close>

definition affine :: "(addr \<rightharpoonup> string) \<Rightarrow> (string \<rightharpoonup> addr) \<Rightarrow> bool" where
  "affine I A \<longleftrightarrow> (\<forall>i a. A i = Some a \<longleftrightarrow> I a = Some i) \<and> A [] = None \<and> I NoAddr = None"

lemma affineD:
  assumes "affine I A"
  shows "A i = Some a \<longleftrightarrow> I a = Some i" "A i = Some a \<Longrightarrow> i \<noteq> []" "A i = Some a \<Longrightarrow> IsValid a"
proof -
  show inv: "A i = Some a \<longleftrightarrow> I a = Some i" for i a using assms by (simp add: affine_def)
  have e: "A [] = None" "I NoAddr = None" using assms by (simp_all add: affine_def)
  show "A i = Some a \<Longrightarrow> i \<noteq> []" using e by auto
  show "A i = Some a \<Longrightarrow> IsValid a" using e inv [of i a] by (cases a) auto
qed

lemma affine_without_owner:
  assumes "affine I A"
  shows "without_owner I A c i = (\<lambda>j. if I c = Some j \<and> j \<noteq> i then None else A j)"
proof (cases "I c")
  case (Some q)
  then have "A q = Some c" "q \<noteq> []" using affineD [OF assms, of q c] by simp_all
  then show ?thesis using Some by (auto simp: without_owner_def drops_owner_def)
qed (auto simp: without_owner_def drops_owner_def)

lemma affine_moves:
  assumes "affine I A" "IsValid c"
  shows "moves (without_owner I A c i) c i \<longleftrightarrow> (\<exists>b. A i = Some b \<and> b \<noteq> c)"
proof (cases "A i")
  case (Some b)
  then have "i \<noteq> []" "IsValid b" using affineD [OF assms(1)] by blast+
  then show ?thesis using Some assms by (simp add: moves_def affine_without_owner read_or_def)
qed (use assms in \<open>simp add: moves_def affine_without_owner read_or_def\<close>)

lemma affine_commit:
  assumes "affine I A" "IsValid c"
  shows "affine (commit_identity I A c i) (commit_address I A c i)"
proof -
  have i: "commit_identity I A c i =
      (\<lambda>a. if a = c then (if i \<noteq> [] then Some i else None) else if A i = Some a then None else I a)"
  proof (cases "A i")
    case None
    then show ?thesis using affine_moves [OF assms, of i] by (auto simp: commit_identity_def vacate_def)
  next
    case (Some b)
    then have "read_or NoAddr (without_owner I A c i) i = b" by (simp add: affine_without_owner [OF assms(1)])
    then show ?thesis using Some affine_moves [OF assms, of i] by (auto simp: commit_identity_def vacate_def)
  qed
  have a: "commit_address I A c i =
      (\<lambda>j. if j = i \<and> i \<noteq> [] then Some c else if I c = Some j \<and> j \<noteq> i then None else A j)"
    by (auto simp: commit_address_def affine_without_owner [OF assms(1)])
  have inv: "A j = Some b \<longleftrightarrow> I b = Some j" and e: "A [] = None" "I NoAddr = None" for j b
    using assms(1) by (auto simp: affine_def)
  have "c \<noteq> NoAddr" using assms(2) by auto
  moreover have "commit_address I A c i j = Some b \<longleftrightarrow> commit_identity I A c i b = Some j" for j b
    using inv [of j b] inv [of i b] inv [of j c] inv [of i c] e by (auto simp: i a)
  ultimately show ?thesis using e by (auto simp: affine_def i a)
qed

definition range_ok :: "ipPool \<Rightarrow> bool" where
  "range_ok p \<longleftrightarrow> (HasIPv4 p \<longrightarrow> (\<exists>v b s e. ipv4Prefix p = Prefix (V4 v) b \<and> 16 \<le> b \<and> b \<le> 29 \<and>
     2 ^ (32 - b) dvd unat v \<and> ipv4Start p = V4 s \<and> ipv4End p = V4 e \<and> unat v + 2 \<le> unat s \<and>
     unat e + (if ipv4Topology p = ipv4TopologySubnet then 1 else 0) < unat v + 2 ^ (32 - b)))"

definition pool_ok :: "ipPool \<Rightarrow> bool" where
  "pool_ok p \<longleftrightarrow> range_ok p \<and>
     affine (ipv4Identity p) (ipv4Address p) \<and> affine (ipv6Identity p) (ipv6Address p) \<and>
     (\<forall>a \<in> ran (ipv4Address p). ipv4Lease a p \<in> set (ipv4_leases p)) \<and>
     (\<forall>t \<in> ran (ipv4Released p). 0 < t)"

lemma lease_of:
  assumes "pool_ok p" "HasIPv4 p" "l \<in> set (ipv4_leases p)"
  shows "IsValid (Client l)" "l = ipv4Lease (Client l) p"
proof -
  obtain s e where "ipv4Start p = V4 s" "ipv4End p = V4 e"
    using assms by (auto simp: pool_ok_def range_ok_def)
  from leases_sound [OF assms(3) this] show "IsValid (Client l)" "l = ipv4Lease (Client l) p" by auto
qed

lemma ipv4Lease_cong: "same_range p q \<Longrightarrow> ipv4Lease a p = ipv4Lease a q"
  by (simp add: same_range_def ipv4Lease_def)

lemma same_range_ops [simp]:
  "same_range (commitIPv4Lease l i p) p" "same_range (commitIPv6Address a i p) p" "same_range (pool_Release t a p) p"
  by (simp_all add: commitIPv4Lease_fields commitIPv6Address_fields pool_Release_def same_range_def)

lemma range_ok_cong: "same_range q p \<Longrightarrow> range_ok p \<Longrightarrow> range_ok q"
  by (simp add: range_ok_def same_range_def HasIPv4_def)

lemma release_time_nonneg: "pool_ok p \<Longrightarrow> 0 \<le> release_time p l"
  unfolding pool_ok_def release_time_def read_or_def
  by (auto split: option.splits simp: ran_def intro: order_less_imp_le)

text \<open>The lease an allocation chooses, when the identity's previous address is not free.\<close>

lemma select_ok:
  assumes "pool_ok p" "HasIPv4 p"
  shows "findAvailableIPv4Lease i False p =
         (case available p of [] \<Rightarrow> (no_lease, False)
          | l # ls \<Rightarrow> (arg_min_list (if i = [] then (\<lambda>_. 0) else release_time p) (l # ls), True))"
  using assms by (intro select_available) (auto simp: release_time_nonneg lease_of(1))

lemma previous_ok:
  assumes "pool_ok p"
  shows "findAvailableIPv4Lease i True p =
         (case ipv4Address p i of Some a \<Rightarrow> if a \<in> ipv4UsedSet p then (no_lease, False) else (ipv4Lease a p, True)
          | None \<Rightarrow> (no_lease, False))"
proof (cases "ipv4Address p i")
  case (Some a)
  then have "a \<noteq> NoAddr" using assms by (auto simp: pool_ok_def affine_def)
  then show ?thesis using Some by (cases a) (simp_all add: findAvailableIPv4Lease_def)
qed (simp add: findAvailableIPv4Lease_def)

lemma available_in: "l \<in> set (available p) \<longleftrightarrow> l \<in> set (ipv4_leases p) \<and> Client l \<notin> ipv4UsedSet p"
  by (auto simp: available_def)

lemma allocate_spec:
  assumes ok: "pool_ok p" and has: "HasIPv4 p" and al: "AllocateIPv4ForIdentity i p = (r, p')"
  shows "case r of
           Inl e \<Rightarrow> e = Sentinel ErrIPPoolExhausted \<and> p' = p \<and> available p = []
         | Inr l \<Rightarrow> l \<in> set (available p) \<and> p' = commitIPv4Lease l i p \<and>
             (if \<exists>a. ipv4Address p i = Some a \<and> a \<notin> ipv4UsedSet p then ipv4Address p i = Some (Client l)
              else l = arg_min_list (if i = [] then (\<lambda>_. 0) else release_time p) (available p))"
proof (cases "\<exists>a. ipv4Address p i = Some a \<and> a \<notin> ipv4UsedSet p")
  case True
  then obtain a where a: "ipv4Address p i = Some a" "a \<notin> ipv4UsedSet p" by blast
  then have "i \<noteq> []" "ipv4Lease a p \<in> set (ipv4_leases p)" 
    using ok affineD(2) by (auto simp: pool_ok_def ran_def)
  moreover have "Client (ipv4Lease a p) = a" by (simp add: ipv4Lease_def)
  ultimately show ?thesis
    using a al has previous_ok [OF ok, of i] by (auto simp: AllocateIPv4ForIdentity_def available_in)
next
  case False
  then have "snd (if i \<noteq> [] then findAvailableIPv4Lease i True p else (no_lease, False)) = False"
    by (auto simp: previous_ok [OF ok] split: option.splits)
  then have "AllocateIPv4ForIdentity i p =
      (let (lease, found) = findAvailableIPv4Lease i False p
       in if found then (Inr lease, commitIPv4Lease lease i p) else (Inl (Sentinel ErrIPPoolExhausted), p))"
    using has by (cases "i = []") (auto simp: AllocateIPv4ForIdentity_def split: prod.splits)
  moreover have "arg_min_list k (x # xs) \<in> set (x # xs)" for k :: "ipv4PoolLease \<Rightarrow> time" and x xs
    by (rule arg_min_list_in) simp
  ultimately show ?thesis
    using al False by (auto simp: select_ok [OF ok has] split: list.splits)
qed

section \<open>Runs\<close>

text \<open>
  A pool of the server: built from the configured prefixes, given the server's own addresses, then
  driven by allocations and releases. The clock is past the zero time.
\<close>

inductive pool_configured :: "ipPool \<Rightarrow> bool" where
  pc_new: "newIPPool addressPools topology = Inr p \<Longrightarrow> pool_configured p"
| pc_server4: "pool_configured p \<Longrightarrow> SetServerIPv4 a p = Inr p' \<Longrightarrow> pool_configured p'"
| pc_server6: "pool_configured p \<Longrightarrow> SetServerIPv6 a p = Inr p' \<Longrightarrow> pool_configured p'"

inductive pool_reach :: "ipPool \<Rightarrow> bool" where
  pr_start: "pool_configured p \<Longrightarrow> pool_reach p"
| pr_step: "pool_reach p \<Longrightarrow> (\<forall>now a. c = Free now a \<longrightarrow> 0 < now) \<Longrightarrow> pool_reach (pool_step c p)"

definition tables_empty :: "ipPool \<Rightarrow> bool" where
  "tables_empty p \<longleftrightarrow> ipv4Identity p = Map.empty \<and> ipv4Address p = Map.empty \<and> ipv4Released p = Map.empty \<and>
     ipv6Identity p = Map.empty \<and> ipv6Address p = Map.empty"

lemma dvd_take_bit: "2 ^ h dvd unat v \<Longrightarrow> take_bit h v = 0" for v :: u32
  by (simp add: word_unat_eq_iff unsigned_take_bit_eq) (simp add: take_bit_eq_mod dvd_eq_mod_eq_0)

lemma masked_or:
  fixes v :: u32
  assumes "b \<le> 32" "2 ^ (32 - b) dvd unat v"
  shows "unat (v OR (push_bit (32 - b) 1 - 1)) = unat v + 2 ^ (32 - b) - 1"
    and "unat v + 2 ^ (32 - b) \<le> 2 ^ 32"
proof -
  let ?h = "32 - b"
  obtain k where k: "unat v = 2 ^ ?h * k" using assms(2) by (elim dvdE)
  have "unat v < 2 ^ 32" using unsigned_less [of v, where ?'a = nat] by simp
  moreover have p: "(2 :: nat) ^ 32 = 2 ^ ?h * 2 ^ b" using assms(1) by (simp flip: power_add)
  ultimately have "2 ^ ?h * k < 2 ^ ?h * 2 ^ b" unfolding k by (simp only:)
  then have "k < 2 ^ b" by (simp only: mult_less_cancel1)
  then have "Suc k \<le> 2 ^ b" by simp
  then have "2 ^ ?h * Suc k \<le> 2 ^ ?h * 2 ^ b" by (intro mult_le_mono2)
  then show le: "unat v + 2 ^ ?h \<le> 2 ^ 32" using k p by simp
  have m: "push_bit ?h 1 - 1 = (mask ?h :: u32)" by (simp add: mask_eq_exp_minus_1 push_bit_eq_mult)
  have "v AND mask ?h = 0" using dvd_take_bit [OF assms(2)] by (simp only: take_bit_eq_mask)
  then have "v OR mask ?h = v + mask ?h" by (rule disjunctive_add_eq_or [symmetric])
  moreover have "unat (mask ?h :: u32) = 2 ^ ?h - 1"
    unfolding unat_eq_nat_uint uint_mask_eq by (simp add: mask_eq_exp_minus_1 nat_diff_distrib nat_power_eq)
  moreover have "(1 :: nat) \<le> 2 ^ ?h" by simp
  ultimately have "unat (v OR mask ?h) = (unat v + (2 ^ ?h - 1)) mod 2 ^ 32" by (simp add: unat_word_ariths)
  then show "unat (v OR (push_bit ?h 1 - 1)) = unat v + 2 ^ ?h - 1" unfolding m using le by simp
qed

lemma masked_dvd: "2 ^ h dvd unat (push_bit h (drop_bit h v))" for v :: u32
proof -
  let ?w = "push_bit h (drop_bit h v)"
  have "take_bit h (unat ?w) = unat (take_bit h ?w)" by (simp add: unsigned_take_bit_eq)
  also have "take_bit h ?w = 0" by (auto intro!: bit_eqI simp: bit_simps)
  finally show ?thesis by (simp add: take_bit_eq_mod dvd_eq_mod_eq_0)
qed

lemma addIPv4_up:
  assumes "unat v + k < 2 ^ 32"
  shows "\<exists>w. addIPv4 (V4 v) (int k) = V4 w \<and> unat w = unat v + k"
proof -
  have "unat (v + of_nat k) = unat v + k" using assms by (simp add: unat_word_ariths unat_of_nat)
  then show ?thesis using assms addIPv4_plus [of k v] by auto
qed

lemma addIPv4_down:
  assumes "k \<le> unat v"
  shows "\<exists>w. addIPv4 (V4 v) (- int k) = V4 w \<and> unat w = unat v - k"
proof -
  have v: "unat v < 2 ^ 32" using unsigned_less [of v, where ?'a = nat] by simp
  have u: "uint v = int (unat v)" by simp
  have "uint v + - int k = int (unat v - k)" using assms u by linarith
  moreover have "- (2 ^ 32) < - int k" "- int k < 2 ^ 32" using assms v by simp_all
  moreover have "int (unat v - k) < 2 ^ 32" using v by simp
  ultimately have "addIPv4 (V4 v) (- int k) = V4 (word_of_int (int (unat v - k)))"
    using addIPv4_V4 [of "- int k" v] by (simp only: of_nat_0_le_iff simp_thms if_True)
  moreover have "unat (word_of_nat (unat v - k) :: u32) = unat v - k"
    using v by (simp add: unat_of_nat)
  ultimately show ?thesis by simp
qed

lemma configureIPv4_range:
  assumes c: "configureIPv4 (Masked P) p = Inr p'" and is4: "Is4 (prefix_Addr (Masked P))"
    and top: "ipv4Topology p \<in> {ipv4TopologySubnet, ipv4TopologyP2P, ipv4TopologyNet30}"
  shows "range_ok p'"
proof -
  obtain w b where P: "P = Prefix (V4 w) b"
    using is4 Masked_Addr4 by (metis Is4.elims(2))
  define v where "v = push_bit (32 - b) (drop_bit (32 - b) w)"
  have M: "Masked P = Prefix (V4 v) b" "Masked (Masked P) = Prefix (V4 v) b"
    unfolding Masked_idem by (simp_all add: P v_def)
  have MM: "Masked (Prefix (V4 v) b) = Prefix (V4 v) b" using M(2) unfolding M(1) .
  have bits: "16 \<le> b" "b \<le> 29" using c by (auto simp: configureIPv4_def M split: if_splits)
  have dvd: "2 ^ (32 - b) dvd unat v" unfolding v_def by (rule masked_dvd)
  define e where "e = v OR (push_bit (32 - b) 1 - 1)"
  have e: "unat e = unat v + 2 ^ (32 - b) - 1" and le: "unat v + 2 ^ (32 - b) \<le> 2 ^ 32"
    using masked_or [of b v] bits dvd by (simp_all add: e_def)
  have "(2 :: nat) ^ 3 \<le> 2 ^ (32 - b)" using bits by (intro power_increasing) simp_all
  then have h: "8 \<le> (2 :: nat) ^ (32 - b)" by simp
  have e7: "7 \<le> unat e" using e h by linarith
  have last: "lastIPv4InPrefix (Masked P) = V4 e"
    using bits unfolding lastIPv4InPrefix_def M MM by (simp add: e_def nat_diff_distrib)
  obtain s2 where s2: "addIPv4 (V4 v) 2 = V4 s2" "unat s2 = unat v + 2" using addIPv4_up [of v 2] h le by auto
  obtain s4 where s4: "addIPv4 (V4 v) 4 = V4 s4" "unat s4 = unat v + 4" using addIPv4_up [of v 4] h le by auto
  obtain e1 where e1: "addIPv4 (V4 e) (-1) = V4 e1" "unat e1 = unat e - 1" using addIPv4_down [of 1 e] e7 by auto
  obtain e4 where e4: "addIPv4 (V4 e) (-4) = V4 e4" "unat e4 = unat e - 4" using addIPv4_down [of 4 e] e7 by auto
  obtain e0 where e0: "addIPv4 (V4 e) 0 = V4 e0" "unat e0 = unat e" using addIPv4_down [of 0 e] e7 by auto
  have pfx: "ipv4Prefix p' = Prefix (V4 v) b" "ipv4Topology p' = ipv4Topology p"
    using c unfolding configureIPv4_def M(1) MM Let_def by (auto split: if_splits)
  have ends: "if ipv4Topology p = ipv4TopologySubnet then ipv4Start p' = V4 s2 \<and> ipv4End p' = V4 e1
      else ipv4Start p' = V4 s4 \<and> ipv4End p' = (if b = 29 then V4 e0 else V4 e4)"
    using c top unfolding configureIPv4_def M(1) MM last [unfolded M(1)] Let_def
    by (auto simp: s2(1) s4(1) e1(1) e4(1) e0(1) split: if_splits)
  show ?thesis
  proof (cases "ipv4Topology p = ipv4TopologySubnet")
    case True
    then show ?thesis using ends pfx bits dvd e e7 s2(2) e1(2) unfolding range_ok_def by auto
  next
    case False
    then show ?thesis
      using ends pfx bits dvd e e7 s4(2) e4(2) e0(2) unfolding range_ok_def by (cases "b = 29") auto
  qed
qed

lemma configureIPv4_tables: "configureIPv4 P p = Inr p' \<Longrightarrow> tables_empty p' = tables_empty p \<and> ipv4Topology p' = ipv4Topology p"
  by (auto simp: configureIPv4_def tables_empty_def Let_def split: if_splits)

lemma configure_v4_loop_ok:
  assumes "configure_v4_loop ps p = Inr p'" "tables_empty p" "range_ok p"
    and "ipv4Topology p \<in> {ipv4TopologySubnet, ipv4TopologyP2P, ipv4TopologyNet30}"
  shows "tables_empty p' \<and> range_ok p'"
  using assms
proof (induction ps p rule: configure_v4_loop.induct)
  case (2 P ps pool)
  show ?case
  proof (cases "\<not> prefix_IsValid P \<or> \<not> Is4 (prefix_Addr (Masked P)) \<or> prefix_IsValid (ipv4Prefix pool)")
    case True
    then show ?thesis using 2 by (auto split: if_splits)
  next
    case False
    then obtain q where q: "configureIPv4 (Masked P) pool = Inr q" "configure_v4_loop ps q = Inr p'"
      using 2 by (auto split: sum.splits)
    then have "range_ok q" "tables_empty q" "ipv4Topology q = ipv4Topology pool"
      using configureIPv4_range configureIPv4_tables False 2(5,7) by blast+
    then show ?thesis using 2 q False by simp
  qed
qed simp

lemma configure_v6_loop_ok:
  "tables_empty p \<Longrightarrow> range_ok p \<Longrightarrow> tables_empty (configure_v6_loop ps p) \<and> range_ok (configure_v6_loop ps p)"
  by (induction ps p rule: configure_v6_loop.induct) (simp_all add: Let_def tables_empty_def range_ok_def HasIPv4_def)

lemma pool_configured_ok: "pool_configured p \<Longrightarrow> tables_empty p \<and> range_ok p"
proof (induction rule: pool_configured.induct)
  case (pc_new ps topology p)
  then obtain r where r: "resolveIPv4PoolTopology topology = Inr r" by (auto simp: newIPPool_def split: sum.splits)
  then have "r \<in> {ipv4TopologySubnet, ipv4TopologyP2P, ipv4TopologyNet30}"
    by (auto simp: resolveIPv4PoolTopology_def split: if_splits)
  with pc_new r show ?case
    by (auto simp: newIPPool_def split: sum.splits intro!: configure_v6_loop_ok dest!: configure_v4_loop_ok)
      (simp_all add: tables_empty_def range_ok_def HasIPv4_def)
qed (auto simp: SetServerIPv4_def SetServerIPv6_def tables_empty_def range_ok_def HasIPv4_def split: if_splits)

lemma pool_ok_commit4:
  assumes "pool_ok p" "HasIPv4 p" "l \<in> set (ipv4_leases p)"
  shows "pool_ok (commitIPv4Lease l i p)"
proof -
  let ?q = "commitIPv4Lease l i p"
  note s = same_range_ops(1) [of l i p]
  have aff: "affine (ipv4Identity ?q) (ipv4Address ?q)"
    using assms affine_commit lease_of(1) [OF assms] by (simp add: pool_ok_def commitIPv4Lease_fields)
  have "ran (ipv4Address ?q) \<subseteq> insert (Client l) (ran (ipv4Address p))"
    using assms(1) by (auto simp: commitIPv4Lease_fields commit_address_def affine_without_owner pool_ok_def
        ran_def split: if_splits)
  then have "\<forall>a \<in> ran (ipv4Address ?q). ipv4Lease a ?q \<in> set (ipv4_leases ?q)"
    using assms(1,3) lease_of(2) [OF assms]
    unfolding ipv4_leases_cong [OF s] ipv4Lease_cong [OF s] pool_ok_def by (metis insertE subsetD)
  moreover have "ran (ipv4Released ?q) \<subseteq> ran (ipv4Released p)"
    by (auto simp: commitIPv4Lease_fields vacate_def ran_def split: if_splits)
  ultimately show ?thesis
    using aff assms(1) range_ok_cong [OF s] by (auto simp: pool_ok_def) (simp add: commitIPv4Lease_fields)
qed

lemma pool_ok_commit6:
  assumes "pool_ok p" "IsValid a"
  shows "pool_ok (commitIPv6Address a i p)"
  using assms affine_commit range_ok_cong [OF same_range_ops(2)] ipv4_leases_cong [OF same_range_ops(2)]
    ipv4Lease_cong [OF same_range_ops(2)]
  unfolding pool_ok_def by (simp add: commitIPv6Address_fields)

lemma pool_ok_release:
  assumes "pool_ok p" "0 < now"
  shows "pool_ok (pool_Release now a p)"
proof -
  note s = same_range_ops(3) [of now a p]
  have "ran (ipv4Released (pool_Release now a p)) \<subseteq> insert now (ran (ipv4Released p))"
    by (auto simp: pool_Release_def ran_def split: if_splits)
  moreover have "ipv4Address (pool_Release now a p) = ipv4Address p" "ipv4Identity (pool_Release now a p) = ipv4Identity p"
    "ipv6Address (pool_Release now a p) = ipv6Address p" "ipv6Identity (pool_Release now a p) = ipv6Identity p"
    by (simp_all add: pool_Release_def)
  ultimately show ?thesis
    using assms range_ok_cong [OF s] unfolding pool_ok_def ipv4_leases_cong [OF s] ipv4Lease_cong [OF s] by auto
qed

lemma pool_reach_ok: "pool_reach p \<Longrightarrow> pool_ok p"
proof (induction rule: pool_reach.induct)
  case (pr_start p)
  then show ?case using pool_configured_ok by (auto simp: pool_ok_def tables_empty_def affine_def)
next
  case (pr_step p c)
  show ?case
  proof (cases c)
    case (Alloc4 i)
    obtain r p' where al: "AllocateIPv4ForIdentity i p = (r, p')" by fastforce
    show ?thesis
    proof (cases "HasIPv4 p")
      case True
      then show ?thesis
        using allocate_spec [OF pr_step.IH True al] pool_ok_commit4 [OF pr_step.IH True] al pr_step.IH
        by (cases r) (auto simp: Alloc4 available_in)
    next
      case False
      then show ?thesis using pr_step.IH by (simp add: Alloc4 AllocateIPv4ForIdentity_def)
    qed
  next
    case (Alloc6 i)
    obtain r p' where al: "AllocateIPv6ForIdentity i p = (r, p')" by fastforce
    show ?thesis
      using AllocateIPv6_cases [OF al] pool_ok_commit6 [OF pr_step.IH] Contains_valid al pr_step.IH
      by (cases r) (auto simp: Alloc6)
  next
    case (Free now a)
    then show ?thesis using pr_step pool_ok_release by simp
  qed
qed

section \<open>Properties\<close>

text \<open>
  C19. No address is held twice: when two operations of a run hand out the same address, for the same
  or for different identities, some operation between them has released it. This holds for both
  families and from every state of the pool.
\<close>

theorem pool_never_gives_twice:
  assumes "i < j" "j < length ops"
    and "gives4 (ops ! i) (fold pool_step (take i ops) p) = Some a \<and> gives4 (ops ! j) (fold pool_step (take j ops) p) = Some a \<or>
         gives6 (ops ! i) (fold pool_step (take i ops) p) = Some a \<and> gives6 (ops ! j) (fold pool_step (take j ops) p) = Some a"
  shows "\<exists>k now. i < k \<and> k < j \<and> ops ! k = Free now a"
proof -
  obtain k where "i < k" "k < j" "frees (ops ! k) = Some a"
    using assms ledger4.not_given_twice [of i j ops p a] ledger6.not_given_twice [of i j ops p a] by blast
  then show ?thesis by (cases "ops ! k") auto
qed

text \<open>
  C20. An IPv4 allocation of a pool in use chooses well: it fails only with \<open>ErrIPPoolExhausted\<close>, when
  every lease is in use, and then leaves the pool alone; otherwise the lease is a free one of the pool, the client
  address is marked used and remembered for the identity, a returning identity gets its previous
  address back if that is free, and anyone else gets the first free lease (no identity) or the one
  whose last release is the longest ago, never-released leases first (with an identity).
\<close>

theorem ipv4_allocation:
  assumes "pool_reach p" "HasIPv4 p" "AllocateIPv4ForIdentity i p = (r, p')"
  shows "case r of
           Inl e \<Rightarrow> e = Sentinel ErrIPPoolExhausted \<and> p' = p \<and> available p = []
         | Inr l \<Rightarrow> l \<in> set (available p) \<and> ipv4UsedSet p' = insert (Client l) (ipv4UsedSet p) \<and>
             (i \<noteq> [] \<longrightarrow> ipv4Address p' i = Some (Client l) \<and> ipv4Identity p' (Client l) = Some i) \<and>
             (if \<exists>a. ipv4Address p i = Some a \<and> a \<notin> ipv4UsedSet p then ipv4Address p i = Some (Client l)
              else l = arg_min_list (if i = [] then (\<lambda>_. 0) else release_time p) (available p))"
  using allocate_spec [OF pool_reach_ok [OF assms(1)] assms(2,3)]
  by (cases r) (auto simp: commitIPv4Lease_fields commit_address_def commit_identity_def)

text \<open>
  C21. Every lease of a configured pool is a usable host address: it lies in the configured prefix, is
  neither the network address nor the server's address, is not the broadcast address in the subnet
  topology, and has the peer that the topology asks for.
\<close>

theorem ipv4_leases_usable:
  assumes "pool_reach p" "HasIPv4 p" "l \<in> set (ipv4_leases p)"
  shows "Contains (ipv4Prefix p) (Client l) \<and> Client l \<noteq> prefix_Addr (ipv4Prefix p) \<and>
         Client l \<noteq> ipv4Server p \<and> l = ipv4Lease (Client l) p \<and>
         (ipv4Topology p = ipv4TopologySubnet \<longrightarrow> Client l \<noteq> lastIPv4InPrefix (ipv4Prefix p))"
proof -
  have "range_ok p" using pool_reach_ok [OF assms(1)] by (simp add: pool_ok_def)
  then obtain v b s e where p: "ipv4Prefix p = Prefix (V4 v) b" "16 \<le> b" "b \<le> 29" "2 ^ (32 - b) dvd unat v"
    "ipv4Start p = V4 s" "ipv4End p = V4 e" "unat v + 2 \<le> unat s"
    "unat e + (if ipv4Topology p = ipv4TopologySubnet then 1 else 0) < unat v + 2 ^ (32 - b)"
    using assms(2) by (auto simp: range_ok_def)
  from leases_sound [OF assms(3) p(5,6)] obtain w where
    w: "Client l = V4 w" "s \<le> w" "w \<le> e" "Client l \<noteq> ipv4Server p" "l = ipv4Lease (V4 w) p" by blast
  then have u: "unat v + 2 \<le> unat w" "unat w \<le> unat e" using p(7) by (simp_all add: word_le_nat_alt)
  obtain k where k: "unat v = 2 ^ (32 - b) * k" using p(4) by (elim dvdE)
  have "unat w < unat v + 2 ^ (32 - b)" using p(8) u(2) by (simp split: if_splits)
  then have "unat w div 2 ^ (32 - b) = k" "unat v div 2 ^ (32 - b) = k" using k u by (simp_all add: div_nat_eqI)
  then have "unat (drop_bit (32 - b) w) = unat (drop_bit (32 - b) v)"
    unfolding unat_drop_bit_eq by (simp add: drop_bit_eq_div)
  then have "drop_bit (32 - b) w = drop_bit (32 - b) v" by (simp only: word_unat_eq_iff)
  then have "Contains (ipv4Prefix p) (Client l)" by (simp add: p(1) w(1) drop_bit_xor)
  moreover have "w \<noteq> v" using u by auto
  moreover have "V4 w \<noteq> lastIPv4InPrefix (Prefix (V4 v) b)" if "ipv4Topology p = ipv4TopologySubnet"
  proof -
    have "push_bit (32 - b) (drop_bit (32 - b) v) = v"
      using bits_ident [of "32 - b" v] dvd_take_bit [OF p(4)] by simp
    then show ?thesis
      using masked_or(1) [of b v] p u that by (auto simp: lastIPv4InPrefix_def nat_diff_distrib)
  qed
  ultimately show ?thesis using w p(1) by auto
qed

text \<open>A pool over 10.8.0.0/29 in the subnet topology: the server is .1, the clients .2 to .6.\<close>

definition sample_pool :: ipPool where
  "sample_pool =
     \<lparr>ipv4Prefix = Prefix (V4 0x0a080000) 29, ipv4Topology = ipv4TopologySubnet, ipv4Server = V4 0x0a080001,
      ipv4Start = V4 0x0a080002, ipv4End = V4 0x0a080006, ipv4UsedSet = {}, ipv4Identity = Map.empty,
      ipv4Address = Map.empty, ipv4Released = Map.empty,
      ipv6Prefix = NoPrefix, ipv6Server = NoAddr, ipv6UsedSet = {}, ipv6Identity = Map.empty,
      ipv6Address = Map.empty, ipv6Released = Map.empty\<rparr>"

lemma sample_pool_new: "newIPPool [Prefix (V4 0x0a080000) 29] ''subnet'' = Inr sample_pool"
  by (simp add: newIPPool_def resolveIPv4PoolTopology_def topologies configureIPv4_def lastIPv4InPrefix_def
        addIPv4_def int64_def signed_take_bit_def take_bit_eq_mod sample_pool_def)

lemma sample_pool_reach: "pool_reach sample_pool"
  by (rule pr_start, rule pc_new, rule sample_pool_new)

lemma sample_pool_leases:
  "ipv4_leases sample_pool = map (\<lambda>w. \<lparr>Client = V4 w, Peer = NoAddr\<rparr>)
     [0x0a080002, 0x0a080003, 0x0a080004, 0x0a080005, 0x0a080006]"
  by (simp add: ipv4_leases_def visitIPv4Leases_def sample_pool_def topologies visit_addresses.simps)

abbreviation sample_lease :: ipv4PoolLease where
  "sample_lease \<equiv> \<lparr>Client = V4 0x0a080002, Peer = NoAddr\<rparr>"

lemma sample_pool_has: "HasIPv4 sample_pool" "ipv4Address sample_pool = Map.empty" "ipv4UsedSet sample_pool = {}"
  by (simp_all add: HasIPv4_def sample_pool_def)

lemma sample_pool_allocate:
  "AllocateIPv4ForIdentity [] sample_pool = (Inr sample_lease, commitIPv4Lease sample_lease [] sample_pool)"
  by (simp add: AllocateIPv4ForIdentity_def sample_pool_has select_ok [OF pool_reach_ok [OF sample_pool_reach]]
        available_def sample_pool_leases)

lemma sample_pool_release: "pool_Release 1 (V4 0x0a080002) (commitIPv4Lease sample_lease [] sample_pool) = sample_pool"
  by (simp add: pool_Release_def commitIPv4Lease_fields commit_identity_def commit_address_def without_owner_def
        drops_owner_def vacate_def moves_def sample_pool_def fun_upd_idem_iff)

theorem pool_never_gives_twice_witness:
  "\<exists>k now. 0 < k \<and> k < 2 \<and> [Alloc4 [], Free 1 (V4 0x0a080002), Alloc4 []] ! k = Free now (V4 0x0a080002)"
  by (rule pool_never_gives_twice [of 0 2 _ sample_pool])
    (simp_all add: sample_pool_allocate sample_pool_release eval_nat_numeral)

theorem ipv4_allocation_witness: "sample_lease \<in> set (available sample_pool)"
  using ipv4_allocation [OF sample_pool_reach sample_pool_has(1) sample_pool_allocate] by simp

theorem ipv4_leases_usable_witness: "Contains (Prefix (V4 0x0a080000) 29) (V4 0x0a080002)"
proof -
  have "sample_lease \<in> set (ipv4_leases sample_pool)" by (simp add: sample_pool_leases)
  from ipv4_leases_usable [OF sample_pool_reach sample_pool_has(1) this]
  show ?thesis by (simp add: sample_pool_def)
qed

end
