(* ===== verification/Route_Registry.thy ===== *)
theory Route_Registry
  imports Netip
begin

text \<open>
  The table that routes IP packets to the peers of the server and decides whether a peer may send
  from an address (\<open>peer_route_registry.go\<close>). A \<open>*tlsPeerSession\<close> is a reference: a number, or
  None for nil. The table is compared with the history of registrations.
\<close>

type_synonym session_ref = "nat option"

record peerRoute =
  peerAddress :: string
  route_session :: session_ref

abbreviation no_route :: peerRoute where
  "no_route \<equiv> \<lparr>peerAddress = [], route_session = None\<rparr>"

type_synonym peerRouteRegistry = "addr \<rightharpoonup> peerRoute"

record peerRouteLookup =
  lookup_route :: peerRoute
  lookup_destination :: addr
  lookup_found :: bool

record peerSourceOwnership =
  sourceAddress :: addr
  owned :: bool

definition newPeerRouteRegistry :: peerRouteRegistry where
  "newPeerRouteRegistry = Map.empty"

definition Register :: "addr \<Rightarrow> string \<Rightarrow> session_ref \<Rightarrow> peerRouteRegistry \<Rightarrow> peerRouteRegistry" where
  "Register address peer session r =
     (if \<not> IsValid address \<or> peer = [] then r
      else r(address \<mapsto> \<lparr>peerAddress = peer, route_session = session\<rparr>))"

definition Unregister :: "addr \<Rightarrow> peerRouteRegistry \<Rightarrow> peerRouteRegistry" where
  "Unregister address r = (if \<not> IsValid address then r else r(address := None))"

section \<open>Addresses of an IP packet\<close>

definition AddrFrom4 :: "bytes \<Rightarrow> addr" where
  "AddrFrom4 bs = V4 (get_u32 bs)"

definition AddrFrom16 :: "bytes \<Rightarrow> addr" where
  "AddrFrom16 bs = V6 (foldl (\<lambda>v b. push_bit 8 v OR ucast b) 0 bs) []"

definition sourceFromIPPacket :: "bytes \<Rightarrow> addr option" where
  "sourceFromIPPacket packet =
     (if packet = [] then None
      else if drop_bit 4 (packet ! 0) = 4 then
        if length packet < 20 then None
        else
          let headerLength = unat (packet ! 0 AND 0x0f) * 4
          in if headerLength < 20 \<or> length packet < headerLength then None
             else
               let totalLength = unat (get_u16 (drop 2 packet))
               in if totalLength < headerLength \<or> totalLength \<noteq> length packet then None
                  else Some (AddrFrom4 (take 4 (drop 12 packet)))
      else if drop_bit 4 (packet ! 0) = 6 then
        if length packet < 40 then None
        else if unat (get_u16 (drop 4 packet)) \<noteq> length packet - 40 then None
        else Some (AddrFrom16 (take 16 (drop 8 packet)))
      else None)"

definition destinationFromIPPacket :: "bytes \<Rightarrow> addr option" where
  "destinationFromIPPacket packet =
     (if packet = [] then None
      else if drop_bit 4 (packet ! 0) = 4 then
        if length packet < 20 then None else Some (AddrFrom4 (take 4 (drop 16 packet)))
      else if drop_bit 4 (packet ! 0) = 6 then
        if length packet < 40 then None else Some (AddrFrom16 (take 16 (drop 24 packet)))
      else None)"

section \<open>Lookups\<close>

definition lookup_packet :: "peerRouteRegistry \<Rightarrow> bytes \<Rightarrow> peerRouteLookup" where
  "lookup_packet r ipPacket =
     (case destinationFromIPPacket ipPacket of
        None \<Rightarrow> \<lparr>lookup_route = no_route, lookup_destination = NoAddr, lookup_found = False\<rparr>
      | Some destination \<Rightarrow>
          \<lparr>lookup_route = (case r destination of Some route \<Rightarrow> route | None \<Rightarrow> no_route),
           lookup_destination = destination, lookup_found = r destination \<noteq> None\<rparr>)"

definition LookupPackets :: "bytes list \<Rightarrow> peerRouteRegistry \<Rightarrow> peerRouteLookup list" where
  "LookupPackets ipPackets r = map (lookup_packet r) ipPackets"

definition candidate_source :: "session_ref \<Rightarrow> bytes \<Rightarrow> peerSourceOwnership" where
  "candidate_source session ipPacket =
     (case sourceFromIPPacket ipPacket of
        None \<Rightarrow> \<lparr>sourceAddress = NoAddr, owned = False\<rparr>
      | Some a \<Rightarrow> \<lparr>sourceAddress = a, owned = (session \<noteq> None \<and> \<not> (Is6 a \<and> IsLinkLocalUnicast a))\<rparr>)"

definition SourcesOwnedBy :: "bytes list \<Rightarrow> session_ref \<Rightarrow> peerRouteRegistry \<Rightarrow> peerSourceOwnership list" where
  "SourcesOwnedBy ipPackets session r =
     map (\<lambda>w. if \<not> owned w then w
              else w\<lparr>owned := (case r (sourceAddress w) of
                                 None \<Rightarrow> False | Some owner \<Rightarrow> route_session owner = session)\<rparr>)
       (map (candidate_source session) ipPackets)"

section \<open>The table is the history of registrations\<close>

datatype registry_op = Reg addr string session_ref | Unreg addr

fun registry_step :: "registry_op \<Rightarrow> peerRouteRegistry \<Rightarrow> peerRouteRegistry" where
  "registry_step (Reg a peer s) r = Register a peer s r"
| "registry_step (Unreg a) r = Unregister a r"

text \<open>The operation that decides about an address: the last effective one that names it.\<close>

fun names :: "addr \<Rightarrow> registry_op \<Rightarrow> bool" where
  "names a (Reg b peer _) \<longleftrightarrow> a = b \<and> peer \<noteq> []"
| "names a (Unreg b) \<longleftrightarrow> a = b"

definition latest :: "addr \<Rightarrow> registry_op list \<Rightarrow> registry_op option" where
  "latest a ops = find (names a) (rev ops)"

lemma latest_snoc: "latest a (ops @ [c]) = (if names a c then Some c else latest a ops)"
  by (simp add: latest_def)

lemma registry_history:
  assumes "IsValid a"
  shows "fold registry_step ops newPeerRouteRegistry a =
         (case latest a ops of
            Some (Reg _ peer s) \<Rightarrow> Some \<lparr>peerAddress = peer, route_session = s\<rparr>
          | _ \<Rightarrow> None)"
proof (induction ops rule: rev_induct)
  case (snoc c ops)
  then show ?case
    using assms by (cases c) (auto simp: latest_snoc Register_def Unregister_def split: option.splits registry_op.splits)
qed (simp add: newPeerRouteRegistry_def latest_def)

lemma sourceFromIPPacket_valid: "sourceFromIPPacket packet = Some a \<Longrightarrow> IsValid a"
  by (auto simp: sourceFromIPPacket_def AddrFrom4_def AddrFrom16_def Let_def split: if_splits)

lemma destinationFromIPPacket_valid: "destinationFromIPPacket packet = Some a \<Longrightarrow> IsValid a"
  by (auto simp: destinationFromIPPacket_def AddrFrom4_def AddrFrom16_def split: if_splits)

text \<open>
  C22. A peer may send a packet exactly when the packet is a well-formed IP packet whose source address, not an IPv6
  link-local one, was last registered to that very session: after any history of registrations, a session never gets
  through with an address that was registered to another one or unregistered since. Destinations
  are routed by the same history.
\<close>

theorem registry_isolates_peers:
  assumes "i < length packets"
  shows "let r = fold registry_step ops newPeerRouteRegistry;
             ownership = SourcesOwnedBy packets (Some s) r ! i; lookup = LookupPackets packets r ! i
         in (owned ownership \<longleftrightarrow>
               (\<exists>a peer. sourceFromIPPacket (packets ! i) = Some a \<and> \<not> (Is6 a \<and> IsLinkLocalUnicast a) \<and>
                  latest a ops = Some (Reg a peer (Some s)))) \<and>
            (lookup_found lookup \<longleftrightarrow>
               (\<exists>a peer s'. destinationFromIPPacket (packets ! i) = Some a \<and>
                  latest a ops = Some (Reg a peer s') \<and> lookup_route lookup = \<lparr>peerAddress = peer, route_session = s'\<rparr>))"
proof -
  have nm: "latest a ops = Some (Reg b peer s') \<Longrightarrow> b = a" for a b peer s'
    by (auto simp: latest_def find_Some_iff dest!: sym [of "Reg _ _ _"])
  show ?thesis
    unfolding Let_def
  proof (rule conjI, goal_cases)
    case 1
    show ?case
      using assms sourceFromIPPacket_valid [of "packets ! i"] registry_history [of _ ops] nm
      by (auto simp: SourcesOwnedBy_def candidate_source_def split: option.splits registry_op.splits)
  next
    case 2
    show ?case
      using assms destinationFromIPPacket_valid [of "packets ! i"] registry_history [of _ ops] nm
      by (auto simp: LookupPackets_def lookup_packet_def split: option.splits registry_op.splits)
  qed
qed

definition sample_packet :: bytes where
  "sample_packet = [0x45, 0, 0, 20, 0, 0, 0, 0, 64, 6, 0, 0, 10, 8, 0, 2, 10, 8, 0, 1]"

theorem registry_isolates_peers_witness:
  "owned (SourcesOwnedBy [sample_packet] (Some 7)
     (fold registry_step [Reg (V4 0x0a080002) ''peer'' (Some 7)] newPeerRouteRegistry) ! 0)"
proof -
  have "sourceFromIPPacket sample_packet = Some (V4 0x0a080002)"
    by (simp add: sourceFromIPPacket_def AddrFrom4_def sample_packet_def)
  moreover have "latest (V4 0x0a080002) [Reg (V4 0x0a080002) ''peer'' (Some 7)] = Some (Reg (V4 0x0a080002) ''peer'' (Some 7))"
    by (simp add: latest_def)
  ultimately show ?thesis
    using registry_isolates_peers [of 0 "[sample_packet]" "[Reg (V4 0x0a080002) ''peer'' (Some 7)]" 7]
    unfolding Let_def by auto
qed

end
