(* ===== verification/Control_Wrap.thy ===== *)
theory Control_Wrap
  imports Data_Channel Packet
begin

text \<open>
  The protection of control packets, control_wrap.go: packet ids with timestamps, tls-auth (an HMAC
  next to the packet), tls-crypt (an HMAC that doubles as the IV of a CTR encryption) and tls-crypt-v2
  (the client sends its own tls-crypt key, wrapped under a server key, with its first packets).
  Keys, hashes and AES come from \<open>crypto\<close>; the current Unix time and the clock of the replay window are
  arguments. A codec is a pointer in the code, so it is an \<open>option\<close> here, and every method that changes
  what it points to returns the new value.
\<close>

section \<open>Constants and key material\<close>

definition tlsControlHeaderLength :: nat where "tlsControlHeaderLength = 9"
definition tlsControlPacketIDLength :: nat where "tlsControlPacketIDLength = 8"
definition tlsCryptTagLength :: nat where "tlsCryptTagLength = 32"
definition tlsCryptBlockLength :: nat where "tlsCryptBlockLength = 16"
definition tlsCryptV2ClientKeyDataLength :: nat where "tlsCryptV2ClientKeyDataLength = 256"
definition tlsCryptV2ServerKeyLength :: nat where "tlsCryptV2ServerKeyLength = 128"
definition tlsCryptKeyDirectionNormal :: int where "tlsCryptKeyDirectionNormal = 0"
definition tlsCryptKeyDirectionInverse :: int where "tlsCryptKeyDirectionInverse = 1"
definition tlsCryptV2ClientPEMType :: string where "tlsCryptV2ClientPEMType = ''OpenVPN tls-crypt-v2 client key''"
definition tlsCryptV2ServerPEMType :: string where "tlsCryptV2ServerPEMType = ''OpenVPN tls-crypt-v2 server key''"
definition tlsCryptV2EarlyNegotiationStart :: u32 where "tlsCryptV2EarlyNegotiationStart = 0x0f000000"
definition tlsCryptV2TLVTypeEarlyNegotiationFlags :: u16 where "tlsCryptV2TLVTypeEarlyNegotiationFlags = 1"
definition tlsCryptV2EarlyNegotiationFlagResendWKC :: u16 where "tlsCryptV2EarlyNegotiationFlagResendWKC = 1"

lemmas wrap_consts = tlsControlHeaderLength_def tlsControlPacketIDLength_def tlsCryptTagLength_def
  tlsCryptBlockLength_def tlsCryptV2ClientKeyDataLength_def tlsCryptV2ServerKeyLength_def

text \<open>A configured source: a path or the content itself. \<open>readFile\<close> is \<open>os.ReadFile\<close>.\<close>

record Material =
  Path :: string
  Content :: bytes

definition mat_Validate :: "Material \<Rightarrow> string \<Rightarrow> unit result" where
  "mat_Validate m name =
     (if Path m \<noteq> [] \<and> Content m \<noteq> [] then Inl (Extend ErrMaterialSourceConflict name) else Inr ())"

definition mat_IsSet :: "Material \<Rightarrow> bool" where
  "mat_IsSet m \<longleftrightarrow> Path m \<noteq> [] \<or> Content m \<noteq> []"

definition loadMaterial :: "(string \<Rightarrow> bytes result) \<Rightarrow> Material \<Rightarrow> bytes result" where
  "loadMaterial readFile m =
     bindE (mat_Validate m ''material'') (\<lambda>_.
       if Content m \<noteq> [] then Inr (Content m)
       else if Path m = [] then Inr []
       else readFile (Path m))"

text \<open>\<open>pemDecode\<close> is \<open>pem.Decode\<close>: the type and the bytes of the first block, if there is one.\<close>

type_synonym pem_decoder = "bytes \<Rightarrow> (string \<times> bytes) option"

definition loadNamedPEMBytes ::
  "(string \<Rightarrow> bytes result) \<Rightarrow> pem_decoder \<Rightarrow> Material \<Rightarrow> string \<Rightarrow> bytes result" where
  "loadNamedPEMBytes readFile pemDecode input expectedType =
     (if \<not> mat_IsSet input then Inl (Sentinel ErrMissingStaticKey)
      else bindE (loadMaterial readFile input) (\<lambda>pemBytes.
        case pemDecode pemBytes of
          None \<Rightarrow> Inl (New ''invalid pem content'')
        | Some (blockType, blockBytes) \<Rightarrow>
            if blockType \<noteq> expectedType then Inl (New ''invalid pem content'') else Inr blockBytes))"

definition loadTLSCryptV2ClientKey ::
  "(string \<Rightarrow> bytes result) \<Rightarrow> pem_decoder \<Rightarrow> Material \<Rightarrow> (bytes \<times> bytes) result" where
  "loadTLSCryptV2ClientKey readFile pemDecode staticKey =
     bindE (loadNamedPEMBytes readFile pemDecode staticKey tlsCryptV2ClientPEMType) (\<lambda>keyBytes.
       if length keyBytes < tlsCryptV2ClientKeyDataLength then Inl (New ''invalid tls-crypt-v2 client key'')
       else
         let keyMaterial = take tlsCryptV2ClientKeyDataLength keyBytes;
             wrappedClientKey = drop tlsCryptV2ClientKeyDataLength keyBytes
         in if length wrappedClientKey = 0 then Inl (New ''missing wrapped tls-crypt-v2 client key'')
            else Inr (keyMaterial, wrappedClientKey))"

definition loadTLSCryptV2ServerKey :: "(string \<Rightarrow> bytes result) \<Rightarrow> pem_decoder \<Rightarrow> Material \<Rightarrow> bytes result" where
  "loadTLSCryptV2ServerKey readFile pemDecode staticKey =
     bindE (loadNamedPEMBytes readFile pemDecode staticKey tlsCryptV2ServerPEMType) (\<lambda>keyBytes.
       if length keyBytes < tlsCryptV2ServerKeyLength then Inl (New ''invalid tls-crypt-v2 server key'')
       else Inr (take tlsCryptV2ServerKeyLength keyBytes))"

section \<open>Packet ids\<close>

record tlsPacketIDState =
  nextID :: u32
  timestamp :: u32

definition newPacketIDState :: tlsPacketIDState where
  "newPacketIDState = \<lparr>nextID = 0, timestamp = 0\<rparr>"

definition seedNextID :: "u32 \<Rightarrow> u32 \<Rightarrow> tlsPacketIDState \<Rightarrow> tlsPacketIDState" where
  "seedNextID now n s = s\<lparr>nextID := n, timestamp := (if timestamp s = 0 then now else timestamp s)\<rparr>"

definition next_id :: "u32 \<Rightarrow> tlsPacketIDState \<Rightarrow> bytes \<times> tlsPacketIDState" where
  "next_id now s =
     (let s = (if timestamp s = 0 then s\<lparr>timestamp := now\<rparr> else s);
          s = (if nextID s = 0xFFFFFFFF
               then s\<lparr>timestamp := (if timestamp s < now then now else timestamp s), nextID := 0\<rparr> else s);
          s = s\<lparr>nextID := nextID s + 1\<rparr>
      in (put_u32 (nextID s) @ put_u32 (timestamp s), s))"

section \<open>tls-auth\<close>

record controlAuthCodec =
  auth_sendKey :: bytes
  auth_receiveKeys :: "bytes list"
  auth_sendState :: tlsPacketIDState
  auth_receiveState :: "replayWindow option"
  auth_hashFactory :: hashFactory
  auth_digestSize :: nat

definition auth_newSessionCodec :: "controlAuthCodec option \<Rightarrow> controlAuthCodec option" where
  "auth_newSessionCodec c =
     (case c of None \<Rightarrow> None
      | Some c \<Rightarrow> Some (c\<lparr>auth_sendState := newPacketIDState,
                         auth_receiveState := Some (newReplayWindow defaultReplayWindowSize defaultReplayWindowTime)\<rparr>))"

definition newControlAuthCodecWithAuth :: "bytes result \<Rightarrow> int \<Rightarrow> string \<Rightarrow> controlAuthCodec result" where
  "newControlAuthCodecWithAuth staticKey keyDirection authName =
     bindE (loadStaticKeyMaterialFromSource staticKey) (\<lambda>staticKeyMaterial.
     bindE (staticHMACFactory authName) (\<lambda>(factory, digestSize).
     case factory of
       None \<Rightarrow> Inl (New ''tls-auth requires a non-NONE auth algorithm'')
     | Some hashFactory \<Rightarrow>
         if digestSize = 0 then Inl (New ''tls-auth requires a non-NONE auth algorithm'')
         else
           let keySlots = splitStaticKeyMaterial staticKeyMaterial;
               (sendSlotIndex, receiveSlotIndex, receiveFallbackIndex) = resolveStaticKeyDirection keyDirection;
               receiveKeys = [take digestSize (hmacKey (keySlots ! receiveSlotIndex))];
               receiveKeys = (if receiveFallbackIndex \<noteq> receiveSlotIndex
                              then receiveKeys @ [take digestSize (hmacKey (keySlots ! receiveFallbackIndex))]
                              else receiveKeys)
           in Inr \<lparr>auth_sendKey = take digestSize (hmacKey (keySlots ! sendSlotIndex)),
                   auth_receiveKeys = receiveKeys, auth_sendState = newPacketIDState,
                   auth_receiveState = Some (newReplayWindow defaultReplayWindowSize defaultReplayWindowTime),
                   auth_hashFactory = hashFactory, auth_digestSize = digestSize\<rparr>))"

definition auth_encodeControlPacket ::
  "crypto \<Rightarrow> u32 \<Rightarrow> controlAuthCodec option \<Rightarrow> bytes \<Rightarrow> bytes \<times> controlAuthCodec option" where
  "auth_encodeControlPacket C now codec rawPacket =
     (case codec of
        None \<Rightarrow> (rawPacket, None)
      | Some c \<Rightarrow>
          if length rawPacket < tlsControlHeaderLength then (rawPacket, Some c)
          else case next_id now (auth_sendState c) of (packetID, sendState) \<Rightarrow>
            let digest = hmacSum C (auth_hashFactory c) (auth_sendKey c) (packetID @ rawPacket)
            in (take tlsControlHeaderLength rawPacket @ digest @ packetID @ drop tlsControlHeaderLength rawPacket,
                Some (c\<lparr>auth_sendState := sendState\<rparr>)))"

text \<open>The loop over the receive keys: the first key whose digest matches decides.\<close>

fun auth_try_keys ::
  "crypto \<Rightarrow> clock \<Rightarrow> hashFactory \<Rightarrow> bytes \<Rightarrow> bytes \<Rightarrow> u32 \<times> u32 \<Rightarrow> replayWindow option \<Rightarrow> bytes list \<Rightarrow>
     bool \<times> replayWindow option" where
  "auth_try_keys C clock h authInput receivedDigest stamp w [] = (False, w)"
| "auth_try_keys C clock h authInput receivedDigest stamp w (receiveKey # keys) =
     (if receivedDigest \<noteq> hmacSum C h receiveKey authInput
      then auth_try_keys C clock h authInput receivedDigest stamp w keys
      else window_check AcceptLongForm clock w stamp)"

definition get_stamp :: "bytes \<Rightarrow> u32 \<times> u32" where
  "get_stamp packetIDBytes = (get_u32 (drop 4 packetIDBytes), get_u32 packetIDBytes)"

definition auth_decodeControlPacket ::
  "crypto \<Rightarrow> clock \<Rightarrow> controlAuthCodec option \<Rightarrow> bytes \<Rightarrow> bytes option \<times> controlAuthCodec option" where
  "auth_decodeControlPacket C clock codec rawPacket =
     (case codec of
        None \<Rightarrow> (None, None)
      | Some c \<Rightarrow>
          if length rawPacket < tlsControlHeaderLength + auth_digestSize c + tlsControlPacketIDLength then (None, Some c)
          else
            let header = take tlsControlHeaderLength rawPacket;
                receivedDigest = take (auth_digestSize c) (drop tlsControlHeaderLength rawPacket);
                packetIDBytes = take tlsControlPacketIDLength (drop (tlsControlHeaderLength + auth_digestSize c) rawPacket);
                body = drop (tlsControlHeaderLength + auth_digestSize c + tlsControlPacketIDLength) rawPacket;
                authInput = packetIDBytes @ header @ body
            in case auth_try_keys C clock (auth_hashFactory c) authInput receivedDigest (get_stamp packetIDBytes)
                      (auth_receiveState c) (auth_receiveKeys c) of (ok, w) \<Rightarrow>
                 (if ok then Some (header @ body) else None, Some (c\<lparr>auth_receiveState := w\<rparr>)))"

section \<open>tls-crypt\<close>

record controlCryptCandidate =
  encryptBlock :: block
  authKey :: bytes

record controlCryptCodec =
  sendEncryptBlock :: block
  sendAuthKey :: bytes
  crypt_receiveCandidates :: "controlCryptCandidate list"
  crypt_sendState :: tlsPacketIDState
  crypt_receiveState :: "replayWindow option"

definition crypt_newSessionCodec :: "controlCryptCodec option \<Rightarrow> controlCryptCodec option" where
  "crypt_newSessionCodec c =
     (case c of None \<Rightarrow> None
      | Some c \<Rightarrow> Some (c\<lparr>crypt_sendState := newPacketIDState,
                         crypt_receiveState := Some (newReplayWindow defaultReplayWindowSize defaultReplayWindowTime)\<rparr>))"

definition newControlCryptKeys :: "crypto \<Rightarrow> staticKeySlot \<Rightarrow> controlCryptCandidate result" where
  "newControlCryptKeys C keySlot =
     bindE (newBlock C aes_NewCipher (take 32 (cipherKey keySlot))) (\<lambda>encryptBlock.
       Inr \<lparr>encryptBlock = encryptBlock, authKey = take 32 (hmacKey keySlot)\<rparr>)"

definition newControlCryptCodecFromMaterial :: "crypto \<Rightarrow> bytes \<Rightarrow> int \<Rightarrow> controlCryptCodec result" where
  "newControlCryptCodecFromMaterial C staticKeyMaterial keyDirection =
     (let keySlots = splitStaticKeyMaterial staticKeyMaterial;
          (sendSlotIndex, receiveSlotIndex, receiveFallbackIndex) = resolveStaticKeyDirection keyDirection
      in bindE (newControlCryptKeys C (keySlots ! sendSlotIndex)) (\<lambda>send.
         bindE (newControlCryptKeys C (keySlots ! receiveSlotIndex)) (\<lambda>receive.
         bindE (if receiveFallbackIndex \<noteq> receiveSlotIndex
                then bindE (newControlCryptKeys C (keySlots ! receiveFallbackIndex)) (\<lambda>fallback. Inr [receive, fallback])
                else Inr [receive]) (\<lambda>candidates.
         Inr \<lparr>sendEncryptBlock = encryptBlock send, sendAuthKey = authKey send,
              crypt_receiveCandidates = candidates, crypt_sendState = newPacketIDState,
              crypt_receiveState = Some (newReplayWindow defaultReplayWindowSize defaultReplayWindowTime)\<rparr>))))"

definition newControlCryptCodec :: "crypto \<Rightarrow> bytes result \<Rightarrow> int \<Rightarrow> controlCryptCodec result" where
  "newControlCryptCodec C staticKey keyDirection =
     bindE (loadStaticKeyMaterialFromSource staticKey) (\<lambda>staticKeyMaterial.
       newControlCryptCodecFromMaterial C staticKeyMaterial keyDirection)"

text \<open>
  \<open>NewCTR\<close> takes the first 16 bytes of the tag as its counter; the blocks are AES blocks, for which
  this is the block size.
\<close>

definition crypt_encodeControlPacket ::
  "crypto \<Rightarrow> u32 \<Rightarrow> controlCryptCodec option \<Rightarrow> bytes \<Rightarrow> bytes \<times> controlCryptCodec option" where
  "crypt_encodeControlPacket C now codec rawPacket =
     (case codec of
        None \<Rightarrow> (rawPacket, None)
      | Some c \<Rightarrow>
          if length rawPacket < tlsControlHeaderLength then (rawPacket, Some c)
          else
            let header = take tlsControlHeaderLength rawPacket;
                body = drop tlsControlHeaderLength rawPacket
            in case next_id now (crypt_sendState c) of (packetID, sendState) \<Rightarrow>
               let tag = hmacSum C sha256_New (sendAuthKey c) (header @ packetID @ body);
                   ciphertext = ctr_crypt (sendEncryptBlock c) (take tlsCryptBlockLength tag) body
               in (header @ packetID @ tag @ ciphertext, Some (c\<lparr>crypt_sendState := sendState\<rparr>)))"

fun crypt_try_candidates ::
  "crypto \<Rightarrow> clock \<Rightarrow> bytes \<Rightarrow> bytes \<Rightarrow> bytes \<Rightarrow> bytes \<Rightarrow> replayWindow option \<Rightarrow> controlCryptCandidate list \<Rightarrow>
     bytes option \<times> replayWindow option" where
  "crypt_try_candidates C clock header packetIDBytes receivedTag ciphertext w [] = (None, w)"
| "crypt_try_candidates C clock header packetIDBytes receivedTag ciphertext w (candidate # candidates) =
     (let plaintext = ctr_crypt (encryptBlock candidate) (take tlsCryptBlockLength receivedTag) ciphertext
      in if receivedTag \<noteq> hmacSum C sha256_New (authKey candidate) (header @ packetIDBytes @ plaintext)
         then crypt_try_candidates C clock header packetIDBytes receivedTag ciphertext w candidates
         else case window_check AcceptLongForm clock w (get_stamp packetIDBytes) of (ok, w) \<Rightarrow>
           (if ok then Some (header @ plaintext) else None, w))"

definition crypt_decodeControlPacket ::
  "crypto \<Rightarrow> clock \<Rightarrow> controlCryptCodec option \<Rightarrow> bytes \<Rightarrow> bytes option \<times> controlCryptCodec option" where
  "crypt_decodeControlPacket C clock codec rawPacket =
     (case codec of
        None \<Rightarrow> (None, None)
      | Some c \<Rightarrow>
          if length rawPacket < tlsControlHeaderLength + tlsControlPacketIDLength + tlsCryptTagLength then (None, Some c)
          else
            let header = take tlsControlHeaderLength rawPacket;
                packetIDBytes = take tlsControlPacketIDLength (drop tlsControlHeaderLength rawPacket);
                receivedTag = take tlsCryptTagLength (drop (tlsControlHeaderLength + tlsControlPacketIDLength) rawPacket);
                ciphertext = drop (tlsControlHeaderLength + tlsControlPacketIDLength + tlsCryptTagLength) rawPacket
            in case crypt_try_candidates C clock header packetIDBytes receivedTag ciphertext
                      (crypt_receiveState c) (crypt_receiveCandidates c) of (decodedPacket, w) \<Rightarrow>
                 (decodedPacket, Some (c\<lparr>crypt_receiveState := w\<rparr>)))"

section \<open>tls-crypt-v2\<close>

definition unwrapTLSCryptV2ClientKey :: "crypto \<Rightarrow> bytes \<Rightarrow> bytes \<Rightarrow> bytes result" where
  "unwrapTLSCryptV2ClientKey C wrappedClientKey serverKey =
     (if length serverKey < tlsCryptV2ServerKeyLength then Inl (New ''invalid tls-crypt-v2 server key'')
      else if length wrappedClientKey < tlsCryptTagLength + 2 then Inl (New ''invalid tls-crypt-v2 wrapped key'')
      else
        let lengthField = drop (length wrappedClientKey - 2) wrappedClientKey;
            netLength = get_u16 lengthField
        in if unat netLength \<noteq> length wrappedClientKey then Inl (New ''invalid tls-crypt-v2 wrapped key length'')
           else bindE (newBlock C aes_NewCipher (take 32 serverKey)) (\<lambda>encryptBlock.
             let authKey = take 32 (drop 64 serverKey);
                 tag = take tlsCryptTagLength wrappedClientKey;
                 ciphertext = drop tlsCryptTagLength (take (length wrappedClientKey - 2) wrappedClientKey);
                 plaintext = ctr_crypt encryptBlock (take tlsCryptBlockLength tag) ciphertext
             in if tag \<noteq> hmacSum C sha256_New authKey (lengthField @ plaintext)
                then Inl (New ''tls-crypt-v2 client key authentication failed'')
                else if length plaintext < tlsCryptV2ClientKeyDataLength
                then Inl (New ''tls-crypt-v2 plaintext too short'')
                else Inr (take tlsCryptV2ClientKeyDataLength plaintext)))"

definition appendTLSCryptV2WrappedClientKey :: "bytes \<Rightarrow> bytes \<Rightarrow> opcode \<Rightarrow> bytes" where
  "appendTLSCryptV2WrappedClientKey rawPacket wrappedClientKey opcode =
     (if length wrappedClientKey > 0 \<and> (opcode = OpcodeControlHardResetClientV3 \<or> opcode = OpcodeControlWKCv1)
      then rawPacket @ wrappedClientKey else rawPacket)"

text \<open>Early negotiation: a bit pattern in the client's first packet id, and type-length-value records.\<close>

definition tlsCryptV2ResetAnnouncesEarlyNegotiation :: "bytes \<Rightarrow> bool" where
  "tlsCryptV2ResetAnnouncesEarlyNegotiation rawPacket =
     (if length rawPacket < tlsControlHeaderLength + 4 then False
      else get_u32 (drop tlsControlHeaderLength rawPacket) AND tlsCryptV2EarlyNegotiationStart =
           tlsCryptV2EarlyNegotiationStart)"

function early_flags :: "bytes \<Rightarrow> u16 \<Rightarrow> u16 result" where
  "early_flags remainingPayload flags =
     (if remainingPayload = [] then Inr flags
      else if length remainingPayload < 4 then Inl (New ''malformed tls-crypt-v2 early negotiation'')
      else
        let tlvType = get_u16 remainingPayload;
            tlvLength = unat (get_u16 (drop 2 remainingPayload));
            rest = drop 4 remainingPayload
        in if length rest < tlvLength then Inl (New ''malformed tls-crypt-v2 early negotiation'')
           else
             let tlvValue = take tlvLength rest; rest = drop tlvLength rest
             in if tlvType \<noteq> tlsCryptV2TLVTypeEarlyNegotiationFlags then early_flags rest flags
                else if tlvLength \<noteq> 2 then Inl (New ''malformed tls-crypt-v2 early negotiation'')
                else early_flags rest (flags OR get_u16 tlvValue))"
  by pat_completeness auto
termination by (relation "measure (length \<circ> fst)") auto

declare early_flags.simps [simp del]

definition parseTLSCryptV2EarlyNegotiationFlags :: "bytes \<Rightarrow> u16 result" where
  "parseTLSCryptV2EarlyNegotiationFlags payload = early_flags payload 0"

definition tlsCryptV2ServerRequestsWrappedClientKeyResend :: "bytes \<Rightarrow> bool result" where
  "tlsCryptV2ServerRequestsWrappedClientKeyResend payload =
     bindE (parseTLSCryptV2EarlyNegotiationFlags payload) (\<lambda>flags.
       Inr (flags AND tlsCryptV2EarlyNegotiationFlagResendWKC \<noteq> 0))"

section \<open>The protection of a session\<close>

record tlsControlProtection =
  auth :: "controlAuthCodec option"
  crypt :: "controlCryptCodec option"
  cryptV2ServerKey :: bytes

definition newSessionProtection :: "tlsControlProtection \<Rightarrow> tlsControlProtection" where
  "newSessionProtection p =
     \<lparr>auth = auth_newSessionCodec (auth p), crypt = crypt_newSessionCodec (crypt p), cryptV2ServerKey = cryptV2ServerKey p\<rparr>"

definition controlPacketOverhead :: "tlsControlProtection \<Rightarrow> nat" where
  "controlPacketOverhead p =
     (if crypt p \<noteq> None \<or> length (cryptV2ServerKey p) > 0
      then tlsControlPacketIDLength + tlsCryptTagLength + tlsCryptBlockLength
      else case auth p of Some c \<Rightarrow> auth_digestSize c + tlsControlPacketIDLength | None \<Rightarrow> 0)"

definition encodeOutgoingControlPacket ::
  "crypto \<Rightarrow> u32 \<Rightarrow> tlsControlProtection \<Rightarrow> bytes \<Rightarrow> bytes \<times> tlsControlProtection" where
  "encodeOutgoingControlPacket C now p rawPacket =
     (if crypt p \<noteq> None then
        (case crypt_encodeControlPacket C now (crypt p) rawPacket of (w, c) \<Rightarrow> (w, p\<lparr>crypt := c\<rparr>))
      else if auth p \<noteq> None then
        (case auth_encodeControlPacket C now (auth p) rawPacket of (w, c) \<Rightarrow> (w, p\<lparr>auth := c\<rparr>))
      else (rawPacket, p))"

definition extractTLSCryptV2ClientKey ::
  "crypto \<Rightarrow> tlsControlProtection \<Rightarrow> bytes \<Rightarrow> bytes result \<times> tlsControlProtection" where
  "extractTLSCryptV2ClientKey C p rawPacket =
     (if length (cryptV2ServerKey p) = 0 then (Inl (New ''peer wants tls-crypt-v2 but no server key is present''), p)
      else if length rawPacket < tlsControlHeaderLength + 2 then (Inl (New ''invalid tls-crypt-v2 packet''), p)
      else
        let wrappedKeyLength = unat (get_u16 (drop (length rawPacket - 2) rawPacket))
        in if wrappedKeyLength < tlsCryptTagLength + 2 \<or> wrappedKeyLength > length rawPacket - tlsControlHeaderLength
           then (Inl (New ''invalid tls-crypt-v2 wrapped key''), p)
           else
             let packetBytes = take (length rawPacket - wrappedKeyLength) rawPacket
             in if crypt p \<noteq> None then (Inr packetBytes, p)
                else case bindE (unwrapTLSCryptV2ClientKey C (drop (length rawPacket - wrappedKeyLength) rawPacket)
                                   (cryptV2ServerKey p)) (\<lambda>clientKeyMaterial.
                            newControlCryptCodecFromMaterial C clientKeyMaterial tlsCryptKeyDirectionNormal) of
                       Inl err \<Rightarrow> (Inl err, p)
                     | Inr cryptCodec \<Rightarrow> (Inr packetBytes, p\<lparr>crypt := Some cryptCodec\<rparr>))"

definition decodeIncomingControlPacket ::
  "crypto \<Rightarrow> clock \<Rightarrow> tlsControlProtection \<Rightarrow> bytes \<Rightarrow> bytes result \<times> tlsControlProtection" where
  "decodeIncomingControlPacket C clock p rawPacket =
     (if length rawPacket < tlsControlHeaderLength then (Inl (New ''invalid tls control packet''), p)
      else
        let opcode = drop_bit 3 (rawPacket ! 0)
        in case (if opcode = OpcodeControlHardResetClientV3 \<or> opcode = OpcodeControlWKCv1
                 then extractTLSCryptV2ClientKey C p rawPacket else (Inr rawPacket, p)) of
             (Inl err, p) \<Rightarrow> (Inl err, p)
           | (Inr packetBytes, p) \<Rightarrow>
               if crypt p \<noteq> None then
                 (case crypt_decodeControlPacket C clock (crypt p) packetBytes of (r, c) \<Rightarrow>
                    (case r of None \<Rightarrow> Inl (New ''invalid tls-crypt packet'') | Some decodedPacket \<Rightarrow> Inr decodedPacket,
                     p\<lparr>crypt := c\<rparr>))
               else if auth p \<noteq> None then
                 (case auth_decodeControlPacket C clock (auth p) packetBytes of (r, c) \<Rightarrow>
                    (case r of None \<Rightarrow> Inl (New ''invalid tls-auth packet'') | Some decodedPacket \<Rightarrow> Inr decodedPacket,
                     p\<lparr>auth := c\<rparr>))
               else if length (cryptV2ServerKey p) > 0 then (Inl (New ''missing tls-crypt-v2 wrapped client key''), p)
               else (Inr packetBytes, p))"

text \<open>
  What a client puts on the wire for a packet of its handshake: the protected packet, with the wrapped
  client key behind it when the opcode asks for it.
\<close>

definition encodeHandshakePacket ::
  "crypto \<Rightarrow> bytes \<Rightarrow> u32 \<Rightarrow> tlsControlProtection \<Rightarrow> bytes \<Rightarrow> bytes \<times> tlsControlProtection" where
  "encodeHandshakePacket C wrappedClientKey now p rawPacket =
     (case encodeOutgoingControlPacket C now p rawPacket of (w, p) \<Rightarrow>
        (appendTLSCryptV2WrappedClientKey w wrappedClientKey (drop_bit 3 (rawPacket ! 0)), p))"

section \<open>Packet ids move forward\<close>

lemma next_id_bytes:
  "length (fst (next_id now s)) = 8"
  "get_stamp (fst (next_id now s)) = (timestamp (snd (next_id now s)), nextID (snd (next_id now s)))"
  by (simp_all add: next_id_def Let_def get_stamp_def)

lemma next_id_step:
  assumes "nextID s \<noteq> 0xFFFFFFFF"
  shows "nextID (snd (next_id now s)) = nextID s + 1"
    "timestamp (snd (next_id now s)) = (if timestamp s = 0 then now else timestamp s)"
  using assms by (simp_all add: next_id_def Let_def)

lemma u32_inc:
  assumes "(x :: u32) \<noteq> 0xFFFFFFFF"
  shows "unat (x + 1) = Suc (unat x)" "x < x + 1" "x + 1 \<noteq> 0"
proof -
  have "unat x \<noteq> unat (0xFFFFFFFF :: u32)" using assms unfolding word_unat_eq_iff .
  moreover have "unat x < 2 ^ LENGTH(32)" by (rule unsigned_less)
  ultimately have "unat x + 1 < 2 ^ LENGTH(32)" by simp
  then show u: "unat (x + 1) = Suc (unat x)" by (simp add: unat_word_ariths)
  then show "x < x + 1" by (simp add: word_less_nat_alt)
  show "x + 1 \<noteq> 0" using u by (metis unat_0 nat.distinct(1))
qed

text \<open>What the receiver has seen so far is behind what the sender will send next.\<close>

definition behind :: "tlsPacketIDState \<Rightarrow> replayWindow option \<Rightarrow> bool" where
  "behind s w \<longleftrightarrow> (case w of None \<Rightarrow> False | Some w \<Rightarrow> windowSize w \<noteq> 0 \<and>
     (initialized w \<longrightarrow> highestTimestamp w < timestamp s \<or> highestTimestamp w = timestamp s \<and> highestID w \<le> nextID s))"

lemma behind_next:
  assumes "behind s w" "nextID s \<noteq> 0xFFFFFFFF"
  shows "behind (snd (next_id now s)) w"
    "\<exists>w'. window_check AcceptLongForm clock w (get_stamp (fst (next_id now s))) = (True, w') \<and>
       behind (snd (next_id now s)) w'"
proof -
  obtain v where v: "w = Some v" "windowSize v \<noteq> 0"
    "initialized v \<longrightarrow> highestTimestamp v < timestamp s \<or> highestTimestamp v = timestamp s \<and> highestID v \<le> nextID s"
    using assms(1) by (auto simp: behind_def split: option.splits)
  define ts where "ts = (if timestamp s = 0 then now else timestamp s)"
  note up = u32_inc(2) [OF assms(2)] and nz = u32_inc(3) [OF assms(2)]
  have stamp: "get_stamp (fst (next_id now s)) = (ts, nextID s + 1)"
    unfolding next_id_bytes(2) next_id_step [OF assms(2)] by (simp add: ts_def)
  have ahead: "initialized v \<longrightarrow> highestTimestamp v < ts \<or> highestTimestamp v = ts \<and> highestID v < nextID s + 1"
    using v(3) up unfolding ts_def by (auto simp: word_gt_0)
  then show "behind (snd (next_id now s)) w"
    using v(1,2) unfolding behind_def next_id_step [OF assms(2)] ts_def by auto
  have "\<exists>v'. AcceptLongForm clock v (ts, nextID s + 1) = (True, v') \<and> windowSize v' = windowSize v \<and> initialized v' \<and>
      highestID v' = nextID s + 1 \<and> highestTimestamp v' = ts"
  proof (cases "initialized v \<and> highestTimestamp v < ts")
    case True
    then show ?thesis using v(2) nz order_less_not_sym [of "highestTimestamp v" ts] by (simp add: AcceptLongForm_def)
  next
    case False
    then show ?thesis using AcceptLongForm_above [OF v(2) _ nz, of ts clock] ahead by auto
  qed
  then show "\<exists>w'. window_check AcceptLongForm clock w (get_stamp (fst (next_id now s))) = (True, w') \<and>
       behind (snd (next_id now s)) w'"
    using v(2) unfolding stamp behind_def next_id_step [OF assms(2)] ts_def [symmetric] v(1) window_check_def by auto
qed

section \<open>A session over a protected channel\<close>

text \<open>
  The contract of a control codec, and what it gives for a session: every packet the sender
  protects while its counter does not wrap is understood, whichever packets are lost.
\<close>

fun exchange ::
  "(u32 \<Rightarrow> 's \<Rightarrow> bytes \<Rightarrow> bytes \<times> 's) \<Rightarrow> (clock \<Rightarrow> 'd \<Rightarrow> bytes \<Rightarrow> 'r \<times> 'd) \<Rightarrow> 's \<Rightarrow> 'd \<Rightarrow>
     (u32 \<times> clock \<times> bytes \<times> bool) list \<Rightarrow> (bytes \<times> 'r) list" where
  "exchange encode decode s d [] = []"
| "exchange encode decode s d ((now, clock, m, arrives) # xs) =
     (case encode now s m of (w, s') \<Rightarrow>
      if arrives then (case decode clock d w of (r, d') \<Rightarrow> (w, r) # exchange encode decode s' d' xs)
      else exchange encode decode s' d xs)"

definition arrived :: "(u32 \<times> clock \<times> bytes \<times> bool) list \<Rightarrow> bytes list" where
  "arrived xs = map (\<lambda>(now, clock, m, arrives). m) (filter (\<lambda>(now, clock, m, arrives). arrives) xs)"

lemma arrived_simps [simp]:
  "arrived [] = []" "arrived ((now, clock, m, arrives) # xs) = (if arrives then m # arrived xs else arrived xs)"
  by (simp_all add: arrived_def)

locale control_codec =
  fixes encode :: "u32 \<Rightarrow> 'c \<Rightarrow> bytes \<Rightarrow> bytes \<times> 'c"
    and decode :: "clock \<Rightarrow> 'c \<Rightarrow> bytes \<Rightarrow> bytes option \<times> 'c"
    and peers :: "'c \<Rightarrow> 'c \<Rightarrow> bool"
    and sendState :: "'c \<Rightarrow> tlsPacketIDState"
    and window :: "'c \<Rightarrow> replayWindow option"
    and overhead :: "'c \<Rightarrow> nat"
  assumes encode_state: "peers s d \<Longrightarrow> 9 \<le> length m \<Longrightarrow> encode now s m = (w, s') \<Longrightarrow>
      sendState s' = snd (next_id now (sendState s)) \<and> overhead s' = overhead s \<and> length w = length m + overhead s \<and> peers s' d"
    and decode_encoded: "peers s d \<Longrightarrow> 9 \<le> length m \<Longrightarrow> encode now s m = (w, s') \<Longrightarrow>
      window_check AcceptLongForm clock (window d) (get_stamp (fst (next_id now (sendState s)))) = (True, v) \<Longrightarrow>
      \<exists>d'. decode clock d w = (Some m, d') \<and> window d' = v \<and> (\<forall>s. peers s d' = peers s d)"
begin

lemma session:
  "peers s d \<Longrightarrow> behind (sendState s) (window d) \<Longrightarrow> unat (nextID (sendState s)) + length xs \<le> 0xFFFFFFFF \<Longrightarrow>
     \<forall>x \<in> set xs. 9 \<le> length (fst (snd (snd x))) \<Longrightarrow>
     map snd (exchange encode decode s d xs) = map Some (arrived xs) \<and>
     list_all2 (\<lambda>(w, r) m. length w = length m + overhead s) (exchange encode decode s d xs) (arrived xs)"
proof (induction xs arbitrary: s d)
  case (Cons x xs)
  obtain now clock m a where x: "x = (now, clock, m, a)" by (cases x) auto
  obtain w s' where e: "encode now s m = (w, s')" by fastforce
  have len: "9 \<le> length m" using Cons.prems(4) by (simp add: x)
  note st = encode_state [OF Cons.prems(1) len e]
  have lt: "unat (nextID (sendState s)) < 0xFFFFFFFF" using Cons.prems(3) by simp
  have nw: "nextID (sendState s) \<noteq> 0xFFFFFFFF" using lt by auto
  have "unat (nextID (sendState s) + 1) = Suc (unat (nextID (sendState s)))" by (rule u32_inc(1) [OF nw])
  then have n: "unat (nextID (sendState s')) + length xs \<le> 0xFFFFFFFF"
    using Cons.prems(3) st next_id_step(1) [OF nw] by simp
  note bn = behind_next(1) [OF Cons.prems(2) nw, of now] behind_next(2) [OF Cons.prems(2) nw, of clock now]
  have rest: "\<forall>x \<in> set xs. 9 \<le> length (fst (snd (snd x)))" using Cons.prems(4) by simp
  show ?case
  proof (cases a)
    case True
    obtain v where v: "window_check AcceptLongForm clock (window d) (get_stamp (fst (next_id now (sendState s)))) = (True, v)"
      "behind (sendState s') v" using bn(2) st by auto
    obtain d' where d': "decode clock d w = (Some m, d')" "window d' = v" "\<forall>s. peers s d' = peers s d"
      using decode_encoded [OF Cons.prems(1) len e v(1)] by blast
    then show ?thesis using Cons.IH [of s' d'] st v(2) n rest True by (simp add: x e)
  next
    case False
    then show ?thesis using Cons.IH [of s' d] st bn(1) n rest by (simp add: x e)
  qed
qed simp

end

text \<open>Two ends that hold matching keys.\<close>

definition aes_ok :: "crypto \<Rightarrow> bool" where
  "aes_ok C \<longleftrightarrow> (\<forall>key b. newBlock C aes_NewCipher key = Inr b \<longrightarrow> BlockSize b = 16)"

fun auth_peers :: "crypto \<Rightarrow> controlAuthCodec option \<Rightarrow> controlAuthCodec option \<Rightarrow> bool" where
  "auth_peers C (Some s) (Some d) \<longleftrightarrow> crypto_ok C \<and> auth_hashFactory d = auth_hashFactory s \<and>
     auth_digestSize s = hash_Size (auth_hashFactory s) \<and> auth_digestSize d = hash_Size (auth_hashFactory s) \<and>
     (\<exists>ks. auth_receiveKeys d = auth_sendKey s # ks)"
| "auth_peers C _ _ \<longleftrightarrow> False"

fun crypt_peers :: "crypto \<Rightarrow> controlCryptCodec option \<Rightarrow> controlCryptCodec option \<Rightarrow> bool" where
  "crypt_peers C (Some s) (Some d) \<longleftrightarrow> crypto_ok C \<and> block_ok (sendEncryptBlock s) \<and> BlockSize (sendEncryptBlock s) = 16 \<and>
     (\<exists>cs. crypt_receiveCandidates d = \<lparr>encryptBlock = sendEncryptBlock s, authKey = sendAuthKey s\<rparr> # cs)"
| "crypt_peers C _ _ \<longleftrightarrow> False"

definition auth_state :: "controlAuthCodec option \<Rightarrow> tlsPacketIDState" where
  "auth_state c = (case c of Some c \<Rightarrow> auth_sendState c | None \<Rightarrow> newPacketIDState)"

definition auth_window :: "controlAuthCodec option \<Rightarrow> replayWindow option" where
  "auth_window c = (case c of Some c \<Rightarrow> auth_receiveState c | None \<Rightarrow> None)"

definition auth_overhead :: "controlAuthCodec option \<Rightarrow> nat" where
  "auth_overhead c = (case c of Some c \<Rightarrow> auth_digestSize c + 8 | None \<Rightarrow> 0)"

definition crypt_state :: "controlCryptCodec option \<Rightarrow> tlsPacketIDState" where
  "crypt_state c = (case c of Some c \<Rightarrow> crypt_sendState c | None \<Rightarrow> newPacketIDState)"

definition crypt_window :: "controlCryptCodec option \<Rightarrow> replayWindow option" where
  "crypt_window c = (case c of Some c \<Rightarrow> crypt_receiveState c | None \<Rightarrow> None)"

lemma auth_peersE:
  assumes "auth_peers C s d"
  obtains s' d' ks where "s = Some s'" "d = Some d'" "crypto_ok C" "auth_hashFactory d' = auth_hashFactory s'"
    "auth_digestSize s' = hash_Size (auth_hashFactory s')" "auth_digestSize d' = hash_Size (auth_hashFactory s')"
    "auth_receiveKeys d' = auth_sendKey s' # ks"
  using assms by (cases "(C, s, d)" rule: auth_peers.cases) auto

lemma crypt_peersE:
  assumes "crypt_peers C s d"
  obtains s' d' cs where "s = Some s'" "d = Some d'" "crypto_ok C" "block_ok (sendEncryptBlock s')"
    "BlockSize (sendEncryptBlock s') = 16"
    "crypt_receiveCandidates d' = \<lparr>encryptBlock = sendEncryptBlock s', authKey = sendAuthKey s'\<rparr> # cs"
  using assms by (cases "(C, s, d)" rule: crypt_peers.cases) auto

lemma hmacSum_length: "crypto_ok C \<Longrightarrow> length (hmacSum C h k m) = hash_Size h"
  by (simp add: crypto_ok_def)

text \<open>A message cut into consecutive fields.\<close>

lemma cut3:
  assumes "length a = i" "length b = j" "length c = k"
  shows "take i (a @ b @ c @ r) = a" "take j (drop i (a @ b @ c @ r)) = b"
    "take k (drop (i + j) (a @ b @ c @ r)) = c" "drop (i + j + k) (a @ b @ c @ r) = r"
  using assms by simp_all

lemma auth_encode_law:
  assumes "auth_peers C s d" "9 \<le> length m" "auth_encodeControlPacket C now s m = (w, s')"
  shows "auth_state s' = snd (next_id now (auth_state s)) \<and> auth_overhead s' = auth_overhead s \<and>
     length w = length m + auth_overhead s \<and> auth_peers C s' d"
proof -
  obtain c e ks where c: "s = Some c" "d = Some e" "crypto_ok C" "auth_digestSize c = hash_Size (auth_hashFactory c)"
    by (rule auth_peersE [OF assms(1)])
  obtain b t where n: "next_id now (auth_sendState c) = (b, t)" by fastforce
  have "length b = 8" using next_id_bytes(1) [of now "auth_sendState c"] n by simp
  then show ?thesis
    using assms c n
    by (auto simp: auth_encodeControlPacket_def wrap_consts Let_def auth_state_def auth_overhead_def hmacSum_length)
qed

lemma auth_decode_law:
  assumes "auth_peers C s d" "9 \<le> length m" "auth_encodeControlPacket C now s m = (w, s')"
    and win: "window_check AcceptLongForm clock (auth_window d) (get_stamp (fst (next_id now (auth_state s)))) = (True, v)"
  shows "\<exists>d'. auth_decodeControlPacket C clock d w = (Some m, d') \<and> auth_window d' = v \<and>
     (\<forall>s. auth_peers C s d' = auth_peers C s d)"
proof -
  obtain c e ks where c: "s = Some c" "d = Some e" "crypto_ok C" "auth_hashFactory e = auth_hashFactory c"
    "auth_digestSize e = hash_Size (auth_hashFactory c)" "auth_receiveKeys e = auth_sendKey c # ks"
    by (rule auth_peersE [OF assms(1)])
  obtain b t where n: "next_id now (auth_sendState c) = (b, t)" by fastforce
  have b: "length b = 8" using next_id_bytes(1) [of now "auth_sendState c"] n by simp
  define dg where "dg = hmacSum C (auth_hashFactory c) (auth_sendKey c) (b @ m)"
  have dg: "length dg = auth_digestSize e" unfolding dg_def c(5) by (rule hmacSum_length [OF c(3)])
  define h r where "h = take 9 m" and "r = drop 9 m"
  have h: "length h = 9" "h @ r = m" using assms(2) by (simp_all add: h_def r_def)
  have w: "w = h @ dg @ b @ r"
    using assms(2,3) c(1) n by (simp add: auth_encodeControlPacket_def wrap_consts Let_def dg_def h_def r_def)
  note cut = cut3 [OF h(1) dg b, of r, folded w]
  have "\<not> length w < 9 + auth_digestSize e + 8" by (simp add: w h(1) dg b)
  moreover have "auth_try_keys C clock (auth_hashFactory e) (b @ h @ r) dg (get_stamp b) (auth_receiveState e) (auth_receiveKeys e) = (True, v)"
    using win c(1,2) n unfolding c(4,6) h(2) by (simp add: auth_window_def auth_state_def dg_def)
  ultimately have "auth_decodeControlPacket C clock d w = (Some m, Some (e\<lparr>auth_receiveState := v\<rparr>))"
    unfolding auth_decodeControlPacket_def c(2) option.case wrap_consts Let_def cut by (simp add: h(2))
  moreover have "auth_peers C x (Some (e\<lparr>auth_receiveState := v\<rparr>)) = auth_peers C x (Some e)" for x
    by (cases x) auto
  ultimately show ?thesis using c(2) by (simp add: auth_window_def)
qed

interpretation tls_auth: control_codec "auth_encodeControlPacket C" "auth_decodeControlPacket C" "auth_peers C"
  auth_state auth_window auth_overhead for C
  by unfold_locales (use auth_encode_law auth_decode_law in blast)+

lemma crypt_encode_law:
  assumes "crypt_peers C s d" "9 \<le> length m" "crypt_encodeControlPacket C now s m = (w, s')"
  shows "crypt_state s' = snd (next_id now (crypt_state s)) \<and> length w = length m + 40 \<and> crypt_peers C s' d"
proof -
  obtain c e cs where c: "s = Some c" "d = Some e" "crypto_ok C" "block_ok (sendEncryptBlock c)"
    "BlockSize (sendEncryptBlock c) = 16"
    by (rule crypt_peersE [OF assms(1)])
  obtain b t where n: "next_id now (crypt_sendState c) = (b, t)" by fastforce
  have b: "length b = 8" using next_id_bytes(1) [of now "crypt_sendState c"] n by simp
  define tag where "tag = hmacSum C sha256_New (sendAuthKey c) (take 9 m @ b @ drop 9 m)"
  have tag: "length tag = 32" unfolding tag_def by (simp add: hmacSum_length [OF c(3)])
  have ct: "length (ctr_crypt (sendEncryptBlock c) (take 16 tag) (drop 9 m)) = length m - 9"
    using ctr_law [OF c(4), of "take 16 tag" "drop 9 m"] tag c(5) by simp
  have "(w, s') = (take 9 m @ b @ tag @ ctr_crypt (sendEncryptBlock c) (take 16 tag) (drop 9 m), Some (c\<lparr>crypt_sendState := t\<rparr>))"
    using assms(2,3) c(1) n by (simp add: crypt_encodeControlPacket_def wrap_consts Let_def tag_def)
  then show ?thesis using assms(1,2) c(1,2) n b tag ct by (auto simp: crypt_state_def)
qed

lemma crypt_decode_law:
  assumes "crypt_peers C s d" "9 \<le> length m" "crypt_encodeControlPacket C now s m = (w, s')"
    and win: "window_check AcceptLongForm clock (crypt_window d) (get_stamp (fst (next_id now (crypt_state s)))) = (True, v)"
  shows "\<exists>d'. crypt_decodeControlPacket C clock d w = (Some m, d') \<and> crypt_window d' = v \<and>
     (\<forall>s. crypt_peers C s d' = crypt_peers C s d)"
proof -
  obtain c e cs where c: "s = Some c" "d = Some e" "crypto_ok C" "block_ok (sendEncryptBlock c)"
    "BlockSize (sendEncryptBlock c) = 16"
    "crypt_receiveCandidates e = \<lparr>encryptBlock = sendEncryptBlock c, authKey = sendAuthKey c\<rparr> # cs"
    by (rule crypt_peersE [OF assms(1)])
  obtain b t where n: "next_id now (crypt_sendState c) = (b, t)" by fastforce
  have b: "length b = 8" using next_id_bytes(1) [of now "crypt_sendState c"] n by simp
  define h r where "h = take 9 m" and "r = drop 9 m"
  have h: "length h = 9" "h @ r = m" using assms(2) by (simp_all add: h_def r_def)
  define tag where "tag = hmacSum C sha256_New (sendAuthKey c) (h @ b @ r)"
  have tag: "length tag = 32" unfolding tag_def by (simp add: hmacSum_length [OF c(3)])
  define ct where "ct = ctr_crypt (sendEncryptBlock c) (take 16 tag) r"
  have dec: "ctr_crypt (sendEncryptBlock c) (take 16 tag) ct = r"
    using ctr_law [OF c(4), of "take 16 tag" r] tag c(5) by (simp add: ct_def)
  have w: "w = h @ b @ tag @ ct"
    using assms(2,3) c(1) n by (simp add: crypt_encodeControlPacket_def wrap_consts Let_def tag_def ct_def h_def r_def)
  note cut = cut3 [OF h(1) b tag, of ct, folded w]
  have "\<not> length w < 9 + 8 + 32" by (simp add: w h(1) tag b)
  moreover have "crypt_try_candidates C clock h b tag ct (crypt_receiveState e) (crypt_receiveCandidates e) = (Some m, v)"
    using win c(1,2) n dec h(2)
    by (simp add: c(6) crypt_window_def crypt_state_def tag_def [symmetric] tlsCryptBlockLength_def Let_def)
  ultimately have "crypt_decodeControlPacket C clock d w = (Some m, Some (e\<lparr>crypt_receiveState := v\<rparr>))"
    unfolding crypt_decodeControlPacket_def c(2) option.case wrap_consts Let_def cut by simp
  moreover have "crypt_peers C x (Some (e\<lparr>crypt_receiveState := v\<rparr>)) = crypt_peers C x (Some e)" for x
    by (cases x) auto
  ultimately show ?thesis using c(2) by (simp add: crypt_window_def)
qed

interpretation tls_crypt: control_codec "crypt_encodeControlPacket C" "crypt_decodeControlPacket C" "crypt_peers C"
  crypt_state crypt_window "\<lambda>_. 40" for C
  by unfold_locales (use crypt_encode_law crypt_decode_law in blast)+

section \<open>From codecs to protections\<close>

definition plain_packet :: "bytes \<Rightarrow> bool" where
  "plain_packet m \<longleftrightarrow> 9 \<le> length m \<and> drop_bit 3 (m ! 0) \<noteq> OpcodeControlHardResetClientV3 \<and>
     drop_bit 3 (m ! 0) \<noteq> OpcodeControlWKCv1"

lemma crypt_encode_shape:
  assumes "crypt_encodeControlPacket C now (Some c) m = (w, s')" "9 \<le> length m"
  shows "\<exists>c'. s' = Some c' \<and> 9 \<le> length w \<and> w ! 0 = m ! 0"
  using assms
  by (auto simp: crypt_encodeControlPacket_def wrap_consts Let_def nth_append split: prod.splits)

lemma auth_encode_shape:
  assumes "auth_encodeControlPacket C now (Some c) m = (w, s')" "9 \<le> length m"
  shows "\<exists>c'. s' = Some c' \<and> 9 \<le> length w \<and> w ! 0 = m ! 0"
  using assms
  by (auto simp: auth_encodeControlPacket_def wrap_consts Let_def nth_append split: prod.splits)

lemma crypt_decode_shape: "crypt_decodeControlPacket C clock (Some c) w = (r, d') \<Longrightarrow> d' \<noteq> None"
  by (auto simp: crypt_decodeControlPacket_def Let_def split: prod.splits if_splits)

lemma auth_decode_shape: "auth_decodeControlPacket C clock (Some c) w = (r, d') \<Longrightarrow> d' \<noteq> None"
  by (auto simp: auth_decodeControlPacket_def Let_def split: prod.splits if_splits)

lemma exchange_crypt:
  "crypt p \<noteq> None \<Longrightarrow> crypt q \<noteq> None \<Longrightarrow> \<forall>x \<in> set xs. plain_packet (fst (snd (snd x))) \<Longrightarrow>
     exchange (encodeOutgoingControlPacket C) (decodeIncomingControlPacket C) p q xs =
       map (\<lambda>(w, r). (w, case r of None \<Rightarrow> Inl (New ''invalid tls-crypt packet'') | Some m \<Rightarrow> Inr m))
         (exchange (crypt_encodeControlPacket C) (crypt_decodeControlPacket C) (crypt p) (crypt q) xs)"
proof (induction xs arbitrary: p q)
  case (Cons x xs)
  obtain now clock m a where x: "x = (now, clock, m, a)" by (cases x) auto
  have m: "plain_packet m" using Cons.prems(3) by (simp add: x)
  obtain c e where c: "crypt p = Some c" "crypt q = Some e" using Cons.prems by auto
  obtain w s' where e: "crypt_encodeControlPacket C now (Some c) m = (w, s')" by fastforce
  obtain c' where w: "s' = Some c'" "9 \<le> length w" "w ! 0 = m ! 0"
    using crypt_encode_shape [OF e] m by (auto simp: plain_packet_def)
  obtain r d' where d: "crypt_decodeControlPacket C clock (Some e) w = (r, d')" by fastforce
  have "encodeOutgoingControlPacket C now p m = (w, p\<lparr>crypt := s'\<rparr>)"
    by (simp add: encodeOutgoingControlPacket_def c e)
  moreover have "decodeIncomingControlPacket C clock q w =
      (case r of None \<Rightarrow> Inl (New ''invalid tls-crypt packet'') | Some m \<Rightarrow> Inr m, q\<lparr>crypt := d'\<rparr>)"
    using w m by (simp add: decodeIncomingControlPacket_def wrap_consts Let_def c d plain_packet_def)
  ultimately show ?case
    using Cons.IH [of "p\<lparr>crypt := s'\<rparr>" "q\<lparr>crypt := d'\<rparr>"] Cons.IH [of "p\<lparr>crypt := s'\<rparr>" q] Cons.prems w(1)
      crypt_decode_shape [OF d] by (simp add: x c e d)
qed simp

lemma exchange_auth:
  "crypt p = None \<Longrightarrow> crypt q = None \<Longrightarrow> auth p \<noteq> None \<Longrightarrow> auth q \<noteq> None \<Longrightarrow> \<forall>x \<in> set xs. plain_packet (fst (snd (snd x))) \<Longrightarrow>
     exchange (encodeOutgoingControlPacket C) (decodeIncomingControlPacket C) p q xs =
       map (\<lambda>(w, r). (w, case r of None \<Rightarrow> Inl (New ''invalid tls-auth packet'') | Some m \<Rightarrow> Inr m))
         (exchange (auth_encodeControlPacket C) (auth_decodeControlPacket C) (auth p) (auth q) xs)"
proof (induction xs arbitrary: p q)
  case (Cons x xs)
  obtain now clock m a where x: "x = (now, clock, m, a)" by (cases x) auto
  have m: "plain_packet m" using Cons.prems(5) by (simp add: x)
  obtain c e where c: "auth p = Some c" "auth q = Some e" using Cons.prems by auto
  obtain w s' where e: "auth_encodeControlPacket C now (Some c) m = (w, s')" by fastforce
  obtain c' where w: "s' = Some c'" "9 \<le> length w" "w ! 0 = m ! 0"
    using auth_encode_shape [OF e] m by (auto simp: plain_packet_def)
  obtain r d' where d: "auth_decodeControlPacket C clock (Some e) w = (r, d')" by fastforce
  have "encodeOutgoingControlPacket C now p m = (w, p\<lparr>auth := s'\<rparr>)"
    by (simp add: encodeOutgoingControlPacket_def c e Cons.prems)
  moreover have "decodeIncomingControlPacket C clock q w =
      (case r of None \<Rightarrow> Inl (New ''invalid tls-auth packet'') | Some m \<Rightarrow> Inr m, q\<lparr>auth := d'\<rparr>)"
    using w m by (simp add: decodeIncomingControlPacket_def wrap_consts Let_def c d plain_packet_def Cons.prems)
  ultimately show ?case
    using Cons.IH [of "p\<lparr>auth := s'\<rparr>" "q\<lparr>auth := d'\<rparr>"] Cons.IH [of "p\<lparr>auth := s'\<rparr>" q] Cons.prems w(1)
      auth_decode_shape [OF d] by (simp add: x c e d)
qed simp

text \<open>Codecs made from the same key for opposite directions are peers.\<close>

lemma auth_codec_peers:
  assumes "crypto_ok C" "opposite_directions a b"
    and s: "newControlAuthCodecWithAuth key a name = Inr s" and d: "newControlAuthCodecWithAuth key b name = Inr d"
  shows "auth_peers C (Some s) (Some d) \<and> behind (auth_sendState s) (auth_receiveState d) \<and> auth_sendState s = newPacketIDState"
proof -
  obtain x y z x' y' z' where r: "resolveStaticKeyDirection a = (x, y, z)" "resolveStaticKeyDirection b = (x', y', z')"
    by (metis prod_cases3)
  have xy: "y' = x" using assms(2) r by (simp add: opposite_directions_def)
  obtain km h n where k: "loadStaticKeyMaterialFromSource key = Inr km" "staticHMACFactory name = Inr (Some h, n)"
    using s by (auto simp: newControlAuthCodecWithAuth_def bindE_Inr_iff split: option.splits)
  have "n = hash_Size h" using staticHMACFactory_ok [OF k(2)] by (auto simp: mac_size_ok_def)
  moreover have nz: "n \<noteq> 0" using calculation hash_Size_pos [of h] by linarith
  ultimately show ?thesis
    using s d assms(1) unfolding newControlAuthCodecWithAuth_def k bindE_simps r prod.case option.case Let_def xy if_not_P [OF nz]
    by (auto simp: behind_def newReplayWindow_def defaultReplayWindowSize_def)
qed

lemma crypt_fields:
  assumes "newControlCryptCodecFromMaterial C km a = Inr s" "resolveStaticKeyDirection a = (x, y, z)"
  shows "\<exists>cs. newControlCryptKeys C (splitStaticKeyMaterial km ! x) = Inr \<lparr>encryptBlock = sendEncryptBlock s, authKey = sendAuthKey s\<rparr> \<and>
     (\<exists>k. newControlCryptKeys C (splitStaticKeyMaterial km ! y) = Inr k \<and> crypt_receiveCandidates s = k # cs) \<and>
     crypt_sendState s = newPacketIDState \<and>
     crypt_receiveState s = Some (newReplayWindow defaultReplayWindowSize defaultReplayWindowTime)"
  using assms(1) unfolding newControlCryptCodecFromMaterial_def Let_def assms(2) prod.case
  by (cases "z = y") (auto simp: bindE_Inr_iff)

lemma crypt_codec_peers:
  assumes C: "crypto_ok C" "aes_ok C" and dir: "opposite_directions a b"
    and s: "newControlCryptCodecFromMaterial C km a = Inr s" and d: "newControlCryptCodecFromMaterial C km b = Inr d"
  shows "crypt_peers C (Some s) (Some d) \<and> behind (crypt_sendState s) (crypt_receiveState d) \<and> crypt_sendState s = newPacketIDState"
proof -
  obtain x y z x' y' z' where r: "resolveStaticKeyDirection a = (x, y, z)" "resolveStaticKeyDirection b = (x', y', z')"
    by (metis prod_cases3)
  have xy: "y' = x" using dir r by (simp add: opposite_directions_def)
  let ?k = "\<lparr>encryptBlock = sendEncryptBlock s, authKey = sendAuthKey s\<rparr>"
  have k: "newControlCryptKeys C (splitStaticKeyMaterial km ! x) = Inr ?k" "crypt_sendState s = newPacketIDState"
    using crypt_fields [OF s r(1)] by auto
  obtain cs where "crypt_receiveCandidates d = ?k # cs"
    "crypt_receiveState d = Some (newReplayWindow defaultReplayWindowSize defaultReplayWindowTime)"
    using crypt_fields [OF d r(2)] k unfolding xy by auto
  moreover have "block_ok (sendEncryptBlock s) \<and> BlockSize (sendEncryptBlock s) = 16"
    using k(1) C by (auto simp: newControlCryptKeys_def bindE_Inr_iff crypto_ok_def aes_ok_def)
  ultimately show ?thesis using k(2) C by (auto simp: behind_def newReplayWindow_def defaultReplayWindowSize_def)
qed

lemma crypt_exchange:
  assumes "crypt p = Some s" "crypt q = Some d" "crypt_peers C (Some s) (Some d)"
    "behind (crypt_sendState s) (crypt_receiveState d)" "unat (nextID (crypt_sendState s)) + length xs \<le> 0xFFFFFFFF"
    and plain: "\<forall>x \<in> set xs. plain_packet (fst (snd (snd x)))"
  shows "map snd (exchange (encodeOutgoingControlPacket C) (decodeIncomingControlPacket C) p q xs) = map Inr (arrived xs) \<and>
     list_all2 (\<lambda>(w, r) m. length w \<le> length m + controlPacketOverhead p)
       (exchange (encodeOutgoingControlPacket C) (decodeIncomingControlPacket C) p q xs) (arrived xs)"
proof -
  let ?e = "exchange (crypt_encodeControlPacket C) (crypt_decodeControlPacket C) (Some s) (Some d) xs"
  have "map snd ?e = map Some (arrived xs) \<and> list_all2 (\<lambda>(w, r) m. length w = length m + 40) ?e (arrived xs)"
    using assms by (intro tls_crypt.session) (auto simp: crypt_state_def crypt_window_def plain_packet_def)
  moreover have "controlPacketOverhead p = 56" using assms(1) by (simp add: controlPacketOverhead_def wrap_consts)
  ultimately show ?thesis
    using exchange_crypt [of p q xs C] assms(1,2) plain
    by (auto simp: list_all2_map1 case_prod_beta list_all2_conv_all_nth list_eq_iff_nth_eq split: option.split)
qed

lemma auth_exchange:
  assumes "crypt p = None" "crypt q = None" "auth p = Some s" "auth q = Some d" "auth_peers C (Some s) (Some d)"
    "cryptV2ServerKey p = []"
    "behind (auth_sendState s) (auth_receiveState d)" "unat (nextID (auth_sendState s)) + length xs \<le> 0xFFFFFFFF"
    and plain: "\<forall>x \<in> set xs. plain_packet (fst (snd (snd x)))"
  shows "map snd (exchange (encodeOutgoingControlPacket C) (decodeIncomingControlPacket C) p q xs) = map Inr (arrived xs) \<and>
     list_all2 (\<lambda>(w, r) m. length w \<le> length m + controlPacketOverhead p)
       (exchange (encodeOutgoingControlPacket C) (decodeIncomingControlPacket C) p q xs) (arrived xs)"
proof -
  let ?e = "exchange (auth_encodeControlPacket C) (auth_decodeControlPacket C) (Some s) (Some d) xs"
  have "map snd ?e = map Some (arrived xs) \<and>
      list_all2 (\<lambda>(w, r) m. length w = length m + auth_overhead (Some s)) ?e (arrived xs)"
    using assms by (intro tls_auth.session) (auto simp: auth_state_def auth_window_def plain_packet_def)
  moreover have "controlPacketOverhead p = auth_overhead (Some s)"
    using assms(1,3,6) by (simp add: controlPacketOverhead_def auth_overhead_def wrap_consts)
  ultimately show ?thesis
    using exchange_auth [of p q xs C] assms(1-4) plain
    by (auto simp: list_all2_map1 case_prod_beta list_all2_conv_all_nth list_eq_iff_nth_eq split: option.split)
qed

section \<open>Properties\<close>

text \<open>The two ends of a session: tls-auth or tls-crypt with one key and opposite directions.\<close>

definition control_ends :: "crypto \<Rightarrow> tlsControlProtection \<Rightarrow> tlsControlProtection \<Rightarrow> bool" where
  "control_ends C p q \<longleftrightarrow> (\<exists>key a b. opposite_directions a b \<and>
     ((\<exists>name s d. newControlAuthCodecWithAuth key a name = Inr s \<and> newControlAuthCodecWithAuth key b name = Inr d \<and>
        p = \<lparr>auth = Some s, crypt = None, cryptV2ServerKey = []\<rparr> \<and> q = \<lparr>auth = Some d, crypt = None, cryptV2ServerKey = []\<rparr>) \<or>
      (\<exists>s d. newControlCryptCodec C key a = Inr s \<and> newControlCryptCodec C key b = Inr d \<and>
        p = \<lparr>auth = None, crypt = Some s, cryptV2ServerKey = []\<rparr> \<and> q = \<lparr>auth = None, crypt = Some d, cryptV2ServerKey = []\<rparr>)))"

text \<open>
  C28. Control packets survive the protection: between two ends with tls-auth or tls-crypt on the same
  key and opposite directions, every control packet that arrives is decoded to exactly the packet that
  was handed to the sender, whichever packets are lost and whatever the clocks show, for as long as
  the 32-bit packet id does not wrap; and no packet grows by more than \<open>controlPacketOverhead\<close>.
\<close>

theorem control_session_roundtrip:
  assumes "crypto_ok C" "aes_ok C" "control_ends C p q" "length xs \<le> 0xFFFFFFFF"
    and "\<forall>x \<in> set xs. plain_packet (fst (snd (snd x)))"
  shows "map snd (exchange (encodeOutgoingControlPacket C) (decodeIncomingControlPacket C) p q xs) = map Inr (arrived xs) \<and>
     list_all2 (\<lambda>(w, r) m. length w \<le> length m + controlPacketOverhead p)
       (exchange (encodeOutgoingControlPacket C) (decodeIncomingControlPacket C) p q xs) (arrived xs)"
proof -
  obtain key a b where dir: "opposite_directions a b" and ends:
    "(\<exists>name s d. newControlAuthCodecWithAuth key a name = Inr s \<and> newControlAuthCodecWithAuth key b name = Inr d \<and>
        p = \<lparr>auth = Some s, crypt = None, cryptV2ServerKey = []\<rparr> \<and> q = \<lparr>auth = Some d, crypt = None, cryptV2ServerKey = []\<rparr>) \<or>
      (\<exists>s d. newControlCryptCodec C key a = Inr s \<and> newControlCryptCodec C key b = Inr d \<and>
        p = \<lparr>auth = None, crypt = Some s, cryptV2ServerKey = []\<rparr> \<and> q = \<lparr>auth = None, crypt = Some d, cryptV2ServerKey = []\<rparr>)"
    using assms(3) unfolding control_ends_def by blast
  from ends show ?thesis
  proof (elim disjE exE conjE)
    fix name s d
    assume n: "newControlAuthCodecWithAuth key a name = Inr s" "newControlAuthCodecWithAuth key b name = Inr d"
      and pq: "p = \<lparr>auth = Some s, crypt = None, cryptV2ServerKey = []\<rparr>" "q = \<lparr>auth = Some d, crypt = None, cryptV2ServerKey = []\<rparr>"
    show ?thesis
      using auth_codec_peers [OF assms(1) dir n] assms(4,5) pq
      by (intro auth_exchange [where s = s and d = d]) (auto simp: newPacketIDState_def)
  next
    fix s d
    assume n: "newControlCryptCodec C key a = Inr s" "newControlCryptCodec C key b = Inr d"
      and pq: "p = \<lparr>auth = None, crypt = Some s, cryptV2ServerKey = []\<rparr>" "q = \<lparr>auth = None, crypt = Some d, cryptV2ServerKey = []\<rparr>"
    then obtain km where "newControlCryptCodecFromMaterial C km a = Inr s" "newControlCryptCodecFromMaterial C km b = Inr d"
      by (auto simp: newControlCryptCodec_def bindE_Inr_iff)
    from crypt_codec_peers [OF assms(1,2) dir this] show ?thesis
      using assms(4,5) pq by (intro crypt_exchange [where s = s and d = d]) (auto simp: newPacketIDState_def)
  qed
qed

lemma sample_aes: "aes_ok sample_crypto"
  by (simp add: aes_ok_def sample_crypto_def)

lemma sample_key: "loadStaticKeyMaterialFromSource (Inr (replicate 256 0)) = Inr (replicate 256 0)"
proof -
  have "length (replicate 256 (0 :: byte)) = 256" by simp
  then show ?thesis
    unfolding loadStaticKeyMaterialFromSource_def bindE_simps by (metis length_0_conv zero_neq_numeral)
qed

lemma sample_crypt_codec: "\<exists>c. newControlCryptCodecFromMaterial sample_crypto km a = Inr c"
  by (simp add: newControlCryptCodecFromMaterial_def newControlCryptKeys_def sample_crypto_def resolveStaticKeyDirection_def Let_def)

definition sample_control :: bytes where
  "sample_control = [0x20, 1, 2, 3, 4, 5, 6, 7, 8, 0, 0, 0, 0, 1]"

lemma sample_control_plain: "plain_packet sample_control"
  by (simp add: plain_packet_def sample_control_def OpcodeControlHardResetClientV3_def OpcodeControlWKCv1_def)

theorem control_session_roundtrip_witness:
  "\<exists>p q. control_ends sample_crypto p q \<and>
     map snd (exchange (encodeOutgoingControlPacket sample_crypto) (decodeIncomingControlPacket sample_crypto) p q
       [(5, (0, 1), sample_control, True), (5, (0, 1), sample_control, False), (6, (0, 2), sample_control, True)]) =
     [Inr sample_control, Inr sample_control]"
proof -
  obtain s d where c: "newControlCryptCodec sample_crypto (Inr (replicate 256 0)) 0 = Inr s"
    "newControlCryptCodec sample_crypto (Inr (replicate 256 0)) 1 = Inr d"
    using sample_crypt_codec [of "replicate 256 0" 0] sample_crypt_codec [of "replicate 256 0" 1]
    unfolding newControlCryptCodec_def sample_key bindE_simps by blast
  moreover have "opposite_directions 0 1" by (simp add: opposite_directions_def resolveStaticKeyDirection_def)
  ultimately have ends: "control_ends sample_crypto \<lparr>auth = None, crypt = Some s, cryptV2ServerKey = []\<rparr>
      \<lparr>auth = None, crypt = Some d, cryptV2ServerKey = []\<rparr>"
    unfolding control_ends_def by blast
  from control_session_roundtrip [OF sample_crypto_ok sample_aes this,
      of "[(5, (0, 1), sample_control, True), (5, (0, 1), sample_control, False), (6, (0, 2), sample_control, True)]"]
  show ?thesis using ends sample_control_plain by (intro exI conjI) auto
qed

subsection \<open>tls-crypt-v2\<close>

text \<open>
  How a client key is wrapped when it is generated, as specified by the tls-crypt-v2 format: tag,
  encrypted key and metadata, length of the whole.
\<close>

definition wrap_client_key :: "crypto \<Rightarrow> bytes \<Rightarrow> bytes \<Rightarrow> bytes result" where
  "wrap_client_key C serverKey plaintext =
     bindE (newBlock C aes_NewCipher (take 32 serverKey)) (\<lambda>b.
       let l = put_u16 (of_nat (length plaintext + 34));
           tag = hmacSum C sha256_New (take 32 (drop 64 serverKey)) (l @ plaintext)
       in Inr (tag @ ctr_crypt b (take 16 tag) plaintext @ l))"

lemma unwrap_wrap:
  assumes C: "crypto_ok C" "aes_ok C" and len: "128 \<le> length serverKey" "256 \<le> length pt" "length pt + 34 < 65536"
    and w: "wrap_client_key C serverKey pt = Inr w"
  shows "unwrapTLSCryptV2ClientKey C w serverKey = Inr (take 256 pt)" "length w = length pt + 34"
    "unat (get_u16 (drop (length w - 2) w)) = length w"
proof -
  obtain b where b: "newBlock C aes_NewCipher (take 32 serverKey) = Inr b"
    using w by (auto simp: wrap_client_key_def bindE_Inr_iff)
  have ok: "block_ok b" "BlockSize b = 16" using b C by (auto simp: crypto_ok_def aes_ok_def)
  define l where "l = put_u16 (of_nat (length pt + 34))"
  define tag where "tag = hmacSum C sha256_New (take 32 (drop 64 serverKey)) (l @ pt)"
  have tag: "length tag = 32" unfolding tag_def by (simp add: hmacSum_length [OF C(1)])
  have iv: "length (take 16 tag) = BlockSize b" using tag ok by simp
  define ct where "ct = ctr_crypt b (take 16 tag) pt"
  have ct: "length ct = length pt" "ctr_crypt b (take 16 tag) ct = pt"
    using ctr_law [OF ok(1) iv, of pt] by (simp_all add: ct_def)
  have ws: "w = tag @ ct @ l" using w unfolding wrap_client_key_def b bindE_simps Let_def l_def [symmetric] tag_def [symmetric]
    by (simp add: ct_def)
  have l: "length l = 2" by (simp add: l_def)
  show lw: "length w = length pt + 34" by (simp add: ws tag ct l)
  have dr: "drop (length w - 2) w = l" by (simp add: ws tag ct l)
  have u: "unat (get_u16 l) = length pt + 34" unfolding l_def u16_field.dec_enc_exact unat_of_nat using len(3) by simp
  show "unat (get_u16 (drop (length w - 2) w)) = length w" unfolding dr using u lw by linarith
  have parts: "take 32 w = tag" "drop 32 (take (length w - 2) w) = ct" by (simp_all add: ws tag ct l)
  show "unwrapTLSCryptV2ClientKey C w serverKey = Inr (take 256 pt)"
    using len lw unfolding unwrapTLSCryptV2ClientKey_def wrap_consts Let_def dr u b bindE_simps parts ct tag_def [symmetric]
    by simp
qed

lemma crypt_codec_other_direction:
  assumes "newControlCryptCodecFromMaterial C km tlsCryptKeyDirectionInverse = Inr s"
  shows "\<exists>d. newControlCryptCodecFromMaterial C km tlsCryptKeyDirectionNormal = Inr d"
  using assms
  by (auto simp: newControlCryptCodecFromMaterial_def resolveStaticKeyDirection_def tlsCryptKeyDirectionInverse_def
      tlsCryptKeyDirectionNormal_def Let_def bindE_Inr_iff)

text \<open>
  A packet with the wrapped key appended is opened like the packet itself, whether the server learns
  the key from it or holds the codec already.
\<close>

definition carries_key :: "bytes \<Rightarrow> bool" where
  "carries_key m \<longleftrightarrow> drop_bit 3 (m ! 0) = OpcodeControlHardResetClientV3 \<or> drop_bit 3 (m ! 0) = OpcodeControlWKCv1"

definition wrapped_for :: "crypto \<Rightarrow> bytes \<Rightarrow> controlCryptCodec \<Rightarrow> bytes \<Rightarrow> bool" where
  "wrapped_for C serverKey d wkc \<longleftrightarrow>
     serverKey \<noteq> [] \<and> 34 \<le> length wkc \<and> unat (get_u16 (drop (length wkc - 2) wkc)) = length wkc \<and>
     (\<exists>km. unwrapTLSCryptV2ClientKey C wkc serverKey = Inr km \<and>
        newControlCryptCodecFromMaterial C km tlsCryptKeyDirectionNormal = Inr d)"

lemma wrapped_key_opens:
  assumes "crypto_ok C" "aes_ok C" "128 \<le> length serverKey" "length km = 256" "length meta + 290 < 65536"
    and "wrap_client_key C serverKey (km @ meta) = Inr wkc"
    and "newControlCryptCodecFromMaterial C km tlsCryptKeyDirectionNormal = Inr d"
  shows "wrapped_for C serverKey d wkc"
proof -
  have pt: "256 \<le> length (km @ meta)" "length (km @ meta) + 34 < 65536" using assms(4,5) by simp_all
  note u = unwrap_wrap [OF assms(1-3) pt assms(6)]
  have "serverKey \<noteq> []" using assms(3) by auto
  then show ?thesis using u assms(4,7) by (simp add: wrapped_for_def)
qed

lemma extract_appended:
  assumes "wrapped_for C (cryptV2ServerKey q) d wkc" "9 \<le> length w"
  shows "extractTLSCryptV2ClientKey C q (w @ wkc) = (Inr w, if crypt q = None then q\<lparr>crypt := Some d\<rparr> else q)"
proof -
  obtain km where k: "length (cryptV2ServerKey q) \<noteq> 0" "34 \<le> length wkc" "unat (get_u16 (drop (length wkc - 2) wkc)) = length wkc"
    "unwrapTLSCryptV2ClientKey C wkc (cryptV2ServerKey q) = Inr km"
    "newControlCryptCodecFromMaterial C km tlsCryptKeyDirectionNormal = Inr d"
    using assms(1) by (auto simp: wrapped_for_def)
  have "drop (length (w @ wkc) - 2) (w @ wkc) = drop (length wkc - 2) wkc" using k(2) by simp
  then have g: "unat (get_u16 (drop (length (w @ wkc) - 2) (w @ wkc))) = length wkc" using k(3) by simp
  have b: "\<not> length (w @ wkc) < 9 + 2" "\<not> (length wkc < 32 + 2 \<or> length wkc > length (w @ wkc) - 9)" using k(2) assms(2) by auto
  have parts: "take (length (w @ wkc) - length wkc) (w @ wkc) = w" "drop (length (w @ wkc) - length wkc) (w @ wkc) = wkc"
    by simp_all
  show ?thesis
    unfolding extractTLSCryptV2ClientKey_def wrap_consts Let_def g if_not_P [OF b(1)] if_not_P [OF b(2)] if_not_P [OF k(1)]
      parts k(4) bindE_simps k(5) by simp
qed

text \<open>The codec a server works with: its own, or the one it gets from the wrapped key.\<close>

lemma decode_v2:
  assumes wkc: "wrapped_for C (cryptV2ServerKey q) d wkc" and e: "crypt q = Some e \<or> crypt q = None \<and> e = d \<and> carries_key m"
    and w: "9 \<le> length w" "w ! 0 = m ! 0" and dec: "crypt_decodeControlPacket C clock (Some e) w = (r, e')"
  shows "decodeIncomingControlPacket C clock q (appendTLSCryptV2WrappedClientKey w wkc (drop_bit 3 (m ! 0))) =
    (case r of None \<Rightarrow> Inl (New ''invalid tls-crypt packet'') | Some m \<Rightarrow> Inr m, q\<lparr>crypt := e'\<rparr>)"
proof (cases "carries_key m")
  case True
  have "0 < length wkc" using wkc by (auto simp: wrapped_for_def)
  then have a: "appendTLSCryptV2WrappedClientKey w wkc (drop_bit 3 (m ! 0)) = w @ wkc"
    using True by (simp add: appendTLSCryptV2WrappedClientKey_def carries_key_def)
  moreover have "(w @ wkc) ! 0 = m ! 0" "\<not> length (w @ wkc) < 9" using w by (cases w; simp)+
  moreover have "crypt (if crypt q = None then q\<lparr>crypt := Some d\<rparr> else q) = Some e" using e by auto
  ultimately show ?thesis
    using True dec extract_appended [OF wkc w(1)] unfolding decodeIncomingControlPacket_def wrap_consts Let_def carries_key_def
    by simp
next
  case False
  then have "crypt q = Some e" "appendTLSCryptV2WrappedClientKey w wkc (drop_bit 3 (m ! 0)) = w"
    using e by (auto simp: appendTLSCryptV2WrappedClientKey_def carries_key_def)
  then show ?thesis using False w dec by (simp add: decodeIncomingControlPacket_def wrap_consts Let_def carries_key_def)
qed

lemma exchange_v2:
  assumes "wrapped_for C serverKey d wkc"
  shows "crypt p \<noteq> None \<Longrightarrow> cryptV2ServerKey q = serverKey \<Longrightarrow>
     crypt q = Some e \<or> crypt q = None \<and> e = d \<and> (\<forall>m ms. arrived xs = m # ms \<longrightarrow> carries_key m) \<Longrightarrow>
     \<forall>x \<in> set xs. 9 \<le> length (fst (snd (snd x))) \<Longrightarrow>
     map snd (exchange (encodeHandshakePacket C wkc) (decodeIncomingControlPacket C) p q xs) =
       map (\<lambda>r. case r of None \<Rightarrow> Inl (New ''invalid tls-crypt packet'') | Some m \<Rightarrow> Inr m)
         (map snd (exchange (crypt_encodeControlPacket C) (crypt_decodeControlPacket C) (crypt p) (Some e) xs))"
proof (induction xs arbitrary: p q e)
  case (Cons x xs)
  obtain now clock m a where x: "x = (now, clock, m, a)" by (cases x) auto
  obtain c where c: "crypt p = Some c" using Cons.prems(1) by auto
  have m: "9 \<le> length m" using Cons.prems(4) by (simp add: x)
  obtain w s' where enc: "crypt_encodeControlPacket C now (Some c) m = (w, s')" by fastforce
  obtain c' where w: "s' = Some c'" "9 \<le> length w" "w ! 0 = m ! 0" using crypt_encode_shape [OF enc m] by blast
  obtain r e1 where d: "crypt_decodeControlPacket C clock (Some e) w = (r, e1)" by fastforce
  then obtain e' where e': "e1 = Some e'" using crypt_decode_shape by blast
  have send: "encodeHandshakePacket C wkc now p m = (appendTLSCryptV2WrappedClientKey w wkc (drop_bit 3 (m ! 0)), p\<lparr>crypt := s'\<rparr>)"
    by (simp add: encodeHandshakePacket_def encodeOutgoingControlPacket_def c enc)
  show ?case
  proof (cases a)
    case True
    have "crypt q = Some e \<or> crypt q = None \<and> e = d \<and> carries_key m" using Cons.prems(3) True by (auto simp: x)
    from decode_v2 [OF _ this w(2,3) d [unfolded e']] assms Cons.prems(2)
    have "decodeIncomingControlPacket C clock q (appendTLSCryptV2WrappedClientKey w wkc (drop_bit 3 (m ! 0))) =
      (case r of None \<Rightarrow> Inl (New ''invalid tls-crypt packet'') | Some m \<Rightarrow> Inr m, q\<lparr>crypt := Some e'\<rparr>)" by simp
    then show ?thesis
      using Cons.IH [of "p\<lparr>crypt := s'\<rparr>" "q\<lparr>crypt := Some e'\<rparr>" e'] Cons.prems(2,4) w(1) True
      by (simp add: x c enc d e' send)
  next
    case False
    then show ?thesis using Cons.IH [of "p\<lparr>crypt := s'\<rparr>" q e] Cons.prems w(1) by (simp add: x c enc send)
  qed
qed simp

lemma first_packet_announces:
  assumes "crypt_encodeControlPacket C now (Some c) m = (w, s')" "9 \<le> length m"
    "nextID (crypt_sendState c) = tlsCryptV2EarlyNegotiationStart"
  shows "tlsCryptV2ResetAnnouncesEarlyNegotiation (w @ r)"
proof -
  obtain b t where n: "next_id now (crypt_sendState c) = (b, t)" by fastforce
  have ne: "nextID (crypt_sendState c) \<noteq> 0xFFFFFFFF" using assms(3) by (simp add: tlsCryptV2EarlyNegotiationStart_def)
  have b: "length b = 8" using next_id_bytes(1) [of now "crypt_sendState c"] n by simp
  have "get_u32 b = 0x0f000001"
    using next_id_bytes(2) [of now "crypt_sendState c"] next_id_step(1) [OF ne, of now] n assms(3)
    by (simp add: get_stamp_def tlsCryptV2EarlyNegotiationStart_def)
  moreover have "get_u32 (b @ u) = get_u32 b" for u using b by (auto simp: numeral_eq_Suc length_Suc_conv)
  moreover obtain u where "w = take 9 m @ b @ u"
    using assms(1,2) n by (auto simp: crypt_encodeControlPacket_def wrap_consts Let_def)
  ultimately show ?thesis
    using assms(2) b
    by (simp add: tlsCryptV2ResetAnnouncesEarlyNegotiation_def wrap_consts tlsCryptV2EarlyNegotiationStart_def)
qed

lemma v2_codecs_ready:
  assumes "crypto_ok C" "aes_ok C" "newControlCryptCodecFromMaterial C km tlsCryptKeyDirectionInverse = Inr s"
    "newControlCryptCodecFromMaterial C km tlsCryptKeyDirectionNormal = Inr d"
  shows "crypt_peers C (Some (s\<lparr>crypt_sendState := seedNextID now n (crypt_sendState s)\<rparr>)) (Some d)"
    "behind (seedNextID now n (crypt_sendState s)) (crypt_window (Some d))"
    "nextID (seedNextID now n (crypt_sendState s)) = n"
proof -
  have dir: "opposite_directions tlsCryptKeyDirectionInverse tlsCryptKeyDirectionNormal"
    by (simp add: opposite_directions_def resolveStaticKeyDirection_def tlsCryptKeyDirectionInverse_def tlsCryptKeyDirectionNormal_def)
  show "crypt_peers C (Some (s\<lparr>crypt_sendState := seedNextID now n (crypt_sendState s)\<rparr>)) (Some d)"
    using crypt_codec_peers [OF assms(1,2) dir assms(3,4)] by simp
  obtain x y z where r: "resolveStaticKeyDirection tlsCryptKeyDirectionNormal = (x, y, z)" by (metis prod_cases3)
  show "behind (seedNextID now n (crypt_sendState s)) (crypt_window (Some d))"
    using crypt_fields [OF assms(4) r]
    by (auto simp: behind_def crypt_window_def newReplayWindow_def defaultReplayWindowSize_def)
  show "nextID (seedNextID now n (crypt_sendState s)) = n" by (simp add: seedNextID_def)
qed

text \<open>
  C29. tls-crypt-v2 sets up a session: a client that holds its key and the key wrapped for the server
  (with any metadata that fits) marks its first packet as capable of early negotiation. The server,
  which holds the server key only, decodes every control packet of the client that arrives to exactly
  the packet the client sent, whichever packets are lost and whatever the clocks show, until the
  packet id wraps, provided that the first one to arrive carries the wrapped key. Later packets may
  carry it again (a retransmitted reset, or the first control packet after a cookie) or not.
\<close>

theorem tls_crypt_v2_session:
  assumes "crypto_ok C" "aes_ok C" "128 \<le> length serverKey" "length km = 256" "length meta + 290 < 65536"
    and "wrap_client_key C serverKey (km @ meta) = Inr wkc"
    and "newControlCryptCodecFromMaterial C km tlsCryptKeyDirectionInverse = Inr s"
    and "p = \<lparr>auth = None,
               crypt = Some (s\<lparr>crypt_sendState := seedNextID now0 tlsCryptV2EarlyNegotiationStart (crypt_sendState s)\<rparr>),
               cryptV2ServerKey = []\<rparr>"
    and "q = \<lparr>auth = None, crypt = None, cryptV2ServerKey = serverKey\<rparr>"
    and "\<forall>x \<in> set xs. 9 \<le> length (fst (snd (snd x)))" "length xs \<le> 0xF0FFFFFF"
    and "\<forall>m ms. arrived xs = m # ms \<longrightarrow>
           drop_bit 3 (m ! 0) = OpcodeControlHardResetClientV3 \<or> drop_bit 3 (m ! 0) = OpcodeControlWKCv1"
  shows "map snd (exchange (encodeHandshakePacket C wkc) (decodeIncomingControlPacket C) p q xs) = map Inr (arrived xs) \<and>
    (\<forall>now m. 9 \<le> length m \<longrightarrow> tlsCryptV2ResetAnnouncesEarlyNegotiation (fst (encodeHandshakePacket C wkc now p m)))"
proof -
  define c where "c = s\<lparr>crypt_sendState := seedNextID now0 tlsCryptV2EarlyNegotiationStart (crypt_sendState s)\<rparr>"
  have p: "crypt p = Some c" by (simp add: assms(8) c_def)
  obtain d where d: "newControlCryptCodecFromMaterial C km tlsCryptKeyDirectionNormal = Inr d"
    using crypt_codec_other_direction [OF assms(7)] by blast
  have ready: "crypt_peers C (Some c) (Some d)" "behind (crypt_state (Some c)) (crypt_window (Some d))"
    and seed: "nextID (crypt_sendState c) = tlsCryptV2EarlyNegotiationStart"
    using v2_codecs_ready [OF assms(1,2,7) d, of now0] by (simp_all add: c_def crypt_state_def)
  have "unat (nextID (crypt_state (Some c))) + length xs \<le> 0xFFFFFFFF"
    using seed assms(11) by (simp add: crypt_state_def tlsCryptV2EarlyNegotiationStart_def)
  from tls_crypt.session [OF ready this assms(10)]
  have "map snd (exchange (crypt_encodeControlPacket C) (crypt_decodeControlPacket C) (crypt p) (Some d) xs) = map Some (arrived xs)"
    using p by simp
  moreover have "map snd (exchange (encodeHandshakePacket C wkc) (decodeIncomingControlPacket C) p q xs) =
       map (\<lambda>r. case r of None \<Rightarrow> Inl (New ''invalid tls-crypt packet'') | Some m \<Rightarrow> Inr m)
         (map snd (exchange (crypt_encodeControlPacket C) (crypt_decodeControlPacket C) (crypt p) (Some d) xs))"
    by (rule exchange_v2 [OF wrapped_key_opens [OF assms(1-6) d]]) (use p assms(9,10,12) in \<open>simp_all add: carries_key_def\<close>)
  moreover have "tlsCryptV2ResetAnnouncesEarlyNegotiation (fst (encodeHandshakePacket C wkc now p m))" if m: "9 \<le> length m" for now m
  proof -
    obtain w s' where e: "crypt_encodeControlPacket C now (Some c) m = (w, s')" by fastforce
    then show ?thesis
      using first_packet_announces [OF e m seed, of "[]"] first_packet_announces [OF e m seed, of wkc] p
      by (simp add: encodeHandshakePacket_def encodeOutgoingControlPacket_def appendTLSCryptV2WrappedClientKey_def)
  qed
  ultimately show ?thesis by simp
qed

text \<open>A reset that is lost, its retransmission, a control packet that resends the key, and one that does not.\<close>

theorem tls_crypt_v2_session_witness:
  "\<exists>wkc p. map snd (exchange (encodeHandshakePacket sample_crypto wkc) (decodeIncomingControlPacket sample_crypto) p
       \<lparr>auth = None, crypt = None, cryptV2ServerKey = replicate 128 0\<rparr>
       [(5, (0, 1), 0x50 # replicate 13 0, False), (6, (0, 1), 0x50 # replicate 13 0, True),
        (7, (0, 1), 0x58 # replicate 13 0, True), (8, (0, 2), sample_control, True)]) =
     [Inr (0x50 # replicate 13 0), Inr (0x58 # replicate 13 0), Inr sample_control]"
proof -
  let ?k = "replicate 256 (0 :: byte)"
  obtain s where s: "newControlCryptCodecFromMaterial sample_crypto ?k tlsCryptKeyDirectionInverse = Inr s"
    using sample_crypt_codec by blast
  obtain wkc where wkc: "wrap_client_key sample_crypto (replicate 128 0) (?k @ []) = Inr wkc"
    by (simp add: wrap_client_key_def sample_crypto_def Let_def)
  let ?xs = "[(5, (0, 1), 0x50 # replicate 13 0, False), (6, (0, 1), 0x50 # replicate 13 0, True),
        (7, (0, 1), 0x58 # replicate 13 0, True), (8, (0, 2), sample_control, True)] :: (u32 \<times> clock \<times> bytes \<times> bool) list"
  have "\<forall>x \<in> set ?xs. 9 \<le> length (fst (snd (snd x)))" by (simp add: sample_control_def)
  moreover have "\<forall>m ms. arrived ?xs = m # ms \<longrightarrow>
      drop_bit 3 (m ! 0) = OpcodeControlHardResetClientV3 \<or> drop_bit 3 (m ! 0) = OpcodeControlWKCv1"
    by (auto simp: OpcodeControlHardResetClientV3_def)
  ultimately show ?thesis
    using tls_crypt_v2_session [OF sample_crypto_ok sample_aes _ _ _ wkc s refl refl, of ?xs] by auto
qed

subsection \<open>Replays\<close>

definition protection_window :: "tlsControlProtection \<Rightarrow> replayWindow option" where
  "protection_window p = (if crypt p \<noteq> None then crypt_window (crypt p) else auth_window (auth p))"

definition protection_set_window :: "replayWindow option \<Rightarrow> tlsControlProtection \<Rightarrow> tlsControlProtection" where
  "protection_set_window w p =
     (if crypt p \<noteq> None then p\<lparr>crypt := map_option (\<lambda>c. c\<lparr>crypt_receiveState := w\<rparr>) (crypt p)\<rparr>
      else p\<lparr>auth := map_option (\<lambda>c. c\<lparr>auth_receiveState := w\<rparr>) (auth p)\<rparr>)"

definition protection_accept :: "clock \<Rightarrow> tlsControlProtection \<Rightarrow> u32 \<times> u32 \<Rightarrow> bool \<times> tlsControlProtection" where
  "protection_accept clock p x =
     (case window_check AcceptLongForm clock (protection_window p) x of (ok, w) \<Rightarrow> (ok, protection_set_window w p))"

text \<open>Where timestamp and packet id stand in a datagram.\<close>

definition control_label :: "tlsControlProtection \<Rightarrow> bytes \<Rightarrow> u32 \<times> u32" where
  "control_label p w =
     get_stamp (take 8 (drop (9 + (if crypt p \<noteq> None \<or> cryptV2ServerKey p \<noteq> [] then 0
                                   else case auth p of Some c \<Rightarrow> auth_digestSize c | None \<Rightarrow> 0)) w))"

definition protection_good :: "tlsControlProtection \<Rightarrow> bool" where
  "protection_good p \<longleftrightarrow> (\<exists>w. protection_window p = Some w \<and> rw_wf w) \<and> (crypt p = None \<longrightarrow> cryptV2ServerKey p = [])"

definition protection_dead :: "tlsControlProtection \<Rightarrow> (u32 \<times> u32) set" where
  "protection_dead p = (case protection_window p of Some w \<Rightarrow> dead_pairs w | None \<Rightarrow> {})"

lemma protection_set_window_simps:
  "protection_good p \<Longrightarrow> protection_window (protection_set_window w p) = w"
  "control_label (protection_set_window w p) = control_label p"
  "protection_set_window (protection_window p) p = p"
  "crypt (protection_set_window w p) = None \<longleftrightarrow> crypt p = None"
  "cryptV2ServerKey (protection_set_window w p) = cryptV2ServerKey p"
  by (auto simp: protection_window_def protection_set_window_def crypt_window_def auth_window_def protection_good_def
      control_label_def fun_eq_iff map_option_case split: option.splits)

lemma protection_accept_laws:
  assumes "protection_good p" "protection_accept clock p x = (ok, p')"
  shows "protection_good p' \<and> protection_dead p \<subseteq> protection_dead p' \<and> control_label p' = control_label p \<and>
     (ok \<longrightarrow> x \<notin> protection_dead p \<and> x \<in> protection_dead p')"
proof -
  obtain w where w: "protection_window p = Some w" "rw_wf w" using assms(1) by (auto simp: protection_good_def)
  obtain w' where a: "AcceptLongForm clock w x = (ok, w')" and p': "p' = protection_set_window (Some w') p"
    using assms(2) by (auto simp: protection_accept_def window_check_def w split: prod.splits)
  note s = protection_set_window_simps(1) [OF assms(1)] protection_set_window_simps(2,4,5)
  from AcceptLongForm_dead [OF w(2) a] show ?thesis
    using assms(1) by (auto simp: p' s w protection_good_def protection_dead_def)
qed

text \<open>
  \<open>guarded_by clock w x r w'\<close>: the decoder with window \<open>w\<close> delivered after the window passed \<open>x\<close>, or
  refused because the window did, or refused without asking it.
\<close>

definition guarded_by :: "clock \<Rightarrow> replayWindow option \<Rightarrow> u32 \<times> u32 \<Rightarrow> bool \<Rightarrow> replayWindow option \<Rightarrow> bool" where
  "guarded_by clock w x delivered w' \<longleftrightarrow>
     (if delivered then window_check AcceptLongForm clock w x = (True, w')
      else w' = w \<or> window_check AcceptLongForm clock w x = (False, w'))"

lemma crypt_try_guarded:
  "crypt_try_candidates C clock h b tag ct w cs = (r, w') \<Longrightarrow> guarded_by clock w (get_stamp b) (r \<noteq> None) w'"
  by (induction C clock h b tag ct w cs rule: crypt_try_candidates.induct)
    (auto simp: guarded_by_def Let_def split: if_splits prod.splits)

lemma auth_try_guarded:
  "auth_try_keys C clock h i dg x w ks = (r, w') \<Longrightarrow> guarded_by clock w x r w'"
  by (induction C clock h i dg x w ks rule: auth_try_keys.induct) (auto simp: guarded_by_def split: if_splits)

lemma crypt_decode_guarded:
  assumes "crypt_decodeControlPacket C clock (Some c) w = (r, d')"
  shows "\<exists>v. d' = Some (c\<lparr>crypt_receiveState := v\<rparr>) \<and> (v \<noteq> crypt_receiveState c \<or> r \<noteq> None \<longrightarrow> 49 \<le> length w) \<and>
     guarded_by clock (crypt_receiveState c) (get_stamp (take 8 (drop 9 w))) (r \<noteq> None) v"
proof (cases "length w < 49")
  case True
  then show ?thesis
    using assms by (intro exI [of _ "crypt_receiveState c"]) (simp add: crypt_decodeControlPacket_def wrap_consts guarded_by_def)
next
  case False
  obtain x v where t: "crypt_try_candidates C clock (take 9 w) (take 8 (drop 9 w)) (take 32 (drop 17 w)) (drop 49 w)
      (crypt_receiveState c) (crypt_receiveCandidates c) = (x, v)" by fastforce
  have "r = x \<and> d' = Some (c\<lparr>crypt_receiveState := v\<rparr>)"
    using assms False t by (auto simp: crypt_decodeControlPacket_def wrap_consts Let_def)
  then show ?thesis using crypt_try_guarded [OF t] False by auto
qed

lemma auth_decode_guarded:
  assumes "auth_decodeControlPacket C clock (Some c) w = (r, d')"
  shows "\<exists>v. d' = Some (c\<lparr>auth_receiveState := v\<rparr>) \<and>
     guarded_by clock (auth_receiveState c) (get_stamp (take 8 (drop (9 + auth_digestSize c) w))) (r \<noteq> None) v"
proof (cases "length w < 9 + auth_digestSize c + 8")
  case True
  then show ?thesis
    using assms by (intro exI [of _ "auth_receiveState c"]) (simp add: auth_decodeControlPacket_def wrap_consts guarded_by_def)
next
  case False
  obtain ok v where t: "auth_try_keys C clock (auth_hashFactory c)
      (take 8 (drop (9 + auth_digestSize c) w) @ take 9 w @ drop (9 + auth_digestSize c + 8) w)
      (take (auth_digestSize c) (drop 9 w)) (get_stamp (take 8 (drop (9 + auth_digestSize c) w)))
      (auth_receiveState c) (auth_receiveKeys c) = (ok, v)" by fastforce
  have "r = (if ok then Some (take 9 w @ drop (9 + auth_digestSize c + 8) w) else None) \<and> d' = Some (c\<lparr>auth_receiveState := v\<rparr>)"
    using assms False t by (auto simp: auth_decodeControlPacket_def wrap_consts Let_def)
  then show ?thesis using auth_try_guarded [OF t] by auto
qed

lemma extract_crypt_set:
  "crypt p \<noteq> None \<Longrightarrow> extractTLSCryptV2ClientKey C p w = (r, p') \<Longrightarrow> p' = p \<and> (\<forall>u. r = Inr u \<longrightarrow> (\<exists>k. u = take k w))"
  by (auto simp: extractTLSCryptV2ClientKey_def Let_def split: if_splits)

lemma decodeIncoming_crypt_cases:
  assumes c: "crypt p = Some c" and dec: "decodeIncomingControlPacket C clock p w = (r, p')"
  shows "(\<exists>err. r = Inl err \<and> p' = p) \<or>
    (\<exists>u x d'. (u = w \<or> (\<exists>k. u = take k w)) \<and> crypt_decodeControlPacket C clock (Some c) u = (x, d') \<and>
       r = (case x of None \<Rightarrow> Inl (New ''invalid tls-crypt packet'') | Some m \<Rightarrow> Inr m) \<and> p' = p\<lparr>crypt := d'\<rparr>)"
proof (cases "length w < 9")
  case True
  then show ?thesis using dec by (auto simp: decodeIncomingControlPacket_def wrap_consts)
next
  case False
  obtain y q where y: "(if drop_bit 3 (w ! 0) = OpcodeControlHardResetClientV3 \<or> drop_bit 3 (w ! 0) = OpcodeControlWKCv1
             then extractTLSCryptV2ClientKey C p w else (Inr w, p)) = (y, q)" by fastforce
  have q: "q = p" and u: "\<And>u. y = Inr u \<Longrightarrow> u = w \<or> (\<exists>k. u = take k w)"
    using y extract_crypt_set [of p C w y q] c by (auto split: if_splits)
  show ?thesis
  proof (cases y)
    case (Inl err)
    then have "r = Inl err \<and> p' = p" using dec False y q by (simp add: decodeIncomingControlPacket_def wrap_consts Let_def)
    then show ?thesis by blast
  next
    case (Inr z)
    obtain x d' where x: "crypt_decodeControlPacket C clock (Some c) z = (x, d')" by fastforce
    have "r = (case x of None \<Rightarrow> Inl (New ''invalid tls-crypt packet'') | Some m \<Rightarrow> Inr m) \<and> p' = p\<lparr>crypt := d'\<rparr>"
      using dec False y q c x Inr by (simp add: decodeIncomingControlPacket_def wrap_consts Let_def)
    then show ?thesis using x u [OF Inr] by blast
  qed
qed

lemma decodeIncoming_crypt_guarded:
  assumes c: "crypt p = Some c" and dec: "decodeIncomingControlPacket C clock p w = (r, p')"
  shows "\<exists>v. p' = protection_set_window v p \<and> guarded_by clock (protection_window p) (control_label p w) (\<exists>m. r = Inr m) v"
  using decodeIncoming_crypt_cases [OF assms]
proof
  assume "\<exists>err. r = Inl err \<and> p' = p"
  then show ?thesis
    using protection_set_window_simps(3) [of p] by (intro exI [of _ "protection_window p"]) (auto simp: guarded_by_def)
next
  assume "\<exists>u x d'. (u = w \<or> (\<exists>k. u = take k w)) \<and> crypt_decodeControlPacket C clock (Some c) u = (x, d') \<and>
       r = (case x of None \<Rightarrow> Inl (New ''invalid tls-crypt packet'') | Some m \<Rightarrow> Inr m) \<and> p' = p\<lparr>crypt := d'\<rparr>"
  then obtain u x d' where t: "u = w \<or> (\<exists>k. u = take k w)" "crypt_decodeControlPacket C clock (Some c) u = (x, d')"
    "r = (case x of None \<Rightarrow> Inl (New ''invalid tls-crypt packet'') | Some m \<Rightarrow> Inr m)" "p' = p\<lparr>crypt := d'\<rparr>" by blast
  obtain v where v: "d' = Some (c\<lparr>crypt_receiveState := v\<rparr>)" "v \<noteq> crypt_receiveState c \<or> x \<noteq> None \<longrightarrow> 49 \<le> length u"
    "guarded_by clock (crypt_receiveState c) (get_stamp (take 8 (drop 9 u))) (x \<noteq> None) v"
    using crypt_decode_guarded [OF t(2)] by blast
  have p': "p' = protection_set_window v p" using t(4) v(1) c by (simp add: protection_set_window_def)
  have win: "protection_window p = crypt_receiveState c" using c by (simp add: protection_window_def crypt_window_def)
  have eq: "take 8 (drop 9 u) = take 8 (drop 9 w)" if "49 \<le> length u" using t(1) that by (auto simp: drop_take)
  have m: "(\<exists>m. r = Inr m) \<longleftrightarrow> x \<noteq> None" using t(3) by (cases x) auto
  have "control_label p w = get_stamp (take 8 (drop 9 w))" using c by (simp add: control_label_def)
  then have "guarded_by clock (protection_window p) (control_label p w) (\<exists>m. r = Inr m) v"
    using v(2,3) eq unfolding win m by (cases "49 \<le> length u") (auto simp: guarded_by_def)
  then show ?thesis using p' by blast
qed

lemma decodeIncoming_auth_guarded:
  assumes c: "crypt p = None" "auth p = Some c" "cryptV2ServerKey p = []"
    and dec: "decodeIncomingControlPacket C clock p w = (r, p')"
  shows "\<exists>v. p' = protection_set_window v p \<and> guarded_by clock (protection_window p) (control_label p w) (\<exists>m. r = Inr m) v"
proof -
  obtain x d' where x: "auth_decodeControlPacket C clock (Some c) w = (x, d')" by fastforce
  consider (refused) err where "r = Inl err" "p' = p"
    | (tried) "r = (case x of None \<Rightarrow> Inl (New ''invalid tls-auth packet'') | Some m \<Rightarrow> Inr m)" "p' = p\<lparr>auth := d'\<rparr>"
    using dec c x
    by (auto simp: decodeIncomingControlPacket_def extractTLSCryptV2ClientKey_def Let_def split: if_splits)
  then show ?thesis
  proof cases
    case refused
    then show ?thesis
      using protection_set_window_simps(3) [of p] by (intro exI [of _ "protection_window p"]) (simp add: guarded_by_def)
  next
    case tried
    have "(\<exists>m. r = Inr m) \<longleftrightarrow> x \<noteq> None" using tried(1) by (cases x) auto
    then show ?thesis
      using auth_decode_guarded [OF x] tried(2) c
      by (auto simp: protection_set_window_def protection_window_def auth_window_def control_label_def)
  qed
qed

lemma decodeIncoming_guarded:
  assumes "protection_good p" "decodeIncomingControlPacket C clock p w = (r, p')"
  shows "\<exists>v. p' = protection_set_window v p \<and> guarded_by clock (protection_window p) (control_label p w) (\<exists>m. r = Inr m) v"
proof (cases "crypt p")
  case None
  then obtain c where "auth p = Some c" "cryptV2ServerKey p = []"
    using assms(1) by (auto simp: protection_good_def protection_window_def auth_window_def split: option.splits)
  with None assms(2) show ?thesis by (intro decodeIncoming_auth_guarded)
qed (use assms(2) decodeIncoming_crypt_guarded in blast)

interpretation control: guarded_decoder protection_accept protection_good protection_dead
  "decodeIncomingControlPacket C" control_label for C
proof (unfold_locales, goal_cases)
  case (5 p e w m p')
  then show ?case using decodeIncoming_guarded [of p C e w "Inr m" p'] by (auto simp: guarded_by_def protection_accept_def)
next
  case (6 p e w err p')
  then show ?case
    using decodeIncoming_guarded [of p C e w "Inl err" p'] protection_set_window_simps(3) [of p]
    by (auto simp: guarded_by_def protection_accept_def)
qed (use protection_accept_laws in blast)+

text \<open>A tls-crypt-v2 server starts without a window and gets one with the first key it unwraps.\<close>

definition v2_waiting :: "tlsControlProtection \<Rightarrow> bool" where
  "v2_waiting p \<longleftrightarrow> crypt p = None \<and> auth p = None \<and> cryptV2ServerKey p \<noteq> []"

lemma extract_unset:
  assumes "crypt p = None" "extractTLSCryptV2ClientKey C p w = (r, q)"
  shows "(\<exists>err. r = Inl err \<and> q = p) \<or>
    (\<exists>u km c. r = Inr u \<and> q = p\<lparr>crypt := Some c\<rparr> \<and> newControlCryptCodecFromMaterial C km tlsCryptKeyDirectionNormal = Inr c \<and>
       extractTLSCryptV2ClientKey C q w = (Inr u, q))"
  using assms by (auto simp: extractTLSCryptV2ClientKey_def Let_def bindE_Inr_iff split: if_splits sum.splits)

lemma v2_waiting_step:
  assumes "v2_waiting p" "decodeIncomingControlPacket C e p w = (r, p')"
  shows "(\<exists>err. r = Inl err \<and> p' = p) \<or>
    (\<exists>q. protection_good q \<and> control_label q = control_label p \<and> decodeIncomingControlPacket C e q w = (r, p'))"
proof (cases "length w < 9 \<or> \<not> (drop_bit 3 (w ! 0) = OpcodeControlHardResetClientV3 \<or> drop_bit 3 (w ! 0) = OpcodeControlWKCv1)")
  case True
  then show ?thesis
    using assms by (auto simp: decodeIncomingControlPacket_def v2_waiting_def wrap_consts Let_def split: if_splits)
next
  case False
  obtain y q where y: "extractTLSCryptV2ClientKey C p w = (y, q)" by fastforce
  have "crypt p = None" using assms(1) by (simp add: v2_waiting_def)
  from extract_unset [OF this y] show ?thesis
  proof (elim disjE exE conjE)
    fix err assume "y = Inl err" "q = p"
    then show ?thesis using assms(2) False y by (auto simp: decodeIncomingControlPacket_def wrap_consts Let_def split: if_splits)
  next
    fix u km c
    assume q: "y = Inr u" "q = p\<lparr>crypt := Some c\<rparr>" "newControlCryptCodecFromMaterial C km tlsCryptKeyDirectionNormal = Inr c"
      "extractTLSCryptV2ClientKey C q w = (Inr u, q)"
    obtain i j k where r: "resolveStaticKeyDirection tlsCryptKeyDirectionNormal = (i, j, k)" by (metis prod_cases3)
    have "protection_good q \<and> control_label q = control_label p"
      using crypt_fields [OF q(3) r] q(2) assms(1)
      by (auto simp: protection_good_def protection_window_def crypt_window_def control_label_def fun_eq_iff v2_waiting_def)
    moreover have "decodeIncomingControlPacket C e q w = decodeIncomingControlPacket C e p w"
      using False y q(1,4) unfolding decodeIncomingControlPacket_def wrap_consts Let_def by simp
    ultimately show ?thesis using assms(2) by metis
  qed
qed

lemma v2_delivered_distinct:
  "v2_waiting p \<Longrightarrow> i < j \<Longrightarrow> j < length ws \<Longrightarrow> decode_run (decodeIncomingControlPacket C) p ws ! i = Inr m \<Longrightarrow>
     decode_run (decodeIncomingControlPacket C) p ws ! j = Inr m' \<Longrightarrow>
     control_label p (snd (ws ! i)) \<noteq> control_label p (snd (ws ! j))"
proof (induction ws arbitrary: i j)
  case (Cons x ws)
  obtain e w where x: "x = (e, w)" by fastforce
  obtain r p' where d: "decodeIncomingControlPacket C e p w = (r, p')" by fastforce
  from v2_waiting_step [OF Cons.prems(1) d] show ?case
  proof (elim disjE exE conjE)
    fix err assume r: "r = Inl err" "p' = p"
    then have "i \<noteq> 0" using Cons.prems(4) d x by (cases i) auto
    then obtain i' j' where "i = Suc i'" "j = Suc j'" using Cons.prems(2) by (cases i; cases j) auto
    then show ?thesis using Cons.IH [of i' j'] Cons.prems d x r by simp
  next
    fix q assume q: "protection_good q" "control_label q = control_label p" "decodeIncomingControlPacket C e q w = (r, p')"
    have "decode_run (decodeIncomingControlPacket C) p (x # ws) = decode_run (decodeIncomingControlPacket C) q (x # ws)"
      by (simp add: x d q(3))
    then show ?thesis using control.delivered_distinct [OF q(1) Cons.prems(2,3), of C m m'] Cons.prems(4,5) q(2) by simp
  qed
qed simp

text \<open>
  C30. No control packet is accepted twice in a session: whatever sequence of byte strings reaches the
  receiver of a session protected by tls-auth, tls-crypt or tls-crypt-v2 (where the receiver learns
  its key on the way), two positions at which a packet is handed up hold different datagrams, with
  different packet ids or timestamps.
\<close>

theorem control_packet_delivered_once:
  assumes "p = newSessionProtection p0" "auth p0 \<noteq> None \<or> crypt p0 \<noteq> None \<or> cryptV2ServerKey p0 \<noteq> []"
    and "auth p0 = None \<or> cryptV2ServerKey p0 = []"
    and "i < j" "j < length inputs"
    and "decode_run (decodeIncomingControlPacket C) p inputs ! i = Inr m"
    and "decode_run (decodeIncomingControlPacket C) p inputs ! j = Inr m'"
  shows "snd (inputs ! i) \<noteq> snd (inputs ! j) \<and> control_label p (snd (inputs ! i)) \<noteq> control_label p (snd (inputs ! j))"
proof -
  have "protection_good p \<or> v2_waiting p"
    using assms(1-3)
    by (auto simp: newSessionProtection_def protection_good_def v2_waiting_def protection_window_def crypt_window_def
        auth_window_def auth_newSessionCodec_def crypt_newSessionCodec_def split: option.splits)
  then have "control_label p (snd (inputs ! i)) \<noteq> control_label p (snd (inputs ! j))"
    using control.delivered_distinct [OF _ assms(4-7)] v2_delivered_distinct [OF _ assms(4-7)] by blast
  then show ?thesis by metis
qed

theorem control_packet_delivered_once_witness:
  "\<exists>p w w'. decode_run (decodeIncomingControlPacket sample_crypto) p [((0, 1), w), ((0, 2), w')] =
       [Inr sample_control, Inr sample_control] \<and> w \<noteq> w'"
proof -
  obtain s d where c: "newControlCryptCodecFromMaterial sample_crypto (replicate 256 0) 0 = Inr s"
    "newControlCryptCodecFromMaterial sample_crypto (replicate 256 0) 1 = Inr d"
    using sample_crypt_codec by blast
  have dir: "opposite_directions 0 1" by (simp add: opposite_directions_def resolveStaticKeyDirection_def)
  let ?p = "\<lparr>auth = None, crypt = Some s, cryptV2ServerKey = []\<rparr>" and ?q = "\<lparr>auth = None, crypt = Some d, cryptV2ServerKey = []\<rparr>"
  let ?E = "encodeOutgoingControlPacket sample_crypto" and ?D = "decodeIncomingControlPacket sample_crypto"
  have "map snd (exchange ?E ?D ?p ?q [(5, (0, 1), sample_control, True), (5, (0, 2), sample_control, True)]) =
      [Inr sample_control, Inr sample_control]"
    using crypt_exchange [of ?p s ?q d sample_crypto "[(5, (0, 1), sample_control, True), (5, (0, 2), sample_control, True)]"]
      crypt_codec_peers [OF sample_crypto_ok sample_aes dir c] sample_control_plain
    by (auto simp: newPacketIDState_def simp del: exchange.simps crypt_peers.simps)
  then have "\<exists>w w'. decode_run ?D ?q [((0, 1), w), ((0, 2), w')] = [Inr sample_control, Inr sample_control]"
    by (intro exI [of _ "fst (?E 5 ?p sample_control)"] exI [of _ "fst (?E 5 (snd (?E 5 ?p sample_control)) sample_control)"])
      (simp add: case_prod_beta)
  then obtain w w' where run: "decode_run ?D ?q [((0, 1), w), ((0, 2), w')] = [Inr sample_control, Inr sample_control]" by blast
  obtain x y z where r: "resolveStaticKeyDirection 1 = (x, y, z)" by (metis prod_cases3)
  have "?q = newSessionProtection ?q"
    using crypt_fields [OF c(2) r] by (cases d) (auto simp: newSessionProtection_def auth_newSessionCodec_def crypt_newSessionCodec_def)
  from control_packet_delivered_once [OF this _ _, of 0 1 "[((0, 1), w), ((0, 2), w')]" sample_crypto] run show ?thesis
    by (intro exI [of _ ?q] exI [of _ w] exI [of _ w']) simp
qed

text \<open>
  A codec also accepts what it sent itself: the fallback candidate of a configured direction is the
  sending key, so a control packet reflected to its sender passes authentication.
\<close>

lemma own_candidate_accepts:
  "k \<in> set cs \<Longrightarrow> tag = hmacSum C sha256_New (authKey k) (h @ b @ ctr_crypt (encryptBlock k) (take 16 tag) ct) \<Longrightarrow>
     window_check AcceptLongForm clock w (get_stamp b) = (True, v) \<Longrightarrow>
     \<exists>m. crypt_try_candidates C clock h b tag ct w cs = (Some m, v)"
  by (induction cs) (auto simp: Let_def tlsCryptBlockLength_def)

lemma own_key_is_candidate:
  assumes "newControlCryptCodecFromMaterial C km a = Inr s"
  shows "\<lparr>encryptBlock = sendEncryptBlock s, authKey = sendAuthKey s\<rparr> \<in> set (crypt_receiveCandidates s)"
  using assms
  by (auto simp: newControlCryptCodecFromMaterial_def resolveStaticKeyDirection_def Let_def bindE_Inr_iff split: if_splits)

lemma reflected_packet_accepted:
  assumes "crypto_ok C" "aes_ok C" "newControlCryptCodecFromMaterial C km a = Inr s" "9 \<le> length m"
    and "crypt_encodeControlPacket C now (Some s) m = (w, s')"
  shows "\<exists>m' d'. crypt_decodeControlPacket C clock s' w = (Some m', d')"
proof -
  obtain x y z where r: "resolveStaticKeyDirection a = (x, y, z)" by (metis prod_cases3)
  note f = crypt_fields [OF assms(3) r]
  then have blk: "block_ok (sendEncryptBlock s)" "BlockSize (sendEncryptBlock s) = 16"
    using assms(1,2) by (auto simp: newControlCryptKeys_def bindE_Inr_iff crypto_ok_def aes_ok_def)
  have beh: "behind (crypt_sendState s) (crypt_receiveState s)" "nextID (crypt_sendState s) \<noteq> 0xFFFFFFFF"
    using f by (auto simp: behind_def newReplayWindow_def defaultReplayWindowSize_def newPacketIDState_def)
  obtain b t where n: "next_id now (crypt_sendState s) = (b, t)" by fastforce
  have b: "length b = 8" using next_id_bytes(1) [of now "crypt_sendState s"] n by simp
  obtain v where v: "window_check AcceptLongForm clock (crypt_receiveState s) (get_stamp b) = (True, v)"
    using behind_next(2) [OF beh, of clock now] n by auto
  define h u where "h = take 9 m" and "u = drop 9 m"
  have h: "length h = 9" using assms(4) by (simp add: h_def)
  define tag where "tag = hmacSum C sha256_New (sendAuthKey s) (h @ b @ u)"
  have tag: "length tag = 32" unfolding tag_def by (simp add: hmacSum_length [OF assms(1)])
  define ct where "ct = ctr_crypt (sendEncryptBlock s) (take 16 tag) u"
  have dec: "ctr_crypt (sendEncryptBlock s) (take 16 tag) ct = u"
    using ctr_law [OF blk(1), of "take 16 tag" u] tag blk(2) by (simp add: ct_def)
  have w: "w = h @ b @ tag @ ct" "s' = Some (s\<lparr>crypt_sendState := t\<rparr>)"
    using assms(4,5) n by (simp_all add: crypt_encodeControlPacket_def wrap_consts Let_def tag_def ct_def h_def u_def)
  note cut = cut3 [OF h b tag, of ct, folded w(1)]
  obtain m' where "crypt_try_candidates C clock h b tag ct (crypt_receiveState s) (crypt_receiveCandidates s) = (Some m', v)"
    using own_candidate_accepts [OF own_key_is_candidate [OF assms(3)] _ v, of tag C h ct] dec by (auto simp: tag_def)
  moreover have "\<not> length w < 9 + 8 + 32" by (simp add: w h tag b)
  ultimately show ?thesis
    unfolding crypt_decodeControlPacket_def w(2) option.case wrap_consts Let_def cut by simp
qed

end
