(* ===== verification/Key_Method.thy ===== *)
theory Key_Method
  imports Control_Wrap Compression
begin

text \<open>
  The key-method exchange, key_method.go, and the derivation of the data channel keys: the message both
  ends send over the TLS channel, the options string and the peer info in it, what the other end reads
  out of them, and the TLS 1.0 pseudo-random function over the exchanged randomness. Randomness is an
  argument per call of \<open>rand.Read\<close>; the exporter of the TLS connection is an argument.
\<close>

section \<open>Messages\<close>

record tlsKeyMethodKeySource =
  PreMaster :: bytes
  Random1 :: bytes
  Random2 :: bytes

record tlsKeyMethodMessage =
  OptionsString :: string
  Username :: string
  Password :: string
  PeerInfo :: string
  KeySource :: tlsKeyMethodKeySource

definition tlsKeyMethod2 :: byte where "tlsKeyMethod2 = 2"

definition generateTLSKeyMethodKeySource ::
  "random \<Rightarrow> random \<Rightarrow> random \<Rightarrow> bool \<Rightarrow> tlsKeyMethodKeySource result" where
  "generateTLSKeyMethodKeySource rand1 rand2 rand3 isClient =
     bindE (rand1 32) (\<lambda>random1. bindE (rand2 32) (\<lambda>random2.
       if isClient then bindE (rand3 48) (\<lambda>preMaster. Inr \<lparr>PreMaster = preMaster, Random1 = random1, Random2 = random2\<rparr>)
       else Inr \<lparr>PreMaster = [], Random1 = random1, Random2 = random2\<rparr>))"

definition writeLengthPrefixedString :: "string \<Rightarrow> bytes result" where
  "writeLengthPrefixedString value =
     (let stringBytes = str_bytes value @ [0]
      in if length stringBytes > 0xffff then Inl (New ''length-prefixed string too long'')
         else Inr (put_u16 (of_nat (length stringBytes)) @ stringBytes))"

definition buildTLSKeyMethod2Payload :: "bool \<Rightarrow> tlsKeyMethodMessage \<Rightarrow> bytes result" where
  "buildTLSKeyMethod2Payload server m =
     (if \<not> server \<and> length (PreMaster (KeySource m)) \<noteq> 48
      then Inl (New ''client key source pre-master must be 48 bytes'')
      else if length (Random1 (KeySource m)) \<noteq> 32 then Inl (New ''key source random1 must be 32 bytes'')
      else if length (Random2 (KeySource m)) \<noteq> 32 then Inl (New ''key source random2 must be 32 bytes'')
      else bindE (writeLengthPrefixedString (OptionsString m)) (\<lambda>options.
           bindE (writeLengthPrefixedString (Username m)) (\<lambda>username.
           bindE (writeLengthPrefixedString (Password m)) (\<lambda>password.
           bindE (writeLengthPrefixedString (PeerInfo m)) (\<lambda>peerInfo.
             Inr (put_u32 0 @ [tlsKeyMethod2] @ (if server then [] else PreMaster (KeySource m)) @
                  Random1 (KeySource m) @ Random2 (KeySource m) @ options @ username @ password @ peerInfo))))))"

text \<open>
  \<open>binary.Read\<close> and \<open>ReadByte\<close> fail when bytes are missing; \<open>Read\<close> into a slice fails only at the end of
  the input and otherwise fills what is missing with the zeros the slice was made with.
\<close>

definition binary_Read :: "nat \<Rightarrow> bytes \<Rightarrow> (bytes \<times> bytes) result" where
  "binary_Read n r =
     (if r = [] then Inl (Sentinel ErrEOF) else if length r < n then Inl (New ''unexpected EOF'')
      else Inr (take n r, drop n r))"

definition reader_Read :: "nat \<Rightarrow> bytes \<Rightarrow> (bytes \<times> bytes) result" where
  "reader_Read n r =
     (if r = [] then Inl (Sentinel ErrEOF) else Inr (take n r @ replicate (n - length r) 0, drop n r))"

definition readLengthPrefixedString :: "bytes \<Rightarrow> (string \<times> bytes) result" where
  "readLengthPrefixedString r =
     bindE (binary_Read 2 r) (\<lambda>(lengthBytes, r).
       let n = unat (get_u16 lengthBytes)
       in if n = 0 then Inr ([], r)
          else bindE (reader_Read n r) (\<lambda>(stringBytes, r).
            let stringBytes = (if stringBytes ! (length stringBytes - 1) = 0
                               then take (length stringBytes - 1) stringBytes else stringBytes)
            in Inr (bytes_str stringBytes, r)))"

definition parseTLSKeyMethod2Payload :: "bytes \<Rightarrow> bool \<Rightarrow> tlsKeyMethodMessage result" where
  "parseTLSKeyMethod2Payload payload server =
     bindE (binary_Read 4 payload) (\<lambda>(reserved, r).
     bindE (binary_Read 1 r) (\<lambda>(keyMethod, r).
     if keyMethod ! 0 AND 0x0f \<noteq> tlsKeyMethod2 then Inl (New ''unsupported key-method'')
     else bindE (if \<not> server then reader_Read 48 r else Inr ([], r)) (\<lambda>(preMaster, r).
     bindE (reader_Read 32 r) (\<lambda>(random1, r).
     bindE (reader_Read 32 r) (\<lambda>(random2, r).
     bindE (readLengthPrefixedString r) (\<lambda>(optionsString, r).
     bindE (readLengthPrefixedString r) (\<lambda>(username, r).
     bindE (readLengthPrefixedString r) (\<lambda>(password, r).
     bindE (readLengthPrefixedString r) (\<lambda>(peerInfo, r).
       Inr \<lparr>OptionsString = optionsString, Username = username, Password = password, PeerInfo = peerInfo,
            KeySource = \<lparr>PreMaster = preMaster, Random1 = random1, Random2 = random2\<rparr>\<rparr>)))))))))"

section \<open>Options string and peer info\<close>

definition tlsIVProtoDataV2 :: int where "tlsIVProtoDataV2 = 2"
definition tlsIVProtoRequestPush :: int where "tlsIVProtoRequestPush = 4"
definition tlsIVProtoTLSKeyExport :: int where "tlsIVProtoTLSKeyExport = 8"
definition tlsIVProtoAuthPendingKW :: int where "tlsIVProtoAuthPendingKW = 16"
definition tlsIVProtoNCPP2P :: int where "tlsIVProtoNCPP2P = 32"
definition tlsIVProtoCCExitNotify :: int where "tlsIVProtoCCExitNotify = 128"
definition tlsIVProtoAuthFailTemp :: int where "tlsIVProtoAuthFailTemp = 256"
definition tlsAdvertisedVersion :: string where "tlsAdvertisedVersion = ''2.6.14''"

lemmas iv_proto_bits = tlsIVProtoDataV2_def tlsIVProtoRequestPush_def tlsIVProtoTLSKeyExport_def
  tlsIVProtoAuthPendingKW_def tlsIVProtoNCPP2P_def tlsIVProtoCCExitNotify_def tlsIVProtoAuthFailTemp_def

definition tlsProtoName :: "string \<Rightarrow> bool \<Rightarrow> string" where
  "tlsProtoName protocol isClient =
     (if protocol \<in> {''udp'', ''udp4''} then ''UDPv4''
      else if protocol = ''udp6'' then ''UDPv6''
      else if protocol \<in> {''tcp'', ''tcp4''} then (if isClient then ''TCPv4_CLIENT'' else ''TCPv4_SERVER'')
      else if protocol = ''tcp6'' then (if isClient then ''TCPv6_CLIENT'' else ''TCPv6_SERVER'')
      else ''UDPv4'')"

definition tlsCipherKeyBits :: "string \<Rightarrow> string result" where
  "tlsCipherKeyBits cipherName =
     (if cipherName \<in> {''AES-128-GCM'', ''AES-128-CBC'', ''AES-128-CFB'', ''AES-128-OFB'',
        ''ARIA-128-CBC'', ''ARIA-128-CFB'', ''ARIA-128-OFB'',
        ''CAMELLIA-128-CBC'', ''CAMELLIA-128-CFB'', ''CAMELLIA-128-OFB'',
        ''SEED-CBC'', ''SEED-CFB'', ''SEED-OFB'', ''SM4-CBC'', ''SM4-CFB'', ''SM4-OFB''} then Inr ''128''
      else if cipherName \<in> {''AES-192-GCM'', ''AES-192-CBC'', ''AES-192-CFB'', ''AES-192-OFB'',
        ''ARIA-192-CBC'', ''ARIA-192-CFB'', ''ARIA-192-OFB'',
        ''CAMELLIA-192-CBC'', ''CAMELLIA-192-CFB'', ''CAMELLIA-192-OFB''} then Inr ''192''
      else if cipherName \<in> {''AES-256-GCM'', ''AES-256-CBC'', ''AES-256-CFB'', ''AES-256-OFB'',
        ''ARIA-256-CBC'', ''ARIA-256-CFB'', ''ARIA-256-OFB'',
        ''CAMELLIA-256-CBC'', ''CAMELLIA-256-CFB'', ''CAMELLIA-256-OFB''} then Inr ''256''
      else if cipherName = ''CHACHA20-POLY1305'' then Inr ''256''
      else if cipherName \<in> {''BF-CBC'', ''BF-CFB'', ''BF-OFB'', ''CAST5-CBC'', ''CAST5-CFB'', ''CAST5-OFB''} then Inr ''128''
      else if cipherName \<in> {''DES-CBC'', ''DES-CFB'', ''DES-OFB''} then Inr ''64''
      else if cipherName \<in> {''DES-EDE-CBC'', ''DES-EDE-CFB'', ''DES-EDE-OFB''} then Inr ''128''
      else if cipherName \<in> {''DES-EDE3-CBC'', ''DES-EDE3-CFB'', ''DES-EDE3-OFB''} then Inr ''192''
      else if cipherName = ''NONE'' then Inr ''0''
      else Inl (New ''unsupported cipher''))"

definition buildTLSOptionsStringWithMTU ::
  "string \<Rightarrow> bool \<Rightarrow> bool \<Rightarrow> compressionSettings \<Rightarrow> string \<Rightarrow> string \<Rightarrow> u32 \<Rightarrow> string" where
  "buildTLSOptionsStringWithMTU protocol isClient tlsAuthEnabled compression cipherName authName tunMTU =
     (let tunMTU = (if tunMTU = 0 then 1500 else tunMTU);
          linkMTU = tunMTU + 50;
          resolvedCipher = (if cipherName = [] then ''AES-256-GCM'' else cipherName);
          resolvedAuth = (if authName = [] then ''SHA1'' else authName)
      in ''V4,dev-type tun,link-mtu '' @ FormatUint (unat linkMTU) @ '',tun-mtu '' @ FormatUint (unat tunMTU) @
         '',proto '' @ tlsProtoName protocol isClient @
         (if framingEnabled compression then '',comp-lzo'' else []) @
         '',cipher '' @ resolvedCipher @ '',auth '' @ resolvedAuth @
         (case tlsCipherKeyBits resolvedCipher of Inr keySize \<Rightarrow> '',keysize '' @ keySize | Inl _ \<Rightarrow> []) @
         (if tlsAuthEnabled then '',tls-auth'' else []) @
         '',key-method 2,'' @ (if isClient then ''tls-client'' else ''tls-server''))"

definition tlsAdvertisedDataCiphers :: "string list \<Rightarrow> string list" where
  "tlsAdvertisedDataCiphers dataCiphers =
     (if length dataCiphers = 0 then [''AES-256-GCM'', ''AES-128-GCM'', ''CHACHA20-POLY1305''] else dataCiphers)"

definition tlsSupportsNCPv2 :: "string list \<Rightarrow> bool" where
  "tlsSupportsNCPv2 dataCiphers \<longleftrightarrow> ''AES-128-GCM'' \<in> set dataCiphers \<and> ''AES-256-GCM'' \<in> set dataCiphers"

definition tlsAdvertisedPlatform :: "string \<Rightarrow> string" where
  "tlsAdvertisedPlatform operatingSystem =
     (let s = ToLower (TrimSpace operatingSystem)
      in if s = ''linux'' then ''linux'' else if s = ''darwin'' then ''mac'' else if s = ''windows'' then ''win''
         else if s = ''freebsd'' then ''freebsd'' else if s = ''netbsd'' then ''netbsd''
         else if s = ''openbsd'' then ''openbsd'' else if s = ''solaris'' then ''solaris''
         else if s = ''android'' then ''android'' else if s = ''ios'' then ''mac'' else ''linux'')"

text \<open>The fields of the data channel options that these functions read.\<close>

record DataChannelOptions =
  MTU :: u32
  Ciphers :: "string list"
  FallbackCipher :: string
  Auth :: string
  Compression :: string
  CompressionLZO :: string
  AllowCompression :: string

abbreviation newline :: char where "newline \<equiv> CHR 0x0A"

definition buildTLSPeerInfo :: "string \<Rightarrow> DataChannelOptions \<Rightarrow> bool \<Rightarrow> string" where
  "buildTLSPeerInfo goos options requestPush =
     (let dataCiphers = tlsAdvertisedDataCiphers (Ciphers options);
          ivProto = tlsIVProtoDataV2 OR tlsIVProtoTLSKeyExport OR tlsIVProtoCCExitNotify;
          ivProto = (if requestPush
                     then ivProto OR tlsIVProtoRequestPush OR tlsIVProtoAuthPendingKW OR tlsIVProtoAuthFailTemp
                     else ivProto OR tlsIVProtoNCPP2P);
          compression = (case resolveCompressionSettings (Compression options) (CompressionLZO options) of
                           Inr s \<Rightarrow> s | Inl _ \<Rightarrow> zero_compressionSettings);
          allowCompression = (case resolveEffectiveAllowCompressionPolicy (AllowCompression options) compression of
                                Inr p \<Rightarrow> p | Inl _ \<Rightarrow> allowCompressionStubOnly)
      in ''IV_VER='' @ tlsAdvertisedVersion @ [newline] @
         ''IV_PLAT='' @ tlsAdvertisedPlatform goos @ [newline] @
         (if tlsSupportsNCPv2 dataCiphers then ''IV_NCP=2'' @ [newline] else []) @
         ''IV_CIPHERS='' @ str_Join dataCiphers '':'' @ [newline] @
         ''IV_PROTO='' @ Itoa ivProto @ [newline] @
         (if requestPush
          then ''IV_SSO=webauth,openurl,crtext'' @ [newline] @
               ''IV_MTU='' @ FormatUint (unat (if MTU options = 0 then 1500 else MTU options)) @ [newline]
          else []) @
         ''IV_LZ4=1'' @ [newline] @ ''IV_LZ4v2=1'' @ [newline] @
         (if allowCompression \<noteq> allowCompressionStubOnly then ''IV_LZO=1'' @ [newline] else ''IV_LZO_STUB=1'' @ [newline]) @
         ''IV_COMP_STUB=1'' @ [newline] @ ''IV_COMP_STUBv2=1'' @ [newline] @ ''IV_TCPNL=1'' @ [newline])"

definition buildTLSServerPeerInfo :: "DataChannelOptions \<Rightarrow> string" where
  "buildTLSServerPeerInfo options =
     (let ivProto = tlsIVProtoDataV2 OR tlsIVProtoTLSKeyExport OR tlsIVProtoCCExitNotify;
          serverCiphers = tlsAdvertisedDataCiphers (Ciphers options)
      in ''IV_PROTO='' @ Itoa ivProto @ [newline] @
         (if tlsSupportsNCPv2 serverCiphers then ''IV_NCP=2'' @ [newline] else []) @
         (if length serverCiphers > 0 then ''IV_CIPHERS='' @ str_Join serverCiphers '':'' @ [newline] else []))"

text \<open>Reading the peer info: the first line with the key decides.\<close>

fun peer_info_value :: "string \<Rightarrow> string list \<Rightarrow> string option" where
  "peer_info_value key [] = None"
| "peer_info_value key (line # lines) =
     (let trimmedLine = TrimRight line [CHR 0x0D]
      in if HasPrefix trimmedLine key then Some (TrimPrefix trimmedLine key) else peer_info_value key lines)"

definition peerInfoIVProto :: "string \<Rightarrow> int \<times> bool" where
  "peerInfoIVProto peerInfo =
     (case peer_info_value ''IV_PROTO='' (str_Split peerInfo newline) of
        None \<Rightarrow> (0, False)
      | Some v \<Rightarrow> (case Atoi v of Inl _ \<Rightarrow> (0, False) | Inr parsedValue \<Rightarrow> (parsedValue, True)))"

definition peerSupportsIVProtoFlag :: "string \<Rightarrow> int \<Rightarrow> bool" where
  "peerSupportsIVProtoFlag peerInfo flag =
     (let (ivProto, found) = peerInfoIVProto peerInfo in if \<not> found then False else ivProto AND flag \<noteq> 0)"

definition peerInfoMTU :: "string \<Rightarrow> u32 \<times> bool" where
  "peerInfoMTU peerInfo =
     (case peer_info_value ''IV_MTU='' (str_Split peerInfo newline) of
        None \<Rightarrow> (0, False)
      | Some v \<Rightarrow>
          (case ParseUint v 32 of
             Inl _ \<Rightarrow> (0, False)
           | Inr parsedValue \<Rightarrow> if parsedValue = 0 then (0, False) else (of_nat parsedValue, True)))"

definition peerInfoNCPVersion :: "string \<Rightarrow> int" where
  "peerInfoNCPVersion peerInfo =
     (case peer_info_value ''IV_NCP='' (str_Split peerInfo newline) of
        None \<Rightarrow> 0
      | Some v \<Rightarrow> (case Atoi v of Inl _ \<Rightarrow> 0 | Inr parsedValue \<Rightarrow> parsedValue))"

definition splitPeerInfoCipherList :: "string \<Rightarrow> string list" where
  "splitPeerInfoCipherList value = filter (\<lambda>c. c \<noteq> []) (map TrimSpace (str_Split value CHR '':''))"

fun cipher_line :: "string list \<Rightarrow> string option" where
  "cipher_line [] = None"
| "cipher_line (line # lines) =
     (if \<not> HasPrefix line ''IV_CIPHERS='' then cipher_line lines else Some (TrimPrefix line ''IV_CIPHERS=''))"

definition peerInfoIVCipherList :: "string \<Rightarrow> string list \<times> bool" where
  "peerInfoIVCipherList peerInfo =
     (case cipher_line (str_Split peerInfo newline) of
        None \<Rightarrow> ([], False) | Some v \<Rightarrow> (splitPeerInfoCipherList v, True))"

definition parsePeerInfoCipherList :: "string \<Rightarrow> string list \<times> bool" where
  "parsePeerInfoCipherList peerInfo =
     (let (ciphers, announced) = peerInfoIVCipherList peerInfo
      in if announced then (ciphers, True)
         else if peerInfoNCPVersion peerInfo \<ge> 2 then ([''AES-256-GCM'', ''AES-128-GCM''], True)
         else ([], False))"

definition normalizeTLSControlMessage :: "bytes \<Rightarrow> string" where
  "normalizeTLSControlMessage payload = TrimSpace (bytes_str (takeWhile (\<lambda>b. b \<noteq> 0) payload))"

section \<open>Choosing the cipher\<close>

fun cipher_token :: "string list \<Rightarrow> string" where
  "cipher_token [] = []"
| "cipher_token (rawToken # tokens) =
     (let trimmedToken = TrimSpace rawToken
      in if \<not> HasPrefix trimmedToken ''cipher '' then cipher_token tokens
         else let cipherValue = TrimSpace (drop 7 trimmedToken)
              in if cipherValue = ''[null-cipher]'' then ''none'' else cipherValue)"

definition extractRemoteCipherName :: "string \<Rightarrow> string" where
  "extractRemoteCipherName optionsString = cipher_token (str_Split optionsString CHR '','')"

definition tlsValidateServerPushedCipher :: "DataChannelOptions \<Rightarrow> string \<Rightarrow> string result" where
  "tlsValidateServerPushedCipher options pushedCipher =
     (let trimmedCipher = TrimSpace pushedCipher
      in if trimmedCipher = [] then Inr []
         else if EqualFold (FallbackCipher options) trimmedCipher then Inr (FallbackCipher options)
         else case find (\<lambda>candidate. EqualFold candidate trimmedCipher) (tlsAdvertisedDataCiphers (Ciphers options)) of
                Some candidate \<Rightarrow> Inr candidate
              | None \<Rightarrow> Inl (New (''negotiated cipher not allowed - '' @ trimmedCipher @ '' not in '' @
                                  str_Join (tlsAdvertisedDataCiphers (Ciphers options)) '':'')))"

definition selectPulledCipher :: "DataChannelOptions \<Rightarrow> string \<Rightarrow> string result" where
  "selectPulledCipher options remoteCipherName =
     (let advertisedCiphers = tlsAdvertisedDataCiphers (Ciphers options);
          trimmedRemote = TrimSpace remoteCipherName
      in if trimmedRemote \<noteq> [] then
           (case find (\<lambda>candidate. EqualFold candidate trimmedRemote) advertisedCiphers of
              Some candidate \<Rightarrow> Inr candidate
            | None \<Rightarrow> Inl (Extend ErrCipherNegotiationFailed
                (''peer cipher '' @ trimmedRemote @ '' not in data-ciphers '' @ str_Join advertisedCiphers '':'' @
                 ''; add it to --data-ciphers or reconfigure the server'')))
         else if FallbackCipher options \<noteq> [] then Inr (FallbackCipher options)
         else Inl (Extend ErrCipherNegotiationFailed
           (''server pushed no cipher and announced none in its options string'' @
            ''; set data-ciphers-fallback to connect to this server'')))"

definition selectP2PCipher :: "DataChannelOptions \<Rightarrow> string \<Rightarrow> string result" where
  "selectP2PCipher options peerInfo =
     (let localCiphers = tlsAdvertisedDataCiphers (Ciphers options);
          peerCiphers = fst (peerInfoIVCipherList peerInfo)
      in case find (\<lambda>(p, l). EqualFold p l) (List.product peerCiphers localCiphers) of
           Some (p, l) \<Rightarrow> Inr l
         | None \<Rightarrow>
             if FallbackCipher options \<noteq> [] then Inr (FallbackCipher options)
             else Inl (Extend ErrCipherNegotiationFailed
               (''peer announced no data cipher shared with data-ciphers '' @ str_Join localCiphers '':'' @
                ''; set data-ciphers-fallback to connect to this peer'')))"

definition tlsServerCipher :: "string \<Rightarrow> string \<Rightarrow> DataChannelOptions \<Rightarrow> string result" where
  "tlsServerCipher peerInfo optionsString options =
     (let serverCiphers = tlsAdvertisedDataCiphers (Ciphers options);
          (clientCiphers, clientCipherListKnown) = parsePeerInfoCipherList peerInfo;
          remoteCipher = TrimSpace (extractRemoteCipherName optionsString);
          remoteCipher = (if clientCipherListKnown then [] else remoteCipher)
      in case find (\<lambda>serverCipher. (\<exists>c \<in> set clientCiphers. EqualFold serverCipher c) \<or>
                       remoteCipher \<noteq> [] \<and> EqualFold serverCipher remoteCipher) serverCiphers of
           Some serverCipher \<Rightarrow> Inr serverCipher
         | None \<Rightarrow>
             if clientCipherListKnown \<or> remoteCipher \<noteq> [] then Inl (Extend ErrCipherNegotiationFailed ''no shared cipher'')
             else if FallbackCipher options \<noteq> [] then Inr (FallbackCipher options)
             else Inl (Extend ErrCipherNegotiationFailed ''no shared cipher''))"

section \<open>Key derivation\<close>

definition tlsPRFMasterSecretLabel :: string where "tlsPRFMasterSecretLabel = ''OpenVPN master secret''"
definition tlsPRFKeyExpansionLabel :: string where "tlsPRFKeyExpansionLabel = ''OpenVPN key expansion''"
definition tlsPRFMasterSecretLength :: nat where "tlsPRFMasterSecretLength = 48"
definition tlsPRFKeyMaterialLength :: nat where "tlsPRFKeyMaterialLength = 256"

partial_function (option) phash_loop ::
  "crypto \<Rightarrow> hashFactory \<Rightarrow> bytes \<Rightarrow> bytes \<Rightarrow> nat \<Rightarrow> bytes \<Rightarrow> bytes \<Rightarrow> bytes option" where
  "phash_loop C newHash secret seed outputLength iterationSeed output =
     (if length output < outputLength then
        let output = output @ hmacSum C newHash secret (iterationSeed @ seed)
        in if length output \<ge> outputLength then Some output
           else phash_loop C newHash secret seed outputLength (hmacSum C newHash secret iterationSeed) output
      else Some output)"

definition tls1PHash :: "crypto \<Rightarrow> hashFactory \<Rightarrow> bytes \<Rightarrow> bytes \<Rightarrow> nat \<Rightarrow> bytes option" where
  "tls1PHash C newHash secret seed outputLength =
     (if outputLength = 0 then Some []
      else map_option (take outputLength)
             (phash_loop C newHash secret seed outputLength (hmacSum C newHash secret seed) []))"

definition openvpnTLS1PRF :: "crypto \<Rightarrow> bytes \<Rightarrow> bytes \<Rightarrow> nat \<Rightarrow> bytes option" where
  "openvpnTLS1PRF C secret seed outputLength =
     (let halfLength = length secret div 2;
          splitLength = halfLength + length secret mod 2;
          firstSecretHalf = take splitLength secret;
          secondSecretHalf = take splitLength (drop halfLength secret)
      in case tls1PHash C md5_New firstSecretHalf seed outputLength of
           None \<Rightarrow> None
         | Some md5Output \<Rightarrow>
             (case tls1PHash C sha1_New secondSecretHalf seed outputLength of
                None \<Rightarrow> None | Some sha1Output \<Rightarrow> Some (xor_bytes md5Output sha1Output)))"

definition openvpnPRF ::
  "crypto \<Rightarrow> bytes \<Rightarrow> string \<Rightarrow> bytes \<Rightarrow> bytes \<Rightarrow> bytes \<Rightarrow> bytes \<Rightarrow> nat \<Rightarrow> bytes option" where
  "openvpnPRF C secret label clientSeed serverSeed clientSessionID serverSessionID outputLength =
     openvpnTLS1PRF C secret (str_bytes label @ clientSeed @ serverSeed @ clientSessionID @ serverSessionID) outputLength"

definition deriveTLSKeyMaterialPRF ::
  "crypto \<Rightarrow> bytes \<Rightarrow> bytes \<Rightarrow> bytes \<Rightarrow> bytes \<Rightarrow> bytes \<Rightarrow> session_id \<Rightarrow> session_id \<Rightarrow> bytes option" where
  "deriveTLSKeyMaterialPRF C clientPreMaster clientRandom1 serverRandom1 clientRandom2 serverRandom2 clientSessionID serverSessionID =
     (case openvpnPRF C clientPreMaster tlsPRFMasterSecretLabel clientRandom1 serverRandom1 [] [] tlsPRFMasterSecretLength of
        None \<Rightarrow> None
      | Some master \<Rightarrow>
          openvpnPRF C master tlsPRFKeyExpansionLabel clientRandom2 serverRandom2 clientSessionID serverSessionID
            tlsPRFKeyMaterialLength)"

definition checkTLSKeySourcesComplete :: "tlsKeyMethodKeySource \<Rightarrow> tlsKeyMethodKeySource \<Rightarrow> unit result" where
  "checkTLSKeySourcesComplete clientKeySource serverKeySource =
     (if length (PreMaster clientKeySource) \<noteq> 48 \<or>
         length (Random1 clientKeySource) \<noteq> 32 \<or> length (Random2 clientKeySource) \<noteq> 32 \<or>
         length (Random1 serverKeySource) \<noteq> 32 \<or> length (Random2 serverKeySource) \<noteq> 32
      then Inl (New ''incomplete key source material for PRF derivation'') else Inr ())"

text \<open>
  \<open>deriveRenegotiatedKeyMaterial\<close>; the value of the TLS exporter is \<open>exported\<close>. The result is \<open>None\<close> when
  the derivation does not end.
\<close>

definition deriveRenegotiatedKeyMaterial ::
  "crypto \<Rightarrow> bytes result \<Rightarrow> bool \<Rightarrow> tlsKeyMethodKeySource \<Rightarrow> tlsKeyMethodKeySource \<Rightarrow> session_id \<Rightarrow> session_id \<Rightarrow> bool \<Rightarrow>
     bytes result option" where
  "deriveRenegotiatedKeyMaterial C exported useKeyMaterialExport clientKeySource serverKeySource localSessionID remoteSessionID server =
     (if useKeyMaterialExport then Some exported
      else if length (PreMaster clientKeySource) \<noteq> 48 \<or>
         length (Random1 clientKeySource) \<noteq> 32 \<or> length (Random2 clientKeySource) \<noteq> 32 \<or>
         length (Random1 serverKeySource) \<noteq> 32 \<or> length (Random2 serverKeySource) \<noteq> 32
      then Some (Inl (New ''tls mode: incomplete key source material for renegotiation''))
      else
        let clientSessionID = (if server then remoteSessionID else localSessionID);
            serverSessionID = (if server then localSessionID else remoteSessionID)
        in map_option Inr (deriveTLSKeyMaterialPRF C (PreMaster clientKeySource) (Random1 clientKeySource)
             (Random1 serverKeySource) (Random2 clientKeySource) (Random2 serverKeySource) clientSessionID serverSessionID))"

section \<open>The message arrives as it was sent\<close>

lemma read_write_string:
  assumes "writeLengthPrefixedString v = Inr b"
  shows "readLengthPrefixedString (b @ r) = Inr (v, r)"
proof -
  let ?s = "str_bytes v @ [0]"
  have n: "length v + 1 \<le> 0xffff" and b: "b = put_u16 (of_nat (length v + 1)) @ ?s"
    using assms by (auto simp: writeLengthPrefixedString_def Let_def split: if_splits)
  have u: "unat (of_nat (length v + 1) :: u16) = length v + 1" unfolding unat_of_nat using n by simp
  have ne: "put_u16 w @ t \<noteq> []" "length (put_u16 w @ t) = 2 + length t" for w t by (simp_all add: put_u16_def)
  have len: "binary_Read 2 (b @ r) = Inr (put_u16 (of_nat (length v + 1)), ?s @ r)"
    unfolding b append_assoc binary_Read_def using ne by simp
  have "take (length v + 1) (?s @ r) = ?s" "drop (length v + 1) (?s @ r) = r" by simp_all
  then have rd: "reader_Read (length v + 1) (?s @ r) = Inr (?s, r)"
    unfolding reader_Read_def by simp
  have "length v + 1 \<noteq> 0" by simp
  then show ?thesis
    unfolding readLengthPrefixedString_def len bindE_simps prod.case u16_field.dec_enc_exact u Let_def rd
    by (simp add: nth_append)
qed

lemma write_string_ok: "(\<exists>b. writeLengthPrefixedString v = Inr b) \<longleftrightarrow> length v < 0xffff"
  by (auto simp: writeLengthPrefixedString_def Let_def)

lemma reader_Read_exact: "length x = n \<Longrightarrow> 0 < n \<Longrightarrow> reader_Read n (x @ r) = Inr (x, r)"
  by (auto simp: reader_Read_def)

lemma build_parts:
  assumes "buildTLSKeyMethod2Payload server m = Inr p"
  shows "\<exists>o' u w i. (server \<or> length (PreMaster (KeySource m)) = 48) \<and> length (Random1 (KeySource m)) = 32 \<and>
     length (Random2 (KeySource m)) = 32 \<and> writeLengthPrefixedString (OptionsString m) = Inr o' \<and>
     writeLengthPrefixedString (Username m) = Inr u \<and> writeLengthPrefixedString (Password m) = Inr w \<and>
     writeLengthPrefixedString (PeerInfo m) = Inr i \<and>
     p = put_u32 0 @ [tlsKeyMethod2] @ (if server then [] else PreMaster (KeySource m)) @
                  Random1 (KeySource m) @ Random2 (KeySource m) @ o' @ u @ w @ i"
  using assms by (auto simp: buildTLSKeyMethod2Payload_def bindE_Inr_iff split: if_splits)

definition without_premaster :: "tlsKeyMethodMessage \<Rightarrow> tlsKeyMethodMessage" where
  "without_premaster m = m\<lparr>KeySource := (KeySource m)\<lparr>PreMaster := []\<rparr>\<rparr>"

lemma parse_build:
  assumes "buildTLSKeyMethod2Payload server m = Inr p"
  shows "parseTLSKeyMethod2Payload (p @ r) server = Inr (if server then without_premaster m else m)"
proof -
  obtain o' u w i where l: "server \<or> length (PreMaster (KeySource m)) = 48" "length (Random1 (KeySource m)) = 32"
      "length (Random2 (KeySource m)) = 32"
    and s: "writeLengthPrefixedString (OptionsString m) = Inr o'" "writeLengthPrefixedString (Username m) = Inr u"
      "writeLengthPrefixedString (Password m) = Inr w" "writeLengthPrefixedString (PeerInfo m) = Inr i"
    and p: "p = put_u32 0 @ [tlsKeyMethod2] @ (if server then [] else PreMaster (KeySource m)) @
                  Random1 (KeySource m) @ Random2 (KeySource m) @ o' @ u @ w @ i"
    using build_parts [OF assms] by blast
  have h: "binary_Read 4 (put_u32 0 @ t) = Inr (put_u32 0, t)" "binary_Read 1 ([tlsKeyMethod2] @ t) = Inr ([tlsKeyMethod2], t)" for t
    by (simp_all add: binary_Read_def put_u32_def)
  have k: "\<not> [tlsKeyMethod2] ! 0 AND 0x0f \<noteq> tlsKeyMethod2" by (simp add: tlsKeyMethod2_def)
  have pm: "(if \<not> server then reader_Read 48 ((if server then [] else PreMaster (KeySource m)) @ t) else
      Inr ([], (if server then [] else PreMaster (KeySource m)) @ t)) =
      Inr (if server then [] else PreMaster (KeySource m), t)" for t
    using l(1) reader_Read_exact [of "PreMaster (KeySource m)" 48 t] by auto
  show ?thesis
    unfolding p append_assoc parseTLSKeyMethod2Payload_def h bindE_simps prod.case if_not_P [OF k] pm
      reader_Read_exact [OF l(2) zero_less_numeral] reader_Read_exact [OF l(3) zero_less_numeral]
      read_write_string [OF s(1)] read_write_string [OF s(2)] read_write_string [OF s(3)] read_write_string [OF s(4)]
    by (cases m; cases "KeySource m") (simp add: without_premaster_def)
qed

section \<open>The derivation ends\<close>

lemma phash_loop_ends:
  assumes "crypto_ok C"
  shows "\<exists>out. phash_loop C h secret seed n it acc = Some out \<and> n \<le> length out"
proof (induction "n - length acc" arbitrary: it acc rule: less_induct)
  case less
  let ?o = "acc @ hmacSum C h secret (it @ seed)"
  show ?case
  proof (cases "length acc < n \<and> length ?o < n")
    case True
    have "n - length ?o < n - length acc"
      using True hash_Size_pos [of h] hmacSum_length [OF assms, of h secret "it @ seed"] unfolding length_append by linarith
    from less [OF this, of "hmacSum C h secret it"] True show ?thesis by (subst phash_loop.simps) (simp add: Let_def)
  next
    case False
    then show ?thesis by (subst phash_loop.simps) (auto simp: Let_def)
  qed
qed

lemma tls1PHash_ends:
  assumes "crypto_ok C"
  shows "\<exists>out. tls1PHash C h secret seed n = Some out \<and> length out = n"
  using phash_loop_ends [OF assms, of h secret seed n "hmacSum C h secret seed" "[]"] by (auto simp: tls1PHash_def)

lemma openvpnPRF_ends:
  assumes "crypto_ok C"
  shows "\<exists>out. openvpnPRF C secret label cs ss ci si n = Some out \<and> length out = n"
proof -
  have "\<exists>out. openvpnTLS1PRF C secret seed n = Some out \<and> length out = n" for seed
  proof -
    define k where "k = length secret div 2 + length secret mod 2"
    obtain a b where "tls1PHash C md5_New (take k secret) seed n = Some a" "length a = n"
      "tls1PHash C sha1_New (take k (drop (length secret div 2) secret)) seed n = Some b" "length b = n"
      using tls1PHash_ends [OF assms] by metis
    then show ?thesis by (simp add: openvpnTLS1PRF_def Let_def k_def)
  qed
  then show ?thesis unfolding openvpnPRF_def .
qed

lemma derive_ends:
  assumes "crypto_ok C"
  shows "\<exists>km. deriveTLSKeyMaterialPRF C pm r1 s1 r2 s2 ci si = Some km \<and> length km = 256"
proof -
  obtain master where "openvpnPRF C pm tlsPRFMasterSecretLabel r1 s1 [] [] tlsPRFMasterSecretLength = Some master"
    using openvpnPRF_ends [OF assms] by blast
  then show ?thesis
    using openvpnPRF_ends [OF assms, of master tlsPRFKeyExpansionLabel r2 s2 ci si tlsPRFKeyMaterialLength]
    by (simp add: deriveTLSKeyMaterialPRF_def tlsPRFKeyMaterialLength_def)
qed

section \<open>Reading peer info\<close>

definition clean_name :: "string \<Rightarrow> bool" where
  "clean_name s \<longleftrightarrow> s \<noteq> [] \<and> (\<forall>c \<in> set s. \<not> is_space c \<and> c \<noteq> CHR '':'')"

lemma clean_name_chars: "clean_name s \<Longrightarrow> newline \<notin> set s \<and> CHR 0x0D \<notin> set s \<and> CHR '':'' \<notin> set s \<and> TrimSpace s = s"
proof -
  assume s: "clean_name s"
  have "is_space newline" "is_space CHR 0x0D" by (simp_all add: is_space_def)
  moreover have "TrimSpace s = s" by (rule TrimSpace_id) (use s in \<open>simp add: clean_name_def\<close>)
  ultimately show ?thesis using s unfolding clean_name_def by blast
qed

lemma Split_lines:
  "\<forall>l \<in> set ls. sep \<notin> set l \<Longrightarrow> str_Split (concat (map (\<lambda>l. l @ [sep]) ls)) sep = ls @ [[]]"
  by (induction ls) (simp_all add: Split_cons, simp add: str_Split_def)

lemma TrimRight_id: "(\<And>c. c \<in> set cs \<Longrightarrow> c \<notin> set s) \<Longrightarrow> TrimRight s cs = s"
proof -
  assume *: "\<And>c. c \<in> set cs \<Longrightarrow> c \<notin> set s"
  have "dropWhile (\<lambda>c. c \<in> set cs) t = t" if "\<And>c. c \<in> set cs \<Longrightarrow> c \<notin> set t" for t
    using that by (cases t) auto
  from this [of "rev s"] have "dropWhile (\<lambda>c. c \<in> set cs) (rev s) = rev s" using * by simp
  then show ?thesis by (simp add: TrimRight_def)
qed

lemma set_Join: "set (str_Join xs sep) \<subseteq> (\<Union>x \<in> set xs. set x) \<union> set sep"
  by (induction xs sep rule: str_Join.induct) auto

lemma FormatUint_clean: "newline \<notin> set (FormatUint n)" "CHR 0x0D \<notin> set (FormatUint n)"
  using FormatUint_digits [of newline n] FormatUint_digits [of "CHR 0x0D" n] by auto

definition peer_info_lines :: "string \<Rightarrow> DataChannelOptions \<Rightarrow> bool \<Rightarrow> nat \<Rightarrow> string \<Rightarrow> string list" where
  "peer_info_lines goos options requestPush ivProto lzo =
     [''IV_VER='' @ tlsAdvertisedVersion, ''IV_PLAT='' @ tlsAdvertisedPlatform goos] @
     (if tlsSupportsNCPv2 (tlsAdvertisedDataCiphers (Ciphers options)) then [''IV_NCP=2''] else []) @
     [''IV_CIPHERS='' @ str_Join (tlsAdvertisedDataCiphers (Ciphers options)) '':'', ''IV_PROTO='' @ FormatUint ivProto] @
     (if requestPush
      then [''IV_SSO=webauth,openurl,crtext'', ''IV_MTU='' @ FormatUint (unat (if MTU options = 0 then 1500 else MTU options))]
      else []) @
     [''IV_LZ4=1'', ''IV_LZ4v2=1'', lzo, ''IV_COMP_STUB=1'', ''IV_COMP_STUBv2=1'', ''IV_TCPNL=1'']"

definition announced_proto :: "bool \<Rightarrow> nat" where
  "announced_proto requestPush = (if requestPush then 414 else 170)"

lemma buildTLSPeerInfo_lines:
  "\<exists>lzo. lzo \<in> {''IV_LZO=1'', ''IV_LZO_STUB=1''} \<and>
     buildTLSPeerInfo goos options requestPush =
       concat (map (\<lambda>l. l @ [newline]) (peer_info_lines goos options requestPush (announced_proto requestPush) lzo))"
proof -
  define lzo where "lzo = (if (case resolveEffectiveAllowCompressionPolicy (AllowCompression options)
      (case resolveCompressionSettings (Compression options) (CompressionLZO options) of
         Inr s \<Rightarrow> s | Inl _ \<Rightarrow> zero_compressionSettings) of Inr p \<Rightarrow> p | Inl _ \<Rightarrow> allowCompressionStubOnly) \<noteq> allowCompressionStubOnly
    then ''IV_LZO=1'' else ''IV_LZO_STUB=1'')"
  have "Itoa (if requestPush then tlsIVProtoDataV2 OR tlsIVProtoTLSKeyExport OR tlsIVProtoCCExitNotify OR tlsIVProtoRequestPush OR
      tlsIVProtoAuthPendingKW OR tlsIVProtoAuthFailTemp else tlsIVProtoDataV2 OR tlsIVProtoTLSKeyExport OR tlsIVProtoCCExitNotify OR tlsIVProtoNCPP2P) =
      FormatUint (announced_proto requestPush)"
    by (simp add: Itoa_def iv_proto_bits announced_proto_def)
  then have "buildTLSPeerInfo goos options requestPush =
       concat (map (\<lambda>l. l @ [newline]) (peer_info_lines goos options requestPush (announced_proto requestPush) lzo))"
    unfolding buildTLSPeerInfo_def peer_info_lines_def Let_def lzo_def by (simp add: or.assoc split: if_splits)
  then show ?thesis by (intro exI [of _ lzo]) (simp add: lzo_def)
qed

lemma tlsAdvertisedPlatform_clean: "newline \<notin> set (tlsAdvertisedPlatform s)" "CHR 0x0D \<notin> set (tlsAdvertisedPlatform s)"
  by (auto simp: tlsAdvertisedPlatform_def Let_def split: if_splits)

lemma peer_info_lines_clean:
  assumes "\<forall>c \<in> set (tlsAdvertisedDataCiphers (Ciphers options)). clean_name c" "lzo \<in> {''IV_LZO=1'', ''IV_LZO_STUB=1''}"
    "l \<in> set (peer_info_lines goos options requestPush n lzo)"
  shows "newline \<notin> set l \<and> CHR 0x0D \<notin> set l"
proof -
  let ?j = "str_Join (tlsAdvertisedDataCiphers (Ciphers options)) '':''"
  have "newline \<notin> set ?j \<and> CHR 0x0D \<notin> set ?j"
    using set_Join [of "tlsAdvertisedDataCiphers (Ciphers options)" "'':''"] assms(1) clean_name_chars by fastforce
  then show ?thesis
    using assms(2,3) FormatUint_clean tlsAdvertisedPlatform_clean
    by (auto simp: peer_info_lines_def tlsAdvertisedVersion_def split: if_splits)
qed

lemma peer_info_value_skip:
  "CHR 0x0D \<notin> set l \<Longrightarrow> peer_info_value key (l # ls) =
     (if HasPrefix l key then Some (TrimPrefix l key) else peer_info_value key ls)"
  using TrimRight_id [of "[CHR 0x0D]" l] by simp

lemma peer_info_split:
  assumes "\<forall>c \<in> set (tlsAdvertisedDataCiphers (Ciphers options)). clean_name c"
  shows "\<exists>lzo. lzo \<in> {''IV_LZO=1'', ''IV_LZO_STUB=1''} \<and>
     str_Split (buildTLSPeerInfo goos options requestPush) newline =
       peer_info_lines goos options requestPush (announced_proto requestPush) lzo @ [[]] \<and>
     (\<forall>l \<in> set (peer_info_lines goos options requestPush (announced_proto requestPush) lzo). CHR 0x0D \<notin> set l)"
proof -
  obtain lzo where lzo: "lzo \<in> {''IV_LZO=1'', ''IV_LZO_STUB=1''}"
    and b: "buildTLSPeerInfo goos options requestPush =
       concat (map (\<lambda>l. l @ [newline]) (peer_info_lines goos options requestPush (announced_proto requestPush) lzo))"
    using buildTLSPeerInfo_lines [of goos options requestPush] by blast
  note cl = peer_info_lines_clean [OF assms lzo]
  from cl have "str_Split (buildTLSPeerInfo goos options requestPush) newline =
       peer_info_lines goos options requestPush (announced_proto requestPush) lzo @ [[]]"
    unfolding b by (intro Split_lines) blast
  then show ?thesis using lzo cl by blast
qed

lemma read_announced_proto:
  assumes "\<forall>c \<in> set (tlsAdvertisedDataCiphers (Ciphers options)). clean_name c"
  shows "peerInfoIVProto (buildTLSPeerInfo goos options requestPush) = (int (announced_proto requestPush), True)"
proof -
  obtain lzo where l: "str_Split (buildTLSPeerInfo goos options requestPush) newline =
       peer_info_lines goos options requestPush (announced_proto requestPush) lzo @ [[]]"
    "\<forall>l \<in> set (peer_info_lines goos options requestPush (announced_proto requestPush) lzo). CHR 0x0D \<notin> set l"
    using peer_info_split [OF assms] by blast
  have "peer_info_value ''IV_PROTO='' (peer_info_lines goos options requestPush (announced_proto requestPush) lzo @ [[]]) =
      Some (FormatUint (announced_proto requestPush))"
    using l(2) unfolding peer_info_lines_def
    by (simp add: peer_info_value_skip HasPrefix_def TrimPrefix_def del: peer_info_value.simps(2))
  then show ?thesis unfolding peerInfoIVProto_def l(1) by (simp add: announced_proto_def)
qed

lemma read_announced_mtu:
  assumes "\<forall>c \<in> set (tlsAdvertisedDataCiphers (Ciphers options)). clean_name c"
  shows "peerInfoMTU (buildTLSPeerInfo goos options requestPush) =
    (if requestPush then (if MTU options = 0 then 1500 else MTU options, True) else (0, False))"
proof -
  obtain lzo where l: "lzo \<in> {''IV_LZO=1'', ''IV_LZO_STUB=1''}" "str_Split (buildTLSPeerInfo goos options requestPush) newline =
       peer_info_lines goos options requestPush (announced_proto requestPush) lzo @ [[]]"
    "\<forall>l \<in> set (peer_info_lines goos options requestPush (announced_proto requestPush) lzo). CHR 0x0D \<notin> set l"
    using peer_info_split [OF assms] by blast
  define mtu :: u32 where "mtu = (if MTU options = 0 then 1500 else MTU options)"
  have "peer_info_value ''IV_MTU='' (peer_info_lines goos options requestPush (announced_proto requestPush) lzo @ [[]]) =
      (if requestPush then Some (FormatUint (unat mtu)) else None)"
    using l(1,3) unfolding peer_info_lines_def mtu_def
    by (auto simp: peer_info_value_skip HasPrefix_def TrimPrefix_def FormatUint_clean simp del: peer_info_value.simps(2))
  moreover have "mtu \<noteq> 0" by (simp add: mtu_def)
  moreover have "unat mtu < 2 ^ 32" using unsigned_less [of mtu, where 'a = nat] by simp
  ultimately show ?thesis
    unfolding peerInfoMTU_def l(2) mtu_def [symmetric] by (simp add: unat_eq_zero ParseUint_FormatUint)
qed

lemma read_announced_ciphers:
  assumes "\<forall>c \<in> set (tlsAdvertisedDataCiphers (Ciphers options)). clean_name c"
  shows "parsePeerInfoCipherList (buildTLSPeerInfo goos options requestPush) = (tlsAdvertisedDataCiphers (Ciphers options), True)"
proof -
  let ?cs = "tlsAdvertisedDataCiphers (Ciphers options)"
  obtain lzo where l: "str_Split (buildTLSPeerInfo goos options requestPush) newline =
       peer_info_lines goos options requestPush (announced_proto requestPush) lzo @ [[]]"
    using peer_info_split [OF assms] by blast
  have "cipher_line (peer_info_lines goos options requestPush (announced_proto requestPush) lzo @ [[]]) = Some (str_Join ?cs '':'')"
    unfolding peer_info_lines_def by (simp add: HasPrefix_def TrimPrefix_def)
  moreover have "?cs \<noteq> []" by (simp add: tlsAdvertisedDataCiphers_def)
  then have "str_Split (str_Join ?cs '':'') CHR '':'' = ?cs" using assms clean_name_chars by (intro Split_Join) auto
  moreover have "map TrimSpace ?cs = ?cs" using assms clean_name_chars by (intro map_idI) blast
  moreover have "filter (\<lambda>c. c \<noteq> []) ?cs = ?cs" using assms by (simp add: clean_name_def filter_id_conv)
  ultimately show ?thesis
    unfolding parsePeerInfoCipherList_def peerInfoIVCipherList_def l splitPeerInfoCipherList_def by simp
qed

lemma EqualFold_equiv: "EqualFold s s" "EqualFold s t \<Longrightarrow> EqualFold t s" "EqualFold s t \<Longrightarrow> EqualFold t u \<Longrightarrow> EqualFold s u"
  by (simp_all add: EqualFold_def)

lemma validate_shared:
  assumes "c \<in> set (tlsAdvertisedDataCiphers (Ciphers options))" "EqualFold s c" "clean_name s"
  shows "\<exists>c'. tlsValidateServerPushedCipher options s = Inr c' \<and> EqualFold c' s"
proof -
  have s: "TrimSpace s = s" "s \<noteq> []" using assms(3) clean_name_chars by (auto simp: clean_name_def)
  have "find (\<lambda>candidate. EqualFold candidate s) (tlsAdvertisedDataCiphers (Ciphers options)) \<noteq> None"
    using assms(1,2) EqualFold_equiv(2) by (auto simp: find_None_iff)
  then obtain d where d: "find (\<lambda>candidate. EqualFold candidate s) (tlsAdvertisedDataCiphers (Ciphers options)) = Some d"
    by blast
  then have "EqualFold d s" by (auto simp: find_Some_iff)
  then show ?thesis using s d by (simp add: tlsValidateServerPushedCipher_def Let_def)
qed

section \<open>Properties\<close>

text \<open>
  C31. The key-method message survives the exchange: a message can be built exactly when its random
  values have their sizes and its strings fit a 16-bit length, and the other end parses the payload,
  whatever follows it in the record, to the same options string, credentials, peer info and
  randomness; a server's message carries no pre-master secret.
\<close>

theorem key_method_roundtrip:
  "((\<exists>p. buildTLSKeyMethod2Payload server m = Inr p) \<longleftrightarrow>
     (server \<or> length (PreMaster (KeySource m)) = 48) \<and> length (Random1 (KeySource m)) = 32 \<and>
     length (Random2 (KeySource m)) = 32 \<and> length (OptionsString m) < 0xffff \<and> length (Username m) < 0xffff \<and>
     length (Password m) < 0xffff \<and> length (PeerInfo m) < 0xffff) \<and>
   (\<forall>p r. buildTLSKeyMethod2Payload server m = Inr p \<longrightarrow>
     parseTLSKeyMethod2Payload (p @ r) server = Inr (if server then without_premaster m else m))"
proof -
  have "(\<exists>p. buildTLSKeyMethod2Payload server m = Inr p) \<longleftrightarrow>
     (server \<or> length (PreMaster (KeySource m)) = 48) \<and> length (Random1 (KeySource m)) = 32 \<and>
     length (Random2 (KeySource m)) = 32 \<and> (\<exists>b. writeLengthPrefixedString (OptionsString m) = Inr b) \<and>
     (\<exists>b. writeLengthPrefixedString (Username m) = Inr b) \<and> (\<exists>b. writeLengthPrefixedString (Password m) = Inr b) \<and>
     (\<exists>b. writeLengthPrefixedString (PeerInfo m) = Inr b)"
    by (auto simp: buildTLSKeyMethod2Payload_def bindE_Inr_iff)
  then show ?thesis using parse_build by (auto simp: write_string_ok)
qed

definition sample_key_source :: tlsKeyMethodKeySource where
  "sample_key_source = \<lparr>PreMaster = replicate 48 1, Random1 = replicate 32 2, Random2 = replicate 32 3\<rparr>"

definition sample_key_message :: tlsKeyMethodMessage where
  "sample_key_message = \<lparr>OptionsString = ''V4'', Username = ''u'', Password = [], PeerInfo = ''IV_VER=2'', KeySource = sample_key_source\<rparr>"

theorem key_method_roundtrip_witness:
  "\<exists>p. buildTLSKeyMethod2Payload False sample_key_message = Inr p \<and> parseTLSKeyMethod2Payload p False = Inr sample_key_message"
proof -
  obtain p where p: "buildTLSKeyMethod2Payload False sample_key_message = Inr p"
    using key_method_roundtrip [of False sample_key_message] by (auto simp: sample_key_message_def sample_key_source_def)
  moreover have "parseTLSKeyMethod2Payload p False = Inr sample_key_message"
    using key_method_roundtrip [THEN conjunct2, rule_format, of False sample_key_message p "[]"] p by simp
  ultimately show ?thesis by blast
qed

text \<open>
  C32. Key derivation always ends: whatever secrets, random values and session ids it is given, the
  pseudo-random function terminates and yields exactly the 256 bytes of key material that the data
  codecs need.
\<close>

theorem key_derivation_ends:
  assumes "crypto_ok C"
  shows "\<exists>keyMaterial. deriveTLSKeyMaterialPRF C clientPreMaster clientRandom1 serverRandom1 clientRandom2 serverRandom2
       clientSessionID serverSessionID = Some keyMaterial \<and> length keyMaterial = 256"
  using derive_ends [OF assms] .

theorem key_derivation_ends_witness:
  "\<exists>keyMaterial. deriveTLSKeyMaterialPRF sample_crypto [1] [] [] [] [] (replicate 8 1) (replicate 8 2) = Some keyMaterial \<and>
     length keyMaterial = 256"
  by (rule key_derivation_ends [OF sample_crypto_ok])

text \<open>
  C33. Client and server agree on the cipher: from the peer info a client sends, the server picks the
  first cipher of its own list that the client listed too and fails exactly when there is none; and
  the client accepts the cipher the server picked, as one of its own that differs in case at most.
\<close>

theorem cipher_agreement:
  assumes "\<forall>c \<in> set (tlsAdvertisedDataCiphers (Ciphers client)). clean_name c"
    and "\<forall>c \<in> set (tlsAdvertisedDataCiphers (Ciphers server)). clean_name c"
  shows "tlsServerCipher (buildTLSPeerInfo goos client requestPush) optionsString server =
      (case find (\<lambda>s. \<exists>c \<in> set (tlsAdvertisedDataCiphers (Ciphers client)). EqualFold s c)
              (tlsAdvertisedDataCiphers (Ciphers server)) of
         Some s \<Rightarrow> Inr s | None \<Rightarrow> Inl (Extend ErrCipherNegotiationFailed ''no shared cipher'')) \<and>
    (\<forall>s. tlsServerCipher (buildTLSPeerInfo goos client requestPush) optionsString server = Inr s \<longrightarrow>
       (\<exists>c. tlsValidateServerPushedCipher client s = Inr c \<and> EqualFold c s))"
proof -
  let ?f = "find (\<lambda>s. \<exists>c \<in> set (tlsAdvertisedDataCiphers (Ciphers client)). EqualFold s c) (tlsAdvertisedDataCiphers (Ciphers server))"
  have pick: "tlsServerCipher (buildTLSPeerInfo goos client requestPush) optionsString server =
      (case ?f of Some s \<Rightarrow> Inr s | None \<Rightarrow> Inl (Extend ErrCipherNegotiationFailed ''no shared cipher''))"
    unfolding tlsServerCipher_def read_announced_ciphers [OF assms(1)] Let_def prod.case by (simp split: option.split)
  have "\<exists>c. tlsValidateServerPushedCipher client s = Inr c \<and> EqualFold c s" if "?f = Some s" for s
  proof -
    from that obtain c where "s \<in> set (tlsAdvertisedDataCiphers (Ciphers server))"
      "c \<in> set (tlsAdvertisedDataCiphers (Ciphers client))" "EqualFold s c"
      by (auto simp: find_Some_iff)
    then show ?thesis using validate_shared assms(2) by blast
  qed
  then show ?thesis unfolding pick by (auto split: option.split)
qed

definition sample_options :: "string list \<Rightarrow> DataChannelOptions" where
  "sample_options ciphers = \<lparr>MTU = 0, Ciphers = ciphers, FallbackCipher = [], Auth = [], Compression = [], CompressionLZO = [], AllowCompression = []\<rparr>"

theorem cipher_agreement_witness:
  "tlsServerCipher (buildTLSPeerInfo ''linux'' (sample_options []) True) []
     (sample_options [''AES-128-CBC'', ''AES-128-GCM'']) = Inr ''AES-128-GCM'' \<and>
   (\<exists>c. tlsValidateServerPushedCipher (sample_options []) ''AES-128-GCM'' = Inr c \<and> EqualFold c ''AES-128-GCM'')"
proof -
  let ?c = "sample_options []" and ?s = "sample_options [''AES-128-CBC'', ''AES-128-GCM'']"
  have "\<forall>c \<in> set (tlsAdvertisedDataCiphers (Ciphers ?c)). clean_name c"
    "\<forall>c \<in> set (tlsAdvertisedDataCiphers (Ciphers ?s)). clean_name c"
    by (simp_all add: sample_options_def tlsAdvertisedDataCiphers_def clean_name_def is_space_def)
  note agree = cipher_agreement [OF this, of "''linux''" True "[]"]
  have "find (\<lambda>s. \<exists>c \<in> set (tlsAdvertisedDataCiphers (Ciphers ?c)). EqualFold s c) (tlsAdvertisedDataCiphers (Ciphers ?s)) =
      Some ''AES-128-GCM''"
    by (simp add: sample_options_def tlsAdvertisedDataCiphers_def EqualFold_def ToLower_def lower_char_def)
  then show ?thesis using agree by simp
qed

text \<open>
  A string that is cut off by the end of the record is accepted, padded with zero bytes to the length
  it announced.
\<close>

lemma truncated_string_accepted:
  assumes "0 < length b" "length b < n" "n < 65536"
  shows "readLengthPrefixedString (put_u16 (of_nat n) @ b) = Inr (bytes_str (b @ replicate (n - length b - 1) 0), [])"
proof -
  let ?s = "b @ replicate (n - length b) 0"
  have u: "unat (of_nat n :: u16) = n" unfolding unat_of_nat using assms(3) by simp
  have len: "binary_Read 2 (put_u16 (of_nat n) @ b) = Inr (put_u16 (of_nat n), b)" by (simp add: binary_Read_def put_u16_def)
  have rd: "reader_Read n b = Inr (?s, [])" using assms by (auto simp: reader_Read_def)
  have n: "n \<noteq> 0" using assms by simp
  have l: "length ?s = n" "?s ! (n - 1) = 0" "take (n - 1) ?s = b @ replicate (n - length b - 1) 0"
    using assms by (auto simp: nth_append min_def)
  show ?thesis
    unfolding readLengthPrefixedString_def len bindE_simps prod.case u16_field.dec_enc_exact u Let_def rd l(1)
    using n l(2,3) by simp
qed

end
