(* ===== verification/Udp_Admission.thy ===== *)
theory Udp_Admission
  imports Control_Wrap
begin

text \<open>
  What a server does with a datagram from an address it does not serve yet: the stateless session-id
  cookies (session_id_hmac.go), the rate limits and the instance count (server_resource_policy.go) and
  the decision itself (udp_predecrypt.go). The server's parts that the decision reads (the signer, the
  static protection, the force-cookie option) are arguments; the resource policy is the state.
\<close>

section \<open>Time\<close>

text \<open>\<open>Unix()\<close> counts seconds from 1970, \<open>Sub\<close> saturates at the range of a duration.\<close>

definition Unix :: "time \<Rightarrow> int" where
  "Unix t = t div 1000000000 - 62135596800"

definition time_Sub :: "time \<Rightarrow> time \<Rightarrow> duration" where
  "time_Sub t u = max (- (2 ^ 63)) (min (2 ^ 63 - 1) (t - u))"

section \<open>Addresses\<close>

text \<open>
  A \<open>net.Addr\<close>: a UDP address with its IP slice, port and zone, or another kind with its network and
  text form. The port is an \<open>int\<close> of the code, cut to 16 bits when it is encoded.
\<close>

datatype net_addr = UDPAddr (addr_IP: bytes) (addr_Port: int) (addr_Zone: string) | OtherAddr string string

definition v4_in_v6_prefix :: bytes where
  "v4_in_v6_prefix = replicate 10 0 @ [0xff, 0xff]"

definition To4 :: "bytes \<Rightarrow> bytes option" where
  "To4 ip = (if length ip = 4 then Some ip
             else if length ip = 16 \<and> take 12 ip = v4_in_v6_prefix then Some (drop 12 ip) else None)"

definition To16 :: "bytes \<Rightarrow> bytes" where
  "To16 ip = (if length ip = 4 then v4_in_v6_prefix @ ip else if length ip = 16 then ip else [])"

fun sessionIDHMACAddress :: "net_addr option \<Rightarrow> bytes" where
  "sessionIDHMACAddress None = []"
| "sessionIDHMACAddress (Some (OtherAddr network address)) =
     put_u16 (of_nat (length network)) @ str_bytes network @ put_u16 (of_nat (length address)) @ str_bytes address"
| "sessionIDHMACAddress (Some (UDPAddr ip port zone)) =
     (let (addressFamily, ipAddress) = (case To4 ip of Some ipv4 \<Rightarrow> (4, ipv4) | None \<Rightarrow> (6, To16 ip))
      in [addressFamily] @ ipAddress @ put_u16 (of_int port) @ put_u16 (of_nat (length zone)) @ str_bytes zone)"

section \<open>Cookies\<close>

definition defaultHandshakeWindowSeconds :: int where "defaultHandshakeWindowSeconds = 60"
definition sessionIDHMACPastBuckets :: int where "sessionIDHMACPastBuckets = 2"
definition sessionIDHMACFutureBuckets :: int where "sessionIDHMACFutureBuckets = 1"

record sessionIDHMACSigner =
  signer_hmacKey :: bytes
  handwindow :: int

definition newSessionIDHMACSigner :: "random \<Rightarrow> sessionIDHMACSigner result" where
  "newSessionIDHMACSigner rand =
     bindE (rand 32) (\<lambda>key. Inr \<lparr>signer_hmacKey = key, handwindow = defaultHandshakeWindowSeconds\<rparr>)"

text \<open>Go's division truncates; the current time and the window are not negative here.\<close>

definition deriveSessionIDAt ::
  "crypto \<Rightarrow> sessionIDHMACSigner \<Rightarrow> session_id \<Rightarrow> net_addr option \<Rightarrow> int \<Rightarrow> int \<Rightarrow> session_id" where
  "deriveSessionIDAt C s clientSessionID peerAddress currentTime offset =
     (let bucket = (of_int (currentTime div ((handwindow s + 1) div 2)) :: u32) + of_int offset
      in take SessionIDLength
           (hmacSum C sha256_New (signer_hmacKey s) (put_u32 bucket @ sessionIDHMACAddress peerAddress @ clientSessionID)))"

fun validate_loop ::
  "crypto \<Rightarrow> sessionIDHMACSigner \<Rightarrow> session_id \<Rightarrow> net_addr option \<Rightarrow> session_id \<Rightarrow> int \<Rightarrow> int list \<Rightarrow> bool" where
  "validate_loop C s expectedClientSessionID peerAddress serverSessionID currentTime [] = False"
| "validate_loop C s expectedClientSessionID peerAddress serverSessionID currentTime (offset # offsets) =
     (if deriveSessionIDAt C s expectedClientSessionID peerAddress currentTime offset = serverSessionID then True
      else validate_loop C s expectedClientSessionID peerAddress serverSessionID currentTime offsets)"

definition validateAt ::
  "crypto \<Rightarrow> sessionIDHMACSigner \<Rightarrow> session_id \<Rightarrow> net_addr option \<Rightarrow> session_id \<Rightarrow> int \<Rightarrow> bool" where
  "validateAt C s expectedClientSessionID peerAddress serverSessionID currentTime =
     validate_loop C s expectedClientSessionID peerAddress serverSessionID currentTime
       [- sessionIDHMACPastBuckets .. sessionIDHMACFutureBuckets]"

section \<open>Resource policy\<close>

definition defaultServerMaxClients :: int where "defaultServerMaxClients = 1024"
definition defaultServerInitialConnectFrequency :: int where "defaultServerInitialConnectFrequency = 100"
definition defaultServerInitialConnectFrequencyPeriod :: duration where
  "defaultServerInitialConnectFrequencyPeriod = 10 * second"

record ServerResourceOptions =
  MaxClients :: int
  ConnectFrequency :: int
  ConnectFrequencyPeriod :: duration
  InitialConnectFrequency :: int
  InitialConnectFrequencyPeriod :: duration

record serverResourcePolicy =
  maxClients :: int
  connectFrequency :: int
  connectFrequencyPeriod :: duration
  connectWindowStart :: time
  connectWindowCount :: int
  initialConnectFrequency :: int
  initialConnectFrequencyPeriod :: duration
  initialWindowStart :: time
  initialWindowCount :: int
  instances :: int

definition newServerResourcePolicy :: "ServerResourceOptions \<Rightarrow> serverResourcePolicy" where
  "newServerResourcePolicy options =
     \<lparr>maxClients = (if MaxClients options = 0 then defaultServerMaxClients else MaxClients options),
      connectFrequency = ConnectFrequency options, connectFrequencyPeriod = ConnectFrequencyPeriod options,
      connectWindowStart = 0, connectWindowCount = 0,
      initialConnectFrequency = (if InitialConnectFrequencyPeriod options = 0 then defaultServerInitialConnectFrequency
                                 else InitialConnectFrequency options),
      initialConnectFrequencyPeriod = (if InitialConnectFrequencyPeriod options = 0
                                       then defaultServerInitialConnectFrequencyPeriod
                                       else InitialConnectFrequencyPeriod options),
      initialWindowStart = 0, initialWindowCount = 0, instances = 0\<rparr>"

definition allowInitialPacket :: "time \<Rightarrow> serverResourcePolicy \<Rightarrow> bool \<times> serverResourcePolicy" where
  "allowInitialPacket now p =
     (let p = (if IsZero (initialWindowStart p) \<or> time_Sub now (initialWindowStart p) > initialConnectFrequencyPeriod p
               then p\<lparr>initialWindowStart := now, initialWindowCount := 0\<rparr> else p);
          p = p\<lparr>initialWindowCount := initialWindowCount p + 1\<rparr>
      in (initialWindowCount p \<le> initialConnectFrequency p, p))"

definition refundInitialPacket :: "serverResourcePolicy \<Rightarrow> serverResourcePolicy" where
  "refundInitialPacket p =
     (if initialWindowCount p > 0 then p\<lparr>initialWindowCount := initialWindowCount p - 1\<rparr> else p)"

definition allowNewConnection :: "time \<Rightarrow> serverResourcePolicy \<Rightarrow> bool \<times> serverResourcePolicy" where
  "allowNewConnection now p =
     (if connectFrequencyPeriod p = 0 then (True, p)
      else
        let p = (if IsZero (connectWindowStart p) \<or> time_Sub now (connectWindowStart p) \<ge> connectFrequencyPeriod p
                 then p\<lparr>connectWindowStart := now, connectWindowCount := 0\<rparr> else p);
            p = p\<lparr>connectWindowCount := connectWindowCount p + 1\<rparr>
        in (connectWindowCount p \<le> connectFrequency p, p))"

definition reserveInstance :: "serverResourcePolicy \<Rightarrow> bool \<times> serverResourcePolicy" where
  "reserveInstance p = (if instances p \<ge> maxClients p then (False, p) else (True, p\<lparr>instances := instances p + 1\<rparr>))"

definition release :: "serverResourcePolicy \<Rightarrow> serverResourcePolicy" where
  "release p = p\<lparr>instances := instances p - 1\<rparr>"

section \<open>The decision\<close>

datatype udpPreDecryptVerdict = udpPreDecryptDrop | udpPreDecryptChallenge | udpPreDecryptAccept

record udpPreDecryptResult =
  verdict :: udpPreDecryptVerdict
  res_packet :: "packet option"
  res_protection :: tlsControlProtection
  challenge :: bytes
  res_serverSessionID :: session_id
  res_clientSessionID :: session_id
  directReset :: bool

definition no_protection :: tlsControlProtection where
  "no_protection = \<lparr>auth = None, crypt = None, cryptV2ServerKey = []\<rparr>"

definition empty_result :: udpPreDecryptResult where
  "empty_result = \<lparr>verdict = udpPreDecryptDrop, res_packet = None, res_protection = no_protection, challenge = [],
     res_serverSessionID = zero_session_id, res_clientSessionID = zero_session_id, directReset = False\<rparr>"

definition isPossibleUDPPreDecryptPacket :: "bytes \<Rightarrow> bool" where
  "isPossibleUDPPreDecryptPacket rawPacket =
     (if length rawPacket < tlsControlHeaderLength \<or> rawPacket ! 0 AND 7 \<noteq> 0 then False
      else if take 8 (drop 1 rawPacket) = zero_session_id then False
      else drop_bit 3 (rawPacket ! 0) \<in> {OpcodeControlHardResetClientV2, OpcodeControlHardResetClientV3,
             OpcodeControlV1, OpcodeAcknowledgmentV1, OpcodeControlWKCv1})"

definition validateInitialClientReset :: "packet \<Rightarrow> unit result" where
  "validateInitialClientReset packet =
     (if KeyID packet \<noteq> 0 then Inl (New ''invalid initial OpenVPN client reset key-id'')
      else if Opcode packet \<noteq> OpcodeControlHardResetClientV2 \<and> Opcode packet \<noteq> OpcodeControlHardResetClientV3
      then Inl (New ''invalid initial OpenVPN client reset opcode'')
      else if ID packet \<noteq> 0 \<or> length (AcknowledgmentIDs packet) \<noteq> 0 \<or> length (Payload packet) \<noteq> 0
      then Inl (New ''invalid initial OpenVPN client reset state'')
      else Inr ())"

definition decodeUDPPreDecryptPacket ::
  "crypto \<Rightarrow> clock \<Rightarrow> tlsControlProtection \<Rightarrow> bytes \<Rightarrow> (packet \<times> tlsControlProtection \<times> bool) result" where
  "decodeUDPPreDecryptPacket C clock staticProtection rawPacket =
     (let opcode = drop_bit 3 (rawPacket ! 0)
      in case decodeIncomingControlPacket C clock (newSessionProtection staticProtection) rawPacket of (decoded, protection) \<Rightarrow>
         bindE decoded (\<lambda>packetBytes.
         bindE (ParsePacket packetBytes) (\<lambda>packet.
           if Opcode packet \<noteq> opcode then Inl (New ''UDP pre-decrypt opcode mismatch'')
           else Inr (packet, protection,
             opcode = OpcodeControlHardResetClientV3 \<and> tlsCryptV2ResetAnnouncesEarlyNegotiation rawPacket))))"

definition encodeUDPPreDecryptPacket :: "crypto \<Rightarrow> u32 \<Rightarrow> packet \<Rightarrow> tlsControlProtection \<Rightarrow> bytes result" where
  "encodeUDPPreDecryptPacket C now packet protection =
     bindE (packet_Bytes packet) (\<lambda>rawPacket. Inr (fst (encodeOutgoingControlPacket C now protection rawPacket)))"

definition seedUDPProtectionAfterChallenge :: "u32 \<Rightarrow> tlsControlProtection \<Rightarrow> tlsControlProtection" where
  "seedUDPProtectionAfterChallenge now p =
     p\<lparr>auth := map_option (\<lambda>c. c\<lparr>auth_sendState := seedNextID now 1 (auth_sendState c)\<rparr>) (auth p),
       crypt := map_option (\<lambda>c. c\<lparr>crypt_sendState := seedNextID now 1 (crypt_sendState c)\<rparr>) (crypt p)\<rparr>"

definition challenge_packet :: "packet \<Rightarrow> session_id \<Rightarrow> packet" where
  "challenge_packet packet serverSessionID =
     zero_packet\<lparr>Opcode := OpcodeControlHardResetServerV2, KeyID := 0, LocalSessionID := serverSessionID,
       AcknowledgmentIDs := [ID packet], RemoteSessionID := LocalSessionID packet, ID := 0,
       Payload := (if Opcode packet = OpcodeControlHardResetClientV3
                   then put_u16 tlsCryptV2TLVTypeEarlyNegotiationFlags @ put_u16 2 @ put_u16 tlsCryptV2EarlyNegotiationFlagResendWKC
                   else [])\<rparr>"

definition preDecryptUDPPacket ::
  "crypto \<Rightarrow> clock \<Rightarrow> sessionIDHMACSigner \<Rightarrow> tlsControlProtection \<Rightarrow> bool \<Rightarrow> bytes \<Rightarrow> net_addr option \<Rightarrow> time \<Rightarrow>
     serverResourcePolicy \<Rightarrow> udpPreDecryptResult result \<times> serverResourcePolicy" where
  "preDecryptUDPPacket C clock signer staticProtection forceCookie rawPacket peerAddress now policy =
     (case decodeUDPPreDecryptPacket C clock staticProtection rawPacket of
        Inl err \<Rightarrow> (Inl err, policy)
      | Inr (packet, protection, earlyNegotiation) \<Rightarrow>
          if KeyID packet \<noteq> 0 \<or> LocalSessionID packet = zero_session_id
          then (Inl (New ''invalid UDP pre-decrypt identity''), policy)
          else if Opcode packet = OpcodeControlHardResetClientV2 \<or> Opcode packet = OpcodeControlHardResetClientV3 then
            (case validateInitialClientReset packet of
               Inl err \<Rightarrow> (Inl err, policy)
             | Inr _ \<Rightarrow>
                 case allowInitialPacket now policy of (allowed, policy) \<Rightarrow>
                 if \<not> allowed then (Inl (New ''initial packet rate limit exceeded''), policy)
                 else if Opcode packet = OpcodeControlHardResetClientV3 \<and> \<not> earlyNegotiation then
                   (if forceCookie
                    then (Inl (New ''tls-crypt-v2 client does not support stateless cookie negotiation''), policy)
                    else (Inr (empty_result\<lparr>verdict := udpPreDecryptAccept, res_packet := Some packet,
                                 res_protection := protection, directReset := True\<rparr>), policy))
                 else
                   let serverSessionID = deriveSessionIDAt C signer (LocalSessionID packet) peerAddress (Unix now) 0
                   in (bindE (encodeUDPPreDecryptPacket C (of_int (Unix now)) (challenge_packet packet serverSessionID) protection) (\<lambda>ch.
                         Inr (empty_result\<lparr>verdict := udpPreDecryptChallenge, challenge := ch,
                                res_serverSessionID := serverSessionID, res_clientSessionID := LocalSessionID packet\<rparr>)), policy))
          else if Opcode packet \<in> {OpcodeControlV1, OpcodeAcknowledgmentV1, OpcodeControlWKCv1} then
            (if length (AcknowledgmentIDs packet) = 0 \<or> RemoteSessionID packet = zero_session_id
             then (Inl (New ''missing UDP session-id cookie''), policy)
             else if \<not> validateAt C signer (LocalSessionID packet) peerAddress (RemoteSessionID packet) (Unix now)
             then (Inl (New ''invalid UDP session-id cookie''), policy)
             else (Inr (empty_result\<lparr>verdict := udpPreDecryptAccept, res_packet := Some packet,
                          res_protection := seedUDPProtectionAfterChallenge (of_int (Unix now)) protection,
                          res_serverSessionID := RemoteSessionID packet, res_clientSessionID := LocalSessionID packet\<rparr>), policy))
          else (Inl (New ''invalid UDP pre-decrypt opcode''), policy))"

section \<open>What a cookie is bound to\<close>

text \<open>The address as the cookie sees it: an IPv4-mapped address is its IPv4 address.\<close>

fun canonical :: "net_addr \<Rightarrow> byte \<times> bytes \<times> int \<times> string" where
  "canonical (UDPAddr ip port zone) = (case To4 ip of Some v4 \<Rightarrow> (4, v4, port, zone) | None \<Rightarrow> (6, To16 ip, port, zone))"
| "canonical (OtherAddr n a) = (0, [], 0, [])"

fun udp_address :: "net_addr \<Rightarrow> bool" where
  "udp_address (UDPAddr ip port zone) \<longleftrightarrow> length ip \<in> {4, 16} \<and> 0 \<le> port \<and> port < 65536 \<and> length zone < 65536"
| "udp_address (OtherAddr n a) \<longleftrightarrow> False"

lemma udp_address_encoding:
  assumes "udp_address a" "canonical a = (f, ip, port, zone)"
  shows "sessionIDHMACAddress (Some a) = f # ip @ put_u16 (of_int port) @ put_u16 (of_nat (length zone)) @ str_bytes zone \<and>
     (f = 4 \<and> length ip = 4 \<or> f = 6 \<and> length ip = 16) \<and> 0 \<le> port \<and> port < 65536 \<and> length zone < 65536"
  using assms by (cases a) (auto simp: To4_def To16_def v4_in_v6_prefix_def split: if_splits option.splits)

lemma str_bytes_inj: "str_bytes s = str_bytes t \<longleftrightarrow> s = t"
  by (metis bytes_str_inverse)

lemma u16_inj:
  "n < 65536 \<Longrightarrow> m < 65536 \<Longrightarrow> (of_nat n :: u16) = of_nat m \<Longrightarrow> n = m"
  by (drule arg_cong [where f = unat]) (simp add: unat_of_nat)

lemma u16_int_inj:
  assumes "0 \<le> p" "p < 65536" "0 \<le> q" "q < 65536" "(of_int p :: u16) = of_int q"
  shows "p = q"
proof -
  have "(of_nat (nat p) :: u16) = of_nat (nat q)" using assms by simp
  moreover have "nat p < 65536" "nat q < 65536" using assms by simp_all
  ultimately have "nat p = nat q" using u16_inj by blast
  then show ?thesis using assms(1,3) by simp
qed

text \<open>The message under the HMAC determines the time bucket, the address and the session id.\<close>

lemma cookie_message_inj:
  assumes a: "udp_address a" "udp_address a'" and sid: "length sid = 8" "length sid' = 8"
    and eq: "put_u32 b @ sessionIDHMACAddress (Some a) @ sid = put_u32 b' @ sessionIDHMACAddress (Some a') @ sid'"
  shows "b = b' \<and> canonical a = canonical a' \<and> sid = sid'"
proof -
  obtain f ip port zone where c: "canonical a = (f, ip, port, zone)" by (metis prod_cases4)
  obtain f' ip' port' zone' where c': "canonical a' = (f', ip', port', zone')" by (metis prod_cases4)
  note e = udp_address_encoding [OF a(1) c] and e' = udp_address_encoding [OF a(2) c']
  from eq have b: "put_u32 b = put_u32 b'" and rest: "sessionIDHMACAddress (Some a) @ sid = sessionIDHMACAddress (Some a') @ sid'"
    by (simp_all add: append_eq_append_conv)
  have f: "f = f'" using rest e e' by simp
  then have "length ip = length ip'" using e e' by auto
  then have ip: "ip = ip'" and r2: "put_u16 (of_int port) @ put_u16 (of_nat (length zone)) @ str_bytes zone @ sid =
      put_u16 (of_int port') @ put_u16 (of_nat (length zone')) @ str_bytes zone' @ sid'"
    using rest e e' by (simp_all add: append_eq_append_conv)
  then have p: "port = port'" and r3: "put_u16 (of_nat (length zone)) @ str_bytes zone @ sid =
      put_u16 (of_nat (length zone')) @ str_bytes zone' @ sid'"
    using u16_int_inj [of port port'] e e' by (simp_all add: append_eq_append_conv u16_field.enc_inj)
  then have z: "length zone = length zone'" and r4: "str_bytes zone @ sid = str_bytes zone' @ sid'"
    using u16_inj [of "length zone" "length zone'"] e e' by (simp_all add: append_eq_append_conv u16_field.enc_inj)
  then have "zone = zone'" "sid = sid'" by (simp_all add: append_eq_append_conv str_bytes_inj)
  then show ?thesis using b f ip p c c' by (simp add: u32_field.enc_inj)
qed

lemma validate_loop_iff:
  "validate_loop C s cid a sid t os \<longleftrightarrow> (\<exists>k \<in> set os. deriveSessionIDAt C s cid a t k = sid)"
  by (induction os) auto

lemma validateAt_iff:
  "validateAt C s cid a sid t \<longleftrightarrow> (\<exists>k \<in> {-2..1}. deriveSessionIDAt C s cid a t k = sid)"
  by (simp add: validateAt_def validate_loop_iff sessionIDHMACPastBuckets_def sessionIDHMACFutureBuckets_def)

lemma derive_bucket:
  "handwindow s = 60 \<Longrightarrow> deriveSessionIDAt C s cid a t k =
     take 8 (hmacSum C sha256_New (signer_hmacKey s) (put_u32 (of_int (t div 30 + k)) @ sessionIDHMACAddress a @ cid))"
  by (simp add: deriveSessionIDAt_def SessionIDLength_def Let_def)

lemma bucket_shift:
  assumes "handwindow s = 60" "t \<le> t'" "t' \<le> t + 60"
  shows "\<exists>k \<in> {-2..1}. deriveSessionIDAt C s cid a t' k = deriveSessionIDAt C s cid a t 0"
proof -
  have "t div 30 \<le> t' div 30" using assms(2) by (rule zdiv_mono1) simp
  moreover have "t' div 30 \<le> (t + 60) div 30" using assms(3) by (rule zdiv_mono1) simp
  moreover have "(t + 60) div 30 = t div 30 + 2" by simp
  ultimately have "t div 30 - t' div 30 \<in> {-2..1}" by simp
  then show ?thesis unfolding derive_bucket [OF assms(1)] by (intro bexI [of _ "t div 30 - t' div 30"]) simp_all
qed

text \<open>What an admitted datagram decoded to, and which of the two ways it took.\<close>

lemma accept_cases:
  assumes "preDecryptUDPPacket C clock signer staticProtection forceCookie rawPacket peerAddress now policy = (Inr r, policy')"
    and "verdict r = udpPreDecryptAccept"
  shows "\<exists>packet protection early. decodeUDPPreDecryptPacket C clock staticProtection rawPacket = Inr (packet, protection, early) \<and>
    res_packet r = Some packet \<and> KeyID packet = 0 \<and> LocalSessionID packet \<noteq> zero_session_id \<and>
    (directReset r \<and> \<not> forceCookie \<and> Opcode packet = OpcodeControlHardResetClientV3 \<and> \<not> early \<and>
       (\<exists>u. validateInitialClientReset packet = Inr u) \<and> fst (allowInitialPacket now policy) \<or>
     \<not> directReset r \<and> Opcode packet \<in> {OpcodeControlV1, OpcodeAcknowledgmentV1, OpcodeControlWKCv1} \<and>
       AcknowledgmentIDs packet \<noteq> [] \<and> RemoteSessionID packet \<noteq> zero_session_id \<and> policy' = policy \<and>
       res_serverSessionID r = RemoteSessionID packet \<and> res_clientSessionID r = LocalSessionID packet \<and>
       validateAt C signer (LocalSessionID packet) peerAddress (RemoteSessionID packet) (Unix now))"
proof -
  obtain packet protection early where d: "decodeUDPPreDecryptPacket C clock staticProtection rawPacket = Inr (packet, protection, early)"
    using assms(1) by (cases "decodeUDPPreDecryptPacket C clock staticProtection rawPacket") (auto simp: preDecryptUDPPacket_def)
  show ?thesis
    using assms unfolding preDecryptUDPPacket_def d
    by (auto simp: empty_result_def Let_def bindE_Inr_iff split: if_splits sum.splits prod.splits)
qed

lemma decoded_datagram:
  assumes "decodeUDPPreDecryptPacket C clock staticProtection rawPacket = Inr (packet, protection, early)"
  shows "\<exists>packetBytes. decodeIncomingControlPacket C clock (newSessionProtection staticProtection) rawPacket = (Inr packetBytes, protection) \<and>
      ParsePacket packetBytes = Inr packet" "Opcode packet = drop_bit 3 (rawPacket ! 0)"
    "early = (Opcode packet = OpcodeControlHardResetClientV3 \<and> tlsCryptV2ResetAnnouncesEarlyNegotiation rawPacket)"
  using assms by (auto simp: decodeUDPPreDecryptPacket_def bindE_Inr_iff Let_def split: prod.splits if_splits)

section \<open>Properties\<close>

text \<open>
  C34. No state without a cookie: when the server admits a datagram from an address it does not serve,
  the datagram passed the control channel protection and its content parsed to a packet of key id 0
  with a session id, which is the packet handed on. Either that packet is a well-formed tls-crypt-v2
  reset of a client without early negotiation, paid for by the rate limit, which the server accepts
  only when cookies are not forced; or it is a later control or acknowledgment packet that
  acknowledges something and whose field for the server's session id holds the first 8 bytes of an
  HMAC under the server's secret over a time bucket at most two back and one ahead, the datagram's
  own source address and the packet's own session id. No other bucket, address or session id has
  the same HMAC input.
\<close>

theorem cookie_required:
  assumes "handwindow signer = 60"
    and "preDecryptUDPPacket C clock signer staticProtection forceCookie rawPacket peerAddress now policy = (Inr r, policy')"
    and "verdict r = udpPreDecryptAccept"
  shows "(\<exists>packetBytes protection packet.
       decodeIncomingControlPacket C clock (newSessionProtection staticProtection) rawPacket = (Inr packetBytes, protection) \<and>
       ParsePacket packetBytes = Inr packet \<and> Opcode packet = drop_bit 3 (rawPacket ! 0) \<and>
       res_packet r = Some packet \<and> KeyID packet = 0 \<and> LocalSessionID packet \<noteq> zero_session_id \<and>
       (directReset r \<and> \<not> forceCookie \<and> Opcode packet = OpcodeControlHardResetClientV3 \<and>
          \<not> tlsCryptV2ResetAnnouncesEarlyNegotiation rawPacket \<and>
          (\<exists>u. validateInitialClientReset packet = Inr u) \<and> fst (allowInitialPacket now policy) \<or>
        \<not> directReset r \<and> Opcode packet \<in> {OpcodeControlV1, OpcodeAcknowledgmentV1, OpcodeControlWKCv1} \<and>
          AcknowledgmentIDs packet \<noteq> [] \<and> RemoteSessionID packet \<noteq> zero_session_id \<and>
          res_serverSessionID r = RemoteSessionID packet \<and> res_clientSessionID r = LocalSessionID packet \<and>
          (\<exists>k \<in> {-2..1}. RemoteSessionID packet =
             take 8 (hmacSum C sha256_New (signer_hmacKey signer)
               (put_u32 (of_int (Unix now div 30 + k)) @ sessionIDHMACAddress peerAddress @ LocalSessionID packet))))) \<and>
     (\<forall>a a' b b' sid sid'. udp_address a \<and> udp_address a' \<and> length sid = 8 \<and> length sid' = 8 \<and>
       put_u32 b @ sessionIDHMACAddress (Some a) @ sid = put_u32 b' @ sessionIDHMACAddress (Some a') @ sid' \<longrightarrow>
       b = b' \<and> canonical a = canonical a' \<and> sid = sid')"
proof -
  obtain packet protection early where d: "decodeUDPPreDecryptPacket C clock staticProtection rawPacket = Inr (packet, protection, early)"
    and c: "res_packet r = Some packet" "KeyID packet = 0" "LocalSessionID packet \<noteq> zero_session_id"
      "directReset r \<and> \<not> forceCookie \<and> Opcode packet = OpcodeControlHardResetClientV3 \<and> \<not> early \<and>
       (\<exists>u. validateInitialClientReset packet = Inr u) \<and> fst (allowInitialPacket now policy) \<or>
     \<not> directReset r \<and> Opcode packet \<in> {OpcodeControlV1, OpcodeAcknowledgmentV1, OpcodeControlWKCv1} \<and>
       AcknowledgmentIDs packet \<noteq> [] \<and> RemoteSessionID packet \<noteq> zero_session_id \<and>
       res_serverSessionID r = RemoteSessionID packet \<and> res_clientSessionID r = LocalSessionID packet \<and>
       validateAt C signer (LocalSessionID packet) peerAddress (RemoteSessionID packet) (Unix now)"
    using accept_cases [OF assms(2,3)] by blast
  note packet = decoded_datagram [OF d]
  from c(4) packet(3) have "directReset r \<and> \<not> forceCookie \<and> Opcode packet = OpcodeControlHardResetClientV3 \<and>
          \<not> tlsCryptV2ResetAnnouncesEarlyNegotiation rawPacket \<and>
          (\<exists>u. validateInitialClientReset packet = Inr u) \<and> fst (allowInitialPacket now policy) \<or>
        \<not> directReset r \<and> Opcode packet \<in> {OpcodeControlV1, OpcodeAcknowledgmentV1, OpcodeControlWKCv1} \<and>
          AcknowledgmentIDs packet \<noteq> [] \<and> RemoteSessionID packet \<noteq> zero_session_id \<and>
          res_serverSessionID r = RemoteSessionID packet \<and> res_clientSessionID r = LocalSessionID packet \<and>
          (\<exists>k \<in> {-2..1}. RemoteSessionID packet =
             take 8 (hmacSum C sha256_New (signer_hmacKey signer)
               (put_u32 (of_int (Unix now div 30 + k)) @ sessionIDHMACAddress peerAddress @ LocalSessionID packet)))"
    unfolding validateAt_iff derive_bucket [OF assms(1)] by metis
  then show ?thesis using c(1-3) packet(1,2) cookie_message_inj by blast
qed

text \<open>A server without control channel protection, and a client that resets and answers.\<close>

definition cookie_crypto :: crypto where
  "cookie_crypto = sample_crypto\<lparr>hmacSum := (\<lambda>h _ _. replicate (hash_Size h) 1)\<rparr>"

definition sample_signer :: sessionIDHMACSigner where
  "sample_signer = \<lparr>signer_hmacKey = [], handwindow = 60\<rparr>"

definition sample_reset :: bytes where
  "sample_reset = [0x38, 1, 2, 3, 4, 5, 6, 7, 8, 0, 0, 0, 0, 0]"

definition sample_answer :: bytes where
  "sample_answer = [0x28, 1, 2, 3, 4, 5, 6, 7, 8, 1, 0, 0, 0, 0, 1, 1, 1, 1, 1, 1, 1, 1]"

definition sample_policy :: serverResourcePolicy where
  "sample_policy = newServerResourcePolicy \<lparr>MaxClients = 0, ConnectFrequency = 0, ConnectFrequencyPeriod = 0,
     InitialConnectFrequency = 0, InitialConnectFrequencyPeriod = 0\<rparr>"

definition sample_address :: net_addr where
  "sample_address = UDPAddr [192, 0, 2, 1] 1194 []"

lemma sample_session_protection: "newSessionProtection no_protection = no_protection"
  by (simp add: newSessionProtection_def no_protection_def auth_newSessionCodec_def crypt_newSessionCodec_def)

definition answer_packet :: packet where
  "answer_packet = zero_packet\<lparr>Opcode := 5, LocalSessionID := [1, 2, 3, 4, 5, 6, 7, 8], AcknowledgmentIDs := [0],
     RemoteSessionID := replicate 8 1\<rparr>"

lemmas opcode_values = OpcodeControlHardResetClientV1_def OpcodeControlHardResetServerV1_def OpcodeControlSoftResetV1_def
  OpcodeControlV1_def OpcodeAcknowledgmentV1_def OpcodeDataV1_def OpcodeControlHardResetClientV2_def
  OpcodeControlHardResetServerV2_def OpcodeDataV2_def OpcodeControlHardResetClientV3_def OpcodeControlWKCv1_def

lemma replicate_8: "replicate 8 x = [x, x, x, x, x, x, x, x]"
  by (simp add: numeral_eq_Suc)

lemma some_bucket: "\<exists>k \<ge> - 2. k \<le> (1 :: int)"
  by (rule exI [of _ 0]) simp

lemma sample_decoded:
  "decodeUDPPreDecryptPacket cookie_crypto clock no_protection sample_reset =
     Inr (zero_packet\<lparr>Opcode := 7, LocalSessionID := [1, 2, 3, 4, 5, 6, 7, 8]\<rparr>, no_protection, False)"
  "decodeUDPPreDecryptPacket cookie_crypto clock no_protection sample_answer = Inr (answer_packet, no_protection, False)"
  unfolding decodeUDPPreDecryptPacket_def sample_session_protection
  by (simp_all add: decodeIncomingControlPacket_def no_protection_def sample_reset_def sample_answer_def answer_packet_def
      wrap_consts Let_def ParsePacket_def parseControlOrAcknowledgmentPacket_def opcode_values IsControl_def
      zero_packet_def SessionIDLength_def read_n_def replicate_8)

theorem cookie_required_witness:
  "\<exists>r policy'. preDecryptUDPPacket cookie_crypto (0, 0) sample_signer no_protection True sample_answer
       (Some sample_address) 0 sample_policy = (Inr r, policy') \<and> verdict r = udpPreDecryptAccept \<and> \<not> directReset r"
proof -
  let ?run = "preDecryptUDPPacket cookie_crypto (0, 0) sample_signer no_protection True sample_answer (Some sample_address) 0 sample_policy"
  have "\<exists>r policy'. ?run = (Inr r, policy') \<and> verdict r = udpPreDecryptAccept"
    unfolding preDecryptUDPPacket_def sample_decoded
    by (simp add: answer_packet_def zero_packet_def opcode_values zero_session_id_def SessionIDLength_def validateAt_iff
        empty_result_def deriveSessionIDAt_def cookie_crypto_def sample_signer_def replicate_8 some_bucket)
  then obtain r policy' where r: "?run = (Inr r, policy')" "verdict r = udpPreDecryptAccept" by blast
  from cookie_required [OF _ r] have "\<not> directReset r" by (fastforce simp: sample_signer_def)
  with r show ?thesis by blast
qed

text \<open>
  C35. A client that answers a challenge is let in: when the server answers a reset with a challenge, a
  control or acknowledgment packet that comes from the same address within the next 60 seconds,
  passes the control channel protection, names the same client session id and the session id of the
  challenge and acknowledges something, is admitted, and is not charged to the rate limit.
\<close>

theorem cookie_answer_accepted:
  assumes "handwindow signer = 60"
    and "preDecryptUDPPacket C clock signer staticProtection forceCookie rawPacket peerAddress t policy = (Inr r, policy1)"
    and "verdict r = udpPreDecryptChallenge"
    and "decodeUDPPreDecryptPacket C clock' staticProtection answer = Inr (packet, protection, early)"
    and "Opcode packet \<in> {OpcodeControlV1, OpcodeAcknowledgmentV1, OpcodeControlWKCv1}" "KeyID packet = 0"
    and "LocalSessionID packet = res_clientSessionID r" "RemoteSessionID packet = res_serverSessionID r"
    and "AcknowledgmentIDs packet \<noteq> []" "RemoteSessionID packet \<noteq> zero_session_id"
    and "Unix t \<le> Unix t'" "Unix t' \<le> Unix t + 60"
  shows "\<exists>r'. preDecryptUDPPacket C clock' signer staticProtection forceCookie answer peerAddress t' policy2 = (Inr r', policy2) \<and>
     verdict r' = udpPreDecryptAccept \<and> res_packet r' = Some packet \<and> res_serverSessionID r' = res_serverSessionID r"
proof -
  obtain p q e where "decodeUDPPreDecryptPacket C clock staticProtection rawPacket = Inr (p, q, e)"
    using assms(2) by (cases "decodeUDPPreDecryptPacket C clock staticProtection rawPacket") (auto simp: preDecryptUDPPacket_def)
  then have r: "res_serverSessionID r = deriveSessionIDAt C signer (res_clientSessionID r) peerAddress (Unix t) 0"
    "res_clientSessionID r \<noteq> zero_session_id"
    using assms(2,3)
    by (auto simp: preDecryptUDPPacket_def empty_result_def Let_def bindE_Inr_iff split: if_splits sum.splits prod.splits)
  have v: "validateAt C signer (LocalSessionID packet) peerAddress (RemoteSessionID packet) (Unix t')"
    using bucket_shift [OF assms(1,11,12), of C "res_clientSessionID r" peerAddress] r(1) assms(7,8)
    unfolding validateAt_iff by simp
  have "\<not> (Opcode packet = OpcodeControlHardResetClientV2 \<or> Opcode packet = OpcodeControlHardResetClientV3)"
    using assms(5)
    by (auto simp: OpcodeControlHardResetClientV2_def OpcodeControlHardResetClientV3_def OpcodeControlV1_def
        OpcodeAcknowledgmentV1_def OpcodeControlWKCv1_def)
  then show ?thesis
    using v r(2) assms(5-10) unfolding preDecryptUDPPacket_def assms(4) by (simp add: empty_result_def)
qed

theorem cookie_answer_accepted_witness:
  "\<exists>r'. preDecryptUDPPacket cookie_crypto (0, 0) sample_signer no_protection True sample_answer (Some sample_address)
       (30 * second) sample_policy = (Inr r', sample_policy) \<and> verdict r' = udpPreDecryptAccept"
proof -
  let ?run = "preDecryptUDPPacket cookie_crypto (0, 0) sample_signer no_protection True sample_reset (Some sample_address) 0 sample_policy"
  have "\<exists>r p. ?run = (Inr r, p) \<and> verdict r = udpPreDecryptChallenge \<and> res_clientSessionID r = [1, 2, 3, 4, 5, 6, 7, 8] \<and>
      res_serverSessionID r = replicate 8 1"
    unfolding preDecryptUDPPacket_def sample_decoded
    by (simp add: zero_packet_def opcode_values zero_session_id_def SessionIDLength_def validateInitialClientReset_def
        allowInitialPacket_def sample_policy_def newServerResourcePolicy_def defaultServerInitialConnectFrequency_def
        empty_result_def deriveSessionIDAt_def cookie_crypto_def sample_signer_def encodeUDPPreDecryptPacket_def
        packet_Bytes_def IsControl_def challenge_packet_def bindE_def Let_def replicate_8)
  then obtain r p where r: "?run = (Inr r, p)" "verdict r = udpPreDecryptChallenge"
    "res_clientSessionID r = [1, 2, 3, 4, 5, 6, 7, 8]" "res_serverSessionID r = replicate 8 1" by blast
  have "Unix 0 \<le> Unix (30 * second)" "Unix (30 * second) \<le> Unix 0 + 60" by (simp_all add: Unix_def second_def)
  from cookie_answer_accepted [OF _ r(1,2) sample_decoded(2) _ _ _ _ _ _ this] r(3,4) show ?thesis
    by (fastforce simp: sample_signer_def answer_packet_def zero_packet_def opcode_values zero_session_id_def SessionIDLength_def replicate_8)
qed

end
