(* ===== verification/Session_Registry.thy ===== *)
theory Session_Registry
  imports Udp_Admission
begin

text \<open>
  The session registry of the TLS server, server_tls.go and server_identity.go: the maps from peer
  names, identities, peer ids and source addresses to sessions, how sessions enter and leave them,
  how they move between addresses, and how a datagram finds its session. A session is a reference;
  what the registry reads of the sessions is in \<open>sess\<close>. Every operation is one critical section of
  \<open>sessionAccess\<close>; addresses are their text forms.
\<close>

section \<open>State\<close>

record tlsClientCertificateIdentity =
  commonName :: string
  hashes :: "bytes list"

type_synonym ref = nat

record tlsServerSession =
  peerAddress :: string
  remoteSessionID :: session_id
  udp_remote :: "string option"
  resourceReservation :: bool
  serverPeerID :: u32
  peerIDAssigned :: bool
  lockedCertificateIdentity :: "tlsClientCertificateIdentity option"
  authenticatedUsername :: string
  authenticatedUsernameSet :: bool
  authenticatedIdentity :: string

datatype serverLifecycleState =
    serverLifecycleInitial | serverLifecycleStarting | serverLifecycleRunning | serverLifecycleClosing | serverLifecycleClosed

record tlsServer =
  sessionByPeer :: "string \<rightharpoonup> ref"
  sessionByIdentity :: "string \<rightharpoonup> ref"
  sessionByPeerID :: "u32 \<rightharpoonup> ref"
  udpSessionByAddress :: "string \<rightharpoonup> ref"
  udpInitialSessionByAddress :: "string \<rightharpoonup> ref"
  lifecycleState :: serverLifecycleState
  sessionCounter :: u64
  resourcePolicy :: serverResourcePolicy
  sess :: "ref \<Rightarrow> tlsServerSession"

definition upd_session :: "ref \<Rightarrow> (tlsServerSession \<Rightarrow> tlsServerSession) \<Rightarrow> tlsServer \<Rightarrow> tlsServer" where
  "upd_session r f s = s\<lparr>sess := (sess s)(r := f (sess s r))\<rparr>"

text \<open>\<open>newSession\<close> and \<open>newUDPSession\<close>, as far as the registry sees the session.\<close>

definition newSession :: "session_id \<Rightarrow> string option \<Rightarrow> tlsServerSession" where
  "newSession sid remoteAddress = \<lparr>peerAddress = [], remoteSessionID = sid, udp_remote = remoteAddress, resourceReservation = False,
     serverPeerID = 0, peerIDAssigned = False, lockedCertificateIdentity = None, authenticatedUsername = [],
     authenticatedUsernameSet = False, authenticatedIdentity = []\<rparr>"

definition newTLSServer :: "ServerResourceOptions \<Rightarrow> tlsServer" where
  "newTLSServer options = \<lparr>sessionByPeer = Map.empty, sessionByIdentity = Map.empty, sessionByPeerID = Map.empty,
     udpSessionByAddress = Map.empty, udpInitialSessionByAddress = Map.empty, lifecycleState = serverLifecycleInitial,
     sessionCounter = 0, resourcePolicy = newServerResourcePolicy options, sess = (\<lambda>_. newSession zero_session_id None)\<rparr>"

section \<open>Identities\<close>

definition equalClientCertificateIdentity ::
  "tlsClientCertificateIdentity option \<Rightarrow> tlsClientCertificateIdentity option \<Rightarrow> bool" where
  "equalClientCertificateIdentity left right =
     (case (left, right) of
        (Some l, Some r) \<Rightarrow>
          if commonName l \<noteq> commonName r \<or> length (hashes l) \<noteq> length (hashes r) then False
          else list_all2 (=) (hashes l) (hashes r)
      | _ \<Rightarrow> left = None \<and> right = None)"

definition authenticatedIdentityKey :: "tlsServerSession \<Rightarrow> string" where
  "authenticatedIdentityKey s =
     (let byUsername = (if authenticatedUsernameSet s then ''username:'' @ authenticatedUsername s else [])
      in case lockedCertificateIdentity s of
           None \<Rightarrow> byUsername
         | Some identity \<Rightarrow>
             if commonName identity \<noteq> [] then ''x509-cn:'' @ commonName identity
             else if length (hashes identity) > 0 then ''x509-sha256:'' @ hex_EncodeToString (hashes identity ! 0)
             else byUsername)"

section \<open>Registration\<close>

definition evictSessionLocked :: "ref \<Rightarrow> tlsServer \<Rightarrow> tlsServer" where
  "evictSessionLocked r s =
     (let x = sess s r;
          s = (if sessionByPeer s (peerAddress x) = Some r then s\<lparr>sessionByPeer := (sessionByPeer s)(peerAddress x := None)\<rparr> else s);
          s = (if peerIDAssigned x \<and> sessionByPeerID s (serverPeerID x) = Some r
               then s\<lparr>sessionByPeerID := (sessionByPeerID s)(serverPeerID x := None)\<rparr> else s);
          s = (if authenticatedIdentity x \<noteq> [] \<and> sessionByIdentity s (authenticatedIdentity x) = Some r
               then s\<lparr>sessionByIdentity := (sessionByIdentity s)(authenticatedIdentity x := None)\<rparr> else s)
      in s\<lparr>udpSessionByAddress := (\<lambda>a. if udpSessionByAddress s a = Some r then None else udpSessionByAddress s a),
           udpInitialSessionByAddress := (\<lambda>a. if udpInitialSessionByAddress s a = Some r then None else udpInitialSessionByAddress s a)\<rparr>)"

definition unregisterSession :: "ref \<Rightarrow> tlsServer \<Rightarrow> tlsServer" where
  "unregisterSession r s = evictSessionLocked r s"

text \<open>\<open>fmt.Sprintf("%s#session=%d", ...)\<close> and the search for a free name.\<close>

definition session_name :: "string \<Rightarrow> u64 \<Rightarrow> string" where
  "session_name initialPeerAddress n = initialPeerAddress @ ''#session='' @ FormatUint (unat n)"

partial_function (option) free_name :: "(string \<rightharpoonup> ref) \<Rightarrow> string \<Rightarrow> u64 \<Rightarrow> (string \<times> u64) option" where
  "free_name byPeer initialPeerAddress counter =
     (let stablePeerAddress = session_name initialPeerAddress counter
      in if byPeer stablePeerAddress \<noteq> None then free_name byPeer initialPeerAddress (counter + 1)
         else Some (stablePeerAddress, counter))"

definition bindPeerAddressLocked :: "string \<Rightarrow> ref \<Rightarrow> tlsServer \<Rightarrow> tlsServer option" where
  "bindPeerAddressLocked initialPeerAddress r s =
     (case (if sessionByPeer s initialPeerAddress \<noteq> None \<and> sessionByPeer s initialPeerAddress \<noteq> Some r
            then free_name (sessionByPeer s) initialPeerAddress (sessionCounter s + 1)
            else Some (initialPeerAddress, sessionCounter s)) of
        None \<Rightarrow> None
      | Some (stablePeerAddress, counter) \<Rightarrow>
          let s = upd_session r (\<lambda>x. x\<lparr>peerAddress := stablePeerAddress\<rparr>) (s\<lparr>sessionCounter := counter\<rparr>)
          in Some (s\<lparr>sessionByPeer := (sessionByPeer s)(stablePeerAddress \<mapsto> r)\<rparr>))"

definition registerSession :: "string \<Rightarrow> ref \<Rightarrow> string option \<Rightarrow> tlsServer \<Rightarrow> (unit result \<times> tlsServer) option" where
  "registerSession initialPeerAddress r udpAddress s =
     (if initialPeerAddress = [] then Some (Inl (Sentinel ErrPeerNotFound), s)
      else if lifecycleState s \<noteq> serverLifecycleRunning then Some (Inl (Sentinel ErrServerClosed), s)
      else if (case udpAddress of None \<Rightarrow> False
               | Some a \<Rightarrow> udpSessionByAddress s a \<noteq> None \<and> udpSessionByAddress s a \<noteq> Some r)
      then Some (Inl (Sentinel ErrServerResourceLimit), s)
      else map_option (\<lambda>s. (Inr (), case udpAddress of None \<Rightarrow> s
                              | Some a \<Rightarrow> s\<lparr>udpSessionByAddress := (udpSessionByAddress s)(a \<mapsto> r)\<rparr>))
             (bindPeerAddressLocked initialPeerAddress r s))"

definition registerInitialSession ::
  "string \<Rightarrow> ref \<Rightarrow> string \<Rightarrow> tlsServer \<Rightarrow> (ref option result \<times> tlsServer) option" where
  "registerInitialSession initialPeerAddress r address s =
     (if initialPeerAddress = [] then Some (Inl (Sentinel ErrPeerNotFound), s)
      else if lifecycleState s \<noteq> serverLifecycleRunning then Some (Inl (Sentinel ErrServerClosed), s)
      else
        let displaced = (if udpInitialSessionByAddress s address = Some r then None else udpInitialSessionByAddress s address);
            s = (case displaced of None \<Rightarrow> s | Some d \<Rightarrow> evictSessionLocked d s)
        in map_option (\<lambda>s. (Inr displaced, s\<lparr>udpInitialSessionByAddress := (udpInitialSessionByAddress s)(address \<mapsto> r)\<rparr>))
             (bindPeerAddressLocked initialPeerAddress r s))"

text \<open>
  \<open>promoteInitialSession\<close> up to the point where it waits for the displaced session to finish; that
  session is returned.
\<close>

definition promoteInitialSession :: "ref \<Rightarrow> tlsServer \<Rightarrow> ref option result \<times> tlsServer" where
  "promoteInitialSession r s =
     (case udp_remote (sess s r) of
        None \<Rightarrow> (Inr None, s)
      | Some address \<Rightarrow>
          if udpInitialSessionByAddress s address \<noteq> Some r then (Inr None, s)
          else
            let s = s\<lparr>udpInitialSessionByAddress := (udpInitialSessionByAddress s)(address := None)\<rparr>;
                displaced = (if udpSessionByAddress s address = Some r then None else udpSessionByAddress s address);
                s = (case displaced of
                       None \<Rightarrow> s
                     | Some d \<Rightarrow>
                         let s = evictSessionLocked d s; reservation = resourceReservation (sess s d);
                             s = upd_session d (\<lambda>x. x\<lparr>resourceReservation := False\<rparr>) s
                         in upd_session r (\<lambda>x. x\<lparr>resourceReservation := reservation\<rparr>) s);
                s = s\<lparr>udpSessionByAddress := (udpSessionByAddress s)(address \<mapsto> r)\<rparr>
            in if \<not> resourceReservation (sess s r)
               then case reserveInstance (resourcePolicy s) of
                      (False, policy) \<Rightarrow> (Inl (Sentinel ErrServerResourceLimit), s\<lparr>resourcePolicy := policy\<rparr>)
                    | (True, policy) \<Rightarrow>
                        (Inr displaced, upd_session r (\<lambda>x. x\<lparr>resourceReservation := True\<rparr>) (s\<lparr>resourcePolicy := policy\<rparr>))
               else (Inr displaced, s))"

text \<open>\<open>registerAuthenticatedIdentity\<close> up to the point where it waits for the session it replaces.\<close>

definition registerAuthenticatedIdentity :: "bool \<Rightarrow> ref \<Rightarrow> tlsServer \<Rightarrow> ref option result \<times> tlsServer" where
  "registerAuthenticatedIdentity duplicateCN r s =
     (let identity = authenticatedIdentityKey (sess s r);
          s = upd_session r (\<lambda>x. x\<lparr>authenticatedIdentity := identity\<rparr>) s
      in if identity = [] \<or> duplicateCN then (Inr None, s)
         else if lifecycleState s \<noteq> serverLifecycleRunning then (Inl (Sentinel ErrServerClosed), s)
         else if sessionByPeer s (peerAddress (sess s r)) \<noteq> Some r then (Inl (Sentinel ErrPeerNotFound), s)
         else (Inr (if sessionByIdentity s identity = Some r then None else sessionByIdentity s identity),
               s\<lparr>sessionByIdentity := (sessionByIdentity s)(identity \<mapsto> r)\<rparr>))"

definition allocatePeerIDLocked :: "tlsServer \<Rightarrow> u32 option" where
  "allocatePeerIDLocked s =
     find (\<lambda>candidate. sessionByPeerID s candidate = None)
       (map of_nat [0..<unat (of_int (maxClients (resourcePolicy s)) :: u32)])"

definition enablePeerID :: "ref \<Rightarrow> tlsServer \<Rightarrow> unit result \<times> tlsServer" where
  "enablePeerID r s =
     (if lifecycleState s \<noteq> serverLifecycleRunning then (Inl (Sentinel ErrServerClosed), s)
      else if sessionByPeer s (peerAddress (sess s r)) \<noteq> Some r then (Inl (Sentinel ErrPeerNotFound), s)
      else if peerIDAssigned (sess s r) then (Inr (), s)
      else case allocatePeerIDLocked s of
             None \<Rightarrow> (Inl (Sentinel ErrServerResourceLimit), s)
           | Some peerID \<Rightarrow>
               let s = upd_session r (\<lambda>x. x\<lparr>serverPeerID := peerID, peerIDAssigned := True\<rparr>) s
               in (Inr (), s\<lparr>sessionByPeerID := (sessionByPeerID s)(peerID \<mapsto> r)\<rparr>))"

definition releaseResourceReservation :: "ref \<Rightarrow> tlsServer \<Rightarrow> tlsServer" where
  "releaseResourceReservation r s =
     (if resourceReservation (sess s r)
      then upd_session r (\<lambda>x. x\<lparr>resourceReservation := False\<rparr>) (s\<lparr>resourcePolicy := release (resourcePolicy s)\<rparr>)
      else s)"

text \<open>\<open>floatUDPSessionToSource\<close>: the displaced session, and whether the packet is kept.\<close>

definition floatUDPSessionToSource :: "ref \<Rightarrow> string \<Rightarrow> tlsServer \<Rightarrow> (ref option \<times> bool) \<times> tlsServer" where
  "floatUDPSessionToSource r newAddress s =
     (if sessionByPeer s (peerAddress (sess s r)) \<noteq> Some r then ((None, False), s)
      else if peerIDAssigned (sess s r) \<and> sessionByPeerID s (serverPeerID (sess s r)) \<noteq> Some r then ((None, False), s)
      else
        let existing = (if udpSessionByAddress s newAddress = Some r then None else udpSessionByAddress s newAddress)
        in if (case existing of None \<Rightarrow> False
               | Some e \<Rightarrow> \<not> equalClientCertificateIdentity (lockedCertificateIdentity (sess s e)) (lockedCertificateIdentity (sess s r)))
           then ((None, False), s)
           else
             let s = (case existing of None \<Rightarrow> s | Some e \<Rightarrow> evictSessionLocked e s);
                 s = s\<lparr>udpSessionByAddress := (\<lambda>a. if udpSessionByAddress s a = Some r \<and> a \<noteq> newAddress then None
                                                 else udpSessionByAddress s a)\<rparr>;
                 s = s\<lparr>udpSessionByAddress := (udpSessionByAddress s)(newAddress \<mapsto> r)\<rparr>
             in ((existing, True), upd_session r (\<lambda>x. x\<lparr>udp_remote := Some newAddress\<rparr>) s))"

section \<open>Finding the session of a datagram\<close>

definition peerIDMaxValue :: u32 where "peerIDMaxValue = 0xffffff"

definition udpDataV2PeerID :: "bytes \<Rightarrow> u32 option" where
  "udpDataV2PeerID rawPacket =
     (if length rawPacket < 4 \<or> drop_bit 3 (rawPacket ! 0) \<noteq> OpcodeDataV2 then None
      else
        let peerID = push_bit 16 (ucast (rawPacket ! 1)) OR push_bit 8 (ucast (rawPacket ! 2)) OR ucast (rawPacket ! 3) :: u32
        in if peerID = peerIDMaxValue then None else Some peerID)"

datatype udpPacketRoute = udpPacketDeliver ref | udpPacketUnbound | udpPacketInitialReset | udpPacketDrop

definition isControlOrAcknowledgmentOpcode :: "opcode \<Rightarrow> bool" where
  "isControlOrAcknowledgmentOpcode opcode \<longleftrightarrow> IsControl opcode \<or> opcode = OpcodeAcknowledgmentV1"

definition routeUDPPacketLocked :: "tlsServer \<Rightarrow> bytes \<Rightarrow> string \<Rightarrow> udpPacketRoute" where
  "routeUDPPacketLocked s rawPacket address =
     (if length rawPacket = 0 then udpPacketDrop
      else case udpDataV2PeerID rawPacket of
        Some peerID \<Rightarrow> (case sessionByPeerID s peerID of None \<Rightarrow> udpPacketDrop | Some r \<Rightarrow> udpPacketDeliver r)
      | None \<Rightarrow>
          let activeSession = udpSessionByAddress s address;
              initialSession = udpInitialSessionByAddress s address;
              opcode = drop_bit 3 (rawPacket ! 0)
          in if \<not> isControlOrAcknowledgmentOpcode opcode
             then (case activeSession of None \<Rightarrow> udpPacketDrop | Some r \<Rightarrow> udpPacketDeliver r)
             else if length rawPacket < tlsControlHeaderLength then udpPacketDrop
             else
               let clientSessionID = take 8 (drop 1 rawPacket);
                   owns = (\<lambda>m. case m of None \<Rightarrow> False | Some r \<Rightarrow> remoteSessionID (sess s r) = clientSessionID)
               in if owns initialSession then udpPacketDeliver (the initialSession)
                  else if owns activeSession then udpPacketDeliver (the activeSession)
                  else if activeSession = None \<and> initialSession = None then udpPacketUnbound
                  else if opcode = OpcodeControlHardResetClientV2 \<or> opcode = OpcodeControlHardResetClientV3
                  then udpPacketInitialReset else udpPacketDrop)"

fun findUDPPacketRoutes :: "tlsServer \<Rightarrow> bytes list \<Rightarrow> string list \<Rightarrow> udpPacketRoute list" where
  "findUDPPacketRoutes s (w # ws) (a # as) = routeUDPPacketLocked s w a # findUDPPacketRoutes s ws as"
| "findUDPPacketRoutes s _ _ = []"

section \<open>Finding a free name ends\<close>

lemma session_name_inj: "session_name a n = session_name a m \<Longrightarrow> n = m"
proof -
  assume "session_name a n = session_name a m"
  then have "parse_digits 0 (FormatUint (unat n)) = parse_digits 0 (FormatUint (unat m))" by (simp add: session_name_def)
  then show "n = m" by (simp add: word_unat_eq_iff)
qed

lemma free_name_steps:
  "byPeer (session_name a (c + of_nat k)) = None \<Longrightarrow> \<exists>n. free_name byPeer a c = Some (session_name a n, n) \<and> byPeer (session_name a n) = None"
proof (induction k arbitrary: c)
  case 0
  then show ?case by (subst free_name.simps) (auto simp: Let_def)
next
  case (Suc k)
  then show ?case
    using Suc.IH [of "c + 1"] by (cases "byPeer (session_name a c)") (subst free_name.simps, auto simp: Let_def add_ac)+
qed

lemma free_name_ends:
  assumes "finite (dom byPeer)" "card (dom byPeer) < 2 ^ 64"
  shows "\<exists>n. free_name byPeer a c = Some (session_name a n, n) \<and> byPeer (session_name a n) = None"
proof -
  have "\<exists>k. byPeer (session_name a (c + of_nat k)) = None"
  proof (rule ccontr)
    assume "\<nexists>k. byPeer (session_name a (c + of_nat k)) = None"
    then have all: "byPeer (session_name a (c + of_nat k)) \<noteq> None" for k :: nat by metis
    have "byPeer (session_name a n) \<noteq> None" for n :: u64
      using all [of "unat (n - c)"] by simp
    then have "range (session_name a) \<subseteq> dom byPeer" by auto
    then have "card (range (session_name a)) \<le> card (dom byPeer)" by (rule card_mono [OF assms(1)])
    moreover have "card (range (session_name a)) = card (UNIV :: u64 set)"
      by (rule card_image) (auto intro: injI session_name_inj)
    moreover have "card (UNIV :: u64 set) = 2 ^ 64" by (simp add: card_word)
    ultimately show False using assms(2) by simp
  qed
  then show ?thesis using free_name_steps by blast
qed

lemma free_name_free: "free_name byPeer a c = Some r \<Longrightarrow> byPeer (fst r) = None"
  by (erule free_name.raw_induct [where P = "\<lambda>byPeer _ _ r. byPeer (fst r) = None", rotated])
    (auto simp: Let_def split: if_splits)

section \<open>The invariant\<close>

definition registered :: "tlsServer \<Rightarrow> ref \<Rightarrow> bool" where
  "registered s r \<longleftrightarrow> sessionByPeer s (peerAddress (sess s r)) = Some r"

definition peers_ok :: "tlsServer \<Rightarrow> bool" where
  "peers_ok s \<longleftrightarrow> (\<forall>a r. sessionByPeer s a = Some r \<longrightarrow> a = peerAddress (sess s r)) \<and> finite (dom (sessionByPeer s))"

definition ids_ok :: "tlsServer \<Rightarrow> bool" where
  "ids_ok s \<longleftrightarrow> (\<forall>i r. sessionByPeerID s i = Some r \<longrightarrow> i = serverPeerID (sess s r) \<and> peerIDAssigned (sess s r) \<and>
     registered s r \<and> unat i < unat (of_int (maxClients (resourcePolicy s)) :: u32))"

definition identities_ok :: "tlsServer \<Rightarrow> bool" where
  "identities_ok s \<longleftrightarrow> (\<forall>i r. sessionByIdentity s i = Some r \<longrightarrow>
     i = authenticatedIdentity (sess s r) \<and> authenticatedIdentity (sess s r) \<noteq> [] \<and> registered s r)"

definition addresses_ok :: "tlsServer \<Rightarrow> bool" where
  "addresses_ok s \<longleftrightarrow>
     (\<forall>a r. udpSessionByAddress s a = Some r \<longrightarrow> udp_remote (sess s r) = Some a \<and> registered s r) \<and>
     (\<forall>a r. udpInitialSessionByAddress s a = Some r \<longrightarrow> registered s r \<and> \<not> resourceReservation (sess s r) \<and>
        (\<forall>b. udpInitialSessionByAddress s b = Some r \<longrightarrow> b = a))"

definition reservations_ok :: "tlsServer \<Rightarrow> bool" where
  "reservations_ok s \<longleftrightarrow> finite {r. resourceReservation (sess s r)} \<and>
     instances (resourcePolicy s) = int (card {r. resourceReservation (sess s r)}) \<and>
     instances (resourcePolicy s) \<le> max 0 (maxClients (resourcePolicy s))"

definition maps_ok :: "tlsServer \<Rightarrow> bool" where
  "maps_ok s \<longleftrightarrow> peers_ok s \<and> ids_ok s \<and> identities_ok s \<and> addresses_ok s"

definition registry_ok :: "tlsServer \<Rightarrow> bool" where
  "registry_ok s \<longleftrightarrow> maps_ok s \<and> reservations_ok s"

lemmas registry_parts = peers_ok_def ids_ok_def identities_ok_def addresses_ok_def

lemma upd_session_simps [simp]:
  "sessionByPeer (upd_session r f s) = sessionByPeer s" "sessionByIdentity (upd_session r f s) = sessionByIdentity s"
  "sessionByPeerID (upd_session r f s) = sessionByPeerID s" "udpSessionByAddress (upd_session r f s) = udpSessionByAddress s"
  "udpInitialSessionByAddress (upd_session r f s) = udpInitialSessionByAddress s"
  "lifecycleState (upd_session r f s) = lifecycleState s" "resourcePolicy (upd_session r f s) = resourcePolicy s"
  "sess (upd_session r f s) = (sess s)(r := f (sess s r))"
  by (simp_all add: upd_session_def)

lemma mapsD:
  assumes "maps_ok s"
  shows "sessionByPeer s a = Some r \<Longrightarrow> a = peerAddress (sess s r)"
    "sessionByPeerID s i = Some r \<Longrightarrow> i = serverPeerID (sess s r) \<and> peerIDAssigned (sess s r)"
    "sessionByIdentity s n = Some r \<Longrightarrow> n = authenticatedIdentity (sess s r) \<and> authenticatedIdentity (sess s r) \<noteq> []"
    "sessionByPeerID s i = Some r \<Longrightarrow> registered s r" "sessionByIdentity s n = Some r \<Longrightarrow> registered s r"
    "udpSessionByAddress s a = Some r \<Longrightarrow> registered s r" "udpInitialSessionByAddress s a = Some r \<Longrightarrow> registered s r"
    "udpSessionByAddress s a = Some r \<Longrightarrow> udp_remote (sess s r) = Some a"
    "udpInitialSessionByAddress s a = Some r \<Longrightarrow> \<not> resourceReservation (sess s r)"
    "udpInitialSessionByAddress s a = Some r \<Longrightarrow> udpInitialSessionByAddress s b = Some r \<Longrightarrow> b = a"
    "sessionByPeerID s i = Some r \<Longrightarrow> unat i < unat (of_int (maxClients (resourcePolicy s)) :: u32)"
  using assms unfolding maps_ok_def registry_parts by blast+

lemma mapsD_finite: "maps_ok s \<Longrightarrow> finite (dom (sessionByPeer s))"
  by (simp add: maps_ok_def peers_ok_def)

text \<open>The same clauses give the invariant.\<close>

lemma maps_okI:
  assumes "\<And>a r. sessionByPeer s a = Some r \<Longrightarrow> a = peerAddress (sess s r)"
    "\<And>i r. sessionByPeerID s i = Some r \<Longrightarrow> i = serverPeerID (sess s r) \<and> peerIDAssigned (sess s r) \<and> registered s r"
    "\<And>n r. sessionByIdentity s n = Some r \<Longrightarrow> n = authenticatedIdentity (sess s r) \<and> authenticatedIdentity (sess s r) \<noteq> [] \<and> registered s r"
    "\<And>a r. udpSessionByAddress s a = Some r \<Longrightarrow> udp_remote (sess s r) = Some a \<and> registered s r"
    "\<And>a r. udpInitialSessionByAddress s a = Some r \<Longrightarrow> registered s r \<and> \<not> resourceReservation (sess s r)"
    "\<And>a b r. udpInitialSessionByAddress s a = Some r \<Longrightarrow> udpInitialSessionByAddress s b = Some r \<Longrightarrow> b = a"
    "\<And>i r. sessionByPeerID s i = Some r \<Longrightarrow> unat i < unat (of_int (maxClients (resourcePolicy s)) :: u32)"
    "finite (dom (sessionByPeer s))"
  shows "maps_ok s"
  unfolding maps_ok_def registry_parts by (intro conjI allI impI; (rule assms(8))?; blast dest: assms(1-7))

lemma registered_update [simp]:
  "registered (s\<lparr>udpSessionByAddress := m\<rparr>) = registered s" "registered (s\<lparr>udpInitialSessionByAddress := m\<rparr>) = registered s"
  "registered (s\<lparr>sessionByIdentity := n\<rparr>) = registered s" "registered (s\<lparr>sessionByPeerID := i\<rparr>) = registered s"
  "registered (s\<lparr>resourcePolicy := p\<rparr>) = registered s" "registered (s\<lparr>lifecycleState := l\<rparr>) = registered s"
  by (simp_all add: registered_def fun_eq_iff)

lemma reservations_update [simp]:
  "reservations_ok (s\<lparr>udpSessionByAddress := m\<rparr>) = reservations_ok s" "reservations_ok (s\<lparr>udpInitialSessionByAddress := m\<rparr>) = reservations_ok s"
  "reservations_ok (s\<lparr>sessionByIdentity := n\<rparr>) = reservations_ok s" "reservations_ok (s\<lparr>sessionByPeerID := i\<rparr>) = reservations_ok s"
  "reservations_ok (s\<lparr>sessionByPeer := q\<rparr>) = reservations_ok s" "reservations_ok (s\<lparr>sessionCounter := c\<rparr>) = reservations_ok s"
  "reservations_ok (s\<lparr>lifecycleState := l\<rparr>) = reservations_ok s"
  by (simp_all add: reservations_ok_def)

text \<open>In a consistent registry, eviction removes every reference to the session and nothing else.\<close>

definition without :: "ref \<Rightarrow> ('k \<rightharpoonup> ref) \<Rightarrow> 'k \<rightharpoonup> ref" where
  "without d m = (\<lambda>k. if m k = Some d then None else m k)"

lemma without_Some [simp]: "without d m k = Some r \<longleftrightarrow> m k = Some r \<and> r \<noteq> d"
  by (auto simp: without_def)

lemma without_if:
  assumes "\<And>k. m k = Some d \<Longrightarrow> k = x \<and> g"
  shows "(if g \<and> m x = Some d then m(x := None) else m) = without d m"
proof
  fix k show "(if g \<and> m x = Some d then m(x := None) else m) k = without d m k"
  proof (cases "m k = Some d")
    case True
    then have "k = x" "g" using assms by blast+
    then show ?thesis using True by (simp add: without_def)
  qed (auto simp: without_def)
qed

lemma evict_fields:
  "sessionByPeer (evictSessionLocked d s) =
     (if True \<and> sessionByPeer s (peerAddress (sess s d)) = Some d
      then (sessionByPeer s)(peerAddress (sess s d) := None) else sessionByPeer s)"
  "sessionByPeerID (evictSessionLocked d s) =
     (if peerIDAssigned (sess s d) \<and> sessionByPeerID s (serverPeerID (sess s d)) = Some d
      then (sessionByPeerID s)(serverPeerID (sess s d) := None) else sessionByPeerID s)"
  "sessionByIdentity (evictSessionLocked d s) =
     (if authenticatedIdentity (sess s d) \<noteq> [] \<and> sessionByIdentity s (authenticatedIdentity (sess s d)) = Some d
      then (sessionByIdentity s)(authenticatedIdentity (sess s d) := None) else sessionByIdentity s)"
  by (auto simp: evictSessionLocked_def Let_def)

lemma evict_rest [simp]:
  "udpSessionByAddress (evictSessionLocked d s) = without d (udpSessionByAddress s)"
  "udpInitialSessionByAddress (evictSessionLocked d s) = without d (udpInitialSessionByAddress s)"
  "lifecycleState (evictSessionLocked d s) = lifecycleState s" "resourcePolicy (evictSessionLocked d s) = resourcePolicy s"
  "sess (evictSessionLocked d s) = sess s"
  by (simp_all add: evictSessionLocked_def Let_def without_def fun_eq_iff)

lemma evict_without:
  assumes "maps_ok s"
  shows "sessionByPeer (evictSessionLocked d s) = without d (sessionByPeer s)"
    "sessionByPeerID (evictSessionLocked d s) = without d (sessionByPeerID s)"
    "sessionByIdentity (evictSessionLocked d s) = without d (sessionByIdentity s)"
  unfolding evict_fields
  by (rule without_if, blast dest: mapsD [OF assms])+

lemma registered_evict [simp]:
  "maps_ok s \<Longrightarrow> registered (evictSessionLocked d s) r \<longleftrightarrow> registered s r \<and> r \<noteq> d"
  by (simp add: registered_def evict_without)

lemma reservations_evict [simp]: "reservations_ok (evictSessionLocked d s) = reservations_ok s"
  by (simp add: reservations_ok_def)

lemma finite_without: "finite (dom m) \<Longrightarrow> finite (dom (without d m))"
  by (rule finite_subset [of _ "dom m"]) auto

lemma evict_maps: "maps_ok s \<Longrightarrow> maps_ok (evictSessionLocked d s)"
  by (rule maps_okI) (auto simp: evict_without dest: mapsD intro: finite_without mapsD_finite)

section \<open>What keeps the invariant\<close>

text \<open>A registered session may take an address, an initial slot, a peer id or an identity that it claims.\<close>

lemma bind_address_maps:
  assumes "maps_ok s" "registered s r" "udp_remote (sess s r) = Some a"
  shows "maps_ok (s\<lparr>udpSessionByAddress := (udpSessionByAddress s)(a \<mapsto> r)\<rparr>)"
  by (rule maps_okI) (insert assms(2-), auto split: if_splits dest: mapsD [OF assms(1)] intro: mapsD_finite assms(1))

lemma bind_initial_maps:
  assumes "maps_ok s" "registered s r" "\<not> resourceReservation (sess s r)" "r \<notin> ran (udpInitialSessionByAddress s)"
  shows "maps_ok (s\<lparr>udpInitialSessionByAddress := (udpInitialSessionByAddress s)(a \<mapsto> r)\<rparr>)"
  by (rule maps_okI)
    (insert assms(2-), auto simp: ran_def split: if_splits dest: mapsD [OF assms(1)] intro: mapsD_finite assms(1))

lemma clear_initial_maps:
  assumes "maps_ok s"
  shows "maps_ok (s\<lparr>udpInitialSessionByAddress := (udpInitialSessionByAddress s)(a := None)\<rparr>)"
  by (rule maps_okI) (auto split: if_splits dest: mapsD [OF assms] intro: mapsD_finite assms(1))

lemma bind_id_maps:
  assumes "maps_ok s" "registered s r" "peerIDAssigned (sess s r)" "serverPeerID (sess s r) = i"
    "unat i < unat (of_int (maxClients (resourcePolicy s)) :: u32)"
  shows "maps_ok (s\<lparr>sessionByPeerID := (sessionByPeerID s)(i \<mapsto> r)\<rparr>)"
  by (rule maps_okI) (insert assms(2-), auto split: if_splits dest: mapsD [OF assms(1)] intro: mapsD_finite assms(1))

lemma bind_identity_maps:
  assumes "maps_ok s" "registered s r" "authenticatedIdentity (sess s r) = n" "n \<noteq> []"
  shows "maps_ok (s\<lparr>sessionByIdentity := (sessionByIdentity s)(n \<mapsto> r)\<rparr>)"
  by (rule maps_okI) (insert assms(2-), auto split: if_splits dest: mapsD [OF assms(1)] intro: mapsD_finite assms(1))

lemma registered_bind:
  "sessionByPeer s n = None \<Longrightarrow> registered s x \<Longrightarrow> registered (s\<lparr>sessionByPeer := (sessionByPeer s)(n \<mapsto> r)\<rparr>) x"
  by (auto simp: registered_def)

lemma bind_peer_maps:
  assumes "maps_ok s" "peerAddress (sess s r) = n" "sessionByPeer s n = None"
  shows "maps_ok (s\<lparr>sessionByPeer := (sessionByPeer s)(n \<mapsto> r)\<rparr>)"
  by (rule maps_okI)
    (insert assms(2-), auto split: if_splits dest: mapsD [OF assms(1)] intro: registered_bind mapsD_finite assms(1))

text \<open>A session may change in what the maps do not record of it.\<close>

lemma upd_maps:
  assumes ok: "maps_ok s"
    and keeps: "r \<in> ran (sessionByPeer s) \<Longrightarrow> peerAddress (f (sess s r)) = peerAddress (sess s r)"
      "r \<in> ran (sessionByPeerID s) \<Longrightarrow> serverPeerID (f (sess s r)) = serverPeerID (sess s r) \<and> peerIDAssigned (f (sess s r))"
      "r \<in> ran (sessionByIdentity s) \<Longrightarrow> authenticatedIdentity (f (sess s r)) = authenticatedIdentity (sess s r)"
      "r \<in> ran (udpSessionByAddress s) \<Longrightarrow> udp_remote (f (sess s r)) = udp_remote (sess s r)"
      "r \<in> ran (udpInitialSessionByAddress s) \<Longrightarrow> \<not> resourceReservation (f (sess s r))"
  shows "maps_ok (upd_session r f s)"
proof -
  have reg: "registered s x \<Longrightarrow> registered (upd_session r f s) x" for x
    using keeps(1) [OF ranI] by (cases "x = r") (auto simp: registered_def)
  have own: "sessionByPeer s a = Some r \<Longrightarrow> a = peerAddress (f (sess s r))"
    "sessionByPeerID s i = Some r \<Longrightarrow> i = serverPeerID (f (sess s r)) \<and> peerIDAssigned (f (sess s r))"
    "sessionByIdentity s n = Some r \<Longrightarrow> n = authenticatedIdentity (f (sess s r)) \<and> authenticatedIdentity (f (sess s r)) \<noteq> []"
    "udpSessionByAddress s a = Some r \<Longrightarrow> udp_remote (f (sess s r)) = Some a"
    "udpInitialSessionByAddress s a = Some r \<Longrightarrow> \<not> resourceReservation (f (sess s r))" for a i n
    using mapsD(1) [OF ok, of a r] mapsD(2) [OF ok, of i r] mapsD(3) [OF ok, of n r] mapsD(8) [OF ok, of a r] keeps [OF ranI]
    by simp_all
  show ?thesis
    by (rule maps_okI) (auto split: if_splits dest: mapsD [OF ok] own intro: reg mapsD_finite ok)
qed

lemma maps_update [simp]:
  "maps_ok (s\<lparr>lifecycleState := l\<rparr>) = maps_ok s" "maps_ok (s\<lparr>sessionCounter := c\<rparr>) = maps_ok s"
  "maxClients p = maxClients (resourcePolicy s) \<Longrightarrow> maps_ok (s\<lparr>resourcePolicy := p\<rparr>) = maps_ok s"
  by (simp_all add: maps_ok_def registry_parts registered_def)

text \<open>Reservations are counted one by one.\<close>

lemma reservations_same:
  "resourceReservation (f (sess s r)) = resourceReservation (sess s r) \<Longrightarrow> reservations_ok (upd_session r f s) = reservations_ok s"
proof -
  assume "resourceReservation (f (sess s r)) = resourceReservation (sess s r)"
  then have "{x. resourceReservation (sess (upd_session r f s) x)} = {x. resourceReservation (sess s x)}" by auto
  then show ?thesis by (simp only: reservations_ok_def upd_session_simps)
qed

lemma reserved_upd:
  "{x. resourceReservation (sess (upd_session r (\<lambda>y. y\<lparr>resourceReservation := b\<rparr>) s) x)} =
     (if b then insert r {x. resourceReservation (sess s x)} else {x. resourceReservation (sess s x)} - {r})"
  by auto

lemma reserve_reservations:
  assumes "reservations_ok s" "\<not> resourceReservation (sess s r)" "reserveInstance (resourcePolicy s) = (True, p)"
  shows "reservations_ok (upd_session r (\<lambda>y. y\<lparr>resourceReservation := True\<rparr>) (s\<lparr>resourcePolicy := p\<rparr>))"
  unfolding reservations_ok_def reserved_upd
  using assms by (auto simp: reservations_ok_def reserveInstance_def split: if_splits)

lemma release_reservations: "reservations_ok s \<Longrightarrow> reservations_ok (releaseResourceReservation r s)"
proof (cases "resourceReservation (sess s r)")
  case True
  assume ok: "reservations_ok s"
  then have "card {x. resourceReservation (sess s x)} = Suc (card ({x. resourceReservation (sess s x)} - {r}))"
    using True by (intro card.remove) (auto simp: reservations_ok_def)
  then have "reservations_ok (upd_session r (\<lambda>y. y\<lparr>resourceReservation := False\<rparr>) (s\<lparr>resourcePolicy := release (resourcePolicy s)\<rparr>))"
    unfolding reservations_ok_def reserved_upd using ok by (simp add: reservations_ok_def release_def)
  then show ?thesis using True by (simp add: releaseResourceReservation_def)
qed (simp add: releaseResourceReservation_def)

text \<open>\<open>promoteInitialSession\<close> hands the reservation of the displaced session over.\<close>

lemma move_reservations:
  assumes "reservations_ok s" "\<not> resourceReservation (sess s r)" "d \<noteq> r"
  shows "reservations_ok (upd_session r (\<lambda>y. y\<lparr>resourceReservation := resourceReservation (sess s d)\<rparr>)
    (upd_session d (\<lambda>y. y\<lparr>resourceReservation := False\<rparr>) s))"
proof (cases "resourceReservation (sess s d)")
  case True
  let ?R = "{x. resourceReservation (sess s x)}"
  have fin: "finite ?R" using assms(1) by (simp add: reservations_ok_def)
  have "card (insert r (?R - {d})) = card ?R"
    using True assms(2,3) fin by (simp add: card.insert_remove card_Diff_singleton card_gt_0_iff) (metis Suc_pred card_gt_0_iff empty_iff mem_Collect_eq)
  then show ?thesis using True assms(1) fin unfolding reservations_ok_def reserved_upd by simp
next
  case False
  have "{x. resourceReservation (sess s x)} - {d} - {r} = {x. resourceReservation (sess s x)}" using False assms(2) by auto
  then show ?thesis using False assms(1) unfolding reservations_ok_def reserved_upd by simp
qed

section \<open>Every operation keeps the invariant\<close>

text \<open>A session no map refers to.\<close>

definition unknown :: "tlsServer \<Rightarrow> ref \<Rightarrow> bool" where
  "unknown s r \<longleftrightarrow> r \<notin> ran (sessionByPeer s) \<and> r \<notin> ran (sessionByPeerID s) \<and> r \<notin> ran (sessionByIdentity s) \<and>
     r \<notin> ran (udpSessionByAddress s) \<and> r \<notin> ran (udpInitialSessionByAddress s)"

lemma registered_ran: "registered s r \<Longrightarrow> r \<in> ran (sessionByPeer s)"
  by (auto simp: registered_def intro: ranI)

lemma unknownI: "maps_ok s \<Longrightarrow> r \<notin> ran (sessionByPeer s) \<Longrightarrow> unknown s r"
  unfolding unknown_def by (auto simp: ran_def [of "sessionByPeerID s"] ran_def [of "sessionByIdentity s"]
    ran_def [of "udpSessionByAddress s"] ran_def [of "udpInitialSessionByAddress s"] dest: mapsD registered_ran)

lemma unknown_evict: "maps_ok s \<Longrightarrow> unknown (evictSessionLocked d s) d"
  by (simp add: unknown_def ran_def evict_without)

lemma unknown_evict_other: "maps_ok s \<Longrightarrow> unknown s r \<Longrightarrow> unknown (evictSessionLocked d s) r"
  by (simp add: unknown_def ran_def evict_without)

lemma unknown_upd [simp]: "unknown (upd_session r' f s) r = unknown s r"
  by (simp add: unknown_def)

lemma upd_unknown_maps: "maps_ok s \<Longrightarrow> unknown s r \<Longrightarrow> maps_ok (upd_session r f s)"
  by (rule upd_maps) (auto simp: unknown_def)

lemma bind_state:
  assumes "bindPeerAddressLocked a r s = Some s'" "maps_ok s" "unknown s r"
  obtains n c where "s' = (upd_session r (\<lambda>x. x\<lparr>peerAddress := n\<rparr>) (s\<lparr>sessionCounter := c\<rparr>))\<lparr>sessionByPeer := (sessionByPeer s)(n \<mapsto> r)\<rparr>"
    "sessionByPeer s n = None"
proof -
  have fresh: "sessionByPeer s x \<noteq> Some r" for x using assms(3) by (auto simp: unknown_def ran_def)
  show ?thesis
  proof (cases "sessionByPeer s a")
    case None
    then show ?thesis using assms(1) that [of a "sessionCounter s"] by (simp add: bindPeerAddressLocked_def Let_def)
  next
    case (Some x)
    then show ?thesis using assms(1) fresh [of a] that
      by (auto simp: bindPeerAddressLocked_def Let_def split: option.splits prod.splits dest!: free_name_free)
  qed
qed

lemma bind_maps:
  assumes "bindPeerAddressLocked a r s = Some s'" "maps_ok s" "unknown s r"
  shows "maps_ok s' \<and> registered s' r \<and> r \<notin> ran (udpInitialSessionByAddress s') \<and>
    udp_remote (sess s' r) = udp_remote (sess s r) \<and> resourceReservation (sess s' r) = resourceReservation (sess s r) \<and>
    reservations_ok s' = reservations_ok s"
proof -
  obtain n c where s': "s' = (upd_session r (\<lambda>x. x\<lparr>peerAddress := n\<rparr>) (s\<lparr>sessionCounter := c\<rparr>))\<lparr>sessionByPeer := (sessionByPeer s)(n \<mapsto> r)\<rparr>"
    and n: "sessionByPeer s n = None" using bind_state [OF assms] .
  let ?u = "upd_session r (\<lambda>x. x\<lparr>peerAddress := n\<rparr>) (s\<lparr>sessionCounter := c\<rparr>)"
  have "maps_ok ?u" using assms(2,3) by (intro upd_unknown_maps) (simp_all add: unknown_def)
  then have "maps_ok (?u\<lparr>sessionByPeer := (sessionByPeer ?u)(n \<mapsto> r)\<rparr>)" by (rule bind_peer_maps) (simp_all add: n)
  moreover have "reservations_ok ?u = reservations_ok s" by (subst reservations_same) simp_all
  ultimately show ?thesis using assms(3) unfolding s' by (simp add: registered_def unknown_def)
qed

lemma unregister_ok: "registry_ok s \<Longrightarrow> registry_ok (unregisterSession r s)"
  by (simp add: unregisterSession_def registry_ok_def evict_maps)

lemma release_ok: "registry_ok s \<Longrightarrow> registry_ok (releaseResourceReservation r s)"
  unfolding registry_ok_def
proof (elim conjE, intro conjI)
  assume "maps_ok s"
  then have "maps_ok (s\<lparr>resourcePolicy := release (resourcePolicy s)\<rparr>)" by (simp add: release_def)
  then have "maps_ok (upd_session r (\<lambda>x. x\<lparr>resourceReservation := False\<rparr>) (s\<lparr>resourcePolicy := release (resourcePolicy s)\<rparr>))"
    by (rule upd_maps) (auto simp: ran_def dest: mapsD [OF \<open>maps_ok s\<close>])
  then show "maps_ok (releaseResourceReservation r s)" using \<open>maps_ok s\<close> by (simp add: releaseResourceReservation_def)
qed (rule release_reservations)

lemma register_ok:
  assumes "registerSession a r (udp_remote (sess s r)) s = Some (res, s')" "registry_ok s" "unknown s r"
  shows "registry_ok s'"
proof (cases "s' = s")
  case False
  then obtain t where t: "bindPeerAddressLocked a r s = Some t"
    and s': "s' = (case udp_remote (sess s r) of None \<Rightarrow> t | Some b \<Rightarrow> t\<lparr>udpSessionByAddress := (udpSessionByAddress t)(b \<mapsto> r)\<rparr>)"
    using assms(1) by (auto simp: registerSession_def split: if_splits)
  have "maps_ok t" "registered t r" "udp_remote (sess t r) = udp_remote (sess s r)" "reservations_ok t"
    using bind_maps [OF t] assms(2,3) by (simp_all add: registry_ok_def)
  then show ?thesis unfolding s' registry_ok_def by (auto intro: bind_address_maps split: option.splits)
qed (use assms in simp)

lemma register_initial_ok:
  assumes "registerInitialSession a r b s = Some (res, s')" "registry_ok s" "unknown s r" "\<not> resourceReservation (sess s r)"
  shows "registry_ok s'"
proof (cases "s' = s")
  case False
  define displaced where "displaced = (if udpInitialSessionByAddress s b = Some r then None else udpInitialSessionByAddress s b)"
  define u where "u = (case displaced of None \<Rightarrow> s | Some d \<Rightarrow> evictSessionLocked d s)"
  have u: "maps_ok u" "unknown u r" "sess u = sess s" "reservations_ok u"
    using assms(2,3) unfolding u_def registry_ok_def by (auto simp: evict_maps unknown_evict_other split: option.splits)
  obtain t where t: "bindPeerAddressLocked a r u = Some t"
    and s': "s' = t\<lparr>udpInitialSessionByAddress := (udpInitialSessionByAddress t)(b \<mapsto> r)\<rparr>"
    using assms(1) False by (auto simp: registerInitialSession_def u_def displaced_def Let_def split: if_splits)
  show ?thesis
    using bind_maps [OF t u(1,2)] u(3,4) assms(4) unfolding s' registry_ok_def by (auto intro: bind_initial_maps)
qed (use assms in simp)

lemma identity_ok:
  assumes "registry_ok s" "authenticatedIdentity (sess s r) \<in> {[], authenticatedIdentityKey (sess s r)}"
  shows "registry_ok (snd (registerAuthenticatedIdentity duplicateCN r s))"
proof -
  let ?k = "authenticatedIdentityKey (sess s r)"
  let ?u = "upd_session r (\<lambda>x. x\<lparr>authenticatedIdentity := ?k\<rparr>) s"
  have ok: "maps_ok s" using assms(1) by (simp add: registry_ok_def)
  have "r \<in> ran (sessionByIdentity s) \<Longrightarrow> authenticatedIdentity (sess s r) \<noteq> []" by (auto simp: ran_def dest: mapsD [OF ok])
  then have u: "maps_ok ?u"
    using assms(2) by (intro upd_maps [OF ok]) (auto simp: ran_def dest: mapsD [OF ok])
  have r: "reservations_ok ?u" using assms(1) by (subst reservations_same) (simp_all add: registry_ok_def)
  have "maps_ok (?u\<lparr>sessionByIdentity := (sessionByIdentity ?u)(?k \<mapsto> r)\<rparr>)"
    if "?k \<noteq> []" "sessionByPeer s (peerAddress (sess s r)) = Some r"
    using that by (intro bind_identity_maps [OF u]) (simp_all add: registered_def)
  then show ?thesis using u r by (simp add: registerAuthenticatedIdentity_def registry_ok_def Let_def)
qed

lemma allocate_peer_id:
  assumes "allocatePeerIDLocked s = Some i"
  shows "sessionByPeerID s i = None" "unat i < unat (of_int (maxClients (resourcePolicy s)) :: u32)"
proof -
  let ?m = "unat (of_int (maxClients (resourcePolicy s)) :: u32)"
  obtain n where n: "n < ?m" "i = of_nat n" and "sessionByPeerID s i = None"
    using assms by (auto simp: allocatePeerIDLocked_def find_Some_iff)
  then show "sessionByPeerID s i = None" by simp
  have "?m < 2 ^ LENGTH(32)" by (rule unsigned_less)
  then have "n < 2 ^ LENGTH(32)" using n(1) by linarith
  then show "unat i < ?m" using n by (simp add: unat_of_nat)
qed

lemma enable_ok: "registry_ok s \<Longrightarrow> registry_ok (snd (enablePeerID r s))"
proof (cases "lifecycleState s = serverLifecycleRunning \<and> registered s r \<and> \<not> peerIDAssigned (sess s r) \<and> allocatePeerIDLocked s \<noteq> None")
  case True
  assume ok: "registry_ok s"
  then have m: "maps_ok s" by (simp add: registry_ok_def)
  obtain i where i: "allocatePeerIDLocked s = Some i" using True by auto
  let ?u = "upd_session r (\<lambda>x. x\<lparr>serverPeerID := i, peerIDAssigned := True\<rparr>) s"
  have "maps_ok ?u"
    using True m by (intro upd_maps [OF m]) (auto simp: ran_def dest: mapsD [OF m])
  then have "maps_ok (?u\<lparr>sessionByPeerID := (sessionByPeerID ?u)(i \<mapsto> r)\<rparr>)"
    by (rule bind_id_maps) (use True allocate_peer_id [OF i] in \<open>simp_all add: registered_def\<close>)
  moreover have "reservations_ok ?u" using ok by (subst reservations_same) (simp_all add: registry_ok_def)
  ultimately show ?thesis using True i by (simp add: enablePeerID_def registry_ok_def registered_def)
qed (auto simp: enablePeerID_def registered_def)

text \<open>The state of \<open>promoteInitialSession\<close> when the displaced session is out of the maps.\<close>

lemma displace_ok:
  assumes "registry_ok s" "registered s r" "\<not> resourceReservation (sess s r)" "r \<notin> ran (udpInitialSessionByAddress s)" "d \<noteq> r"
  defines "t \<equiv> upd_session r (\<lambda>y. y\<lparr>resourceReservation := resourceReservation (sess s d)\<rparr>)
    (upd_session d (\<lambda>y. y\<lparr>resourceReservation := False\<rparr>) (evictSessionLocked d s))"
  shows "registry_ok t" "registered t r" "udp_remote (sess t r) = udp_remote (sess s r)" "r \<notin> ran (udpInitialSessionByAddress t)"
proof -
  let ?e = "evictSessionLocked d s"
  have e: "maps_ok ?e" "registered ?e r" "reservations_ok ?e"
    using assms(1,2,5) by (simp_all add: registry_ok_def evict_maps)
  have m: "maps_ok (upd_session d (\<lambda>y. y\<lparr>resourceReservation := False\<rparr>) ?e)"
    using assms(1) by (intro upd_unknown_maps e) (simp add: unknown_evict registry_ok_def)
  show init: "r \<notin> ran (udpInitialSessionByAddress t)" using assms(4) by (auto simp: t_def ran_def)
  have "maps_ok t" unfolding t_def
    by (rule upd_maps [OF m]) (use init assms(5) in \<open>auto simp: t_def ran_def dest: mapsD(2) [OF e(1)]\<close>)
  moreover have "reservations_ok t" using move_reservations [OF e(3), of r d] assms(3,5) by (simp add: t_def)
  ultimately show "registry_ok t" by (simp add: registry_ok_def)
  show "registered t r" using e(2) assms(5) by (simp add: t_def registered_def)
  show "udp_remote (sess t r) = udp_remote (sess s r)" using assms(5) by (simp add: t_def)
qed

lemma take_address_ok:
  assumes "registry_ok t" "registered t r" "udp_remote (sess t r) = Some a" "r \<notin> ran (udpInitialSessionByAddress t)"
  defines "u \<equiv> t\<lparr>udpSessionByAddress := (udpSessionByAddress t)(a \<mapsto> r)\<rparr>"
  shows "registry_ok u"
    "reserveInstance (resourcePolicy u) = (b, p) \<Longrightarrow> \<not> resourceReservation (sess u r) \<Longrightarrow>
       (if b then registry_ok (upd_session r (\<lambda>x. x\<lparr>resourceReservation := True\<rparr>) (u\<lparr>resourcePolicy := p\<rparr>))
        else registry_ok (u\<lparr>resourcePolicy := p\<rparr>))"
proof -
  have m: "maps_ok u" using assms(1-3) unfolding u_def registry_ok_def by (blast intro: bind_address_maps)
  then show ok: "registry_ok u" using assms(1) by (simp add: registry_ok_def u_def)
  assume p: "reserveInstance (resourcePolicy u) = (b, p)" and n: "\<not> resourceReservation (sess u r)"
  have mp: "maps_ok (u\<lparr>resourcePolicy := p\<rparr>)"
    by (subst maps_update(3)) (use p m in \<open>auto simp: reserveInstance_def split: if_splits\<close>)
  have ru: "r \<notin> ran (udpInitialSessionByAddress u)" using assms(4) by (simp add: u_def)
  show "if b then registry_ok (upd_session r (\<lambda>x. x\<lparr>resourceReservation := True\<rparr>) (u\<lparr>resourcePolicy := p\<rparr>))
    else registry_ok (u\<lparr>resourcePolicy := p\<rparr>)"
  proof (cases b)
    case True
    have "maps_ok (upd_session r (\<lambda>x. x\<lparr>resourceReservation := True\<rparr>) (u\<lparr>resourcePolicy := p\<rparr>))"
      by (rule upd_maps [OF mp]) (use ru in \<open>auto simp: ran_def dest: mapsD(2) [OF m]\<close>)
    then show ?thesis using reserve_reservations [of u r p] ok n p True by (simp add: registry_ok_def)
  next
    case False
    then have "p = resourcePolicy u" using p by (simp add: reserveInstance_def split: if_splits)
    then show ?thesis using False ok by simp
  qed
qed

lemma promote_ok:
  assumes "registry_ok s"
  shows "registry_ok (snd (promoteInitialSession r s))"
proof (cases "\<exists>a. udp_remote (sess s r) = Some a \<and> udpInitialSessionByAddress s a = Some r")
  case True
  then obtain a where a: "udp_remote (sess s r) = Some a" "udpInitialSessionByAddress s a = Some r" by blast
  have m: "maps_ok s" using assms by (simp add: registry_ok_def)
  define v where "v = s\<lparr>udpInitialSessionByAddress := (udpInitialSessionByAddress s)(a := None)\<rparr>"
  have v: "registry_ok v" "registered v r" "\<not> resourceReservation (sess v r)" "udp_remote (sess v r) = Some a"
    using assms clear_initial_maps [OF m] a mapsD(7,9) [OF m a(2)] by (simp_all add: v_def registry_ok_def)
  have vi: "r \<notin> ran (udpInitialSessionByAddress v)"
    using mapsD(10) [OF m a(2)] by (auto simp: v_def ran_def)
  define displaced where "displaced = (if udpSessionByAddress v a = Some r then None else udpSessionByAddress v a)"
  define t where "t = (case displaced of None \<Rightarrow> v | Some d \<Rightarrow>
    upd_session r (\<lambda>y. y\<lparr>resourceReservation := resourceReservation (sess v d)\<rparr>)
      (upd_session d (\<lambda>y. y\<lparr>resourceReservation := False\<rparr>) (evictSessionLocked d v)))"
  have t: "registry_ok t" "registered t r" "udp_remote (sess t r) = Some a" "r \<notin> ran (udpInitialSessionByAddress t)"
    using v vi displace_ok [OF v(1-3) vi] unfolding t_def by (auto simp: displaced_def split: option.splits if_splits)
  have "snd (promoteInitialSession r s) =
    (let u = t\<lparr>udpSessionByAddress := (udpSessionByAddress t)(a \<mapsto> r)\<rparr>
     in if \<not> resourceReservation (sess u r)
        then case reserveInstance (resourcePolicy u) of (b, p) \<Rightarrow>
          if b then upd_session r (\<lambda>x. x\<lparr>resourceReservation := True\<rparr>) (u\<lparr>resourcePolicy := p\<rparr>) else u\<lparr>resourcePolicy := p\<rparr>
        else u)"
    unfolding promoteInitialSession_def a(1) t_def displaced_def v_def
    by (auto simp: a(2) Let_def split: option.splits prod.splits bool.splits if_splits)
  then show ?thesis using take_address_ok [OF t] by (auto simp: Let_def split: prod.splits if_splits)
qed (use assms in \<open>auto simp: promoteInitialSession_def split: option.splits\<close>)

lemma clear_addresses_maps:
  assumes "maps_ok s"
  shows "maps_ok (s\<lparr>udpSessionByAddress := without r (udpSessionByAddress s)\<rparr>)"
  by (rule maps_okI) (auto dest: mapsD [OF assms] intro: mapsD_finite assms)

lemma move_address_ok:
  assumes "registry_ok s" "registered s r"
  shows "registry_ok (upd_session r (\<lambda>x. x\<lparr>udp_remote := Some n\<rparr>)
    (s\<lparr>udpSessionByAddress := (\<lambda>a. if udpSessionByAddress s a = Some r \<and> a \<noteq> n then None else udpSessionByAddress s a)(n \<mapsto> r)\<rparr>))"
    (is "registry_ok ?t")
proof -
  have m: "maps_ok s" using assms(1) by (simp add: registry_ok_def)
  let ?w = "s\<lparr>udpSessionByAddress := without r (udpSessionByAddress s)\<rparr>"
  let ?u = "upd_session r (\<lambda>x. x\<lparr>udp_remote := Some n\<rparr>) ?w"
  have "maps_ok ?u"
    by (rule upd_maps [OF clear_addresses_maps [OF m]]) (auto simp: ran_def dest: mapsD(2,9) [OF m])
  then have "maps_ok (?u\<lparr>udpSessionByAddress := (udpSessionByAddress ?u)(n \<mapsto> r)\<rparr>)"
    by (rule bind_address_maps) (use assms(2) in \<open>simp_all add: registered_def\<close>)
  moreover have "?t = ?u\<lparr>udpSessionByAddress := (udpSessionByAddress ?u)(n \<mapsto> r)\<rparr>"
    by (auto simp: upd_session_def without_def fun_eq_iff)
  moreover have "reservations_ok ?t" using assms(1) by (subst reservations_same) (simp_all add: registry_ok_def)
  ultimately show ?thesis by (simp add: registry_ok_def)
qed

lemma float_ok:
  assumes "registry_ok s"
  shows "registry_ok (snd (floatUDPSessionToSource r n s))"
proof -
  define existing where "existing = (if udpSessionByAddress s n = Some r then None else udpSessionByAddress s n)"
  define u where "u = (case existing of None \<Rightarrow> s | Some e \<Rightarrow> evictSessionLocked e s)"
  have m: "maps_ok s" using assms by (simp add: registry_ok_def)
  have "registry_ok (upd_session r (\<lambda>x. x\<lparr>udp_remote := Some n\<rparr>)
    (u\<lparr>udpSessionByAddress := (\<lambda>a. if udpSessionByAddress u a = Some r \<and> a \<noteq> n then None else udpSessionByAddress u a)(n \<mapsto> r)\<rparr>))"
    if "registered s r"
  proof (rule move_address_ok)
    show "registry_ok u" using assms unfolding u_def by (auto simp: registry_ok_def evict_maps split: option.splits)
    show "registered u r" using that m unfolding u_def existing_def by (auto split: option.splits if_splits)
  qed
  then show ?thesis
    using assms unfolding floatUDPSessionToSource_def u_def existing_def registered_def Let_def
    by (simp split: option.splits)
qed

end
