(* ===== verification/Data_Queue.thy ===== *)
theory Data_Queue
  imports Prelude "HOL-Library.Sublist"
begin

text \<open>
  The bounded packet queue of data_queue.go, a ring buffer with a wake channel of capacity one. A slot
  holding Go's zero value is \<open>None\<close>. Both callers create the queue with a positive capacity, which
  the invariant records.
\<close>

section \<open>Operations\<close>

definition dataPacketBatchSize :: nat where "dataPacketBatchSize = 64"
definition dataPacketQueueCapacity :: nat where "dataPacketQueueCapacity = 512"

record 'a dataPacketQueue =
  items :: "'a option list"
  head :: nat
  qlength :: nat
  wake :: bool

definition newDataPacketQueueWithCapacity :: "nat \<Rightarrow> 'a dataPacketQueue" where
  "newDataPacketQueueWithCapacity capacity = \<lparr>items = replicate capacity None, head = 0, qlength = 0, wake = False\<rparr>"

text \<open>A send on the full channel is skipped.\<close>

definition signal :: "'a dataPacketQueue \<Rightarrow> 'a dataPacketQueue" where
  "signal q = q\<lparr>wake := True\<rparr>"

definition append_item :: "'a \<Rightarrow> 'a dataPacketQueue \<Rightarrow> 'a dataPacketQueue" where
  "append_item x q =
     (let tail = (head q + qlength q) mod length (items q)
      in q\<lparr>items := (items q)[tail := Some x], qlength := qlength q + 1\<rparr>)"

definition drop_head :: "'a dataPacketQueue \<Rightarrow> 'a option \<times> 'a dataPacketQueue" where
  "drop_head q =
     (items q ! head q,
      q\<lparr>items := (items q)[head q := None], head := (head q + 1) mod length (items q), qlength := qlength q - 1\<rparr>)"

text \<open>The loop of \<open>PushBatch\<close>, with the items it releases.\<close>

fun push_loop :: "'a list \<Rightarrow> 'a dataPacketQueue \<Rightarrow> 'a option list \<times> 'a dataPacketQueue" where
  "push_loop [] q = ([], q)"
| "push_loop (x # xs) q =
     (if qlength q = length (items q)
      then case drop_head q of (d, q) \<Rightarrow> case push_loop xs (append_item x q) of (ds, q) \<Rightarrow> (d # ds, q)
      else push_loop xs (append_item x q))"

definition PushBatch :: "'a list \<Rightarrow> 'a dataPacketQueue \<Rightarrow> ('a option list \<times> u64) \<times> 'a dataPacketQueue" where
  "PushBatch xs q =
     (if length xs = 0 then (([], 0), q)
      else
        let wasEmpty = qlength q = 0
        in case push_loop xs q of (released, q) \<Rightarrow>
             ((released, of_nat (length released)), if wasEmpty then signal q else q))"

definition PushBatchDropNew :: "'a list \<Rightarrow> 'a dataPacketQueue \<Rightarrow> ('a list \<times> u64) \<times> 'a dataPacketQueue" where
  "PushBatchDropNew xs q =
     (if length xs = 0 then (([], 0), q)
      else
        let wasEmpty = qlength q = 0;
            acceptedCount = min (length xs) (length (items q) - qlength q);
            q = fold append_item (take acceptedCount xs) q
        in ((drop acceptedCount xs, of_nat (length xs - acceptedCount)),
            if wasEmpty \<and> acceptedCount > 0 then signal q else q))"

text \<open>The number of items of the run that starts at the head.\<close>

fun run_count :: "('a option \<Rightarrow> 'a option \<Rightarrow> bool) \<Rightarrow> 'a dataPacketQueue \<Rightarrow> nat list \<Rightarrow> nat \<Rightarrow> nat" where
  "run_count sameRun q [] count = count"
| "run_count sameRun q (i # is) count =
     (if \<not> sameRun (items q ! head q) (items q ! ((head q + i) mod length (items q))) then i
      else run_count sameRun q is count)"

fun pop_loop :: "nat list \<Rightarrow> 'a dataPacketQueue \<Rightarrow> 'a option list \<times> 'a dataPacketQueue" where
  "pop_loop [] q = ([], q)"
| "pop_loop (i # is) q =
     (let index = (head q + i) mod length (items q)
      in case pop_loop is (q\<lparr>items := (items q)[index := None]\<rparr>) of (xs, q') \<Rightarrow> (items q ! index # xs, q'))"

definition Pop :: "int \<Rightarrow> ('a option \<Rightarrow> 'a option \<Rightarrow> bool) option \<Rightarrow> 'a dataPacketQueue \<Rightarrow> 'a option list \<times> 'a dataPacketQueue" where
  "Pop maxCount sameRun q =
     (let count = (if maxCount > 0 then min (qlength q) (nat maxCount) else qlength q)
      in if count = 0 then ([], q)
         else
           let count = (case sameRun of
                          Some f \<Rightarrow> if count > 1 then run_count f q [1..<count] count else count
                        | None \<Rightarrow> count)
           in case pop_loop [0..<count] q of (xs, q) \<Rightarrow>
                let q = q\<lparr>head := (head q + count) mod length (items q), qlength := qlength q - count\<rparr>
                in (xs, if qlength q > 0 then signal q else q))"

definition Drain :: "'a dataPacketQueue \<Rightarrow> 'a option list \<times> 'a dataPacketQueue" where
  "Drain q = Pop 0 None q"

section \<open>The queue as a list\<close>

definition slot :: "'a dataPacketQueue \<Rightarrow> nat \<Rightarrow> 'a option" where
  "slot q i = items q ! ((head q + i) mod length (items q))"

definition contents :: "'a dataPacketQueue \<Rightarrow> 'a list" where
  "contents q = map (\<lambda>i. the (slot q i)) [0..<qlength q]"

definition queue_ok :: "'a dataPacketQueue \<Rightarrow> bool" where
  "queue_ok q \<longleftrightarrow> head q < length (items q) \<and> qlength q \<le> length (items q) \<and>
     (\<forall>i < length (items q). slot q i = None \<longleftrightarrow> qlength q \<le> i)"

lemma new_queue: "0 < n \<Longrightarrow> queue_ok (newDataPacketQueueWithCapacity n) \<and> contents (newDataPacketQueueWithCapacity n) = []"
  by (simp add: newDataPacketQueueWithCapacity_def queue_ok_def contents_def slot_def)

lemma length_contents [simp]: "length (contents q) = qlength q"
  by (simp add: contents_def)

lemma contents_empty: "contents q = [] \<longleftrightarrow> qlength q = 0"
  by (simp add: contents_def)

lemma wake_update [simp]: "contents (q\<lparr>wake := b\<rparr>) = contents q" "queue_ok (q\<lparr>wake := b\<rparr>) = queue_ok q"
  by (simp_all add: contents_def queue_ok_def slot_def)

lemma signal_simps [simp]:
  "contents (signal q) = contents q" "queue_ok (signal q) = queue_ok q" "items (signal q) = items q" "qlength (signal q) = qlength q"
  "wake (signal q)" "head (signal q) = head q"
  by (simp_all add: signal_def contents_def queue_ok_def slot_def)

text \<open>Positions of the ring are distinct.\<close>

lemma ring_inj:
  assumes "i < n" "j < n" "(h + i) mod n = (h + j) mod (n :: nat)"
  shows "i = j"
proof -
  have less: False if "i < j" "j < n" "(h + i) mod n = (h + j) mod n" for i j
  proof -
    have "n dvd (h + j) - (h + i)" using that by (subst mod_eq_dvd_iff_nat [symmetric]) simp_all
    then show False using that by (auto dest: dvd_imp_le)
  qed
  show ?thesis using less [of i j] less [of j i] assms by (cases i j rule: linorder_cases) auto
qed

lemma slot_update:
  assumes "i < length (items q)" "j < length (items q)"
  shows "slot (q\<lparr>items := (items q)[(head q + i) mod length (items q) := v]\<rparr>) j = (if j = i then v else slot q j)"
proof -
  have "(head q + k) mod length (items q) < length (items q)" for k using assms(1) by (intro mod_less_divisor) linarith
  then show ?thesis using ring_inj [of i "length (items q)" j "head q"] assms by (auto simp: slot_def nth_list_update)
qed

lemma slot_shift:
  "slot (q\<lparr>head := (head q + c) mod length (items q), qlength := l\<rparr>) i = slot q (c + i)"
  by (simp add: slot_def mod_add_left_eq add.assoc)

lemma slot_wrap: "slot q (i + length (items q)) = slot q i"
  by (simp add: slot_def flip: add.assoc)

lemma contents_cong:
  "qlength p = qlength q \<Longrightarrow> (\<And>i. i < qlength q \<Longrightarrow> slot p i = slot q i) \<Longrightarrow> contents p = contents q"
  by (simp add: contents_def)

lemma append_item_ok:
  assumes "queue_ok q" "qlength q < length (items q)"
  shows "queue_ok (append_item x q)" "contents (append_item x q) = contents q @ [x]"
    "length (items (append_item x q)) = length (items q)" "qlength (append_item x q) = qlength q + 1" "wake (append_item x q) = wake q"
proof -
  have s: "slot (append_item x q) j = (if j = qlength q then Some x else slot q j)" if "j < length (items q)" for j
    using slot_update [OF assms(2) that, of "Some x"] by (simp add: append_item_def slot_def Let_def)
  show l: "length (items (append_item x q)) = length (items q)" "qlength (append_item x q) = qlength q + 1" "wake (append_item x q) = wake q"
    by (simp_all add: append_item_def Let_def)
  have h: "head (append_item x q) = head q" by (simp add: append_item_def Let_def)
  show "queue_ok (append_item x q)" using assms unfolding queue_ok_def l h by (auto simp: s)
  show "contents (append_item x q) = contents q @ [x]" using assms by (simp add: contents_def l s)
qed

lemma advance_ok:
  assumes "queue_ok q" "c \<le> qlength q"
    and "\<And>j. j < length (items q) \<Longrightarrow> slot p j = (if j < c then None else slot q j)"
    and p: "length (items p) = length (items q)" "head p = head q"
  defines "r \<equiv> p\<lparr>head := (head p + c) mod length (items p), qlength := qlength q - c\<rparr>"
  shows "queue_ok r" "contents r = drop c (contents q)"
proof -
  let ?n = "length (items q)"
  have c: "c \<le> ?n" "head q < ?n" "qlength q \<le> ?n" using assms(1,2) by (simp_all add: queue_ok_def)
  have r: "slot r i = (if c + i < ?n then slot q (c + i) else None)" if "i < ?n" for i
  proof (cases "c + i < ?n")
    case True
    then show ?thesis unfolding r_def slot_shift by (simp add: assms(3))
  next
    case False
    then have "slot r i = slot p (c + i - ?n)" unfolding r_def slot_shift using slot_wrap [of p "c + i - ?n"] p by simp
    also have "\<dots> = None" using False that c by (subst assms(3)) auto
    finally show ?thesis using False by simp
  qed
  have "(head q + c) mod ?n < ?n" using c(2) by (intro mod_less_divisor) linarith
  then have n: "length (items r) = ?n" "qlength r = qlength q - c" "head r < ?n" using p by (simp_all add: r_def)
  show "queue_ok r" using assms(1) n(3) unfolding queue_ok_def n(1,2) by (auto simp: r)
  show "contents r = drop c (contents q)"
  proof (rule nth_equalityI)
    fix i assume "i < length (contents r)"
    then have "i < qlength q - c" "c + i < ?n" "c + i < qlength q" using c assms(2) by (simp_all add: n)
    then show "contents r ! i = drop c (contents q) ! i" using assms(2) by (simp add: contents_def n r)
  qed (simp add: n)
qed

lemma drop_head_ok:
  assumes "queue_ok q" "0 < qlength q"
  shows "fst (drop_head q) = Some (hd (contents q))" "queue_ok (snd (drop_head q))" "contents (snd (drop_head q)) = tl (contents q)"
    "length (items (snd (drop_head q))) = length (items q)" "qlength (snd (drop_head q)) = qlength q - 1" "wake (snd (drop_head q)) = wake q"
proof -
  let ?n = "length (items q)" and ?p = "q\<lparr>items := (items q)[head q := None]\<rparr>"
  have n: "0 < ?n" "head q < ?n" using assms by (auto simp: queue_ok_def)
  have 0: "slot q 0 = items q ! head q" using n by (simp add: slot_def)
  moreover have "slot q 0 \<noteq> None" using assms n unfolding queue_ok_def by auto
  moreover have "contents q \<noteq> []" using assms(2) by (metis length_contents length_0_conv not_less0)
  then have "hd (contents q) = the (slot q 0)" using assms(2) by (simp add: hd_conv_nth) (simp add: contents_def)
  ultimately show "fst (drop_head q) = Some (hd (contents q))" by (auto simp: drop_head_def)
  have s: "slot ?p j = (if j < 1 then None else slot q j)" if "j < ?n" for j
    using slot_update [OF n(1) that, of None] n by simp
  have d: "snd (drop_head q) = ?p\<lparr>head := (head ?p + 1) mod length (items ?p), qlength := qlength q - 1\<rparr>"
    by (simp add: drop_head_def)
  show "queue_ok (snd (drop_head q))" "contents (snd (drop_head q)) = tl (contents q)"
    unfolding d using advance_ok [OF assms(1), of 1 ?p] assms(2) s by (simp_all add: drop_Suc)
  show "length (items (snd (drop_head q))) = ?n" "qlength (snd (drop_head q)) = qlength q - 1" "wake (snd (drop_head q)) = wake q"
    by (simp_all add: d)
qed

text \<open>What \<open>PushBatch\<close> promises: the newest items stay, the oldest are released in order.\<close>

lemma push_loop_ok:
  "queue_ok q \<Longrightarrow> push_loop xs q = (ds, q') \<Longrightarrow>
     queue_ok q' \<and> contents q' = drop (qlength q + length xs - length (items q)) (contents q @ xs) \<and>
     ds = map Some (take (qlength q + length xs - length (items q)) (contents q @ xs)) \<and>
     length (items q') = length (items q) \<and> wake q' = wake q"
proof (induction xs arbitrary: q ds)
  case (Cons x xs)
  show ?case
  proof (cases "qlength q = length (items q)")
    case True
    have pos: "0 < qlength q" using Cons.prems(1) True by (auto simp: queue_ok_def)
    let ?p = "snd (drop_head q)"
    note d = drop_head_ok [OF Cons.prems(1) pos]
    have a: "qlength ?p < length (items ?p)" using d(4,5) pos True by simp
    note b = append_item_ok [OF d(2) a, of x]
    obtain es where es: "push_loop xs (append_item x ?p) = (es, q')" "ds = Some (hd (contents q)) # es"
      using Cons.prems(2) True d(1) by (auto simp: case_prod_beta prod_eq_iff)
    obtain y ys where c: "contents q = y # ys" using pos by (cases "contents q") (metis length_contents list.size(3) less_irrefl)+
    show ?thesis using Cons.IH [OF b(1) es(1)] b d c es(2) pos True by simp
  next
    case False
    then have a: "qlength q < length (items q)" using Cons.prems(1) by (simp add: queue_ok_def)
    show ?thesis using Cons.IH [OF append_item_ok(1) [OF Cons.prems(1) a], of x ds] append_item_ok [OF Cons.prems(1) a, of x] Cons.prems(2) False
      by simp
  qed
qed (simp add: queue_ok_def)

lemma append_fold_ok:
  "queue_ok q \<Longrightarrow> qlength q + length xs \<le> length (items q) \<Longrightarrow>
     queue_ok (fold append_item xs q) \<and> contents (fold append_item xs q) = contents q @ xs \<and>
     length (items (fold append_item xs q)) = length (items q) \<and> wake (fold append_item xs q) = wake q"
proof (induction xs arbitrary: q)
  case (Cons x xs)
  then have "qlength q < length (items q)" by simp
  then show ?case using Cons.IH [of "append_item x q"] append_item_ok [OF Cons.prems(1), of x] Cons.prems(2) by simp
qed simp

lemma PushBatch_ok:
  assumes "queue_ok q" "PushBatch xs q = ((released, dropped), q')"
  shows "queue_ok q' \<and> contents q' = drop (qlength q + length xs - length (items q)) (contents q @ xs) \<and>
    released = map Some (take (qlength q + length xs - length (items q)) (contents q @ xs)) \<and>
    dropped = of_nat (qlength q + length xs - length (items q)) \<and>
    length (items q') = length (items q) \<and> (wake q' \<longleftrightarrow> wake q \<or> (qlength q = 0 \<and> xs \<noteq> []))"
proof (cases "xs = []")
  case True
  then show ?thesis using assms by (simp add: PushBatch_def queue_ok_def)
next
  case False
  obtain ds p where p: "push_loop xs q = (ds, p)" by fastforce
  have eq: "released = ds" "dropped = of_nat (length ds)" "q' = (if qlength q = 0 then signal p else p)"
    using assms(2) p False by (auto simp: PushBatch_def Let_def)
  have le: "qlength q + length xs - length (items q) \<le> qlength q + length xs" by simp
  note l = push_loop_ok [OF assms(1) p]
  then have "length ds = qlength q + length xs - length (items q)" by simp
  then show ?thesis using l False unfolding eq by simp
qed

lemma PushBatchDropNew_ok:
  assumes "queue_ok q" "PushBatchDropNew xs q = ((released, dropped), q')"
  shows "queue_ok q' \<and> contents q' = take (length (items q)) (contents q @ xs) \<and>
    released = drop (length (items q)) (contents q @ xs) \<and> dropped = of_nat (length released) \<and>
    length (items q') = length (items q) \<and> (wake q' \<longleftrightarrow> wake q \<or> (qlength q = 0 \<and> xs \<noteq> []))"
proof (cases "xs = []")
  case True
  then show ?thesis using assms by (simp add: PushBatchDropNew_def queue_ok_def)
next
  case False
  define n where "n = min (length xs) (length (items q) - qlength q)"
  have le: "qlength q \<le> length (items q)" "0 < length (items q)" using assms(1) by (auto simp: queue_ok_def)
  have "queue_ok (fold append_item (take n xs) q) \<and> contents (fold append_item (take n xs) q) = contents q @ take n xs \<and>
     length (items (fold append_item (take n xs) q)) = length (items q) \<and> wake (fold append_item (take n xs) q) = wake q"
    by (rule append_fold_ok) (use assms(1) le in \<open>auto simp: n_def\<close>)
  moreover have "PushBatchDropNew xs q = ((drop n xs, of_nat (length xs - n)),
      if qlength q = 0 \<and> 0 < n then signal (fold append_item (take n xs) q) else fold append_item (take n xs) q)"
    using False unfolding PushBatchDropNew_def Let_def n_def by simp
  then have "released = drop n xs" "dropped = of_nat (length (drop n xs))"
    "q' = (if qlength q = 0 \<and> 0 < n then signal (fold append_item (take n xs) q) else fold append_item (take n xs) q)"
    using assms(2) by simp_all
  moreover have "length xs - n = length xs + qlength q - length (items q)" using le by (auto simp: n_def)
  moreover have "take n xs = take (length (items q) - qlength q) xs" "drop n xs = drop (length (items q) - qlength q) xs"
    by (simp_all add: n_def min_def)
  moreover have "qlength q = 0 \<Longrightarrow> 0 < n" using False le by (simp add: n_def)
  ultimately show ?thesis using False le by auto
qed

section \<open>Taking packets\<close>

lemma pop_loop_ok:
  assumes "queue_ok q" "a + k \<le> length (items q)" "pop_loop [a..<a + k] q = (xs, q')"
  shows "xs = map (slot q) [a..<a + k] \<and> head q' = head q \<and> qlength q' = qlength q \<and> wake q' = wake q \<and>
    length (items q') = length (items q) \<and>
    (\<forall>j < length (items q). slot q' j = (if a \<le> j \<and> j < a + k then None else slot q j))"
  using assms(2,3)
proof (induction k arbitrary: a q xs)
  case (Suc k)
  let ?n = "length (items q)"
  let ?p = "q\<lparr>items := (items q)[(head q + a) mod ?n := None]\<rparr>"
  have u: "[a..<a + Suc k] = a # [Suc a..<Suc a + k]" by (simp add: upt_conv_Cons del: upt_Suc)
  obtain ys where ys: "pop_loop [Suc a..<Suc a + k] ?p = (ys, q')" "xs = slot q a # ys"
    using Suc.prems(2) unfolding u by (auto simp: Let_def slot_def simp del: upt_Suc split: prod.splits)
  have s: "slot ?p j = (if j = a then None else slot q j)" if "j < ?n" for j
    using slot_update [of a q j None] that Suc.prems(1) by simp
  from Suc.IH [of "Suc a" ?p ys] Suc.prems(1) ys(1) show ?case
    unfolding u using s ys(2) by (auto simp del: upt_Suc)
qed auto

lemma run_count_ok:
  "a \<le> n \<Longrightarrow> run_count f q [a..<n] n = c \<Longrightarrow> head q < length (items q) \<Longrightarrow>
     a \<le> c \<and> c \<le> n \<and> (\<forall>j \<in> {a..<c}. f (slot q 0) (slot q j)) \<and> (c < n \<longrightarrow> \<not> f (slot q 0) (slot q c))"
proof (induction "n - a" arbitrary: a)
  case (Suc k)
  then have u: "[a..<n] = a # [Suc a..<n]" by (simp add: upt_conv_Cons)
  have h: "items q ! head q = slot q 0" using Suc.prems(3) by (simp add: slot_def)
  show ?case
  proof (cases "f (slot q 0) (slot q a)")
    case True
    then have "run_count f q [Suc a..<n] n = c" using Suc.prems(2) unfolding u by (simp add: h flip: slot_def)
    then have "Suc a \<le> c \<and> c \<le> n \<and> (\<forall>j \<in> {Suc a..<c}. f (slot q 0) (slot q j)) \<and> (c < n \<longrightarrow> \<not> f (slot q 0) (slot q c))"
      using Suc.hyps(1) [of "Suc a"] Suc.hyps(2) Suc.prems(3) by simp
    moreover have "{a..<c} \<subseteq> insert a {Suc a..<c}" by auto
    ultimately show ?thesis using True by auto
  next
    case False
    then have "run_count f q [a..<n] n = a" unfolding u by (simp add: h flip: slot_def)
    then have "c = a" using Suc.prems(2) by simp
    then show ?thesis using False Suc.prems(1) by simp
  qed
qed auto

text \<open>\<open>Pop\<close> takes the oldest items, one run of them when asked to, and at least one when there is one.\<close>

lemma Pop_ok:
  assumes "queue_ok q" "Pop m f q = (xs, q')"
  obtains c where "xs = map Some (take c (contents q))" "contents q' = drop c (contents q)" "queue_ok q'"
    "length (items q') = length (items q)" "c \<le> qlength q" "c = 0 \<longleftrightarrow> qlength q = 0" "0 < m \<longrightarrow> int c \<le> m"
    "\<forall>g. f = Some g \<longrightarrow> (\<forall>j \<in> {1..<c}. g (slot q 0) (slot q j))" "wake q' \<longleftrightarrow> wake q \<or> c < qlength q"
proof -
  define n where "n = (if m > 0 then min (qlength q) (nat m) else qlength q)"
  have n: "n \<le> qlength q" "n = 0 \<longleftrightarrow> qlength q = 0" "0 < m \<longrightarrow> int n \<le> m" by (auto simp: n_def)
  have q: "head q < length (items q)" "qlength q \<le> length (items q)" using assms(1) by (simp_all add: queue_ok_def)
  show ?thesis
  proof (cases "n = 0")
    case True
    then have "xs = []" "q' = q" using assms(2) unfolding Pop_def Let_def n_def by auto
    then show ?thesis using that [of 0] assms(1) True n(2) by simp
  next
    case False
    define c where "c = (case f of Some g \<Rightarrow> if n > 1 then run_count g q [1..<n] n else n | None \<Rightarrow> n)"
    have c: "0 < c" "c \<le> n" "\<forall>g. f = Some g \<longrightarrow> (\<forall>j \<in> {1..<c}. g (slot q 0) (slot q j))"
    proof -
      have "0 < c \<and> c \<le> n \<and> (\<forall>j \<in> {1..<c}. g (slot q 0) (slot q j))" if "f = Some g" for g
      proof (cases "n > 1")
        case True
        then have "run_count g q [1..<n] n = c" using that by (simp add: c_def)
        then have "1 \<le> c \<and> c \<le> n \<and> (\<forall>j \<in> {1..<c}. g (slot q 0) (slot q j))"
          using run_count_ok [of 1 n g q c] True q(1) by simp
        then show ?thesis by simp
      qed (use False that in \<open>simp add: c_def\<close>)
      then show "\<forall>g. f = Some g \<longrightarrow> (\<forall>j \<in> {1..<c}. g (slot q 0) (slot q j))" "0 < c" "c \<le> n"
        using False by (blast, (cases f; force simp: c_def)+)
    qed
    obtain ys p where p: "pop_loop [0..<c] q = (ys, p)" by fastforce
    define r where "r = p\<lparr>head := (head p + c) mod length (items p), qlength := qlength p - c\<rparr>"
    have "Pop m f q = (ys, if qlength r > 0 then signal r else r)"
      using False p unfolding Pop_def Let_def n_def [symmetric] c_def [symmetric] r_def by simp
    then have eq: "xs = ys" "q' = (if qlength r > 0 then signal r else r)" using assms(2) by simp_all
    have cl: "c \<le> qlength q" "0 + c \<le> length (items q)" using c n q by linarith+
    note l = pop_loop_ok [OF assms(1) cl(2), of ys p] p
    have "slot p j = (if j < c then None else slot q j)" if "j < length (items q)" for j using l that by simp
    then have r: "queue_ok r" "contents r = drop c (contents q)"
      using advance_ok [OF assms(1) cl(1), of p] l by (simp_all add: r_def)
    have "slot q j = Some (the (slot q j))" if "j < c" for j
      using assms(1) that cl by (cases "slot q j") (auto simp: queue_ok_def)
    then have "ys = map Some (take c (contents q))"
      using l cl by (auto simp: contents_def take_map take_upt intro!: nth_equalityI)
    then have "xs = map Some (take c (contents q))" by (simp add: eq)
    moreover have "contents q' = drop c (contents q)" "queue_ok q'" using r by (simp_all add: eq)
    moreover have "length (items q') = length (items q)" "wake q' \<longleftrightarrow> wake q \<or> c < qlength q"
      using l by (auto simp: eq r_def)
    moreover have "c = 0 \<longleftrightarrow> qlength q = 0" "0 < m \<longrightarrow> int c \<le> m" using c n cl by auto
    ultimately show ?thesis using that [of c] cl(1) c(3) by blast
  qed
qed

section \<open>Producers and a consumer\<close>

text \<open>
  A queue in use: its state, whether its reader waits on the wake channel, what was pushed and what was
  taken. The reader takes packets until there are none, then waits for a signal or a timeout.
\<close>

inductive queue_step :: "'a dataPacketQueue \<times> bool \<times> 'a list \<times> 'a option list \<Rightarrow> 'a dataPacketQueue \<times> bool \<times> 'a list \<times> 'a option list \<Rightarrow> bool" where
  push: "PushBatch xs q = (d, q') \<Longrightarrow> queue_step (q, w, pushed, taken) (q', w, pushed @ xs, taken)"
| push_new: "PushBatchDropNew xs q = (d, q') \<Longrightarrow> queue_step (q, w, pushed, taken) (q', w, pushed @ xs, taken)"
| pop: "Pop m f q = (ys, q') \<Longrightarrow> queue_step (q, False, pushed, taken) (q', ys = [], pushed, taken @ ys)"
| woken: "wake q \<Longrightarrow> queue_step (q, True, pushed, taken) (q\<lparr>wake := False\<rparr>, False, pushed, taken)"
| timeout: "queue_step (q, True, pushed, taken) (q, False, pushed, taken)"

fun queue_inv :: "nat \<Rightarrow> 'a dataPacketQueue \<times> bool \<times> 'a list \<times> 'a option list \<Rightarrow> bool" where
  "queue_inv n (q, w, pushed, taken) \<longleftrightarrow> queue_ok q \<and> length (items q) = n \<and>
     subseq (taken @ map Some (contents q)) (map Some pushed) \<and> (w \<and> 0 < qlength q \<longrightarrow> wake q)"

lemma subseq_kept:
  assumes "subseq (t @ map Some c) (map Some p)" "subseq k (c @ xs)"
  shows "subseq (t @ map Some k) (map Some (p @ xs))"
proof -
  have "subseq (t @ map Some k) (t @ map Some (c @ xs))"
    by (intro list_emb_append_mono subseq_order.refl subseq_map assms)
  moreover have "subseq ((t @ map Some c) @ map Some xs) (map Some p @ map Some xs)" using assms(1) by (intro list_emb_append_mono) simp_all
  ultimately show ?thesis using subseq_order.trans by fastforce
qed

lemma queue_step_inv: "queue_step c c' \<Longrightarrow> queue_inv n c \<Longrightarrow> queue_inv n c'"
proof (induction rule: queue_step.induct)
  case (push xs q d q' w pushed taken)
  then have q: "queue_ok q" and sub: "subseq (taken @ map Some (contents q)) (map Some pushed)" by simp_all
  have o: "queue_ok q' \<and> contents q' = drop (qlength q + length xs - length (items q)) (contents q @ xs) \<and>
      length (items q') = length (items q) \<and> (wake q' \<longleftrightarrow> wake q \<or> (qlength q = 0 \<and> xs \<noteq> []))"
    using PushBatch_ok [OF q, of xs "fst d" "snd d" q'] push(1) by simp
  then have "subseq (contents q') (contents q @ xs)" using suffix_imp_subseq suffix_drop by metis
  then have "subseq (taken @ map Some (contents q')) (map Some (pushed @ xs))" by (rule subseq_kept [OF sub])
  moreover have "qlength q' = 0" if "qlength q = 0" "xs = []"
    using o that length_contents [of q'] by simp
  moreover have "queue_ok q'" "length (items q') = length (items q)" "wake q' \<longleftrightarrow> wake q \<or> (qlength q = 0 \<and> xs \<noteq> [])"
    using o by blast+
  ultimately show ?case using push.prems by auto
next
  case (push_new xs q d q' w pushed taken)
  then have q: "queue_ok q" and sub: "subseq (taken @ map Some (contents q)) (map Some pushed)" by simp_all
  have o: "queue_ok q' \<and> contents q' = take (length (items q)) (contents q @ xs) \<and>
      length (items q') = length (items q) \<and> (wake q' \<longleftrightarrow> wake q \<or> (qlength q = 0 \<and> xs \<noteq> []))"
    using PushBatchDropNew_ok [OF q, of xs "fst d" "snd d" q'] push_new(1) by simp
  then have "subseq (contents q') (contents q @ xs)" using prefix_imp_subseq take_is_prefix by metis
  then have "subseq (taken @ map Some (contents q')) (map Some (pushed @ xs))" by (rule subseq_kept [OF sub])
  moreover have "qlength q' = 0" if "qlength q = 0" "xs = []"
    using o that length_contents [of q'] by simp
  moreover have "queue_ok q'" "length (items q') = length (items q)" "wake q' \<longleftrightarrow> wake q \<or> (qlength q = 0 \<and> xs \<noteq> [])"
    using o by blast+
  ultimately show ?case using push_new.prems by auto
next
  case (pop m f q ys q' pushed taken)
  then have q: "queue_ok q" by simp
  show ?case
  proof (rule Pop_ok [OF q pop(1)])
    fix c assume c: "ys = map Some (take c (contents q))" "contents q' = drop c (contents q)" "queue_ok q'"
      "length (items q') = length (items q)" "c \<le> qlength q" "c = 0 \<longleftrightarrow> qlength q = 0"
    have "ys @ map Some (contents q') = map Some (contents q)" using c(1,2) by (metis append_take_drop_id map_append)
    moreover have "length ys = c" using c(1,5) by simp
    then have "ys = [] \<Longrightarrow> qlength q' = 0" using c(2,6) length_contents [of q'] by simp
    ultimately show ?thesis using pop.prems c(3,4) by auto
  qed
next
  case (woken q pushed taken)
  then show ?case by simp
next
  case (timeout q pushed taken)
  then show ?case by simp
qed

section \<open>Properties\<close>

text \<open>
  C36. The packet queue in use: whatever batches are pushed, under either policy, and however its reader
  takes them, the queue never holds more than its capacity, what the reader has taken followed by what
  is queued is a subsequence of what was pushed, so packets are lost but never reordered or repeated, and
  a reader that waits while packets are queued has a signal waiting for it.
\<close>

theorem packet_queue_in_use:
  assumes "0 < n" "queue_step\<^sup>*\<^sup>* (newDataPacketQueueWithCapacity n, False, [], []) (q, waiting, pushed, taken)"
  shows "qlength q \<le> n \<and> subseq (taken @ map Some (contents q)) (map Some pushed) \<and> (waiting \<and> contents q \<noteq> [] \<longrightarrow> wake q)"
proof -
  have "queue_inv n (q, waiting, pushed, taken)"
    using assms(2)
  proof (induction rule: rtranclp_induct)
    case base
    then show ?case using assms(1) by (simp add: new_queue) (simp add: newDataPacketQueueWithCapacity_def)
  next
    case (step c c')
    then show ?case using queue_step_inv by blast
  qed
  then show ?thesis by (simp add: queue_ok_def contents_empty)
qed

theorem packet_queue_in_use_witness:
  "let q = snd (PushBatch [1, 2, 3 :: nat] (newDataPacketQueueWithCapacity 2))
   in qlength q \<le> 2 \<and> subseq ([] @ map Some (contents q)) (map Some ([] @ [1, 2, 3])) \<and> (True \<and> contents q \<noteq> [] \<longrightarrow> wake q)"
proof -
  let ?q = "newDataPacketQueueWithCapacity 2 :: nat dataPacketQueue"
  have "Pop 0 None ?q = ([], ?q)" by (simp add: newDataPacketQueueWithCapacity_def Pop_def)
  from queue_step.pop [OF this] have "queue_step (?q, False, [], []) (?q, True, [], [])" by simp
  moreover have "queue_step (?q, True, [], []) (snd (PushBatch [1, 2, 3] ?q), True, [] @ [1, 2, 3], [])"
    by (rule queue_step.push [of _ _ "fst (PushBatch [1, 2, 3] ?q)"]) simp
  ultimately have "queue_step\<^sup>*\<^sup>* (?q, False, [], []) (snd (PushBatch [1, 2, 3] ?q), True, [] @ [1, 2, 3], [])"
    by (meson converse_rtranclp_into_rtranclp r_into_rtranclp)
  from packet_queue_in_use [OF _ this] show ?thesis unfolding Let_def by simp
qed

end
