(* ===== verification/Netip_Text.thy ===== *)
theory Netip_Text
  imports Netip Go_Strings
begin

text \<open>
  Addresses and prefixes as text: \<open>netip.ParseAddr\<close>, \<open>ParsePrefix\<close> and the \<open>String\<close> methods of Go's
  \<open>net/netip\<close>, the dotted masks of \<open>net\<close>, and the proofs that parsing undoes formatting. An IPv6
  address is handled as its eight 16-bit groups.
\<close>

section \<open>Digits of a number\<close>

fun digits :: "nat \<Rightarrow> nat \<Rightarrow> nat \<Rightarrow> nat list" where
  "digits b n 0 = []"
| "digits b n (Suc k) = digits b (n div b) k @ [n mod b]"

definition undigits :: "nat \<Rightarrow> nat list \<Rightarrow> nat" where
  "undigits b ds = foldl (\<lambda>a d. a * b + d) 0 ds"

lemma length_digits [simp]: "length (digits b n k) = k"
  by (induction k arbitrary: n) simp_all

lemma undigits_digits: "undigits b (digits b n k) = n mod b ^ k"
proof (induction k arbitrary: n)
  case (Suc k)
  have "undigits b (digits b n (Suc k)) = undigits b (digits b (n div b) k) * b + n mod b" by (simp add: undigits_def)
  also have "\<dots> = (n div b mod b ^ k) * b + n mod b" by (simp add: Suc.IH)
  also have "\<dots> = n mod b ^ Suc k" by (simp add: mod_mult2_eq mult.commute)
  finally show ?case .
qed (simp add: undigits_def)

lemma undigits_zeros: "undigits b (replicate n 0) = 0"
  by (induction n) (simp_all add: undigits_def)

lemma undigits_leading_zeros: "undigits b (replicate n 0 @ ds) = undigits b ds"
  by (induction n) (simp_all add: undigits_def)

lemma digits_less: "0 < b \<Longrightarrow> d \<in> set (digits b n k) \<Longrightarrow> d < b"
  by (induction k arbitrary: n) auto

section \<open>Formatting\<close>

definition octets :: "u32 \<Rightarrow> nat list" where "octets v = digits 256 (unat v) 4"
definition groups :: "u128 \<Rightarrow> nat list" where "groups v = digits 65536 (unat v) 8"

definition v4_text :: "u32 \<Rightarrow> string" where
  "v4_text v = str_Join (map FormatUint (octets v)) ''.''"

definition hex_nibble :: "nat \<Rightarrow> char" where
  "hex_nibble d = ''0123456789abcdef'' ! (d mod 16)"

definition appendHex :: "nat \<Rightarrow> string" where
  "appendHex x =
     (if x \<ge> 0x1000 then [hex_nibble (x div 0x1000)] else []) @ (if x \<ge> 0x100 then [hex_nibble (x div 0x100)] else []) @
     (if x \<ge> 0x10 then [hex_nibble (x div 0x10)] else []) @ [hex_nibble x]"

text \<open>The first longest run of at least two zero groups.\<close>

fun zero_run :: "nat list \<Rightarrow> nat list \<Rightarrow> nat \<times> nat \<Rightarrow> nat \<times> nat" where
  "zero_run gs [] best = best"
| "zero_run gs (i # is) (zeroStart, zeroEnd) =
     (let l = length (takeWhile ((=) 0) (drop i gs))
      in zero_run gs is (if l \<ge> 2 \<and> l > zeroEnd - zeroStart then (i, i + l) else (zeroStart, zeroEnd)))"

definition groups_text :: "nat list \<Rightarrow> string" where
  "groups_text gs =
     (case zero_run gs [0..<8] (255, 255) of (zeroStart, zeroEnd) \<Rightarrow>
        if zeroStart < 8
        then str_Join (map appendHex (take zeroStart gs)) '':'' @ ''::'' @ str_Join (map appendHex (drop zeroEnd gs)) '':''
        else str_Join (map appendHex gs) '':'')"

definition v6_text :: "u128 \<Rightarrow> string" where
  "v6_text v = groups_text (groups v)"

text \<open>An IPv4-mapped address is written with its IPv4 part in dotted form.\<close>

fun addr_text :: "addr \<Rightarrow> string" where
  "addr_text NoAddr = ''invalid IP''"
| "addr_text (V4 v) = v4_text v"
| "addr_text (V6 v zone) =
     (if is_4in6 v then ''::ffff:'' @ v4_text (ucast v) else v6_text v) @ (if zone \<noteq> [] then ''%'' @ zone else [])"

fun prefix_text :: "prefix \<Rightarrow> string" where
  "prefix_text NoPrefix = ''invalid Prefix''"
| "prefix_text (Prefix a b) = addr_text a @ ''/'' @ FormatUint b"

section \<open>Parsing\<close>

fun v4_fields :: "nat list \<Rightarrow> nat \<Rightarrow> nat \<Rightarrow> string \<Rightarrow> nat list result" where
  "v4_fields done val digLen [] = (if length done < 3 then Inl (New ''IPv4 address too short'') else Inr (done @ [val]))"
| "v4_fields done val digLen (c # s) =
     (if (48 :: nat) \<le> of_char c \<and> of_char c \<le> (57 :: nat) then
        if digLen = 1 \<and> val = 0 then Inl (New ''IPv4 field has octet with leading zero'')
        else let val = 10 * val + (of_char c - 48)
             in if val > 255 then Inl (New ''IPv4 field has value >255'') else v4_fields done val (digLen + 1) s
      else if c = CHR ''.'' then
        if digLen = 0 \<or> s = [] then Inl (New ''IPv4 field must have at least one digit'')
        else if length done = 3 then Inl (New ''IPv4 address too long'')
        else v4_fields (done @ [val]) 0 0 s
      else Inl (New ''unexpected character''))"

definition hex_value :: "char \<Rightarrow> nat option" where
  "hex_value c = map_option unat (hex_digit c)"

fun hex_group :: "nat \<Rightarrow> nat \<Rightarrow> string \<Rightarrow> (nat \<times> nat \<times> string) result" where
  "hex_group off acc [] = Inr (off, acc, [])"
| "hex_group off acc (c # s) =
     (case hex_value c of
        None \<Rightarrow> Inr (off, acc, c # s)
      | Some d \<Rightarrow> if off > 3 then Inl (New ''each group must have 4 or less digits'') else hex_group (off + 1) (16 * acc + d) s)"

text \<open>
  The loop over the groups: \<open>n\<close> more fit, \<open>gs\<close> are read, \<open>e\<close> is the position of the double colon.
\<close>

fun v6_loop :: "nat \<Rightarrow> nat list \<Rightarrow> nat option \<Rightarrow> string \<Rightarrow> (nat list \<times> nat option \<times> string) result" where
  "v6_loop 0 gs e s = Inr (gs, e, s)"
| "v6_loop (Suc n) gs e s =
     bindE (hex_group 0 0 s) (\<lambda>(off, acc, rest).
       if off = 0 then Inl (New ''each colon-separated field must have at least one digit'')
       else case rest of
         [] \<Rightarrow> Inr (gs @ [acc], e, [])
       | c # r \<Rightarrow>
           if c = CHR ''.'' then
             if e = None \<and> length gs \<noteq> 6 then Inl (New ''embedded IPv4 address must replace the final 2 fields of the address'')
             else if length gs > 6 then Inl (New ''too many hex fields to fit an embedded IPv4 at the end of the address'')
             else bindE (v4_fields [] 0 0 s) (\<lambda>f. Inr (gs @ [256 * f ! 0 + f ! 1, 256 * f ! 2 + f ! 3], e, []))
           else if c \<noteq> CHR '':'' then Inl (New ''unexpected character, want colon'')
           else case r of
             [] \<Rightarrow> Inl (New ''colon must be followed by more characters'')
           | d # r' \<Rightarrow>
               if d \<noteq> CHR '':'' then v6_loop n (gs @ [acc]) e r
               else if e \<noteq> None then Inl (New ''multiple :: in address'')
               else if r' = [] then Inr (gs @ [acc], Some (length gs + 1), [])
               else v6_loop n (gs @ [acc]) (Some (length gs + 1)) r')"

definition v6_finish :: "string \<Rightarrow> nat list \<times> nat option \<times> string \<Rightarrow> addr result" where
  "v6_finish zone r =
     (case r of (gs, e, s) \<Rightarrow>
        if s \<noteq> [] then Inl (New ''trailing garbage after address'')
        else if length gs < 8 then
          case e of
            None \<Rightarrow> Inl (New ''address string too short'')
          | Some k \<Rightarrow> Inr (V6 (of_nat (undigits 65536 (take k gs @ replicate (8 - length gs) 0 @ drop k gs))) zone)
        else if e \<noteq> None then Inl (New ''the :: must expand to at least one field of zeros'')
        else Inr (V6 (of_nat (undigits 65536 gs)) zone))"

definition parseIPv6 :: "string \<Rightarrow> addr result" where
  "parseIPv6 text =
     (let s = takeWhile (\<lambda>c. c \<noteq> CHR ''%'') text; rest = dropWhile (\<lambda>c. c \<noteq> CHR ''%'') text; zone = tl rest
      in if rest \<noteq> [] \<and> zone = [] then Inl (New ''zone must be a non-empty string'')
         else if HasPrefix s ''::''
         then if length s = 2 then Inr (V6 0 zone) else bindE (v6_loop 8 [] (Some 0) (drop 2 s)) (v6_finish zone)
         else bindE (v6_loop 8 [] None s) (v6_finish zone))"

definition parseIPv4 :: "string \<Rightarrow> addr result" where
  "parseIPv4 s = bindE (v4_fields [] 0 0 s) (\<lambda>f. Inr (V4 (of_nat (undigits 256 f))))"

definition ParseAddr :: "string \<Rightarrow> addr result" where
  "ParseAddr s =
     (case find (\<lambda>c. c \<in> {CHR ''.'', CHR '':'', CHR ''%''}) s of
        None \<Rightarrow> Inl (New ''unable to parse IP'')
      | Some c \<Rightarrow> if c = CHR ''.'' then parseIPv4 s else if c = CHR '':'' then parseIPv6 s else Inl (New ''missing IPv6 address''))"

fun addr_Zone_text :: "addr \<Rightarrow> string" where
  "addr_Zone_text (V6 _ zone) = zone"
| "addr_Zone_text _ = []"

text \<open>The text after the last slash, and the text before it.\<close>

definition ParsePrefix :: "string \<Rightarrow> prefix result" where
  "ParsePrefix s =
     (if CHR ''/'' \<notin> set s then Inl (New ''no slash'')
      else
        let bitsStr = rev (takeWhile (\<lambda>c. c \<noteq> CHR ''/'') (rev s)); host = take (length s - length bitsStr - 1) s
        in bindE (ParseAddr host) (\<lambda>ip.
             if Is6 ip \<and> addr_Zone_text ip \<noteq> [] then Inl (New ''IPv6 zones cannot be present in a prefix'')
             else if length bitsStr > 1 \<and> ((of_char (hd bitsStr) :: nat) < 49 \<or> (57 :: nat) < of_char (hd bitsStr))
             then Inl (New ''bad bits after slash'')
             else case Atoi bitsStr of
               Inl _ \<Rightarrow> Inl (New ''bad bits after slash'')
             | Inr b \<Rightarrow> if b < 0 \<or> b > int (BitLen ip) then Inl (New ''prefix length out of range'') else Inr (PrefixFrom ip b)))"

text \<open>An address with a port.\<close>

type_synonym addr_port = "addr \<times> nat"

fun addrport_text :: "addr_port \<Rightarrow> string" where
  "addrport_text (NoAddr, p) = ''invalid AddrPort''"
| "addrport_text (V4 v, p) = v4_text v @ '':'' @ FormatUint p"
| "addrport_text (V6 v zone, p) = ''['' @ addr_text (V6 v zone) @ '']:'' @ FormatUint p"

definition splitAddrPort :: "string \<Rightarrow> (string \<times> string \<times> bool) result" where
  "splitAddrPort s =
     (if CHR '':'' \<notin> set s then Inl (New ''not an ip:port'')
      else
        let port = rev (takeWhile (\<lambda>c. c \<noteq> CHR '':'') (rev s)); ip = take (length s - length port - 1) s
        in if ip = [] then Inl (New ''no IP'')
           else if port = [] then Inl (New ''no port'')
           else if hd ip = CHR ''['' then
             if length ip < 2 \<or> last ip \<noteq> CHR '']'' then Inl (New ''missing ]'') else Inr (butlast (tl ip), port, True)
           else Inr (ip, port, False))"

definition ParseAddrPort :: "string \<Rightarrow> addr_port result" where
  "ParseAddrPort s =
     bindE (splitAddrPort s) (\<lambda>(ip, port, v6).
       bindE (ParseUint port 16) (\<lambda>port16.
         bindE (ParseAddr ip) (\<lambda>a.
           if v6 \<and> Is4 a then Inl (New ''square brackets can only be used with IPv6 addresses'')
           else if \<not> v6 \<and> Is6 a then Inl (New ''IPv6 addresses must be surrounded by square brackets'')
           else Inr (a, port16))))"

text \<open>
  Masks: \<open>net.CIDRMask (n, 32)\<close>, \<open>net.IPv4Mask(...).Size\<close>, which finds the number of leading ones of a
  contiguous mask, and the IPv4 form of \<open>net.ParseIP\<close>.
\<close>

definition CIDRMask :: "nat \<Rightarrow> u32" where "CIDRMask n = - (2 ^ (32 - n))"

definition mask_Size :: "u32 \<Rightarrow> nat option" where
  "mask_Size v = find (\<lambda>n. CIDRMask n = v) [0..<33]"

definition ParseIP_To4 :: "string \<Rightarrow> u32 option" where
  "ParseIP_To4 s =
     (case ParseAddr s of
        Inr (V4 v) \<Rightarrow> Some v
      | Inr (V6 v zone) \<Rightarrow> if zone = [] \<and> is_4in6 v then Some (ucast v) else None
      | _ \<Rightarrow> None)"

section \<open>Parsing undoes formatting: IPv4\<close>

lemma of_char_dot: "(of_char CHR ''.'' :: nat) = 46" "(of_char CHR '':'' :: nat) = 58" "(of_char CHR ''%'' :: nat) = 37"
  by simp_all

lemma v4_fields_digit:
  "d < 10 \<Longrightarrow> \<not> (digLen = 1 \<and> val = 0) \<Longrightarrow> 10 * val + d \<le> 255 \<Longrightarrow>
     v4_fields done val digLen (digit_char d # s) = v4_fields done (10 * val + d) (digLen + 1) s"
  by (auto simp: Let_def)

lemma v4_fields_dot:
  "s \<noteq> [] \<Longrightarrow> 0 < digLen \<Longrightarrow> length done < 3 \<Longrightarrow> v4_fields done val digLen (CHR ''.'' # s) = v4_fields (done @ [val]) 0 0 s"
  by simp

lemma v4_fields_octet:
  assumes "n < 256"
  shows "v4_fields done 0 0 (FormatUint n @ s) = v4_fields done n (length (FormatUint n)) s"
proof -
  consider "n < 10" | "10 \<le> n" "n < 100" | "100 \<le> n" by linarith
  then show ?thesis
  proof cases
    case 1
    then have f: "FormatUint n = [digit_char n]" by (simp add: FormatUint.simps [of n])
    show ?thesis unfolding f using 1 assms v4_fields_digit [of n 0 0 "done" s] by (simp del: v4_fields.simps)
  next
    case 2
    then have d: "n div 10 \<noteq> 0" "n div 10 < 10" by auto
    then have f: "FormatUint n = [digit_char (n div 10), digit_char (n mod 10)]"
      using 2 by (simp add: FormatUint.simps [of n] FormatUint.simps [of "n div 10"])
    show ?thesis unfolding f using d assms by (simp add: v4_fields_digit del: v4_fields.simps)
  next
    case 3
    define x where "x = n div 10"
    have x: "10 \<le> x" "x < 26" "x div 10 \<noteq> 0" "x div 10 < 10" using 3 assms by (auto simp: x_def)
    then have f: "FormatUint n = [digit_char (x div 10), digit_char (x mod 10), digit_char (n mod 10)]"
      using 3 by (simp add: FormatUint.simps [of n] FormatUint.simps [of x] FormatUint.simps [of "x div 10"] flip: x_def)
    have e: "10 * (x div 10) + x mod 10 = x" "10 * x + n mod 10 = n" unfolding x_def by simp_all
    show ?thesis unfolding f using x e assms by (simp add: v4_fields_digit del: v4_fields.simps)
  qed
qed

lemma v4_parse:
  assumes "\<forall>n \<in> set [a, b, c, d]. n < 256"
  shows "v4_fields [] 0 0 (FormatUint a @ CHR ''.'' # FormatUint b @ CHR ''.'' # FormatUint c @ CHR ''.'' # FormatUint d) = Inr [a, b, c, d]"
proof -
  have l: "0 < length (FormatUint n)" for n by simp
  have d: "v4_fields dn 0 0 (FormatUint d) = v4_fields dn d (length (FormatUint d)) []" for dn
    using v4_fields_octet [of d dn "[]"] assms by simp
  show ?thesis using assms l d by (simp add: v4_fields_octet v4_fields_dot del: v4_fields.simps(2))
qed

lemma octets_cases: obtains a b c d where "octets v = [a, b, c, d]" "a < 256" "b < 256" "c < 256" "d < 256"
proof -
  have "length (octets v) = 4" "\<forall>n \<in> set (octets v). n < 256" by (auto simp: octets_def dest: digits_less [rotated])
  then show ?thesis using that by (auto simp: numeral_eq_Suc length_Suc_conv)
qed

lemma digits_chars:
  assumes "c \<in> set (FormatUint n)"
  shows "c \<noteq> CHR ''.''" "c \<noteq> CHR '':''" "c \<noteq> CHR ''%''" "c \<noteq> CHR ''/''" "c \<noteq> CHR '',''" "\<not> is_space c"
  using FormatUint_digits [OF assms] by (auto simp: is_space_def)

lemma find_first_dot: "\<forall>c \<in> set s. \<not> P c \<Longrightarrow> P x \<Longrightarrow> find P (s @ x # t) = Some x"
  by (induction s) auto

lemma ParseAddr_v4: "ParseAddr (v4_text v) = Inr (V4 v)"
proof -
  obtain a b c d where o: "octets v = [a, b, c, d]" "a < 256" "b < 256" "c < 256" "d < 256" by (rule octets_cases)
  have t: "v4_text v = FormatUint a @ CHR ''.'' # FormatUint b @ CHR ''.'' # FormatUint c @ CHR ''.'' # FormatUint d"
    by (simp add: v4_text_def o)
  have "undigits 256 [a, b, c, d] = unat v mod 256 ^ 4" using undigits_digits [of 256 "unat v" 4] by (simp add: o flip: octets_def)
  also have "\<dots> = unat v" using unsigned_less [of v, where ?'a = nat] by simp
  finally have "parseIPv4 (v4_text v) = Inr (V4 v)" unfolding t parseIPv4_def using v4_parse [of a b c d] o by simp
  moreover have "find (\<lambda>c. c \<in> {CHR ''.'', CHR '':'', CHR ''%''}) (v4_text v) = Some (CHR ''.'')"
    unfolding t by (rule find_first_dot) (use digits_chars in auto)
  ultimately show ?thesis by (simp add: ParseAddr_def)
qed

section \<open>Parsing undoes formatting: IPv6\<close>

lemma hex_value_nibble: "hex_value (hex_nibble d) = Some (d mod 16)"
  unfolding hex_value_def hex_nibble_def by (subst hex_digit_char) (simp_all add: unat_of_nat)

lemma hex_group_nibble:
  "off \<le> 3 \<Longrightarrow> hex_group off acc (hex_nibble d # s) = hex_group (off + 1) (16 * acc + d mod 16) s"
  by (simp add: hex_value_nibble)

definition no_hex :: "string \<Rightarrow> bool" where
  "no_hex s \<longleftrightarrow> s = [] \<or> hex_value (hd s) = None"

lemma hex_group_end: "no_hex s \<Longrightarrow> hex_group off acc s = Inr (off, acc, s)"
  by (cases s) (auto simp: no_hex_def)

lemma hex_group_append:
  assumes "g < 65536" "no_hex s"
  shows "hex_group 0 0 (appendHex g @ s) = Inr (length (appendHex g), g, s)"
proof -
  consider "g < 0x10" | "0x10 \<le> g" "g < 0x100" | "0x100 \<le> g" "g < 0x1000" | "0x1000 \<le> g" by linarith
  then show ?thesis
  proof cases
    case 1
    then show ?thesis by (simp add: appendHex_def hex_group_nibble hex_group_end assms(2) del: hex_group.simps)
  next
    case 2
    then have "g div 16 mod 16 = g div 16" by simp
    then show ?thesis using 2 by (simp add: appendHex_def hex_group_nibble hex_group_end assms(2) del: hex_group.simps)
  next
    case 3
    define x where "x = g div 16"
    have x: "x < 256" "g div 0x100 = x div 16" "16 * x + g mod 16 = g" using 3 by (auto simp: x_def div_mult2_eq [symmetric])
    have "g div 0x100 mod 16 = x div 16" "16 * (x div 16) + x mod 16 = x" using x by simp_all
    then show ?thesis using 3 x by (simp add: appendHex_def hex_group_nibble hex_group_end assms(2) x_def [symmetric] del: hex_group.simps)
  next
    case 4
    define x where "x = g div 16"
    define y where "y = x div 16"
    have x: "x < 4096" "16 * x + g mod 16 = g" "y < 256" "16 * y + x mod 16 = x" using assms(1) by (auto simp: x_def y_def)
    have y: "g div 0x100 = y" "g div 0x1000 = y div 16" by (simp_all add: x_def y_def div_mult2_eq [symmetric])
    have "y div 16 mod 16 = y div 16" "16 * (y div 16) + y mod 16 = y" using x by simp_all
    then show ?thesis using 4 x y by (simp add: appendHex_def hex_group_nibble hex_group_end assms(2) x_def [symmetric] del: hex_group.simps)
  qed
qed

lemma appendHex_neq [simp]: "appendHex g \<noteq> []" "0 < length (appendHex g)"
  by (simp_all add: appendHex_def)

lemma no_hex_colon [simp]: "no_hex (CHR '':'' # s)" "no_hex []"
  by (simp_all add: no_hex_def hex_value_def hex_digit_def)

lemma hex_nibble_chars: "hex_nibble d \<noteq> CHR '':''" "hex_nibble d \<noteq> CHR ''.''" "hex_nibble d \<noteq> CHR ''%''" "hex_nibble d \<noteq> CHR ''/''"
  "hex_nibble d \<noteq> CHR '',''" "\<not> is_space (hex_nibble d)"
proof -
  have "d mod 16 \<in> {0, 1, 2, 3, 4, 5, 6, 7, 8, 9, 10, 11, 12, 13, 14, 15}" by (rule nat_less_16) simp
  then show "hex_nibble d \<noteq> CHR '':''" "hex_nibble d \<noteq> CHR ''.''" "hex_nibble d \<noteq> CHR ''%''" "hex_nibble d \<noteq> CHR ''/''"
    "hex_nibble d \<noteq> CHR '',''" "\<not> is_space (hex_nibble d)"
    unfolding hex_nibble_def by (auto simp: is_space_def)
qed

lemma appendHex_chars:
  assumes "c \<in> set (appendHex g)"
  shows "c \<noteq> CHR '':''" "c \<noteq> CHR ''.''" "c \<noteq> CHR ''%''" "c \<noteq> CHR ''/''" "c \<noteq> CHR '',''" "\<not> is_space c"
proof -
  obtain d where "c = hex_nibble d" using assms by (auto simp: appendHex_def split: if_splits)
  then show "c \<noteq> CHR '':''" "c \<noteq> CHR ''.''" "c \<noteq> CHR ''%''" "c \<noteq> CHR ''/''" "c \<noteq> CHR '',''" "\<not> is_space c"
    using hex_nibble_chars by simp_all
qed

text \<open>One group, followed by a colon and another group, by a double colon, or by the end.\<close>

lemma hd_appendHex: "hd (appendHex g) \<noteq> CHR '':''"
  using appendHex_chars(1) [of "hd (appendHex g)" g] by auto

lemma v6_loop_group:
  assumes "g < 65536"
  shows "v6_loop (Suc n) gs e (appendHex g) = Inr (gs @ [g], e, [])"
    "r \<noteq> [] \<Longrightarrow> hd r \<noteq> CHR '':'' \<Longrightarrow> v6_loop (Suc n) gs e (appendHex g @ CHR '':'' # r) = v6_loop n (gs @ [g]) e r"
    "v6_loop (Suc n) gs None (appendHex g @ CHR '':'' # CHR '':'' # r) =
       (if r = [] then Inr (gs @ [g], Some (length gs + 1), []) else v6_loop n (gs @ [g]) (Some (length gs + 1)) r)"
  using hex_group_append [OF assms, of "[]"] hex_group_append [OF assms, of "CHR '':'' # r"]
    hex_group_append [OF assms, of "CHR '':'' # CHR '':'' # r"]
  by (auto simp del: hex_group.simps split: list.splits)

lemma v6_loop_groups:
  "hs \<noteq> [] \<Longrightarrow> \<forall>g \<in> set hs. g < 65536 \<Longrightarrow> length hs \<le> n \<Longrightarrow>
     v6_loop n gs e (str_Join (map appendHex hs) '':'') = Inr (gs @ hs, e, [])"
proof (induction hs arbitrary: n gs rule: induct_list012)
  case (2 g)
  then show ?case by (cases n) (simp_all add: v6_loop_group del: v6_loop.simps(2))
next
  case (3 g h hs)
  let ?r = "str_Join (map appendHex (h # hs)) '':''"
  have "?r \<noteq> []" "hd ?r \<noteq> CHR '':''" using hd_appendHex [of h] by (cases hs; simp)+
  then show ?case using 3 by (cases n) (simp_all add: v6_loop_group(2) del: v6_loop.simps(2))
qed simp

lemma v6_loop_ellipsis:
  "hs \<noteq> [] \<Longrightarrow> \<forall>g \<in> set (hs @ ks). g < 65536 \<Longrightarrow> length hs + length ks \<le> n \<Longrightarrow>
     v6_loop n gs None (str_Join (map appendHex hs) '':'' @ ''::'' @ str_Join (map appendHex ks) '':'') =
       Inr (gs @ hs @ ks, Some (length gs + length hs), [])"
proof (induction hs arbitrary: n gs rule: induct_list012)
  case (2 g)
  let ?r = "str_Join (map appendHex ks) '':''"
  have "?r = [] \<longleftrightarrow> ks = []" by (induction ks rule: induct_list012) simp_all
  then show ?case using 2 v6_loop_groups [of ks]
    by (cases n) (auto simp add: v6_loop_group(3) simp del: v6_loop.simps(2))
next
  case (3 g h hs)
  let ?r = "str_Join (map appendHex (h # hs)) '':'' @ ''::'' @ str_Join (map appendHex ks) '':''"
  have "?r \<noteq> []" "hd ?r \<noteq> CHR '':''" using hd_appendHex [of h] by (cases hs; simp)+
  then show ?case using 3 by (cases n) (simp_all add: v6_loop_group(2) del: v6_loop.simps(2))
qed simp

fun run_ok :: "nat list \<Rightarrow> nat \<times> nat \<Rightarrow> bool" where
  "run_ok gs (zeroStart, zeroEnd) \<longleftrightarrow>
     zeroStart = 255 \<or>
     zeroStart + 2 \<le> zeroEnd \<and> zeroEnd \<le> length gs \<and>
     gs = take zeroStart gs @ replicate (zeroEnd - zeroStart) 0 @ drop zeroEnd gs"

lemma takeWhile_zero: "takeWhile ((=) 0) xs = replicate (length (takeWhile ((=) (0 :: nat)) xs)) 0"
  by (induction xs) auto

lemma run_found:
  assumes "2 \<le> length (takeWhile ((=) 0) (drop i gs))"
  shows "run_ok gs (i, i + length (takeWhile ((=) 0) (drop i gs)))"
proof -
  define l where "l = length (takeWhile ((=) 0) (drop i gs))"
  have l: "l \<le> length gs - i" using length_takeWhile_le [of "(=) 0" "drop i gs"] by (simp add: l_def)
  have i: "i + l \<le> length gs" using assms l by (simp add: l_def [symmetric])
  have "drop i gs = take l (drop i gs) @ drop l (drop i gs)" by (rule append_take_drop_id [symmetric])
  moreover have "take l (drop i gs) = replicate l 0"
    unfolding l_def by (metis takeWhile_zero takeWhile_eq_take)
  ultimately have "drop i gs = replicate l 0 @ drop (i + l) gs" by (metis drop_drop add.commute)
  moreover have "gs = take i gs @ drop i gs" by simp
  ultimately have "gs = take i gs @ replicate l 0 @ drop (i + l) gs" by simp
  then have "run_ok gs (i, i + l)" using assms [folded l_def] i by simp
  then show ?thesis by (simp only: l_def)
qed

lemma run_ok_zero_run: "run_ok gs best \<Longrightarrow> run_ok gs (zero_run gs is best)"
proof (induction gs "is" best rule: zero_run.induct)
  case (2 gs i "is" zeroStart zeroEnd)
  then show ?case using run_found [of i gs] by (simp add: Let_def del: run_ok.simps)
qed simp

lemma length_groups [simp]: "length (groups v) = 8" "length (octets w) = 4"
  by (simp_all add: groups_def octets_def)

lemma groups_less: "g \<in> set (groups v) \<Longrightarrow> g < 65536"
  unfolding groups_def by (rule digits_less) simp_all

lemma undigits_groups: "of_nat (undigits 65536 (groups v)) = (v :: u128)"
proof -
  have "unat v < 2 ^ LENGTH(128)" by (rule unsigned_less)
  then have "unat v mod 65536 ^ 8 = unat v" by simp
  then show ?thesis by (simp add: groups_def undigits_digits)
qed

lemma join_chars:
  "c \<in> set (str_Join xs sep) \<Longrightarrow> (\<exists>x \<in> set xs. c \<in> set x) \<or> c \<in> set sep"
  by (induction xs sep rule: str_Join.induct) auto

lemma join_hex_chars: "c \<in> set (str_Join (map appendHex hs) '':'') \<Longrightarrow> c = CHR '':'' \<or> (\<exists>g. c \<in> set (appendHex g))"
  using join_chars [of c "map appendHex hs" "'':''"] by auto

lemma v6_text_chars:
  assumes "c \<in> set (groups_text gs)"
  shows "c \<noteq> CHR ''%''" "c \<noteq> CHR ''.''" "c \<noteq> CHR ''/''" "c \<noteq> CHR '',''" "\<not> is_space c"
proof -
  have "c = CHR '':'' \<or> (\<exists>g. c \<in> set (appendHex g))"
    using assms unfolding groups_text_def by (auto split: prod.splits if_splits dest!: join_hex_chars)
  then consider "c = CHR '':''" | g where "c \<in> set (appendHex g)" by auto
  then have "c \<noteq> CHR ''%'' \<and> c \<noteq> CHR ''.'' \<and> c \<noteq> CHR ''/'' \<and> c \<noteq> CHR '','' \<and> \<not> is_space c"
    by cases (simp add: is_space_def, simp add: appendHex_chars)
  then show "c \<noteq> CHR ''%''" "c \<noteq> CHR ''.''" "c \<noteq> CHR ''/''" "c \<noteq> CHR '',''" "\<not> is_space c" by simp_all
qed

lemma parseIPv6_no_zone:
  assumes "CHR ''%'' \<notin> set t"
  shows "parseIPv6 t =
    (if HasPrefix t ''::'' then if length t = 2 then Inr (V6 0 []) else bindE (v6_loop 8 [] (Some 0) (drop 2 t)) (v6_finish [])
     else bindE (v6_loop 8 [] None t) (v6_finish []))"
proof -
  have "takeWhile (\<lambda>c. c \<noteq> CHR ''%'') t = t" "dropWhile (\<lambda>c. c \<noteq> CHR ''%'') t = []"
    using assms by (auto simp: takeWhile_eq_all_conv dropWhile_eq_Nil_conv)
  then show ?thesis unfolding parseIPv6_def by (simp only: Let_def list.sel simp_thms if_False)
qed

lemma no_colons: "hs \<noteq> [] \<Longrightarrow> \<not> HasPrefix (str_Join (map appendHex hs) '':'' @ r) ''::''"
proof -
  assume "hs \<noteq> []"
  then obtain g hs' where h: "hs = g # hs'" by (cases hs) auto
  have "str_Join (map appendHex hs) '':'' @ r \<noteq> [] \<and> hd (str_Join (map appendHex hs) '':'' @ r) \<noteq> CHR '':''"
    using hd_appendHex [of g] unfolding h by (cases hs') simp_all
  then show ?thesis by (cases "str_Join (map appendHex hs) '':'' @ r") (simp_all add: HasPrefix_def)
qed

lemma parse_groups:
  assumes gs: "length gs = 8" "\<forall>g \<in> set gs. g < 65536"
  shows "parseIPv6 (groups_text gs) = Inr (V6 (of_nat (undigits 65536 gs)) [])"
proof -
  obtain s e where run: "zero_run gs [0..<8] (255, 255) = (s, e)" by (cases "zero_run gs [0..<8] (255, 255)")
  have ok: "run_ok gs (s, e)" using run_ok_zero_run [of gs "(255, 255)" "[0..<8]"] unfolding run by simp
  let ?t = "groups_text gs"
  note p = parseIPv6_no_zone [of ?t]
  have z: "CHR ''%'' \<notin> set ?t" using v6_text_chars(1) by auto
  show ?thesis
  proof (cases "s < 8")
    case False
    then have t: "?t = str_Join (map appendHex gs) '':''" by (simp add: groups_text_def run)
    have "gs \<noteq> []" using gs by auto
    then show ?thesis using no_colons [of gs "[]"] v6_loop_groups [of gs 8 "[]" None] gs
      unfolding p [OF z] unfolding t by (simp add: v6_finish_def)
  next
    case True
    let ?a = "take s gs" and ?b = "drop e gs"
    have t: "?t = str_Join (map appendHex ?a) '':'' @ ''::'' @ str_Join (map appendHex ?b) '':''"
      using True by (simp add: groups_text_def run)
    have se: "s + 2 \<le> e" "e \<le> 8" and d: "?a @ replicate (e - s) 0 @ ?b = gs" using ok True gs(1) by auto
    have m: "\<forall>g \<in> set (?a @ ?b). g < 65536" using gs(2) by (auto dest: in_set_takeD in_set_dropD)
    have n: "8 - (s + (8 - e)) = e - s" using se by simp
    have fin: "v6_finish [] (?a @ ?b, Some s, []) = Inr (V6 (of_nat (undigits 65536 gs)) [])"
      using se gs(1) n by (simp add: v6_finish_def d)
    show ?thesis
    proof (cases "s = 0")
      case False
      then have "?a \<noteq> []" using gs by auto
      then show ?thesis using no_colons [of ?a] v6_loop_ellipsis [of ?a ?b 8 "[]"] gs(1) se m fin
        unfolding p [OF z] unfolding t by simp
    next
      case s: True
      show ?thesis
      proof (cases "?b = []")
        case True
        then have "gs = replicate 8 0" using d s se gs(1) by simp
        then have u: "undigits 65536 gs = 0" by (simp add: undigits_zeros)
        show ?thesis using True s u unfolding p [OF z] unfolding t by (simp add: HasPrefix_def)
      next
        case False
        then have "str_Join (map appendHex ?b) '':'' \<noteq> []"
          using no_colons [of ?b "[]"] by (cases ?b rule: remdups_adj.cases) simp_all
        then show ?thesis using v6_loop_groups [of ?b 8 "[]" "Some 0"] False gs(1) se m fin s
          unfolding p [OF z] unfolding t by (simp add: HasPrefix_def)
      qed
    qed
  qed
qed

text \<open>The embedded IPv4 form of a mapped address.\<close>

lemma hex_value_digit:
  assumes "d < 10"
  shows "hex_value (digit_char d) = Some d"
proof -
  have "d \<in> {0, 1, 2, 3, 4, 5, 6, 7, 8, 9}" using assms by auto
  then show ?thesis by (auto simp: hex_value_def hex_digit_def digit_char_def)
qed

lemma hex_group_decimal:
  assumes "n < 256" "no_hex s"
  shows "\<exists>off acc. 0 < off \<and> hex_group 0 0 (FormatUint n @ s) = Inr (off, acc, s)"
proof -
  consider "n < 10" | "10 \<le> n" "n < 100" | "100 \<le> n" by linarith
  then show ?thesis
  proof cases
    case 1
    then show ?thesis by (simp add: FormatUint.simps [of n] hex_value_digit hex_group_end [OF assms(2)])
  next
    case 2
    then have "n div 10 < 10" "\<not> n < 10" by auto
    then show ?thesis
      by (simp add: FormatUint.simps [of n] FormatUint.simps [of "n div 10"] hex_value_digit hex_group_end [OF assms(2)])
  next
    case 3
    define x where "x = n div 10"
    have x: "\<not> x < 10" "x div 10 < 10" "\<not> n < 10" using 3 assms(1) by (auto simp: x_def)
    then have f: "FormatUint n = [digit_char (x div 10), digit_char (x mod 10), digit_char (n mod 10)]"
      by (simp add: FormatUint.simps [of n] FormatUint.simps [of x] FormatUint.simps [of "x div 10"] x_def [symmetric])
    show ?thesis unfolding f using x by (simp add: hex_value_digit hex_group_end [OF assms(2)])
  qed
qed

lemma v6_loop_v4:
  assumes "\<forall>n \<in> set [a, b, c, d]. n < 256" "length gs \<le> 6"
  shows "v6_loop (Suc n) gs (Some k) (FormatUint a @ CHR ''.'' # FormatUint b @ CHR ''.'' # FormatUint c @ CHR ''.'' # FormatUint d) =
    Inr (gs @ [256 * a + b, 256 * c + d], Some k, [])"
proof -
  let ?r = "CHR ''.'' # FormatUint b @ CHR ''.'' # FormatUint c @ CHR ''.'' # FormatUint d"
  have "a < 256" "no_hex ?r" using assms(1) by (simp_all add: no_hex_def hex_value_def hex_digit_def)
  then obtain off acc where "0 < off" "hex_group 0 0 (FormatUint a @ ?r) = Inr (off, acc, ?r)"
    using hex_group_decimal [of a ?r] by blast
  then show ?thesis using v4_parse [OF assms(1)] assms(2) by simp
qed

lemma mapped_value:
  assumes "is_4in6 v"
  shows "unat v = 0xffff * 2 ^ 32 + unat (ucast v :: u32)"
proof -
  have "unat (drop_bit 32 v) = drop_bit 32 (unat v)" by (rule unat_drop_bit_eq)
  also have "\<dots> = unat v div 2 ^ 32" by (rule drop_bit_eq_div)
  finally have "unat v = unat (drop_bit 32 v) * 2 ^ 32 + unat v mod 2 ^ 32" by (metis div_mult_mod_eq)
  moreover have "unat (ucast v :: u32) = unat v mod 2 ^ 32" by (simp add: unsigned_ucast_eq take_bit_eq_mod)
  ultimately show ?thesis using assms by (simp add: is_4in6_def)
qed

lemma parse_mapped:
  assumes "is_4in6 v"
  shows "parseIPv6 (''::ffff:'' @ v4_text (ucast v)) = Inr (V6 v [])"
proof -
  let ?w = "ucast v :: u32"
  obtain a b c d where o: "octets ?w = [a, b, c, d]" "a < 256" "b < 256" "c < 256" "d < 256" by (rule octets_cases)
  have t: "v4_text ?w = FormatUint a @ CHR ''.'' # FormatUint b @ CHR ''.'' # FormatUint c @ CHR ''.'' # FormatUint d"
    by (simp add: v4_text_def o)
  have "undigits 256 [a, b, c, d] = unat ?w mod 256 ^ 4" using undigits_digits [of 256 "unat ?w" 4] by (simp add: o octets_def [symmetric])
  also have "\<dots> = unat ?w" using unsigned_less [of ?w, where ?'a = nat] by simp
  finally have w: "((a * 256 + b) * 256 + c) * 256 + d = unat ?w" by (simp add: undigits_def)
  have u: "undigits 65536 (replicate 5 0 @ [0xffff, 256 * a + b, 256 * c + d]) = unat v"
    unfolding undigits_leading_zeros mapped_value [OF assms] w [symmetric] by (simp add: undigits_def)
  have h: "appendHex 0xffff = ''ffff''" by (simp add: appendHex_def hex_nibble_def)
  have ne: "FormatUint a @ r \<noteq> []" "hd (FormatUint a @ r) \<noteq> CHR '':''" for r
    using digits_chars(2) [of "hd (FormatUint a)" a] by (auto simp: hd_append)
  have z: "CHR ''%'' \<notin> set (''::ffff:'' @ v4_text ?w)" unfolding t using digits_chars(3) by auto
  have "v6_loop 8 [] (Some 0) (''ffff:'' @ v4_text ?w) = v6_loop 7 [0xffff] (Some 0) (v4_text ?w)"
    using v6_loop_group(2) [where g = "0xffff" and r = "v4_text ?w" and n = 7 and gs = "[]" and e = "Some 0"] ne unfolding h t by simp
  also have "\<dots> = Inr ([0xffff, 256 * a + b, 256 * c + d], Some 0, [])"
    unfolding t using v6_loop_v4 [where gs = "[0xffff]" and n = 6 and k = 0, of a b c d] o by simp
  finally have "parseIPv6 (''::ffff:'' @ v4_text ?w) = v6_finish [] ([0xffff, 256 * a + b, 256 * c + d], Some 0, [])"
    using parseIPv6_no_zone [OF z] by (simp add: HasPrefix_def)
  also have "\<dots> = Inr (V6 (of_nat (unat v)) [])"
    unfolding u [symmetric] by (simp add: v6_finish_def)
  finally show ?thesis by simp
qed

text \<open>The characters of an address without zone.\<close>

definition addr_char :: "char \<Rightarrow> bool" where
  "addr_char c \<longleftrightarrow> (of_char c :: nat) \<in> {46} \<union> {48..58} \<union> {97..102}"

lemma addr_char_hex: "c \<in> set (appendHex g) \<Longrightarrow> addr_char c"
proof -
  assume "c \<in> set (appendHex g)"
  then obtain d where d: "c = hex_nibble d" by (auto simp: appendHex_def split: if_splits)
  have "d mod 16 \<in> {0, 1, 2, 3, 4, 5, 6, 7, 8, 9, 10, 11, 12, 13, 14, 15}" by (rule nat_less_16) simp
  then show ?thesis unfolding d hex_nibble_def by (auto simp: addr_char_def)
qed

lemma addr_char_digit: "c \<in> set (FormatUint n) \<Longrightarrow> addr_char c"
  by (auto dest: FormatUint_digits simp: addr_char_def)

lemma addr_char_v4: "c \<in> set (v4_text v) \<Longrightarrow> addr_char c"
  unfolding v4_text_def by (auto dest!: join_chars addr_char_digit) (simp add: addr_char_def)

lemma addr_char_v6: "c \<in> set (v6_text v) \<Longrightarrow> addr_char c"
proof -
  assume "c \<in> set (v6_text v)"
  then have "c = CHR '':'' \<or> (\<exists>g. c \<in> set (appendHex g))"
    unfolding v6_text_def groups_text_def by (auto split: prod.splits if_splits dest!: join_hex_chars)
  then show ?thesis by (auto dest: addr_char_hex simp: addr_char_def)
qed

fun zone_free :: "addr \<Rightarrow> bool" where
  "zone_free (V6 _ zone) = (zone = [])"
| "zone_free _ = True"

lemma addr_text_chars:
  assumes "IsValid a" "zone_free a" "c \<in> set (addr_text a)"
  shows "addr_char c"
  using assms by (cases a) (auto split: if_splits dest: addr_char_v4 addr_char_v6 simp: addr_char_def)

section \<open>Parsing undoes formatting: addresses, prefixes, masks\<close>

lemma find_unique:
  assumes "x \<in> set s" "P x" "\<And>y. y \<in> set s \<Longrightarrow> P y \<Longrightarrow> y = x"
  shows "find P s = Some x"
proof -
  obtain i where "i < length s" "P (s ! i)" "find P s = Some (s ! i)"
    using assms(1,2) by (metis find_None_iff find_Some_iff option.exhaust)
  then show ?thesis using assms(3) [OF nth_mem] by metis
qed

lemma join_sep: "2 \<le> length xs \<Longrightarrow> c \<in> set (str_Join xs [c])"
  by (induction xs "[c]" rule: str_Join.induct) auto

lemma colon_in_text: "length gs = 8 \<Longrightarrow> CHR '':'' \<in> set (groups_text gs)"
  using join_sep [of "map appendHex gs" "CHR '':''"] by (cases "zero_run gs [0..<8] (255, 255)") (simp add: groups_text_def)

lemma ParseAddr_text: "IsValid a \<Longrightarrow> zone_free a \<Longrightarrow> ParseAddr (addr_text a) = Inr a"
proof (cases a)
  case (V6 v zone)
  assume "zone_free a"
  with V6 have z: "zone = []" by simp
  show ?thesis
  proof (cases "is_4in6 v")
    case True
    then show ?thesis using parse_mapped [OF True] V6 z by (simp add: ParseAddr_def)
  next
    case False
    have "find (\<lambda>c. c \<in> {CHR ''.'', CHR '':'', CHR ''%''}) (v6_text v) = Some (CHR '':'')"
      unfolding v6_text_def by (rule find_unique) (auto simp: colon_in_text dest: v6_text_chars)
    moreover have "parseIPv6 (v6_text v) = Inr (V6 v [])"
      unfolding v6_text_def using parse_groups [of "groups v"] groups_less by (simp add: undigits_groups)
    ultimately show ?thesis using False V6 z by (simp add: ParseAddr_def)
  qed
qed (simp_all add: ParseAddr_v4)

lemma after_last:
  assumes "c \<notin> set t"
  shows "rev (takeWhile (\<lambda>x. x \<noteq> c) (rev (s @ c # t))) = t"
proof -
  have "takeWhile (\<lambda>x. x \<noteq> c) (rev t @ c # rev s) = rev t" using assms by (subst takeWhile_append2) auto
  then show ?thesis by simp
qed

lemma FormatUint_first: "1 \<le> n \<Longrightarrow> (49 :: nat) \<le> of_char (hd (FormatUint n)) \<and> of_char (hd (FormatUint n)) \<le> (57 :: nat)"
proof (induction n rule: FormatUint.induct)
  case (1 n)
  then show ?case by (cases "n < 10") (simp_all add: FormatUint.simps [of n] hd_append)
qed

fun prefix_ok :: "prefix \<Rightarrow> bool" where
  "prefix_ok NoPrefix = False"
| "prefix_ok (Prefix a b) = (IsValid a \<and> zone_free a \<and> b \<le> BitLen a)"

lemma PrefixFrom_ok: "prefix_ok (Prefix a b) \<Longrightarrow> PrefixFrom a (int b) = Prefix a b"
  by (cases a) (auto simp: PrefixFrom_def)

lemma BitLen_bound: "BitLen a \<le> 128"
  by (cases a) simp_all

lemma ParsePrefix_text:
  assumes "prefix_ok p"
  shows "ParsePrefix (prefix_text p) = Inr p"
proof -
  obtain a b where p: "p = Prefix a b" "IsValid a" "zone_free a" "b \<le> BitLen a" using assms by (cases p) auto
  have s: "rev (takeWhile (\<lambda>c. c \<noteq> CHR ''/'') (rev (addr_text a @ ''/'' @ FormatUint b))) = FormatUint b"
    using after_last [of "CHR ''/''" "FormatUint b"] digits_chars(4) [of "CHR ''/''" b] by auto
  have z: "addr_Zone_text a = []" using p(3) by (cases a) simp_all
  have f: "length (FormatUint b) > 1 \<Longrightarrow> 1 \<le> b" by (cases b) (simp_all add: FormatUint.simps [of 0])
  have b: "Atoi (FormatUint b) = Inr (int b)" using BitLen_bound [of a] p(4) by (intro Atoi_FormatUint) simp
  show ?thesis unfolding p(1) ParsePrefix_def prefix_text.simps s Let_def
    using ParseAddr_text [OF p(2,3)] z b f FormatUint_first [of b] p PrefixFrom_ok [of a b] by auto
qed

lemma exp_inj:
  assumes "(2 :: u32) ^ i = 2 ^ j" "i \<le> 32" "j \<le> 32"
  shows "i = j"
proof -
  have "bit ((2 :: u32) ^ i) k = bit ((2 :: u32) ^ j) k" for k using assms(1) by simp
  from this [of i] this [of j] show ?thesis using assms(2,3) by (cases "i < 32"; cases "j < 32") (auto simp: bit_exp_iff)
qed

lemma mask_Size_CIDRMask:
  assumes "n \<le> 32"
  shows "mask_Size (CIDRMask n) = Some n"
  unfolding mask_Size_def
proof (rule find_unique)
  fix m assume "m \<in> set [0..<33]" "CIDRMask m = CIDRMask n"
  then have "m \<le> 32" "(2 :: u32) ^ (32 - m) = 2 ^ (32 - n)" by (auto simp: CIDRMask_def)
  then show "m = n" using assms exp_inj [of "32 - m" "32 - n"] by auto
qed (use assms in auto)

lemma ParseIP_mask: "ParseIP_To4 (v4_text v) = Some v"
  by (simp add: ParseIP_To4_def ParseAddr_v4)

lemma ParseAddrPort_text:
  assumes "IsValid a" "zone_free a" "p < 65536"
  shows "ParseAddrPort (addrport_text (a, p)) = Inr (a, p)"
proof -
  have c: "CHR '':'' \<notin> set (FormatUint p)" using digits_chars(2) by auto
  have n: "ParseUint (FormatUint p) 16 = Inr p" using assms(3) by (intro ParseUint_FormatUint) simp
  show ?thesis
  proof (cases a)
    case (V4 v)
    have s: "rev (takeWhile (\<lambda>c. c \<noteq> CHR '':'') (rev (v4_text v @ '':'' @ FormatUint p))) = FormatUint p"
      using after_last [OF c, of "v4_text v"] by simp
    have "v4_text v \<noteq> []" using ParseAddr_v4 [of v] by (auto simp: ParseAddr_def)
    moreover have "hd (v4_text v) \<noteq> CHR ''[''"
      using addr_char_v4 [of "hd (v4_text v)" v] calculation by (auto simp: addr_char_def)
    ultimately have "splitAddrPort (addrport_text (V4 v, p)) = Inr (v4_text v, FormatUint p, False)"
      unfolding splitAddrPort_def addrport_text.simps s Let_def by simp
    then show ?thesis using V4 n ParseAddr_v4 by (simp add: ParseAddrPort_def)
  next
    case (V6 v zone)
    let ?t = "addr_text (V6 v zone)"
    have s: "rev (takeWhile (\<lambda>c. c \<noteq> CHR '':'') (rev (''['' @ ?t @ '']:'' @ FormatUint p))) = FormatUint p"
      using after_last [OF c, of "''['' @ ?t @ '']''"] by simp
    have "splitAddrPort (addrport_text (V6 v zone, p)) = Inr (?t, FormatUint p, True)"
      unfolding splitAddrPort_def addrport_text.simps s Let_def by (simp add: butlast_append del: addr_text.simps)
    then show ?thesis using V6 n ParseAddr_text [OF assms(1,2)] by (simp add: ParseAddrPort_def)
  qed (use assms in simp)
qed

end
