(* ===== verification/Server_Listener.thy ===== *)
theory Server_Listener
  imports Session_Registry Data_Queue Netip_Text
begin

text \<open>
  The listener of the TLS server, server_listener.go, with the datagram side of the peer connections,
  udp_peer_conn.go: how a batch of datagrams is routed, which of them open sessions, and what the
  registry looks like in every state such operations reach. A new session is a reference \<open>r\<close> that the
  caller supplies, standing for the object Go allocates; addresses are given with their text forms.
\<close>

section \<open>Addresses as text\<close>

text \<open>\<open>net.IP.String\<close>, \<open>net.UDPAddr.String\<close> and \<open>net.JoinHostPort\<close>.\<close>

definition v6_groups :: "bytes \<Rightarrow> nat list" where
  "v6_groups ip = map (\<lambda>i. 256 * unat (ip ! (2 * i)) + unat (ip ! (2 * i + 1))) [0..<8]"

definition IP_String :: "bytes \<Rightarrow> string" where
  "IP_String ip =
     (if length ip = 0 then ''<nil>''
      else if length ip \<noteq> 4 \<and> length ip \<noteq> 16 then ''?'' @ hex_EncodeToString ip
      else case To4 ip of
             Some v4 \<Rightarrow> str_Join (map (\<lambda>b. FormatUint (unat b)) v4) ''.''
           | None \<Rightarrow> groups_text (v6_groups ip))"

definition JoinHostPort :: "string \<Rightarrow> string \<Rightarrow> string" where
  "JoinHostPort host port = (if CHR '':'' \<in> set host then ''['' @ host @ '']:'' @ port else host @ '':'' @ port)"

fun addr_String :: "net_addr \<Rightarrow> string" where
  "addr_String (UDPAddr ip port zone) =
     (let host = (if length ip = 0 then [] else IP_String ip)
      in JoinHostPort (if zone \<noteq> [] then host @ ''%'' @ zone else host) (Itoa port))"
| "addr_String (OtherAddr network text) = text"

fun addr_Network :: "net_addr \<Rightarrow> string" where
  "addr_Network (UDPAddr ip port zone) = ''udp''"
| "addr_Network (OtherAddr network text) = network"

section \<open>Peer connections\<close>

definition IP_Equal :: "bytes \<Rightarrow> bytes \<Rightarrow> bool" where
  "IP_Equal ip x =
     (if length ip = length x then ip = x
      else if length ip = 4 \<and> length x = 16 then take 12 x = v4_in_v6_prefix \<and> ip = drop 12 x
      else if length ip = 16 \<and> length x = 4 then take 12 ip = v4_in_v6_prefix \<and> drop 12 ip = x
      else False)"

definition equalPacketSource :: "net_addr option \<Rightarrow> net_addr option \<Rightarrow> bool" where
  "equalPacketSource left right =
     (case (left, right) of
        (Some (UDPAddr ip port zone), Some (UDPAddr ip' port' zone')) \<Rightarrow> port = port' \<and> zone = zone' \<and> IP_Equal ip ip'
      | (Some l, Some r) \<Rightarrow> addr_Network l = addr_Network r \<and> addr_String l = addr_String r
      | _ \<Rightarrow> left = None \<and> right = None)"

record udpPeerPacket =
  packet_buffer :: bytes
  packet_remoteAddress :: net_addr

record udpPeerPacketConnection =
  conn_remoteAddress :: "net_addr option"
  conn_readAddress :: "net_addr option"
  incomingPackets :: "udpPeerPacket dataPacketQueue"
  conn_closed :: bool

definition newUDPPeerConnection :: "net_addr \<Rightarrow> udpPeerPacketConnection" where
  "newUDPPeerConnection remoteAddress =
     \<lparr>conn_remoteAddress = Some remoteAddress, conn_readAddress = None,
      incomingPackets = newDataPacketQueueWithCapacity 256, conn_closed = False\<rparr>"

definition pushPackets :: "udpPeerPacket list \<Rightarrow> udpPeerPacketConnection \<Rightarrow> u64 \<times> udpPeerPacketConnection" where
  "pushPackets packets c =
     (if length packets = 0 then (0, c)
      else if conn_closed c then (of_nat (length packets), c)
      else case PushBatchDropNew packets (incomingPackets c) of ((_, dropped), q) \<Rightarrow> (dropped, c\<lparr>incomingPackets := q\<rparr>))"

definition closeUDPPeer :: "udpPeerPacketConnection \<Rightarrow> udpPeerPacketConnection" where
  "closeUDPPeer c =
     (if conn_closed c then c else c\<lparr>conn_closed := True, incomingPackets := snd (Drain (incomingPackets c))\<rparr>)"

text \<open>One round of \<open>waitIncomingPackets\<close>: \<open>None\<close> when it has to wait.\<close>

definition waitIncomingPackets ::
  "int \<Rightarrow> time \<Rightarrow> time \<Rightarrow> udpPeerPacketConnection \<Rightarrow> udpPeerPacket option list result option \<times> udpPeerPacketConnection" where
  "waitIncomingPackets maxPackets now readDeadline c =
     (if \<not> IsZero readDeadline \<and> time_Sub readDeadline now \<le> 0 then (Some (Inl (Sentinel ErrDeadlineExceeded)), c)
      else if conn_closed c then (Some (Inl (Sentinel ErrClosed)), c)
      else case Pop maxPackets
             (Some (\<lambda>firstPacket packet. equalPacketSource (map_option packet_remoteAddress firstPacket)
                      (map_option packet_remoteAddress packet))) (incomingPackets c) of
             (packets, q) \<Rightarrow>
               (if length packets > 0 then Some (Inr packets) else None, c\<lparr>incomingPackets := q\<rparr>))"

definition setReadAddress :: "net_addr option \<Rightarrow> udpPeerPacketConnection \<Rightarrow> udpPeerPacketConnection" where
  "setReadAddress remoteAddress c = c\<lparr>conn_readAddress := remoteAddress\<rparr>"

definition setRemoteAddress :: "net_addr \<Rightarrow> udpPeerPacketConnection \<Rightarrow> udpPeerPacketConnection" where
  "setRemoteAddress remoteAddress c = c\<lparr>conn_remoteAddress := Some remoteAddress\<rparr>"

definition floatCandidateAddress :: "udpPeerPacketConnection \<Rightarrow> net_addr option" where
  "floatCandidateAddress c =
     (if conn_readAddress c = None \<or> equalPacketSource (conn_readAddress c) (conn_remoteAddress c) then None
      else conn_readAddress c)"

definition ReadPackets :: "time \<Rightarrow> time \<Rightarrow> udpPeerPacketConnection \<Rightarrow> bytes list result option \<times> udpPeerPacketConnection" where
  "ReadPackets now readDeadline c =
     (case waitIncomingPackets (int dataPacketBatchSize) now readDeadline c of
        (Some (Inr packets), c) \<Rightarrow>
          (Some (Inr (map (packet_buffer \<circ> the) packets)), setReadAddress (map_option packet_remoteAddress (hd packets)) c)
      | (Some (Inl err), c) \<Rightarrow> (Some (Inl err), c)
      | (None, c) \<Rightarrow> (None, c))"

section \<open>Opening sessions\<close>

definition isRunning :: "bool \<Rightarrow> tlsServer \<Rightarrow> bool" where
  "isRunning listenerStopped s \<longleftrightarrow> lifecycleState s = serverLifecycleRunning \<and> \<not> listenerStopped"

definition reserveLoopWorker :: "tlsServer \<Rightarrow> bool" where
  "reserveLoopWorker s \<longleftrightarrow> lifecycleState s = serverLifecycleRunning"

definition getSession :: "string \<Rightarrow> tlsServer \<Rightarrow> ref option" where
  "getSession address s = sessionByPeer s address"

text \<open>\<open>Start\<close> as far as the state goes, \<open>listening\<close> telling whether the listener could be opened.\<close>

definition tlsServer_Start :: "unit result \<Rightarrow> tlsServer \<Rightarrow> unit result \<times> tlsServer" where
  "tlsServer_Start listening s =
     (case lifecycleState s of
        serverLifecycleRunning \<Rightarrow> (Inr (), s)
      | serverLifecycleStarting \<Rightarrow> (Inr (), s)
      | serverLifecycleClosing \<Rightarrow> (Inl (Sentinel ErrServerClosed), s)
      | serverLifecycleClosed \<Rightarrow> (Inl (Sentinel ErrServerClosed), s)
      | serverLifecycleInitial \<Rightarrow>
          (case listening of
             Inl err \<Rightarrow> (Inl err, s\<lparr>lifecycleState := serverLifecycleInitial\<rparr>)
           | Inr _ \<Rightarrow> (Inr (), s\<lparr>lifecycleState := serverLifecycleRunning\<rparr>)))"

text \<open>The part of \<open>runStreamAcceptLoop\<close> and \<open>runStreamSession\<close> that enters the session, \<open>packetConnection\<close> telling whether the
  stream could be wrapped, and the deferred end of a session.\<close>

definition openStreamSession :: "unit result \<Rightarrow> string \<Rightarrow> ref \<Rightarrow> tlsServer \<Rightarrow> (bool \<times> tlsServer) option" where
  "openStreamSession packetConnection address r s =
     (case reserveInstance (resourcePolicy s) of
        (False, policy) \<Rightarrow> Some (False, s\<lparr>resourcePolicy := policy\<rparr>)
      | (True, policy) \<Rightarrow>
          if \<not> reserveLoopWorker s then Some (False, s\<lparr>resourcePolicy := release policy\<rparr>)
          else if packetConnection \<noteq> Inr () then Some (False, s\<lparr>resourcePolicy := release policy\<rparr>)
          else
            let s = upd_session r (\<lambda>_. (newSession zero_session_id None)\<lparr>resourceReservation := True\<rparr>) (s\<lparr>resourcePolicy := policy\<rparr>)
            in case registerSession address r None s of
                 None \<Rightarrow> None
               | Some (Inl _, s) \<Rightarrow> Some (False, releaseResourceReservation r s)
               | Some (Inr _, s) \<Rightarrow> Some (True, s))"

definition endSession :: "ref \<Rightarrow> tlsServer \<Rightarrow> tlsServer" where
  "endSession r s = releaseResourceReservation r (unregisterSession r s)"

text \<open>
  \<open>acceptUnboundUDPPacket\<close>: whether a session was opened, the challenge it wrote, and the state.
\<close>

definition acceptUnboundUDPPacket ::
  "crypto \<Rightarrow> clock \<Rightarrow> sessionIDHMACSigner \<Rightarrow> tlsControlProtection \<Rightarrow> bool \<Rightarrow> time \<Rightarrow> bytes \<Rightarrow> net_addr option \<Rightarrow> string \<Rightarrow> ref \<Rightarrow>
     tlsServer \<Rightarrow> ((bool \<times> bytes option) \<times> tlsServer) option" where
  "acceptUnboundUDPPacket C clock signer staticProtection forceCookie now rawPacket remoteAddress address r s =
     (if \<not> isPossibleUDPPreDecryptPacket rawPacket then Some ((False, None), s)
      else case preDecryptUDPPacket C clock signer staticProtection forceCookie rawPacket remoteAddress now (resourcePolicy s) of
        (Inl _, policy) \<Rightarrow> Some ((False, None), s\<lparr>resourcePolicy := policy\<rparr>)
      | (Inr result, policy) \<Rightarrow>
          if verdict result = udpPreDecryptChallenge then Some ((False, Some (challenge result)), s\<lparr>resourcePolicy := policy\<rparr>)
          else if verdict result \<noteq> udpPreDecryptAccept then Some ((False, None), s\<lparr>resourcePolicy := policy\<rparr>)
          else case allowNewConnection now policy of
            (False, policy) \<Rightarrow> Some ((False, None), s\<lparr>resourcePolicy := policy\<rparr>)
          | (True, policy) \<Rightarrow>
              case reserveInstance (refundInitialPacket policy) of
                (False, policy) \<Rightarrow> Some ((False, None), s\<lparr>resourcePolicy := policy\<rparr>)
              | (True, policy) \<Rightarrow>
                  let session = newSession (LocalSessionID (the (res_packet result))) (Some address);
                      s = upd_session r (\<lambda>_. session\<lparr>resourceReservation := True\<rparr>) (s\<lparr>resourcePolicy := policy\<rparr>)
                  in case registerSession address r (Some address) s of
                       None \<Rightarrow> None
                     | Some (Inl _, s) \<Rightarrow> Some ((False, None), releaseResourceReservation r s)
                     | Some (Inr _, s) \<Rightarrow>
                         if \<not> reserveLoopWorker s then Some ((False, None), endSession r s)
                         else Some ((True, None), s))"

definition acceptInitialUDPReset ::
  "crypto \<Rightarrow> clock \<Rightarrow> tlsControlProtection \<Rightarrow> bytes \<Rightarrow> string \<Rightarrow> ref \<Rightarrow> tlsServer \<Rightarrow> (bool \<times> tlsServer) option" where
  "acceptInitialUDPReset C clock staticProtection rawPacket address r s =
     (case decodeUDPPreDecryptPacket C clock staticProtection rawPacket of
        Inl _ \<Rightarrow> Some (False, s)
      | Inr (packet, protection, _) \<Rightarrow>
          case validateInitialClientReset packet of
            Inl _ \<Rightarrow> Some (False, s)
          | Inr _ \<Rightarrow>
              case registerInitialSession address r address (upd_session r (\<lambda>_. newSession (LocalSessionID packet) (Some address)) s) of
                None \<Rightarrow> None
              | Some (Inl _, s) \<Rightarrow> Some (False, s)
              | Some (Inr _, s) \<Rightarrow> if \<not> reserveLoopWorker s then Some (False, unregisterSession r s) else Some (True, s))"

section \<open>Dispatching a batch\<close>

fun enqueue_packet :: "ref \<Rightarrow> udpPeerPacket \<Rightarrow> (ref \<times> udpPeerPacket list) list \<Rightarrow> (ref \<times> udpPeerPacket list) list" where
  "enqueue_packet r p [] = [(r, [p])]"
| "enqueue_packet r p ((r', ps) # qs) = (if r' = r then (r', ps @ [p]) # qs else (r', ps) # enqueue_packet r p qs)"

record dispatch =
  disp_server :: tlsServer
  conns :: "ref \<Rightarrow> udpPeerPacketConnection"
  sessionsChanged :: bool
  queuedPackets :: "(ref \<times> udpPeerPacket list) list"
  challenges :: "(bytes \<times> net_addr) list"

text \<open>One datagram; \<open>r\<close> is the object a session it opens would be.\<close>

definition dispatch_packet ::
  "crypto \<Rightarrow> clock \<Rightarrow> sessionIDHMACSigner \<Rightarrow> tlsControlProtection \<Rightarrow> bool \<Rightarrow> time \<Rightarrow> bytes \<Rightarrow> net_addr \<Rightarrow> ref \<Rightarrow> udpPacketRoute \<Rightarrow>
     dispatch \<Rightarrow> dispatch option" where
  "dispatch_packet C clock signer staticProtection forceCookie now rawPacket remoteAddress r route d =
     (let address = addr_String remoteAddress;
          route = (case route of
                     udpPacketDeliver _ \<Rightarrow> route
                   | _ \<Rightarrow> if sessionsChanged d then routeUDPPacketLocked (disp_server d) rawPacket address else route)
      in case route of
           udpPacketDrop \<Rightarrow> Some d
         | udpPacketUnbound \<Rightarrow>
             map_option (\<lambda>((opened, ch), s).
                 d\<lparr>disp_server := s,
                   conns := (if opened then (conns d)(r := newUDPPeerConnection remoteAddress) else conns d),
                   sessionsChanged := sessionsChanged d \<or> opened,
                   challenges := challenges d @ (case ch of None \<Rightarrow> [] | Some c \<Rightarrow> [(c, remoteAddress)])\<rparr>)
               (acceptUnboundUDPPacket C clock signer staticProtection forceCookie now rawPacket (Some remoteAddress) address r (disp_server d))
         | udpPacketInitialReset \<Rightarrow>
             map_option (\<lambda>(opened, s).
                 d\<lparr>disp_server := s,
                   conns := (if opened then (conns d)(r := newUDPPeerConnection remoteAddress) else conns d),
                   sessionsChanged := sessionsChanged d \<or> opened\<rparr>)
               (acceptInitialUDPReset C clock staticProtection rawPacket address r (disp_server d))
         | udpPacketDeliver session \<Rightarrow>
             Some (if udp_remote (sess (disp_server d) session) = None then d
                   else d\<lparr>queuedPackets := enqueue_packet session
                            \<lparr>packet_buffer = rawPacket, packet_remoteAddress = remoteAddress\<rparr> (queuedPackets d)\<rparr>))"

fun dispatch_loop ::
  "crypto \<Rightarrow> clock \<Rightarrow> sessionIDHMACSigner \<Rightarrow> tlsControlProtection \<Rightarrow> bool \<Rightarrow> time \<Rightarrow>
     (bytes \<times> net_addr \<times> ref \<times> udpPacketRoute) list \<Rightarrow> dispatch \<Rightarrow> dispatch option" where
  "dispatch_loop C clock signer staticProtection forceCookie now [] d = Some d"
| "dispatch_loop C clock signer staticProtection forceCookie now ((rawPacket, remoteAddress, r, route) # ps) d =
     (case dispatch_packet C clock signer staticProtection forceCookie now rawPacket remoteAddress r route d of
        None \<Rightarrow> None
      | Some d \<Rightarrow> dispatch_loop C clock signer staticProtection forceCookie now ps d)"

fun push_queued :: "(ref \<times> udpPeerPacket list) list \<Rightarrow> (ref \<Rightarrow> udpPeerPacketConnection) \<Rightarrow> u64 \<times> (ref \<Rightarrow> udpPeerPacketConnection)" where
  "push_queued [] cs = (0, cs)"
| "push_queued ((r, ps) # qs) cs =
     (case pushPackets ps (cs r) of (dropped, c) \<Rightarrow>
      case push_queued qs (cs(r := c)) of (rest, cs) \<Rightarrow> (dropped + rest, cs))"

definition dispatchListenerPackets ::
  "crypto \<Rightarrow> clock \<Rightarrow> sessionIDHMACSigner \<Rightarrow> tlsControlProtection \<Rightarrow> bool \<Rightarrow> time \<Rightarrow> (bytes \<times> net_addr \<times> ref) list \<Rightarrow>
     tlsServer \<Rightarrow> (ref \<Rightarrow> udpPeerPacketConnection) \<Rightarrow>
     ((u64 \<times> (bytes \<times> net_addr) list) \<times> tlsServer \<times> (ref \<Rightarrow> udpPeerPacketConnection)) option" where
  "dispatchListenerPackets C clock signer staticProtection forceCookie now batch s cs =
     (let routes = findUDPPacketRoutes s (map fst batch) (map (addr_String \<circ> fst \<circ> snd) batch)
      in map_option (\<lambda>d. case push_queued (queuedPackets d) (conns d) of (dropped, cs) \<Rightarrow> ((dropped, challenges d), disp_server d, cs))
           (dispatch_loop C clock signer staticProtection forceCookie now
              (map (\<lambda>((w, a, r), route). (w, a, r, route)) (zip batch routes))
              \<lparr>disp_server = s, conns = cs, sessionsChanged = False, queuedPackets = [], challenges = []\<rparr>))"

section \<open>The states of a server\<close>

text \<open>
  What goroutines do to the registry, one critical section at a time: objects are created for sessions
  no map refers to, take and give back a reservation, enter the registry, authenticate, are promoted,
  get an identity and a peer id, float to another address and leave. A session's identity key does
  not change once it is recorded, since its certificate and user name are locked.
\<close>

inductive reg_step :: "bool \<Rightarrow> tlsServer \<Rightarrow> tlsServer \<Rightarrow> bool" for duplicateCN where
  lifecycle: "reg_step duplicateCN s (s\<lparr>lifecycleState := l\<rparr>)"
| rate: "maxClients p = maxClients (resourcePolicy s) \<Longrightarrow> instances p = instances (resourcePolicy s) \<Longrightarrow>
    reg_step duplicateCN s (s\<lparr>resourcePolicy := p\<rparr>)"
| create: "unknown s r \<Longrightarrow> \<not> resourceReservation (sess s r) \<Longrightarrow> reg_step duplicateCN s (upd_session r (\<lambda>_. newSession sid address) s)"
| reserve: "unknown s r \<Longrightarrow> \<not> resourceReservation (sess s r) \<Longrightarrow> reserveInstance (resourcePolicy s) = (True, p) \<Longrightarrow>
    reg_step duplicateCN s (upd_session r (\<lambda>x. x\<lparr>resourceReservation := True\<rparr>) (s\<lparr>resourcePolicy := p\<rparr>))"
| register: "unknown s r \<Longrightarrow> registerSession a r (udp_remote (sess s r)) s = Some (res, s') \<Longrightarrow> reg_step duplicateCN s s'"
| initial: "unknown s r \<Longrightarrow> \<not> resourceReservation (sess s r) \<Longrightarrow> registerInitialSession a r b s = Some (res', s') \<Longrightarrow> reg_step duplicateCN s s'"
| promote: "reg_step duplicateCN s (snd (promoteInitialSession r s))"
| authenticate: "authenticatedIdentity (sess s r) = [] \<Longrightarrow>
    reg_step duplicateCN s (upd_session r (\<lambda>x. x\<lparr>lockedCertificateIdentity := c, authenticatedUsername := u, authenticatedUsernameSet := b\<rparr>) s)"
| identity: "authenticatedIdentity (sess s r) \<in> {[], authenticatedIdentityKey (sess s r)} \<Longrightarrow>
    reg_step duplicateCN s (snd (registerAuthenticatedIdentity duplicateCN r s))"
| peer_id: "reg_step duplicateCN s (snd (enablePeerID r s))"
| float: "reg_step duplicateCN s (snd (floatUDPSessionToSource r a s))"
| unregister: "reg_step duplicateCN s (unregisterSession r s)"
| release: "reg_step duplicateCN s (releaseResourceReservation r s)"

abbreviation reachable :: "bool \<Rightarrow> ServerResourceOptions \<Rightarrow> tlsServer \<Rightarrow> bool" where
  "reachable duplicateCN options s \<equiv> (reg_step duplicateCN)\<^sup>*\<^sup>* (newTLSServer options) s"

lemma new_server_ok: "registry_ok (newTLSServer options)"
  by (simp add: newTLSServer_def registry_ok_def maps_ok_def registry_parts reservations_ok_def newSession_def newServerResourcePolicy_def)

lemma reserve_ok:
  assumes "registry_ok s" "unknown s r" "\<not> resourceReservation (sess s r)" "reserveInstance (resourcePolicy s) = (True, p)"
  shows "registry_ok (upd_session r (\<lambda>x. x\<lparr>resourceReservation := True\<rparr>) (s\<lparr>resourcePolicy := p\<rparr>))"
proof -
  have "maxClients p = maxClients (resourcePolicy s)" using assms(4) by (auto simp: reserveInstance_def split: if_splits)
  then have "maps_ok (s\<lparr>resourcePolicy := p\<rparr>)" using assms(1) by (simp add: registry_ok_def)
  then have "maps_ok (upd_session r (\<lambda>x. x\<lparr>resourceReservation := True\<rparr>) (s\<lparr>resourcePolicy := p\<rparr>))"
    by (rule upd_unknown_maps) (use assms(2) in \<open>simp add: unknown_def\<close>)
  then show ?thesis using reserve_reservations [of s r p] assms by (simp add: registry_ok_def)
qed

lemma rate_ok:
  "registry_ok s \<Longrightarrow> maxClients p = maxClients (resourcePolicy s) \<Longrightarrow> instances p = instances (resourcePolicy s) \<Longrightarrow>
     registry_ok (s\<lparr>resourcePolicy := p\<rparr>)"
  by (simp add: registry_ok_def reservations_ok_def)

lemma upd_same_ok:
  assumes "registry_ok s" "resourceReservation (f (sess s r)) = resourceReservation (sess s r)" "unknown s r \<or>
    (peerAddress (f (sess s r)) = peerAddress (sess s r) \<and> serverPeerID (f (sess s r)) = serverPeerID (sess s r) \<and>
     peerIDAssigned (f (sess s r)) = peerIDAssigned (sess s r) \<and> authenticatedIdentity (f (sess s r)) = authenticatedIdentity (sess s r) \<and>
     udp_remote (f (sess s r)) = udp_remote (sess s r))"
  shows "registry_ok (upd_session r f s)"
proof -
  have m: "maps_ok s" using assms(1) by (simp add: registry_ok_def)
  have "maps_ok (upd_session r f s)"
    using assms(2,3) by (intro upd_maps [OF m]) (auto simp: unknown_def ran_def dest: mapsD [OF m])
  then show ?thesis using assms(1,2) by (simp add: registry_ok_def reservations_same)
qed

lemma reg_step_ok: "reg_step duplicateCN s s' \<Longrightarrow> registry_ok s \<Longrightarrow> registry_ok s'"
proof (induction rule: reg_step.induct)
  case (lifecycle s l)
  then show ?case by (simp add: registry_ok_def)
next
  case (create s r sid address)
  then show ?case by (intro upd_same_ok) (simp_all add: newSession_def)
next
  case (authenticate s r c u b)
  then show ?case by (intro upd_same_ok) simp_all
qed (simp_all add: rate_ok reserve_ok register_ok register_initial_ok promote_ok identity_ok enable_ok float_ok unregister_ok release_ok)

lemma reachable_ok: "reachable duplicateCN options s \<Longrightarrow> registry_ok s"
  by (induction rule: rtranclp_induct) (simp_all add: new_server_ok reg_step_ok)

section \<open>Routing\<close>

lemma route_cases:
  "routeUDPPacketLocked s w a = udpPacketDeliver r \<Longrightarrow>
     (\<exists>i. udpDataV2PeerID w = Some i \<and> sessionByPeerID s i = Some r) \<or> udpSessionByAddress s a = Some r \<or> udpInitialSessionByAddress s a = Some r"
  by (auto simp: routeUDPPacketLocked_def Let_def split: if_splits option.splits)

lemma route_registered: "maps_ok s \<Longrightarrow> routeUDPPacketLocked s w a = udpPacketDeliver r \<Longrightarrow> registered s r"
  by (drule route_cases) (blast dest: mapsD)

lemma route_unknown: "unknown s r \<Longrightarrow> routeUDPPacketLocked s w a \<noteq> udpPacketDeliver r"
  using route_cases [of s w a r] by (auto simp: unknown_def ran_def)

lemma without_other: "m k = Some r \<Longrightarrow> r \<noteq> d \<Longrightarrow> without d m k = Some r" "m k = None \<Longrightarrow> without d m k = None"
  "without d m k = (case m k of None \<Rightarrow> None | Some x \<Rightarrow> if x = d then None else Some x)"
  by (auto simp: without_def split: option.splits)

lemma route_unaffected:
  assumes "maps_ok s" "r \<noteq> d" "routeUDPPacketLocked s w a = udpPacketDeliver r"
  shows "routeUDPPacketLocked (unregisterSession d s) w a = udpPacketDeliver r"
proof -
  let ?t = "evictSessionLocked d s"
  have len: "length w \<noteq> 0" using assms(3) by (auto simp: routeUDPPacketLocked_def)
  have m: "sessionByPeerID ?t = without d (sessionByPeerID s)" by (rule evict_without [OF assms(1)])
  show ?thesis
  proof (cases "udpDataV2PeerID w")
    case (Some i)
    then show ?thesis using assms(2,3) len
      by (simp add: unregisterSession_def routeUDPPacketLocked_def m without_other(3) split: option.splits)
  next
    case None
    show ?thesis
    proof (cases "isControlOrAcknowledgmentOpcode (drop_bit 3 (w ! 0))")
      case True
      then show ?thesis using assms(2,3) None len
        by (cases "udpSessionByAddress s a"; cases "udpInitialSessionByAddress s a")
          (simp_all add: unregisterSession_def routeUDPPacketLocked_def without_other(3) Let_def split: if_splits)
    next
      case False
      then show ?thesis using assms(2,3) None len
        by (simp add: unregisterSession_def routeUDPPacketLocked_def without_other(3) split: option.splits)
    qed
  qed
qed

section \<open>What the listener does is made of these steps\<close>

lemma predecrypt_policy:
  "preDecryptUDPPacket C clock signer staticProtection forceCookie w a now policy = (res, policy') \<Longrightarrow>
     maxClients policy' = maxClients policy \<and> instances policy' = instances policy"
  by (auto simp: preDecryptUDPPacket_def allowInitialPacket_def Let_def split: sum.splits if_splits prod.splits)

lemma connection_policy:
  "allowNewConnection now policy = (b, policy') \<Longrightarrow> maxClients policy' = maxClients policy \<and> instances policy' = instances policy"
  "maxClients (refundInitialPacket policy) = maxClients policy" "instances (refundInitialPacket policy) = instances policy"
  by (auto simp: allowNewConnection_def refundInitialPacket_def Let_def split: if_splits)

lemma open_steps:
  assumes "unknown s r" "\<not> resourceReservation (sess s r)" "maxClients p0 = maxClients (resourcePolicy s)"
    "instances p0 = instances (resourcePolicy s)" "reserveInstance p0 = (True, p)"
  shows "(reg_step duplicateCN)\<^sup>*\<^sup>* s (upd_session r (\<lambda>_. (newSession sid address)\<lparr>resourceReservation := True\<rparr>) (s\<lparr>resourcePolicy := p\<rparr>))"
proof -
  let ?a = "s\<lparr>resourcePolicy := p0\<rparr>"
  let ?b = "upd_session r (\<lambda>_. newSession sid address) ?a"
  have u: "unknown ?a r" "unknown ?b r" using assms(1) by (simp_all add: unknown_def)
  have "reg_step duplicateCN s ?a" using assms(3,4) by (rule reg_step.rate)
  moreover have "reg_step duplicateCN ?a ?b" using u(1) by (rule reg_step.create) (use assms(2) in simp)
  moreover have "reg_step duplicateCN ?b (upd_session r (\<lambda>x. x\<lparr>resourceReservation := True\<rparr>) (?b\<lparr>resourcePolicy := p\<rparr>))"
    using u(2) by (rule reg_step.reserve) (simp_all add: assms(5) newSession_def)
  moreover have "upd_session r (\<lambda>x. x\<lparr>resourceReservation := True\<rparr>) (?b\<lparr>resourcePolicy := p\<rparr>) =
      upd_session r (\<lambda>_. (newSession sid address)\<lparr>resourceReservation := True\<rparr>) (s\<lparr>resourcePolicy := p\<rparr>)"
    by (simp add: upd_session_def)
  ultimately show ?thesis by (metis (no_types, lifting) converse_rtranclp_into_rtranclp rtranclp.rtrancl_refl)
qed

lemma end_steps: "(reg_step duplicateCN)\<^sup>*\<^sup>* s (endSession r s)"
  unfolding endSession_def by (meson reg_step.unregister reg_step.release converse_rtranclp_into_rtranclp rtranclp.rtrancl_refl)

text \<open>The outcomes of \<open>acceptUnboundUDPPacket\<close>: only the rate windows change, or a session takes a reservation and registers.\<close>

lemma accept_unbound_cases:
  assumes "acceptUnboundUDPPacket C clock signer staticProtection forceCookie now w a address r s = Some ((opened, ch), s')"
  obtains p where "\<not> opened" "maxClients p = maxClients (resourcePolicy s)" "instances p = instances (resourcePolicy s)"
      "s' = s\<lparr>resourcePolicy := p\<rparr>"
  | result policy p0 p reg t where
      "preDecryptUDPPacket C clock signer staticProtection forceCookie w a now (resourcePolicy s) = (Inr result, policy)"
      "verdict result = udpPreDecryptAccept" "maxClients p0 = maxClients (resourcePolicy s)" "instances p0 = instances (resourcePolicy s)"
      "reserveInstance p0 = (True, p)"
      "registerSession address r (Some address) (upd_session r (\<lambda>_. (newSession (LocalSessionID (the (res_packet result))) (Some address))
         \<lparr>resourceReservation := True\<rparr>) (s\<lparr>resourcePolicy := p\<rparr>)) = Some (reg, t)"
      "opened \<and> reg = Inr () \<and> s' = t \<or> \<not> opened \<and> s' \<in> {releaseResourceReservation r t, endSession r t}"
proof (cases "isPossibleUDPPreDecryptPacket w")
  case True
  obtain res policy where pre: "preDecryptUDPPacket C clock signer staticProtection forceCookie w a now (resourcePolicy s) = (res, policy)"
    by fastforce
  note k = predecrypt_policy [OF pre]
  show thesis
  proof (cases "\<exists>result. res = Inr result \<and> verdict result = udpPreDecryptAccept")
    case False
    then have "\<not> opened \<and> s' = s\<lparr>resourcePolicy := policy\<rparr>"
      using assms True pre by (cases res) (auto simp: acceptUnboundUDPPacket_def split: if_splits)
    then show thesis using that(1) k by blast
  next
    case True': True
    then obtain result where res: "res = Inr result" "verdict result = udpPreDecryptAccept" by blast
    obtain b p1 where allow: "allowNewConnection now policy = (b, p1)" by fastforce
    note k1 = connection_policy(1) [OF allow]
    obtain b2 p where rv: "reserveInstance (refundInitialPacket p1) = (b2, p)" by fastforce
    show thesis
    proof (cases "b \<and> b2")
      case False
      have "\<not> b2 \<Longrightarrow> p = refundInitialPacket p1" using rv by (auto simp: reserveInstance_def split: if_splits)
      then have "\<not> opened \<and> (s' = s\<lparr>resourcePolicy := p1\<rparr> \<or> s' = s\<lparr>resourcePolicy := refundInitialPacket p1\<rparr>)"
        using assms True pre res allow rv False by (cases b; cases b2) (simp_all add: acceptUnboundUDPPacket_def)
      then show thesis using that(1) k k1 connection_policy(2,3) [of p1] by metis
    next
      case bb: True
      let ?u = "upd_session r (\<lambda>_. (newSession (LocalSessionID (the (res_packet result))) (Some address))
         \<lparr>resourceReservation := True\<rparr>) (s\<lparr>resourcePolicy := p\<rparr>)"
      obtain reg t where reg: "registerSession address r (Some address) ?u = Some (reg, t)"
        using assms True pre res allow rv bb by (auto simp: acceptUnboundUDPPacket_def Let_def split: option.splits)
      have "opened \<and> reg = Inr () \<and> s' = t \<or> \<not> opened \<and> s' \<in> {releaseResourceReservation r t, endSession r t}"
        using assms True pre res allow rv bb reg by (auto simp: acceptUnboundUDPPacket_def Let_def split: sum.splits if_splits)
      note fin = this
      have m: "maxClients (refundInitialPacket p1) = maxClients (resourcePolicy s)" "instances (refundInitialPacket p1) = instances (resourcePolicy s)"
        using k k1 by (simp_all add: connection_policy(2,3))
      have "reserveInstance (refundInitialPacket p1) = (True, p)" using rv bb by simp
      from that(2) [OF pre [unfolded res(1)] res(2) m this reg fin] show thesis .
    qed
  qed
next
  case False
  then have "\<not> opened" "s' = s" using assms by (simp_all add: acceptUnboundUDPPacket_def)
  then show thesis by (intro that(1) [of "resourcePolicy s"]) simp_all
qed

lemma accept_unbound_steps:
  assumes "acceptUnboundUDPPacket C clock signer staticProtection forceCookie now w a address r s = Some ((opened, ch), s')"
    "unknown s r" "\<not> resourceReservation (sess s r)"
  shows "(reg_step duplicateCN)\<^sup>*\<^sup>* s s'"
  using assms(1)
proof (cases rule: accept_unbound_cases)
  case (1 p)
  then show ?thesis using reg_step.rate by blast
next
  case (2 result policy p0 p reg t)
  let ?u = "upd_session r (\<lambda>_. (newSession (LocalSessionID (the (res_packet result))) (Some address))
         \<lparr>resourceReservation := True\<rparr>) (s\<lparr>resourcePolicy := p\<rparr>)"
  have "(reg_step duplicateCN)\<^sup>*\<^sup>* s ?u" using assms(2,3) 2(3-5) by (rule open_steps)
  moreover have "reg_step duplicateCN ?u t"
    by (rule reg_step.register [of _ r]) (use assms(2) 2(6) in \<open>simp_all add: unknown_def newSession_def\<close>)
  ultimately have "(reg_step duplicateCN)\<^sup>*\<^sup>* s t" by (rule rtranclp.rtrancl_into_rtrancl)
  moreover have "(reg_step duplicateCN)\<^sup>*\<^sup>* t s'"
    using 2(7) end_steps [of duplicateCN t r] reg_step.release [of duplicateCN t r] by auto
  ultimately show ?thesis by (rule rtranclp_trans)
qed

lemma accept_initial_steps:
  assumes "acceptInitialUDPReset C clock staticProtection w address r s = Some (opened, s')" "unknown s r" "\<not> resourceReservation (sess s r)"
  shows "(reg_step duplicateCN)\<^sup>*\<^sup>* s s'"
proof (cases "s' = s")
  case False
  then obtain packet :: packet and reg t where
    reg: "registerInitialSession address r address (upd_session r (\<lambda>_. newSession (LocalSessionID packet) (Some address)) s) = Some (reg, t)"
    and s': "s' \<in> {t, unregisterSession r t}"
    using assms(1) unfolding acceptInitialUDPReset_def
    by (auto split: sum.splits prod.splits option.splits if_splits)
  let ?u = "upd_session r (\<lambda>_. newSession (LocalSessionID packet) (Some address)) s"
  have "reg_step duplicateCN s ?u" using assms(2,3) by (rule reg_step.create)
  moreover have "reg_step duplicateCN ?u t"
    by (rule reg_step.initial [of _ r]) (use assms(2) reg in \<open>simp_all add: newSession_def\<close>)
  moreover have "(reg_step duplicateCN)\<^sup>*\<^sup>* t s'" using s' reg_step.unregister [of duplicateCN t r] by auto
  ultimately show ?thesis by (meson converse_rtranclp_into_rtranclp)
qed simp

lemma registered_session:
  assumes "registerSession address r (Some address) s = Some (Inr (), t)" "unknown s r" "maps_ok s"
  shows "registered t r" "udpSessionByAddress t address = Some r" "remoteSessionID (sess t r) = remoteSessionID (sess s r)"
    "lifecycleState s = serverLifecycleRunning" "resourcePolicy t = resourcePolicy s"
    "udpInitialSessionByAddress t = udpInitialSessionByAddress s"
proof -
  obtain u where u: "bindPeerAddressLocked address r s = Some u" "t = u\<lparr>udpSessionByAddress := (udpSessionByAddress u)(address \<mapsto> r)\<rparr>"
    using assms(1) by (auto simp: registerSession_def split: if_splits)
  obtain n c where "u = (upd_session r (\<lambda>x. x\<lparr>peerAddress := n\<rparr>) (s\<lparr>sessionCounter := c\<rparr>))\<lparr>sessionByPeer := (sessionByPeer s)(n \<mapsto> r)\<rparr>"
    using bind_state [OF u(1) assms(3,2)] .
  then show "registered t r" "udpSessionByAddress t address = Some r" "remoteSessionID (sess t r) = remoteSessionID (sess s r)"
    "resourcePolicy t = resourcePolicy s" "udpInitialSessionByAddress t = udpInitialSessionByAddress s"
    by (simp_all add: u(2) registered_def)
  show "lifecycleState s = serverLifecycleRunning" using assms(1) by (auto simp: registerSession_def split: if_splits)
qed

lemma register_returns:
  assumes "finite (dom (sessionByPeer s))" "card (dom (sessionByPeer s)) < 2 ^ 64"
  shows "registerSession address r u s \<noteq> None"
proof -
  obtain n where "free_name (sessionByPeer s) address (sessionCounter s + 1) = Some (session_name address n, n)"
    using free_name_ends [OF assms] by blast
  then have "bindPeerAddressLocked address r s \<noteq> None" by (simp add: bindPeerAddressLocked_def Let_def)
  then show ?thesis by (auto simp: registerSession_def)
qed

lemma accept_unbound_returns:
  assumes "finite (dom (sessionByPeer s))" "card (dom (sessionByPeer s)) < 2 ^ 64"
  shows "acceptUnboundUDPPacket C clock signer staticProtection forceCookie now w a address r s \<noteq> None"
proof -
  have reg: "registerSession address r (Some address) (upd_session r f (s\<lparr>resourcePolicy := p\<rparr>)) \<noteq> None" for f p
    by (rule register_returns) (use assms in simp_all)
  show ?thesis unfolding acceptUnboundUDPPacket_def Let_def
    by (auto simp: reg split: prod.splits sum.splits option.splits bool.splits)
qed

section \<open>Properties\<close>

text \<open>
  C37. In every state the server reaches, each of its five maps leads to registered sessions only, under
  the name, peer id, identity and address that the session itself records, so no two sessions share a
  peer id, which lies below the client limit; the admitted sessions are exactly counted and never more
  than the limit; and a session that is still negotiating beside an established one holds no slot.
\<close>

theorem registry_consistent:
  assumes "reachable duplicateCN options s"
  shows "(\<forall>a r. sessionByPeer s a = Some r \<longrightarrow> peerAddress (sess s r) = a) \<and>
    (\<forall>i r. sessionByPeerID s i = Some r \<longrightarrow> serverPeerID (sess s r) = i \<and> peerIDAssigned (sess s r) \<and>
       sessionByPeer s (peerAddress (sess s r)) = Some r \<and> unat i < unat (of_int (maxClients (resourcePolicy s)) :: u32)) \<and>
    (\<forall>n r. sessionByIdentity s n = Some r \<longrightarrow> authenticatedIdentity (sess s r) = n \<and> sessionByPeer s (peerAddress (sess s r)) = Some r) \<and>
    (\<forall>a r. udpSessionByAddress s a = Some r \<longrightarrow> udp_remote (sess s r) = Some a \<and> sessionByPeer s (peerAddress (sess s r)) = Some r) \<and>
    (\<forall>a r. udpInitialSessionByAddress s a = Some r \<longrightarrow> \<not> resourceReservation (sess s r) \<and> sessionByPeer s (peerAddress (sess s r)) = Some r) \<and>
    finite {r. resourceReservation (sess s r)} \<and> instances (resourcePolicy s) = int (card {r. resourceReservation (sess s r)}) \<and>
    instances (resourcePolicy s) \<le> max 0 (maxClients (resourcePolicy s))"
proof -
  have ok: "maps_ok s" "reservations_ok s" using reachable_ok [OF assms] by (simp_all add: registry_ok_def)
  show ?thesis
    using ok(2) unfolding reservations_ok_def by (intro conjI allI impI) (auto dest: mapsD [OF ok(1), unfolded registered_def])
qed

text \<open>A running server with no session, and one with a session registered.\<close>

definition sample_limits :: ServerResourceOptions where
  "sample_limits = \<lparr>MaxClients = 0, ConnectFrequency = 0, ConnectFrequencyPeriod = 0, InitialConnectFrequency = 0,
     InitialConnectFrequencyPeriod = 0\<rparr>"

definition sample_running :: tlsServer where
  "sample_running = (newTLSServer sample_limits)\<lparr>lifecycleState := serverLifecycleRunning\<rparr>"

definition sample_served :: tlsServer where
  "sample_served =
     snd (the (registerSession ''client'' 0 (Some ''client'') (upd_session 0 (\<lambda>_. newSession zero_session_id (Some ''client'')) sample_running)))"

lemma sample_running_reachable: "reachable False sample_limits sample_running"
  unfolding sample_running_def by (rule r_into_rtranclp) (rule reg_step.lifecycle)

lemma sample_running_fresh: "unknown sample_running r" "\<not> resourceReservation (sess sample_running r)"
  by (simp_all add: sample_running_def newTLSServer_def unknown_def newSession_def)

lemma sample_served_reachable: "reachable False sample_limits sample_served"
proof -
  let ?u = "upd_session 0 (\<lambda>_. newSession zero_session_id (Some ''client'')) sample_running"
  have "registerSession ''client'' 0 (udp_remote (sess ?u 0)) ?u = Some (Inr (), sample_served)"
    by (simp add: sample_served_def registerSession_def bindPeerAddressLocked_def sample_running_def newTLSServer_def newSession_def
        upd_session_def Let_def)
  then have "reg_step False ?u sample_served" by (rule reg_step.register [rotated]) (simp add: sample_running_fresh)
  moreover have "reg_step False sample_running ?u" by (rule reg_step.create) (rule sample_running_fresh)+
  ultimately show ?thesis using sample_running_reachable by (meson rtranclp.rtrancl_into_rtrancl)
qed

lemma sample_served_maps:
  "sessionByPeer sample_served ''client'' = Some 0" "udpSessionByAddress sample_served ''client'' = Some 0"
  by (simp_all add: sample_served_def registerSession_def bindPeerAddressLocked_def sample_running_def newTLSServer_def newSession_def
      upd_session_def Let_def)

theorem registry_consistent_witness:
  "peerAddress (sess sample_served 0) = ''client'' \<and> udp_remote (sess sample_served 0) = Some ''client''"
  using registry_consistent [OF sample_served_reachable] sample_served_maps by blast

text \<open>
  C38. Datagrams reach the session they belong to: in every reachable state a datagram is handed to
  registered sessions only; once a session is unregistered no datagram is handed to it again; and
  the datagrams of all other sessions are handed over as before.
\<close>

theorem datagram_routing:
  assumes "reachable duplicateCN options s"
  shows "(routeUDPPacketLocked s w a = udpPacketDeliver r \<longrightarrow> sessionByPeer s (peerAddress (sess s r)) = Some r) \<and>
    routeUDPPacketLocked (unregisterSession d s) w a \<noteq> udpPacketDeliver d \<and>
    (routeUDPPacketLocked s w a = udpPacketDeliver r \<and> r \<noteq> d \<longrightarrow>
       routeUDPPacketLocked (unregisterSession d s) w a = udpPacketDeliver r)"
proof -
  have ok: "maps_ok s" using reachable_ok [OF assms] by (simp add: registry_ok_def)
  have "unknown (unregisterSession d s) d" unfolding unregisterSession_def by (rule unknown_evict [OF ok])
  then show ?thesis
    using route_registered [OF ok, of w a r] route_unknown [of "unregisterSession d s" d w a] route_unaffected [OF ok, of r d w a]
    by (simp add: registered_def)
qed

theorem datagram_routing_witness:
  "routeUDPPacketLocked sample_served [0x30] ''client'' = udpPacketDeliver 0 \<and>
   routeUDPPacketLocked (unregisterSession 0 sample_served) [0x30] ''client'' \<noteq> udpPacketDeliver 0 \<and>
   routeUDPPacketLocked (unregisterSession 1 sample_served) [0x30] ''client'' = udpPacketDeliver 0"
proof -
  have "routeUDPPacketLocked sample_served [0x30] ''client'' = udpPacketDeliver 0"
    by (simp add: routeUDPPacketLocked_def udpDataV2PeerID_def isControlOrAcknowledgmentOpcode_def IsControl_def opcode_values
        sample_served_maps)
  then show ?thesis
    using datagram_routing [OF sample_served_reachable, of "[0x30]" "''client''" 0 0]
      datagram_routing [OF sample_served_reachable, of "[0x30]" "''client''" 0 1] by simp
qed

text \<open>
  C39. Opening a UDP session: handling a datagram that no session owns always returns while fewer than
  2 ^ 64 sessions exist; when it opens a session, the datagram passed the stateless checks, the server
  runs and had a free slot, which is now taken; the session is registered under the client's session
  id, and from then on every control packet with that session id from that address is handed to it.
  The state it leaves is again a reachable one.
\<close>

theorem udp_session_opened:
  assumes "reachable duplicateCN options s" "unknown s r" "\<not> resourceReservation (sess s r)"
    and "routeUDPPacketLocked s w address = udpPacketUnbound"
  shows "(card (dom (sessionByPeer s)) < 2 ^ 64 \<longrightarrow>
      acceptUnboundUDPPacket C clock signer staticProtection forceCookie now w a address r s \<noteq> None) \<and>
    (acceptUnboundUDPPacket C clock signer staticProtection forceCookie now w a address r s = Some ((True, ch), s') \<longrightarrow>
      reachable duplicateCN options s' \<and> lifecycleState s = serverLifecycleRunning \<and>
      instances (resourcePolicy s) < maxClients (resourcePolicy s) \<and> instances (resourcePolicy s') = instances (resourcePolicy s) + 1 \<and>
      (\<exists>result policy. preDecryptUDPPacket C clock signer staticProtection forceCookie w a now (resourcePolicy s) = (Inr result, policy) \<and>
         verdict result = udpPreDecryptAccept \<and> remoteSessionID (sess s' r) = LocalSessionID (the (res_packet result))) \<and>
      (\<forall>w'. tlsControlHeaderLength \<le> length w' \<and> isControlOrAcknowledgmentOpcode (drop_bit 3 (w' ! 0)) \<and>
         take 8 (drop 1 w') = remoteSessionID (sess s' r) \<longrightarrow> routeUDPPacketLocked s' w' address = udpPacketDeliver r))"
proof (intro conjI impI)
  have ok: "maps_ok s" using reachable_ok [OF assms(1)] by (simp add: registry_ok_def)
  then show "acceptUnboundUDPPacket C clock signer staticProtection forceCookie now w a address r s \<noteq> None"
    if "card (dom (sessionByPeer s)) < 2 ^ 64" using that by (intro accept_unbound_returns mapsD_finite)
  assume acc: "acceptUnboundUDPPacket C clock signer staticProtection forceCookie now w a address r s = Some ((True, ch), s')"
  show "reachable duplicateCN options s'"
    using assms(1) accept_unbound_steps [OF acc assms(2,3)] by (rule rtranclp_trans)
  from acc obtain result policy p0 p where
    pre: "preDecryptUDPPacket C clock signer staticProtection forceCookie w a now (resourcePolicy s) = (Inr result, policy)"
      "verdict result = udpPreDecryptAccept"
    and p0: "maxClients p0 = maxClients (resourcePolicy s)" "instances p0 = instances (resourcePolicy s)" "reserveInstance p0 = (True, p)"
    and reg: "registerSession address r (Some address) (upd_session r (\<lambda>_. (newSession (LocalSessionID (the (res_packet result))) (Some address))
         \<lparr>resourceReservation := True\<rparr>) (s\<lparr>resourcePolicy := p\<rparr>)) = Some (Inr (), s')"
    by (cases rule: accept_unbound_cases) auto
  let ?u = "upd_session r (\<lambda>_. (newSession (LocalSessionID (the (res_packet result))) (Some address))\<lparr>resourceReservation := True\<rparr>)
    (s\<lparr>resourcePolicy := p\<rparr>)"
  have mp: "maps_ok (s\<lparr>resourcePolicy := p\<rparr>)" using ok p0 by (auto simp: reserveInstance_def split: if_splits)
  have un: "unknown (s\<lparr>resourcePolicy := p\<rparr>) r" using assms(2) by (simp add: unknown_def)
  have "unknown ?u r" "maps_ok ?u" using un upd_unknown_maps [OF mp un] by simp_all
  note t = registered_session [OF reg this]
  show "lifecycleState s = serverLifecycleRunning" using t(4) by simp
  have "resourcePolicy s' = p0\<lparr>instances := instances p0 + 1\<rparr>" "instances p0 < maxClients p0"
    using t(5) p0(3) by (simp_all add: reserveInstance_def split: if_splits)
  then show "instances (resourcePolicy s) < maxClients (resourcePolicy s)" "instances (resourcePolicy s') = instances (resourcePolicy s) + 1"
    using p0(1,2) by simp_all
  show "\<exists>result policy. preDecryptUDPPacket C clock signer staticProtection forceCookie w a now (resourcePolicy s) = (Inr result, policy) \<and>
         verdict result = udpPreDecryptAccept \<and> remoteSessionID (sess s' r) = LocalSessionID (the (res_packet result))"
    using pre t(3) by (simp add: newSession_def)
  have none: "udpInitialSessionByAddress s address = None"
    using assms(4) by (auto simp: routeUDPPacketLocked_def Let_def split: if_splits option.splits)
  show "\<forall>w'. tlsControlHeaderLength \<le> length w' \<and> isControlOrAcknowledgmentOpcode (drop_bit 3 (w' ! 0)) \<and>
         take 8 (drop 1 w') = remoteSessionID (sess s' r) \<longrightarrow> routeUDPPacketLocked s' w' address = udpPacketDeliver r"
  proof (intro allI impI)
    fix w' assume c: "tlsControlHeaderLength \<le> length w' \<and> isControlOrAcknowledgmentOpcode (drop_bit 3 (w' ! 0)) \<and>
         take 8 (drop 1 w') = remoteSessionID (sess s' r)"
    then have "w' \<noteq> []" "udpDataV2PeerID w' = None"
      by (auto simp: udpDataV2PeerID_def isControlOrAcknowledgmentOpcode_def IsControl_def opcode_values wrap_consts)
    then show "routeUDPPacketLocked s' w' address = udpPacketDeliver r"
      using c t(2,6) none by (simp add: routeUDPPacketLocked_def Let_def)
  qed
qed

lemma sample_running_fields:
  "sessionByPeer sample_running = Map.empty" "udpSessionByAddress sample_running = Map.empty"
  "lifecycleState sample_running = serverLifecycleRunning" "resourcePolicy sample_running = sample_policy"
  by (simp_all add: sample_running_def newTLSServer_def sample_policy_def sample_limits_def)

lemma sample_opened:
  "\<exists>s'. acceptUnboundUDPPacket cookie_crypto (0, 0) sample_signer no_protection True 0 sample_answer (Some sample_address)
     ''192.0.2.1:1194'' 0 sample_running = Some ((True, None), s')"
proof -
  have "\<exists>r. preDecryptUDPPacket cookie_crypto (0, 0) sample_signer no_protection True sample_answer (Some sample_address) 0 sample_policy =
      (Inr r, sample_policy) \<and> verdict r = udpPreDecryptAccept"
    unfolding preDecryptUDPPacket_def sample_decoded
    by (simp add: answer_packet_def zero_packet_def opcode_values zero_session_id_def SessionIDLength_def validateAt_iff
        empty_result_def deriveSessionIDAt_def cookie_crypto_def sample_signer_def replicate_8 some_bucket)
  then obtain r where pre: "preDecryptUDPPacket cookie_crypto (0, 0) sample_signer no_protection True sample_answer (Some sample_address) 0
      sample_policy = (Inr r, sample_policy)" "verdict r = udpPreDecryptAccept" by blast
  have possible: "isPossibleUDPPreDecryptPacket sample_answer"
    by (simp add: isPossibleUDPPreDecryptPacket_def sample_answer_def wrap_consts zero_session_id_def SessionIDLength_def opcode_values replicate_8)
  have "allowNewConnection 0 sample_policy = (True, sample_policy)" "refundInitialPacket sample_policy = sample_policy"
    "\<exists>p. reserveInstance sample_policy = (True, p)"
    by (simp_all add: allowNewConnection_def refundInitialPacket_def reserveInstance_def sample_policy_def newServerResourcePolicy_def
        defaultServerMaxClients_def)
  then show ?thesis
    using pre possible
    by (auto simp: acceptUnboundUDPPacket_def sample_running_fields registerSession_def bindPeerAddressLocked_def
        reserveLoopWorker_def Let_def)
qed

theorem udp_session_opened_witness:
  "\<exists>s'. acceptUnboundUDPPacket cookie_crypto (0, 0) sample_signer no_protection True 0 sample_answer (Some sample_address)
     ''192.0.2.1:1194'' 0 sample_running = Some ((True, None), s') \<and> instances (resourcePolicy s') = 1"
proof -
  have "routeUDPPacketLocked sample_running sample_answer ''192.0.2.1:1194'' = udpPacketUnbound"
    by (simp add: routeUDPPacketLocked_def sample_answer_def udpDataV2PeerID_def isControlOrAcknowledgmentOpcode_def IsControl_def
        opcode_values wrap_consts sample_running_def newTLSServer_def)
  from udp_session_opened [OF sample_running_reachable sample_running_fresh this] sample_opened show ?thesis
    by (force simp: sample_running_def newTLSServer_def newServerResourcePolicy_def)
qed

end
