(* ===== verification/Options.thy ===== *)
theory Options
  imports Control_Wrap Udp_Admission Netip_Text
begin

text \<open>
  The option structures of options.go. Fields that hold functions, sockets, contexts or loggers appear
  as whether they are set; the fields that none of the modelled functions reads keep their types.
\<close>

definition ModeTLS :: string where "ModeTLS = ''tls''"
definition ModeStaticKey :: string where "ModeStaticKey = ''static_key''"

record PullFilter =
  filter_Action :: string
  filter_Text :: string

record Remote =
  remote_Host :: string
  remote_Port :: u16
  remote_Protocol :: string

record TunnelRoute =
  route_Prefix :: prefix
  route_Gateway :: addr
  route_Metric :: int

record TunnelDNSServer =
  dns_Priority :: int
  dns_Addresses :: "addr_port list"
  dns_ResolveDomains :: "string list"
  dns_DNSSEC :: string
  dns_Transport :: string
  dns_SNI :: string

definition maxTunnelDNSServerAddresses :: nat where "maxTunnelDNSServerAddresses = 8"

section \<open>Client options\<close>

record ClientTransportOptions =
  ct_Remotes :: "Remote list"
  ct_RemoteRandom :: bool
  ct_DialContext :: bool
  ct_DialContextWithAddressIndex :: bool
  ct_Protocol :: string
  ct_ExplicitExitNotify :: u32

record ClientDataChannelOptions =
  cd_MTU :: u32
  cd_MSSFix :: u32
  cd_MSSFixDisabled :: bool
  cd_MSSFixMode :: string
  cd_Fragment :: u32
  cd_Cipher :: string
  cd_Ciphers :: "string list"
  cd_FallbackCipher :: string
  cd_Auth :: string
  cd_Compression :: string
  cd_CompressionLZO :: string
  cd_AllowCompression :: string
  cd_ReplayWindow :: u32
  cd_ReplayWindowTime :: duration
  cd_PacketHeadroom :: int

record TLSOptions =
  tls_CertificateAuthority :: Material
  tls_Certificate :: Material
  tls_Key :: Material
  tls_Auth :: Material
  tls_Crypt :: Material
  tls_CryptV2 :: Material
  tls_VerifyX509Name :: string
  tls_VerifyX509Type :: string
  tls_PeerFingerprint :: "string list"
  tls_CRLVerify :: string
  tls_RemoteCertificateKU :: "string list"
  tls_RemoteCertificateEKU :: string
  tls_RemoteCertificateTLS :: string
  tls_NSCertificateType :: string
  tls_VersionMin :: string
  tls_VersionMax :: string
  tls_CertificateProfile :: string
  tls_Cipher :: string
  tls_Groups :: string

text \<open>\<open>ClientTLSOptions\<close> has exactly these fields; \<open>ServerTLSOptions\<close> adds two.\<close>

record ServerTLSOptions = TLSOptions +
  tls_CryptV2ForceCookie :: bool
  tls_VerifyClientCertificate :: string

record ClientAuthenticationOptions =
  ca_Username :: string
  ca_Password :: string
  ca_AuthRetry :: string
  ca_StaticChallenge :: string
  ca_StaticChallengeEcho :: bool

record ClientPullOptions =
  pull_Enabled :: bool
  pull_Filters :: "PullFilter list"
  pull_RouteNoPull :: bool

record ClientTunnelOptions =
  cn_DevType :: string
  cn_Topology :: string
  cn_RedirectGateway :: bool
  cn_RedirectGatewayFlags :: "string list"
  cn_RedirectPrivate :: bool
  cn_RouteMetric :: int
  cn_BlockIPv6 :: bool
  cn_BlockOutsideDNS :: bool
  cn_RouteGateway :: addr
  cn_Routes :: "TunnelRoute list"
  cn_DHCPOptions :: "string list"
  cn_LocalAddress :: "prefix list"
  cn_VPNGateway :: addr
  cn_VPNGatewayIPv6 :: addr

record ClientTimingOptions =
  cm_RenegotiationInterval :: duration
  cm_RenegotiationDisabled :: bool
  cm_RenegotiationBytes :: u64
  cm_RenegotiationPackets :: u64
  cm_PingInterval :: duration
  cm_PingRestart :: duration
  cm_PingRestartDisabled :: bool
  cm_TLSTimeout :: duration
  cm_HandWindow :: duration

record ClientOptions =
  c_Mode :: string
  c_Transport :: ClientTransportOptions
  c_DataChannel :: ClientDataChannelOptions
  c_TLS :: TLSOptions
  c_Authentication :: ClientAuthenticationOptions
  c_Pull :: ClientPullOptions
  c_Tunnel :: ClientTunnelOptions
  c_Timing :: ClientTimingOptions
  c_StaticKey :: Material
  c_KeyDirection :: int
  c_OnTunnelConfiguration :: bool

section \<open>Server options\<close>

record ServerTransportOptions =
  st_ListenAddress :: string
  st_RemoteAddress :: string
  st_Listener :: bool
  st_PacketConn :: bool
  st_Protocol :: string

record ServerDataChannelOptions =
  sd_MTU :: u32
  sd_MSSFix :: u32
  sd_MSSFixDisabled :: bool
  sd_MSSFixMode :: string
  sd_Cipher :: string
  sd_Ciphers :: "string list"
  sd_FallbackCipher :: string
  sd_Auth :: string
  sd_ReplayWindow :: u32
  sd_ReplayWindowTime :: duration
  sd_PacketHeadroom :: int

record ServerAuthenticationOptions =
  sa_Authenticator :: bool
  sa_DuplicateCN :: bool

record ServerTimingOptions =
  sm_RenegotiationInterval :: duration
  sm_RenegotiationDisabled :: bool
  sm_RenegotiationBytes :: u64
  sm_RenegotiationPackets :: u64
  sm_HandWindow :: duration
  sm_PingInterval :: duration
  sm_PingRestart :: duration

record ServerTunnelOptions =
  sn_AddressPools :: "prefix list"
  sn_Topology :: string
  sn_LocalAddress :: "prefix list"
  sn_VPNGateway :: addr
  sn_VPNGatewayIPv6 :: addr

record ServerPushOptions =
  sp_Routes :: "prefix list"
  sp_DNS :: "addr list"
  sp_DNSServers :: "TunnelDNSServer list"
  sp_SearchDomains :: "string list"
  sp_DHCPOptions :: "string list"
  sp_BlockOutsideDNS :: bool
  sp_PingInterval :: duration
  sp_PingIntervalEnabled :: bool
  sp_PingRestart :: duration
  sp_PingRestartEnabled :: bool
  sp_RedirectGateway :: bool
  sp_RedirectGatewayFlags :: "string list"

record ServerOptions =
  s_Mode :: string
  s_Transport :: ServerTransportOptions
  s_Resources :: ServerResourceOptions
  s_DataChannel :: ServerDataChannelOptions
  s_TLS :: ServerTLSOptions
  s_Authentication :: ServerAuthenticationOptions
  s_Timing :: ServerTimingOptions
  s_Tunnel :: ServerTunnelOptions
  s_Push :: ServerPushOptions
  s_StaticKey :: Material
  s_KeyDirection :: int

section \<open>The tunnel configuration of a client\<close>

record TunnelConfiguration =
  tun_DevType :: string
  tun_Topology :: string
  tun_TunMTU :: u32
  tun_LocalIPv4 :: "prefix list"
  tun_LocalIPv6 :: "prefix list"
  tun_VPNGateway :: addr
  tun_VPNGatewayIPv6 :: addr
  tun_IPv4Routes :: "TunnelRoute list"
  tun_IPv6Routes :: "TunnelRoute list"
  tun_ExcludedIPv4Routes :: "TunnelRoute list"
  tun_ExcludedIPv6Routes :: "TunnelRoute list"
  tun_DNS :: "addr list"
  tun_DNSServers :: "TunnelDNSServer list"
  tun_DHCPOptions :: "string list"
  tun_SearchDomains :: "string list"
  tun_DNSRoutes :: "string list"
  tun_BlockIPv6 :: bool
  tun_BlockOutsideDNS :: bool
  tun_RedirectGateway :: bool
  tun_RedirectGatewayFlags :: "string list"
  tun_RedirectPrivate :: bool
  tun_RouteMetric :: int
  tun_RouteGateway :: addr
  tun_PingInterval :: duration
  tun_PingRestart :: duration
  tun_AuthToken :: string
  tun_AuthTokenUser :: string
  tun_ExplicitExitNotify :: u32
  tun_PeerID :: "u32 option"
  tun_SelectedCipher :: string
  tun_SelectedAuth :: string
  tun_ProtocolFlags :: "string list"
  tun_KeyDerivation :: string
  tun_InactiveTimeout :: duration
  tun_InactiveMinimumBytes :: u64
  tun_SessionTimeout :: duration
  tun_PingExit :: duration
  tun_PingTimerRemote :: bool

end
