(* ===== verification/Route_Options.thy ===== *)
theory Route_Options
  imports Netip_Text Ip_Pool
begin

text \<open>
  Pushed interface addresses and routes, route_options.go: how the client reads the values of
  \<open>ifconfig\<close>, \<open>ifconfig-ipv6\<close>, \<open>route\<close> and \<open>route-ipv6\<close>, every error branch included, and the proofs that
  it reads back what push_options.go writes.
\<close>

section \<open>Tokens\<close>

text \<open>\<open>strings.Cut\<close> at a single character.\<close>

definition str_Cut :: "string \<Rightarrow> char \<Rightarrow> string \<times> string \<times> bool" where
  "str_Cut s c = (if c \<in> set s then (takeWhile (\<lambda>x. x \<noteq> c) s, tl (dropWhile (\<lambda>x. x \<noteq> c) s), True) else (s, [], False))"

definition isIPv4MaskGateway :: "addr \<Rightarrow> bool" where
  "isIPv4MaskGateway address =
     (if \<not> Is4 address then False else case mask_Size (As4 address) of Some maskSize \<Rightarrow> maskSize < 32 | None \<Rightarrow> False)"

fun parseIfconfigVPNGateway_values :: "string list \<Rightarrow> addr" where
  "parseIfconfigVPNGateway_values [] = NoAddr"
| "parseIfconfigVPNGateway_values (ifconfigValue # ifconfigValues) =
     (let ifconfigFields = Fields ifconfigValue
      in if length ifconfigFields < 2 then parseIfconfigVPNGateway_values ifconfigValues
         else case ParseAddr (ifconfigFields ! 1) of
                Inl _ \<Rightarrow> parseIfconfigVPNGateway_values ifconfigValues
              | Inr gatewayAddress \<Rightarrow>
                  if \<not> Is4 gatewayAddress \<or> isIPv4MaskGateway gatewayAddress
                  then parseIfconfigVPNGateway_values ifconfigValues else gatewayAddress)"

definition parseIfconfigVPNGateway :: "string list \<Rightarrow> string \<Rightarrow> addr" where
  "parseIfconfigVPNGateway ifconfigValues topology =
     (if ToLower (TrimSpace topology) = ''subnet'' then NoAddr else parseIfconfigVPNGateway_values ifconfigValues)"

definition isNetGatewayToken :: "string \<Rightarrow> bool" where
  "isNetGatewayToken routeGateway =
     (let normalizedGateway = ToLower (TrimSpace routeGateway)
      in normalizedGateway = ''net_gateway'' \<or> normalizedGateway = ''dhcp'')"

definition parseDottedIPv4Mask :: "string \<Rightarrow> nat option" where
  "parseDottedIPv4Mask token = (case ParseIP_To4 token of None \<Rightarrow> None | Some mask4 \<Rightarrow> mask_Size mask4)"

section \<open>Interface addresses\<close>

definition parseIfconfigPrefix :: "string \<Rightarrow> string \<Rightarrow> prefix result" where
  "parseIfconfigPrefix ifconfig topology =
     (let trimmed = TrimSpace ifconfig
      in if trimmed = [] then Inl (New ''empty ifconfig'')
         else if CHR ''/'' \<in> set trimmed then
           (case ParsePrefix trimmed of Inl _ \<Rightarrow> Inl (New ''parse ifconfig cidr'') | Inr prefix \<Rightarrow> Inr prefix)
         else
           let tokens = Fields trimmed
           in if length tokens \<noteq> 2 then Inl (New ''invalid ifconfig'')
              else case ParseAddr (tokens ! 0) of
                Inl _ \<Rightarrow> Inl (New ''parse ifconfig local'')
              | Inr localAddress \<Rightarrow>
                  if \<not> Is4 localAddress then Inl (New ''ipv4 ifconfig expected'')
                  else
                    let mask = parseDottedIPv4Mask (tokens ! 1);
                        normalizedTopology = ToLower (TrimSpace topology);
                        normalizedTopology =
                          (if normalizedTopology = [] then if mask \<noteq> None then ''subnet'' else ''net30''
                           else normalizedTopology)
                    in if normalizedTopology = ipv4TopologySubnet then
                         (case mask of
                            None \<Rightarrow> Inl (New ''ifconfig subnet topology requires dotted-quad netmask'')
                          | Some bits \<Rightarrow> Inr (PrefixFrom localAddress (int bits)))
                       else if normalizedTopology = ipv4TopologyP2P \<or> normalizedTopology = ipv4TopologyNet30 then
                         (case ParseAddr (tokens ! 1) of
                            Inl _ \<Rightarrow> Inl (New ''parse ifconfig peer'')
                          | Inr peer \<Rightarrow>
                              if \<not> Is4 peer then Inl (New ''ipv4 ifconfig peer expected'')
                              else if normalizedTopology = ipv4TopologyP2P then Inr (PrefixFrom localAddress 32)
                              else Inr (PrefixFrom localAddress 30))
                       else Inl (New ''unsupported topology''))"

definition parseIPv6Address :: "string \<Rightarrow> addr result" where
  "parseIPv6Address token =
     (case ParseAddr token of
        Inl _ \<Rightarrow> Inl (New ''parse ipv6 address'')
      | Inr address \<Rightarrow>
          if \<not> Is6 address \<or> addr_Zone_text address \<noteq> [] then Inl (New ''ipv6 address expected'') else Inr address)"

definition parseIPv6AddressPrefix :: "string \<Rightarrow> prefix result" where
  "parseIPv6AddressPrefix token =
     (case str_Cut token (CHR ''/'') of (addressToken, netbitsToken, netbitsFound) \<Rightarrow>
        bindE
          (if netbitsFound then
             if netbitsToken \<noteq> [] then
               (case Atoi netbitsToken of
                  Inl _ \<Rightarrow> Inl (New ''invalid /bits spec'')
                | Inr parsedNetbits \<Rightarrow> if parsedNetbits < 0 \<or> parsedNetbits > 128 then Inl (New ''invalid /bits spec'') else Inr parsedNetbits)
             else Inr 0
           else Inr 64)
          (\<lambda>netbits.
             case parseIPv6Address addressToken of
               Inl _ \<Rightarrow> Inl (New ''ipv6 prefix'')
             | Inr address \<Rightarrow> Inr (PrefixFrom address netbits)))"

definition parseIfconfigIPv6 :: "string \<Rightarrow> (prefix \<times> addr) result" where
  "parseIfconfigIPv6 row =
     (let tokens = Fields (TrimSpace row)
      in if length tokens \<noteq> 2 then Inl (New ''ifconfig-ipv6 expects a local and a remote endpoint'')
         else bindE (parseIPv6AddressPrefix (tokens ! 0)) (\<lambda>localPrefix.
                bindE (parseIPv6Address (tokens ! 1)) (\<lambda>remoteAddress.
                  if prefix_Bits localPrefix < 64 \<or> prefix_Bits localPrefix > 124
                  then Inl (New ''ifconfig-ipv6 netbits must be between 64 and 124'')
                  else Inr (localPrefix, remoteAddress))))"

section \<open>Routes\<close>

definition parsePushedRouteGateway :: "string \<Rightarrow> addr \<Rightarrow> bool \<Rightarrow> (addr \<times> bool) result" where
  "parsePushedRouteGateway token remoteHost ipv4 =
     (let trimmedToken = TrimSpace token
      in if trimmedToken = [] then Inr (NoAddr, False)
         else if EqualFold trimmedToken ''vpn_gateway'' then Inr (NoAddr, False)
         else if EqualFold trimmedToken ''remote_host'' then
           if IsValid remoteHost \<and> Is4 remoteHost = ipv4 then Inr (remoteHost, False) else Inr (NoAddr, False)
         else if isNetGatewayToken trimmedToken then Inr (NoAddr, True)
         else bindE (ParseAddr trimmedToken) (\<lambda>gateway.
                if Is4 gateway \<noteq> ipv4
                then if ipv4 then Inl (New ''ipv4 route gateway expected'') else Inl (New ''ipv6 route gateway expected'')
                else Inr (gateway, False)))"

text \<open>
  The tail of both route forms: an optional metric or gateway at \<open>nextIndex\<close>, then an optional metric.
\<close>

definition route_tail :: "string list \<Rightarrow> nat \<Rightarrow> addr \<Rightarrow> bool \<Rightarrow> (addr \<times> int \<times> bool) result" where
  "route_tail tokens nextIndex remoteHost ipv4 =
     bindE
       (if length tokens > nextIndex then
          (case Atoi (tokens ! nextIndex) of
             Inr parsedMetric \<Rightarrow> Inr (NoAddr, parsedMetric, False, nextIndex + 1)
           | Inl _ \<Rightarrow>
               (case parsePushedRouteGateway (tokens ! nextIndex) remoteHost ipv4 of
                  Inl _ \<Rightarrow> Inl (New ''parse route gateway'')
                | Inr (gatewayAddress, gatewayExcluded) \<Rightarrow> Inr (gatewayAddress, 0, gatewayExcluded, nextIndex + 1)))
        else Inr (NoAddr, 0, False, nextIndex))
       (\<lambda>(gateway, metric, excluded, nextIndex).
          if length tokens > nextIndex then
            (case Atoi (tokens ! nextIndex) of
               Inl _ \<Rightarrow> Inl (New ''parse route metric'')
             | Inr parsedMetric \<Rightarrow> Inr (gateway, parsedMetric, excluded))
          else Inr (gateway, metric, excluded))"

definition parsePushedRoute :: "string \<Rightarrow> addr \<Rightarrow> (prefix \<times> addr \<times> int \<times> bool) result" where
  "parsePushedRoute row remoteHost =
     (let tokens = Fields (TrimSpace row)
      in if length tokens = 0 then Inl (New ''empty route'')
         else bindE
           (if CHR ''/'' \<in> set (tokens ! 0) then
              (case ParsePrefix (tokens ! 0) of
                 Inl _ \<Rightarrow> Inl (New ''parse route destination'')
               | Inr destinationPrefix \<Rightarrow>
                   if \<not> Is4 (prefix_Addr destinationPrefix) then Inl (New ''ipv4 route expected'')
                   else Inr (prefix_Addr destinationPrefix, prefix_Bits destinationPrefix, 1))
            else
              (case ParseAddr (tokens ! 0) of
                 Inl _ \<Rightarrow> Inl (New ''parse route destination'')
               | Inr address \<Rightarrow>
                   if \<not> Is4 address then Inl (New ''ipv4 route expected'')
                   else if length tokens \<ge> 2 then
                     (case parseDottedIPv4Mask (tokens ! 1) of
                        Some maskBits \<Rightarrow> Inr (address, int maskBits, 2)
                      | None \<Rightarrow> Inr (address, 32, 1))
                   else Inr (address, 32, 1)))
           (\<lambda>(destinationAddress, bits, nextIndex).
              bindE (route_tail tokens nextIndex remoteHost True) (\<lambda>(gateway, metric, excluded).
                if bits < 0 \<or> bits > 32 then Inl (New ''invalid ipv4 prefix bits'')
                else Inr (PrefixFrom destinationAddress bits, gateway, metric, excluded))))"

definition parsePushedRouteIPv6 :: "string \<Rightarrow> addr \<Rightarrow> (prefix \<times> addr \<times> int \<times> bool) result" where
  "parsePushedRouteIPv6 row remoteHost =
     (let tokens = Fields (TrimSpace row)
      in if length tokens = 0 then Inl (New ''empty route-ipv6'')
         else case parseIPv6AddressPrefix (tokens ! 0) of
           Inl _ \<Rightarrow> Inl (New ''parse route-ipv6 destination'')
         | Inr prefix \<Rightarrow>
             bindE (route_tail tokens 1 remoteHost False) (\<lambda>(gateway, metric, excluded).
               Inr (Masked prefix, gateway, metric, excluded)))"

section \<open>Words of a line\<close>

definition word_ok :: "string \<Rightarrow> bool" where
  "word_ok t \<longleftrightarrow> t \<noteq> [] \<and> (\<forall>c \<in> set t. \<not> is_space c)"

lemma space_is_space [simp]: "is_space (CHR '' '')"
  by (simp add: is_space_def)

lemma fields_from_word: "\<forall>c \<in> set t. \<not> is_space c \<Longrightarrow> fields_from cur (t @ s) = fields_from (rev t @ cur) s"
  by (induction t arbitrary: cur) simp_all

lemma Fields_words: "\<forall>t \<in> set ts. word_ok t \<Longrightarrow> Fields (str_Join ts '' '') = ts"
proof (induction ts rule: induct_list012)
  case (2 t)
  then show ?case using fields_from_word [of t "[]" "[]"] by (simp add: Fields_def word_ok_def)
next
  case (3 t u ts)
  have "Fields (str_Join (t # u # ts) '' '') = t # Fields (str_Join (u # ts) '' '')"
    using 3(3) fields_from_word [of t "[]"] by (simp add: Fields_def word_ok_def)
  then show ?case using 3 by simp
qed (simp add: Fields_def)

lemma TrimSpace_ends:
  assumes "s \<noteq> []" "\<not> is_space (hd s)" "\<not> is_space (last s)"
  shows "TrimSpace s = s"
proof -
  have d: "dropWhile is_space t = t" if "t \<noteq> []" "\<not> is_space (hd t)" for t using that by (cases t) auto
  show ?thesis using assms d [of s] d [of "rev s"] by (simp add: TrimSpace_def hd_rev)
qed

lemma hd_last_words:
  assumes "ts \<noteq> []" "\<forall>t \<in> set ts. word_ok t"
  shows "str_Join ts '' '' \<noteq> []" "\<not> is_space (hd (str_Join ts '' ''))" "\<not> is_space (last (str_Join ts '' ''))"
  using assms by (induction ts rule: induct_list012) (auto simp: word_ok_def hd_append)

lemma TrimSpace_words: "\<forall>t \<in> set ts. word_ok t \<Longrightarrow> TrimSpace (str_Join ts '' '') = str_Join ts '' ''"
  by (cases "ts = []") (simp add: TrimSpace_def, rule TrimSpace_ends, simp_all add: hd_last_words)

lemma addr_char_plain: "addr_char c \<Longrightarrow> \<not> is_space c \<and> c \<noteq> CHR ''/'' \<and> c \<noteq> CHR '',''"
  by (auto simp: addr_char_def is_space_def)

lemma addr_text_neq: "IsValid a \<Longrightarrow> zone_free a \<Longrightarrow> addr_text a \<noteq> []"
proof
  assume "IsValid a" "zone_free a" "addr_text a = []"
  with ParseAddr_text [of a] have "ParseAddr [] = Inr a" by simp
  then show False by (simp add: ParseAddr_def)
qed

lemma word_addr: "IsValid a \<Longrightarrow> zone_free a \<Longrightarrow> word_ok (addr_text a)"
  unfolding word_ok_def using addr_text_neq addr_text_chars addr_char_plain by blast

lemma word_v4: "word_ok (v4_text v)" "CHR ''/'' \<notin> set (v4_text v)"
  using word_addr [of "V4 v"] addr_char_v4 [of "CHR ''/''" v] by (auto simp: addr_char_def)

lemma word_prefix: "prefix_ok p \<Longrightarrow> word_ok (prefix_text p)"
  using word_addr digits_chars(6) by (cases p) (auto simp: word_ok_def is_space_def)

lemma no_slash_addr: "IsValid a \<Longrightarrow> zone_free a \<Longrightarrow> CHR ''/'' \<notin> set (addr_text a)"
  using addr_text_chars addr_char_plain by blast

lemma parse_digits_chars: "parse_digits acc s = Some n \<Longrightarrow> c \<in> set s \<Longrightarrow> (48 :: nat) \<le> of_char c \<and> of_char c \<le> (57 :: nat)"
  by (induction acc s rule: parse_digits.induct) (auto split: if_splits)

lemma Atoi_chars:
  assumes "Atoi s = Inr n" "c \<in> set s"
  shows "c = CHR ''-'' \<or> c = CHR ''+'' \<or> (48 :: nat) \<le> of_char c \<and> of_char c \<le> (57 :: nat)"
proof (cases s)
  case (Cons a r)
  let ?t = "if a = CHR ''-'' \<or> a = CHR ''+'' then r else s"
  have "parse_digits 0 ?t \<noteq> None"
  proof
    assume "parse_digits 0 ?t = None"
    then show False using assms(1) unfolding Cons
      by (cases "a = CHR ''-''"; cases "a = CHR ''+''") (simp_all add: Atoi_def del: parse_digits.simps split: if_splits)
  qed
  then obtain m where "parse_digits 0 ?t = Some m" by blast
  then show ?thesis using parse_digits_chars [of 0 ?t m c] assms(2) Cons by (cases "a = CHR ''-''"; cases "a = CHR ''+''") auto
qed (use assms in simp)

lemma Atoi_addr:
  assumes "IsValid a" "zone_free a"
  shows "\<exists>e. Atoi (addr_text a) = Inl e"
proof (rule ccontr)
  assume "\<nexists>e. Atoi (addr_text a) = Inl e"
  then obtain n where n: "Atoi (addr_text a) = Inr n" by (cases "Atoi (addr_text a)") auto
  have "find (\<lambda>c. c \<in> {CHR ''.'', CHR '':'', CHR ''%''}) (addr_text a) \<noteq> None"
  proof
    assume "find (\<lambda>c. c \<in> {CHR ''.'', CHR '':'', CHR ''%''}) (addr_text a) = None"
    then have "ParseAddr (addr_text a) = Inl (New ''unable to parse IP'')" by (simp add: ParseAddr_def)
    then show False using ParseAddr_text [OF assms] by simp
  qed
  then obtain c where c: "c \<in> set (addr_text a)" "c \<in> {CHR ''.'', CHR '':'', CHR ''%''}"
    unfolding find_None_iff by blast
  from Atoi_chars [OF n c(1)] c(2) show False by auto
qed

section \<open>Reading back what the server writes\<close>

lemma dotted_mask: "n \<le> 32 \<Longrightarrow> parseDottedIPv4Mask (v4_text (CIDRMask n)) = Some n"
  by (simp add: parseDottedIPv4Mask_def ParseIP_mask mask_Size_CIDRMask)

lemma dotted_addr: "parseDottedIPv4Mask (v4_text v) = mask_Size v"
  by (simp add: parseDottedIPv4Mask_def ParseIP_mask)

lemma two_words:
  assumes "word_ok s" "word_ok t"
  shows "TrimSpace (s @ '' '' @ t) = s @ '' '' @ t" "Fields (s @ '' '' @ t) = [s, t]" "s @ '' '' @ t \<noteq> []"
  using TrimSpace_words [of "[s, t]"] Fields_words [of "[s, t]"] assms by simp_all

lemma ifconfig_subnet:
  assumes "n \<le> 32"
  shows "parseIfconfigPrefix (v4_text v @ '' '' @ v4_text (CIDRMask n)) ''subnet'' = Inr (Prefix (V4 v) n)"
proof -
  note w = two_words [OF word_v4(1) [of v] word_v4(1) [of "CIDRMask n"]]
  have "TrimSpace ''subnet'' = ''subnet''" "ToLower ''subnet'' = ''subnet''"
    by (simp_all add: TrimSpace_def is_space_def ToLower_def lower_char_def)
  then show ?thesis
    unfolding parseIfconfigPrefix_def w Let_def
    using assms word_v4(2) by (simp add: ParseAddr_v4 dotted_mask ipv4TopologySubnet_def PrefixFrom_def)
qed

lemma ifconfig_endpoints:
  assumes "t = ipv4TopologyP2P \<and> n = 32 \<or> t = ipv4TopologyNet30 \<and> n = 30"
  shows "parseIfconfigPrefix (v4_text v @ '' '' @ v4_text peer) t = Inr (Prefix (V4 v) n)"
    "\<not> isIPv4MaskGateway (V4 peer) \<Longrightarrow> parseIfconfigVPNGateway [v4_text v @ '' '' @ v4_text peer] t = V4 peer"
proof -
  note w = two_words [OF word_v4(1) [of v] word_v4(1) [of peer]]
  have t: "TrimSpace t = t" "ToLower t = t" "t \<noteq> []" "t \<noteq> ''subnet''"
    using assms by (auto simp: TrimSpace_def is_space_def ToLower_def lower_char_def ipv4TopologyP2P_def ipv4TopologyNet30_def)
  show "parseIfconfigPrefix (v4_text v @ '' '' @ v4_text peer) t = Inr (Prefix (V4 v) n)"
    unfolding parseIfconfigPrefix_def w Let_def t
    using assms word_v4(2) t
    by (auto simp: ParseAddr_v4 ipv4TopologyP2P_def ipv4TopologyNet30_def ipv4TopologySubnet_def PrefixFrom_def)
  show "\<not> isIPv4MaskGateway (V4 peer) \<Longrightarrow> parseIfconfigVPNGateway [v4_text v @ '' '' @ v4_text peer] t = V4 peer"
    using t w(2) by (simp add: parseIfconfigVPNGateway_def Let_def ParseAddr_v4)
qed

lemma Cut_none: "c \<notin> set s \<Longrightarrow> str_Cut s c = (s, [], False)"
  by (simp add: str_Cut_def)

lemma Cut_at: "c \<notin> set s \<Longrightarrow> str_Cut (s @ c # t) c = (s, t, True)"
  unfolding str_Cut_def by (subst takeWhile_append2, blast, subst dropWhile_append2, blast) simp

lemma IPv6Address_text:
  assumes "Is6 a" "zone_free a"
  shows "parseIPv6Address (addr_text a) = Inr a"
proof -
  have "ParseAddr (addr_text a) = Inr a" using assms by (intro ParseAddr_text) simp_all
  moreover have "addr_Zone_text a = []" using assms by (cases a) simp_all
  ultimately show ?thesis using assms(1) by (simp add: parseIPv6Address_def)
qed

lemma IPv6Prefix_text:
  assumes "prefix_ok (Prefix a b)" "Is6 a"
  shows "parseIPv6AddressPrefix (prefix_text (Prefix a b)) = Inr (Prefix a b)"
proof -
  have a: "IsValid a" "zone_free a" "b \<le> 128" using assms by (cases a; simp)+
  have "str_Cut (prefix_text (Prefix a b)) (CHR ''/'') = (addr_text a, FormatUint b, True)"
    using Cut_at [OF no_slash_addr [OF a(1,2)]] by simp
  then show ?thesis using a assms IPv6Address_text [of a] Atoi_FormatUint [of b] PrefixFrom_ok [OF assms(1)]
    by (simp add: parseIPv6AddressPrefix_def)
qed

lemma ifconfig_ipv6:
  assumes "prefix_ok (Prefix a b)" "Is6 a" "64 \<le> b" "b \<le> 124" "Is6 peer" "zone_free peer"
  shows "parseIfconfigIPv6 (prefix_text (Prefix a b) @ '' '' @ addr_text peer) = Inr (Prefix a b, peer)"
proof -
  have "word_ok (addr_text peer)" using assms(5,6) by (intro word_addr) simp_all
  note w = two_words [OF word_prefix [OF assms(1)] this]
  show ?thesis unfolding parseIfconfigIPv6_def w Let_def
    using IPv6Prefix_text [OF assms(1,2)] IPv6Address_text [OF assms(5,6)] assms(3,4) by (simp del: prefix_text.simps)
qed

text \<open>A route with at most a gateway and a metric after the destination.\<close>

lemma TrimSpace_addr: "IsValid a \<Longrightarrow> zone_free a \<Longrightarrow> TrimSpace (addr_text a) = addr_text a"
  using word_addr by (intro TrimSpace_id) (simp add: word_ok_def)

lemma not_keyword:
  assumes "IsValid a" "zone_free a"
  shows "\<not> EqualFold (addr_text a) ''vpn_gateway''" "\<not> EqualFold (addr_text a) ''remote_host''" "\<not> isNetGatewayToken (addr_text a)"
proof -
  have l: "c \<in> set (ToLower (addr_text a)) \<Longrightarrow> addr_char c" for c
  proof -
    assume "c \<in> set (ToLower (addr_text a))"
    then obtain x where x: "x \<in> set (addr_text a)" "c = lower_char x" by (auto simp: ToLower_def)
    have "addr_char x" by (rule addr_text_chars [OF assms x(1)])
    then show "addr_char c" unfolding x(2) by (auto simp: lower_char_def addr_char_def)
  qed
  have "CHR ''p'' \<notin> set (ToLower (addr_text a))" "CHR ''t'' \<notin> set (ToLower (addr_text a))"
    using l [of "CHR ''p''"] l [of "CHR ''t''"] by (auto simp: addr_char_def)
  moreover have "ToLower ''vpn_gateway'' = ''vpn_gateway''" "ToLower ''remote_host'' = ''remote_host''"
    by (simp_all add: ToLower_def lower_char_def)
  ultimately show "\<not> EqualFold (addr_text a) ''vpn_gateway''" "\<not> EqualFold (addr_text a) ''remote_host''"
      "\<not> isNetGatewayToken (addr_text a)"
    by (auto simp: EqualFold_def isNetGatewayToken_def TrimSpace_addr [OF assms] Let_def)
qed

lemma RouteGateway_text:
  assumes "IsValid gw" "zone_free gw"
  shows "parsePushedRouteGateway (addr_text gw) remoteHost (Is4 gw) = Inr (gw, False)"
  using not_keyword [OF assms] ParseAddr_text [OF assms] addr_text_neq [OF assms]
  by (simp add: parsePushedRouteGateway_def TrimSpace_addr [OF assms] Let_def)

definition route_tail_words :: "addr \<Rightarrow> int \<Rightarrow> string list" where
  "route_tail_words gw metric =
     (if IsValid gw then addr_text gw # (if metric \<noteq> 0 then [Itoa metric] else []) else [])"

lemma Atoi_Itoa:
  assumes "- (2 ^ 63) \<le> m" "m < 2 ^ 63"
  shows "Atoi (Itoa m) = Inr m"
proof (cases "m < 0")
  case True
  then have "nat (- m) \<le> 2 ^ 63" using assms(1) by simp
  then show ?thesis using True by (simp add: Atoi_def Itoa_def)
next
  case False
  then have "nat m < 2 ^ 63" using assms(2) by simp
  then show ?thesis using False Atoi_FormatUint [of "nat m"] by (simp add: Itoa_def)
qed

lemma word_Itoa: "word_ok (Itoa m)"
  using digits_chars(6) by (auto simp: word_ok_def Itoa_def is_space_def)

definition metric_ok :: "int \<Rightarrow> bool" where
  "metric_ok m \<longleftrightarrow> - (2 ^ 63) \<le> m \<and> m < 2 ^ 63"

lemma words_route_tail: "zone_free gw \<Longrightarrow> t \<in> set (route_tail_words gw metric) \<Longrightarrow> word_ok t"
  by (auto simp: route_tail_words_def word_addr word_Itoa split: if_splits)

lemma route_tail_text:
  assumes "zone_free gw" "metric_ok metric" "n = length pre" "IsValid gw \<Longrightarrow> Is4 gw = ipv4"
  shows "route_tail (pre @ route_tail_words gw metric) n remoteHost ipv4 =
    Inr (gw, if IsValid gw then metric else 0, False)"
proof (cases "IsValid gw")
  case True
  obtain e where e: "Atoi (addr_text gw) = Inl e" using Atoi_addr [OF True assms(1)] by blast
  have g: "parsePushedRouteGateway (addr_text gw) remoteHost ipv4 = Inr (gw, False)"
    using RouteGateway_text [OF True assms(1)] assms(4) [OF True] by simp
  have m: "Atoi (Itoa metric) = Inr metric" using assms(2) by (intro Atoi_Itoa) (simp_all add: metric_ok_def)
  show ?thesis using True e g m assms(3) by (simp add: route_tail_def route_tail_words_def nth_append)
next
  case False
  then have "gw = NoAddr" by (cases gw) simp_all
  then show ?thesis using False assms(3) by (simp add: route_tail_def route_tail_words_def)
qed

lemma pushed_route_text:
  assumes "b \<le> 32" "zone_free gw" "metric_ok metric" "IsValid gw \<Longrightarrow> Is4 gw"
  shows "parsePushedRoute (str_Join ([v4_text net, v4_text (CIDRMask b)] @ route_tail_words gw metric) '' '') remoteHost =
    Inr (Prefix (V4 net) b, gw, if IsValid gw then metric else 0, False)"
proof -
  let ?ts = "[v4_text net, v4_text (CIDRMask b)] @ route_tail_words gw metric"
  have w: "\<forall>t \<in> set ?ts. word_ok t" using words_route_tail [OF assms(2)] word_v4(1) by auto
  have "route_tail ?ts 2 remoteHost True = Inr (gw, if IsValid gw then metric else 0, False)"
    by (rule route_tail_text) (use assms in simp_all)
  then show ?thesis
    unfolding parsePushedRoute_def TrimSpace_words [OF w] Fields_words [OF w] Let_def
    using assms(1) word_v4(2) by (simp add: ParseAddr_v4 dotted_mask PrefixFrom_def)
qed

lemma pushed_route_ipv6_text:
  assumes "prefix_ok (Prefix a b)" "Is6 a" "zone_free gw" "metric_ok metric" "IsValid gw \<Longrightarrow> \<not> Is4 gw"
  shows "parsePushedRouteIPv6 (str_Join (prefix_text (Prefix a b) # route_tail_words gw metric) '' '') remoteHost =
    Inr (Masked (Prefix a b), gw, if IsValid gw then metric else 0, False)"
proof -
  let ?ts = "prefix_text (Prefix a b) # route_tail_words gw metric"
  have w: "\<forall>t \<in> set ?ts. word_ok t" using words_route_tail [OF assms(3)] word_prefix [OF assms(1)] by auto
  have "route_tail ([prefix_text (Prefix a b)] @ route_tail_words gw metric) 1 remoteHost False =
      Inr (gw, if IsValid gw then metric else 0, False)"
    by (rule route_tail_text) (use assms in simp_all)
  then show ?thesis
    unfolding parsePushedRouteIPv6_def TrimSpace_words [OF w] Fields_words [OF w] Let_def
    using IPv6Prefix_text [OF assms(1,2)] by (simp del: prefix_text.simps)
qed

end
