(* ===== verification/Push_Options.thy ===== *)
theory Push_Options
  imports Options Route_Options Compression Key_Method Session_Registry
begin

text \<open>
  What the server pushes: the pushed options of tunnel_options.go, the lines of a push reply,
  push_options.go, their distribution over control payloads, server_negotiation.go, and the addresses
  a session is assigned, server_tunnel.go.
\<close>

section \<open>Pushed options\<close>

record pushedLocalAddress =
  local_Prefix :: prefix
  local_Peer :: addr
  local_Raw :: string

record pushedRoute =
  pushed_Route :: TunnelRoute
  pushed_Raw :: string

record pushedAddress =
  pushed_Address :: addr
  address_Raw :: string
  OptionName :: string

record pushedOptionParseError =
  parse_Name :: string
  parse_Value :: string
  parse_Err :: error

record pushedExcludedRoute =
  excluded_Name :: string
  excluded_Value :: string
  excluded_Route :: TunnelRoute

datatype pushOptionsKind = pushOptionsKindReply | pushOptionsKindUpdate

record pushedOptions =
  push_kind :: pushOptionsKind
  modernDNS :: bool
  modernDNSAddresses :: "pushedAddress list"
  modernSearchDomains :: "string list"
  pullFilterRejection :: string
  push_Topology :: string
  push_TunMTU :: u32
  push_LocalAddress :: "pushedLocalAddress list"
  push_RouteGateway :: addr
  push_RouteGatewayVPN :: bool
  push_RouteGatewayRaw :: string
  push_Routes :: "pushedRoute list"
  push_DNS :: "pushedAddress list"
  push_DNSServers :: "TunnelDNSServer list"
  push_DHCPOptions :: "string list"
  push_SearchDomains :: "string list"
  push_DNSRoutes :: "string list"
  push_BlockIPv6 :: bool
  push_BlockOutsideDNS :: bool
  push_RedirectGateway :: bool
  push_RedirectGatewayFlags :: "string list"
  push_RedirectPrivate :: bool
  push_RouteMetric :: int
  push_RouteMetricSet :: bool
  push_PingInterval :: duration
  push_PingIntervalEnabled :: bool
  push_PingRestart :: duration
  push_PingRestartEnabled :: bool
  push_AuthToken :: string
  push_AuthTokenUser :: string
  push_PeerID :: "u32 option"
  push_SelectedCipher :: string
  push_SelectedAuth :: string
  push_ProtocolFlags :: "string list"
  push_KeyDerivation :: string
  push_ExplicitExitNotify :: u32
  push_ExplicitExitNotifySet :: bool
  push_CompressionDirectives :: "compressionDirective list"
  push_InactiveTimeout :: duration
  push_InactiveMinimumBytes :: u64
  push_InactiveTimeoutSet :: bool
  push_SessionTimeout :: duration
  push_SessionTimeoutSet :: bool
  push_PingExit :: duration
  push_PingExitSet :: bool
  push_PingTimerRemote :: bool
  parseErrors :: "pushedOptionParseError list"
  excludedRoutes :: "pushedExcludedRoute list"

definition zero_pushedOptions :: pushedOptions where
  "zero_pushedOptions =
     \<lparr>push_kind = pushOptionsKindReply, modernDNS = False, modernDNSAddresses = [], modernSearchDomains = [],
      pullFilterRejection = [], push_Topology = [], push_TunMTU = 0, push_LocalAddress = [], push_RouteGateway = NoAddr,
      push_RouteGatewayVPN = False, push_RouteGatewayRaw = [], push_Routes = [], push_DNS = [], push_DNSServers = [],
      push_DHCPOptions = [], push_SearchDomains = [], push_DNSRoutes = [], push_BlockIPv6 = False, push_BlockOutsideDNS = False,
      push_RedirectGateway = False, push_RedirectGatewayFlags = [], push_RedirectPrivate = False, push_RouteMetric = 0,
      push_RouteMetricSet = False, push_PingInterval = 0, push_PingIntervalEnabled = False, push_PingRestart = 0,
      push_PingRestartEnabled = False, push_AuthToken = [], push_AuthTokenUser = [], push_PeerID = None, push_SelectedCipher = [],
      push_SelectedAuth = [], push_ProtocolFlags = [], push_KeyDerivation = [], push_ExplicitExitNotify = 0,
      push_ExplicitExitNotifySet = False, push_CompressionDirectives = [], push_InactiveTimeout = 0,
      push_InactiveMinimumBytes = 0, push_InactiveTimeoutSet = False, push_SessionTimeout = 0, push_SessionTimeoutSet = False,
      push_PingExit = 0, push_PingExitSet = False, push_PingTimerRemote = False, parseErrors = [], excludedRoutes = []\<rparr>"

section \<open>The server's options\<close>

fun firstPrefixByFamily :: "prefix list \<Rightarrow> bool \<Rightarrow> prefix option" where
  "firstPrefixByFamily [] ipv4 = None"
| "firstPrefixByFamily (prefix # prefixes) ipv4 =
     (if prefix_IsValid prefix \<and> Is4 (prefix_Addr prefix) = ipv4 then Some prefix else firstPrefixByFamily prefixes ipv4)"

abbreviation local_of :: "prefix \<Rightarrow> pushedLocalAddress" where
  "local_of prefix \<equiv> \<lparr>local_Prefix = prefix, local_Peer = NoAddr, local_Raw = []\<rparr>"

definition local_family :: "bool \<Rightarrow> pushedLocalAddress \<Rightarrow> bool" where
  "local_family ipv4 value \<longleftrightarrow> prefix_IsValid (local_Prefix value) \<and> Is4 (prefix_Addr (local_Prefix value)) = ipv4"

definition hasPushedLocalAddressFamily :: "pushedLocalAddress list \<Rightarrow> bool \<Rightarrow> bool" where
  "hasPushedLocalAddressFamily values ipv4 = list_ex (local_family ipv4) values"

definition applyPushedIPv6LocalAddressPeer :: "pushedLocalAddress list \<Rightarrow> addr \<Rightarrow> pushedLocalAddress list" where
  "applyPushedIPv6LocalAddressPeer values peer =
     (if \<not> Is6 peer then values
      else map (\<lambda>v. if prefix_IsValid (local_Prefix v) \<and> Is6 (prefix_Addr (local_Prefix v)) \<and> \<not> Is6 (local_Peer v)
                     then v\<lparr>local_Peer := peer\<rparr> else v) values)"

definition replacePushedLocalAddressByFamily :: "pushedLocalAddress list \<Rightarrow> pushedLocalAddress \<Rightarrow> pushedLocalAddress list" where
  "replacePushedLocalAddressByFamily values replacement =
     (if \<not> prefix_IsValid (local_Prefix replacement) then values
      else let ipv4 = Is4 (prefix_Addr (local_Prefix replacement))
           in filter (\<lambda>v. \<not> local_family ipv4 v) values @ [replacement])"

definition pushedRoutesFromPrefixes :: "prefix list \<Rightarrow> pushedRoute list" where
  "pushedRoutesFromPrefixes values =
     map (\<lambda>v. \<lparr>pushed_Route = \<lparr>route_Prefix = Masked v, route_Gateway = NoAddr, route_Metric = 0\<rparr>, pushed_Raw = []\<rparr>)
       (filter prefix_IsValid values)"

definition pushedAddressesFromAddresses :: "addr list \<Rightarrow> pushedAddress list" where
  "pushedAddressesFromAddresses values =
     map (\<lambda>v. \<lparr>pushed_Address = v, address_Raw = [], OptionName = []\<rparr>) (filter IsValid values)"

text \<open>\<open>LocalAddress\<close> starts empty, so both families are looked up in the pools.\<close>

definition pool_local_address :: "ServerOptions \<Rightarrow> pushedLocalAddress list" where
  "pool_local_address options =
     (let pools = sn_AddressPools (s_Tunnel options);
          localAddress = [];
          localAddress =
            (if \<not> hasPushedLocalAddressFamily localAddress True
             then case firstPrefixByFamily pools True of Some prefix \<Rightarrow> localAddress @ [local_of prefix] | None \<Rightarrow> localAddress
             else localAddress);
          localAddress =
            (if \<not> hasPushedLocalAddressFamily localAddress False
             then case firstPrefixByFamily pools False of Some prefix \<Rightarrow> localAddress @ [local_of prefix] | None \<Rightarrow> localAddress
             else localAddress)
      in case firstPrefixByFamily (sn_LocalAddress (s_Tunnel options)) False of
           Some prefix \<Rightarrow> applyPushedIPv6LocalAddressPeer localAddress (prefix_Addr prefix)
         | None \<Rightarrow> localAddress)"

definition buildPushedOptions :: "ServerOptions \<Rightarrow> pushedOptions" where
  "buildPushedOptions options =
     (let push = s_Push options
      in zero_pushedOptions
           \<lparr>push_TunMTU := sd_MTU (s_DataChannel options),
            push_LocalAddress := pool_local_address options,
            push_Routes := pushedRoutesFromPrefixes (sp_Routes push),
            push_DNS := pushedAddressesFromAddresses (sp_DNS push),
            push_DNSServers := sp_DNSServers push,
            push_DHCPOptions := sp_DHCPOptions push,
            push_SearchDomains := sp_SearchDomains push,
            modernDNS := length (sp_DNSServers push) > 0,
            push_BlockOutsideDNS := sp_BlockOutsideDNS push,
            push_RedirectGateway := sp_RedirectGateway push,
            push_RedirectGatewayFlags := sp_RedirectGatewayFlags push,
            push_PingInterval := sp_PingInterval push,
            push_PingIntervalEnabled := sp_PingIntervalEnabled push \<or> sp_PingInterval push > 0,
            push_PingRestart := sp_PingRestart push,
            push_PingRestartEnabled := sp_PingRestartEnabled push \<or> sp_PingRestart push > 0\<rparr>)"

section \<open>The lines of a push reply\<close>

definition pushReplyPayloadPrefix :: string where "pushReplyPayloadPrefix = ''PUSH_REPLY''"
definition pushUpdatePayloadPrefix :: string where "pushUpdatePayloadPrefix = ''PUSH_UPDATE''"

text \<open>Go's division of a duration by a second truncates towards zero.\<close>

definition whole_seconds :: "duration \<Rightarrow> int" where
  "whole_seconds d = (if d < 0 then - ((- d) div second) else d div second)"

definition line_if :: "bool \<Rightarrow> string \<Rightarrow> string list" where
  "line_if b line = (if b then [line] else [])"

text \<open>A line \<open>name value\<close>, unless the trimmed value is empty.\<close>

definition value_line :: "string \<Rightarrow> string \<Rightarrow> string list" where
  "value_line name v = (let t = TrimSpace v in line_if (t \<noteq> []) (name @ '' '' @ t))"

definition formatIfconfigPrefix :: "prefix \<Rightarrow> string" where
  "formatIfconfigPrefix prefix =
     (if \<not> prefix_IsValid prefix \<or> \<not> Is4 (prefix_Addr prefix) then []
      else addr_text (prefix_Addr prefix) @ '' '' @ v4_text (CIDRMask (nat (prefix_Bits prefix))))"

definition formatIPv4RoutePrefix :: "prefix \<Rightarrow> string" where
  "formatIPv4RoutePrefix prefix =
     (let prefix = Masked prefix
      in if \<not> prefix_IsValid prefix \<or> \<not> Is4 (prefix_Addr prefix) then []
         else addr_text (prefix_Addr prefix) @ '' '' @ v4_text (CIDRMask (nat (prefix_Bits prefix))))"

definition formatPushedIfconfig :: "pushedLocalAddress \<Rightarrow> string \<Rightarrow> string" where
  "formatPushedIfconfig v topology =
     (let prefix = local_Prefix v
      in if \<not> prefix_IsValid prefix \<or> \<not> Is4 (prefix_Addr prefix) then []
         else
           let normalizedTopology = ToLower (TrimSpace topology)
           in if Is4 (local_Peer v) \<and> normalizedTopology \<noteq> ipv4TopologySubnet
              then addr_text (prefix_Addr prefix) @ '' '' @ addr_text (local_Peer v)
              else if normalizedTopology = ipv4TopologyP2P \<or> normalizedTopology = ipv4TopologyNet30 then []
              else formatIfconfigPrefix prefix)"

definition formatPushedIfconfigIPv6 :: "pushedLocalAddress \<Rightarrow> string" where
  "formatPushedIfconfigIPv6 v =
     (let prefix = local_Prefix v
      in if \<not> prefix_IsValid prefix \<or> \<not> Is6 (prefix_Addr prefix) then []
         else if Is6 (local_Peer v) then prefix_text prefix @ '' '' @ addr_text (local_Peer v)
         else [])"

definition formatPushedRouteGateway :: "pushedOptions \<Rightarrow> string" where
  "formatPushedRouteGateway options =
     (if push_RouteGatewayRaw options \<noteq> [] then push_RouteGatewayRaw options
      else if push_RouteGatewayVPN options then ''vpn_gateway''
      else if IsValid (push_RouteGateway options) then addr_text (push_RouteGateway options)
      else [])"

definition formatPushedRoute :: "pushedRoute \<Rightarrow> string" where
  "formatPushedRoute route =
     (if pushed_Raw route \<noteq> [] then pushed_Raw route
      else
        let tunnelRoute = pushed_Route route; prefix = Masked (route_Prefix tunnelRoute)
        in if \<not> prefix_IsValid prefix then []
           else
             (if Is4 (prefix_Addr prefix) then formatIPv4RoutePrefix prefix else prefix_text prefix) @
             (if IsValid (route_Gateway tunnelRoute)
              then '' '' @ addr_text (route_Gateway tunnelRoute) @
                   (if route_Metric tunnelRoute \<noteq> 0 then '' '' @ Itoa (route_Metric tunnelRoute) else [])
              else []))"

definition local_address_lines :: "string \<Rightarrow> pushedLocalAddress \<Rightarrow> string list" where
  "local_address_lines topology v =
     (if Is4 (prefix_Addr (local_Prefix v)) then value_line ''ifconfig'' (formatPushedIfconfig v topology)
      else if Is6 (prefix_Addr (local_Prefix v)) then value_line ''ifconfig-ipv6'' (formatPushedIfconfigIPv6 v)
      else [])"

definition route_lines :: "pushedRoute \<Rightarrow> string list" where
  "route_lines route =
     (if Is4 (prefix_Addr (route_Prefix (pushed_Route route))) then value_line ''route'' (formatPushedRoute route)
      else if Is6 (prefix_Addr (route_Prefix (pushed_Route route))) then value_line ''route-ipv6'' (formatPushedRoute route)
      else [])"

definition dns_lines :: "pushedAddress \<Rightarrow> string list" where
  "dns_lines v =
     (if \<not> IsValid (pushed_Address v) then []
      else if Is4 (pushed_Address v) then [''dhcp-option DNS '' @ addr_text (pushed_Address v)]
      else if Is6 (pushed_Address v) then [''dhcp-option DNS6 '' @ addr_text (pushed_Address v)]
      else [])"

definition dns_address_text :: "addr_port \<Rightarrow> string" where
  "dns_address_text address = (if snd address = 0 then addr_text (fst address) else addrport_text address)"

definition dns_transport_text :: "string \<Rightarrow> string" where
  "dns_transport_text transport =
     (if transport = ''doh'' then ''DoH'' else if transport = ''dot'' then ''DoT'' else transport)"

definition dns_server_lines :: "TunnelDNSServer \<Rightarrow> string list" where
  "dns_server_lines server =
     (let priority = Itoa (dns_Priority server); line = ''dns server '' @ priority
      in line_if (length (dns_Addresses server) > 0)
           (line @ '' address '' @ str_Join (map dns_address_text (dns_Addresses server)) '' '') @
         line_if (length (dns_ResolveDomains server) > 0)
           (line @ '' resolve-domains '' @ str_Join (dns_ResolveDomains server) '' '') @
         line_if (dns_DNSSEC server \<noteq> []) (line @ '' dnssec '' @ dns_DNSSEC server) @
         line_if (dns_Transport server \<noteq> []) (line @ '' transport '' @ dns_transport_text (dns_Transport server)) @
         line_if (dns_SNI server \<noteq> []) (line @ '' sni '' @ dns_SNI server))"

definition compression_lines :: "compressionDirective \<Rightarrow> string" where
  "compression_lines directive =
     (let directiveValue = TrimSpace (directive_Value directive)
      in if directiveValue = [] then directive_Name directive else directive_Name directive @ '' '' @ directiveValue)"

definition buildPushReplyOptionFields :: "pushedOptions \<Rightarrow> string list" where
  "buildPushReplyOptionFields options =
     [pushReplyPayloadPrefix] @
     value_line ''topology'' (push_Topology options) @
     line_if (push_TunMTU options > 0) (''tun-mtu '' @ FormatUint (unat (push_TunMTU options))) @
     concat (map (local_address_lines (push_Topology options)) (push_LocalAddress options)) @
     line_if (formatPushedRouteGateway options \<noteq> []) (''route-gateway '' @ formatPushedRouteGateway options) @
     concat (map route_lines (push_Routes options)) @
     concat (map dns_lines (push_DNS options)) @
     line_if (length (push_SearchDomains options) > 0) (''dns search-domains '' @ str_Join (push_SearchDomains options) '' '') @
     concat (map dns_server_lines (sort_key dns_Priority (push_DNSServers options))) @
     concat (map (value_line ''dhcp-option'') (push_DHCPOptions options)) @
     line_if (push_BlockIPv6 options) ''block-ipv6'' @
     line_if (push_BlockOutsideDNS options) ''block-outside-dns'' @
     (if push_RedirectGateway options
      then let redirectGatewayValue = TrimSpace (str_Join (push_RedirectGatewayFlags options) '' '')
           in if redirectGatewayValue = [] then [''redirect-gateway''] else [''redirect-gateway '' @ redirectGatewayValue]
      else []) @
     line_if (push_RedirectPrivate options) ''redirect-private'' @
     line_if (push_RouteMetric options \<noteq> 0) (''route-metric '' @ Itoa (push_RouteMetric options)) @
     line_if (push_PingIntervalEnabled options) (''ping '' @ Itoa (whole_seconds (push_PingInterval options))) @
     line_if (push_PingRestartEnabled options) (''ping-restart '' @ Itoa (whole_seconds (push_PingRestart options))) @
     value_line ''auth-token'' (push_AuthToken options) @
     value_line ''auth-token-user'' (push_AuthTokenUser options) @
     (case push_PeerID options of Some peerID \<Rightarrow> [''peer-id '' @ FormatUint (unat peerID)] | None \<Rightarrow> []) @
     value_line ''cipher'' (push_SelectedCipher options) @
     value_line ''auth'' (push_SelectedAuth options) @
     line_if (length (push_ProtocolFlags options) > 0) (''protocol-flags '' @ str_Join (push_ProtocolFlags options) '' '') @
     value_line ''key-derivation'' (push_KeyDerivation options) @
     line_if (push_ExplicitExitNotify options > 0) (''explicit-exit-notify '' @ FormatUint (unat (push_ExplicitExitNotify options))) @
     map compression_lines (push_CompressionDirectives options) @
     line_if (push_InactiveTimeout options > 0)
       (''inactive '' @ Itoa (whole_seconds (push_InactiveTimeout options)) @
        (if push_InactiveMinimumBytes options > 0 then '' '' @ FormatUint (unat (push_InactiveMinimumBytes options)) else [])) @
     line_if (push_SessionTimeout options > 0) (''session-timeout '' @ Itoa (whole_seconds (push_SessionTimeout options))) @
     line_if (push_PingExit options > 0) (''ping-exit '' @ Itoa (whole_seconds (push_PingExit options))) @
     line_if (push_PingTimerRemote options) ''ping-timer-rem''"

text \<open>
  \<open>slices.SortFunc\<close> by priority; it need not be stable, but the priorities of a server's DNS servers are
  distinct (validateServerTunnelOptions), so the order is determined.
\<close>

section \<open>Payloads\<close>

definition serverPushBundleSize :: nat where "serverPushBundleSize = 1024"
definition serverPushBundleOverhead :: nat where "serverPushBundleOverhead = 84"
definition serverPushSafeCapacity :: nat where "serverPushSafeCapacity = serverPushBundleSize - serverPushBundleOverhead"

fun split_push_loop :: "string list \<Rightarrow> string \<Rightarrow> bool \<Rightarrow> string list \<Rightarrow> string list result" where
  "split_push_loop [] current multiPush payloads =
     Inr (payloads @ [if multiPush then current @ '',push-continuation 1'' else current])"
| "split_push_loop (field # rest) current multiPush payloads =
     (let addition = '','' @ field
      in if length current + length addition \<ge> serverPushSafeCapacity then
           if current = pushReplyPayloadPrefix then Inl (New ''push option is too long'')
           else if length pushReplyPayloadPrefix + length addition \<ge> serverPushSafeCapacity
           then Inl (New ''push option is too long'')
           else split_push_loop rest (pushReplyPayloadPrefix @ addition) True (payloads @ [current @ '',push-continuation 2''])
         else split_push_loop rest (current @ addition) multiPush payloads)"

definition splitServerPushReplyFields :: "string list \<Rightarrow> string list result" where
  "splitServerPushReplyFields rest =
     (if length rest = 0 \<or> hd rest \<noteq> pushReplyPayloadPrefix then Inl (New ''invalid OpenVPN push reply rest'')
      else split_push_loop (tl rest) pushReplyPayloadPrefix False [])"

definition appendUniquePushedRoutes :: "pushedRoute list \<Rightarrow> TunnelRoute \<Rightarrow> pushedRoute list" where
  "appendUniquePushedRoutes routes route =
     (if list_ex (\<lambda>r. pushed_Route r = route) routes then routes
      else routes @ [\<lparr>pushed_Route = route, pushed_Raw = []\<rparr>])"

record serverPushAssignment =
  IPv4Topology :: string
  ServerIPv4 :: addr
  LocalAddressIPv4 :: pushedLocalAddress
  LocalAddressIPv6 :: pushedLocalAddress
  assigned_PeerID :: "u32 option"

definition assign_local :: "pushedLocalAddress \<Rightarrow> pushedOptions \<Rightarrow> pushedOptions" where
  "assign_local v opts =
     (if prefix_IsValid (local_Prefix v)
      then opts\<lparr>push_LocalAddress := replacePushedLocalAddressByFamily (push_LocalAddress opts) v\<rparr> else opts)"

definition assign_topology :: "serverPushAssignment \<Rightarrow> pushedOptions \<Rightarrow> pushedOptions" where
  "assign_topology assignment opts =
     (if IPv4Topology assignment = [] then opts
      else
        let opts = opts\<lparr>push_Topology := IPv4Topology assignment\<rparr>
        in if IPv4Topology assignment = ipv4TopologySubnet then
             if \<not> IsValid (push_RouteGateway opts) \<and> \<not> push_RouteGatewayVPN opts \<and> push_RouteGatewayRaw opts = []
             then opts\<lparr>push_RouteGateway := ServerIPv4 assignment\<rparr> else opts
           else if IPv4Topology assignment = ipv4TopologyNet30 then
             opts\<lparr>push_Routes := appendUniquePushedRoutes (push_Routes opts)
                 \<lparr>route_Prefix = PrefixFrom (ServerIPv4 assignment) 32, route_Gateway = NoAddr, route_Metric = 0\<rparr>\<rparr>
           else opts)"

definition server_push_options :: "ServerOptions \<Rightarrow> string \<Rightarrow> serverPushAssignment \<Rightarrow> pushedOptions" where
  "server_push_options options peerInfo assignment =
     (let opts = buildPushedOptions options;
          opts = (if \<not> snd (peerInfoMTU peerInfo) then opts\<lparr>push_TunMTU := 0\<rparr> else opts);
          opts = assign_local (LocalAddressIPv4 assignment) opts;
          opts = assign_local (LocalAddressIPv6 assignment) opts
      in assign_topology assignment opts)"

definition server_push_fields :: "string \<Rightarrow> string \<Rightarrow> serverPushAssignment \<Rightarrow> string list" where
  "server_push_fields peerInfo selectedCipher assignment =
     (let hasCipherList = snd (parsePeerInfoCipherList peerInfo);
          supportsCCExit = peerSupportsIVProtoFlag peerInfo tlsIVProtoCCExitNotify;
          supportsTLSKeyExport = peerSupportsIVProtoFlag peerInfo tlsIVProtoTLSKeyExport
      in line_if (selectedCipher \<noteq> [] \<and> (hasCipherList \<or> peerInfoNCPVersion peerInfo \<ge> 2)) (''cipher '' @ selectedCipher) @
         (case assigned_PeerID assignment of
            Some peerID \<Rightarrow> line_if (peerSupportsIVProtoFlag peerInfo tlsIVProtoDataV2) (''peer-id '' @ FormatUint (unat peerID))
          | None \<Rightarrow> []) @
         (if supportsCCExit
          then [''protocol-flags '' @ str_Join ([''cc-exit''] @ (if supportsTLSKeyExport then [''tls-ekm''] else [])) '' '']
          else line_if supportsTLSKeyExport ''key-derivation tls-ekm''))"

definition buildServerPushReplyPayloads ::
  "ServerOptions \<Rightarrow> string \<Rightarrow> string \<Rightarrow> serverPushAssignment \<Rightarrow> string list result" where
  "buildServerPushReplyPayloads options peerInfo selectedCipher assignment =
     splitServerPushReplyFields
       (buildPushReplyOptionFields (server_push_options options peerInfo assignment) @
        server_push_fields peerInfo selectedCipher assignment)"

end
