(* ===== verification/Pull_Options.thy ===== *)
theory Pull_Options
  imports Push_Options
begin

text \<open>
  What the client makes of a push reply, pull_options.go: the splitting of payloads into option lines,
  the quoting rules of a line, the pull filters, the decoding of every option, and the conversion of
  the decoded values into addresses, routes and DNS servers, with the errors that are recorded on the way.
\<close>

section \<open>Option lines\<close>

definition NUL :: char where "NUL = CHR 0x00"

definition normalizeControlPayload :: "string \<Rightarrow> string" where
  "normalizeControlPayload payload =
     TrimSpace (rev (dropWhile (\<lambda>c. c = NUL) (rev (dropWhile (\<lambda>c. c = NUL) payload))))"

definition splitPushReplyPayloadLines :: "string \<Rightarrow> (string \<times> string list) option" where
  "splitPushReplyPayloadLines payload =
     (let payloadValue = normalizeControlPayload payload
      in if payloadValue = [] then None
         else
           let payloadLines = str_Split payloadValue (CHR '',''); commandName = TrimSpace (hd payloadLines)
           in if \<not> EqualFold commandName pushReplyPayloadPrefix \<and> \<not> EqualFold commandName pushUpdatePayloadPrefix then None
              else Some (commandName, tl payloadLines))"

datatype pushedOptionLineState =
    pushedOptionLineStateInitial | pushedOptionLineStateQuoted | pushedOptionLineStateUnquoted
  | pushedOptionLineStateDone | pushedOptionLineStateSingleQuoted

definition pushedOptionLineMaxParameters :: nat where "pushedOptionLineMaxParameters = 16"

definition isPushedOptionLineSpace :: "char \<Rightarrow> bool" where
  "isPushedOptionLineSpace character \<longleftrightarrow> (of_char character :: nat) \<in> {0, 32, 9, 10, 11, 12, 13}"

text \<open>
  The switch over the state: the next state and the stored character, NUL for none. A comment
  character is handled by the loop.
\<close>

fun option_line_step :: "pushedOptionLineState \<Rightarrow> bool \<Rightarrow> char \<Rightarrow> pushedOptionLineState \<times> char" where
  "option_line_step pushedOptionLineStateInitial backslash character =
     (if isPushedOptionLineSpace character then (pushedOptionLineStateInitial, NUL)
      else if \<not> backslash \<and> character = CHR 0x22 then (pushedOptionLineStateQuoted, NUL)
      else if \<not> backslash \<and> character = CHR 0x27 then (pushedOptionLineStateSingleQuoted, NUL)
      else (pushedOptionLineStateUnquoted, character))"
| "option_line_step pushedOptionLineStateUnquoted backslash character =
     (if \<not> backslash \<and> isPushedOptionLineSpace character then (pushedOptionLineStateDone, NUL)
      else (pushedOptionLineStateUnquoted, character))"
| "option_line_step pushedOptionLineStateQuoted backslash character =
     (if \<not> backslash \<and> character = CHR 0x22 then (pushedOptionLineStateDone, NUL)
      else (pushedOptionLineStateQuoted, character))"
| "option_line_step pushedOptionLineStateSingleQuoted backslash character =
     (if character = CHR 0x27 then (pushedOptionLineStateDone, NUL) else (pushedOptionLineStateSingleQuoted, character))"
| "option_line_step pushedOptionLineStateDone backslash character = (pushedOptionLineStateDone, NUL)"

text \<open>One iteration: it returns, or continues with a state, a flag, the parameter and the parameters.\<close>

datatype line_action =
    Return "(pushedOptionLineState \<times> string list) option"
  | Continue pushedOptionLineState bool string "string list"

definition option_line_iteration ::
  "char \<Rightarrow> pushedOptionLineState \<Rightarrow> bool \<Rightarrow> string \<Rightarrow> string list \<Rightarrow> line_action" where
  "option_line_iteration character state backslash parameter parameters =
     (if \<not> backslash \<and> character = CHR 0x5C \<and> state \<noteq> pushedOptionLineStateSingleQuoted
      then Continue state True parameter parameters
      else if backslash \<and> character \<noteq> CHR 0x5C \<and> character \<noteq> CHR 0x22 \<and> \<not> isPushedOptionLineSpace character
      then Return None
      else if state = pushedOptionLineStateInitial \<and> \<not> isPushedOptionLineSpace character \<and> character \<in> {CHR '';'', CHR 0x23}
      then Return (Some (state, parameters))
      else
        case option_line_step state backslash character of (state, stored) \<Rightarrow>
          if state = pushedOptionLineStateDone then
            let parameters = parameters @ [parameter]
            in if length parameters \<ge> pushedOptionLineMaxParameters then Return (Some (pushedOptionLineStateInitial, parameters))
               else Continue pushedOptionLineStateInitial False (if stored \<noteq> NUL then [stored] else []) parameters
          else Continue state False (if stored \<noteq> NUL then parameter @ [stored] else parameter) parameters)"

primrec option_line_loop ::
  "string \<Rightarrow> pushedOptionLineState \<Rightarrow> bool \<Rightarrow> string \<Rightarrow> string list \<Rightarrow> (pushedOptionLineState \<times> string list) option" where
  "option_line_loop [] state backslash parameter parameters = Some (state, parameters)"
| "option_line_loop (character # line) state backslash parameter parameters =
     (case option_line_iteration character state backslash parameter parameters of
        Return r \<Rightarrow> r
      | Continue state' backslash' parameter' parameters' \<Rightarrow> option_line_loop line state' backslash' parameter' parameters')"

definition parsePushedOptionLine :: "string \<Rightarrow> string list option" where
  "parsePushedOptionLine line =
     (case option_line_loop (line @ [NUL]) pushedOptionLineStateInitial False [] [] of
        None \<Rightarrow> None
      | Some (state, parameters) \<Rightarrow>
          if state \<noteq> pushedOptionLineStateInitial \<or> length parameters = 0 then None else Some parameters)"

section \<open>Segments\<close>

definition continuation_value :: "string \<Rightarrow> int option" where
  "continuation_value v = (case Atoi v of Inr n \<Rightarrow> if 0 \<le> n \<and> n \<le> 2 then Some n else None | Inl _ \<Rightarrow> None)"

definition segment_continuation :: "int \<Rightarrow> string \<Rightarrow> int" where
  "segment_continuation continuation optionLine =
     (case parsePushedOptionLine optionLine of
        Some parameters \<Rightarrow>
          if length parameters \<ge> 2 \<and> EqualFold (parameters ! 0) ''push-continuation''
          then case continuation_value (parameters ! 1) of Some n \<Rightarrow> n | None \<Rightarrow> continuation
          else continuation
      | None \<Rightarrow> continuation)"

definition appendPushReplyPayloadSegment :: "string list \<Rightarrow> string \<Rightarrow> string list \<times> int \<times> bool" where
  "appendPushReplyPayloadSegment accumulatedLines payload =
     (case splitPushReplyPayloadLines payload of
        None \<Rightarrow> (accumulatedLines, 0, False)
      | Some (commandName, payloadLines) \<Rightarrow>
          let accumulatedLines = (if length accumulatedLines = 0 then accumulatedLines @ [commandName] else accumulatedLines)
          in (accumulatedLines @ payloadLines, foldl segment_continuation 0 payloadLines, True))"

section \<open>Pull filters\<close>

text \<open>Whether a line is allowed, and whether it is rejected.\<close>

fun applyPullFilters :: "PullFilter list \<Rightarrow> string \<Rightarrow> bool \<times> bool" where
  "applyPullFilters [] optionLine = (True, False)"
| "applyPullFilters (f # filters) optionLine =
     (if \<not> HasPrefix optionLine (filter_Text f) then applyPullFilters filters optionLine
      else if filter_Action f = ''accept'' then (True, False)
      else if filter_Action f = ''ignore'' then (False, False)
      else if filter_Action f = ''reject'' then (False, True)
      else applyPullFilters filters optionLine)"

section \<open>Decoded lines\<close>

datatype pushedPingTimeoutAction = pushedPingTimeoutNone | pushedPingTimeoutRestart | pushedPingTimeoutExit

record wirePushedOptions =
  wire_Topology :: string
  wire_TunMTU :: u32
  wire_Ifconfig :: string
  wire_IfconfigIPv6 :: string
  wire_RouteGateway :: string
  wire_Route :: "string list"
  wire_RouteIPv6 :: "string list"
  wire_DNS :: "string list"
  wire_DHCPOptions :: "string list"
  wire_BlockIPv6 :: bool
  wire_BlockOutsideDNS :: bool
  wire_RedirectGateway :: bool
  wire_RedirectGatewayFlags :: "string list"
  wire_RedirectPrivate :: bool
  wire_RouteMetric :: int
  wire_RouteMetricSet :: bool
  wire_PingInterval :: duration
  wire_PingIntervalEnabled :: bool
  wire_PingRestart :: duration
  wire_PingRestartEnabled :: bool
  wire_AuthToken :: string
  wire_AuthTokenUser :: string
  wire_PeerID :: "u32 option"
  wire_SelectedCipher :: string
  wire_SelectedAuth :: string
  wire_ProtocolFlags :: "string list"
  wire_KeyDerivation :: string
  wire_ExplicitExitNotify :: u32
  wire_ExplicitExitNotifySet :: bool
  wire_CompressionDirectives :: "compressionDirective list"
  wire_InactiveTimeout :: duration
  wire_InactiveMinimumBytes :: u64
  wire_InactiveTimeoutSet :: bool
  wire_SessionTimeout :: duration
  wire_SessionTimeoutSet :: bool
  wire_PingExit :: duration
  wire_PingExitSet :: bool
  wire_PingTimeoutAction :: pushedPingTimeoutAction
  wire_PingTimerRemote :: bool

definition zero_wire :: wirePushedOptions where
  "zero_wire =
     \<lparr>wire_Topology = [], wire_TunMTU = 0, wire_Ifconfig = [], wire_IfconfigIPv6 = [], wire_RouteGateway = [], wire_Route = [],
      wire_RouteIPv6 = [], wire_DNS = [], wire_DHCPOptions = [], wire_BlockIPv6 = False, wire_BlockOutsideDNS = False,
      wire_RedirectGateway = False, wire_RedirectGatewayFlags = [], wire_RedirectPrivate = False, wire_RouteMetric = 0,
      wire_RouteMetricSet = False, wire_PingInterval = 0, wire_PingIntervalEnabled = False, wire_PingRestart = 0,
      wire_PingRestartEnabled = False, wire_AuthToken = [], wire_AuthTokenUser = [], wire_PeerID = None, wire_SelectedCipher = [],
      wire_SelectedAuth = [], wire_ProtocolFlags = [], wire_KeyDerivation = [], wire_ExplicitExitNotify = 0,
      wire_ExplicitExitNotifySet = False, wire_CompressionDirectives = [], wire_InactiveTimeout = 0,
      wire_InactiveMinimumBytes = 0, wire_InactiveTimeoutSet = False, wire_SessionTimeout = 0, wire_SessionTimeoutSet = False,
      wire_PingExit = 0, wire_PingExitSet = False, wire_PingTimeoutAction = pushedPingTimeoutNone, wire_PingTimerRemote = False\<rparr>"

definition peerIDMaxValue :: nat where "peerIDMaxValue = 2 ^ 24 - 1"

definition is_sign :: "char \<Rightarrow> bool" where "is_sign c \<longleftrightarrow> c = CHR ''+'' \<or> c = CHR ''-''"

definition is_digit :: "char \<Rightarrow> bool" where "is_digit c \<longleftrightarrow> (48 :: nat) \<le> of_char c \<and> of_char c \<le> (57 :: nat)"

definition parsePushedPositiveInteger :: "string \<Rightarrow> int" where
  "parsePushedPositiveInteger v =
     (let str = dropWhile is_space v;
          sign = (case str of c # _ \<Rightarrow> if is_sign c then [c] else [] | [] \<Rightarrow> []);
          number = takeWhile is_digit (drop (length sign) str)
      in if number = [] then 0
         else
           let parsed = (case Atoi (sign @ number) of Inr n \<Rightarrow> n | Inl _ \<Rightarrow> if hd str = CHR ''-'' then - (2 ^ 63) else 2 ^ 63 - 1);
               truncated = sint (word_of_int parsed :: u32)
           in if truncated < 0 then 0 else truncated)"

definition parsePushedSecondCount :: "string \<Rightarrow> duration" where
  "parsePushedSecondCount v = parsePushedPositiveInteger v * second"

definition unless_empty :: "string \<Rightarrow> (wirePushedOptions \<Rightarrow> wirePushedOptions) \<Rightarrow> wirePushedOptions \<Rightarrow> wirePushedOptions" where
  "unless_empty v f w = (if v \<noteq> [] then f w else w)"

definition wire_inactive :: "string \<Rightarrow> wirePushedOptions \<Rightarrow> wirePushedOptions" where
  "wire_inactive v w =
     (let inactiveFields = Fields v
      in if length inactiveFields \<ge> 1 then
           let w = w\<lparr>wire_InactiveTimeout := parsePushedSecondCount (inactiveFields ! 0), wire_InactiveTimeoutSet := True\<rparr>
           in if length inactiveFields \<ge> 2 then
                (case Atoi (inactiveFields ! 1) of
                   Inr minimumBytes \<Rightarrow> if minimumBytes > 0 then w\<lparr>wire_InactiveMinimumBytes := word_of_int minimumBytes\<rparr> else w
                 | Inl _ \<Rightarrow> w)
              else w
         else w)"

definition wire_peer_id :: "string \<Rightarrow> wirePushedOptions \<Rightarrow> wirePushedOptions" where
  "wire_peer_id v w =
     (case ParseUint (TrimSpace v) 32 of
        Inr peerIDValue \<Rightarrow> if peerIDValue \<le> peerIDMaxValue then w\<lparr>wire_PeerID := Some (of_nat peerIDValue)\<rparr> else w
      | Inl _ \<Rightarrow> w)"

text \<open>The switch over the option name, in lower case, with the joined parameters \<open>v\<close>.\<close>

definition wire_option :: "string \<Rightarrow> string \<Rightarrow> wirePushedOptions \<Rightarrow> wirePushedOptions" where
  "wire_option name v w =
     (if name = ''topology'' then unless_empty v (wire_Topology_update (\<lambda>_. v)) w
      else if name = ''tun-mtu'' then
        let tunMTUValue = parsePushedPositiveInteger v in if tunMTUValue > 0 then w\<lparr>wire_TunMTU := word_of_int tunMTUValue\<rparr> else w
      else if name = ''ifconfig'' then unless_empty v (wire_Ifconfig_update (\<lambda>_. v)) w
      else if name = ''ifconfig-ipv6'' then unless_empty v (wire_IfconfigIPv6_update (\<lambda>_. v)) w
      else if name = ''route'' then unless_empty v (wire_Route_update (\<lambda>r. r @ [v])) w
      else if name = ''route-gateway'' then unless_empty v (wire_RouteGateway_update (\<lambda>_. v)) w
      else if name = ''route-ipv6'' then unless_empty v (wire_RouteIPv6_update (\<lambda>r. r @ [v])) w
      else if name = ''dns'' then unless_empty v (wire_DNS_update (\<lambda>r. r @ [v])) w
      else if name = ''dhcp-option'' then unless_empty v (wire_DHCPOptions_update (\<lambda>r. r @ [v])) w
      else if name = ''block-ipv6'' then w\<lparr>wire_BlockIPv6 := True\<rparr>
      else if name = ''block-outside-dns'' then w\<lparr>wire_BlockOutsideDNS := True\<rparr>
      else if name = ''redirect-gateway'' then
        unless_empty v (wire_RedirectGatewayFlags_update (\<lambda>_. Fields v)) (w\<lparr>wire_RedirectGateway := True\<rparr>)
      else if name = ''redirect-private'' then
        unless_empty v (wire_RedirectGatewayFlags_update (\<lambda>_. Fields v)) (w\<lparr>wire_RedirectPrivate := True\<rparr>)
      else if name = ''route-metric'' then
        unless_empty v (\<lambda>w. w\<lparr>wire_RouteMetric := parsePushedPositiveInteger v, wire_RouteMetricSet := True\<rparr>) w
      else if name = ''ping'' then
        unless_empty v (\<lambda>w. w\<lparr>wire_PingInterval := parsePushedSecondCount v, wire_PingIntervalEnabled := True\<rparr>) w
      else if name = ''ping-restart'' then
        unless_empty v (\<lambda>w. w\<lparr>wire_PingRestart := parsePushedSecondCount v, wire_PingRestartEnabled := True,
                             wire_PingTimeoutAction := pushedPingTimeoutRestart\<rparr>) w
      else if name = ''auth-token'' then w\<lparr>wire_AuthToken := v\<rparr>
      else if name = ''auth-token-user'' then w\<lparr>wire_AuthTokenUser := v\<rparr>
      else if name = ''peer-id'' then wire_peer_id v w
      else if name = ''cipher'' then unless_empty v (wire_SelectedCipher_update (\<lambda>_. v)) w
      else if name = ''auth'' then unless_empty v (wire_SelectedAuth_update (\<lambda>_. v)) w
      else if name = ''protocol-flags'' then unless_empty v (wire_ProtocolFlags_update (\<lambda>_. Fields v)) w
      else if name = ''key-derivation'' then unless_empty v (wire_KeyDerivation_update (\<lambda>_. ToLower (TrimSpace v))) w
      else if name = ''explicit-exit-notify'' then
        w\<lparr>wire_ExplicitExitNotify := (if v = [] then 1 else word_of_int (parsePushedPositiveInteger v)),
          wire_ExplicitExitNotifySet := True\<rparr>
      else if name = compressionDirectiveCompress \<or> name = compressionDirectiveLZO then
        w\<lparr>wire_CompressionDirectives :=
            wire_CompressionDirectives w @ [\<lparr>directive_Name = name, directive_Value = TrimSpace v\<rparr>]\<rparr>
      else if name = ''inactive'' then wire_inactive v w
      else if name = ''session-timeout'' then
        unless_empty v (\<lambda>w. w\<lparr>wire_SessionTimeout := parsePushedSecondCount v, wire_SessionTimeoutSet := True\<rparr>) w
      else if name = ''ping-exit'' then
        unless_empty v (\<lambda>w. w\<lparr>wire_PingExit := parsePushedSecondCount v, wire_PingExitSet := True,
                             wire_PingTimeoutAction := pushedPingTimeoutExit\<rparr>) w
      else if name = ''ping-timer-rem'' then w\<lparr>wire_PingTimerRemote := True\<rparr>
      else w)"

definition line_continuation :: "string \<Rightarrow> string \<Rightarrow> int \<Rightarrow> int" where
  "line_continuation name v continuation =
     (if name = ''push-continuation'' then case continuation_value v of Some n \<Rightarrow> n | None \<Rightarrow> continuation else continuation)"

text \<open>The loop over the lines: the decoded options, the continuation and the line a filter rejected.\<close>

fun decode_lines :: "PullFilter list \<Rightarrow> string list \<Rightarrow> wirePushedOptions \<Rightarrow> int \<Rightarrow> wirePushedOptions \<times> int \<times> string" where
  "decode_lines filters [] w continuation = (w, continuation, [])"
| "decode_lines filters (payloadLine # optionLines) w continuation =
     (let optionLine = dropWhile is_space payloadLine
      in case applyPullFilters filters optionLine of (allowed, rejected) \<Rightarrow>
           if rejected then (w, continuation, optionLine)
           else if \<not> allowed then decode_lines filters optionLines w continuation
           else case parsePushedOptionLine payloadLine of
             None \<Rightarrow> decode_lines filters optionLines w continuation
           | Some parameters \<Rightarrow>
               let name = ToLower (hd parameters); v = str_Join (tl parameters) '' ''
               in decode_lines filters optionLines (wire_option name v w) (line_continuation name v continuation))"

section \<open>From decoded lines to options\<close>

definition addParseError :: "string \<Rightarrow> string \<Rightarrow> error \<Rightarrow> pushedOptions \<Rightarrow> pushedOptions" where
  "addParseError name v err opts =
     opts\<lparr>parseErrors := parseErrors opts @ [\<lparr>parse_Name = name, parse_Value = v, parse_Err = err\<rparr>]\<rparr>"

definition addExcludedRoute :: "string \<Rightarrow> string \<Rightarrow> TunnelRoute \<Rightarrow> pushedOptions \<Rightarrow> pushedOptions" where
  "addExcludedRoute name v route opts =
     opts\<lparr>excludedRoutes := excludedRoutes opts @ [\<lparr>excluded_Name = name, excluded_Value = v, excluded_Route = route\<rparr>]\<rparr>"

definition addWireIfconfig :: "string \<Rightarrow> string \<Rightarrow> pushedOptions \<Rightarrow> pushedOptions" where
  "addWireIfconfig v topology opts =
     (let raw = TrimSpace v
      in if raw = [] then opts
         else case parseIfconfigPrefix raw topology of
           Inl err \<Rightarrow> addParseError ''ifconfig'' raw err opts
         | Inr prefix \<Rightarrow>
             opts\<lparr>push_LocalAddress := push_LocalAddress opts @
               [\<lparr>local_Prefix = prefix, local_Peer = parseIfconfigVPNGateway [raw] topology, local_Raw = raw\<rparr>]\<rparr>)"

definition addWireIfconfigIPv6 :: "string \<Rightarrow> pushedOptions \<Rightarrow> pushedOptions" where
  "addWireIfconfigIPv6 v opts =
     (let raw = TrimSpace v
      in if raw = [] then opts
         else case parseIfconfigIPv6 raw of
           Inl err \<Rightarrow> addParseError ''ifconfig-ipv6'' raw err opts
         | Inr (prefix, peer) \<Rightarrow>
             opts\<lparr>push_LocalAddress := push_LocalAddress opts @ [\<lparr>local_Prefix = prefix, local_Peer = peer, local_Raw = raw\<rparr>]\<rparr>)"

definition errInvalidPushedRouteGateway :: error where "errInvalidPushedRouteGateway = New ''invalid pushed route-gateway''"

definition setWireRouteGateway :: "string \<Rightarrow> pushedOptions \<Rightarrow> pushedOptions" where
  "setWireRouteGateway v opts =
     (let raw = TrimSpace v
      in if raw = [] then opts
         else
           let opts = opts\<lparr>push_RouteGatewayRaw := raw\<rparr>; parts = Fields raw
           in if length parts = 0 then opts
              else if EqualFold (parts ! 0) ''vpn_gateway'' then opts\<lparr>push_RouteGatewayVPN := True\<rparr>
              else case ParseAddr (parts ! 0) of
                Inl _ \<Rightarrow> addParseError ''route-gateway'' raw errInvalidPushedRouteGateway opts
              | Inr routeGateway \<Rightarrow> opts\<lparr>push_RouteGateway := routeGateway\<rparr>)"

text \<open>\<open>addWireRoute\<close> and \<open>addWireRouteIPv6\<close>, which differ in the option name and the parser.\<close>

definition add_wire_route ::
  "string \<Rightarrow> (string \<Rightarrow> addr \<Rightarrow> (prefix \<times> addr \<times> int \<times> bool) result) \<Rightarrow> addr \<Rightarrow> string \<Rightarrow> pushedOptions \<Rightarrow> pushedOptions" where
  "add_wire_route name parse remoteHost v opts =
     (let raw = TrimSpace v
      in if raw = [] then opts
         else case parse raw remoteHost of
           Inl err \<Rightarrow> addParseError name raw err opts
         | Inr (prefix, gateway, metric, excluded) \<Rightarrow>
             if excluded
             then addExcludedRoute name raw \<lparr>route_Prefix = prefix, route_Gateway = NoAddr, route_Metric = metric\<rparr> opts
             else opts\<lparr>push_Routes := push_Routes opts @
               [\<lparr>pushed_Route = \<lparr>route_Prefix = prefix, route_Gateway = gateway, route_Metric = metric\<rparr>, pushed_Raw = raw\<rparr>]\<rparr>)"

definition addWireRoute :: "addr \<Rightarrow> string \<Rightarrow> pushedOptions \<Rightarrow> pushedOptions" where
  "addWireRoute = add_wire_route ''route'' parsePushedRoute"

definition addWireRouteIPv6 :: "addr \<Rightarrow> string \<Rightarrow> pushedOptions \<Rightarrow> pushedOptions" where
  "addWireRouteIPv6 = add_wire_route ''route-ipv6'' parsePushedRouteIPv6"

section \<open>DNS\<close>

definition domain_char :: "char \<Rightarrow> bool" where
  "domain_char c \<longleftrightarrow>
     (65 :: nat) \<le> of_char c \<and> of_char c \<le> (90 :: nat) \<or> (97 :: nat) \<le> of_char c \<and> of_char c \<le> (122 :: nat) \<or>
     (48 :: nat) \<le> of_char c \<and> of_char c \<le> (57 :: nat) \<or> c = CHR ''.'' \<or> c = CHR ''-'' \<or> c = CHR ''_'' \<or> (128 :: nat) \<le> of_char c"

definition validateTunnelDNSDomain :: "string \<Rightarrow> bool" where
  "validateTunnelDNSDomain domain \<longleftrightarrow> domain \<noteq> [] \<and> list_all domain_char domain"

definition appendUniqueStringValues :: "string list \<Rightarrow> string list \<Rightarrow> string list" where
  "appendUniqueStringValues destination values =
     foldl (\<lambda>merged v. if v \<in> set merged then merged else merged @ [v]) destination values"

definition zero_dns_server :: "int \<Rightarrow> TunnelDNSServer" where
  "zero_dns_server priority =
     \<lparr>dns_Priority = priority, dns_Addresses = [], dns_ResolveDomains = [], dns_DNSSEC = [], dns_Transport = [], dns_SNI = []\<rparr>"

text \<open>
  \<open>tunnelDNSServer\<close> hands out a pointer to the server with the priority, which it adds when there is
  none; the assignments through the pointer are updates of the first server with that priority.
\<close>

definition tunnelDNSServer :: "int \<Rightarrow> pushedOptions \<Rightarrow> pushedOptions" where
  "tunnelDNSServer priority opts =
     (if list_ex (\<lambda>s. dns_Priority s = priority) (push_DNSServers opts) then opts
      else opts\<lparr>push_DNSServers := push_DNSServers opts @ [zero_dns_server priority]\<rparr>)"

fun update_server :: "int \<Rightarrow> (TunnelDNSServer \<Rightarrow> TunnelDNSServer) \<Rightarrow> TunnelDNSServer list \<Rightarrow> TunnelDNSServer list" where
  "update_server priority f [] = []"
| "update_server priority f (s # ss) = (if dns_Priority s = priority then f s # ss else s # update_server priority f ss)"

definition at_server :: "int \<Rightarrow> (TunnelDNSServer \<Rightarrow> TunnelDNSServer) \<Rightarrow> pushedOptions \<Rightarrow> pushedOptions" where
  "at_server priority f opts = opts\<lparr>push_DNSServers := update_server priority f (push_DNSServers opts)\<rparr>"

definition server_addresses :: "int \<Rightarrow> pushedOptions \<Rightarrow> addr_port list" where
  "server_addresses priority opts =
     (case find (\<lambda>s. dns_Priority s = priority) (push_DNSServers opts) of Some s \<Rightarrow> dns_Addresses s | None \<Rightarrow> [])"

definition parseTunnelDNSAddress :: "string \<Rightarrow> addr_port result" where
  "parseTunnelDNSAddress v =
     (case ParseAddr v of
        Inr address \<Rightarrow> Inr (address, 0)
      | Inl _ \<Rightarrow>
          bindE (ParseAddrPort v) (\<lambda>addressPort.
            if snd addressPort = 0 then Inl (New ''dns server port must not be zero'') else Inr addressPort))"

fun add_dns_addresses :: "string \<Rightarrow> int \<Rightarrow> string list \<Rightarrow> pushedOptions \<Rightarrow> pushedOptions" where
  "add_dns_addresses raw priority [] opts = opts"
| "add_dns_addresses raw priority (addressValue # values) opts =
     (if length (server_addresses priority opts) \<ge> maxTunnelDNSServerAddresses
      then addParseError ''dns'' raw (New ''dns server address maximum exceeded'') opts
      else case parseTunnelDNSAddress addressValue of
        Inl _ \<Rightarrow> add_dns_addresses raw priority values (addParseError ''dns'' raw (New ''parse dns server address'') opts)
      | Inr address \<Rightarrow>
          let opts = at_server priority (\<lambda>s. s\<lparr>dns_Addresses := dns_Addresses s @ [address]\<rparr>) opts;
              modernAddress = \<lparr>pushed_Address = fst address, address_Raw = raw, OptionName = ''dns''\<rparr>
          in add_dns_addresses raw priority values
               (opts\<lparr>push_DNS := push_DNS opts @ [modernAddress], modernDNSAddresses := modernDNSAddresses opts @ [modernAddress]\<rparr>))"

definition add_resolve_domain :: "string \<Rightarrow> int \<Rightarrow> string \<Rightarrow> pushedOptions \<Rightarrow> pushedOptions" where
  "add_resolve_domain raw priority domain opts =
     (if \<not> validateTunnelDNSDomain domain
      then addParseError ''dns'' raw (New ''dns resolve domain contains invalid characters'') opts
      else at_server priority (\<lambda>s. s\<lparr>dns_ResolveDomains := appendUniqueStringValues (dns_ResolveDomains s) [domain]\<rparr>) opts)"

definition add_search_domain :: "string \<Rightarrow> string \<Rightarrow> pushedOptions \<Rightarrow> pushedOptions" where
  "add_search_domain raw domain opts =
     (if \<not> validateTunnelDNSDomain domain
      then addParseError ''dns'' raw (New ''dns search domain contains invalid characters'') opts
      else opts\<lparr>push_SearchDomains := appendUniqueStringValues (push_SearchDomains opts) [domain],
                modernSearchDomains := appendUniqueStringValues (modernSearchDomains opts) [domain]\<rparr>)"

text \<open>The switch over the third field of \<open>dns server <priority> ...\<close>.\<close>

definition add_dns_server_option :: "string \<Rightarrow> int \<Rightarrow> string list \<Rightarrow> pushedOptions \<Rightarrow> pushedOptions" where
  "add_dns_server_option raw priority parts opts =
     (let kind = ToLower (parts ! 2)
      in if kind = ''address'' then
           if length parts < 4 then addParseError ''dns'' raw (New ''dns server address requires address value'') opts
           else add_dns_addresses raw priority (drop 3 parts) opts
         else if kind = ''resolve-domains'' then
           if length parts < 4 then addParseError ''dns'' raw (New ''dns server resolve-domains requires domain value'') opts
           else fold (add_resolve_domain raw priority) (drop 3 parts) opts
         else if kind = ''dnssec'' then
           if length parts \<noteq> 4 then addParseError ''dns'' raw (New ''dns server dnssec requires one value'') opts
           else
             let dnssec = ToLower (parts ! 3)
             in if dnssec \<in> {''yes'', ''optional'', ''no''} then at_server priority (dns_DNSSEC_update (\<lambda>_. dnssec)) opts
                else addParseError ''dns'' raw (New ''invalid dnssec mode'') opts
         else if kind = ''transport'' then
           if length parts \<noteq> 4 then addParseError ''dns'' raw (New ''dns server transport requires one value'') opts
           else if parts ! 3 = ''plain'' then at_server priority (dns_Transport_update (\<lambda>_. ''plain'')) opts
           else if parts ! 3 = ''DoT'' then at_server priority (dns_Transport_update (\<lambda>_. ''dot'')) opts
           else if parts ! 3 = ''DoH'' then at_server priority (dns_Transport_update (\<lambda>_. ''doh'')) opts
           else addParseError ''dns'' raw (New ''invalid dns transport'') opts
         else if kind = ''sni'' then
           if length parts \<noteq> 4 then addParseError ''dns'' raw (New ''dns server sni requires one value'') opts
           else if \<not> validateTunnelDNSDomain (parts ! 3)
           then addParseError ''dns'' raw (New ''dns server sni contains invalid characters'') opts
           else at_server priority (dns_SNI_update (\<lambda>_. parts ! 3)) opts
         else addParseError ''dns'' raw (New ''unsupported dns server option'') opts)"

definition addWireDNSOptionV2 :: "string \<Rightarrow> pushedOptions \<Rightarrow> pushedOptions" where
  "addWireDNSOptionV2 v opts =
     (let raw = TrimSpace v; parts = Fields raw
      in if raw = [] \<or> length parts = 0 then opts
         else if EqualFold (parts ! 0) ''search-domains'' then
           if length parts < 2 then addParseError ''dns'' raw (New ''dns search-domains requires domain value'') opts
           else fold (add_search_domain raw) (tl parts) opts
         else if \<not> EqualFold (parts ! 0) ''server'' then opts
         else if length parts < 3 then addParseError ''dns'' raw (New ''invalid dns server option'') opts
         else case Atoi (parts ! 1) of
           Inl _ \<Rightarrow> addParseError ''dns'' raw (New ''parse dns server priority'') opts
         | Inr priority \<Rightarrow>
             if priority < 0 \<or> priority > 127
             then addParseError ''dns'' raw (New ''pushed dns server priority must be between 0 and 127'') opts
             else add_dns_server_option raw priority parts (tunnelDNSServer priority opts))"

definition drop_empty_dns_servers :: "pushedOptions \<Rightarrow> pushedOptions" where
  "drop_empty_dns_servers opts =
     fold (\<lambda>s. addParseError ''dns'' (''server '' @ Itoa (dns_Priority s)) (New ''dns server has no address assigned''))
       (filter (\<lambda>s. length (dns_Addresses s) = 0) (push_DNSServers opts))
       (opts\<lparr>push_DNSServers := filter (\<lambda>s. length (dns_Addresses s) > 0) (push_DNSServers opts)\<rparr>)"

definition add_dhcp_domain :: "string \<Rightarrow> string \<Rightarrow> pushedOptions \<Rightarrow> pushedOptions" where
  "add_dhcp_domain raw domain opts =
     (if \<not> validateTunnelDNSDomain domain
      then addParseError ''dhcp-option'' raw (New ''dhcp-option contains invalid domain'') opts
      else opts\<lparr>push_SearchDomains := appendUniqueStringValues (push_SearchDomains opts) [domain]\<rparr>)"

definition add_dhcp_route :: "string \<Rightarrow> string \<Rightarrow> pushedOptions \<Rightarrow> pushedOptions" where
  "add_dhcp_route raw domain opts =
     (if \<not> validateTunnelDNSDomain domain
      then addParseError ''dhcp-option'' raw (New ''dhcp-option DOMAIN-ROUTE contains invalid domain'') opts
      else opts\<lparr>push_DNSRoutes := appendUniqueStringValues (push_DNSRoutes opts) [domain]\<rparr>)"

definition add_dhcp_address :: "string \<Rightarrow> string \<Rightarrow> string \<Rightarrow> pushedOptions \<Rightarrow> pushedOptions" where
  "add_dhcp_address raw optionName addressValue opts =
     (case ParseAddr addressValue of
        Inl _ \<Rightarrow> addParseError ''dhcp-option'' raw (New ''parse dhcp-option address'') opts
      | Inr address \<Rightarrow>
          if optionName = ''DNS'' \<and> \<not> Is4 address
          then addParseError ''dhcp-option'' raw (New ''dhcp-option DNS expected IPv4 address'') opts
          else if optionName = ''DNS6'' \<and> \<not> Is6 address
          then addParseError ''dhcp-option'' raw (New ''dhcp-option DNS6 expected IPv6 address'') opts
          else opts\<lparr>push_DNS := push_DNS opts @ [\<lparr>pushed_Address = address, address_Raw = raw, OptionName = ''dhcp-option''\<rparr>]\<rparr>)"

definition addWireDHCPOptionDNS :: "string \<Rightarrow> pushedOptions \<Rightarrow> pushedOptions" where
  "addWireDHCPOptionDNS v opts =
     (let raw = TrimSpace v; parts = Fields raw
      in if raw = [] \<or> length parts = 0 then opts
         else
           let optionName = ToUpper (parts ! 0)
           in if optionName \<in> {''DOMAIN'', ''ADAPTER_DOMAIN_SUFFIX'', ''DOMAIN-SEARCH''} then
                if length parts < 2 then addParseError ''dhcp-option'' raw (New ''dhcp-option requires domain value'') opts
                else fold (add_dhcp_domain raw) (tl parts) opts
              else if optionName = ''DOMAIN-ROUTE'' then
                if length parts < 2 then addParseError ''dhcp-option'' raw (New ''dhcp-option DOMAIN-ROUTE requires domain value'') opts
                else fold (add_dhcp_route raw) (tl parts) opts
              else if optionName \<noteq> ''DNS'' \<and> optionName \<noteq> ''DNS6'' then opts
              else if length parts < 2 then addParseError ''dhcp-option'' raw (New ''dhcp-option requires address value'') opts
              else fold (add_dhcp_address raw optionName) (tl parts) opts)"

definition filterOpenVPNNonDNSDHCPOptions :: "string list \<Rightarrow> string list" where
  "filterOpenVPNNonDNSDHCPOptions values =
     filter (\<lambda>v. case Fields v of
                    [] \<Rightarrow> True
                  | name # _ \<Rightarrow> ToUpper name \<notin> {''DNS'', ''DNS6'', ''DOMAIN'', ''ADAPTER_DOMAIN_SUFFIX'', ''DOMAIN-SEARCH'', ''DOMAIN-ROUTE''})
       values"

text \<open>The literal of \<open>pushedOptionsFromWire\<close>, with the timeout action applied.\<close>

definition copy_wire :: "wirePushedOptions \<Rightarrow> pushedOptions" where
  "copy_wire w =
     zero_pushedOptions
       \<lparr>push_Topology := wire_Topology w, push_TunMTU := wire_TunMTU w, push_DHCPOptions := wire_DHCPOptions w,
        push_BlockIPv6 := wire_BlockIPv6 w, push_BlockOutsideDNS := wire_BlockOutsideDNS w,
        push_RedirectGateway := wire_RedirectGateway w, push_RedirectGatewayFlags := wire_RedirectGatewayFlags w,
        push_RedirectPrivate := wire_RedirectPrivate w, push_RouteMetric := wire_RouteMetric w,
        push_RouteMetricSet := wire_RouteMetricSet w, push_PingInterval := wire_PingInterval w,
        push_PingIntervalEnabled := wire_PingIntervalEnabled w,
        push_PingRestart := (if wire_PingTimeoutAction w = pushedPingTimeoutExit then 0 else wire_PingRestart w),
        push_PingRestartEnabled := wire_PingTimeoutAction w \<noteq> pushedPingTimeoutExit \<and> wire_PingRestartEnabled w,
        push_AuthToken := wire_AuthToken w, push_AuthTokenUser := wire_AuthTokenUser w, push_PeerID := wire_PeerID w,
        push_SelectedCipher := wire_SelectedCipher w, push_SelectedAuth := wire_SelectedAuth w,
        push_ProtocolFlags := wire_ProtocolFlags w, push_KeyDerivation := wire_KeyDerivation w,
        push_ExplicitExitNotify := wire_ExplicitExitNotify w, push_ExplicitExitNotifySet := wire_ExplicitExitNotifySet w,
        push_CompressionDirectives := wire_CompressionDirectives w, push_InactiveTimeout := wire_InactiveTimeout w,
        push_InactiveMinimumBytes := wire_InactiveMinimumBytes w, push_InactiveTimeoutSet := wire_InactiveTimeoutSet w,
        push_SessionTimeout := wire_SessionTimeout w, push_SessionTimeoutSet := wire_SessionTimeoutSet w,
        push_PingExit := (if wire_PingTimeoutAction w = pushedPingTimeoutRestart then 0 else wire_PingExit w),
        push_PingExitSet := wire_PingTimeoutAction w \<noteq> pushedPingTimeoutRestart \<and> wire_PingExitSet w,
        push_PingTimerRemote := wire_PingTimerRemote w\<rparr>"

definition from_wire_addresses :: "addr \<Rightarrow> wirePushedOptions \<Rightarrow> pushedOptions \<Rightarrow> pushedOptions" where
  "from_wire_addresses remoteHost w opts =
     (let opts = (if wire_Ifconfig w \<noteq> [] then addWireIfconfig (wire_Ifconfig w) (wire_Topology w) opts else opts);
          opts = (if wire_IfconfigIPv6 w \<noteq> [] then addWireIfconfigIPv6 (wire_IfconfigIPv6 w) opts else opts);
          opts = setWireRouteGateway (wire_RouteGateway w) opts;
          opts = fold (addWireRoute remoteHost) (wire_Route w) opts
      in fold (addWireRouteIPv6 remoteHost) (wire_RouteIPv6 w) opts)"

definition from_wire_dns :: "wirePushedOptions \<Rightarrow> pushedOptions \<Rightarrow> pushedOptions" where
  "from_wire_dns w opts =
     (let opts = drop_empty_dns_servers (fold addWireDNSOptionV2 (wire_DNS w) opts);
          opts = opts\<lparr>modernDNS := length (push_DNSServers opts) > 0\<rparr>;
          opts = (if \<not> modernDNS opts then fold addWireDHCPOptionDNS (wire_DHCPOptions w) opts else opts)
      in if modernDNS opts then opts\<lparr>push_DHCPOptions := filterOpenVPNNonDNSDHCPOptions (push_DHCPOptions opts)\<rparr> else opts)"

definition pushedOptionsFromWire :: "wirePushedOptions \<Rightarrow> addr \<Rightarrow> pushedOptions" where
  "pushedOptionsFromWire w remoteHost = from_wire_dns w (from_wire_addresses remoteHost w (copy_wire w))"

definition decodePushReplyOptionLines ::
  "string \<Rightarrow> string list \<Rightarrow> addr \<Rightarrow> PullFilter list \<Rightarrow> pushedOptions \<times> int" where
  "decodePushReplyOptionLines commandName optionLines remoteHost filters =
     (let kind = (if EqualFold commandName pushUpdatePayloadPrefix then pushOptionsKindUpdate else pushOptionsKindReply)
      in case decode_lines filters optionLines zero_wire 0 of (w, continuation, rejection) \<Rightarrow>
           ((pushedOptionsFromWire w remoteHost)\<lparr>push_kind := kind, pullFilterRejection := rejection\<rparr>, continuation))"

definition decodePushReplyPayloadWithFilters ::
  "string \<Rightarrow> addr \<Rightarrow> PullFilter list \<Rightarrow> (pushedOptions \<times> int) option" where
  "decodePushReplyPayloadWithFilters payload remoteHost filters =
     (case splitPushReplyPayloadLines payload of
        None \<Rightarrow> None
      | Some (commandName, payloadLines) \<Rightarrow> Some (decodePushReplyOptionLines commandName payloadLines remoteHost filters))"

end
