(* ===== verification/Client_Tunnel.thy ===== *)
theory Client_Tunnel
  imports Pull_Options
begin

text \<open>
  The tunnel configuration of a client: the helpers of tunnel_options.go, the installation of pushed
  options, client_tunnel.go, the directives of the control channel, control_directives.go, and the part
  of client_control.go that collects the segments of a push reply. Log output is not modelled; the
  queue of configuration events is.
\<close>

section \<open>Helpers\<close>

definition localAddressByFamily :: "pushedOptions \<Rightarrow> bool \<Rightarrow> pushedLocalAddress list" where
  "localAddressByFamily options ipv4 = filter (local_family ipv4) (push_LocalAddress options)"

definition routesByFamily :: "pushedOptions \<Rightarrow> bool \<Rightarrow> pushedRoute list" where
  "routesByFamily options ipv4 =
     filter (\<lambda>v. prefix_IsValid (route_Prefix (pushed_Route v)) \<and> Is4 (prefix_Addr (route_Prefix (pushed_Route v))) = ipv4)
       (push_Routes options)"

definition routeGatewayFilterValue :: "pushedOptions \<Rightarrow> string" where
  "routeGatewayFilterValue options = formatPushedRouteGateway options"

definition opts_routeGateway :: "pushedOptions \<Rightarrow> addr \<Rightarrow> string \<Rightarrow> addr" where
  "opts_routeGateway options vpnGateway topology =
     (if IsValid (push_RouteGateway options) then push_RouteGateway options
      else if push_RouteGatewayVPN options \<and> IsValid vpnGateway \<and> \<not> EqualFold (TrimSpace topology) ''subnet'' then vpnGateway
      else NoAddr)"

fun local_prefixes :: "pushedLocalAddress list \<Rightarrow> prefix list \<Rightarrow> addr \<Rightarrow> prefix list \<times> addr" where
  "local_prefixes [] prefixes vpnGateway = (prefixes, vpnGateway)"
| "local_prefixes (v # values) prefixes vpnGateway =
     (if \<not> prefix_IsValid (local_Prefix v) then local_prefixes values prefixes vpnGateway
      else local_prefixes values
             (if local_Prefix v \<notin> set prefixes then prefixes @ [local_Prefix v] else prefixes)
             (if \<not> IsValid vpnGateway \<and> IsValid (local_Peer v) then local_Peer v else vpnGateway))"

definition pushedLocalAddressPrefixes :: "pushedLocalAddress list \<Rightarrow> prefix list \<times> addr" where
  "pushedLocalAddressPrefixes values = local_prefixes values [] NoAddr"

definition pushedAddresses :: "pushedAddress list \<Rightarrow> addr list" where
  "pushedAddresses values = filter IsValid (map pushed_Address values)"

definition pushedTunnelRoutes :: "pushedRoute list \<Rightarrow> int \<Rightarrow> TunnelRoute list" where
  "pushedTunnelRoutes values routeMetric =
     map (\<lambda>r. r\<lparr>route_Prefix := Masked (route_Prefix r),
               route_Metric := (if route_Metric r = 0 then routeMetric else route_Metric r)\<rparr>)
       (filter (\<lambda>r. prefix_IsValid (route_Prefix r)) (map pushed_Route values))"

definition splitLocalAddressPrefixes :: "prefix list \<Rightarrow> prefix list \<times> prefix list" where
  "splitLocalAddressPrefixes values =
     (let valid = filter prefix_IsValid values
      in (filter (\<lambda>v. Is4 (prefix_Addr v)) valid, filter (\<lambda>v. \<not> Is4 (prefix_Addr v) \<and> Is6 (prefix_Addr v)) valid))"

definition split_route :: "addr \<Rightarrow> addr \<Rightarrow> addr \<Rightarrow> int \<Rightarrow> TunnelRoute \<Rightarrow> TunnelRoute" where
  "split_route routeGateway vpnGateway vpnGatewayIPv6 routeMetric route =
     (let route = route\<lparr>route_Prefix := Masked (route_Prefix route)\<rparr>;
          route = (if route_Metric route = 0 then route\<lparr>route_Metric := routeMetric\<rparr> else route)
      in if Is4 (prefix_Addr (route_Prefix route)) then
           if \<not> IsValid (route_Gateway route) \<and> Is4 routeGateway then route\<lparr>route_Gateway := routeGateway\<rparr>
           else if \<not> IsValid (route_Gateway route) \<and> Is4 vpnGateway then route\<lparr>route_Gateway := vpnGateway\<rparr>
           else route
         else if Is6 (prefix_Addr (route_Prefix route)) \<and> \<not> IsValid (route_Gateway route) \<and> Is6 vpnGatewayIPv6
         then route\<lparr>route_Gateway := vpnGatewayIPv6\<rparr>
         else route)"

definition splitTunnelRoutes ::
  "TunnelRoute list \<Rightarrow> addr \<Rightarrow> addr \<Rightarrow> addr \<Rightarrow> int \<Rightarrow> TunnelRoute list \<times> TunnelRoute list" where
  "splitTunnelRoutes values routeGateway vpnGateway vpnGatewayIPv6 routeMetric =
     (let routes = map (split_route routeGateway vpnGateway vpnGatewayIPv6 routeMetric)
                     (filter (\<lambda>r. prefix_IsValid (route_Prefix r)) values)
      in (filter (\<lambda>r. Is4 (prefix_Addr (route_Prefix r))) routes,
          filter (\<lambda>r. \<not> Is4 (prefix_Addr (route_Prefix r)) \<and> Is6 (prefix_Addr (route_Prefix r))) routes))"

definition fillTunnelRouteGateways :: "addr \<Rightarrow> TunnelRoute list \<Rightarrow> TunnelRoute list" where
  "fillTunnelRouteGateways gateway routes =
     (if \<not> IsValid gateway then routes
      else map (\<lambda>r. if \<not> IsValid (route_Gateway r) \<and> Is4 (prefix_Addr (route_Prefix r)) = Is4 gateway
                     then r\<lparr>route_Gateway := gateway\<rparr> else r) routes)"

definition appendUniqueAddresses :: "addr list \<Rightarrow> addr list \<Rightarrow> addr list" where
  "appendUniqueAddresses destination values =
     foldl (\<lambda>d v. if \<not> IsValid v then d else if v \<notin> set d then d @ [v] else d) destination values"

definition appendUniqueTunnelRoutes :: "TunnelRoute list \<Rightarrow> TunnelRoute list \<Rightarrow> TunnelRoute list" where
  "appendUniqueTunnelRoutes destination values =
     foldl (\<lambda>d v. if \<not> prefix_IsValid (route_Prefix v) then d
                   else let v = v\<lparr>route_Prefix := Masked (route_Prefix v)\<rparr> in if v \<notin> set d then d @ [v] else d) destination values"

fun replace_server :: "TunnelDNSServer \<Rightarrow> TunnelDNSServer list \<Rightarrow> TunnelDNSServer list" where
  "replace_server s [] = [s]"
| "replace_server s (t # ts) = (if dns_Priority t = dns_Priority s then s # ts else t # replace_server s ts)"

definition mergeTunnelDNSServers :: "TunnelDNSServer list \<Rightarrow> TunnelDNSServer list \<Rightarrow> TunnelDNSServer list" where
  "mergeTunnelDNSServers destination servers = sort_key dns_Priority (foldl (\<lambda>m s. replace_server s m) destination servers)"

section \<open>State\<close>

definition zero_TunnelConfiguration :: TunnelConfiguration where
  "zero_TunnelConfiguration =
     \<lparr>tun_DevType = [], tun_Topology = [], tun_TunMTU = 0, tun_LocalIPv4 = [], tun_LocalIPv6 = [], tun_VPNGateway = NoAddr,
      tun_VPNGatewayIPv6 = NoAddr, tun_IPv4Routes = [], tun_IPv6Routes = [], tun_ExcludedIPv4Routes = [],
      tun_ExcludedIPv6Routes = [], tun_DNS = [], tun_DNSServers = [], tun_DHCPOptions = [], tun_SearchDomains = [],
      tun_DNSRoutes = [], tun_BlockIPv6 = False, tun_BlockOutsideDNS = False, tun_RedirectGateway = False,
      tun_RedirectGatewayFlags = [], tun_RedirectPrivate = False, tun_RouteMetric = 0, tun_RouteGateway = NoAddr,
      tun_PingInterval = 0, tun_PingRestart = 0, tun_AuthToken = [], tun_AuthTokenUser = [], tun_ExplicitExitNotify = 0,
      tun_PeerID = None, tun_SelectedCipher = [], tun_SelectedAuth = [], tun_ProtocolFlags = [], tun_KeyDerivation = [],
      tun_InactiveTimeout = 0, tun_InactiveMinimumBytes = 0, tun_SessionTimeout = 0, tun_PingExit = 0,
      tun_PingTimerRemote = False\<rparr>"

definition buildInitialTunnelConfiguration :: "ClientOptions \<Rightarrow> TunnelConfiguration" where
  "buildInitialTunnelConfiguration options =
     (let t = c_Tunnel options;
          (localIPv4, localIPv6) = splitLocalAddressPrefixes (cn_LocalAddress t);
          (ipv4Routes, ipv6Routes) =
            splitTunnelRoutes (cn_Routes t) (cn_RouteGateway t) (cn_VPNGateway t) (cn_VPNGatewayIPv6 t) (cn_RouteMetric t);
          parsed = fold addWireDHCPOptionDNS (cn_DHCPOptions t) zero_pushedOptions
      in zero_TunnelConfiguration
           \<lparr>tun_DevType := cn_DevType t, tun_Topology := cn_Topology t, tun_TunMTU := cd_MTU (c_DataChannel options),
            tun_LocalIPv4 := localIPv4, tun_LocalIPv6 := localIPv6, tun_VPNGateway := cn_VPNGateway t,
            tun_VPNGatewayIPv6 := cn_VPNGatewayIPv6 t, tun_RouteGateway := cn_RouteGateway t, tun_IPv4Routes := ipv4Routes,
            tun_IPv6Routes := ipv6Routes, tun_DHCPOptions := cn_DHCPOptions t, tun_BlockIPv6 := cn_BlockIPv6 t,
            tun_BlockOutsideDNS := cn_BlockOutsideDNS t, tun_RedirectGateway := cn_RedirectGateway t,
            tun_RedirectGatewayFlags := cn_RedirectGatewayFlags t, tun_RedirectPrivate := cn_RedirectPrivate t,
            tun_RouteMetric := cn_RouteMetric t, tun_PingInterval := cm_PingInterval (c_Timing options),
            tun_PingRestart := cm_PingRestart (c_Timing options), tun_DNS := pushedAddresses (push_DNS parsed),
            tun_SearchDomains := push_SearchDomains parsed, tun_DNSRoutes := push_DNSRoutes parsed\<rparr>)"

datatype TunnelConfigurationEventReason =
    TunnelConfigurationEventInitial | TunnelConfigurationEventPushUpdate | TunnelConfigurationEventRenegotiation

record TunnelConfigurationEvent =
  event_Reason :: TunnelConfigurationEventReason
  event_Configuration :: TunnelConfiguration

record clientTunnelState =
  ts_configuration :: TunnelConfiguration
  ts_authToken :: string
  ts_authTokenUser :: string
  pulledOptionsReceived :: bool
  modernDNSConfigured :: bool
  ts_modernSearchDomains :: "string list"
  deferInitialEvent :: bool
  ts_pullFilterRejection :: string
  compressionPushRejection :: string
  dispatcher_events :: "TunnelConfigurationEvent list"
  dispatcher_stopped :: bool

definition enqueueTunnelConfigurationEventLocked ::
  "ClientOptions \<Rightarrow> TunnelConfigurationEvent \<Rightarrow> clientTunnelState \<Rightarrow> bool \<times> clientTunnelState" where
  "enqueueTunnelConfigurationEventLocked options event t =
     (if \<not> c_OnTunnelConfiguration options \<or> dispatcher_stopped t then (False, t)
      else (True, t\<lparr>dispatcher_events := dispatcher_events t @ [event]\<rparr>))"

definition stopTunnelConfigurationDispatcher :: "clientTunnelState \<Rightarrow> clientTunnelState" where
  "stopTunnelConfigurationDispatcher t = t\<lparr>dispatcher_stopped := True, dispatcher_events := []\<rparr>"

text \<open>One round of the dispatcher: the event handed to the callback, if there is one.\<close>

definition runTunnelConfigurationDispatcher :: "clientTunnelState \<Rightarrow> TunnelConfigurationEvent option \<times> clientTunnelState" where
  "runTunnelConfigurationDispatcher t =
     (if dispatcher_stopped t then (None, t\<lparr>dispatcher_events := []\<rparr>)
      else case dispatcher_events t of [] \<Rightarrow> (None, t) | e # es \<Rightarrow> (Some e, t\<lparr>dispatcher_events := es\<rparr>))"

section \<open>Installing pushed options\<close>

text \<open>
  \<open>maybeReconfigureDataFramingFromPushedOptions\<close>: the directives are applied in order to the local
  compression settings; the result is a rejection text, or the settings of the new framing.
\<close>

definition directive_text :: "compressionDirective \<Rightarrow> string" where
  "directive_text d = directive_Name d @ (if directive_Value d \<noteq> [] then '' '' @ directive_Value d else [])"

fun apply_directives :: "compressionDirective list \<Rightarrow> string list \<Rightarrow> compressionSettings \<Rightarrow> string list \<times> compressionSettings option" where
  "apply_directives [] parts settings = (parts, Some settings)"
| "apply_directives (d # ds) parts settings =
     (let parts = parts @ [directive_text d]
      in case compression_apply d settings of
           (Some _, _) \<Rightarrow> (parts, None)
         | (None, settings') \<Rightarrow> apply_directives ds parts settings')"

definition maybeReconfigureDataFramingFromPushedOptions ::
  "compressionSettings \<Rightarrow> allowCompressionPolicy \<Rightarrow> pushedOptions \<Rightarrow> string \<times> compressionSettings option" where
  "maybeReconfigureDataFramingFromPushedOptions compression policy options =
     (if push_CompressionDirectives options = [] then ([], None)
      else case apply_directives (push_CompressionDirectives options) [] compression of
        (parts, None) \<Rightarrow> (str_Join parts ''; '', None)
      | (parts, Some pushedCompression) \<Rightarrow>
          if policy = allowCompressionStubOnly \<and> nonStubEnabled pushedCompression then (str_Join parts ''; '', None)
          else if pushedCompression = compression then ([], None)
          else ([], Some pushedCompression))"

definition apply_addresses :: "pushedOptions \<Rightarrow> TunnelConfiguration \<Rightarrow> TunnelConfiguration" where
  "apply_addresses options cfg =
     (let cfg = (if push_PingRestartEnabled options \<noteq> push_PingExitSet options
                 then if push_PingRestartEnabled options then cfg\<lparr>tun_PingExit := 0\<rparr> else cfg\<lparr>tun_PingRestart := 0\<rparr>
                 else cfg);
          cfg = (if push_Topology options \<noteq> [] then cfg\<lparr>tun_Topology := push_Topology options\<rparr> else cfg);
          pushedLocalIPv4 = localAddressByFamily options True;
          cfg = (if pushedLocalIPv4 \<noteq> []
                 then cfg\<lparr>tun_LocalIPv4 := fst (pushedLocalAddressPrefixes pushedLocalIPv4),
                          tun_VPNGateway := snd (pushedLocalAddressPrefixes pushedLocalIPv4)\<rparr>
                 else cfg);
          pushedLocalIPv6 = localAddressByFamily options False
      in if pushedLocalIPv6 \<noteq> []
         then cfg\<lparr>tun_LocalIPv6 := fst (pushedLocalAddressPrefixes pushedLocalIPv6),
                  tun_VPNGatewayIPv6 := snd (pushedLocalAddressPrefixes pushedLocalIPv6)\<rparr>
         else cfg)"

definition apply_mtu :: "pushedOptions \<Rightarrow> TunnelConfiguration \<Rightarrow> pushedOptionParseError list \<times> TunnelConfiguration" where
  "apply_mtu options cfg =
     (if push_TunMTU options > 0 then
        let minimumTunMTU = (if length (tun_LocalIPv6 cfg) > 0 then 1280 else 576)
        in if push_TunMTU options < minimumTunMTU
           then ([\<lparr>parse_Name = ''tun-mtu'', parse_Value = FormatUint (unat (push_TunMTU options)),
                   parse_Err = New ''tun-mtu must be at least''\<rparr>], cfg)
           else ([], cfg\<lparr>tun_TunMTU := push_TunMTU options\<rparr>)
      else ([], cfg))"

text \<open>The DNS part, with the modern search domains of the client and whether a modern server is configured.\<close>

definition apply_dns ::
  "pushedOptions \<Rightarrow> string list \<Rightarrow> bool \<Rightarrow> TunnelConfiguration \<Rightarrow> bool \<times> TunnelConfiguration" where
  "apply_dns options searchDomains configured cfg =
     (let first = modernDNS options \<and> \<not> configured;
          cfg = (if first
                 then cfg\<lparr>tun_DNS := [], tun_SearchDomains := searchDomains, tun_DNSRoutes := [],
                          tun_DHCPOptions := filterOpenVPNNonDNSDHCPOptions (tun_DHCPOptions cfg)\<rparr>
                 else cfg);
          configured = (configured \<or> first)
      in (configured,
          if configured
          then cfg\<lparr>tun_DNS := appendUniqueAddresses (tun_DNS cfg) (pushedAddresses (modernDNSAddresses options)),
                   tun_DNSServers := mergeTunnelDNSServers (tun_DNSServers cfg) (push_DNSServers options),
                   tun_SearchDomains := appendUniqueStringValues (tun_SearchDomains cfg) (modernSearchDomains options),
                   tun_DHCPOptions :=
                     appendUniqueStringValues (tun_DHCPOptions cfg) (filterOpenVPNNonDNSDHCPOptions (push_DHCPOptions options))\<rparr>
          else cfg\<lparr>tun_DNS := appendUniqueAddresses (tun_DNS cfg) (pushedAddresses (push_DNS options)),
                   tun_DHCPOptions := appendUniqueStringValues (tun_DHCPOptions cfg) (push_DHCPOptions options),
                   tun_SearchDomains := appendUniqueStringValues (tun_SearchDomains cfg) (push_SearchDomains options),
                   tun_DNSRoutes := appendUniqueStringValues (tun_DNSRoutes cfg) (push_DNSRoutes options)\<rparr>))"

definition apply_blocks :: "pushedOptions \<Rightarrow> TunnelConfiguration \<Rightarrow> TunnelConfiguration" where
  "apply_blocks options cfg =
     (let cfg = (if push_BlockIPv6 options then cfg\<lparr>tun_BlockIPv6 := True\<rparr> else cfg);
          cfg = (if push_BlockOutsideDNS options then cfg\<lparr>tun_BlockOutsideDNS := True\<rparr> else cfg)
      in if push_RouteMetricSet options then cfg\<lparr>tun_RouteMetric := push_RouteMetric options\<rparr> else cfg)"

definition apply_session :: "pushedOptions \<Rightarrow> TunnelConfiguration \<Rightarrow> TunnelConfiguration" where
  "apply_session options cfg =
     (let cfg = (if push_PingIntervalEnabled options then cfg\<lparr>tun_PingInterval := push_PingInterval options\<rparr> else cfg);
          cfg = (if push_PingRestartEnabled options then cfg\<lparr>tun_PingRestart := push_PingRestart options\<rparr> else cfg);
          cfg = (if push_AuthToken options \<noteq> [] then cfg\<lparr>tun_AuthToken := push_AuthToken options\<rparr> else cfg);
          cfg = (if push_AuthTokenUser options \<noteq> [] then cfg\<lparr>tun_AuthTokenUser := push_AuthTokenUser options\<rparr> else cfg);
          cfg = (if push_ExplicitExitNotifySet options then cfg\<lparr>tun_ExplicitExitNotify := push_ExplicitExitNotify options\<rparr> else cfg);
          cfg = (if push_PeerID options \<noteq> None then cfg\<lparr>tun_PeerID := push_PeerID options\<rparr> else cfg);
          cfg = (if push_SelectedCipher options \<noteq> [] then cfg\<lparr>tun_SelectedCipher := push_SelectedCipher options\<rparr> else cfg);
          cfg = (if push_SelectedAuth options \<noteq> [] then cfg\<lparr>tun_SelectedAuth := push_SelectedAuth options\<rparr> else cfg);
          cfg = (if length (push_ProtocolFlags options) > 0 then cfg\<lparr>tun_ProtocolFlags := push_ProtocolFlags options\<rparr> else cfg);
          cfg = (if push_KeyDerivation options \<noteq> [] then cfg\<lparr>tun_KeyDerivation := push_KeyDerivation options\<rparr> else cfg);
          cfg = (if push_InactiveTimeoutSet options
                 then cfg\<lparr>tun_InactiveTimeout := push_InactiveTimeout options,
                          tun_InactiveMinimumBytes := push_InactiveMinimumBytes options\<rparr> else cfg);
          cfg = (if push_SessionTimeoutSet options then cfg\<lparr>tun_SessionTimeout := push_SessionTimeout options\<rparr> else cfg);
          cfg = (if push_PingExitSet options then cfg\<lparr>tun_PingExit := push_PingExit options\<rparr> else cfg)
      in if push_PingTimerRemote options then cfg\<lparr>tun_PingTimerRemote := True\<rparr> else cfg)"

definition apply_gateway :: "pushedOptions \<Rightarrow> TunnelConfiguration \<Rightarrow> pushedOptionParseError list \<times> TunnelConfiguration" where
  "apply_gateway options cfg =
     (if IsValid (push_RouteGateway options) \<or> push_RouteGatewayVPN options then
        let effectiveRouteGateway = opts_routeGateway options (tun_VPNGateway cfg) (tun_Topology cfg)
        in if IsValid effectiveRouteGateway then ([], cfg\<lparr>tun_RouteGateway := effectiveRouteGateway\<rparr>)
           else ([\<lparr>parse_Name = ''route-gateway'', parse_Value = routeGatewayFilterValue options,
                   parse_Err = errInvalidPushedRouteGateway\<rparr>], cfg)
      else ([], cfg))"

definition apply_excluded :: "TunnelConfiguration \<Rightarrow> pushedExcludedRoute \<Rightarrow> TunnelConfiguration" where
  "apply_excluded cfg e =
     (if Is4 (prefix_Addr (route_Prefix (excluded_Route e)))
      then cfg\<lparr>tun_ExcludedIPv4Routes := appendUniqueTunnelRoutes (tun_ExcludedIPv4Routes cfg) [excluded_Route e]\<rparr>
      else cfg\<lparr>tun_ExcludedIPv6Routes := appendUniqueTunnelRoutes (tun_ExcludedIPv6Routes cfg) [excluded_Route e]\<rparr>)"

definition apply_routes :: "pushedOptions \<Rightarrow> TunnelConfiguration \<Rightarrow> TunnelConfiguration" where
  "apply_routes options cfg =
     (let cfg = cfg\<lparr>tun_IPv4Routes := appendUniqueTunnelRoutes (tun_IPv4Routes cfg)
                      (pushedTunnelRoutes (routesByFamily options True) (tun_RouteMetric cfg)),
                    tun_IPv6Routes := appendUniqueTunnelRoutes (tun_IPv6Routes cfg)
                      (pushedTunnelRoutes (routesByFamily options False) (tun_RouteMetric cfg))\<rparr>;
          cfg = foldl apply_excluded cfg (excludedRoutes options);
          cfg = (if push_RedirectGateway options
                 then cfg\<lparr>tun_RedirectGateway := True, tun_RedirectGatewayFlags := push_RedirectGatewayFlags options\<rparr> else cfg)
      in if push_RedirectPrivate options then cfg\<lparr>tun_RedirectPrivate := True\<rparr> else cfg)"

definition fill_gateways :: "TunnelConfiguration \<Rightarrow> TunnelConfiguration" where
  "fill_gateways cfg =
     (let ipv4RouteGateway = (if \<not> Is4 (tun_RouteGateway cfg) then tun_VPNGateway cfg else tun_RouteGateway cfg)
      in cfg\<lparr>tun_IPv4Routes := fillTunnelRouteGateways ipv4RouteGateway (tun_IPv4Routes cfg),
             tun_IPv6Routes := fillTunnelRouteGateways (tun_VPNGatewayIPv6 cfg) (tun_IPv6Routes cfg)\<rparr>)"

text \<open>
  The update of the configuration, with the errors to be logged and whether a modern DNS server is
  configured from now on.
\<close>

definition updated_configuration ::
  "bool \<Rightarrow> pushedOptions \<Rightarrow> string list \<Rightarrow> bool \<Rightarrow> TunnelConfiguration \<Rightarrow>
     pushedOptionParseError list \<times> bool \<times> TunnelConfiguration" where
  "updated_configuration routeNoPull options searchDomains configured cfg =
     (let cfg = apply_addresses options cfg;
          (mtuErrors, cfg) = apply_mtu options cfg;
          (configured, cfg) = (if routeNoPull then (configured, cfg) else apply_dns options searchDomains configured cfg);
          cfg = (if routeNoPull then cfg else apply_blocks options cfg);
          cfg = apply_session options cfg;
          (gatewayErrors, cfg) = apply_gateway options cfg;
          cfg = (if routeNoPull then cfg else apply_routes options cfg)
      in (parseErrors options @ mtuErrors @ gatewayErrors, configured, fill_gateways cfg))"

definition event_reason :: "pushedOptions \<Rightarrow> bool \<Rightarrow> TunnelConfigurationEventReason" where
  "event_reason options isInitialPulledOptions =
     (if push_kind options = pushOptionsKindUpdate then TunnelConfigurationEventPushUpdate
      else if isInitialPulledOptions then TunnelConfigurationEventInitial else TunnelConfigurationEventRenegotiation)"

text \<open>
  \<open>applyPushedOptions\<close>: the rejections of the result are fields of the state; the second component are
  the settings of the framing it stores, the third the errors it logs.
\<close>

definition applyPushedOptions ::
  "ClientOptions \<Rightarrow> compressionSettings \<Rightarrow> allowCompressionPolicy \<Rightarrow> pushedOptions \<Rightarrow> clientTunnelState \<Rightarrow>
     clientTunnelState \<times> compressionSettings option \<times> pushedOptionParseError list" where
  "applyPushedOptions clientOptions compression policy options t =
     (let isInitialPulledOptions = (\<not> pulledOptionsReceived t);
          deferInitialTunnelEvent = (isInitialPulledOptions \<and> deferInitialEvent t);
          searchDomains = appendUniqueStringValues (ts_modernSearchDomains t) (modernSearchDomains options);
          (errors, configured, cfg) =
            updated_configuration (pull_RouteNoPull (c_Pull clientOptions)) options searchDomains (modernDNSConfigured t)
              (ts_configuration t);
          (rejection, framing) =
            (if isInitialPulledOptions then maybeReconfigureDataFramingFromPushedOptions compression policy options else ([], None));
          t = t\<lparr>ts_pullFilterRejection := pullFilterRejection options, compressionPushRejection := rejection,
                pulledOptionsReceived := True, ts_modernSearchDomains := searchDomains, modernDNSConfigured := configured,
                ts_authToken := (if push_AuthToken options \<noteq> [] then push_AuthToken options else ts_authToken t),
                ts_authTokenUser := (if push_AuthTokenUser options \<noteq> [] then push_AuthTokenUser options else ts_authTokenUser t),
                ts_configuration := cfg\<rparr>;
          t = (if deferInitialTunnelEvent then t
               else snd (enqueueTunnelConfigurationEventLocked clientOptions
                      \<lparr>event_Reason = event_reason options isInitialPulledOptions, event_Configuration = cfg\<rparr> t))
      in (t, framing, errors))"

definition routeNoPullBlocksOption :: "string \<Rightarrow> bool" where
  "routeNoPullBlocksOption optionName \<longleftrightarrow>
     optionName \<in> {''route'', ''route-ipv6'', ''route-metric'', ''redirect-gateway'', ''redirect-private'', ''dns'',
                     ''dhcp-option'', ''block-ipv6'', ''block-outside-dns''}"

section \<open>Control directives\<close>

datatype tlsControlDirective =
    tlsControlDirectiveUnknown | tlsControlDirectiveAuthFailed | tlsControlDirectiveAuthPending | tlsControlDirectivePushReply
  | tlsControlDirectiveRestart | tlsControlDirectiveHalt | tlsControlDirectiveExit | tlsControlDirectiveInfoPre
  | tlsControlDirectiveInfo | tlsControlDirectiveCRResponse

definition is_directive :: "string \<Rightarrow> string \<Rightarrow> bool" where
  "is_directive name upperPayload \<longleftrightarrow> upperPayload = name \<or> HasPrefix upperPayload (name @ '','')"

definition classifyTLSControlDirective :: "string \<Rightarrow> tlsControlDirective" where
  "classifyTLSControlDirective payload =
     (let normalizedPayload = normalizeControlPayload payload; upperPayload = ToUpper normalizedPayload
      in if normalizedPayload = [] then tlsControlDirectiveUnknown
         else if is_directive ''AUTH_FAILED'' upperPayload then tlsControlDirectiveAuthFailed
         else if is_directive ''AUTH_PENDING'' upperPayload then tlsControlDirectiveAuthPending
         else if HasPrefix upperPayload ''PUSH_'' then tlsControlDirectivePushReply
         else if is_directive ''RESTART'' upperPayload then tlsControlDirectiveRestart
         else if is_directive ''HALT'' upperPayload then tlsControlDirectiveHalt
         else if is_directive ''INFO_PRE'' upperPayload then tlsControlDirectiveInfoPre
         else if is_directive ''INFO'' upperPayload then tlsControlDirectiveInfo
         else if is_directive ''CR_RESPONSE'' upperPayload then tlsControlDirectiveCRResponse
         else if is_directive ''EXIT'' upperPayload then tlsControlDirectiveExit
         else tlsControlDirectiveUnknown)"

definition tlsControlStringPayload :: "string \<Rightarrow> string" where
  "tlsControlStringPayload payload = (if payload \<noteq> [] \<and> last payload = NUL then payload else payload @ [NUL])"

text \<open>
  \<open>applyDecodedPushedOptions\<close>: the error of a rejection, and the peer id that is set otherwise.
\<close>

definition applyDecodedPushedOptions ::
  "ClientOptions \<Rightarrow> compressionSettings \<Rightarrow> allowCompressionPolicy \<Rightarrow> pushedOptions \<Rightarrow> clientTunnelState \<Rightarrow> u32 option \<Rightarrow>
     unit result \<times> clientTunnelState \<times> u32 option" where
  "applyDecodedPushedOptions clientOptions compression policy options t peerID =
     (let t = fst (applyPushedOptions clientOptions compression policy options t)
      in if ts_pullFilterRejection t \<noteq> [] then (Inl (Sentinel ErrPullFilterRejected), t, peerID)
         else if compressionPushRejection t \<noteq> [] then (Inl (Sentinel ErrCompressionPushRejected), t, peerID)
         else (Inr (), t, if push_PeerID options \<noteq> None then push_PeerID options else peerID))"

definition has_flag :: "string \<Rightarrow> string list \<Rightarrow> bool" where
  "has_flag flag flags = list_ex (\<lambda>f. EqualFold (TrimSpace f) flag) flags"

definition shouldSendCCExitOverControlChannel :: "TunnelConfiguration \<Rightarrow> bool" where
  "shouldSendCCExitOverControlChannel cfg = has_flag ''cc-exit'' (tun_ProtocolFlags cfg)"

definition tunnelUsesKeyMaterialExport :: "TunnelConfiguration \<Rightarrow> bool" where
  "tunnelUsesKeyMaterialExport cfg =
     (EqualFold (TrimSpace (tun_KeyDerivation cfg)) ''tls-ekm'' \<or> has_flag ''tls-ekm'' (tun_ProtocolFlags cfg))"

section \<open>Pulling\<close>

text \<open>
  The switch of \<open>pullConfigurationAndCipher\<close> over one control record: it stops with the directive that
  ends the session, or has options to apply, or goes on with the collected lines.
\<close>

datatype pull_outcome =
    PullStopped tlsControlDirective
  | PullDecoded pushedOptions
  | PullContinues "string list" bool

definition pull_record ::
  "addr \<Rightarrow> PullFilter list \<Rightarrow> string list \<Rightarrow> bool \<Rightarrow> string \<Rightarrow> pull_outcome" where
  "pull_record remoteHost filters accumulated pending controlRecord =
     (let directive = classifyTLSControlDirective controlRecord
      in if directive \<in> {tlsControlDirectiveAuthFailed, tlsControlDirectiveRestart, tlsControlDirectiveHalt, tlsControlDirectiveExit}
         then PullStopped directive
         else if directive = tlsControlDirectivePushReply then
           (case appendPushReplyPayloadSegment accumulated controlRecord of
              (accumulatedLines, continuation, True) \<Rightarrow>
                if continuation = 2 then PullContinues accumulatedLines True
                else PullDecoded (fst (decodePushReplyOptionLines (hd accumulatedLines) (tl accumulatedLines) remoteHost filters))
            | (_, _, False) \<Rightarrow>
                (case decodePushReplyPayloadWithFilters controlRecord remoteHost filters of
                   None \<Rightarrow> PullContinues accumulated False
                 | Some (options, continuation) \<Rightarrow>
                     if continuation = 2 then PullContinues accumulated True else PullDecoded options))
         else PullContinues accumulated pending)"

fun pull_records :: "addr \<Rightarrow> PullFilter list \<Rightarrow> string list \<Rightarrow> bool \<Rightarrow> string list \<Rightarrow> pull_outcome" where
  "pull_records remoteHost filters accumulated pending [] = PullContinues accumulated pending"
| "pull_records remoteHost filters accumulated pending (r # rs) =
     (case pull_record remoteHost filters accumulated pending r of
        PullContinues accumulated' pending' \<Rightarrow> pull_records remoteHost filters accumulated' pending' rs
      | outcome \<Rightarrow> outcome)"

end
