(* ===== verification/Push_Pull.thy ===== *)
theory Push_Pull
  imports Client_Tunnel
begin

text \<open>
  The push reply from end to end: the payloads of server_negotiation.go put together again by the
  client, and every option line of push_options.go decoded by pull_options.go to the value it was
  written from.
\<close>

section \<open>Lines of plain words\<close>

definition plain_char :: "char \<Rightarrow> bool" where
  "plain_char c \<longleftrightarrow>
     (33 :: nat) \<le> of_char c \<and> of_char c < (127 :: nat) \<and> (of_char c :: nat) \<notin> {0x22, 0x23, 0x27, 0x2C, 0x3B, 0x5C}"

definition param_ok :: "string \<Rightarrow> bool" where
  "param_ok t \<longleftrightarrow> t \<noteq> [] \<and> list_all plain_char t"

abbreviation words_line :: "string list \<Rightarrow> string" where
  "words_line ts \<equiv> str_Join ts '' ''"

lemma plain_char_facts:
  assumes "plain_char c"
  shows "\<not> isPushedOptionLineSpace c" "\<not> is_space c" "c \<noteq> CHR 0x5C" "c \<noteq> CHR 0x22" "c \<noteq> CHR 0x27" "c \<noteq> CHR '';''"
    "c \<noteq> CHR 0x23" "c \<noteq> CHR '',''" "c \<noteq> NUL"
  using assms by (auto simp: plain_char_def isPushedOptionLineSpace_def is_space_def NUL_def)

lemma param_word: "param_ok t \<Longrightarrow> word_ok t"
  by (auto simp: param_ok_def word_ok_def list_all_iff dest: plain_char_facts(2))

lemma iteration_word:
  assumes "plain_char c"
  shows "option_line_iteration c pushedOptionLineStateUnquoted False p ps = Continue pushedOptionLineStateUnquoted False (p @ [c]) ps"
    "option_line_iteration c pushedOptionLineStateInitial False [] ps = Continue pushedOptionLineStateUnquoted False [c] ps"
  using plain_char_facts [OF assms] by (simp_all add: option_line_iteration_def)

lemma loop_word:
  "list_all plain_char t \<Longrightarrow>
     option_line_loop (t @ s) pushedOptionLineStateUnquoted False p ps = option_line_loop s pushedOptionLineStateUnquoted False (p @ t) ps"
  by (induction t arbitrary: p) (simp_all add: iteration_word)

lemma loop_param:
  "param_ok t \<Longrightarrow>
     option_line_loop (t @ s) pushedOptionLineStateInitial False [] ps = option_line_loop s pushedOptionLineStateUnquoted False t ps"
  by (cases t) (simp_all add: param_ok_def iteration_word loop_word)

lemma iteration_end:
  assumes "isPushedOptionLineSpace c"
  shows "option_line_iteration c pushedOptionLineStateUnquoted False p ps =
    (if length ps + 1 \<ge> 16 then Return (Some (pushedOptionLineStateInitial, ps @ [p]))
     else Continue pushedOptionLineStateInitial False [] (ps @ [p]))"
proof -
  have "c \<noteq> CHR 0x5C" using assms by (auto simp: isPushedOptionLineSpace_def)
  then show ?thesis using assms by (simp add: option_line_iteration_def pushedOptionLineMaxParameters_def)
qed

lemma loop_words:
  assumes "ts \<noteq> []" "\<forall>t \<in> set ts. param_ok t" "length ps < 16"
  shows "option_line_loop (words_line ts @ [NUL]) pushedOptionLineStateInitial False [] ps =
    Some (pushedOptionLineStateInitial, take 16 (ps @ ts))"
  using assms
proof (induction ts arbitrary: ps rule: induct_list012)
  case (2 t)
  have "isPushedOptionLineSpace NUL" by (simp add: isPushedOptionLineSpace_def NUL_def)
  then show ?case using 2 by (simp add: loop_param iteration_end)
next
  case (3 t u ts)
  have sp: "isPushedOptionLineSpace (CHR '' '')" by (simp add: isPushedOptionLineSpace_def)
  have "option_line_loop (words_line (t # u # ts) @ [NUL]) pushedOptionLineStateInitial False [] ps =
      (if length ps + 1 \<ge> 16 then Some (pushedOptionLineStateInitial, ps @ [t])
       else option_line_loop (words_line (u # ts) @ [NUL]) pushedOptionLineStateInitial False [] (ps @ [t]))"
    using 3(4) by (simp add: loop_param iteration_end [OF sp])
  moreover have "take 16 (ps @ t # u # ts) = ps @ [t]" if "length ps + 1 \<ge> 16"
  proof -
    have "length ps = 15" using that 3(5) by simp
    then show ?thesis by simp
  qed
  moreover have "option_line_loop (words_line (u # ts) @ [NUL]) pushedOptionLineStateInitial False [] (ps @ [t]) =
      Some (pushedOptionLineStateInitial, take 16 (ps @ t # u # ts))" if "\<not> length ps + 1 \<ge> 16"
    using 3(2) [of "ps @ [t]"] 3(4) that by (simp only: append_assoc append_Cons append_Nil) simp
  ultimately show ?case by (cases "length ps + 1 \<ge> 16") (simp_all only: if_True if_False simp_thms)
qed simp

lemma parse_words:
  assumes "ts \<noteq> []" "\<forall>t \<in> set ts. param_ok t"
  shows "parsePushedOptionLine (words_line ts) = Some (take 16 ts)"
  using loop_words [OF assms, of "[]"] assms(1) by (simp add: parsePushedOptionLine_def)

section \<open>Decoding line by line\<close>

definition wire_line :: "string \<Rightarrow> wirePushedOptions \<Rightarrow> wirePushedOptions" where
  "wire_line line w =
     (case parsePushedOptionLine line of
        None \<Rightarrow> w
      | Some parameters \<Rightarrow> wire_option (ToLower (hd parameters)) (words_line (tl parameters)) w)"

definition passes :: "PullFilter list \<Rightarrow> string \<Rightarrow> bool" where
  "passes filters line \<longleftrightarrow> applyPullFilters filters (dropWhile is_space line) = (True, False)"

lemma decode_fold:
  "\<forall>line \<in> set ls. passes filters line \<Longrightarrow>
     \<exists>c'. decode_lines filters ls w c = (fold wire_line ls w, c', [])"
proof (induction ls arbitrary: w c)
  case (Cons l ls)
  have "\<exists>c''. decode_lines filters (l # ls) w c = decode_lines filters ls (wire_line l w) c''"
    using Cons.prems by (auto simp: passes_def wire_line_def Let_def split: option.splits)
  then obtain c'' where "decode_lines filters (l # ls) w c = decode_lines filters ls (wire_line l w) c''" by blast
  moreover have "\<exists>c'. decode_lines filters ls (wire_line l w) c'' = (fold wire_line ls (wire_line l w), c', [])"
    using Cons by simp
  ultimately show ?case by simp
qed simp

lemma wire_line_words:
  assumes "param_ok n" "\<forall>t \<in> set ts. param_ok t" "length ts < 16"
  shows "wire_line (words_line (n # ts)) w = wire_option (ToLower n) (words_line ts) w"
  using parse_words [of "n # ts"] assms by (simp add: wire_line_def)

lemma wire_continuation: "wire_line ''push-continuation 2'' w = w" "wire_line ''push-continuation 1'' w = w"
proof -
  have "param_ok ''push-continuation''" "param_ok ''1''" "param_ok ''2''" by (simp_all add: param_ok_def plain_char_def)
  then have "wire_line ''push-continuation 2'' w = wire_option (ToLower ''push-continuation'') ''2'' w"
    "wire_line ''push-continuation 1'' w = wire_option (ToLower ''push-continuation'') ''1'' w"
    using wire_line_words [of "''push-continuation''" "[''2'']" w] wire_line_words [of "''push-continuation''" "[''1'']" w] by simp_all
  moreover have "ToLower ''push-continuation'' = ''push-continuation''" by (simp add: ToLower_def lower_char_def)
  ultimately show "wire_line ''push-continuation 2'' w = w" "wire_line ''push-continuation 1'' w = w"
    by (simp_all add: wire_option_def compressionDirectiveCompress_def compressionDirectiveLZO_def)
qed

section \<open>Splitting and collecting\<close>

text \<open>A field that survives the way: it can be told apart from its neighbours and is no continuation mark.\<close>

definition clean_field :: "string \<Rightarrow> bool" where
  "clean_field f \<longleftrightarrow> f \<noteq> [] \<and> CHR '','' \<notin> set f \<and> \<not> is_space (last f) \<and> last f \<noteq> NUL"

definition field_ok :: "string \<Rightarrow> bool" where
  "field_ok f \<longleftrightarrow> clean_field f \<and> (\<forall>c. segment_continuation c f = c)"

abbreviation payload_of :: "string list \<Rightarrow> string" where
  "payload_of fs \<equiv> str_Join (pushReplyPayloadPrefix # fs) '',''"

lemma payload_snoc: "payload_of (fs @ [f]) = payload_of fs @ '','' @ f"
  by (induction fs arbitrary: f rule: induct_list012) simp_all

lemma last_payload:
  assumes "\<forall>f \<in> set fs. f \<noteq> [] \<and> \<not> is_space (last f) \<and> last f \<noteq> NUL"
  shows "payload_of fs \<noteq> []" "hd (payload_of fs) = CHR ''P''" "\<not> is_space (last (payload_of fs))" "last (payload_of fs) \<noteq> NUL"
proof -
  show "payload_of fs \<noteq> []" "hd (payload_of fs) = CHR ''P''" by (cases fs; simp add: pushReplyPayloadPrefix_def)+
  have "\<not> is_space (last (payload_of fs)) \<and> last (payload_of fs) \<noteq> NUL"
    using assms by (cases fs rule: rev_cases) (simp_all add: payload_snoc del: str_Join.simps(3), simp add: pushReplyPayloadPrefix_def is_space_def NUL_def)
  then show "\<not> is_space (last (payload_of fs))" "last (payload_of fs) \<noteq> NUL" by simp_all
qed

lemma normalize_payload:
  assumes "s \<noteq> []" "hd s \<noteq> NUL" "last s \<noteq> NUL" "\<not> is_space (hd s)" "\<not> is_space (last s)"
  shows "normalizeControlPayload (tlsControlStringPayload s) = s"
proof -
  have d: "dropWhile (\<lambda>c. c = NUL) (s @ t) = s @ t" for t using assms(1,2) by (cases s) auto
  have "dropWhile (\<lambda>c. c = NUL) (rev s) = rev s" using assms(1,3) by (cases "rev s") (auto simp: last_rev [symmetric])
  then have "normalizeControlPayload (tlsControlStringPayload s) = TrimSpace s"
    using assms(3) d [of "[NUL]"] by (simp add: normalizeControlPayload_def tlsControlStringPayload_def)
  then show ?thesis using TrimSpace_ends [of s] assms by simp
qed

lemma prefix_facts:
  "TrimSpace pushReplyPayloadPrefix = pushReplyPayloadPrefix" "EqualFold pushReplyPayloadPrefix pushReplyPayloadPrefix"
  "\<not> EqualFold pushReplyPayloadPrefix pushUpdatePayloadPrefix" "CHR '','' \<notin> set pushReplyPayloadPrefix"
  by (simp_all add: pushReplyPayloadPrefix_def pushUpdatePayloadPrefix_def TrimSpace_def is_space_def EqualFold_def ToLower_def lower_char_def)

lemma payload_lines:
  assumes "\<forall>f \<in> set fs. clean_field f"
  shows "splitPushReplyPayloadLines (tlsControlStringPayload (payload_of fs)) = Some (pushReplyPayloadPrefix, fs)"
    "classifyTLSControlDirective (tlsControlStringPayload (payload_of fs)) = tlsControlDirectivePushReply"
proof -
  have l: "payload_of fs \<noteq> []" "hd (payload_of fs) = CHR ''P''" "\<not> is_space (last (payload_of fs))" "last (payload_of fs) \<noteq> NUL"
    using last_payload [of fs] assms unfolding clean_field_def by blast+
  have n: "normalizeControlPayload (tlsControlStringPayload (payload_of fs)) = payload_of fs"
    using l by (intro normalize_payload) (simp_all add: NUL_def is_space_def)
  have "str_Split (payload_of fs) (CHR '','') = pushReplyPayloadPrefix # fs"
    using assms prefix_facts(4) by (intro Split_Join) (auto simp: clean_field_def)
  then show "splitPushReplyPayloadLines (tlsControlStringPayload (payload_of fs)) = Some (pushReplyPayloadPrefix, fs)"
    using l(1) prefix_facts by (simp add: splitPushReplyPayloadLines_def n Let_def)
  obtain r where "payload_of fs = pushReplyPayloadPrefix @ r" by (cases fs) simp_all
  then have "ToUpper (payload_of fs) = ''PUSH_REPLY'' @ ToUpper r"
    by (simp add: ToUpper_def pushReplyPayloadPrefix_def upper_char_def)
  then show "classifyTLSControlDirective (tlsControlStringPayload (payload_of fs)) = tlsControlDirectivePushReply"
    using l(1) unfolding classifyTLSControlDirective_def n Let_def by (simp add: is_directive_def HasPrefix_def)
qed

lemma continuation_ok:
  "\<And>c. segment_continuation c ''push-continuation 2'' = 2" "\<And>c. segment_continuation c ''push-continuation 1'' = 1"
proof -
  have p: "param_ok ''push-continuation''" "param_ok ''1''" "param_ok ''2''" by (simp_all add: param_ok_def plain_char_def)
  have "parsePushedOptionLine ''push-continuation 2'' = Some [''push-continuation'', ''2'']"
    "parsePushedOptionLine ''push-continuation 1'' = Some [''push-continuation'', ''1'']"
    using parse_words [of "[''push-continuation'', ''2'']"] parse_words [of "[''push-continuation'', ''1'']"] p by simp_all
  moreover have "continuation_value ''2'' = Some 2" "continuation_value ''1'' = Some 1"
    by (simp_all add: continuation_value_def Atoi_def)
  ultimately show "\<And>c. segment_continuation c ''push-continuation 2'' = 2" "\<And>c. segment_continuation c ''push-continuation 1'' = 1"
    by (simp_all add: segment_continuation_def EqualFold_def)
qed

lemma foldl_continuation: "\<forall>f \<in> set fs. field_ok f \<Longrightarrow> foldl segment_continuation c fs = c"
  by (induction fs arbitrary: c) (simp_all add: field_ok_def)

definition cont2 :: string where "cont2 = ''push-continuation 2''"
definition cont1 :: string where "cont1 = ''push-continuation 1''"

lemma split_loop_cont:
  "split_push_loop [] current multi done = Inr (done @ [if multi then current @ '','' @ cont1 else current])"
  "split_push_loop (f # fs) current multi done =
     (if length current + length ('','' @ f) \<ge> serverPushSafeCapacity then
        if current = pushReplyPayloadPrefix then Inl (New ''push option is too long'')
        else if length pushReplyPayloadPrefix + length ('','' @ f) \<ge> serverPushSafeCapacity then Inl (New ''push option is too long'')
        else split_push_loop fs (pushReplyPayloadPrefix @ '','' @ f) True (done @ [current @ '','' @ cont2])
      else split_push_loop fs (current @ '','' @ f) multi done)"
  by (simp_all add: cont1_def cont2_def Let_def)

lemma cont_facts: "cont1 \<noteq> cont2" "segment_continuation c cont2 = 2" "segment_continuation c cont1 = 1"
  "wire_line cont2 w = w" "wire_line cont1 w = w"
  by (simp_all add: cont1_def cont2_def continuation_ok wire_continuation)

text \<open>How the loop distributes the fields: full groups closed by the mark 2, and a last group.\<close>

lemma split_loop_groups:
  assumes "split_push_loop fs (payload_of cur) multi done = Inr out" "length (payload_of cur) < serverPushSafeCapacity"
  shows "\<exists>gss final. out = done @ map (\<lambda>g. payload_of (g @ [cont2])) gss @
      [payload_of (final @ (if multi \<or> gss \<noteq> [] then [cont1] else []))] \<and> concat gss @ final = cur @ fs \<and>
      (\<forall>g \<in> set (final # gss). length (payload_of g) < serverPushSafeCapacity)"
  using assms
proof (induction fs arbitrary: cur multi "done")
  case Nil
  then have "out = done @ map (\<lambda>g. payload_of (g @ [cont2])) [] @ [payload_of (cur @ (if multi \<or> [] \<noteq> [] then [cont1] else []))]"
    by (cases multi) (simp_all add: payload_snoc split_loop_cont(1) del: split_push_loop.simps)
  then show ?case using Nil.prems(2) by (intro exI [of _ "[]"] exI [of _ cur]) simp
next
  case (Cons f fs)
  have app: "payload_of cur @ '','' @ f = payload_of (cur @ [f])" by (simp add: payload_snoc)
  show ?case
  proof (cases "length (payload_of cur) + length ('','' @ f) \<ge> serverPushSafeCapacity")
    case False
    then have "split_push_loop fs (payload_of (cur @ [f])) multi done = Inr out"
      using Cons.prems(1) by (simp add: split_loop_cont(2) payload_snoc del: split_push_loop.simps)
    moreover have "length (payload_of (cur @ [f])) < serverPushSafeCapacity" using False by (simp add: payload_snoc)
    ultimately show ?thesis using Cons.IH [of "cur @ [f]" multi "done"] by simp
  next
    case True
    have "split_push_loop fs (payload_of [f]) True (done @ [payload_of (cur @ [cont2])]) = Inr out"
      "length (payload_of [f]) < serverPushSafeCapacity"
      using Cons.prems(1) True by (auto simp: split_loop_cont(2) payload_snoc simp del: split_push_loop.simps split: if_splits)
    from Cons.IH [OF this] obtain gss final where
      g: "out = (done @ [payload_of (cur @ [cont2])]) @ map (\<lambda>g. payload_of (g @ [cont2])) gss @
          [payload_of (final @ (if True \<or> gss \<noteq> [] then [cont1] else []))]"
        "concat gss @ final = [f] @ fs" "\<forall>g \<in> set (final # gss). length (payload_of g) < serverPushSafeCapacity" by blast
    then have "out = done @ map (\<lambda>g. payload_of (g @ [cont2])) (cur # gss) @
        [payload_of (final @ (if multi \<or> cur # gss \<noteq> [] then [cont1] else []))]" by simp
    moreover have "concat (cur # gss) @ final = cur @ f # fs" using g(2) by simp
    moreover have "\<forall>g \<in> set (final # cur # gss). length (payload_of g) < serverPushSafeCapacity" using g(3) Cons.prems(2) by simp
    ultimately show ?thesis by blast
  qed
qed

lemma cont_clean:
  "clean_field cont1" "clean_field cont2" "field_ok f \<Longrightarrow> clean_field f"
  by (simp_all add: is_space_def NUL_def cont1_def cont2_def clean_field_def field_ok_def)

lemma append_segment:
  assumes "\<forall>f \<in> set g. field_ok f" "marks = [] \<or> marks = [cont1] \<or> marks = [cont2]"
  shows "appendPushReplyPayloadSegment acc (tlsControlStringPayload (payload_of (g @ marks))) =
    ((if acc = [] then [pushReplyPayloadPrefix] else acc) @ g @ marks,
     if marks = [cont2] then 2 else if marks = [cont1] then 1 else 0, True)"
proof -
  have "\<forall>f \<in> set (g @ marks). clean_field f" using assms cont_clean by auto
  from payload_lines(1) [OF this] show ?thesis
    using assms(2) foldl_continuation [OF assms(1)] cont_facts by (auto simp: appendPushReplyPayloadSegment_def Let_def)
qed

lemma pull_segment:
  assumes "\<forall>f \<in> set g. field_ok f" "marks = [] \<or> marks = [cont1] \<or> marks = [cont2]"
  shows "pull_record remoteHost filters acc pending (tlsControlStringPayload (payload_of (g @ marks))) =
    (let ls = (if acc = [] then [pushReplyPayloadPrefix] else acc) @ g @ marks
     in if marks = [cont2] then PullContinues ls True
        else PullDecoded (fst (decodePushReplyOptionLines (hd ls) (tl ls) remoteHost filters)))"
proof -
  have "\<forall>f \<in> set (g @ marks). clean_field f" using assms cont_clean by auto
  from payload_lines(2) [OF this] show ?thesis
    unfolding pull_record_def append_segment [OF assms] using assms(2) cont_facts(1) by (auto simp: Let_def)
qed

lemma pull_groups:
  "\<forall>g \<in> set gss. \<forall>f \<in> set g. field_ok f \<Longrightarrow>
     pull_records remoteHost filters acc pending (map tlsControlStringPayload (map (\<lambda>g. payload_of (g @ [cont2])) gss) @ rs) =
     (if gss = [] then pull_records remoteHost filters acc pending rs
      else pull_records remoteHost filters
             ((if acc = [] then [pushReplyPayloadPrefix] else acc) @ concat (map (\<lambda>g. g @ [cont2]) gss)) True rs)"
proof (induction gss arbitrary: acc pending)
  case (Cons g gss)
  have p: "pull_record remoteHost filters acc pending (tlsControlStringPayload (payload_of (g @ [cont2]))) =
      PullContinues ((if acc = [] then [pushReplyPayloadPrefix] else acc) @ g @ [cont2]) True"
    using pull_segment [of g "[cont2]" remoteHost filters acc pending] Cons.prems by (simp add: Let_def)
  show ?case using Cons.IH [of "(if acc = [] then [pushReplyPayloadPrefix] else acc) @ g @ [cont2]" True] Cons.prems p by simp
qed simp

lemma fold_marks:
  "fold wire_line (concat (map (\<lambda>g. g @ [cont2]) gss) @ final @ marks) w = fold wire_line (concat gss @ final) w"
  if "marks = [] \<or> marks = [cont1]"
proof -
  have "fold wire_line (concat (map (\<lambda>g. g @ [cont2]) gss)) w = fold wire_line (concat gss) w" for w
    by (induction gss arbitrary: w) (simp_all add: cont_facts)
  then show ?thesis using that by (auto simp: cont_facts)
qed

definition field_fits :: "string \<Rightarrow> bool" where
  "field_fits f \<longleftrightarrow> length pushReplyPayloadPrefix + 1 + length f < serverPushSafeCapacity"

lemma split_loop_succeeds:
  assumes "\<forall>f \<in> set fs. field_fits f"
  shows "\<exists>out. split_push_loop fs current multi done = Inr out"
  using assms
proof (induction fs arbitrary: current multi "done")
  case (Cons f fs)
  have fits: "length pushReplyPayloadPrefix + length ('','' @ f) < serverPushSafeCapacity"
    using Cons.prems by (simp add: field_fits_def)
  then have "current = pushReplyPayloadPrefix \<Longrightarrow> \<not> length current + length ('','' @ f) \<ge> serverPushSafeCapacity" by simp
  then show ?case using Cons fits by (simp add: Let_def)
qed simp

lemma decode_same:
  assumes "\<forall>f \<in> set ls. passes filters f" "\<forall>f \<in> set ms. passes filters f" "fold wire_line ls zero_wire = fold wire_line ms zero_wire"
  shows "fst (decodePushReplyOptionLines command ls remoteHost filters) = fst (decodePushReplyOptionLines command ms remoteHost filters)"
proof -
  obtain c where "decode_lines filters ls zero_wire 0 = (fold wire_line ls zero_wire, c, [])"
    using decode_fold [OF assms(1)] by blast
  moreover obtain d where "decode_lines filters ms zero_wire 0 = (fold wire_line ms zero_wire, d, [])"
    using decode_fold [OF assms(2)] by blast
  ultimately show ?thesis using assms(3) by (simp add: decodePushReplyOptionLines_def)
qed

lemma payload_small: "length (payload_of g) < serverPushSafeCapacity \<Longrightarrow> f \<in> {cont1, cont2} \<Longrightarrow> length (payload_of (g @ [f])) < serverPushBundleSize"
  by (auto simp: payload_snoc serverPushSafeCapacity_def serverPushBundleSize_def serverPushBundleOverhead_def cont1_def cont2_def)

lemma pull_before_end:
  assumes "\<forall>g \<in> set gss. \<forall>f \<in> set g. field_ok f"
  shows "\<exists>acc pending. pull_records remoteHost filters [] False
    (map tlsControlStringPayload (take k (map (\<lambda>g. payload_of (g @ [cont2])) gss))) = PullContinues acc pending"
proof -
  have "\<forall>g \<in> set (take k gss). \<forall>f \<in> set g. field_ok f" using assms by (meson in_set_takeD)
  from pull_groups [OF this, of remoteHost filters "[]" False "[]"] show ?thesis by (cases "take k gss = []") (auto simp: take_map)
qed

lemma push_split_groups:
  assumes "splitServerPushReplyFields (pushReplyPayloadPrefix # fs) = Inr payloads"
  obtains gss final marks where
    "payloads = map (\<lambda>g. payload_of (g @ [cont2])) gss @ [payload_of (final @ marks)]" "concat gss @ final = fs"
    "marks = (if gss = [] then [] else [cont1])"
    "\<forall>g \<in> set (final # gss). length (payload_of g) < serverPushSafeCapacity"
proof -
  have "split_push_loop fs (payload_of []) False [] = Inr payloads" using assms by (simp add: splitServerPushReplyFields_def)
  from split_loop_groups [OF this] obtain gss final where
    "payloads = [] @ map (\<lambda>g. payload_of (g @ [cont2])) gss @ [payload_of (final @ (if False \<or> gss \<noteq> [] then [cont1] else []))]"
    "concat gss @ final = [] @ fs" "\<forall>g \<in> set (final # gss). length (payload_of g) < serverPushSafeCapacity"
    by (auto simp: pushReplyPayloadPrefix_def serverPushSafeCapacity_def serverPushBundleSize_def serverPushBundleOverhead_def)
  then show ?thesis by (intro that [of gss final "if gss = [] then [] else [cont1]"]) simp_all
qed

section \<open>The push reply arrives\<close>

text \<open>
  C1. A push reply of any length arrives: when every field fits into a payload on its own, the server
  splits the fields into payloads of less than 1024 bytes; the client that receives them in order waits
  until the last one, and then decodes exactly the options of the unsplit list of fields.
\<close>

theorem push_reply_reassembled:
  assumes fits: "\<forall>f \<in> set fs. field_fits f" and ok: "\<forall>f \<in> set fs. field_ok f"
    and pass: "\<forall>f \<in> set (cont1 # cont2 # fs). passes filters f"
  shows "\<exists>payloads. splitServerPushReplyFields (pushReplyPayloadPrefix # fs) = Inr payloads \<and>
    (\<forall>p \<in> set payloads. length p < serverPushBundleSize) \<and>
    (\<forall>k < length payloads. \<exists>acc pending.
       pull_records remoteHost filters [] False (map tlsControlStringPayload (take k payloads)) = PullContinues acc pending) \<and>
    pull_records remoteHost filters [] False (map tlsControlStringPayload payloads) =
      PullDecoded (fst (decodePushReplyOptionLines pushReplyPayloadPrefix fs remoteHost filters))"
proof -
  obtain payloads where split: "splitServerPushReplyFields (pushReplyPayloadPrefix # fs) = Inr payloads"
    using split_loop_succeeds [OF fits] by (fastforce simp: splitServerPushReplyFields_def)
  obtain gss final marks where g: "payloads = map (\<lambda>g. payload_of (g @ [cont2])) gss @ [payload_of (final @ marks)]"
      "concat gss @ final = fs" "marks = (if gss = [] then [] else [cont1])"
      "\<forall>g \<in> set (final # gss). length (payload_of g) < serverPushSafeCapacity"
    by (rule push_split_groups [OF split])
  have okg: "\<forall>g \<in> set gss. \<forall>f \<in> set g. field_ok f" "\<forall>f \<in> set final. field_ok f" using ok g(2) by auto
  have m: "marks = [] \<or> marks = [cont1]" using g(3) by simp
  let ?ls = "concat (map (\<lambda>g. g @ [cont2]) gss) @ final @ marks"
  have small: "\<forall>p \<in> set payloads. length p < serverPushBundleSize"
    using g(4) payload_small m by (auto simp: g(1) serverPushSafeCapacity_def serverPushBundleSize_def serverPushBundleOverhead_def)
  have before: "\<forall>k < length payloads. \<exists>acc pending.
      pull_records remoteHost filters [] False (map tlsControlStringPayload (take k payloads)) = PullContinues acc pending"
    using pull_before_end [OF okg(1)] by (simp add: g(1))
  have "pull_records remoteHost filters [] False (map tlsControlStringPayload payloads) =
      PullDecoded (fst (decodePushReplyOptionLines pushReplyPayloadPrefix ?ls remoteHost filters))"
    using pull_groups [OF okg(1), of remoteHost filters "[]" False] pull_segment [OF okg(2), of marks] m cont_facts(1)
    by (cases "gss = []") (auto simp: g(1) Let_def)
  moreover have "fst (decodePushReplyOptionLines pushReplyPayloadPrefix ?ls remoteHost filters) =
      fst (decodePushReplyOptionLines pushReplyPayloadPrefix fs remoteHost filters)"
    by (rule decode_same) (use pass g(2) m fold_marks [OF m, of gss final zero_wire] in auto)
  ultimately show ?thesis using split small before by auto
qed

end
