(* ===== verification/Push_Decode.thy ===== *)
theory Push_Decode
  imports Push_Pull
begin

text \<open>
  Every option line that push_options.go writes is decoded by pull_options.go to the value it was
  written from: first the effect of each line on the decoded options, then the conversion into
  addresses, routes and DNS servers.
\<close>

section \<open>Parameters\<close>

lemma plain_addr_char: "addr_char c \<Longrightarrow> plain_char c"
  by (auto simp: addr_char_def plain_char_def)

lemma plain_digit: "c \<in> set (FormatUint n) \<Longrightarrow> plain_char c"
  using addr_char_digit plain_addr_char by blast

lemma param_FormatUint: "param_ok (FormatUint n)"
  by (auto simp: param_ok_def list_all_iff plain_digit)

lemma param_Itoa: "param_ok (Itoa m)"
  by (auto simp: param_ok_def list_all_iff Itoa_def plain_digit plain_char_def [of "CHR ''-''"])

lemma Itoa_neq: "Itoa m \<noteq> []"
  by (simp add: Itoa_def)

lemma param_addr: "IsValid a \<Longrightarrow> zone_free a \<Longrightarrow> param_ok (addr_text a)"
  using addr_text_chars plain_addr_char addr_text_neq by (auto simp: param_ok_def list_all_iff)

lemma param_v4: "param_ok (v4_text v)"
  using param_addr [of "V4 v"] by simp

lemma param_prefix: "prefix_ok p \<Longrightarrow> param_ok (prefix_text p)"
  using param_addr plain_digit by (cases p) (auto simp: param_ok_def list_all_iff plain_char_def [of "CHR ''/''"])

lemma param_addrport:
  assumes "IsValid a" "zone_free a"
  shows "param_ok (addrport_text (a, p))"
proof (cases a)
  case (V4 v)
  then show ?thesis using param_v4 [of v] plain_digit [of _ p]
    by (auto simp: param_ok_def list_all_iff plain_char_def [of "CHR '':''"])
next
  case (V6 v zone)
  have "param_ok (addr_text a)" using assms by (rule param_addr)
  then show ?thesis using V6 plain_digit [of _ p]
    by (auto simp del: addr_text.simps simp: param_ok_def list_all_iff plain_char_def [of "CHR '':''"]
        plain_char_def [of "CHR ''[''"] plain_char_def [of "CHR '']''"])
qed (use assms in simp)

section \<open>Numbers\<close>

lemma takeWhile_digits: "takeWhile is_digit (FormatUint n) = FormatUint n"
  using FormatUint_digits by (auto simp: is_digit_def takeWhile_eq_all_conv)

lemma positive_FormatUint:
  assumes "n < 2 ^ 31"
  shows "parsePushedPositiveInteger (FormatUint n) = int n"
proof -
  obtain c r where cr: "FormatUint n = c # r" by (metis FormatUint_neq list.exhaust)
  have c: "(48 :: nat) \<le> of_char c" "of_char c \<le> (57 :: nat)" using FormatUint_digits [of c n] by (simp_all add: cr)
  have s: "dropWhile is_space (FormatUint n) = FormatUint n" using c by (auto simp: cr is_space_def)
  have g: "(case FormatUint n of [] \<Rightarrow> [] | c # x \<Rightarrow> if is_sign c then [c] else []) = []" using c by (auto simp: cr is_sign_def)
  have w: "sint (of_nat n :: u32) = int n" using assms by (simp add: signed_of_nat signed_take_bit_int_eq_self)
  have a: "Atoi (FormatUint n) = Inr (int n)" using assms by (intro Atoi_FormatUint) simp
  show ?thesis unfolding parsePushedPositiveInteger_def s g Let_def by (simp add: takeWhile_digits a w)
qed

lemma positive_Itoa: "0 \<le> m \<Longrightarrow> m < 2 ^ 31 \<Longrightarrow> parsePushedPositiveInteger (Itoa m) = m"
  using positive_FormatUint [of "nat m"] by (simp add: Itoa_def)

section \<open>One line\<close>

lemma wire_named:
  assumes "param_ok n" "ts \<noteq> []" "\<forall>t \<in> set ts. param_ok t" "length ts < 16"
  shows "wire_line (n @ '' '' @ words_line ts) w = wire_option (ToLower n) (words_line ts) w"
proof -
  have "n @ '' '' @ words_line ts = words_line (n # ts)" using assms(2) by (cases ts) simp_all
  then show ?thesis using wire_line_words [OF assms(1,3,4)] by simp
qed

lemma wire_bare:
  assumes "param_ok n"
  shows "wire_line n w = wire_option (ToLower n) [] w"
  using wire_line_words [of n "[]" w] assms by simp

lemma fold_line_if [simp]: "fold wire_line (line_if b l) w = (if b then wire_line l w else w)"
  by (simp add: line_if_def)

lemmas option_names = wire_option_def unless_empty_def compressionDirectiveCompress_def compressionDirectiveLZO_def

lemma wire_option_simps:
  "v \<noteq> [] \<Longrightarrow> wire_option ''topology'' v w = w\<lparr>wire_Topology := v\<rparr>"
  "v \<noteq> [] \<Longrightarrow> wire_option ''ifconfig'' v w = w\<lparr>wire_Ifconfig := v\<rparr>"
  "v \<noteq> [] \<Longrightarrow> wire_option ''ifconfig-ipv6'' v w = w\<lparr>wire_IfconfigIPv6 := v\<rparr>"
  "v \<noteq> [] \<Longrightarrow> wire_option ''route'' v w = w\<lparr>wire_Route := wire_Route w @ [v]\<rparr>"
  "v \<noteq> [] \<Longrightarrow> wire_option ''route-gateway'' v w = w\<lparr>wire_RouteGateway := v\<rparr>"
  "v \<noteq> [] \<Longrightarrow> wire_option ''route-ipv6'' v w = w\<lparr>wire_RouteIPv6 := wire_RouteIPv6 w @ [v]\<rparr>"
  "v \<noteq> [] \<Longrightarrow> wire_option ''dns'' v w = w\<lparr>wire_DNS := wire_DNS w @ [v]\<rparr>"
  "v \<noteq> [] \<Longrightarrow> wire_option ''dhcp-option'' v w = w\<lparr>wire_DHCPOptions := wire_DHCPOptions w @ [v]\<rparr>"
  "wire_option ''block-ipv6'' v w = w\<lparr>wire_BlockIPv6 := True\<rparr>"
  "wire_option ''block-outside-dns'' v w = w\<lparr>wire_BlockOutsideDNS := True\<rparr>"
  "wire_option ''redirect-gateway'' v w =
     (if v \<noteq> [] then w\<lparr>wire_RedirectGateway := True, wire_RedirectGatewayFlags := Fields v\<rparr> else w\<lparr>wire_RedirectGateway := True\<rparr>)"
  "wire_option ''redirect-private'' [] w = w\<lparr>wire_RedirectPrivate := True\<rparr>"
  by (simp_all add: option_names)

lemma wire_option_simps':
  "v \<noteq> [] \<Longrightarrow> wire_option ''route-metric'' v w = w\<lparr>wire_RouteMetric := parsePushedPositiveInteger v, wire_RouteMetricSet := True\<rparr>"
  "v \<noteq> [] \<Longrightarrow> wire_option ''ping'' v w = w\<lparr>wire_PingInterval := parsePushedSecondCount v, wire_PingIntervalEnabled := True\<rparr>"
  "v \<noteq> [] \<Longrightarrow> wire_option ''ping-restart'' v w =
     w\<lparr>wire_PingRestart := parsePushedSecondCount v, wire_PingRestartEnabled := True, wire_PingTimeoutAction := pushedPingTimeoutRestart\<rparr>"
  "wire_option ''auth-token'' v w = w\<lparr>wire_AuthToken := v\<rparr>"
  "wire_option ''auth-token-user'' v w = w\<lparr>wire_AuthTokenUser := v\<rparr>"
  "wire_option ''peer-id'' v w = wire_peer_id v w"
  "v \<noteq> [] \<Longrightarrow> wire_option ''cipher'' v w = w\<lparr>wire_SelectedCipher := v\<rparr>"
  "v \<noteq> [] \<Longrightarrow> wire_option ''auth'' v w = w\<lparr>wire_SelectedAuth := v\<rparr>"
  "v \<noteq> [] \<Longrightarrow> wire_option ''protocol-flags'' v w = w\<lparr>wire_ProtocolFlags := Fields v\<rparr>"
  "v \<noteq> [] \<Longrightarrow> wire_option ''key-derivation'' v w = w\<lparr>wire_KeyDerivation := ToLower (TrimSpace v)\<rparr>"
  "v \<noteq> [] \<Longrightarrow> wire_option ''explicit-exit-notify'' v w =
     w\<lparr>wire_ExplicitExitNotify := word_of_int (parsePushedPositiveInteger v), wire_ExplicitExitNotifySet := True\<rparr>"
  "wire_option ''inactive'' v w = wire_inactive v w"
  "v \<noteq> [] \<Longrightarrow> wire_option ''session-timeout'' v w = w\<lparr>wire_SessionTimeout := parsePushedSecondCount v, wire_SessionTimeoutSet := True\<rparr>"
  "v \<noteq> [] \<Longrightarrow> wire_option ''ping-exit'' v w =
     w\<lparr>wire_PingExit := parsePushedSecondCount v, wire_PingExitSet := True, wire_PingTimeoutAction := pushedPingTimeoutExit\<rparr>"
  "wire_option ''ping-timer-rem'' v w = w\<lparr>wire_PingTimerRemote := True\<rparr>"
  "wire_option ''tun-mtu'' v w =
     (if parsePushedPositiveInteger v > 0 then w\<lparr>wire_TunMTU := word_of_int (parsePushedPositiveInteger v)\<rparr> else w)"
  by (simp_all add: option_names)

lemma wire_compression:
  "wire_option ''compress'' v w =
     w\<lparr>wire_CompressionDirectives := wire_CompressionDirectives w @ [\<lparr>directive_Name = ''compress'', directive_Value = TrimSpace v\<rparr>]\<rparr>"
  "wire_option ''comp-lzo'' v w =
     w\<lparr>wire_CompressionDirectives := wire_CompressionDirectives w @ [\<lparr>directive_Name = ''comp-lzo'', directive_Value = TrimSpace v\<rparr>]\<rparr>"
  by (simp_all add: option_names)

lemma lower_names [simp]:
  "ToLower ''topology'' = ''topology''" "ToLower ''tun-mtu'' = ''tun-mtu''" "ToLower ''ifconfig'' = ''ifconfig''"
  "ToLower ''ifconfig-ipv6'' = ''ifconfig-ipv6''" "ToLower ''route'' = ''route''" "ToLower ''route-gateway'' = ''route-gateway''"
  "ToLower ''route-ipv6'' = ''route-ipv6''" "ToLower ''dns'' = ''dns''" "ToLower ''dhcp-option'' = ''dhcp-option''"
  "ToLower ''block-ipv6'' = ''block-ipv6''" "ToLower ''block-outside-dns'' = ''block-outside-dns''"
  "ToLower ''redirect-gateway'' = ''redirect-gateway''" "ToLower ''redirect-private'' = ''redirect-private''"
  "ToLower ''route-metric'' = ''route-metric''" "ToLower ''ping'' = ''ping''" "ToLower ''ping-restart'' = ''ping-restart''"
  "ToLower ''auth-token'' = ''auth-token''" "ToLower ''auth-token-user'' = ''auth-token-user''" "ToLower ''peer-id'' = ''peer-id''"
  "ToLower ''cipher'' = ''cipher''" "ToLower ''auth'' = ''auth''" "ToLower ''protocol-flags'' = ''protocol-flags''"
  "ToLower ''key-derivation'' = ''key-derivation''" "ToLower ''explicit-exit-notify'' = ''explicit-exit-notify''"
  "ToLower ''inactive'' = ''inactive''" "ToLower ''session-timeout'' = ''session-timeout''" "ToLower ''ping-exit'' = ''ping-exit''"
  "ToLower ''ping-timer-rem'' = ''ping-timer-rem''" "ToLower ''compress'' = ''compress''" "ToLower ''comp-lzo'' = ''comp-lzo''"
  by (simp_all add: ToLower_def lower_char_def)

lemma param_names [simp]:
  "param_ok ''topology''" "param_ok ''tun-mtu''" "param_ok ''ifconfig''" "param_ok ''ifconfig-ipv6''" "param_ok ''route''"
  "param_ok ''route-gateway''" "param_ok ''route-ipv6''" "param_ok ''dns''" "param_ok ''dhcp-option''" "param_ok ''block-ipv6''"
  "param_ok ''block-outside-dns''" "param_ok ''redirect-gateway''" "param_ok ''redirect-private''" "param_ok ''route-metric''"
  "param_ok ''ping''" "param_ok ''ping-restart''" "param_ok ''auth-token''" "param_ok ''auth-token-user''" "param_ok ''peer-id''"
  "param_ok ''cipher''" "param_ok ''auth''" "param_ok ''protocol-flags''" "param_ok ''key-derivation''"
  "param_ok ''explicit-exit-notify''" "param_ok ''inactive''" "param_ok ''session-timeout''" "param_ok ''ping-exit''"
  "param_ok ''ping-timer-rem''" "param_ok ''compress''" "param_ok ''comp-lzo''" "param_ok ''server''" "param_ok ''address''"
  "param_ok ''resolve-domains''" "param_ok ''search-domains''" "param_ok ''dnssec''" "param_ok ''transport''" "param_ok ''sni''"
  "param_ok ''DNS''" "param_ok ''DNS6''" "param_ok ''tls-ekm''" "param_ok ''cc-exit''"
  by (simp_all add: param_ok_def plain_char_def)

text \<open>A value made of parameters: not empty, unchanged by trimming, and one line with its name.\<close>

definition params :: "string list \<Rightarrow> bool" where
  "params ts \<longleftrightarrow> ts \<noteq> [] \<and> length ts < 16 \<and> (\<forall>t \<in> set ts. param_ok t)"

lemma params_words:
  assumes "params ts"
  shows "words_line ts \<noteq> []" "TrimSpace (words_line ts) = words_line ts" "Fields (words_line ts) = ts"
proof -
  have w: "\<forall>t \<in> set ts. word_ok t" "ts \<noteq> []" using assms param_word by (auto simp: params_def)
  show "words_line ts \<noteq> []" "TrimSpace (words_line ts) = words_line ts" "Fields (words_line ts) = ts"
    using hd_last_words(1) [OF w(2,1)] TrimSpace_words [OF w(1)] Fields_words [OF w(1)] by simp_all
qed

lemma wire_params: "param_ok n \<Longrightarrow> params ts \<Longrightarrow> wire_line (n @ '' '' @ words_line ts) w = wire_option (ToLower n) (words_line ts) w"
  using wire_named [of n ts w] by (simp add: params_def)

lemma value_line_params:
  assumes "params ts" "param_ok n"
  shows "value_line n (words_line ts) = [n @ '' '' @ words_line ts]"
    "fold wire_line (value_line n (words_line ts)) w = wire_option (ToLower n) (words_line ts) w"
  using params_words [OF assms(1)] wire_named [of n ts w] assms by (simp_all add: value_line_def line_if_def params_def)

lemma value_line_empty [simp]: "value_line n [] = []"
  by (simp add: value_line_def line_if_def TrimSpace_def)

definition plain_value :: "string \<Rightarrow> bool" where
  "plain_value v \<longleftrightarrow> v = [] \<or> param_ok v"

lemma params_single: "param_ok v \<Longrightarrow> params [v]"
  by (simp add: params_def)

lemma fold_value_line:
  assumes "plain_value v" "param_ok n"
  shows "fold wire_line (value_line n v) w = (if v = [] then w else wire_option (ToLower n) v w)"
  using assms value_line_params(2) [of "[v]" n w] params_single [of v] by (auto simp: plain_value_def)

lemma wire_number:
  assumes "param_ok n" "param_ok v"
  shows "wire_line (n @ '' '' @ v) w = wire_option (ToLower n) v w"
  using wire_named [of n "[v]" w] assms by simp

section \<open>The lines of each option\<close>

lemma seg_topology:
  assumes "wire_Topology w = []" "plain_value v"
  shows "fold wire_line (value_line ''topology'' v) w = w\<lparr>wire_Topology := v\<rparr>"
  using assms by (cases w) (simp add: fold_value_line wire_option_simps)

lemma seg_mtu:
  assumes "wire_TunMTU w = 0" "unat m < 2 ^ 31"
  shows "fold wire_line (line_if (m > 0) (''tun-mtu '' @ FormatUint (unat m))) w = w\<lparr>wire_TunMTU := m\<rparr>"
proof (cases "m = 0")
  case True
  then show ?thesis using assms(1) by (cases w) simp
next
  case False
  then have "0 < unat m" "m > 0" by (simp_all add: unat_gt_0 word_gt_0)
  moreover from this(1) have "0 < int (unat m)" by (subst of_nat_0_less_iff)
  then have "0 < uint m" by simp
  ultimately show ?thesis using wire_number [of "''tun-mtu''" "FormatUint (unat m)" w] positive_FormatUint [OF assms(2)]
    by (simp add: param_FormatUint wire_option_simps')
qed

lemma seg_cipher:
  assumes "wire_SelectedCipher w = []" "plain_value v"
  shows "fold wire_line (value_line ''cipher'' v) w = w\<lparr>wire_SelectedCipher := v\<rparr>"
  using assms by (cases w) (simp add: fold_value_line wire_option_simps')

lemma seg_auth:
  assumes "wire_SelectedAuth w = []" "plain_value v"
  shows "fold wire_line (value_line ''auth'' v) w = w\<lparr>wire_SelectedAuth := v\<rparr>"
  using assms by (cases w) (simp add: fold_value_line wire_option_simps')

lemma seg_token:
  assumes "wire_AuthToken w = []" "plain_value v"
  shows "fold wire_line (value_line ''auth-token'' v) w = w\<lparr>wire_AuthToken := v\<rparr>"
  using assms by (cases w) (simp add: fold_value_line wire_option_simps')

lemma seg_token_user:
  assumes "wire_AuthTokenUser w = []" "plain_value v"
  shows "fold wire_line (value_line ''auth-token-user'' v) w = w\<lparr>wire_AuthTokenUser := v\<rparr>"
  using assms by (cases w) (simp add: fold_value_line wire_option_simps')

lemma seg_derivation:
  assumes "wire_KeyDerivation w = []" "plain_value v" "ToLower v = v"
  shows "fold wire_line (value_line ''key-derivation'' v) w = w\<lparr>wire_KeyDerivation := v\<rparr>"
proof (cases "v = []")
  case True
  then show ?thesis using assms(1) by (cases w) simp
next
  case False
  then have "TrimSpace v = v" using assms(2) params_words(2) [of "[v]"] params_single by (simp add: plain_value_def)
  then show ?thesis using False assms by (simp add: fold_value_line wire_option_simps')
qed

lemma seg_blocks:
  assumes "\<not> wire_BlockIPv6 w" "\<not> wire_BlockOutsideDNS w" "\<not> wire_RedirectPrivate w" "\<not> wire_PingTimerRemote w"
  shows "fold wire_line (line_if b ''block-ipv6'') w = w\<lparr>wire_BlockIPv6 := b\<rparr>"
    "fold wire_line (line_if b ''block-outside-dns'') w = w\<lparr>wire_BlockOutsideDNS := b\<rparr>"
    "fold wire_line (line_if b ''redirect-private'') w = w\<lparr>wire_RedirectPrivate := b\<rparr>"
    "fold wire_line (line_if b ''ping-timer-rem'') w = w\<lparr>wire_PingTimerRemote := b\<rparr>"
  using assms by (cases w; simp add: wire_bare wire_option_simps wire_option_simps')+

lemma seg_redirect:
  assumes "\<not> wire_RedirectGateway w" "wire_RedirectGatewayFlags w = []" "flags = [] \<or> params flags"
  shows "fold wire_line
      (if b then let v = TrimSpace (words_line flags) in if v = [] then [''redirect-gateway''] else [''redirect-gateway '' @ v] else []) w =
    w\<lparr>wire_RedirectGateway := b, wire_RedirectGatewayFlags := (if b then flags else [])\<rparr>"
proof (cases "flags = []")
  case True
  then show ?thesis using assms(1,2) by (cases w) (simp add: TrimSpace_def wire_bare wire_option_simps)
next
  case False
  then have p: "params flags" using assms(3) by simp
  have "wire_line (''redirect-gateway'' @ '' '' @ words_line flags) w = wire_option ''redirect-gateway'' (words_line flags) w"
    using p wire_named [of "''redirect-gateway''" flags w] by (simp add: params_def)
  then show ?thesis using assms(1,2) params_words [OF p] by (cases w) (simp add: wire_option_simps Let_def)
qed

definition count_ok :: "int \<Rightarrow> bool" where
  "count_ok m \<longleftrightarrow> 0 \<le> m \<and> m < 2 ^ 31"

lemma second_count: "count_ok m \<Longrightarrow> parsePushedSecondCount (Itoa m) = m * second"
  by (simp add: count_ok_def parsePushedSecondCount_def positive_Itoa)

text \<open>A duration that the push reply can carry: whole seconds, in the range of the parsed number.\<close>

definition duration_ok :: "duration \<Rightarrow> bool" where
  "duration_ok d \<longleftrightarrow> 0 \<le> d \<and> d mod second = 0 \<and> d div second < 2 ^ 31"

lemma duration_seconds:
  assumes "duration_ok d"
  shows "whole_seconds d * second = d" "count_ok (whole_seconds d)" "parsePushedSecondCount (Itoa (whole_seconds d)) = d"
proof -
  show "whole_seconds d * second = d" using assms by (simp add: duration_ok_def whole_seconds_def) (metis div_mult_mod_eq add.right_neutral)
  moreover show "count_ok (whole_seconds d)"
    using assms by (simp add: duration_ok_def whole_seconds_def count_ok_def second_def pos_imp_zdiv_nonneg_iff)
  ultimately show "parsePushedSecondCount (Itoa (whole_seconds d)) = d" by (simp add: second_count)
qed

lemma seg_metric:
  assumes "wire_RouteMetric w = 0" "\<not> wire_RouteMetricSet w" "count_ok m"
  shows "fold wire_line (line_if (m \<noteq> 0) (''route-metric '' @ Itoa m)) w = w\<lparr>wire_RouteMetric := m, wire_RouteMetricSet := m \<noteq> 0\<rparr>"
  using wire_number [of "''route-metric''" "Itoa m" w] assms positive_Itoa [of m]
  by (cases w) (auto simp: wire_option_simps' param_Itoa Itoa_neq count_ok_def)

lemma seg_ping:
  assumes "wire_PingInterval w = 0" "\<not> wire_PingIntervalEnabled w" "duration_ok d"
  shows "fold wire_line (line_if b (''ping '' @ Itoa (whole_seconds d))) w =
    w\<lparr>wire_PingInterval := (if b then d else 0), wire_PingIntervalEnabled := b\<rparr>"
  using wire_number [of "''ping''" "Itoa (whole_seconds d)" w] assms duration_seconds(3) [OF assms(3)]
  by (cases w) (auto simp: wire_option_simps' param_Itoa Itoa_neq)

lemma seg_ping_restart:
  assumes "wire_PingRestart w = 0" "\<not> wire_PingRestartEnabled w" "wire_PingTimeoutAction w = pushedPingTimeoutNone" "duration_ok d"
  shows "fold wire_line (line_if b (''ping-restart '' @ Itoa (whole_seconds d))) w =
    w\<lparr>wire_PingRestart := (if b then d else 0), wire_PingRestartEnabled := b,
      wire_PingTimeoutAction := (if b then pushedPingTimeoutRestart else pushedPingTimeoutNone)\<rparr>"
  using wire_number [of "''ping-restart''" "Itoa (whole_seconds d)" w] assms duration_seconds(3) [OF assms(4)]
  by (cases w) (auto simp: wire_option_simps' param_Itoa Itoa_neq)

lemma seg_ping_exit:
  assumes "wire_PingExit w = 0" "\<not> wire_PingExitSet w" "duration_ok d"
  shows "fold wire_line (line_if (d > 0) (''ping-exit '' @ Itoa (whole_seconds d))) w =
    w\<lparr>wire_PingExit := d, wire_PingExitSet := d > 0,
      wire_PingTimeoutAction := (if d > 0 then pushedPingTimeoutExit else wire_PingTimeoutAction w)\<rparr>"
proof -
  have "\<not> d > 0 \<Longrightarrow> d = 0" using assms(3) by (simp add: duration_ok_def)
  then show ?thesis
    using wire_number [of "''ping-exit''" "Itoa (whole_seconds d)" w] assms duration_seconds(3) [OF assms(3)]
    by (cases w) (auto simp: wire_option_simps' param_Itoa Itoa_neq)
qed

lemma seg_session_timeout:
  assumes "wire_SessionTimeout w = 0" "\<not> wire_SessionTimeoutSet w" "duration_ok d"
  shows "fold wire_line (line_if (d > 0) (''session-timeout '' @ Itoa (whole_seconds d))) w =
    w\<lparr>wire_SessionTimeout := d, wire_SessionTimeoutSet := d > 0\<rparr>"
proof -
  have "\<not> d > 0 \<Longrightarrow> d = 0" using assms(3) by (simp add: duration_ok_def)
  then show ?thesis
    using wire_number [of "''session-timeout''" "Itoa (whole_seconds d)" w] assms duration_seconds(3) [OF assms(3)]
    by (cases w) (auto simp: wire_option_simps' param_Itoa Itoa_neq)
qed

lemma seg_exit_notify:
  assumes "wire_ExplicitExitNotify w = 0" "\<not> wire_ExplicitExitNotifySet w" "unat m < 2 ^ 31"
  shows "fold wire_line (line_if (m > 0) (''explicit-exit-notify '' @ FormatUint (unat m))) w =
    w\<lparr>wire_ExplicitExitNotify := m, wire_ExplicitExitNotifySet := m > 0\<rparr>"
proof (cases "m = 0")
  case True
  then show ?thesis using assms(1,2) by (cases w) simp
next
  case False
  then have "m > 0" by (simp add: word_gt_0)
  then show ?thesis using wire_number [of "''explicit-exit-notify''" "FormatUint (unat m)" w] positive_FormatUint [OF assms(3)]
    by (simp add: param_FormatUint wire_option_simps')
qed

lemma seg_peer_id:
  assumes "wire_PeerID w = None" "\<forall>p. pid = Some p \<longrightarrow> unat p \<le> peerIDMaxValue"
  shows "fold wire_line (case pid of Some p \<Rightarrow> [''peer-id '' @ FormatUint (unat p)] | None \<Rightarrow> []) w = w\<lparr>wire_PeerID := pid\<rparr>"
proof (cases pid)
  case None
  then show ?thesis using assms(1) by (cases w) simp
next
  case (Some p)
  have t: "TrimSpace (FormatUint (unat p)) = FormatUint (unat p)"
    using params_words(2) [of "[FormatUint (unat p)]"] params_single [OF param_FormatUint] by simp
  have "unat p < 2 ^ 32" using unsigned_less [of p, where ?'a = nat] by simp
  then have "ParseUint (FormatUint (unat p)) 32 = Inr (unat p)" by (rule ParseUint_FormatUint)
  then show ?thesis using wire_number [of "''peer-id''" "FormatUint (unat p)" w] Some assms(2) t
    by (simp add: param_FormatUint wire_option_simps' wire_peer_id_def)
qed

lemma seg_flags:
  assumes "wire_ProtocolFlags w = []" "flags = [] \<or> params flags"
  shows "fold wire_line (line_if (length flags > 0) (''protocol-flags '' @ words_line flags)) w = w\<lparr>wire_ProtocolFlags := flags\<rparr>"
proof (cases "flags = []")
  case True
  then show ?thesis using assms(1) by (cases w) simp
next
  case False
  then have p: "params flags" using assms(2) by simp
  then show ?thesis using wire_named [of "''protocol-flags''" flags w] params_words [OF p] False
    by (simp add: params_def wire_option_simps')
qed

lemma seg_inactive:
  assumes "wire_InactiveTimeout w = 0" "wire_InactiveMinimumBytes w = 0" "\<not> wire_InactiveTimeoutSet w"
    "duration_ok d" "unat b < 2 ^ 63" "d = 0 \<Longrightarrow> b = 0"
  shows "fold wire_line (line_if (d > 0) (''inactive '' @ Itoa (whole_seconds d) @ (if b > 0 then '' '' @ FormatUint (unat b) else []))) w =
    w\<lparr>wire_InactiveTimeout := d, wire_InactiveMinimumBytes := b, wire_InactiveTimeoutSet := d > 0\<rparr>"
proof -
  let ?ts = "Itoa (whole_seconds d) # (if b > 0 then [FormatUint (unat b)] else [])"
  have p: "params ?ts" by (simp add: params_def param_Itoa param_FormatUint)
  have l: "''inactive '' @ Itoa (whole_seconds d) @ (if b > 0 then '' '' @ FormatUint (unat b) else []) = ''inactive'' @ '' '' @ words_line ?ts"
    by simp
  have a: "Atoi (FormatUint (unat b)) = Inr (int (unat b))" using assms(5) by (rule Atoi_FormatUint)
  have c: "0 < b \<Longrightarrow> 0 < uint b" by (simp add: word_less_def)
  have i: "wire_inactive (words_line ?ts) w = w\<lparr>wire_InactiveTimeout := d, wire_InactiveMinimumBytes := b, wire_InactiveTimeoutSet := True\<rparr>"
  proof (cases "b > 0")
    case True
    then show ?thesis unfolding wire_inactive_def params_words(3) [OF p] using a c duration_seconds(3) [OF assms(4)] by simp
  next
    case False
    then have "b = 0" by (simp add: word_gt_0)
    then show ?thesis unfolding wire_inactive_def params_words(3) [OF p] using duration_seconds(3) [OF assms(4)] assms(2)
      by (cases w) simp
  qed
  have n: "wire_line (''inactive'' @ '' '' @ words_line ?ts) w = wire_inactive (words_line ?ts) w"
    using wire_params [OF _ p, of "''inactive''" w] by (simp only: lower_names param_names wire_option_simps')
  have "\<not> d > 0 \<Longrightarrow> d = 0" using assms(4) by (simp add: duration_ok_def)
  then show ?thesis unfolding l fold_line_if n i using assms(1-3,6) by (cases "d > 0") (simp, cases w, simp)
qed

definition directive_ok :: "compressionDirective \<Rightarrow> bool" where
  "directive_ok d \<longleftrightarrow> directive_Name d \<in> {''compress'', ''comp-lzo''} \<and> plain_value (directive_Value d)"

lemma TrimSpace_plain: "plain_value v \<Longrightarrow> TrimSpace v = v"
  using params_words(2) [of "[v]"] params_single [of v] by (auto simp: plain_value_def TrimSpace_def)

lemma wire_directive:
  assumes "directive_ok d"
  shows "wire_line (compression_lines d) w = w\<lparr>wire_CompressionDirectives := wire_CompressionDirectives w @ [d]\<rparr>"
proof -
  obtain n v where d: "d = \<lparr>directive_Name = n, directive_Value = v\<rparr>" by (cases d)
  have n: "n = ''compress'' \<or> n = ''comp-lzo''" "plain_value v" using assms by (auto simp: directive_ok_def d)
  have t: "TrimSpace v = v" by (rule TrimSpace_plain [OF n(2)])
  show ?thesis
  proof (cases "v = []")
    case True
    then show ?thesis using n t by (auto simp: d compression_lines_def wire_bare wire_compression)
  next
    case False
    then have "param_ok v" using n(2) by (simp add: plain_value_def)
    then have "wire_line (n @ '' '' @ v) w = wire_option (ToLower n) v w" using n(1) by (intro wire_number) auto
    then show ?thesis using n(1) t False by (auto simp: d compression_lines_def wire_compression Let_def)
  qed
qed

lemma seg_compression:
  "\<forall>d \<in> set ds. directive_ok d \<Longrightarrow>
     fold wire_line (map compression_lines ds) w = w\<lparr>wire_CompressionDirectives := wire_CompressionDirectives w @ ds\<rparr>"
  by (induction ds arbitrary: w) (simp_all add: wire_directive)

section \<open>Addresses and routes\<close>

text \<open>A local address that the client can read back, under the topology it is sent with.\<close>

definition local_ok :: "string \<Rightarrow> pushedLocalAddress \<Rightarrow> bool" where
  "local_ok topology l \<longleftrightarrow>
     (case local_Prefix l of
        Prefix (V4 a) b \<Rightarrow>
          topology = ''subnet'' \<and> b \<le> 32 \<and> local_Peer l = NoAddr \<or>
          (topology = ''p2p'' \<and> b = 32 \<or> topology = ''net30'' \<and> b = 30) \<and> Is4 (local_Peer l) \<and> \<not> isIPv4MaskGateway (local_Peer l)
      | Prefix (V6 a z) b \<Rightarrow> z = [] \<and> 64 \<le> b \<and> b \<le> 124 \<and> Is6 (local_Peer l) \<and> zone_free (local_Peer l)
      | _ \<Rightarrow> False)"

definition is_v4 :: "pushedLocalAddress \<Rightarrow> bool" where "is_v4 l \<longleftrightarrow> Is4 (prefix_Addr (local_Prefix l))"

text \<open>The text of a local address, as two parameters.\<close>

definition local_text :: "string \<Rightarrow> pushedLocalAddress \<Rightarrow> string" where
  "local_text topology l = (if is_v4 l then formatPushedIfconfig l topology else formatPushedIfconfigIPv6 l)"

lemma topology_facts:
  "ToLower (TrimSpace ''subnet'') = ''subnet''" "ToLower (TrimSpace ''p2p'') = ''p2p''" "ToLower (TrimSpace ''net30'') = ''net30''"
  by (simp_all add: TrimSpace_def is_space_def ToLower_def lower_char_def)

lemma local_text_cases:
  assumes "local_ok topology l"
  obtains (subnet) a b where "topology = ''subnet''" "l = \<lparr>local_Prefix = Prefix (V4 a) b, local_Peer = NoAddr, local_Raw = local_Raw l\<rparr>"
      "b \<le> 32" "local_text topology l = v4_text a @ '' '' @ v4_text (CIDRMask b)"
  | (endpoints) a b peer where "topology = ''p2p'' \<and> b = 32 \<or> topology = ''net30'' \<and> b = 30"
      "l = \<lparr>local_Prefix = Prefix (V4 a) b, local_Peer = V4 peer, local_Raw = local_Raw l\<rparr>" "\<not> isIPv4MaskGateway (V4 peer)"
      "local_text topology l = v4_text a @ '' '' @ v4_text peer"
  | (ipv6) a b peer where "l = \<lparr>local_Prefix = Prefix (V6 a []) b, local_Peer = V6 peer [], local_Raw = local_Raw l\<rparr>"
      "64 \<le> b" "b \<le> 124" "local_text topology l = prefix_text (Prefix (V6 a []) b) @ '' '' @ addr_text (V6 peer [])"
proof -
  obtain p q r where l: "l = \<lparr>local_Prefix = p, local_Peer = q, local_Raw = r\<rparr>" by (cases l)
  consider a b where "p = Prefix (V4 a) b" | a z b where "p = Prefix (V6 a z) b" | "p = NoPrefix" | b where "p = Prefix NoAddr b"
    by (cases p; cases "prefix_Addr p") auto
  then show thesis
  proof cases
    case (1 a b)
    then consider "topology = ''subnet'' \<and> b \<le> 32 \<and> q = NoAddr"
      | peer where "topology = ''p2p'' \<and> b = 32 \<or> topology = ''net30'' \<and> b = 30" "q = V4 peer" "\<not> isIPv4MaskGateway (V4 peer)"
      using assms by (cases q) (auto simp: local_ok_def l)
    then show thesis
    proof cases
      case 1
      then show thesis using \<open>p = _\<close>
        by (intro subnet [of a b]) (simp_all add: l local_text_def is_v4_def formatPushedIfconfig_def topology_facts formatIfconfigPrefix_def topologies Let_def)
    next
      case (2 peer)
      have "ToLower (TrimSpace topology) = topology" "topology \<noteq> ''subnet''" using 2(1) topology_facts by auto
      then show thesis using \<open>p = _\<close> 2
        by (intro endpoints [of b a peer]) (simp_all add: l local_text_def is_v4_def formatPushedIfconfig_def topologies Let_def)
    qed
  next
    case (2 a z b)
    then obtain peer where "z = []" "64 \<le> b" "b \<le> 124" "q = V6 peer []" using assms by (cases q) (auto simp: local_ok_def l)
    then show thesis using 2 by (intro ipv6 [of a b peer]) (simp_all add: l local_text_def is_v4_def formatPushedIfconfigIPv6_def Let_def)
  qed (use assms in \<open>simp_all add: local_ok_def l\<close>)
qed

lemma local_text_params:
  assumes "local_ok topology l"
  shows "\<exists>s t. local_text topology l = words_line [s, t] \<and> params [s, t]"
  using assms
proof (cases rule: local_text_cases)
  case (subnet a b)
  then show ?thesis by (intro exI [of _ "v4_text a"] exI [of _ "v4_text (CIDRMask b)"]) (simp add: params_def param_v4)
next
  case (endpoints a b peer)
  then show ?thesis by (intro exI [of _ "v4_text a"] exI [of _ "v4_text peer"]) (simp add: params_def param_v4)
next
  case (ipv6 a b peer)
  then have "param_ok (prefix_text (Prefix (V6 a []) b))" "param_ok (addr_text (V6 peer []))"
    using param_prefix [of "Prefix (V6 a []) b"] param_addr [of "V6 peer []"] by simp_all
  then show ?thesis using ipv6(4)
    by (intro exI [of _ "prefix_text (Prefix (V6 a []) b)"] exI [of _ "addr_text (V6 peer [])"]) (simp add: params_def del: prefix_text.simps addr_text.simps)
qed

lemma local_family_cases: "local_ok topology l \<Longrightarrow> is_v4 l \<or> Is6 (prefix_Addr (local_Prefix l))"
  by (auto simp: local_ok_def is_v4_def split: prefix.splits addr.splits)

lemma local_line:
  assumes "local_ok topology l"
  shows "fold wire_line (local_address_lines topology l) w =
    (if is_v4 l then w\<lparr>wire_Ifconfig := local_text topology l\<rparr> else w\<lparr>wire_IfconfigIPv6 := local_text topology l\<rparr>)"
proof -
  obtain s t where st: "local_text topology l = words_line [s, t]" "params [s, t]" using local_text_params [OF assms] by blast
  note v = value_line_params(2) [OF st(2)] params_words(1) [OF st(2)]
  show ?thesis
  proof (cases "is_v4 l")
    case True
    then have "local_address_lines topology l = value_line ''ifconfig'' (words_line [s, t])"
      using st(1) by (simp add: local_address_lines_def local_text_def is_v4_def)
    then show ?thesis using v(1) [of "''ifconfig''" w] v(2) True st(1) by (simp add: wire_option_simps del: str_Join.simps)
  next
    case False
    then have "local_address_lines topology l = value_line ''ifconfig-ipv6'' (words_line [s, t])"
      using st(1) local_family_cases [OF assms] by (simp add: local_address_lines_def local_text_def is_v4_def)
    then show ?thesis using v(1) [of "''ifconfig-ipv6''" w] v(2) False st(1) by (simp add: wire_option_simps del: str_Join.simps)
  qed
qed

definition last_text :: "string \<Rightarrow> pushedLocalAddress list \<Rightarrow> string \<Rightarrow> string" where
  "last_text topology ls old = (if ls = [] then old else local_text topology (last ls))"

lemma seg_locals:
  assumes "\<forall>l \<in> set ls. local_ok topology l"
  shows "fold wire_line (concat (map (local_address_lines topology) ls)) w =
    w\<lparr>wire_Ifconfig := last_text topology (filter is_v4 ls) (wire_Ifconfig w),
      wire_IfconfigIPv6 := last_text topology (filter (\<lambda>l. \<not> is_v4 l) ls) (wire_IfconfigIPv6 w)\<rparr>"
  using assms
proof (induction ls rule: rev_induct)
  case Nil
  then show ?case by (cases w) (simp add: last_text_def)
next
  case (snoc l ls)
  then show ?case by (simp add: local_line last_text_def)
qed

text \<open>Reading it back.\<close>

abbreviation received_local :: "string \<Rightarrow> pushedLocalAddress \<Rightarrow> pushedLocalAddress" where
  "received_local topology l \<equiv> l\<lparr>local_Raw := local_text topology l\<rparr>"

lemma local_text_trim:
  assumes "local_ok topology l"
  shows "TrimSpace (local_text topology l) = local_text topology l" "local_text topology l \<noteq> []"
  using local_text_params [OF assms] params_words by fastforce+

lemma add_local_v4:
  assumes "local_ok topology l" "is_v4 l"
  shows "addWireIfconfig (local_text topology l) topology opts =
    opts\<lparr>push_LocalAddress := push_LocalAddress opts @ [received_local topology l]\<rparr>"
  using assms(1)
proof (cases rule: local_text_cases)
  case (subnet a b)
  have g: "parseIfconfigVPNGateway [local_text topology l] topology = NoAddr"
    using subnet(1) topology_facts by (simp add: parseIfconfigVPNGateway_def)
  have "parseIfconfigPrefix (local_text topology l) topology = Inr (Prefix (V4 a) b)"
    using ifconfig_subnet [OF subnet(3), of a] subnet(1,4) by simp
  moreover have "received_local topology l = \<lparr>local_Prefix = Prefix (V4 a) b, local_Peer = NoAddr, local_Raw = local_text topology l\<rparr>"
    using subnet(2) by (cases l) simp
  ultimately show ?thesis using local_text_trim [OF assms(1)] g by (simp add: addWireIfconfig_def)
next
  case (endpoints a b peer)
  have t: "topology = ipv4TopologyP2P \<and> b = 32 \<or> topology = ipv4TopologyNet30 \<and> b = 30" using endpoints(1) by (simp add: topologies)
  have "parseIfconfigPrefix (local_text topology l) topology = Inr (Prefix (V4 a) b)"
    "parseIfconfigVPNGateway [local_text topology l] topology = V4 peer"
    unfolding endpoints(4) by (rule ifconfig_endpoints(1) [OF t], rule ifconfig_endpoints(2) [OF t endpoints(3)])
  moreover have "received_local topology l = \<lparr>local_Prefix = Prefix (V4 a) b, local_Peer = V4 peer, local_Raw = local_text topology l\<rparr>"
    using endpoints(2) by (cases l) simp
  ultimately show ?thesis using local_text_trim [OF assms(1)] by (simp add: addWireIfconfig_def)
next
  case (ipv6 a b peer)
  then have "\<not> is_v4 l" by (cases l) (simp add: is_v4_def)
  then show ?thesis using assms(2) by simp
qed

lemma add_local_v6:
  assumes "local_ok topology l" "\<not> is_v4 l"
  shows "addWireIfconfigIPv6 (local_text topology l) opts =
    opts\<lparr>push_LocalAddress := push_LocalAddress opts @ [received_local topology l]\<rparr>"
  using assms(1)
proof (cases rule: local_text_cases)
  case (ipv6 a b peer)
  have "parseIfconfigIPv6 (local_text topology l) = Inr (Prefix (V6 a []) b, V6 peer [])"
    using ifconfig_ipv6 [of "V6 a []" b "V6 peer []"] ipv6 by (simp del: prefix_text.simps addr_text.simps)
  moreover have "received_local topology l = \<lparr>local_Prefix = Prefix (V6 a []) b, local_Peer = V6 peer [], local_Raw = local_text topology l\<rparr>"
    using ipv6(1) by (cases l) simp
  ultimately show ?thesis using local_text_trim [OF assms(1)] by (simp add: addWireIfconfigIPv6_def)
next
  case (subnet a b)
  then have "is_v4 l" by (cases l) (simp add: is_v4_def)
  then show ?thesis using assms(2) by simp
next
  case (endpoints a b peer)
  then have "is_v4 l" by (cases l) (simp add: is_v4_def)
  then show ?thesis using assms(2) by simp
qed

text \<open>A route that the client can read back.\<close>

definition route_ok :: "pushedRoute \<Rightarrow> bool" where
  "route_ok r \<longleftrightarrow>
     pushed_Raw r = [] \<and>
     (let p = route_Prefix (pushed_Route r); gw = route_Gateway (pushed_Route r); m = route_Metric (pushed_Route r)
      in prefix_ok p \<and> Masked p = p \<and> zone_free gw \<and> metric_ok m \<and>
         (if IsValid gw then Is4 gw = Is4 (prefix_Addr p) else m = 0))"

definition route_v4 :: "pushedRoute \<Rightarrow> bool" where "route_v4 r \<longleftrightarrow> Is4 (prefix_Addr (route_Prefix (pushed_Route r)))"

definition route_words :: "pushedRoute \<Rightarrow> string list" where
  "route_words r =
     (let p = route_Prefix (pushed_Route r)
      in (if route_v4 r then [addr_text (prefix_Addr p), v4_text (CIDRMask (nat (prefix_Bits p)))] else [prefix_text p]) @
         route_tail_words (route_Gateway (pushed_Route r)) (route_Metric (pushed_Route r)))"

lemma join_snoc: "xs \<noteq> [] \<Longrightarrow> str_Join (xs @ [x]) sep = str_Join xs sep @ sep @ x"
  by (induction xs rule: induct_list012) simp_all

lemma route_tail_join:
  "xs \<noteq> [] \<Longrightarrow> words_line (xs @ route_tail_words gw m) =
     words_line xs @ (if IsValid gw then '' '' @ addr_text gw @ (if m \<noteq> 0 then '' '' @ Itoa m else []) else [])"
  using join_snoc [of xs "addr_text gw" "'' ''"] join_snoc [of "xs @ [addr_text gw]" "Itoa m" "'' ''"] by (simp add: route_tail_words_def)

lemma route_text:
  assumes "route_ok r"
  shows "formatPushedRoute r = words_line (route_words r)" "params (route_words r)"
proof -
  let ?p = "route_Prefix (pushed_Route r)" and ?gw = "route_Gateway (pushed_Route r)" and ?m = "route_Metric (pushed_Route r)"
  have r: "pushed_Raw r = []" "prefix_ok ?p" "Masked ?p = ?p" "zone_free ?gw" using assms by (simp_all add: route_ok_def Let_def)
  have v: "prefix_IsValid ?p" using r(2) by (cases ?p) simp_all
  show "formatPushedRoute r = words_line (route_words r)"
    using r(1,3) v route_tail_join [of _ ?gw ?m]
    by (simp add: formatPushedRoute_def formatIPv4RoutePrefix_def route_words_def route_v4_def Let_def del: addr_text.simps)
  have "\<forall>t \<in> set (route_tail_words ?gw ?m). param_ok t" "length (route_tail_words ?gw ?m) \<le> 2"
    using r(4) by (auto simp: route_tail_words_def param_addr param_Itoa)
  moreover have "param_ok (addr_text (prefix_Addr ?p))" "param_ok (prefix_text ?p)"
    using r(2) param_prefix [OF r(2)] by (cases ?p, simp, simp add: param_addr)+
  ultimately show "params (route_words r)" by (auto simp: params_def route_words_def param_v4 Let_def)
qed

lemma route_family: "route_ok r \<Longrightarrow> \<not> route_v4 r \<Longrightarrow> Is6 (prefix_Addr (route_Prefix (pushed_Route r)))"
  by (cases "route_Prefix (pushed_Route r)"; cases "prefix_Addr (route_Prefix (pushed_Route r))")
    (auto simp: route_ok_def route_v4_def Let_def)

lemma route_line:
  assumes "route_ok r"
  shows "fold wire_line (route_lines r) w =
    (if route_v4 r then w\<lparr>wire_Route := wire_Route w @ [formatPushedRoute r]\<rparr>
     else w\<lparr>wire_RouteIPv6 := wire_RouteIPv6 w @ [formatPushedRoute r]\<rparr>)"
  using value_line_params(2) [OF route_text(2) [OF assms], of _ w] params_words(1) [OF route_text(2) [OF assms]]
    route_text(1) [OF assms] route_family [OF assms]
  by (auto simp: route_lines_def route_v4_def wire_option_simps)

lemma seg_routes:
  assumes "\<forall>r \<in> set rs. route_ok r"
  shows "fold wire_line (concat (map route_lines rs)) w =
    w\<lparr>wire_Route := wire_Route w @ map formatPushedRoute (filter route_v4 rs),
      wire_RouteIPv6 := wire_RouteIPv6 w @ map formatPushedRoute (filter (\<lambda>r. \<not> route_v4 r) rs)\<rparr>"
  using assms by (induction rs arbitrary: w) (simp_all add: route_line)

abbreviation received_route :: "pushedRoute \<Rightarrow> pushedRoute" where
  "received_route r \<equiv> r\<lparr>pushed_Raw := formatPushedRoute r\<rparr>"

lemma add_route:
  assumes "route_ok r"
  shows "route_v4 r \<Longrightarrow> addWireRoute remoteHost (formatPushedRoute r) opts = opts\<lparr>push_Routes := push_Routes opts @ [received_route r]\<rparr>"
    "\<not> route_v4 r \<Longrightarrow> addWireRouteIPv6 remoteHost (formatPushedRoute r) opts = opts\<lparr>push_Routes := push_Routes opts @ [received_route r]\<rparr>"
proof -
  let ?p = "route_Prefix (pushed_Route r)" and ?gw = "route_Gateway (pushed_Route r)" and ?m = "route_Metric (pushed_Route r)"
  have r: "prefix_ok ?p" "Masked ?p = ?p" "zone_free ?gw" "metric_ok ?m" "IsValid ?gw \<Longrightarrow> Is4 ?gw = Is4 (prefix_Addr ?p)"
    "\<not> IsValid ?gw \<Longrightarrow> ?m = 0" using assms by (auto simp: route_ok_def Let_def split: if_splits)
  have m: "(if IsValid ?gw then ?m else 0) = ?m" using r(6) by auto
  have w: "TrimSpace (formatPushedRoute r) = formatPushedRoute r" "formatPushedRoute r \<noteq> []"
    using params_words [OF route_text(2) [OF assms]] route_text(1) [OF assms] by simp_all
  have e: "received_route r = \<lparr>pushed_Route = \<lparr>route_Prefix = ?p, route_Gateway = ?gw, route_Metric = ?m\<rparr>, pushed_Raw = formatPushedRoute r\<rparr>"
    by (cases r; cases "pushed_Route r") simp
  show "addWireRoute remoteHost (formatPushedRoute r) opts = opts\<lparr>push_Routes := push_Routes opts @ [received_route r]\<rparr>" if v: "route_v4 r"
  proof -
    obtain net b where p: "?p = Prefix (V4 net) b" "b \<le> 32" using v r(1) by (cases ?p; cases "prefix_Addr ?p") (auto simp: route_v4_def)
    have "parsePushedRoute (formatPushedRoute r) remoteHost = Inr (?p, ?gw, ?m, False)"
      using pushed_route_text [OF p(2) r(3,4), of net remoteHost] r(5) m v p(1) route_text(1) [OF assms] by (simp add: route_words_def)
    then show ?thesis using w e by (simp add: addWireRoute_def add_wire_route_def)
  qed
  show "addWireRouteIPv6 remoteHost (formatPushedRoute r) opts = opts\<lparr>push_Routes := push_Routes opts @ [received_route r]\<rparr>" if v: "\<not> route_v4 r"
  proof -
    obtain a b where p: "?p = Prefix a b" using r(1) by (cases ?p) auto
    have "parsePushedRouteIPv6 (formatPushedRoute r) remoteHost = Inr (?p, ?gw, ?m, False)"
      using pushed_route_ipv6_text [OF _ _ r(3,4), of a b remoteHost] r(1,2,5) m v p route_family [OF assms v] route_text(1) [OF assms]
      by (simp add: route_words_def route_v4_def del: prefix_text.simps)
    then show ?thesis using w e by (simp add: addWireRouteIPv6_def add_wire_route_def)
  qed
qed

lemma add_routes:
  "\<forall>r \<in> set rs. route_ok r \<and> route_v4 r \<Longrightarrow>
     fold (addWireRoute remoteHost) (map formatPushedRoute rs) opts = opts\<lparr>push_Routes := push_Routes opts @ map (\<lambda>r. received_route r) rs\<rparr>"
  "\<forall>r \<in> set rs. route_ok r \<and> \<not> route_v4 r \<Longrightarrow>
     fold (addWireRouteIPv6 remoteHost) (map formatPushedRoute rs) opts = opts\<lparr>push_Routes := push_Routes opts @ map (\<lambda>r. received_route r) rs\<rparr>"
  by (induction rs arbitrary: opts) (simp_all add: add_route)

definition gateway_ok :: "pushedOptions \<Rightarrow> bool" where
  "gateway_ok opts \<longleftrightarrow>
     push_RouteGatewayRaw opts = [] \<and> zone_free (push_RouteGateway opts) \<and>
     (push_RouteGatewayVPN opts \<longrightarrow> push_RouteGateway opts = NoAddr)"

lemma gateway_plain: "gateway_ok opts \<Longrightarrow> plain_value (formatPushedRouteGateway opts)"
  using param_addr [of "push_RouteGateway opts"]
  by (auto simp: gateway_ok_def formatPushedRouteGateway_def plain_value_def param_ok_def plain_char_def)

lemma seg_gateway:
  assumes "wire_RouteGateway w = []" "gateway_ok opts"
  shows "fold wire_line (line_if (formatPushedRouteGateway opts \<noteq> []) (''route-gateway '' @ formatPushedRouteGateway opts)) w =
    w\<lparr>wire_RouteGateway := formatPushedRouteGateway opts\<rparr>"
proof (cases "formatPushedRouteGateway opts = []")
  case True
  then show ?thesis using assms(1) by (cases w) simp
next
  case False
  then have "param_ok (formatPushedRouteGateway opts)" using gateway_plain [OF assms(2)] by (simp add: plain_value_def)
  then show ?thesis using False wire_number [of "''route-gateway''" "formatPushedRouteGateway opts" w] by (simp add: wire_option_simps)
qed

lemma set_gateway:
  assumes "gateway_ok opts" "push_RouteGateway o' = NoAddr" "\<not> push_RouteGatewayVPN o'" "push_RouteGatewayRaw o' = []"
  shows "setWireRouteGateway (formatPushedRouteGateway opts) o' =
    o'\<lparr>push_RouteGatewayRaw := formatPushedRouteGateway opts, push_RouteGatewayVPN := push_RouteGatewayVPN opts,
      push_RouteGateway := push_RouteGateway opts\<rparr>"
proof -
  let ?g = "formatPushedRouteGateway opts" and ?gw = "push_RouteGateway opts"
  consider (none) "?g = []" "\<not> push_RouteGatewayVPN opts" "?gw = NoAddr" | (vpn) "?g = ''vpn_gateway''" "push_RouteGatewayVPN opts" "?gw = NoAddr"
    | (addr) "?g = addr_text ?gw" "\<not> push_RouteGatewayVPN opts" "IsValid ?gw" "zone_free ?gw"
    using assms(1) by (cases "push_RouteGateway opts") (auto simp: gateway_ok_def formatPushedRouteGateway_def)
  then show ?thesis
  proof cases
    case none
    then show ?thesis using assms(2-4) by (cases o') (simp add: setWireRouteGateway_def TrimSpace_def)
  next
    case vpn
    have "params [''vpn_gateway'']" by (simp add: params_def param_ok_def plain_char_def)
    from params_words [OF this] show ?thesis using vpn assms(2,3) by (cases o') (simp add: setWireRouteGateway_def EqualFold_def)
  next
    case addr
    have "params [addr_text ?gw]" using param_addr [OF addr(3,4)] by (simp add: params_def)
    from params_words [OF this] show ?thesis using addr assms(3) not_keyword(1) [OF addr(3,4)] ParseAddr_text [OF addr(3,4)]
      by (cases o') (simp add: setWireRouteGateway_def Let_def)
  qed
qed

section \<open>DNS addresses and other DHCP options\<close>

definition dns_ok :: "pushedAddress \<Rightarrow> bool" where
  "dns_ok v \<longleftrightarrow> IsValid (pushed_Address v) \<and> zone_free (pushed_Address v)"

definition dns_value :: "pushedAddress \<Rightarrow> string" where
  "dns_value v = words_line [if Is4 (pushed_Address v) then ''DNS'' else ''DNS6'', addr_text (pushed_Address v)]"

lemma dns_params: "dns_ok v \<Longrightarrow> params [if Is4 (pushed_Address v) then ''DNS'' else ''DNS6'', addr_text (pushed_Address v)]"
  by (simp add: params_def dns_ok_def param_addr)

lemma dns_line:
  assumes "dns_ok v"
  shows "fold wire_line (dns_lines v) w = w\<lparr>wire_DHCPOptions := wire_DHCPOptions w @ [dns_value v]\<rparr>"
proof -
  have "dns_lines v = [''dhcp-option'' @ '' '' @ dns_value v]"
    using assms by (cases "pushed_Address v") (auto simp: dns_lines_def dns_value_def dns_ok_def simp del: addr_text.simps)
  moreover have "dns_value v \<noteq> []" using params_words(1) [OF dns_params [OF assms]] by (simp add: dns_value_def)
  ultimately show ?thesis using wire_params [OF _ dns_params [OF assms], of "''dhcp-option''" w]
    by (simp add: wire_option_simps dns_value_def [symmetric] del: str_Join.simps append.simps)
qed

lemma seg_dns:
  "\<forall>v \<in> set vs. dns_ok v \<Longrightarrow>
     fold wire_line (concat (map dns_lines vs)) w = w\<lparr>wire_DHCPOptions := wire_DHCPOptions w @ map dns_value vs\<rparr>"
  by (induction vs arbitrary: w) (simp_all add: dns_line)

abbreviation received_dns :: "pushedAddress \<Rightarrow> pushedAddress" where
  "received_dns v \<equiv> \<lparr>pushed_Address = pushed_Address v, address_Raw = dns_value v, OptionName = ''dhcp-option''\<rparr>"

lemma add_dns:
  assumes "dns_ok v"
  shows "addWireDHCPOptionDNS (dns_value v) opts = opts\<lparr>push_DNS := push_DNS opts @ [received_dns v]\<rparr>"
proof -
  note p = params_words [OF dns_params [OF assms], folded dns_value_def]
  have u: "ToUpper ''DNS'' = ''DNS''" "ToUpper ''DNS6'' = ''DNS6''" by (simp_all add: ToUpper_def upper_char_def)
  have a: "ParseAddr (addr_text (pushed_Address v)) = Inr (pushed_Address v)" using assms by (intro ParseAddr_text) (simp_all add: dns_ok_def)
  have f: "\<not> Is4 (pushed_Address v) \<Longrightarrow> Is6 (pushed_Address v)" using assms by (cases "pushed_Address v") (simp_all add: dns_ok_def)
  show ?thesis using p(1) a f by (simp add: addWireDHCPOptionDNS_def p(2,3) u add_dhcp_address_def Let_def)
qed

definition dns_names :: "string set" where
  "dns_names = {''DNS'', ''DNS6'', ''DOMAIN'', ''ADAPTER_DOMAIN_SUFFIX'', ''DOMAIN-SEARCH'', ''DOMAIN-ROUTE''}"

definition dhcp_ok :: "string \<Rightarrow> bool" where
  "dhcp_ok v \<longleftrightarrow> (let ts = Fields v in v = words_line ts \<and> params ts \<and> ToUpper (hd ts) \<notin> dns_names)"

lemma seg_dhcp:
  "\<forall>v \<in> set vs. dhcp_ok v \<Longrightarrow>
     fold wire_line (concat (map (value_line ''dhcp-option'') vs)) w = w\<lparr>wire_DHCPOptions := wire_DHCPOptions w @ vs\<rparr>"
proof (induction vs arbitrary: w)
  case (Cons v vs)
  define ts where "ts = Fields v"
  have t: "v = words_line ts" "params ts" using Cons.prems by (auto simp: dhcp_ok_def ts_def Let_def)
  have "fold wire_line (value_line ''dhcp-option'' v) w = w\<lparr>wire_DHCPOptions := wire_DHCPOptions w @ [v]\<rparr>"
    using value_line_params(2) [OF t(2), of "''dhcp-option''" w] params_words(1) [OF t(2)] t(1) by (simp add: wire_option_simps)
  then show ?case using Cons by simp
qed simp

lemma add_dhcp:
  assumes "dhcp_ok v"
  shows "addWireDHCPOptionDNS v opts = opts"
proof -
  define ts where "ts = Fields v"
  have t: "v = words_line ts" "params ts" "ToUpper (hd ts) \<notin> dns_names" using assms by (auto simp: dhcp_ok_def ts_def Let_def)
  have "ts ! 0 = hd ts" using t(2) by (simp add: params_def hd_conv_nth)
  then show ?thesis using params_words [OF t(2)] t(1,3) by (simp add: addWireDHCPOptionDNS_def dns_names_def Let_def)
qed

lemma add_dhcp_all: "\<forall>v \<in> set vs. dhcp_ok v \<Longrightarrow> fold addWireDHCPOptionDNS vs opts = opts"
  by (induction vs) (simp_all add: add_dhcp)

lemma add_dns_all:
  "\<forall>v \<in> set vs. dns_ok v \<Longrightarrow>
     fold addWireDHCPOptionDNS (map dns_value vs) opts = opts\<lparr>push_DNS := push_DNS opts @ map (\<lambda>v. received_dns v) vs\<rparr>"
  by (induction vs arbitrary: opts) (simp_all add: add_dns)

lemma filter_dhcp:
  assumes "\<forall>v \<in> set ds. dns_ok v" "\<forall>v \<in> set vs. dhcp_ok v"
  shows "filterOpenVPNNonDNSDHCPOptions (map dns_value ds @ vs) = vs"
proof -
  have "filterOpenVPNNonDNSDHCPOptions (map dns_value ds) = []"
    using assms(1) params_words(3) [OF dns_params] by (auto simp: filterOpenVPNNonDNSDHCPOptions_def dns_value_def filter_empty_conv ToUpper_def upper_char_def)
  moreover have "filterOpenVPNNonDNSDHCPOptions vs = vs"
    using assms(2) by (auto simp: filterOpenVPNNonDNSDHCPOptions_def dhcp_ok_def dns_names_def Let_def filter_id_conv split: list.splits)
  ultimately show ?thesis by (simp add: filterOpenVPNNonDNSDHCPOptions_def)
qed

end
