(* ===== verification/Push_Dns.thy ===== *)
theory Push_Dns
  imports Push_Decode
begin

text \<open>
  The DNS part of a push reply: search domains and DNS servers with their addresses, domains, DNSSEC
  mode, transport and server name arrive as they were configured.
\<close>

section \<open>Search domains\<close>

definition domains_ok :: "nat \<Rightarrow> string list \<Rightarrow> bool" where
  "domains_ok n ds \<longleftrightarrow> length ds \<le> n \<and> distinct ds \<and> (\<forall>d \<in> set ds. validateTunnelDNSDomain d \<and> param_ok d)"

definition search_value :: "string list \<Rightarrow> string list" where
  "search_value ds = (if ds = [] then [] else [words_line (''search-domains'' # ds)])"

lemma search_params: "domains_ok 14 ds \<Longrightarrow> params (''search-domains'' # ds)"
  by (simp add: domains_ok_def params_def)

lemma seg_search:
  assumes "domains_ok 14 ds"
  shows "fold wire_line (line_if (length ds > 0) (''dns search-domains '' @ words_line ds)) w =
    w\<lparr>wire_DNS := wire_DNS w @ search_value ds\<rparr>"
proof (cases ds)
  case (Cons d es)
  have "''dns search-domains '' @ words_line ds = ''dns'' @ '' '' @ words_line (''search-domains'' # ds)" by (simp add: Cons)
  moreover have "wire_line (''dns'' @ '' '' @ words_line (''search-domains'' # ds)) w =
      w\<lparr>wire_DNS := wire_DNS w @ [words_line (''search-domains'' # ds)]\<rparr>"
    using wire_params [OF _ search_params [OF assms], of "''dns''" w] params_words(1) [OF search_params [OF assms]]
    by (simp add: wire_option_simps del: str_Join.simps append.simps)
  ultimately show ?thesis using Cons by (simp add: search_value_def del: str_Join.simps append.simps)
qed (simp add: search_value_def)

lemma append_new: "d \<notin> set ds \<Longrightarrow> appendUniqueStringValues ds [d] = ds @ [d]"
  by (simp add: appendUniqueStringValues_def)

lemma add_search_domains:
  assumes "distinct (push_SearchDomains opts @ ds)" "modernSearchDomains opts = push_SearchDomains opts" "\<forall>d \<in> set ds. validateTunnelDNSDomain d"
  shows "fold (add_search_domain raw) ds opts =
    opts\<lparr>push_SearchDomains := push_SearchDomains opts @ ds, modernSearchDomains := push_SearchDomains opts @ ds\<rparr>"
  using assms
proof (induction ds arbitrary: opts)
  case Nil
  then show ?case by (cases opts) simp
next
  case (Cons d ds)
  then show ?case by (simp add: add_search_domain_def append_new)
qed

lemma add_search:
  assumes "domains_ok 14 ds" "push_SearchDomains opts = []" "modernSearchDomains opts = []"
  shows "fold addWireDNSOptionV2 (search_value ds) opts = opts\<lparr>push_SearchDomains := ds, modernSearchDomains := ds\<rparr>"
proof (cases "ds = []")
  case True
  then show ?thesis using assms(2,3) by (cases opts) (simp add: search_value_def)
next
  case False
  note p = params_words [OF search_params [OF assms(1)]]
  have "addWireDNSOptionV2 (words_line (''search-domains'' # ds)) opts =
      fold (add_search_domain (words_line (''search-domains'' # ds))) ds opts"
    unfolding addWireDNSOptionV2_def p(2,3) Let_def using False p(1) by (cases ds) (simp_all add: EqualFold_def)
  then show ?thesis using False assms add_search_domains [of opts ds] by (simp add: search_value_def domains_ok_def del: str_Join.simps)
qed

section \<open>Addresses of DNS servers\<close>

lemma v4_fields_chars: "v4_fields dn v dl s = Inr f \<Longrightarrow> c \<in> set s \<Longrightarrow> c = CHR ''.'' \<or> is_digit c"
  by (induction dn v dl s rule: v4_fields.induct) (auto simp: is_digit_def Let_def split: if_splits)

lemma parseIPv4_colon: "CHR '':'' \<in> set s \<Longrightarrow> \<exists>e. parseIPv4 s = Inl e"
proof (cases "v4_fields [] 0 0 s")
  case (Inr f)
  assume "CHR '':'' \<in> set s"
  from v4_fields_chars [OF Inr this] show ?thesis by (simp add: is_digit_def)
qed (simp add: parseIPv4_def)

lemma find_append: "find P s = Some x \<Longrightarrow> find P (s @ t) = Some x"
  by (induction s) (auto split: if_splits)

lemma v4_first: "find (\<lambda>c. c \<in> {CHR ''.'', CHR '':'', CHR ''%''}) (v4_text v) = Some (CHR ''.'')"
proof (rule find_unique)
  have "2 \<le> length (map FormatUint (octets v))" by simp
  then show "CHR ''.'' \<in> set (v4_text v)" unfolding v4_text_def by (rule join_sep)
  fix y assume y: "y \<in> set (v4_text v)" "y \<in> {CHR ''.'', CHR '':'', CHR ''%''}"
  have "y \<in> set [CHR ''.''] \<or> (\<exists>x \<in> set (map FormatUint (octets v)). y \<in> set x)"
    using y(1) join_chars [of y "map FormatUint (octets v)" "''.''"] by (auto simp: v4_text_def)
  then consider "y = CHR ''.''" | n where "y \<in> set (FormatUint n)" by auto
  then show "y = CHR ''.''" using y(2) by cases (simp, use digits_chars(2,3) in blast)
qed simp

lemma ParseAddr_bracket: "\<exists>e. ParseAddr (CHR ''['' # s) = Inl e"
proof -
  have 4: "parseIPv4 (CHR ''['' # s) = Inl (New ''unexpected character'')" by (simp add: parseIPv4_def)
  have "v6_loop 8 [] None (CHR ''['' # t) = Inl (New ''each colon-separated field must have at least one digit'')" for t
    using v6_loop.simps(2) [of 7 "[]" None "CHR ''['' # t"] by (simp add: hex_value_def hex_digit_def)
  then have 6: "\<exists>e. parseIPv6 (CHR ''['' # s) = Inl e" by (simp add: parseIPv6_def Let_def HasPrefix_def)
  show ?thesis unfolding ParseAddr_def using 4 6 by (auto split: option.splits)
qed

definition dns_address_ok :: "addr_port \<Rightarrow> bool" where
  "dns_address_ok a \<longleftrightarrow> IsValid (fst a) \<and> zone_free (fst a) \<and> snd a < 65536"

lemma dns_address_parsed:
  assumes "dns_address_ok a"
  shows "parseTunnelDNSAddress (dns_address_text a) = Inr a" "param_ok (dns_address_text a)"
proof -
  obtain x p where a: "a = (x, p)" "IsValid x" "zone_free x" "p < 65536" using assms by (cases a) (auto simp: dns_address_ok_def)
  show "param_ok (dns_address_text a)" using a param_addr [of x] param_addrport [of x p] by (simp add: dns_address_text_def)
  show "parseTunnelDNSAddress (dns_address_text a) = Inr a"
  proof (cases "p = 0")
    case True
    then show ?thesis using ParseAddr_text [OF a(2,3)] a(1) by (simp add: parseTunnelDNSAddress_def dns_address_text_def)
  next
    case False
    have "\<exists>e. ParseAddr (addrport_text (x, p)) = Inl e"
    proof (cases x)
      case (V4 v)
      have "\<exists>e. parseIPv4 (v4_text v @ '':'' @ FormatUint p) = Inl e" by (rule parseIPv4_colon) simp
      then show ?thesis using V4 find_append [OF v4_first, of v "'':'' @ FormatUint p"] by (auto simp: ParseAddr_def)
    next
      case (V6 v z)
      then show ?thesis using ParseAddr_bracket by simp
    qed (use a in simp)
    then show ?thesis using False ParseAddrPort_text [OF a(2,3,4)] a(1) by (auto simp: parseTunnelDNSAddress_def dns_address_text_def)
  qed
qed

section \<open>DNS servers\<close>

definition server_ok :: "TunnelDNSServer \<Rightarrow> bool" where
  "server_ok s \<longleftrightarrow>
     0 \<le> dns_Priority s \<and> dns_Priority s \<le> 127 \<and> dns_Addresses s \<noteq> [] \<and> length (dns_Addresses s) \<le> maxTunnelDNSServerAddresses \<and>
     (\<forall>a \<in> set (dns_Addresses s). dns_address_ok a) \<and> domains_ok 12 (dns_ResolveDomains s) \<and>
     dns_DNSSEC s \<in> {[], ''yes'', ''optional'', ''no''} \<and> dns_Transport s \<in> {[], ''plain'', ''dot'', ''doh''} \<and>
     (dns_SNI s = [] \<or> validateTunnelDNSDomain (dns_SNI s) \<and> param_ok (dns_SNI s))"

text \<open>The parameters of the lines of a server, after the option name.\<close>

definition server_words :: "TunnelDNSServer \<Rightarrow> string list list" where
  "server_words s =
     (let h = (\<lambda>kind xs. [''server'', Itoa (dns_Priority s), kind] @ xs)
      in [h ''address'' (map dns_address_text (dns_Addresses s))] @
         (if dns_ResolveDomains s \<noteq> [] then [h ''resolve-domains'' (dns_ResolveDomains s)] else []) @
         (if dns_DNSSEC s \<noteq> [] then [h ''dnssec'' [dns_DNSSEC s]] else []) @
         (if dns_Transport s \<noteq> [] then [h ''transport'' [dns_transport_text (dns_Transport s)]] else []) @
         (if dns_SNI s \<noteq> [] then [h ''sni'' [dns_SNI s]] else []))"

lemma server_lines_words:
  assumes "server_ok s"
  shows "dns_server_lines s = map (\<lambda>ws. ''dns'' @ '' '' @ words_line ws) (server_words s)"
proof -
  obtain a as where "dns_Addresses s = a # as" using assms by (cases "dns_Addresses s") (auto simp: server_ok_def)
  then show ?thesis
    by (cases "dns_ResolveDomains s") (simp_all add: dns_server_lines_def server_words_def line_if_def Let_def)
qed

lemma param_literals:
  "param_ok ''yes''" "param_ok ''optional''" "param_ok ''no''" "param_ok ''plain''" "param_ok ''DoT''" "param_ok ''DoH''"
  by (simp_all add: param_ok_def plain_char_def)

lemma server_words_params:
  assumes "server_ok s" "ws \<in> set (server_words s)"
  shows "params ws"
proof -
  have "\<forall>t \<in> set (map dns_address_text (dns_Addresses s)). param_ok t" "length (dns_Addresses s) \<le> 8"
    using assms(1) dns_address_parsed(2) by (auto simp: server_ok_def maxTunnelDNSServerAddresses_def)
  moreover have "\<forall>t \<in> set (dns_ResolveDomains s). param_ok t" "length (dns_ResolveDomains s) \<le> 12"
    using assms(1) by (auto simp: server_ok_def domains_ok_def)
  moreover have "dns_DNSSEC s \<noteq> [] \<Longrightarrow> param_ok (dns_DNSSEC s)" using assms(1) param_literals by (auto simp: server_ok_def)
  moreover have "dns_Transport s \<noteq> [] \<Longrightarrow> param_ok (dns_transport_text (dns_Transport s))"
    using assms(1) param_literals by (auto simp: server_ok_def dns_transport_text_def)
  moreover have "dns_SNI s \<noteq> [] \<Longrightarrow> param_ok (dns_SNI s)" using assms(1) by (auto simp: server_ok_def)
  ultimately show ?thesis using assms(2) by (auto simp: server_words_def params_def param_Itoa Let_def split: if_splits)
qed

lemma fold_dns_lines:
  "\<forall>ws \<in> set wss. params ws \<Longrightarrow>
     fold wire_line (map (\<lambda>ws. ''dns'' @ '' '' @ words_line ws) wss) w = w\<lparr>wire_DNS := wire_DNS w @ map (\<lambda>ws. words_line ws) wss\<rparr>"
proof (induction wss arbitrary: w)
  case (Cons ws wss)
  then have "wire_line (''dns'' @ '' '' @ words_line ws) w = w\<lparr>wire_DNS := wire_DNS w @ [words_line ws]\<rparr>"
    using wire_params [of "''dns''" ws w] params_words(1) [of ws] by (simp add: wire_option_simps)
  then show ?case using Cons by simp
qed simp

lemma seg_servers:
  "\<forall>s \<in> set ss. server_ok s \<Longrightarrow>
     fold wire_line (concat (map dns_server_lines ss)) w =
     w\<lparr>wire_DNS := wire_DNS w @ map (\<lambda>ws. words_line ws) (concat (map server_words ss))\<rparr>"
proof (induction ss arbitrary: w)
  case (Cons s ss)
  have s: "server_ok s" "\<forall>ws \<in> set (server_words s). params ws" using Cons.prems server_words_params by auto
  have "fold wire_line (dns_server_lines s) w = w\<lparr>wire_DNS := wire_DNS w @ map (\<lambda>ws. words_line ws) (server_words s)\<rparr>"
    unfolding server_lines_words [OF s(1)] by (rule fold_dns_lines [OF s(2)])
  then show ?case using Cons by simp
qed simp

section \<open>Reading a server back\<close>

lemma add_server_line:
  assumes "params ([''server'', Itoa p, kind] @ xs)" "0 \<le> p" "p \<le> 127"
  shows "addWireDNSOptionV2 (words_line ([''server'', Itoa p, kind] @ xs)) opts =
    add_dns_server_option (words_line ([''server'', Itoa p, kind] @ xs)) p ([''server'', Itoa p, kind] @ xs) (tunnelDNSServer p opts)"
proof -
  have "Atoi (Itoa p) = Inr p" using assms(2,3) by (intro Atoi_Itoa) simp_all
  moreover have "\<not> EqualFold ''server'' ''search-domains''" by (simp add: EqualFold_def ToLower_def)
  moreover have "EqualFold ''server'' ''server''" by (simp add: EqualFold_def)
  ultimately show ?thesis unfolding addWireDNSOptionV2_def params_words(2,3) [OF assms(1)] Let_def
    using params_words(1) [OF assms(1)] assms(2,3) by simp
qed

definition fresh :: "int \<Rightarrow> TunnelDNSServer list \<Rightarrow> bool" where
  "fresh p old \<longleftrightarrow> (\<forall>s \<in> set old. dns_Priority s \<noteq> p)"

lemma update_last: "fresh p old \<Longrightarrow> dns_Priority s = p \<Longrightarrow> update_server p f (old @ [s]) = old @ [f s]"
  by (induction old) (simp_all add: fresh_def)

lemma find_last: "fresh p old \<Longrightarrow> dns_Priority s = p \<Longrightarrow> find (\<lambda>s. dns_Priority s = p) (old @ [s]) = Some s"
  by (induction old) (simp_all add: fresh_def)

lemma server_known: "dns_Priority s = p \<Longrightarrow> push_DNSServers opts = old @ [s] \<Longrightarrow> tunnelDNSServer p opts = opts"
  by (simp add: tunnelDNSServer_def)

lemma server_new: "fresh p (push_DNSServers opts) \<Longrightarrow>
    tunnelDNSServer p opts = opts\<lparr>push_DNSServers := push_DNSServers opts @ [zero_dns_server p]\<rparr>"
  by (auto simp: tunnelDNSServer_def fresh_def list_ex_iff)

abbreviation dns_entry :: "string \<Rightarrow> addr_port \<Rightarrow> pushedAddress" where
  "dns_entry raw a \<equiv> \<lparr>pushed_Address = fst a, address_Raw = raw, OptionName = ''dns''\<rparr>"

lemma add_addresses:
  assumes "fresh p old" "dns_Priority s = p" "push_DNSServers opts = old @ [s]" "\<forall>a \<in> set as. dns_address_ok a"
    "length (dns_Addresses s) + length as \<le> maxTunnelDNSServerAddresses"
  shows "add_dns_addresses raw p (map dns_address_text as) opts =
    opts\<lparr>push_DNSServers := old @ [s\<lparr>dns_Addresses := dns_Addresses s @ as\<rparr>], push_DNS := push_DNS opts @ map (dns_entry raw) as,
      modernDNSAddresses := modernDNSAddresses opts @ map (dns_entry raw) as\<rparr>"
  using assms
proof (induction as arbitrary: s opts)
  case Nil
  then show ?case by (cases opts) simp
next
  case (Cons a as)
  have "server_addresses p opts = dns_Addresses s" using Cons.prems(1-3) by (simp add: server_addresses_def find_last)
  let ?s = "s\<lparr>dns_Addresses := dns_Addresses s @ [a]\<rparr>"
  let ?o = "opts\<lparr>push_DNSServers := old @ [?s], push_DNS := push_DNS opts @ [dns_entry raw a],
    modernDNSAddresses := modernDNSAddresses opts @ [dns_entry raw a]\<rparr>"
  have "add_dns_addresses raw p (map dns_address_text (a # as)) opts = add_dns_addresses raw p (map dns_address_text as) ?o"
    using Cons.prems \<open>server_addresses p opts = _\<close> dns_address_parsed(1) [of a] by (simp add: at_server_def update_last Let_def)
  then show ?case using Cons.IH [of ?s ?o] Cons.prems by simp
qed

lemma add_domains:
  assumes "fresh p old" "dns_Priority s = p" "push_DNSServers opts = old @ [s]" "\<forall>d \<in> set ds. validateTunnelDNSDomain d"
    "distinct (dns_ResolveDomains s @ ds)"
  shows "fold (add_resolve_domain raw p) ds opts = opts\<lparr>push_DNSServers := old @ [s\<lparr>dns_ResolveDomains := dns_ResolveDomains s @ ds\<rparr>]\<rparr>"
  using assms
proof (induction ds arbitrary: s opts)
  case Nil
  then show ?case by (cases opts) simp
next
  case (Cons d ds)
  let ?s = "s\<lparr>dns_ResolveDomains := dns_ResolveDomains s @ [d]\<rparr>"
  have "add_resolve_domain raw p d opts = opts\<lparr>push_DNSServers := old @ [?s]\<rparr>"
    using Cons.prems by (simp add: add_resolve_domain_def at_server_def update_last append_new)
  then show ?case using Cons.IH [of ?s "opts\<lparr>push_DNSServers := old @ [?s]\<rparr>"] Cons.prems by simp
qed

text \<open>One lemma per line of a server, on options whose last server is the one in question.\<close>

definition at_last :: "int \<Rightarrow> TunnelDNSServer list \<Rightarrow> TunnelDNSServer \<Rightarrow> pushedOptions \<Rightarrow> bool" where
  "at_last p old t opts \<longleftrightarrow>
     0 \<le> p \<and> p \<le> 127 \<and> fresh p old \<and> dns_Priority t = p \<and> push_DNSServers opts = old @ [t]"

lemma at_last_update: "at_last p old t opts \<Longrightarrow> dns_Priority u = p \<Longrightarrow> at_last p old u (opts\<lparr>push_DNSServers := old @ [u]\<rparr>)"
  by (simp add: at_last_def)

lemma last_line:
  assumes "at_last p old t opts" "params ([''server'', Itoa p, kind] @ xs)"
  shows "addWireDNSOptionV2 (words_line ([''server'', Itoa p, kind] @ xs)) opts =
    add_dns_server_option (words_line ([''server'', Itoa p, kind] @ xs)) p ([''server'', Itoa p, kind] @ xs) opts"
  using add_server_line [OF assms(2)] server_known [of t p opts old] assms(1) by (simp add: at_last_def)

lemma last_field: "at_last p old t opts \<Longrightarrow> at_server p f opts = opts\<lparr>push_DNSServers := old @ [f t]\<rparr>"
  by (simp add: at_server_def at_last_def update_last)

lemma last_same: "at_last p old t opts \<Longrightarrow> opts\<lparr>push_DNSServers := old @ [t]\<rparr> = opts"
  by (cases opts) (simp add: at_last_def)

lemma lower_kinds:
  "ToLower ''address'' = ''address''" "ToLower ''resolve-domains'' = ''resolve-domains''" "ToLower ''dnssec'' = ''dnssec''"
  "ToLower ''transport'' = ''transport''" "ToLower ''sni'' = ''sni''" "ToLower ''yes'' = ''yes''" "ToLower ''optional'' = ''optional''"
  "ToLower ''no'' = ''no''"
  by (simp_all add: ToLower_def lower_char_def)

lemma domains_line:
  assumes "at_last p old t opts" "domains_ok 12 ds" "dns_ResolveDomains t = []"
  shows "fold addWireDNSOptionV2 (if ds \<noteq> [] then [words_line ([''server'', Itoa p, ''resolve-domains''] @ ds)] else []) opts =
    opts\<lparr>push_DNSServers := old @ [t\<lparr>dns_ResolveDomains := ds\<rparr>]\<rparr>"
proof (cases ds)
  case Nil
  moreover have "t\<lparr>dns_ResolveDomains := []\<rparr> = t" using assms(3) by (cases t) simp
  ultimately show ?thesis using last_same [OF assms(1)] by simp
next
  case (Cons d es)
  have "params ([''server'', Itoa p, ''resolve-domains''] @ ds)" using assms(2) by (simp add: params_def domains_ok_def param_Itoa)
  note l = last_line [OF assms(1) this]
  have f: "fresh p old" "dns_Priority t = p" "push_DNSServers opts = old @ [t]" using assms(1) by (simp_all add: at_last_def)
  show ?thesis using l Cons add_domains [OF f, of ds] assms(2,3)
    by (simp add: add_dns_server_option_def lower_kinds domains_ok_def del: str_Join.simps)
qed

lemma dnssec_line:
  assumes "at_last p old t opts" "v \<in> {[], ''yes'', ''optional'', ''no''}" "dns_DNSSEC t = []"
  shows "fold addWireDNSOptionV2 (if v \<noteq> [] then [words_line ([''server'', Itoa p, ''dnssec''] @ [v])] else []) opts =
    opts\<lparr>push_DNSServers := old @ [t\<lparr>dns_DNSSEC := v\<rparr>]\<rparr>"
proof (cases "v = []")
  case True
  moreover have "t\<lparr>dns_DNSSEC := []\<rparr> = t" using assms(3) by (cases t) simp
  ultimately show ?thesis using last_same [OF assms(1)] by simp
next
  case False
  then have v: "ToLower v = v" "v \<in> {''yes'', ''optional'', ''no''}" "param_ok v" using assms(2) lower_kinds param_literals by auto
  have "params ([''server'', Itoa p, ''dnssec''] @ [v])" using v(3) by (simp add: params_def param_Itoa)
  note l = last_line [OF assms(1) this]
  show ?thesis using l False v last_field [OF assms(1)]
    by (simp add: add_dns_server_option_def lower_kinds Let_def del: str_Join.simps insert_iff)
qed

lemma transport_line:
  assumes "at_last p old t opts" "v \<in> {[], ''plain'', ''dot'', ''doh''}" "dns_Transport t = []"
  shows "fold addWireDNSOptionV2 (if v \<noteq> [] then [words_line ([''server'', Itoa p, ''transport''] @ [dns_transport_text v])] else []) opts =
    opts\<lparr>push_DNSServers := old @ [t\<lparr>dns_Transport := v\<rparr>]\<rparr>"
proof (cases "v = []")
  case True
  moreover have "t\<lparr>dns_Transport := []\<rparr> = t" using assms(3) by (cases t) simp
  ultimately show ?thesis using last_same [OF assms(1)] by simp
next
  case False
  then consider "v = ''plain''" | "v = ''dot''" | "v = ''doh''" using assms(2) by auto
  moreover have "params ([''server'', Itoa p, ''transport''] @ [dns_transport_text v])"
    using False assms(2) param_literals by (auto simp: params_def param_Itoa dns_transport_text_def)
  note l = last_line [OF assms(1) this]
  ultimately show ?thesis
    by cases (use l last_field [OF assms(1)] in \<open>simp_all add: add_dns_server_option_def lower_kinds Let_def dns_transport_text_def del: str_Join.simps\<close>)
qed

lemma sni_line:
  assumes "at_last p old t opts" "v = [] \<or> validateTunnelDNSDomain v \<and> param_ok v" "dns_SNI t = []"
  shows "fold addWireDNSOptionV2 (if v \<noteq> [] then [words_line ([''server'', Itoa p, ''sni''] @ [v])] else []) opts =
    opts\<lparr>push_DNSServers := old @ [t\<lparr>dns_SNI := v\<rparr>]\<rparr>"
proof (cases "v = []")
  case True
  moreover have "t\<lparr>dns_SNI := []\<rparr> = t" using assms(3) by (cases t) simp
  ultimately show ?thesis using last_same [OF assms(1)] by simp
next
  case False
  then have v: "validateTunnelDNSDomain v" "param_ok v" using assms(2) by auto
  have "params ([''server'', Itoa p, ''sni''] @ [v])" using v(2) by (simp add: params_def param_Itoa)
  note l = last_line [OF assms(1) this]
  show ?thesis using l False v(1) last_field [OF assms(1)]
    by (simp add: add_dns_server_option_def lower_kinds Let_def del: str_Join.simps)
qed

definition server_entries :: "TunnelDNSServer \<Rightarrow> pushedAddress list" where
  "server_entries s = map (dns_entry (words_line (hd (server_words s)))) (dns_Addresses s)"

lemma address_line:
  assumes "server_ok s" "fresh (dns_Priority s) (push_DNSServers opts)"
  shows "addWireDNSOptionV2 (words_line (hd (server_words s))) opts =
    opts\<lparr>push_DNSServers := push_DNSServers opts @ [(zero_dns_server (dns_Priority s))\<lparr>dns_Addresses := dns_Addresses s\<rparr>],
      push_DNS := push_DNS opts @ server_entries s, modernDNSAddresses := modernDNSAddresses opts @ server_entries s\<rparr>"
proof -
  let ?p = "dns_Priority s" and ?as = "dns_Addresses s"
  let ?ws = "[''server'', Itoa ?p, ''address''] @ map dns_address_text ?as"
  have h: "hd (server_words s) = ?ws" by (simp add: server_words_def Let_def)
  have p: "params ?ws" using server_words_params [OF assms(1), of ?ws] by (simp add: server_words_def Let_def)
  have s: "0 \<le> ?p" "?p \<le> 127" "?as \<noteq> []" "length ?as \<le> maxTunnelDNSServerAddresses" "\<forall>a \<in> set ?as. dns_address_ok a"
    using assms(1) by (simp_all add: server_ok_def)
  let ?o = "opts\<lparr>push_DNSServers := push_DNSServers opts @ [zero_dns_server ?p]\<rparr>"
  have "addWireDNSOptionV2 (words_line ?ws) opts = add_dns_addresses (words_line ?ws) ?p (map dns_address_text ?as) ?o"
    using add_server_line [OF p s(1,2)] server_new [OF assms(2)] s(3) by (simp add: add_dns_server_option_def lower_kinds Let_def del: str_Join.simps)
  also have "\<dots> = ?o\<lparr>push_DNSServers := push_DNSServers opts @ [(zero_dns_server ?p)\<lparr>dns_Addresses := dns_Addresses (zero_dns_server ?p) @ ?as\<rparr>],
      push_DNS := push_DNS ?o @ map (dns_entry (words_line ?ws)) ?as, modernDNSAddresses := modernDNSAddresses ?o @ map (dns_entry (words_line ?ws)) ?as\<rparr>"
    by (rule add_addresses [OF assms(2)]) (use s in \<open>simp_all add: zero_dns_server_def\<close>)
  finally show ?thesis unfolding h server_entries_def by (simp add: zero_dns_server_def del: str_Join.simps)
qed

lemma server_words_tail:
  "map (\<lambda>ws. words_line ws) (server_words s) =
     [words_line (hd (server_words s))] @
     (if dns_ResolveDomains s \<noteq> [] then [words_line ([''server'', Itoa (dns_Priority s), ''resolve-domains''] @ dns_ResolveDomains s)] else []) @
     (if dns_DNSSEC s \<noteq> [] then [words_line ([''server'', Itoa (dns_Priority s), ''dnssec''] @ [dns_DNSSEC s])] else []) @
     (if dns_Transport s \<noteq> []
      then [words_line ([''server'', Itoa (dns_Priority s), ''transport''] @ [dns_transport_text (dns_Transport s)])] else []) @
     (if dns_SNI s \<noteq> [] then [words_line ([''server'', Itoa (dns_Priority s), ''sni''] @ [dns_SNI s])] else [])"
  by (simp add: server_words_def Let_def)

lemma add_server:
  assumes "server_ok s" "fresh (dns_Priority s) (push_DNSServers opts)"
  shows "fold addWireDNSOptionV2 (map (\<lambda>ws. words_line ws) (server_words s)) opts =
    opts\<lparr>push_DNSServers := push_DNSServers opts @ [s], push_DNS := push_DNS opts @ server_entries s,
      modernDNSAddresses := modernDNSAddresses opts @ server_entries s\<rparr>"
proof -
  let ?p = "dns_Priority s" and ?old = "push_DNSServers opts"
  define t where "t = (zero_dns_server ?p)\<lparr>dns_Addresses := dns_Addresses s\<rparr>"
  define q where "q = opts\<lparr>push_DNSServers := ?old @ [t], push_DNS := push_DNS opts @ server_entries s,
      modernDNSAddresses := modernDNSAddresses opts @ server_entries s\<rparr>"
  have s: "0 \<le> ?p" "?p \<le> 127" "domains_ok 12 (dns_ResolveDomains s)" "dns_DNSSEC s \<in> {[], ''yes'', ''optional'', ''no''}"
    "dns_Transport s \<in> {[], ''plain'', ''dot'', ''doh''}" "dns_SNI s = [] \<or> validateTunnelDNSDomain (dns_SNI s) \<and> param_ok (dns_SNI s)"
    using assms(1) unfolding server_ok_def by blast+
  have 0: "addWireDNSOptionV2 (words_line (hd (server_words s))) opts = q"
    unfolding q_def t_def by (rule address_line [OF assms])
  let ?t1 = "t\<lparr>dns_ResolveDomains := dns_ResolveDomains s\<rparr>"
  let ?t2 = "?t1\<lparr>dns_DNSSEC := dns_DNSSEC s\<rparr>"
  let ?t3 = "?t2\<lparr>dns_Transport := dns_Transport s\<rparr>"
  let ?q = "\<lambda>t. q\<lparr>push_DNSServers := ?old @ [t]\<rparr>"
  have a: "at_last ?p ?old t q" using s(1,2) assms(2) by (simp add: at_last_def q_def t_def zero_dns_server_def)
  have a1: "at_last ?p ?old ?t1 (?q ?t1)" "at_last ?p ?old ?t2 (?q ?t2)" "at_last ?p ?old ?t3 (?q ?t3)"
    by (rule at_last_update [OF a]; simp add: t_def zero_dns_server_def)+
  have e: "?t3\<lparr>dns_SNI := dns_SNI s\<rparr> = s" by (cases s) (simp add: t_def zero_dns_server_def)
  have z: "dns_ResolveDomains t = []" "dns_DNSSEC ?t1 = []" "dns_Transport ?t2 = []" "dns_SNI ?t3 = []"
    by (simp_all add: t_def zero_dns_server_def)
  show ?thesis
    unfolding server_words_tail fold_append o_apply fold.simps id_apply 0 domains_line [OF a s(3) z(1)] dnssec_line [OF a1(1) s(4) z(2)]
    using transport_line [OF a1(2) s(5) z(3)] sni_line [OF a1(3) s(6) z(4)] e by (simp add: q_def del: str_Join.simps)
qed

lemma add_servers:
  "\<forall>s \<in> set ss. server_ok s \<Longrightarrow> distinct (map dns_Priority (push_DNSServers opts @ ss)) \<Longrightarrow>
     fold addWireDNSOptionV2 (map (\<lambda>ws. words_line ws) (concat (map server_words ss))) opts =
     opts\<lparr>push_DNSServers := push_DNSServers opts @ ss, push_DNS := push_DNS opts @ concat (map server_entries ss),
       modernDNSAddresses := modernDNSAddresses opts @ concat (map server_entries ss)\<rparr>"
proof (induction ss arbitrary: opts)
  case Nil
  then show ?case by (cases opts) simp
next
  case (Cons s ss)
  have "dns_Priority s \<notin> dns_Priority ` set (push_DNSServers opts)" using Cons.prems(2) by simp
  then have "fresh (dns_Priority s) (push_DNSServers opts)" unfolding fresh_def by (metis imageI)
  then have "fold addWireDNSOptionV2 (map (\<lambda>ws. words_line ws) (server_words s)) opts =
    opts\<lparr>push_DNSServers := push_DNSServers opts @ [s], push_DNS := push_DNS opts @ server_entries s,
      modernDNSAddresses := modernDNSAddresses opts @ server_entries s\<rparr>" using Cons.prems(1) by (intro add_server) simp_all
  then show ?case using Cons.IH [of "opts\<lparr>push_DNSServers := push_DNSServers opts @ [s], push_DNS := push_DNS opts @ server_entries s,
      modernDNSAddresses := modernDNSAddresses opts @ server_entries s\<rparr>"] Cons.prems by simp
qed

end
