(* ===== verification/Spec2Isabelle.thy ===== *)
theory Spec2Isabelle
  imports Reliable Replay_Window Stream_Conn Framing Data_Buffer Mss_Budget Ip_Pool Route_Registry Key_Method Server_Listener Push_Dns
begin

text \<open>
  Verification of sing-openvpn. Header to be completed.
\<close>

section \<open>From the key exchange to the tunnel\<close>

lemma key_sources_complete:
  assumes "buildTLSKeyMethod2Payload server m = Inr p"
  shows "(server \<or> length (PreMaster (KeySource m)) = 48) \<and> length (Random1 (KeySource m)) = 32 \<and> length (Random2 (KeySource m)) = 32"
  using build_parts [OF assms] by blast

lemma same_key_material:
  assumes "crypto_ok C" "buildTLSKeyMethod2Payload False cm = Inr cp" "buildTLSKeyMethod2Payload True sm = Inr sp"
  shows "\<exists>km. length km = 256 \<and>
    deriveRenegotiatedKeyMaterial C exported False (KeySource cm) (KeySource (without_premaster sm)) clientSessionID serverSessionID False = Some (Inr km) \<and>
    deriveRenegotiatedKeyMaterial C exported' False (KeySource cm) (KeySource sm) serverSessionID clientSessionID True = Some (Inr km)"
proof -
  obtain km where km: "deriveTLSKeyMaterialPRF C (PreMaster (KeySource cm)) (Random1 (KeySource cm)) (Random1 (KeySource sm))
      (Random2 (KeySource cm)) (Random2 (KeySource sm)) clientSessionID serverSessionID = Some km" "length km = 256"
    using derive_ends [OF assms(1)] by blast
  then show ?thesis
    using key_sources_complete [OF assms(2)] key_sources_complete [OF assms(3)]
    by (simp add: deriveRenegotiatedKeyMaterial_def without_premaster_def)
qed

text \<open>
  C1. From the key exchange to the tunnel: when client and server exchange their key-method messages,
  each end parses the message of the other, and from its own and the received key source both derive the
  same 256 bytes of key material, each from its own side of the session ids. Data codecs that the two
  ends build from it for any cipher and digest understand each other in both directions: every packet
  of a sequence with increasing packet ids is encoded, and decoded by the other end to exactly its
  packet id and payload.
\<close>

theorem negotiated_session_understood:
  assumes "crypto_ok C" "buildTLSKeyMethod2Payload False cm = Inr cp" "buildTLSKeyMethod2Payload True sm = Inr sp"
  shows "\<exists>cm' sm' km. parseTLSKeyMethod2Payload cp False = Inr cm' \<and> parseTLSKeyMethod2Payload sp True = Inr sm' \<and> length km = 256 \<and>
    deriveRenegotiatedKeyMaterial C exported False (KeySource cm) (KeySource sm') clientSessionID serverSessionID False = Some (Inr km) \<and>
    deriveRenegotiatedKeyMaterial C exported' False (KeySource cm') (KeySource sm) serverSessionID clientSessionID True = Some (Inr km) \<and>
    (\<forall>c s ms. newTLSDataCodec C t km False cipherName authName n tw = Inr c \<and> newTLSDataCodec C t' km True cipherName authName n' tw' = Inr s \<and>
       increasing_from 0 ms \<longrightarrow>
       (\<exists>ws. list_all2 (sends C c) ms ws \<and>
          fst (decode_all C s (map2 (\<lambda>m w. (msg_clock m, msg_aad m, w)) ms ws)) = map (\<lambda>m. Inr (msg_id m, msg_payload m)) ms) \<and>
       (\<exists>ws. list_all2 (sends C s) ms ws \<and>
          fst (decode_all C c (map2 (\<lambda>m w. (msg_clock m, msg_aad m, w)) ms ws)) = map (\<lambda>m. Inr (msg_id m, msg_payload m)) ms))"
proof -
  obtain km where km: "length km = 256"
    "deriveRenegotiatedKeyMaterial C exported False (KeySource cm) (KeySource (without_premaster sm)) clientSessionID serverSessionID False = Some (Inr km)"
    "deriveRenegotiatedKeyMaterial C exported' False (KeySource cm) (KeySource sm) serverSessionID clientSessionID True = Some (Inr km)"
    using same_key_material [OF assms] by blast
  have parsed: "parseTLSKeyMethod2Payload cp False = Inr cm" "parseTLSKeyMethod2Payload sp True = Inr (without_premaster sm)"
    using parse_build [OF assms(2), of "[]"] parse_build [OF assms(3), of "[]"] by simp_all
  have delivers: "\<exists>ws. list_all2 (sends C x) ms ws \<and>
      fst (decode_all C y (map2 (\<lambda>m w. (msg_clock m, msg_aad m, w)) ms ws)) = map (\<lambda>m. Inr (msg_id m, msg_payload m)) ms"
    if "newTLSDataCodec C u km role cipherName authName k kw = Inr x" "newTLSDataCodec C u' km (\<not> role) cipherName authName k' kw' = Inr y"
      "increasing_from 0 ms" for u u' role k kw k' kw' x y ms
    using new_codec_window [OF that(2)]
    by (intro session_delivers [OF assms(1) tls_codec_peers [OF assms(1) that(1,2)] that(3)]) blast
  show ?thesis
    using parsed km delivers [of t False n tw _ t' n' tw'] delivers [of t' True n' tw' _ t n tw]
    by (intro exI [of _ cm] exI [of _ "without_premaster sm"] exI [of _ km]) simp
qed

lemma sample_codec:
  "length km = 256 \<Longrightarrow> \<exists>c. newTLSDataCodec sample_crypto 0 km server ''AES-128-CBC'' ''SHA256'' 0 0 = Inr c"
  by (simp add: newTLSDataCodec_def newTLSCBCDataCodec_def sample_crypto_def tlsStreamCipherSpec_def HasSuffix_def
        staticCipherKeySize_def staticHMACFactory_def newStaticCipherBlock_def splitStaticKeyMaterial_def
        tlsDataKeySlots_def Let_def dataReplayWindowParameters_def split: prod.splits)

theorem negotiated_session_understood_witness:
  "\<exists>km c s w. length km = 256 \<and> newTLSDataCodec sample_crypto 0 km False ''AES-128-CBC'' ''SHA256'' 0 0 = Inr c \<and>
     newTLSDataCodec sample_crypto 0 km True ''AES-128-CBC'' ''SHA256'' 0 0 = Inr s \<and>
     sends sample_crypto c sample_message w \<and> fst (decode_all sample_crypto s [((0, 1), [], w)]) = [Inr (1, [0x45])]"
proof -
  have "\<exists>b. writeLengthPrefixedString ''V4'' = Inr b" "\<exists>b. writeLengthPrefixedString ''u'' = Inr b"
    "\<exists>b. writeLengthPrefixedString [] = Inr b" "\<exists>b. writeLengthPrefixedString ''IV_VER=2'' = Inr b"
    by (simp_all add: write_string_ok)
  then obtain cp sp where p: "buildTLSKeyMethod2Payload False sample_key_message = Inr cp" "buildTLSKeyMethod2Payload True sample_key_message = Inr sp"
    by (auto simp: buildTLSKeyMethod2Payload_def sample_key_message_def sample_key_source_def)
  obtain km where km: "length km = 256" and run:
    "\<forall>c s ms. newTLSDataCodec sample_crypto 0 km False ''AES-128-CBC'' ''SHA256'' 0 0 = Inr c \<and>
       newTLSDataCodec sample_crypto 0 km True ''AES-128-CBC'' ''SHA256'' 0 0 = Inr s \<and> increasing_from 0 ms \<longrightarrow>
       (\<exists>ws. list_all2 (sends sample_crypto c) ms ws \<and>
          fst (decode_all sample_crypto s (map2 (\<lambda>m w. (msg_clock m, msg_aad m, w)) ms ws)) = map (\<lambda>m. Inr (msg_id m, msg_payload m)) ms)"
    using negotiated_session_understood [OF sample_crypto_ok p, of "Inl (Link 0)" "[]" "[]" "Inl (Link 0)" 0 "''AES-128-CBC''" "''SHA256''" 0 0 0 0 0]
    by blast
  obtain c s where cs: "newTLSDataCodec sample_crypto 0 km False ''AES-128-CBC'' ''SHA256'' 0 0 = Inr c"
    "newTLSDataCodec sample_crypto 0 km True ''AES-128-CBC'' ''SHA256'' 0 0 = Inr s"
    using sample_codec [OF km] by metis
  obtain ws where "list_all2 (sends sample_crypto c) [sample_message] ws"
    "fst (decode_all sample_crypto s (map2 (\<lambda>m w. (msg_clock m, msg_aad m, w)) [sample_message] ws)) =
       map (\<lambda>m. Inr (msg_id m, msg_payload m)) [sample_message]"
    using run cs sample_message_ok by blast
  then have "\<exists>w. sends sample_crypto c sample_message w \<and> fst (decode_all sample_crypto s [((0, 1), [], w)]) = [Inr (1, [0x45])]"
    by (auto simp: list_all2_Cons1 sample_message_def)
  then show ?thesis using km cs by blast
qed

end
